(* ===== verification/Prelude.thy ===== *)
theory Prelude
  imports Main "HOL-Library.Word" "HOL-Library.State_Monad" "HOL-Library.Multiset"
begin

unbundle bit_operations_syntax

text \<open>
  Shared vocabulary of the development: the machine-integer types, little-endian
  byte packing, the status codes of the hardware library and the generic lemmas the
  component theories use.  Every component theory imports this one.
\<close>

section \<open>Machine integers and bytes\<close>

type_synonym byte = "8 word"
type_synonym u16 = "16 word"
type_synonym u32 = "32 word"
type_synonym u64 = "64 word"

text \<open>Collections: bus-trace facts, status facts and word facts.\<close>

named_theorems bus_simps
named_theorems word_facts

text \<open>Both targets of the program (x86-64 server, ARM node) are little-endian.\<close>

definition le32 :: "byte \<Rightarrow> byte \<Rightarrow> byte \<Rightarrow> byte \<Rightarrow> u32" where
  "le32 a b c d =
     ucast a OR push_bit 8 (ucast b) OR push_bit 16 (ucast c) OR push_bit 24 (ucast d)"

definition bytes32 :: "u32 \<Rightarrow> byte list" where
  "bytes32 w = [ucast w, ucast (drop_bit 8 w), ucast (drop_bit 16 w), ucast (drop_bit 24 w)]"

text \<open>A memory region seen through a pointer: the byte at each offset from it.\<close>

type_synonym mem = "nat \<Rightarrow> byte"

definition word_at :: "mem \<Rightarrow> nat \<Rightarrow> u32" where
  "word_at m p = le32 (m p) (m (p + 1)) (m (p + 2)) (m (p + 3))"

definition bytes_at :: "mem \<Rightarrow> nat \<Rightarrow> nat \<Rightarrow> byte list" where
  "bytes_at m p n = map m [p..<p + n]"

lemma length_bytes32 [simp]: "length (bytes32 w) = 4"
  by (simp add: bytes32_def)

lemma length_bytes_at [simp]: "length (bytes_at m p n) = n"
  by (simp add: bytes_at_def)

lemma bytes_at_0 [simp]: "bytes_at m p 0 = []"
  by (simp add: bytes_at_def)

lemma bytes_at_add: "bytes_at m p (i + j) = bytes_at m p i @ bytes_at m (p + i) j"
proof -
  have "[p..<p + (i + j)] = [p..<p + i] @ [p + i..<p + i + j]"
    using upt_add_eq_append[of p "p + i" j] by (simp add: add.assoc)
  then show ?thesis by (simp add: bytes_at_def)
qed

lemma bytes_at_nth [simp]: "i < n \<Longrightarrow> bytes_at m p n ! i = m (p + i)"
  by (simp add: bytes_at_def)

lemma bit_byte_high [simp]: "8 \<le> n \<Longrightarrow> \<not> bit (b :: byte) n"
  using bit_imp_le_length[of b n] by auto

lemma bytes32_le32 [simp]: "bytes32 (le32 a b c d) = [a, b, c, d]"
  by (auto simp: bytes32_def le32_def bit_simps intro!: bit_word_eqI)

lemma le32_bytes32:
  "le32 (ucast w) (ucast (drop_bit 8 w)) (ucast (drop_bit 16 w)) (ucast (drop_bit 24 w)) = (w :: u32)"
proof (rule bit_word_eqI)
  fix n
  assume n: "n < LENGTH(32)"
  consider "n < 8" | "8 \<le> n \<and> n < 16" | "16 \<le> n \<and> n < 24" | "24 \<le> n" by linarith
  then show "bit (le32 (ucast w) (ucast (drop_bit 8 w)) (ucast (drop_bit 16 w))
      (ucast (drop_bit 24 w))) n = bit w n"
    using n by cases (auto simp: le32_def bit_simps)
qed

lemma bytes32_word_at: "bytes32 (word_at m p) = bytes_at m p 4"
  by (simp add: word_at_def bytes_at_def upt_rec numeral_3_eq_3)

lemma bytes32_inject: "bytes32 v = bytes32 w \<longleftrightarrow> v = w"
proof
  assume "bytes32 v = bytes32 w"
  then have "le32 (ucast v) (ucast (drop_bit 8 v)) (ucast (drop_bit 16 v)) (ucast (drop_bit 24 v)) =
      le32 (ucast w) (ucast (drop_bit 8 w)) (ucast (drop_bit 16 w)) (ucast (drop_bit 24 w))"
    unfolding bytes32_def by (simp only: list.inject)
  then show "v = w" unfolding le32_bytes32 .
qed simp

section \<open>Memory regions\<close>

definition store32 :: "mem \<Rightarrow> nat \<Rightarrow> u32 \<Rightarrow> mem" where
  "store32 m p w =
     m(p := ucast w, p + 1 := ucast (drop_bit 8 w), p + 2 := ucast (drop_bit 16 w),
       p + 3 := ucast (drop_bit 24 w))"

definition store_bytes :: "mem \<Rightarrow> nat \<Rightarrow> byte list \<Rightarrow> mem" where
  "store_bytes m p bs = (\<lambda>q. if p \<le> q \<and> q < p + length bs then bs ! (q - p) else m q)"

lemma word_at_store32 [simp]: "word_at (store32 m p w) p = w"
  by (simp add: word_at_def store32_def le32_bytes32)

lemma store32_other [simp]: "q < p \<or> p + 4 \<le> q \<Longrightarrow> store32 m p w q = m q"
  by (auto simp: store32_def)

lemma word_at_store32_other [simp]:
  "q + 4 \<le> p \<or> p + 4 \<le> q \<Longrightarrow> word_at (store32 m p w) q = word_at m q"
  by (auto simp: word_at_def)

lemma store_bytes_other [simp]: "q < p \<or> p + length bs \<le> q \<Longrightarrow> store_bytes m p bs q = m q"
  by (auto simp: store_bytes_def)

lemma word_at_store_bytes_other [simp]:
  "q + 4 \<le> p \<or> p + length bs \<le> q \<Longrightarrow> word_at (store_bytes m p bs) q = word_at m q"
  by (auto simp: word_at_def)

lemma word_at_upd_other [simp]: "q < p \<or> p + 4 \<le> q \<Longrightarrow> word_at (m(q := b)) p = word_at m p"
  by (auto simp: word_at_def)

lemma bytes_at_store_bytes [simp]: "bytes_at (store_bytes m p bs) p (length bs) = bs"
  by (rule nth_equalityI) (simp_all add: store_bytes_def)

lemma bytes_at_cong: "(\<And>i. i < n \<Longrightarrow> m (p + i) = m' (q + i)) \<Longrightarrow> bytes_at m p n = bytes_at m' q n"
  by (rule nth_equalityI) simp_all

lemma word_at_cong: "(\<And>i. i < 4 \<Longrightarrow> m (p + i) = m' (p + i)) \<Longrightarrow> word_at m p = word_at m' p"
  unfolding word_at_def using add_0_right[of p] by (metis less_numeral_extra(1) numeral_less_iff
    one_less_numeral_iff semiring_norm(76,77,78,79,81) zero_less_numeral)

section \<open>Status codes (hwlib.h)\<close>

datatype status =
    ALT_E_SUCCESS | ALT_E_ERROR | ALT_E_FPGA_CFG | ALT_E_FPGA_CRC | ALT_E_FPGA_CFG_STM
  | ALT_E_FPGA_PWR_OFF | ALT_E_FPGA_NO_SOC_CTRL | ALT_E_FPGA_NOT_USER_MODE | ALT_E_ARG_RANGE
  | ALT_E_BAD_ARG | ALT_E_BAD_OPERATION | ALT_E_INV_OPTION | ALT_E_TMO | ALT_E_RESERVED
  | ALT_E_BAD_CLK | ALT_E_BAD_VERSION | ALT_E_BUF_OVF

fun status_code :: "status \<Rightarrow> int" where
  "status_code ALT_E_SUCCESS = 0"
| "status_code ALT_E_ERROR = -1"
| "status_code ALT_E_FPGA_CFG = -2"
| "status_code ALT_E_FPGA_CRC = -3"
| "status_code ALT_E_FPGA_CFG_STM = -4"
| "status_code ALT_E_FPGA_PWR_OFF = -5"
| "status_code ALT_E_FPGA_NO_SOC_CTRL = -6"
| "status_code ALT_E_FPGA_NOT_USER_MODE = -7"
| "status_code ALT_E_ARG_RANGE = -8"
| "status_code ALT_E_BAD_ARG = -9"
| "status_code ALT_E_BAD_OPERATION = -10"
| "status_code ALT_E_INV_OPTION = -11"
| "status_code ALT_E_TMO = -12"
| "status_code ALT_E_RESERVED = -13"
| "status_code ALT_E_BAD_CLK = -14"
| "status_code ALT_E_BAD_VERSION = -15"
| "status_code ALT_E_BUF_OVF = -20"

section \<open>Generic facts\<close>

lemma run_return [simp]: "run_state (State_Monad.return x) s = (x, s)"
  by (simp add: State_Monad.return_def)

lemma run_bind [simp]:
  "run_state (State_Monad.bind m f) s =
     (let (x, s') = run_state m s in run_state (f x) s')"
  by (simp add: State_Monad.bind_def Let_def split: prod.split)

lemma mset_sub_distinct:
  assumes "mset xs \<subseteq># mset ys" and "distinct ys"
  shows "distinct xs"
proof -
  obtain zs where "mset zs = mset ys - mset xs" using ex_mset by blast
  then have "mset (xs @ zs) = mset ys" using assms(1) by simp
  with assms(2) have "distinct (xs @ zs)" using mset_eq_imp_distinct_iff by blast
  then show ?thesis by simp
qed

lemma unat_widen64 [simp]: "unat (ucast (w :: u32) :: u64) = unat w"
proof -
  have "unat w < 2 ^ 32" using unsigned_less[of w] by simp
  then have "unat w < 2 ^ 64" by simp
  then show ?thesis by (simp add: unsigned_ucast_eq take_bit_nat_eq_self)
qed

lemma and_mask_bound: "unat (w AND mask n) < 2 ^ n" for w :: "'a::len word"
  by (simp add: take_bit_eq_mask [symmetric] unsigned_take_bit_eq)

end
