(* ===== verification/Hps_Map.thy ===== *)
theory Hps_Map
  imports Prelude
begin

text \<open>
  The address map of the hard processor system (\<^verbatim>\<open>node/FPGAconfig/hps.h\<close>): each component
  instance with its offset and size, and the register groups inside it.  The addresses are the
  physical ones; a Linux build reaches those of the FPGA manager through two mapped windows.
  The offsets of single registers come from headers of the components; only that of the FPGA manager
  is in the repository (\<^theory_text>\<open>Fpgamgr_Regs\<close>).
\<close>

section \<open>Regions\<close>

text \<open>
  An instance is at an offset from what contains it, which is the whole address space for a
  component.  Its size is what its upper bound macro adds to its start, plus one.
\<close>

datatype region = Region (rofst: nat) (rspan: nat) (groups: "region list")

text \<open>Its parts lie inside it, in order, and do not meet.\<close>

fun region_ok :: "region \<Rightarrow> bool" where
  "region_ok (Region a s gs) \<longleftrightarrow>
     0 < s \<and> list_all region_ok gs \<and> list_all (\<lambda>g. rofst g + rspan g \<le> s) gs \<and>
     sorted_wrt (\<lambda>g h. rofst g + rspan g \<le> rofst h) gs"

text \<open>The address windows of a region and of all regions in it.\<close>

fun windows :: "nat \<Rightarrow> region \<Rightarrow> (nat \<times> nat) list" where
  "windows base (Region a s gs) = (base + a, s) # concat (map (windows (base + a)) gs)"

definition apart :: "nat \<times> nat \<Rightarrow> nat \<times> nat \<Rightarrow> bool" where
  "apart v w \<longleftrightarrow> fst v + snd v \<le> fst w \<or> fst w + snd w \<le> fst v"

definition inside :: "nat \<times> nat \<Rightarrow> nat \<times> nat \<Rightarrow> bool" where
  "inside v w \<longleftrightarrow> fst w \<le> fst v \<and> fst v + snd v \<le> fst w + snd w"

lemma windows_inside: "region_ok r \<Longrightarrow> v \<in> set (windows b r) \<Longrightarrow> inside v (b + rofst r, rspan r)"
proof (induction b r arbitrary: v rule: windows.induct)
  case (1 base a s gs)
  show ?case
  proof (cases "v = (base + a, s)")
    case False
    with 1(3) obtain g where g: "g \<in> set gs" "v \<in> set (windows (base + a) g)" by auto
    with 1(2) have "region_ok g" "rofst g + rspan g \<le> s" by (auto simp: list_all_iff)
    with 1(1)[OF g(1) this(1) g(2)] show ?thesis by (auto simp: inside_def)
  qed (simp add: inside_def)
qed

text \<open>Two parts of a list that is in order.\<close>

lemma sorted_wrt_two:
  assumes "sorted_wrt P xs" and "x \<in> set xs" and "y \<in> set xs" and "x \<noteq> y"
  shows "P x y \<or> P y x"
  using assms by (induction xs) auto

definition laminar :: "(nat \<times> nat) set \<Rightarrow> bool" where
  "laminar W \<longleftrightarrow> (\<forall>v\<in>W. \<forall>w\<in>W. apart v w \<or> inside v w \<or> inside w v)"

lemma apart_inside: "apart v w \<Longrightarrow> inside v' v \<Longrightarrow> inside w' w \<Longrightarrow> apart v' w'"
  by (auto simp: apart_def inside_def)

lemma parts_laminar:
  assumes "list_all region_ok gs" and "sorted_wrt (\<lambda>g h. rofst g + rspan g \<le> rofst h) gs"
    and "\<And>g. g \<in> set gs \<Longrightarrow> laminar (set (windows b g))"
  shows "laminar (set (concat (map (windows b) gs)))"
  unfolding laminar_def
proof (intro ballI)
  fix v w
  assume "v \<in> set (concat (map (windows b) gs))" and "w \<in> set (concat (map (windows b) gs))"
  then obtain g h where g: "g \<in> set gs" "v \<in> set (windows b g)" and h: "h \<in> set gs" "w \<in> set (windows b h)" by auto
  show "apart v w \<or> inside v w \<or> inside w v"
  proof (cases "g = h")
    case True
    then show ?thesis using assms(3)[OF g(1)] g h by (auto simp: laminar_def)
  next
    case False
    with sorted_wrt_two[OF assms(2) g(1) h(1)] have "apart (b + rofst g, rspan g) (b + rofst h, rspan h)"
      by (auto simp: apart_def)
    moreover have "inside v (b + rofst g, rspan g)" "inside w (b + rofst h, rspan h)"
      using windows_inside assms(1) g h by (auto simp: list_all_iff)
    ultimately show ?thesis using apart_inside by blast
  qed
qed

lemma laminar_insert: "laminar W \<Longrightarrow> \<forall>v\<in>W. inside v t \<Longrightarrow> laminar (insert t W)"
  by (auto simp: laminar_def inside_def)

lemma windows_laminar: "region_ok r \<Longrightarrow> laminar (set (windows b r))"
proof (induction b r rule: windows.induct)
  case (1 base a s gs)
  let ?P = "concat (map (windows (base + a)) gs)"
  have "laminar (set ?P)"
    by (rule parts_laminar) (use 1 in \<open>auto simp: list_all_iff\<close>)
  moreover have "\<forall>v\<in>set ?P. inside v (base + a, s)"
    using windows_inside[OF 1(2), of _ base] by simp
  ultimately have "laminar (insert (base + a, s) (set ?P))" by (rule laminar_insert)
  then show ?case by simp
qed

section \<open>Instances\<close>

definition ALT_STM :: region where
  "ALT_STM = Region 0xfc000000 0x4 []"

definition ALT_DAP :: region where
  "ALT_DAP = Region 0xff000000 0x4 []"

definition ALT_LWFPGASLVS :: region where
  "ALT_LWFPGASLVS = Region 0xff200000 0x200000 []"

definition ALT_LWH2F_ID :: region where
  "ALT_LWH2F_ID = Region 0x1000 0x1000 []"

definition ALT_LWH2F_MST_MST_F2H :: region where
  "ALT_LWH2F_MST_MST_F2H = Region 0x0 0x48 []"

definition ALT_LWH2F_MST_MST_H2F :: region where
  "ALT_LWH2F_MST_MST_H2F = Region 0x1000 0x48 []"

definition ALT_LWH2F_MST_MST_B32 :: region where
  "ALT_LWH2F_MST_MST_B32 = Region 0x3000 0x10c []"

definition ALT_LWH2F_MST :: region where
  "ALT_LWH2F_MST = Region 0x2000 0x310c [ALT_LWH2F_MST_MST_F2H, ALT_LWH2F_MST_MST_H2F,
     ALT_LWH2F_MST_MST_B32]"

definition ALT_LWH2F_SLV_SLV_B32 :: region where
  "ALT_LWH2F_SLV_SLV_B32 = Region 0x3000 0x10c []"

definition ALT_LWH2F_SLV :: region where
  "ALT_LWH2F_SLV = Region 0x42000 0x310c [ALT_LWH2F_SLV_SLV_B32]"

definition ALT_LWH2F :: region where
  "ALT_LWH2F = Region 0xff400000 0x80000 [ALT_LWH2F_ID, ALT_LWH2F_MST, ALT_LWH2F_SLV]"

definition ALT_H2F_IDGRP :: region where
  "ALT_H2F_IDGRP = Region 0x1000 0x1000 []"

definition ALT_H2F_MST_MST_B32 :: region where
  "ALT_H2F_MST_MST_B32 = Region 0x0 0x10c []"

definition ALT_H2F_MST_MST_B128 :: region where
  "ALT_H2F_MST_MST_B128 = Region 0x2000 0x10c []"

definition ALT_H2F_MSTGRP :: region where
  "ALT_H2F_MSTGRP = Region 0x2000 0x210c [ALT_H2F_MST_MST_B32, ALT_H2F_MST_MST_B128]"

definition ALT_H2F :: region where
  "ALT_H2F = Region 0xff500000 0x8000 [ALT_H2F_IDGRP, ALT_H2F_MSTGRP]"

definition ALT_F2H_IDGRP :: region where
  "ALT_F2H_IDGRP = Region 0x1000 0x1000 []"

definition ALT_F2H_SLV_SLV_B32 :: region where
  "ALT_F2H_SLV_SLV_B32 = Region 0x0 0x10c []"

definition ALT_F2H_SLV_SLV_B128 :: region where
  "ALT_F2H_SLV_SLV_B128 = Region 0x2000 0x10c []"

definition ALT_F2H_SLVGRP :: region where
  "ALT_F2H_SLVGRP = Region 0x42000 0x210c [ALT_F2H_SLV_SLV_B32, ALT_F2H_SLV_SLV_B128]"

definition ALT_F2H :: region where
  "ALT_F2H = Region 0xff600000 0x80000 [ALT_F2H_IDGRP, ALT_F2H_SLVGRP]"

definition ALT_EMAC0_GMACGRP :: region where
  "ALT_EMAC0_GMACGRP = Region 0x0 0xb80 []"

definition ALT_EMAC0_DMAGRP :: region where
  "ALT_EMAC0_DMAGRP = Region 0x1000 0x5c []"

definition ALT_EMAC0 :: region where
  "ALT_EMAC0 = Region 0xff700000 0x2000 [ALT_EMAC0_GMACGRP, ALT_EMAC0_DMAGRP]"

definition ALT_EMAC1_GMACGRP :: region where
  "ALT_EMAC1_GMACGRP = Region 0x0 0xb80 []"

definition ALT_EMAC1_DMAGRP :: region where
  "ALT_EMAC1_DMAGRP = Region 0x1000 0x5c []"

definition ALT_EMAC1 :: region where
  "ALT_EMAC1 = Region 0xff702000 0x2000 [ALT_EMAC1_GMACGRP, ALT_EMAC1_DMAGRP]"

definition ALT_SDMMC :: region where
  "ALT_SDMMC = Region 0xff704000 0x400 []"

definition ALT_QSPI :: region where
  "ALT_QSPI = Region 0xff705000 0x100 []"

definition ALT_FPGAMGR_MON :: region where
  "ALT_FPGAMGR_MON = Region 0x800 0x80 []"

definition ALT_FPGAMGR :: region where
  "ALT_FPGAMGR = Region 0xff706000 0x1000 [ALT_FPGAMGR_MON]"

definition ALT_ACPIDMAP :: region where
  "ALT_ACPIDMAP = Region 0xff707000 0x1000 []"

definition ALT_GPIO0 :: region where
  "ALT_GPIO0 = Region 0xff708000 0x80 []"

definition ALT_GPIO1 :: region where
  "ALT_GPIO1 = Region 0xff709000 0x80 []"

definition ALT_GPIO2 :: region where
  "ALT_GPIO2 = Region 0xff70a000 0x80 []"

definition ALT_L3_SECGRP :: region where
  "ALT_L3_SECGRP = Region 0x8 0x9c []"

definition ALT_L3_IDGRP :: region where
  "ALT_L3_IDGRP = Region 0x1000 0x1000 []"

definition ALT_L3_MST_MST_L4MAIN :: region where
  "ALT_L3_MST_MST_L4MAIN = Region 0x0 0xc []"

definition ALT_L3_MST_MST_L4SP :: region where
  "ALT_L3_MST_MST_L4SP = Region 0x1000 0xc []"

definition ALT_L3_MST_MST_L4MP :: region where
  "ALT_L3_MST_MST_L4MP = Region 0x2000 0xc []"

definition ALT_L3_MST_MST_L4OSC1 :: region where
  "ALT_L3_MST_MST_L4OSC1 = Region 0x3000 0xc []"

definition ALT_L3_MST_MST_L4SPIM :: region where
  "ALT_L3_MST_MST_L4SPIM = Region 0x4000 0xc []"

definition ALT_L3_MST_MST_STM :: region where
  "ALT_L3_MST_MST_STM = Region 0x5000 0x10c []"

definition ALT_L3_MST_MST_LWH2F :: region where
  "ALT_L3_MST_MST_LWH2F = Region 0x6000 0x10c []"

definition ALT_L3_MST_MST_USB1 :: region where
  "ALT_L3_MST_MST_USB1 = Region 0x8000 0x48 []"

definition ALT_L3_MST_MST_NANDDATA :: region where
  "ALT_L3_MST_MST_NANDDATA = Region 0x9000 0x10c []"

definition ALT_L3_MST_MST_USB0 :: region where
  "ALT_L3_MST_MST_USB0 = Region 0x1e000 0x48 []"

definition ALT_L3_MST_MST_NAND :: region where
  "ALT_L3_MST_MST_NAND = Region 0x1f000 0x10c []"

definition ALT_L3_MST_MST_QSPIDATA :: region where
  "ALT_L3_MST_MST_QSPIDATA = Region 0x20000 0x48 []"

definition ALT_L3_MST_MST_FPGAMGRDATA :: region where
  "ALT_L3_MST_MST_FPGAMGRDATA = Region 0x21000 0x10c []"

definition ALT_L3_MST_MST_H2F :: region where
  "ALT_L3_MST_MST_H2F = Region 0x22000 0x10c []"

definition ALT_L3_MST_MST_ACP :: region where
  "ALT_L3_MST_MST_ACP = Region 0x23000 0x10c []"

definition ALT_L3_MST_MST_ROM :: region where
  "ALT_L3_MST_MST_ROM = Region 0x24000 0x10c []"

definition ALT_L3_MST_MST_OCRAM :: region where
  "ALT_L3_MST_MST_OCRAM = Region 0x25000 0x10c []"

definition ALT_L3_MSTGRP :: region where
  "ALT_L3_MSTGRP = Region 0x2000 0x2510c [ALT_L3_MST_MST_L4MAIN, ALT_L3_MST_MST_L4SP,
     ALT_L3_MST_MST_L4MP, ALT_L3_MST_MST_L4OSC1, ALT_L3_MST_MST_L4SPIM, ALT_L3_MST_MST_STM,
     ALT_L3_MST_MST_LWH2F, ALT_L3_MST_MST_USB1, ALT_L3_MST_MST_NANDDATA, ALT_L3_MST_MST_USB0,
     ALT_L3_MST_MST_NAND, ALT_L3_MST_MST_QSPIDATA, ALT_L3_MST_MST_FPGAMGRDATA, ALT_L3_MST_MST_H2F,
     ALT_L3_MST_MST_ACP, ALT_L3_MST_MST_ROM, ALT_L3_MST_MST_OCRAM]"

definition ALT_L3_SLV_SLV_DAP :: region where
  "ALT_L3_SLV_SLV_DAP = Region 0x0 0x10c []"

definition ALT_L3_SLV_SLV_MPU :: region where
  "ALT_L3_SLV_SLV_MPU = Region 0x1000 0x10c []"

definition ALT_L3_SLV_SLV_SDMMC :: region where
  "ALT_L3_SLV_SLV_SDMMC = Region 0x2000 0x10c []"

definition ALT_L3_SLV_SLV_DMA :: region where
  "ALT_L3_SLV_SLV_DMA = Region 0x3000 0x10c []"

definition ALT_L3_SLV_SLV_F2H :: region where
  "ALT_L3_SLV_SLV_F2H = Region 0x4000 0x10c []"

definition ALT_L3_SLV_SLV_ETR :: region where
  "ALT_L3_SLV_SLV_ETR = Region 0x5000 0x10c []"

definition ALT_L3_SLV_SLV_EMAC0 :: region where
  "ALT_L3_SLV_SLV_EMAC0 = Region 0x6000 0x10c []"

definition ALT_L3_SLV_SLV_EMAC1 :: region where
  "ALT_L3_SLV_SLV_EMAC1 = Region 0x7000 0x10c []"

definition ALT_L3_SLV_SLV_USB0 :: region where
  "ALT_L3_SLV_SLV_USB0 = Region 0x8000 0x10c []"

definition ALT_L3_SLV_SLV_NAND :: region where
  "ALT_L3_SLV_SLV_NAND = Region 0x9000 0x10c []"

definition ALT_L3_SLV_SLV_USB1 :: region where
  "ALT_L3_SLV_SLV_USB1 = Region 0xa000 0x10c []"

definition ALT_L3_SLVGRP :: region where
  "ALT_L3_SLVGRP = Region 0x42000 0xa10c [ALT_L3_SLV_SLV_DAP, ALT_L3_SLV_SLV_MPU,
     ALT_L3_SLV_SLV_SDMMC, ALT_L3_SLV_SLV_DMA, ALT_L3_SLV_SLV_F2H, ALT_L3_SLV_SLV_ETR,
     ALT_L3_SLV_SLV_EMAC0, ALT_L3_SLV_SLV_EMAC1, ALT_L3_SLV_SLV_USB0, ALT_L3_SLV_SLV_NAND,
     ALT_L3_SLV_SLV_USB1]"

definition ALT_L3 :: region where
  "ALT_L3 = Region 0xff800000 0x80000 [ALT_L3_SECGRP, ALT_L3_IDGRP, ALT_L3_MSTGRP, ALT_L3_SLVGRP]"

definition ALT_NANDDATA :: region where
  "ALT_NANDDATA = Region 0xff900000 0x100000 []"

definition ALT_QSPIDATA :: region where
  "ALT_QSPIDATA = Region 0xffa00000 0x100000 []"

definition ALT_USB0_GLOBGRP :: region where
  "ALT_USB0_GLOBGRP = Region 0x0 0x140 []"

definition ALT_USB0_HOSTGRP :: region where
  "ALT_USB0_HOSTGRP = Region 0x400 0x2fc []"

definition ALT_USB0_DEVGRP :: region where
  "ALT_USB0_DEVGRP = Region 0x800 0x500 []"

definition ALT_USB0_PWRCLKGRP :: region where
  "ALT_USB0_PWRCLKGRP = Region 0xe00 0x4 []"

definition ALT_USB0 :: region where
  "ALT_USB0 = Region 0xffb00000 0x40000 [ALT_USB0_GLOBGRP, ALT_USB0_HOSTGRP, ALT_USB0_DEVGRP,
     ALT_USB0_PWRCLKGRP]"

definition ALT_USB1_GLOBGRP :: region where
  "ALT_USB1_GLOBGRP = Region 0x0 0x140 []"

definition ALT_USB1_HOSTGRP :: region where
  "ALT_USB1_HOSTGRP = Region 0x400 0x2fc []"

definition ALT_USB1_DEVGRP :: region where
  "ALT_USB1_DEVGRP = Region 0x800 0x500 []"

definition ALT_USB1_PWRCLKGRP :: region where
  "ALT_USB1_PWRCLKGRP = Region 0xe00 0x4 []"

definition ALT_USB1 :: region where
  "ALT_USB1 = Region 0xffb40000 0x40000 [ALT_USB1_GLOBGRP, ALT_USB1_HOSTGRP, ALT_USB1_DEVGRP,
     ALT_USB1_PWRCLKGRP]"

definition ALT_NAND_CFG :: region where
  "ALT_NAND_CFG = Region 0x0 0x2b4 []"

definition ALT_NAND_PARAM :: region where
  "ALT_NAND_PARAM = Region 0x300 0xf4 []"

definition ALT_NAND_STAT :: region where
  "ALT_NAND_STAT = Region 0x400 0x144 []"

definition ALT_NAND_ECC :: region where
  "ALT_NAND_ECC = Region 0x650 0x14 []"

definition ALT_NAND_DMA :: region where
  "ALT_NAND_DMA = Region 0x700 0xa4 []"

definition ALT_NAND :: region where
  "ALT_NAND = Region 0xffb80000 0x800 [ALT_NAND_CFG, ALT_NAND_PARAM, ALT_NAND_STAT, ALT_NAND_ECC,
     ALT_NAND_DMA]"

definition ALT_FPGAMGRDATA :: region where
  "ALT_FPGAMGRDATA = Region 0xffb90000 0x4 []"

definition ALT_CAN0_PROTOGRP :: region where
  "ALT_CAN0_PROTOGRP = Region 0x0 0x28 []"

definition ALT_CAN0_MSGHANDGRP :: region where
  "ALT_CAN0_MSGHANDGRP = Region 0x84 0x50 []"

definition ALT_CAN0_MSGIFGRP :: region where
  "ALT_CAN0_MSGIFGRP = Region 0x100 0x38 []"

definition ALT_CAN0 :: region where
  "ALT_CAN0 = Region 0xffc00000 0x200 [ALT_CAN0_PROTOGRP, ALT_CAN0_MSGHANDGRP, ALT_CAN0_MSGIFGRP]"

definition ALT_CAN1_PROTOGRP :: region where
  "ALT_CAN1_PROTOGRP = Region 0x0 0x28 []"

definition ALT_CAN1_MSGHANDGRP :: region where
  "ALT_CAN1_MSGHANDGRP = Region 0x84 0x50 []"

definition ALT_CAN1_MSGIFGRP :: region where
  "ALT_CAN1_MSGIFGRP = Region 0x100 0x38 []"

definition ALT_CAN1 :: region where
  "ALT_CAN1 = Region 0xffc01000 0x200 [ALT_CAN1_PROTOGRP, ALT_CAN1_MSGHANDGRP, ALT_CAN1_MSGIFGRP]"

definition ALT_UART0 :: region where
  "ALT_UART0 = Region 0xffc02000 0x100 []"

definition ALT_UART1 :: region where
  "ALT_UART1 = Region 0xffc03000 0x100 []"

definition ALT_I2C0 :: region where
  "ALT_I2C0 = Region 0xffc04000 0x100 []"

definition ALT_I2C1 :: region where
  "ALT_I2C1 = Region 0xffc05000 0x100 []"

definition ALT_I2C2 :: region where
  "ALT_I2C2 = Region 0xffc06000 0x100 []"

definition ALT_I2C3 :: region where
  "ALT_I2C3 = Region 0xffc07000 0x100 []"

definition ALT_SPTMR0 :: region where
  "ALT_SPTMR0 = Region 0xffc08000 0x100 []"

definition ALT_SPTMR1 :: region where
  "ALT_SPTMR1 = Region 0xffc09000 0x100 []"

definition ALT_SDR_CTL_CTL_MPWEIGHT :: region where
  "ALT_SDR_CTL_CTL_MPWEIGHT = Region 0xb0 0x10 []"

definition ALT_SDR_CTL :: region where
  "ALT_SDR_CTL = Region 0x5000 0x1000 [ALT_SDR_CTL_CTL_MPWEIGHT]"

definition ALT_SDR :: region where
  "ALT_SDR = Region 0xffc20000 0x20000 [ALT_SDR_CTL]"

definition ALT_OSC1TMR0 :: region where
  "ALT_OSC1TMR0 = Region 0xffd00000 0x100 []"

definition ALT_OSC1TMR1 :: region where
  "ALT_OSC1TMR1 = Region 0xffd01000 0x100 []"

definition ALT_L4WD0 :: region where
  "ALT_L4WD0 = Region 0xffd02000 0x100 []"

definition ALT_L4WD1 :: region where
  "ALT_L4WD1 = Region 0xffd03000 0x100 []"

definition ALT_CLKMGR_MAINPLL :: region where
  "ALT_CLKMGR_MAINPLL = Region 0x40 0x40 []"

definition ALT_CLKMGR_PERPLL :: region where
  "ALT_CLKMGR_PERPLL = Region 0x80 0x40 []"

definition ALT_CLKMGR_SDRPLL :: region where
  "ALT_CLKMGR_SDRPLL = Region 0xc0 0x20 []"

definition ALT_CLKMGR_MISCGRP :: region where
  "ALT_CLKMGR_MISCGRP = Region 0xe0 0x20 []"

definition ALT_CLKMGR :: region where
  "ALT_CLKMGR = Region 0xffd04000 0x200 [ALT_CLKMGR_MAINPLL, ALT_CLKMGR_PERPLL, ALT_CLKMGR_SDRPLL,
     ALT_CLKMGR_MISCGRP]"

definition ALT_RSTMGR :: region where
  "ALT_RSTMGR = Region 0xffd05000 0x100 []"

definition ALT_SYSMGR_FPGAINTF :: region where
  "ALT_SYSMGR_FPGAINTF = Region 0x20 0x10 []"

definition ALT_SYSMGR_SCANMGR :: region where
  "ALT_SYSMGR_SCANMGR = Region 0x30 0x4 []"

definition ALT_SYSMGR_FRZCTL :: region where
  "ALT_SYSMGR_FRZCTL = Region 0x40 0x20 []"

definition ALT_SYSMGR_EMAC :: region where
  "ALT_SYSMGR_EMAC = Region 0x60 0x10 []"

definition ALT_SYSMGR_DMA :: region where
  "ALT_SYSMGR_DMA = Region 0x70 0x8 []"

definition ALT_SYSMGR_ISW :: region where
  "ALT_SYSMGR_ISW = Region 0x80 0x20 []"

definition ALT_SYSMGR_ROMCODE_ROMCODE_WARMRAMGRP :: region where
  "ALT_SYSMGR_ROMCODE_ROMCODE_WARMRAMGRP = Region 0x20 0x20 []"

definition ALT_SYSMGR_ROMCODE :: region where
  "ALT_SYSMGR_ROMCODE = Region 0xc0 0x40 [ALT_SYSMGR_ROMCODE_ROMCODE_WARMRAMGRP]"

definition ALT_SYSMGR_ROMHW :: region where
  "ALT_SYSMGR_ROMHW = Region 0x100 0x4 []"

definition ALT_SYSMGR_SDMMC :: region where
  "ALT_SYSMGR_SDMMC = Region 0x108 0x8 []"

definition ALT_SYSMGR_NAND :: region where
  "ALT_SYSMGR_NAND = Region 0x110 0x8 []"

definition ALT_SYSMGR_USB :: region where
  "ALT_SYSMGR_USB = Region 0x118 0x4 []"

definition ALT_SYSMGR_ECC :: region where
  "ALT_SYSMGR_ECC = Region 0x140 0x40 []"

definition ALT_SYSMGR_PINMUX :: region where
  "ALT_SYSMGR_PINMUX = Region 0x400 0x400 []"

definition ALT_SYSMGR :: region where
  "ALT_SYSMGR = Region 0xffd08000 0x4000 [ALT_SYSMGR_FPGAINTF, ALT_SYSMGR_SCANMGR,
     ALT_SYSMGR_FRZCTL, ALT_SYSMGR_EMAC, ALT_SYSMGR_DMA, ALT_SYSMGR_ISW, ALT_SYSMGR_ROMCODE,
     ALT_SYSMGR_ROMHW, ALT_SYSMGR_SDMMC, ALT_SYSMGR_NAND, ALT_SYSMGR_USB, ALT_SYSMGR_ECC,
     ALT_SYSMGR_PINMUX]"

definition ALT_DMANONSECURE :: region where
  "ALT_DMANONSECURE = Region 0xffe00000 0x4 []"

definition ALT_DMASECURE :: region where
  "ALT_DMASECURE = Region 0xffe01000 0x4 []"

definition ALT_SPIS0 :: region where
  "ALT_SPIS0 = Region 0xffe02000 0x80 []"

definition ALT_SPIS1 :: region where
  "ALT_SPIS1 = Region 0xffe03000 0x80 []"

definition ALT_SPIM0 :: region where
  "ALT_SPIM0 = Region 0xfff00000 0x100 []"

definition ALT_SPIM1 :: region where
  "ALT_SPIM1 = Region 0xfff01000 0x100 []"

definition ALT_SCANMGR :: region where
  "ALT_SCANMGR = Region 0xfff02000 0x20 []"

definition ALT_ROM :: region where
  "ALT_ROM = Region 0xfffd0000 0x10000 []"

definition ALT_MPUSCU :: region where
  "ALT_MPUSCU = Region 0xfffec000 0x4 []"

definition ALT_MPUL2 :: region where
  "ALT_MPUL2 = Region 0xfffef000 0x4 []"

definition ALT_OCRAM :: region where
  "ALT_OCRAM = Region 0xffff0000 0x10000 []"

definition ALT_HPS :: "region list" where
  "ALT_HPS = [ALT_STM, ALT_DAP, ALT_LWFPGASLVS, ALT_LWH2F, ALT_H2F, ALT_F2H, ALT_EMAC0, ALT_EMAC1,
     ALT_SDMMC, ALT_QSPI, ALT_FPGAMGR, ALT_ACPIDMAP, ALT_GPIO0, ALT_GPIO1, ALT_GPIO2, ALT_L3,
     ALT_NANDDATA, ALT_QSPIDATA, ALT_USB0, ALT_USB1, ALT_NAND, ALT_FPGAMGRDATA, ALT_CAN0, ALT_CAN1,
     ALT_UART0, ALT_UART1, ALT_I2C0, ALT_I2C1, ALT_I2C2, ALT_I2C3, ALT_SPTMR0, ALT_SPTMR1, ALT_SDR,
     ALT_OSC1TMR0, ALT_OSC1TMR1, ALT_L4WD0, ALT_L4WD1, ALT_CLKMGR, ALT_RSTMGR, ALT_SYSMGR,
     ALT_DMANONSECURE, ALT_DMASECURE, ALT_SPIS0, ALT_SPIS1, ALT_SPIM0, ALT_SPIM1, ALT_SCANMGR,
     ALT_ROM, ALT_MPUSCU, ALT_MPUL2, ALT_OCRAM]"

lemmas region_defs =
  ALT_STM_def ALT_DAP_def ALT_LWFPGASLVS_def ALT_LWH2F_ID_def ALT_LWH2F_MST_MST_F2H_def
  ALT_LWH2F_MST_MST_H2F_def ALT_LWH2F_MST_MST_B32_def ALT_LWH2F_MST_def ALT_LWH2F_SLV_SLV_B32_def
  ALT_LWH2F_SLV_def ALT_LWH2F_def ALT_H2F_IDGRP_def ALT_H2F_MST_MST_B32_def
  ALT_H2F_MST_MST_B128_def ALT_H2F_MSTGRP_def ALT_H2F_def ALT_F2H_IDGRP_def ALT_F2H_SLV_SLV_B32_def
  ALT_F2H_SLV_SLV_B128_def ALT_F2H_SLVGRP_def ALT_F2H_def ALT_EMAC0_GMACGRP_def
  ALT_EMAC0_DMAGRP_def ALT_EMAC0_def ALT_EMAC1_GMACGRP_def ALT_EMAC1_DMAGRP_def ALT_EMAC1_def
  ALT_SDMMC_def ALT_QSPI_def ALT_FPGAMGR_MON_def ALT_FPGAMGR_def ALT_ACPIDMAP_def ALT_GPIO0_def
  ALT_GPIO1_def ALT_GPIO2_def ALT_L3_SECGRP_def ALT_L3_IDGRP_def ALT_L3_MST_MST_L4MAIN_def
  ALT_L3_MST_MST_L4SP_def ALT_L3_MST_MST_L4MP_def ALT_L3_MST_MST_L4OSC1_def
  ALT_L3_MST_MST_L4SPIM_def ALT_L3_MST_MST_STM_def ALT_L3_MST_MST_LWH2F_def ALT_L3_MST_MST_USB1_def
  ALT_L3_MST_MST_NANDDATA_def ALT_L3_MST_MST_USB0_def ALT_L3_MST_MST_NAND_def
  ALT_L3_MST_MST_QSPIDATA_def ALT_L3_MST_MST_FPGAMGRDATA_def ALT_L3_MST_MST_H2F_def
  ALT_L3_MST_MST_ACP_def ALT_L3_MST_MST_ROM_def ALT_L3_MST_MST_OCRAM_def ALT_L3_MSTGRP_def
  ALT_L3_SLV_SLV_DAP_def ALT_L3_SLV_SLV_MPU_def ALT_L3_SLV_SLV_SDMMC_def ALT_L3_SLV_SLV_DMA_def
  ALT_L3_SLV_SLV_F2H_def ALT_L3_SLV_SLV_ETR_def ALT_L3_SLV_SLV_EMAC0_def ALT_L3_SLV_SLV_EMAC1_def
  ALT_L3_SLV_SLV_USB0_def ALT_L3_SLV_SLV_NAND_def ALT_L3_SLV_SLV_USB1_def ALT_L3_SLVGRP_def
  ALT_L3_def ALT_NANDDATA_def ALT_QSPIDATA_def ALT_USB0_GLOBGRP_def ALT_USB0_HOSTGRP_def
  ALT_USB0_DEVGRP_def ALT_USB0_PWRCLKGRP_def ALT_USB0_def ALT_USB1_GLOBGRP_def ALT_USB1_HOSTGRP_def
  ALT_USB1_DEVGRP_def ALT_USB1_PWRCLKGRP_def ALT_USB1_def ALT_NAND_CFG_def ALT_NAND_PARAM_def
  ALT_NAND_STAT_def ALT_NAND_ECC_def ALT_NAND_DMA_def ALT_NAND_def ALT_FPGAMGRDATA_def
  ALT_CAN0_PROTOGRP_def ALT_CAN0_MSGHANDGRP_def ALT_CAN0_MSGIFGRP_def ALT_CAN0_def
  ALT_CAN1_PROTOGRP_def ALT_CAN1_MSGHANDGRP_def ALT_CAN1_MSGIFGRP_def ALT_CAN1_def ALT_UART0_def
  ALT_UART1_def ALT_I2C0_def ALT_I2C1_def ALT_I2C2_def ALT_I2C3_def ALT_SPTMR0_def ALT_SPTMR1_def
  ALT_SDR_CTL_CTL_MPWEIGHT_def ALT_SDR_CTL_def ALT_SDR_def ALT_OSC1TMR0_def ALT_OSC1TMR1_def
  ALT_L4WD0_def ALT_L4WD1_def ALT_CLKMGR_MAINPLL_def ALT_CLKMGR_PERPLL_def ALT_CLKMGR_SDRPLL_def
  ALT_CLKMGR_MISCGRP_def ALT_CLKMGR_def ALT_RSTMGR_def ALT_SYSMGR_FPGAINTF_def
  ALT_SYSMGR_SCANMGR_def ALT_SYSMGR_FRZCTL_def ALT_SYSMGR_EMAC_def ALT_SYSMGR_DMA_def
  ALT_SYSMGR_ISW_def ALT_SYSMGR_ROMCODE_ROMCODE_WARMRAMGRP_def ALT_SYSMGR_ROMCODE_def
  ALT_SYSMGR_ROMHW_def ALT_SYSMGR_SDMMC_def ALT_SYSMGR_NAND_def ALT_SYSMGR_USB_def
  ALT_SYSMGR_ECC_def ALT_SYSMGR_PINMUX_def ALT_SYSMGR_def ALT_DMANONSECURE_def ALT_DMASECURE_def
  ALT_SPIS0_def ALT_SPIS1_def ALT_SPIM0_def ALT_SPIM1_def ALT_SCANMGR_def ALT_ROM_def
  ALT_MPUSCU_def ALT_MPUL2_def ALT_OCRAM_def

text \<open>The whole map is in order, and within the 32-bit address space.\<close>

lemma regions_ok: "list_all region_ok ALT_HPS"
  by (simp add: ALT_HPS_def region_defs)

lemma regions_sorted: "sorted_wrt (\<lambda>g h. rofst g + rspan g \<le> rofst h) ALT_HPS"
  by (simp add: ALT_HPS_def region_defs)

lemma regions_bounded: "list_all (\<lambda>r. rofst r + rspan r \<le> 2 ^ 32) ALT_HPS"
  by (simp add: ALT_HPS_def region_defs)

lemma address_map_laminar: "laminar (set (concat (map (windows 0) ALT_HPS)))"
  by (rule parts_laminar[OF regions_ok regions_sorted])
    (use regions_ok in \<open>auto simp: list_all_iff intro: windows_laminar\<close>)

text \<open>An address is in at most one component.\<close>

lemma one_component:
  assumes "r \<in> set ALT_HPS" and "q \<in> set ALT_HPS" and "r \<noteq> q"
  shows "apart (rofst r, rspan r) (rofst q, rspan q)"
  using sorted_wrt_two[OF regions_sorted assms] by (auto simp: apart_def)

end
