(* ===== verification/Fpgamgr_Regs.thy ===== *)
theory Fpgamgr_Regs
  imports Hps_Map
begin

text \<open>
  The registers of the FPGA manager (\<^verbatim>\<open>node/FPGAconfig/alt_fpgamgr.h\<close>, \<^verbatim>\<open>alt_fpgamgrdata.h\<close>): every field with the
  values of its macros, every register with its offset, its fields and the bit fields of its struct,
  and the structs of the two register groups.  The lemmas show that the macros of a field agree with
  each other and with the struct, so that a field is updated without disturbing another.
\<close>

section \<open>Fields and registers\<close>

text \<open>The macros of a field: \<open>LSB\<close>, \<open>MSB\<close>, \<open>WIDTH\<close>, \<open>SET_MSK\<close>, \<open>CLR_MSK\<close>, \<open>RESET\<close>, \<open>GET\<close>, \<open>SET\<close>, \<open>E_\<close>.\<close>

record reg_field =
  lsb :: nat
  msb :: nat
  width :: nat
  set_msk :: u32
  clr_msk :: u32
  reset_val :: u32
  get_of :: "u32 \<Rightarrow> u32"
  set_of :: "u32 \<Rightarrow> u32"
  enum :: "(string \<times> u32) list"

text \<open>
  A register: the \<open>OFST\<close> macro, its fields, and the bit fields of its struct, each with name,
  width and whether it is \<open>const\<close>; an unnamed one is padding.
\<close>

record register =
  offset :: nat
  reg_fields :: "reg_field list"
  bits :: "(string \<times> nat \<times> bool) list"

definition field_ok :: "reg_field \<Rightarrow> bool" where
  "field_ok f \<longleftrightarrow>
     lsb f \<le> msb f \<and> msb f < 32 \<and> width f = msb f + 1 - lsb f \<and>
     set_msk f = push_bit (lsb f) (mask (width f)) \<and> clr_msk f = NOT (set_msk f) \<and>
     get_of f = (\<lambda>v. drop_bit (lsb f) (v AND set_msk f)) \<and>
     set_of f = (\<lambda>v. push_bit (lsb f) v AND set_msk f) \<and>
     reset_val f \<le> mask (width f) \<and>
     list_all (\<lambda>e. snd e \<le> mask (width f)) (enum f) \<and> distinct (map snd (enum f))"

text \<open>Where the named bit fields of a struct lie, the first at bit 0.\<close>

fun bit_spans :: "nat \<Rightarrow> (string \<times> nat \<times> bool) list \<Rightarrow> (nat \<times> nat) list" where
  "bit_spans p [] = []"
| "bit_spans p ((n, w, c) # bs) = (if n = [] then [] else [(p, w)]) @ bit_spans (p + w) bs"

definition register_ok :: "register \<Rightarrow> bool" where
  "register_ok R \<longleftrightarrow>
     list_all field_ok (reg_fields R) \<and> sorted_wrt (\<lambda>f g. msb f < lsb g) (reg_fields R) \<and>
     bit_spans 0 (bits R) = map (\<lambda>f. (lsb f, width f)) (reg_fields R) \<and>
     sum_list (map (\<lambda>b. fst (snd b)) (bits R)) = 32"

section \<open>Updating a field\<close>

definition field_update :: "reg_field \<Rightarrow> u32 \<Rightarrow> u32 \<Rightarrow> u32" where
  "field_update f x v = (x AND clr_msk f) OR set_of f v"

lemma field_bits:
  assumes "field_ok f"
  shows "bit (set_msk f) n \<longleftrightarrow> lsb f \<le> n \<and> n \<le> msb f"
    and "bit (get_of f x) n \<longleftrightarrow> n < width f \<and> bit x (n + lsb f)"
    and "bit (field_update f x v) n \<longleftrightarrow>
      (if lsb f \<le> n \<and> n \<le> msb f then bit v (n - lsb f) else bit x n)"
proof -
  note ok = assms[unfolded field_ok_def]
  show m: "bit (set_msk f) n \<longleftrightarrow> lsb f \<le> n \<and> n \<le> msb f" for n
    using ok by (auto simp: bit_simps)
  have g: "get_of f = (\<lambda>v. drop_bit (lsb f) (v AND set_msk f))" "set_of f = (\<lambda>v. push_bit (lsb f) v AND set_msk f)"
    "clr_msk f = NOT (set_msk f)" "msb f < 32" "width f = msb f + 1 - lsb f" "lsb f \<le> msb f" using ok by blast+
  show "bit (get_of f x) n \<longleftrightarrow> n < width f \<and> bit x (n + lsb f)"
    unfolding g(1) by (auto simp: bit_drop_bit_eq bit_and_iff m g(5) add.commute)
  have c: "bit (clr_msk f) n \<longleftrightarrow> n < 32 \<and> \<not> (lsb f \<le> n \<and> n \<le> msb f)"
    unfolding g(3) by (simp add: bit_not_iff m)
  have s: "bit (set_of f v) n \<longleftrightarrow> lsb f \<le> n \<and> n \<le> msb f \<and> bit v (n - lsb f)"
    unfolding g(2) using g(4) by (auto simp: bit_and_iff bit_push_bit_iff m)
  show "bit (field_update f x v) n \<longleftrightarrow>
      (if lsb f \<le> n \<and> n \<le> msb f then bit v (n - lsb f) else bit x n)"
    unfolding field_update_def bit_or_iff bit_and_iff c s by (auto dest: bit_imp_le_length)
qed

lemma field_update_get:
  assumes "field_ok f"
  shows "get_of f (field_update f x v) = v AND mask (width f)"
proof (rule bit_eqI)
  fix n
  have "n < width f \<Longrightarrow> n + lsb f \<le> msb f" using assms by (auto simp: field_ok_def)
  then show "bit (get_of f (field_update f x v)) n = bit (v AND mask (width f)) n"
    using assms by (auto simp: field_bits bit_simps dest: bit_imp_le_length)
qed

lemma field_update_other:
  assumes "field_ok f" and "field_ok g" and "msb f < lsb g \<or> msb g < lsb f"
  shows "get_of g (field_update f x v) = get_of g x"
proof (rule bit_eqI)
  fix n
  have "n < width g \<Longrightarrow> \<not> (lsb f \<le> n + lsb g \<and> n + lsb g \<le> msb f)" using assms by (auto simp: field_ok_def)
  then show "bit (get_of g (field_update f x v)) n = bit (get_of g x) n"
    using assms by (auto simp: field_bits)
qed

lemma register_update:
  assumes "register_ok R" and "f \<in> set (reg_fields R)"
  shows "get_of f (field_update f x v) = v AND mask (width f)"
    and "g \<in> set (reg_fields R) \<Longrightarrow> g \<noteq> f \<Longrightarrow> get_of g (field_update f x v) = get_of g x"
proof -
  have ok: "\<And>g. g \<in> set (reg_fields R) \<Longrightarrow> field_ok g" using assms(1) by (simp add: register_ok_def list_all_iff)
  show "get_of f (field_update f x v) = v AND mask (width f)" by (rule field_update_get[OF ok[OF assms(2)]])
  show "get_of g (field_update f x v) = get_of g x" if "g \<in> set (reg_fields R)" "g \<noteq> f"
    using sorted_wrt_two[OF _ assms(2) that(1)] assms(1) that(2) ok[OF assms(2)] ok[OF that(1)]
    by (intro field_update_other) (auto simp: register_ok_def)
qed

section \<open>Registers of the FPGA manager\<close>

subsection \<open>Status Register - stat\<close>

definition ALT_FPGAMGR_STAT_MOD :: reg_field where
  "ALT_FPGAMGR_STAT_MOD = \<lparr> lsb = 0, msb = 2, width = 3, set_msk = 0x00000007, clr_msk = 0xfffffff8, reset_val = 0x5,
     get_of = (\<lambda>value. drop_bit 0 (value AND 0x00000007)), set_of = (\<lambda>value. push_bit 0 value AND 0x00000007),
     enum = [(''FPGAOFF'', 0x0), (''RSTPHASE'', 0x1), (''CFGPHASE'', 0x2), (''INITPHASE'', 0x3),
        (''USERMOD'', 0x4), (''UNKNOWN'', 0x5)] \<rparr>"

definition ALT_FPGAMGR_STAT_MSEL :: reg_field where
  "ALT_FPGAMGR_STAT_MSEL = \<lparr> lsb = 3, msb = 7, width = 5, set_msk = 0x000000f8, clr_msk = 0xffffff07, reset_val = 0x8,
     get_of = (\<lambda>value. drop_bit 3 (value AND 0x000000f8)), set_of = (\<lambda>value. push_bit 3 value AND 0x000000f8),
     enum = [(''PP16_FAST_NOAES_NODC'', 0x0), (''PP16_FAST_AES_NODC'', 0x1),
        (''PP16_FAST_AESOPT_DC'', 0x2), (''RSVD3'', 0x3), (''PP16_SLOW_NOAES_NODC'', 0x4),
        (''PP16_SLOW_AES_NODC'', 0x5), (''PP16_SLOW_AESOPT_DC'', 0x6), (''RSVD7'', 0x7),
        (''PP32_FAST_NOAES_NODC'', 0x8), (''PP32_FAST_AES_NODC'', 0x9),
        (''PP32_FAST_AESOPT_DC'', 0xa), (''RSVD11'', 0xb), (''PP32_SLOW_NOAES_NODC'', 0xc),
        (''PP32_SLOW_AES_NODC'', 0xd), (''PP32_SLOW_AESOPT_DC'', 0xe), (''RSVD15'', 0xf),
        (''RSVD16'', 0x10), (''RSVD17'', 0x11), (''RSVD18'', 0x12), (''RSVD19'', 0x13),
        (''RSVD20'', 0x14), (''RSVD21'', 0x15), (''RSVD22'', 0x16), (''RSVD23'', 0x17),
        (''RSVD24'', 0x18), (''RSVD25'', 0x19), (''RSVD26'', 0x1a), (''RSVD27'', 0x1b),
        (''RSVD28'', 0x1c), (''RSVD29'', 0x1d), (''RSVD30'', 0x1e), (''RSVD31'', 0x1f)] \<rparr>"

definition ALT_FPGAMGR_STAT :: register where
  "ALT_FPGAMGR_STAT = \<lparr> offset = 0x0,
     reg_fields = [ALT_FPGAMGR_STAT_MOD, ALT_FPGAMGR_STAT_MSEL],
     bits = [(''mode'', 3, False), (''msel'', 5, True), ('''', 24, False)] \<rparr>"

lemmas alt_fpgamgr_stat_defs = ALT_FPGAMGR_STAT_def
  ALT_FPGAMGR_STAT_MOD_def
  ALT_FPGAMGR_STAT_MSEL_def

subsection \<open>Control Register - ctrl\<close>

definition ALT_FPGAMGR_CTL_EN :: reg_field where
  "ALT_FPGAMGR_CTL_EN = \<lparr> lsb = 0, msb = 0, width = 1, set_msk = 0x00000001, clr_msk = 0xfffffffe, reset_val = 0x0,
     get_of = (\<lambda>value. drop_bit 0 (value AND 0x00000001)), set_of = (\<lambda>value. push_bit 0 value AND 0x00000001),
     enum = [(''FPGA_PINS_CTL_CFG'', 0x0), (''FPGAMGR_CTLS_CFG'', 0x1)] \<rparr>"

definition ALT_FPGAMGR_CTL_NCE :: reg_field where
  "ALT_FPGAMGR_CTL_NCE = \<lparr> lsb = 1, msb = 1, width = 1, set_msk = 0x00000002, clr_msk = 0xfffffffd, reset_val = 0x0,
     get_of = (\<lambda>value. drop_bit 1 (value AND 0x00000002)), set_of = (\<lambda>value. push_bit 1 value AND 0x00000002),
     enum = [(''CFG_END'', 0x0), (''CFG_DISD'', 0x1)] \<rparr>"

definition ALT_FPGAMGR_CTL_NCFGPULL :: reg_field where
  "ALT_FPGAMGR_CTL_NCFGPULL = \<lparr> lsb = 2, msb = 2, width = 1, set_msk = 0x00000004, clr_msk = 0xfffffffb, reset_val = 0x0,
     get_of = (\<lambda>value. drop_bit 2 (value AND 0x00000004)), set_of = (\<lambda>value. push_bit 2 value AND 0x00000004),
     enum = [(''DONT_PULLDOWN'', 0x0), (''PULLDOWN'', 0x1)] \<rparr>"

definition ALT_FPGAMGR_CTL_NSTATPULL :: reg_field where
  "ALT_FPGAMGR_CTL_NSTATPULL = \<lparr> lsb = 3, msb = 3, width = 1, set_msk = 0x00000008, clr_msk = 0xfffffff7, reset_val = 0x0,
     get_of = (\<lambda>value. drop_bit 3 (value AND 0x00000008)), set_of = (\<lambda>value. push_bit 3 value AND 0x00000008),
     enum = [(''DONT_PULLDOWN'', 0x0), (''PULLDOWN'', 0x1)] \<rparr>"

definition ALT_FPGAMGR_CTL_CONFDONEPULL :: reg_field where
  "ALT_FPGAMGR_CTL_CONFDONEPULL = \<lparr> lsb = 4, msb = 4, width = 1, set_msk = 0x00000010, clr_msk = 0xffffffef, reset_val = 0x0,
     get_of = (\<lambda>value. drop_bit 4 (value AND 0x00000010)), set_of = (\<lambda>value. push_bit 4 value AND 0x00000010),
     enum = [(''DONT_PULLDOWN'', 0x0), (''PULLDOWN'', 0x1)] \<rparr>"

definition ALT_FPGAMGR_CTL_PRREQ :: reg_field where
  "ALT_FPGAMGR_CTL_PRREQ = \<lparr> lsb = 5, msb = 5, width = 1, set_msk = 0x00000020, clr_msk = 0xffffffdf, reset_val = 0x0,
     get_of = (\<lambda>value. drop_bit 5 (value AND 0x00000020)), set_of = (\<lambda>value. push_bit 5 value AND 0x00000020),
     enum = [(''DEASSERT'', 0x0), (''ASSERT'', 0x1)] \<rparr>"

definition ALT_FPGAMGR_CTL_CDRATIO :: reg_field where
  "ALT_FPGAMGR_CTL_CDRATIO = \<lparr> lsb = 6, msb = 7, width = 2, set_msk = 0x000000c0, clr_msk = 0xffffff3f, reset_val = 0x0,
     get_of = (\<lambda>value. drop_bit 6 (value AND 0x000000c0)), set_of = (\<lambda>value. push_bit 6 value AND 0x000000c0),
     enum = [(''X1'', 0x0), (''X2'', 0x1), (''X4'', 0x2), (''X8'', 0x3)] \<rparr>"

definition ALT_FPGAMGR_CTL_AXICFGEN :: reg_field where
  "ALT_FPGAMGR_CTL_AXICFGEN = \<lparr> lsb = 8, msb = 8, width = 1, set_msk = 0x00000100, clr_msk = 0xfffffeff, reset_val = 0x0,
     get_of = (\<lambda>value. drop_bit 8 (value AND 0x00000100)), set_of = (\<lambda>value. push_bit 8 value AND 0x00000100),
     enum = [(''DISD'', 0x0), (''END'', 0x1)] \<rparr>"

definition ALT_FPGAMGR_CTL_CFGWDTH :: reg_field where
  "ALT_FPGAMGR_CTL_CFGWDTH = \<lparr> lsb = 9, msb = 9, width = 1, set_msk = 0x00000200, clr_msk = 0xfffffdff, reset_val = 0x1,
     get_of = (\<lambda>value. drop_bit 9 (value AND 0x00000200)), set_of = (\<lambda>value. push_bit 9 value AND 0x00000200),
     enum = [(''PPX16'', 0x0), (''PPX32'', 0x1)] \<rparr>"

definition ALT_FPGAMGR_CTL :: register where
  "ALT_FPGAMGR_CTL = \<lparr> offset = 0x4,
     reg_fields = [ALT_FPGAMGR_CTL_EN, ALT_FPGAMGR_CTL_NCE, ALT_FPGAMGR_CTL_NCFGPULL,
       ALT_FPGAMGR_CTL_NSTATPULL, ALT_FPGAMGR_CTL_CONFDONEPULL, ALT_FPGAMGR_CTL_PRREQ,
       ALT_FPGAMGR_CTL_CDRATIO, ALT_FPGAMGR_CTL_AXICFGEN, ALT_FPGAMGR_CTL_CFGWDTH],
     bits = [(''en'', 1, False), (''nce'', 1, False), (''nconfigpull'', 1, False),
       (''nstatuspull'', 1, False), (''confdonepull'', 1, False), (''prreq'', 1, False),
       (''cdratio'', 2, False), (''axicfgen'', 1, False), (''cfgwdth'', 1, False), ('''', 22, False)] \<rparr>"

lemmas alt_fpgamgr_ctl_defs = ALT_FPGAMGR_CTL_def
  ALT_FPGAMGR_CTL_EN_def
  ALT_FPGAMGR_CTL_NCE_def
  ALT_FPGAMGR_CTL_NCFGPULL_def
  ALT_FPGAMGR_CTL_NSTATPULL_def
  ALT_FPGAMGR_CTL_CONFDONEPULL_def
  ALT_FPGAMGR_CTL_PRREQ_def
  ALT_FPGAMGR_CTL_CDRATIO_def
  ALT_FPGAMGR_CTL_AXICFGEN_def
  ALT_FPGAMGR_CTL_CFGWDTH_def

subsection \<open>DCLK Count Register - dclkcnt\<close>

definition ALT_FPGAMGR_DCLKCNT_CNT :: reg_field where
  "ALT_FPGAMGR_DCLKCNT_CNT = \<lparr> lsb = 0, msb = 31, width = 32, set_msk = 0xffffffff, clr_msk = 0x00000000, reset_val = 0x0,
     get_of = (\<lambda>value. drop_bit 0 (value AND 0xffffffff)), set_of = (\<lambda>value. push_bit 0 value AND 0xffffffff),
     enum = [] \<rparr>"

definition ALT_FPGAMGR_DCLKCNT :: register where
  "ALT_FPGAMGR_DCLKCNT = \<lparr> offset = 0x8,
     reg_fields = [ALT_FPGAMGR_DCLKCNT_CNT],
     bits = [(''cnt'', 32, False)] \<rparr>"

lemmas alt_fpgamgr_dclkcnt_defs = ALT_FPGAMGR_DCLKCNT_def
  ALT_FPGAMGR_DCLKCNT_CNT_def

subsection \<open>DCLK Status Register - dclkstat\<close>

definition ALT_FPGAMGR_DCLKSTAT_DCNTDONE :: reg_field where
  "ALT_FPGAMGR_DCLKSTAT_DCNTDONE = \<lparr> lsb = 0, msb = 0, width = 1, set_msk = 0x00000001, clr_msk = 0xfffffffe, reset_val = 0x0,
     get_of = (\<lambda>value. drop_bit 0 (value AND 0x00000001)), set_of = (\<lambda>value. push_bit 0 value AND 0x00000001),
     enum = [(''NOTDONE'', 0x0), (''DONE'', 0x1)] \<rparr>"

definition ALT_FPGAMGR_DCLKSTAT :: register where
  "ALT_FPGAMGR_DCLKSTAT = \<lparr> offset = 0xc,
     reg_fields = [ALT_FPGAMGR_DCLKSTAT_DCNTDONE],
     bits = [(''dcntdone'', 1, False), ('''', 31, False)] \<rparr>"

lemmas alt_fpgamgr_dclkstat_defs = ALT_FPGAMGR_DCLKSTAT_def
  ALT_FPGAMGR_DCLKSTAT_DCNTDONE_def

subsection \<open>General-Purpose Output Register - gpo\<close>

definition ALT_FPGAMGR_GPO_VALUE :: reg_field where
  "ALT_FPGAMGR_GPO_VALUE = \<lparr> lsb = 0, msb = 31, width = 32, set_msk = 0xffffffff, clr_msk = 0x00000000, reset_val = 0x0,
     get_of = (\<lambda>value. drop_bit 0 (value AND 0xffffffff)), set_of = (\<lambda>value. push_bit 0 value AND 0xffffffff),
     enum = [] \<rparr>"

definition ALT_FPGAMGR_GPO :: register where
  "ALT_FPGAMGR_GPO = \<lparr> offset = 0x10,
     reg_fields = [ALT_FPGAMGR_GPO_VALUE],
     bits = [(''value'', 32, False)] \<rparr>"

lemmas alt_fpgamgr_gpo_defs = ALT_FPGAMGR_GPO_def
  ALT_FPGAMGR_GPO_VALUE_def

subsection \<open>General-Purpose Input Register - gpi\<close>

definition ALT_FPGAMGR_GPI_VALUE :: reg_field where
  "ALT_FPGAMGR_GPI_VALUE = \<lparr> lsb = 0, msb = 31, width = 32, set_msk = 0xffffffff, clr_msk = 0x00000000, reset_val = 0x0,
     get_of = (\<lambda>value. drop_bit 0 (value AND 0xffffffff)), set_of = (\<lambda>value. push_bit 0 value AND 0xffffffff),
     enum = [] \<rparr>"

definition ALT_FPGAMGR_GPI :: register where
  "ALT_FPGAMGR_GPI = \<lparr> offset = 0x14,
     reg_fields = [ALT_FPGAMGR_GPI_VALUE],
     bits = [(''value'', 32, True)] \<rparr>"

lemmas alt_fpgamgr_gpi_defs = ALT_FPGAMGR_GPI_def
  ALT_FPGAMGR_GPI_VALUE_def

subsection \<open>Miscellaneous Input Register - misci\<close>

definition ALT_FPGAMGR_MISCI_BOOTFPGAFAIL :: reg_field where
  "ALT_FPGAMGR_MISCI_BOOTFPGAFAIL = \<lparr> lsb = 0, msb = 0, width = 1, set_msk = 0x00000001, clr_msk = 0xfffffffe, reset_val = 0x0,
     get_of = (\<lambda>value. drop_bit 0 (value AND 0x00000001)), set_of = (\<lambda>value. push_bit 0 value AND 0x00000001),
     enum = [] \<rparr>"

definition ALT_FPGAMGR_MISCI_BOOTFPGARDY :: reg_field where
  "ALT_FPGAMGR_MISCI_BOOTFPGARDY = \<lparr> lsb = 1, msb = 1, width = 1, set_msk = 0x00000002, clr_msk = 0xfffffffd, reset_val = 0x0,
     get_of = (\<lambda>value. drop_bit 1 (value AND 0x00000002)), set_of = (\<lambda>value. push_bit 1 value AND 0x00000002),
     enum = [] \<rparr>"

definition ALT_FPGAMGR_MISCI :: register where
  "ALT_FPGAMGR_MISCI = \<lparr> offset = 0x18,
     reg_fields = [ALT_FPGAMGR_MISCI_BOOTFPGAFAIL, ALT_FPGAMGR_MISCI_BOOTFPGARDY],
     bits = [(''bootFPGAfail'', 1, True), (''bootFPGArdy'', 1, True), ('''', 30, False)] \<rparr>"

lemmas alt_fpgamgr_misci_defs = ALT_FPGAMGR_MISCI_def
  ALT_FPGAMGR_MISCI_BOOTFPGAFAIL_def
  ALT_FPGAMGR_MISCI_BOOTFPGARDY_def

subsection \<open>Interrupt Enable Register - gpio_inten\<close>

definition ALT_MON_GPIO_INTEN_NS :: reg_field where
  "ALT_MON_GPIO_INTEN_NS = \<lparr> lsb = 0, msb = 0, width = 1, set_msk = 0x00000001, clr_msk = 0xfffffffe, reset_val = 0x0,
     get_of = (\<lambda>value. drop_bit 0 (value AND 0x00000001)), set_of = (\<lambda>value. push_bit 0 value AND 0x00000001),
     enum = [(''DIS'', 0x0), (''EN'', 0x1)] \<rparr>"

definition ALT_MON_GPIO_INTEN_CD :: reg_field where
  "ALT_MON_GPIO_INTEN_CD = \<lparr> lsb = 1, msb = 1, width = 1, set_msk = 0x00000002, clr_msk = 0xfffffffd, reset_val = 0x0,
     get_of = (\<lambda>value. drop_bit 1 (value AND 0x00000002)), set_of = (\<lambda>value. push_bit 1 value AND 0x00000002),
     enum = [(''DIS'', 0x0), (''EN'', 0x1)] \<rparr>"

definition ALT_MON_GPIO_INTEN_ID :: reg_field where
  "ALT_MON_GPIO_INTEN_ID = \<lparr> lsb = 2, msb = 2, width = 1, set_msk = 0x00000004, clr_msk = 0xfffffffb, reset_val = 0x0,
     get_of = (\<lambda>value. drop_bit 2 (value AND 0x00000004)), set_of = (\<lambda>value. push_bit 2 value AND 0x00000004),
     enum = [(''DIS'', 0x0), (''EN'', 0x1)] \<rparr>"

definition ALT_MON_GPIO_INTEN_CRC :: reg_field where
  "ALT_MON_GPIO_INTEN_CRC = \<lparr> lsb = 3, msb = 3, width = 1, set_msk = 0x00000008, clr_msk = 0xfffffff7, reset_val = 0x0,
     get_of = (\<lambda>value. drop_bit 3 (value AND 0x00000008)), set_of = (\<lambda>value. push_bit 3 value AND 0x00000008),
     enum = [(''DIS'', 0x0), (''EN'', 0x1)] \<rparr>"

definition ALT_MON_GPIO_INTEN_CCD :: reg_field where
  "ALT_MON_GPIO_INTEN_CCD = \<lparr> lsb = 4, msb = 4, width = 1, set_msk = 0x00000010, clr_msk = 0xffffffef, reset_val = 0x0,
     get_of = (\<lambda>value. drop_bit 4 (value AND 0x00000010)), set_of = (\<lambda>value. push_bit 4 value AND 0x00000010),
     enum = [(''DIS'', 0x0), (''EN'', 0x1)] \<rparr>"

definition ALT_MON_GPIO_INTEN_PRR :: reg_field where
  "ALT_MON_GPIO_INTEN_PRR = \<lparr> lsb = 5, msb = 5, width = 1, set_msk = 0x00000020, clr_msk = 0xffffffdf, reset_val = 0x0,
     get_of = (\<lambda>value. drop_bit 5 (value AND 0x00000020)), set_of = (\<lambda>value. push_bit 5 value AND 0x00000020),
     enum = [(''DIS'', 0x0), (''EN'', 0x1)] \<rparr>"

definition ALT_MON_GPIO_INTEN_PRE :: reg_field where
  "ALT_MON_GPIO_INTEN_PRE = \<lparr> lsb = 6, msb = 6, width = 1, set_msk = 0x00000040, clr_msk = 0xffffffbf, reset_val = 0x0,
     get_of = (\<lambda>value. drop_bit 6 (value AND 0x00000040)), set_of = (\<lambda>value. push_bit 6 value AND 0x00000040),
     enum = [(''DIS'', 0x0), (''EN'', 0x1)] \<rparr>"

definition ALT_MON_GPIO_INTEN_PRD :: reg_field where
  "ALT_MON_GPIO_INTEN_PRD = \<lparr> lsb = 7, msb = 7, width = 1, set_msk = 0x00000080, clr_msk = 0xffffff7f, reset_val = 0x0,
     get_of = (\<lambda>value. drop_bit 7 (value AND 0x00000080)), set_of = (\<lambda>value. push_bit 7 value AND 0x00000080),
     enum = [(''DIS'', 0x0), (''EN'', 0x1)] \<rparr>"

definition ALT_MON_GPIO_INTEN_NCP :: reg_field where
  "ALT_MON_GPIO_INTEN_NCP = \<lparr> lsb = 8, msb = 8, width = 1, set_msk = 0x00000100, clr_msk = 0xfffffeff, reset_val = 0x0,
     get_of = (\<lambda>value. drop_bit 8 (value AND 0x00000100)), set_of = (\<lambda>value. push_bit 8 value AND 0x00000100),
     enum = [(''DIS'', 0x0), (''EN'', 0x1)] \<rparr>"

definition ALT_MON_GPIO_INTEN_NSP :: reg_field where
  "ALT_MON_GPIO_INTEN_NSP = \<lparr> lsb = 9, msb = 9, width = 1, set_msk = 0x00000200, clr_msk = 0xfffffdff, reset_val = 0x0,
     get_of = (\<lambda>value. drop_bit 9 (value AND 0x00000200)), set_of = (\<lambda>value. push_bit 9 value AND 0x00000200),
     enum = [(''DIS'', 0x0), (''EN'', 0x1)] \<rparr>"

definition ALT_MON_GPIO_INTEN_CDP :: reg_field where
  "ALT_MON_GPIO_INTEN_CDP = \<lparr> lsb = 10, msb = 10, width = 1, set_msk = 0x00000400, clr_msk = 0xfffffbff, reset_val = 0x0,
     get_of = (\<lambda>value. drop_bit 10 (value AND 0x00000400)), set_of = (\<lambda>value. push_bit 10 value AND 0x00000400),
     enum = [(''DIS'', 0x0), (''EN'', 0x1)] \<rparr>"

definition ALT_MON_GPIO_INTEN_FPO :: reg_field where
  "ALT_MON_GPIO_INTEN_FPO = \<lparr> lsb = 11, msb = 11, width = 1, set_msk = 0x00000800, clr_msk = 0xfffff7ff, reset_val = 0x0,
     get_of = (\<lambda>value. drop_bit 11 (value AND 0x00000800)), set_of = (\<lambda>value. push_bit 11 value AND 0x00000800),
     enum = [(''DIS'', 0x0), (''EN'', 0x1)] \<rparr>"

definition ALT_MON_GPIO_INTEN :: register where
  "ALT_MON_GPIO_INTEN = \<lparr> offset = 0x30,
     reg_fields = [ALT_MON_GPIO_INTEN_NS, ALT_MON_GPIO_INTEN_CD, ALT_MON_GPIO_INTEN_ID,
       ALT_MON_GPIO_INTEN_CRC, ALT_MON_GPIO_INTEN_CCD, ALT_MON_GPIO_INTEN_PRR,
       ALT_MON_GPIO_INTEN_PRE, ALT_MON_GPIO_INTEN_PRD, ALT_MON_GPIO_INTEN_NCP,
       ALT_MON_GPIO_INTEN_NSP, ALT_MON_GPIO_INTEN_CDP, ALT_MON_GPIO_INTEN_FPO],
     bits = [(''ns'', 1, False), (''cd'', 1, False), (''id'', 1, False), (''crc'', 1, False),
       (''ccd'', 1, False), (''prr'', 1, False), (''pre'', 1, False), (''prd'', 1, False),
       (''ncp'', 1, False), (''nsp'', 1, False), (''cdp'', 1, False), (''fpo'', 1, False),
       ('''', 20, False)] \<rparr>"

lemmas alt_mon_gpio_inten_defs = ALT_MON_GPIO_INTEN_def
  ALT_MON_GPIO_INTEN_NS_def
  ALT_MON_GPIO_INTEN_CD_def
  ALT_MON_GPIO_INTEN_ID_def
  ALT_MON_GPIO_INTEN_CRC_def
  ALT_MON_GPIO_INTEN_CCD_def
  ALT_MON_GPIO_INTEN_PRR_def
  ALT_MON_GPIO_INTEN_PRE_def
  ALT_MON_GPIO_INTEN_PRD_def
  ALT_MON_GPIO_INTEN_NCP_def
  ALT_MON_GPIO_INTEN_NSP_def
  ALT_MON_GPIO_INTEN_CDP_def
  ALT_MON_GPIO_INTEN_FPO_def

subsection \<open>Interrupt Mask Register - gpio_intmask\<close>

definition ALT_MON_GPIO_INTMSK_NS :: reg_field where
  "ALT_MON_GPIO_INTMSK_NS = \<lparr> lsb = 0, msb = 0, width = 1, set_msk = 0x00000001, clr_msk = 0xfffffffe, reset_val = 0x0,
     get_of = (\<lambda>value. drop_bit 0 (value AND 0x00000001)), set_of = (\<lambda>value. push_bit 0 value AND 0x00000001),
     enum = [(''DIS'', 0x0), (''EN'', 0x1)] \<rparr>"

definition ALT_MON_GPIO_INTMSK_CD :: reg_field where
  "ALT_MON_GPIO_INTMSK_CD = \<lparr> lsb = 1, msb = 1, width = 1, set_msk = 0x00000002, clr_msk = 0xfffffffd, reset_val = 0x0,
     get_of = (\<lambda>value. drop_bit 1 (value AND 0x00000002)), set_of = (\<lambda>value. push_bit 1 value AND 0x00000002),
     enum = [(''DIS'', 0x0), (''EN'', 0x1)] \<rparr>"

definition ALT_MON_GPIO_INTMSK_ID :: reg_field where
  "ALT_MON_GPIO_INTMSK_ID = \<lparr> lsb = 2, msb = 2, width = 1, set_msk = 0x00000004, clr_msk = 0xfffffffb, reset_val = 0x0,
     get_of = (\<lambda>value. drop_bit 2 (value AND 0x00000004)), set_of = (\<lambda>value. push_bit 2 value AND 0x00000004),
     enum = [(''DIS'', 0x0), (''EN'', 0x1)] \<rparr>"

definition ALT_MON_GPIO_INTMSK_CRC :: reg_field where
  "ALT_MON_GPIO_INTMSK_CRC = \<lparr> lsb = 3, msb = 3, width = 1, set_msk = 0x00000008, clr_msk = 0xfffffff7, reset_val = 0x0,
     get_of = (\<lambda>value. drop_bit 3 (value AND 0x00000008)), set_of = (\<lambda>value. push_bit 3 value AND 0x00000008),
     enum = [(''DIS'', 0x0), (''EN'', 0x1)] \<rparr>"

definition ALT_MON_GPIO_INTMSK_CCD :: reg_field where
  "ALT_MON_GPIO_INTMSK_CCD = \<lparr> lsb = 4, msb = 4, width = 1, set_msk = 0x00000010, clr_msk = 0xffffffef, reset_val = 0x0,
     get_of = (\<lambda>value. drop_bit 4 (value AND 0x00000010)), set_of = (\<lambda>value. push_bit 4 value AND 0x00000010),
     enum = [(''DIS'', 0x0), (''EN'', 0x1)] \<rparr>"

definition ALT_MON_GPIO_INTMSK_PRR :: reg_field where
  "ALT_MON_GPIO_INTMSK_PRR = \<lparr> lsb = 5, msb = 5, width = 1, set_msk = 0x00000020, clr_msk = 0xffffffdf, reset_val = 0x0,
     get_of = (\<lambda>value. drop_bit 5 (value AND 0x00000020)), set_of = (\<lambda>value. push_bit 5 value AND 0x00000020),
     enum = [(''DIS'', 0x0), (''EN'', 0x1)] \<rparr>"

definition ALT_MON_GPIO_INTMSK_PRE :: reg_field where
  "ALT_MON_GPIO_INTMSK_PRE = \<lparr> lsb = 6, msb = 6, width = 1, set_msk = 0x00000040, clr_msk = 0xffffffbf, reset_val = 0x0,
     get_of = (\<lambda>value. drop_bit 6 (value AND 0x00000040)), set_of = (\<lambda>value. push_bit 6 value AND 0x00000040),
     enum = [(''DIS'', 0x0), (''EN'', 0x1)] \<rparr>"

definition ALT_MON_GPIO_INTMSK_PRD :: reg_field where
  "ALT_MON_GPIO_INTMSK_PRD = \<lparr> lsb = 7, msb = 7, width = 1, set_msk = 0x00000080, clr_msk = 0xffffff7f, reset_val = 0x0,
     get_of = (\<lambda>value. drop_bit 7 (value AND 0x00000080)), set_of = (\<lambda>value. push_bit 7 value AND 0x00000080),
     enum = [(''DIS'', 0x0), (''EN'', 0x1)] \<rparr>"

definition ALT_MON_GPIO_INTMSK_NCP :: reg_field where
  "ALT_MON_GPIO_INTMSK_NCP = \<lparr> lsb = 8, msb = 8, width = 1, set_msk = 0x00000100, clr_msk = 0xfffffeff, reset_val = 0x0,
     get_of = (\<lambda>value. drop_bit 8 (value AND 0x00000100)), set_of = (\<lambda>value. push_bit 8 value AND 0x00000100),
     enum = [(''DIS'', 0x0), (''EN'', 0x1)] \<rparr>"

definition ALT_MON_GPIO_INTMSK_NSP :: reg_field where
  "ALT_MON_GPIO_INTMSK_NSP = \<lparr> lsb = 9, msb = 9, width = 1, set_msk = 0x00000200, clr_msk = 0xfffffdff, reset_val = 0x0,
     get_of = (\<lambda>value. drop_bit 9 (value AND 0x00000200)), set_of = (\<lambda>value. push_bit 9 value AND 0x00000200),
     enum = [(''DIS'', 0x0), (''EN'', 0x1)] \<rparr>"

definition ALT_MON_GPIO_INTMSK_CDP :: reg_field where
  "ALT_MON_GPIO_INTMSK_CDP = \<lparr> lsb = 10, msb = 10, width = 1, set_msk = 0x00000400, clr_msk = 0xfffffbff, reset_val = 0x0,
     get_of = (\<lambda>value. drop_bit 10 (value AND 0x00000400)), set_of = (\<lambda>value. push_bit 10 value AND 0x00000400),
     enum = [(''DIS'', 0x0), (''EN'', 0x1)] \<rparr>"

definition ALT_MON_GPIO_INTMSK_FPO :: reg_field where
  "ALT_MON_GPIO_INTMSK_FPO = \<lparr> lsb = 11, msb = 11, width = 1, set_msk = 0x00000800, clr_msk = 0xfffff7ff, reset_val = 0x0,
     get_of = (\<lambda>value. drop_bit 11 (value AND 0x00000800)), set_of = (\<lambda>value. push_bit 11 value AND 0x00000800),
     enum = [(''DIS'', 0x0), (''EN'', 0x1)] \<rparr>"

definition ALT_MON_GPIO_INTMSK :: register where
  "ALT_MON_GPIO_INTMSK = \<lparr> offset = 0x34,
     reg_fields = [ALT_MON_GPIO_INTMSK_NS, ALT_MON_GPIO_INTMSK_CD, ALT_MON_GPIO_INTMSK_ID,
       ALT_MON_GPIO_INTMSK_CRC, ALT_MON_GPIO_INTMSK_CCD, ALT_MON_GPIO_INTMSK_PRR,
       ALT_MON_GPIO_INTMSK_PRE, ALT_MON_GPIO_INTMSK_PRD, ALT_MON_GPIO_INTMSK_NCP,
       ALT_MON_GPIO_INTMSK_NSP, ALT_MON_GPIO_INTMSK_CDP, ALT_MON_GPIO_INTMSK_FPO],
     bits = [(''ns'', 1, False), (''cd'', 1, False), (''id'', 1, False), (''crc'', 1, False),
       (''ccd'', 1, False), (''prr'', 1, False), (''pre'', 1, False), (''prd'', 1, False),
       (''ncp'', 1, False), (''nsp'', 1, False), (''cdp'', 1, False), (''fpo'', 1, False),
       ('''', 20, False)] \<rparr>"

lemmas alt_mon_gpio_intmsk_defs = ALT_MON_GPIO_INTMSK_def
  ALT_MON_GPIO_INTMSK_NS_def
  ALT_MON_GPIO_INTMSK_CD_def
  ALT_MON_GPIO_INTMSK_ID_def
  ALT_MON_GPIO_INTMSK_CRC_def
  ALT_MON_GPIO_INTMSK_CCD_def
  ALT_MON_GPIO_INTMSK_PRR_def
  ALT_MON_GPIO_INTMSK_PRE_def
  ALT_MON_GPIO_INTMSK_PRD_def
  ALT_MON_GPIO_INTMSK_NCP_def
  ALT_MON_GPIO_INTMSK_NSP_def
  ALT_MON_GPIO_INTMSK_CDP_def
  ALT_MON_GPIO_INTMSK_FPO_def

subsection \<open>Interrupt Level Register - gpio_inttype_level\<close>

definition ALT_MON_GPIO_INTTYPE_LEVEL_NS :: reg_field where
  "ALT_MON_GPIO_INTTYPE_LEVEL_NS = \<lparr> lsb = 0, msb = 0, width = 1, set_msk = 0x00000001, clr_msk = 0xfffffffe, reset_val = 0x0,
     get_of = (\<lambda>value. drop_bit 0 (value AND 0x00000001)), set_of = (\<lambda>value. push_bit 0 value AND 0x00000001),
     enum = [(''LEVEL'', 0x0), (''EDGE'', 0x1)] \<rparr>"

definition ALT_MON_GPIO_INTTYPE_LEVEL_CD :: reg_field where
  "ALT_MON_GPIO_INTTYPE_LEVEL_CD = \<lparr> lsb = 1, msb = 1, width = 1, set_msk = 0x00000002, clr_msk = 0xfffffffd, reset_val = 0x0,
     get_of = (\<lambda>value. drop_bit 1 (value AND 0x00000002)), set_of = (\<lambda>value. push_bit 1 value AND 0x00000002),
     enum = [(''LEVEL'', 0x0), (''EDGE'', 0x1)] \<rparr>"

definition ALT_MON_GPIO_INTTYPE_LEVEL_ID :: reg_field where
  "ALT_MON_GPIO_INTTYPE_LEVEL_ID = \<lparr> lsb = 2, msb = 2, width = 1, set_msk = 0x00000004, clr_msk = 0xfffffffb, reset_val = 0x0,
     get_of = (\<lambda>value. drop_bit 2 (value AND 0x00000004)), set_of = (\<lambda>value. push_bit 2 value AND 0x00000004),
     enum = [(''LEVEL'', 0x0), (''EDGE'', 0x1)] \<rparr>"

definition ALT_MON_GPIO_INTTYPE_LEVEL_CRC :: reg_field where
  "ALT_MON_GPIO_INTTYPE_LEVEL_CRC = \<lparr> lsb = 3, msb = 3, width = 1, set_msk = 0x00000008, clr_msk = 0xfffffff7, reset_val = 0x0,
     get_of = (\<lambda>value. drop_bit 3 (value AND 0x00000008)), set_of = (\<lambda>value. push_bit 3 value AND 0x00000008),
     enum = [(''LEVEL'', 0x0), (''EDGE'', 0x1)] \<rparr>"

definition ALT_MON_GPIO_INTTYPE_LEVEL_CCD :: reg_field where
  "ALT_MON_GPIO_INTTYPE_LEVEL_CCD = \<lparr> lsb = 4, msb = 4, width = 1, set_msk = 0x00000010, clr_msk = 0xffffffef, reset_val = 0x0,
     get_of = (\<lambda>value. drop_bit 4 (value AND 0x00000010)), set_of = (\<lambda>value. push_bit 4 value AND 0x00000010),
     enum = [(''LEVEL'', 0x0), (''EDGE'', 0x1)] \<rparr>"

definition ALT_MON_GPIO_INTTYPE_LEVEL_PRR :: reg_field where
  "ALT_MON_GPIO_INTTYPE_LEVEL_PRR = \<lparr> lsb = 5, msb = 5, width = 1, set_msk = 0x00000020, clr_msk = 0xffffffdf, reset_val = 0x0,
     get_of = (\<lambda>value. drop_bit 5 (value AND 0x00000020)), set_of = (\<lambda>value. push_bit 5 value AND 0x00000020),
     enum = [(''LEVEL'', 0x0), (''EDGE'', 0x1)] \<rparr>"

definition ALT_MON_GPIO_INTTYPE_LEVEL_PRE :: reg_field where
  "ALT_MON_GPIO_INTTYPE_LEVEL_PRE = \<lparr> lsb = 6, msb = 6, width = 1, set_msk = 0x00000040, clr_msk = 0xffffffbf, reset_val = 0x0,
     get_of = (\<lambda>value. drop_bit 6 (value AND 0x00000040)), set_of = (\<lambda>value. push_bit 6 value AND 0x00000040),
     enum = [(''LEVEL'', 0x0), (''EDGE'', 0x1)] \<rparr>"

definition ALT_MON_GPIO_INTTYPE_LEVEL_PRD :: reg_field where
  "ALT_MON_GPIO_INTTYPE_LEVEL_PRD = \<lparr> lsb = 7, msb = 7, width = 1, set_msk = 0x00000080, clr_msk = 0xffffff7f, reset_val = 0x0,
     get_of = (\<lambda>value. drop_bit 7 (value AND 0x00000080)), set_of = (\<lambda>value. push_bit 7 value AND 0x00000080),
     enum = [(''LEVEL'', 0x0), (''EDGE'', 0x1)] \<rparr>"

definition ALT_MON_GPIO_INTTYPE_LEVEL_NCP :: reg_field where
  "ALT_MON_GPIO_INTTYPE_LEVEL_NCP = \<lparr> lsb = 8, msb = 8, width = 1, set_msk = 0x00000100, clr_msk = 0xfffffeff, reset_val = 0x0,
     get_of = (\<lambda>value. drop_bit 8 (value AND 0x00000100)), set_of = (\<lambda>value. push_bit 8 value AND 0x00000100),
     enum = [(''LEVEL'', 0x0), (''EDGE'', 0x1)] \<rparr>"

definition ALT_MON_GPIO_INTTYPE_LEVEL_NSP :: reg_field where
  "ALT_MON_GPIO_INTTYPE_LEVEL_NSP = \<lparr> lsb = 9, msb = 9, width = 1, set_msk = 0x00000200, clr_msk = 0xfffffdff, reset_val = 0x0,
     get_of = (\<lambda>value. drop_bit 9 (value AND 0x00000200)), set_of = (\<lambda>value. push_bit 9 value AND 0x00000200),
     enum = [(''LEVEL'', 0x0), (''EDGE'', 0x1)] \<rparr>"

definition ALT_MON_GPIO_INTTYPE_LEVEL_CDP :: reg_field where
  "ALT_MON_GPIO_INTTYPE_LEVEL_CDP = \<lparr> lsb = 10, msb = 10, width = 1, set_msk = 0x00000400, clr_msk = 0xfffffbff, reset_val = 0x0,
     get_of = (\<lambda>value. drop_bit 10 (value AND 0x00000400)), set_of = (\<lambda>value. push_bit 10 value AND 0x00000400),
     enum = [(''LEVEL'', 0x0), (''EDGE'', 0x1)] \<rparr>"

definition ALT_MON_GPIO_INTTYPE_LEVEL_FPO :: reg_field where
  "ALT_MON_GPIO_INTTYPE_LEVEL_FPO = \<lparr> lsb = 11, msb = 11, width = 1, set_msk = 0x00000800, clr_msk = 0xfffff7ff, reset_val = 0x0,
     get_of = (\<lambda>value. drop_bit 11 (value AND 0x00000800)), set_of = (\<lambda>value. push_bit 11 value AND 0x00000800),
     enum = [(''LEVEL'', 0x0), (''EDGE'', 0x1)] \<rparr>"

definition ALT_MON_GPIO_INTTYPE_LEVEL :: register where
  "ALT_MON_GPIO_INTTYPE_LEVEL = \<lparr> offset = 0x38,
     reg_fields = [ALT_MON_GPIO_INTTYPE_LEVEL_NS, ALT_MON_GPIO_INTTYPE_LEVEL_CD,
       ALT_MON_GPIO_INTTYPE_LEVEL_ID, ALT_MON_GPIO_INTTYPE_LEVEL_CRC,
       ALT_MON_GPIO_INTTYPE_LEVEL_CCD, ALT_MON_GPIO_INTTYPE_LEVEL_PRR,
       ALT_MON_GPIO_INTTYPE_LEVEL_PRE, ALT_MON_GPIO_INTTYPE_LEVEL_PRD,
       ALT_MON_GPIO_INTTYPE_LEVEL_NCP, ALT_MON_GPIO_INTTYPE_LEVEL_NSP,
       ALT_MON_GPIO_INTTYPE_LEVEL_CDP, ALT_MON_GPIO_INTTYPE_LEVEL_FPO],
     bits = [(''ns'', 1, False), (''cd'', 1, False), (''id'', 1, False), (''crc'', 1, False),
       (''ccd'', 1, False), (''prr'', 1, False), (''pre'', 1, False), (''prd'', 1, False),
       (''ncp'', 1, False), (''nsp'', 1, False), (''cdp'', 1, False), (''fpo'', 1, False),
       ('''', 20, False)] \<rparr>"

lemmas alt_mon_gpio_inttype_level_defs = ALT_MON_GPIO_INTTYPE_LEVEL_def
  ALT_MON_GPIO_INTTYPE_LEVEL_NS_def
  ALT_MON_GPIO_INTTYPE_LEVEL_CD_def
  ALT_MON_GPIO_INTTYPE_LEVEL_ID_def
  ALT_MON_GPIO_INTTYPE_LEVEL_CRC_def
  ALT_MON_GPIO_INTTYPE_LEVEL_CCD_def
  ALT_MON_GPIO_INTTYPE_LEVEL_PRR_def
  ALT_MON_GPIO_INTTYPE_LEVEL_PRE_def
  ALT_MON_GPIO_INTTYPE_LEVEL_PRD_def
  ALT_MON_GPIO_INTTYPE_LEVEL_NCP_def
  ALT_MON_GPIO_INTTYPE_LEVEL_NSP_def
  ALT_MON_GPIO_INTTYPE_LEVEL_CDP_def
  ALT_MON_GPIO_INTTYPE_LEVEL_FPO_def

subsection \<open>Interrupt Polarity Register - gpio_int_polarity\<close>

definition ALT_MON_GPIO_INT_POL_NS :: reg_field where
  "ALT_MON_GPIO_INT_POL_NS = \<lparr> lsb = 0, msb = 0, width = 1, set_msk = 0x00000001, clr_msk = 0xfffffffe, reset_val = 0x0,
     get_of = (\<lambda>value. drop_bit 0 (value AND 0x00000001)), set_of = (\<lambda>value. push_bit 0 value AND 0x00000001),
     enum = [(''ACTLOW'', 0x0), (''ACTHIGH'', 0x1)] \<rparr>"

definition ALT_MON_GPIO_INT_POL_CD :: reg_field where
  "ALT_MON_GPIO_INT_POL_CD = \<lparr> lsb = 1, msb = 1, width = 1, set_msk = 0x00000002, clr_msk = 0xfffffffd, reset_val = 0x0,
     get_of = (\<lambda>value. drop_bit 1 (value AND 0x00000002)), set_of = (\<lambda>value. push_bit 1 value AND 0x00000002),
     enum = [(''ACTLOW'', 0x0), (''ACTHIGH'', 0x1)] \<rparr>"

definition ALT_MON_GPIO_INT_POL_ID :: reg_field where
  "ALT_MON_GPIO_INT_POL_ID = \<lparr> lsb = 2, msb = 2, width = 1, set_msk = 0x00000004, clr_msk = 0xfffffffb, reset_val = 0x0,
     get_of = (\<lambda>value. drop_bit 2 (value AND 0x00000004)), set_of = (\<lambda>value. push_bit 2 value AND 0x00000004),
     enum = [(''ACTLOW'', 0x0), (''ACTHIGH'', 0x1)] \<rparr>"

definition ALT_MON_GPIO_INT_POL_CRC :: reg_field where
  "ALT_MON_GPIO_INT_POL_CRC = \<lparr> lsb = 3, msb = 3, width = 1, set_msk = 0x00000008, clr_msk = 0xfffffff7, reset_val = 0x0,
     get_of = (\<lambda>value. drop_bit 3 (value AND 0x00000008)), set_of = (\<lambda>value. push_bit 3 value AND 0x00000008),
     enum = [(''ACTLOW'', 0x0), (''ACTHIGH'', 0x1)] \<rparr>"

definition ALT_MON_GPIO_INT_POL_CCD :: reg_field where
  "ALT_MON_GPIO_INT_POL_CCD = \<lparr> lsb = 4, msb = 4, width = 1, set_msk = 0x00000010, clr_msk = 0xffffffef, reset_val = 0x0,
     get_of = (\<lambda>value. drop_bit 4 (value AND 0x00000010)), set_of = (\<lambda>value. push_bit 4 value AND 0x00000010),
     enum = [(''ACTLOW'', 0x0), (''ACTHIGH'', 0x1)] \<rparr>"

definition ALT_MON_GPIO_INT_POL_PRR :: reg_field where
  "ALT_MON_GPIO_INT_POL_PRR = \<lparr> lsb = 5, msb = 5, width = 1, set_msk = 0x00000020, clr_msk = 0xffffffdf, reset_val = 0x0,
     get_of = (\<lambda>value. drop_bit 5 (value AND 0x00000020)), set_of = (\<lambda>value. push_bit 5 value AND 0x00000020),
     enum = [(''ACTLOW'', 0x0), (''ACTHIGH'', 0x1)] \<rparr>"

definition ALT_MON_GPIO_INT_POL_PRE :: reg_field where
  "ALT_MON_GPIO_INT_POL_PRE = \<lparr> lsb = 6, msb = 6, width = 1, set_msk = 0x00000040, clr_msk = 0xffffffbf, reset_val = 0x0,
     get_of = (\<lambda>value. drop_bit 6 (value AND 0x00000040)), set_of = (\<lambda>value. push_bit 6 value AND 0x00000040),
     enum = [(''ACTLOW'', 0x0), (''ACTHIGH'', 0x1)] \<rparr>"

definition ALT_MON_GPIO_INT_POL_PRD :: reg_field where
  "ALT_MON_GPIO_INT_POL_PRD = \<lparr> lsb = 7, msb = 7, width = 1, set_msk = 0x00000080, clr_msk = 0xffffff7f, reset_val = 0x0,
     get_of = (\<lambda>value. drop_bit 7 (value AND 0x00000080)), set_of = (\<lambda>value. push_bit 7 value AND 0x00000080),
     enum = [(''ACTLOW'', 0x0), (''ACTHIGH'', 0x1)] \<rparr>"

definition ALT_MON_GPIO_INT_POL_NCP :: reg_field where
  "ALT_MON_GPIO_INT_POL_NCP = \<lparr> lsb = 8, msb = 8, width = 1, set_msk = 0x00000100, clr_msk = 0xfffffeff, reset_val = 0x0,
     get_of = (\<lambda>value. drop_bit 8 (value AND 0x00000100)), set_of = (\<lambda>value. push_bit 8 value AND 0x00000100),
     enum = [(''ACTLOW'', 0x0), (''ACTHIGH'', 0x1)] \<rparr>"

definition ALT_MON_GPIO_INT_POL_NSP :: reg_field where
  "ALT_MON_GPIO_INT_POL_NSP = \<lparr> lsb = 9, msb = 9, width = 1, set_msk = 0x00000200, clr_msk = 0xfffffdff, reset_val = 0x0,
     get_of = (\<lambda>value. drop_bit 9 (value AND 0x00000200)), set_of = (\<lambda>value. push_bit 9 value AND 0x00000200),
     enum = [(''ACTLOW'', 0x0), (''ACTHIGH'', 0x1)] \<rparr>"

definition ALT_MON_GPIO_INT_POL_CDP :: reg_field where
  "ALT_MON_GPIO_INT_POL_CDP = \<lparr> lsb = 10, msb = 10, width = 1, set_msk = 0x00000400, clr_msk = 0xfffffbff, reset_val = 0x0,
     get_of = (\<lambda>value. drop_bit 10 (value AND 0x00000400)), set_of = (\<lambda>value. push_bit 10 value AND 0x00000400),
     enum = [(''ACTLOW'', 0x0), (''ACTHIGH'', 0x1)] \<rparr>"

definition ALT_MON_GPIO_INT_POL_FPO :: reg_field where
  "ALT_MON_GPIO_INT_POL_FPO = \<lparr> lsb = 11, msb = 11, width = 1, set_msk = 0x00000800, clr_msk = 0xfffff7ff, reset_val = 0x0,
     get_of = (\<lambda>value. drop_bit 11 (value AND 0x00000800)), set_of = (\<lambda>value. push_bit 11 value AND 0x00000800),
     enum = [(''ACTLOW'', 0x0), (''ACTHIGH'', 0x1)] \<rparr>"

definition ALT_MON_GPIO_INT_POL :: register where
  "ALT_MON_GPIO_INT_POL = \<lparr> offset = 0x3c,
     reg_fields = [ALT_MON_GPIO_INT_POL_NS, ALT_MON_GPIO_INT_POL_CD, ALT_MON_GPIO_INT_POL_ID,
       ALT_MON_GPIO_INT_POL_CRC, ALT_MON_GPIO_INT_POL_CCD, ALT_MON_GPIO_INT_POL_PRR,
       ALT_MON_GPIO_INT_POL_PRE, ALT_MON_GPIO_INT_POL_PRD, ALT_MON_GPIO_INT_POL_NCP,
       ALT_MON_GPIO_INT_POL_NSP, ALT_MON_GPIO_INT_POL_CDP, ALT_MON_GPIO_INT_POL_FPO],
     bits = [(''ns'', 1, False), (''cd'', 1, False), (''id'', 1, False), (''crc'', 1, False),
       (''ccd'', 1, False), (''prr'', 1, False), (''pre'', 1, False), (''prd'', 1, False),
       (''ncp'', 1, False), (''nsp'', 1, False), (''cdp'', 1, False), (''fpo'', 1, False),
       ('''', 20, False)] \<rparr>"

lemmas alt_mon_gpio_int_pol_defs = ALT_MON_GPIO_INT_POL_def
  ALT_MON_GPIO_INT_POL_NS_def
  ALT_MON_GPIO_INT_POL_CD_def
  ALT_MON_GPIO_INT_POL_ID_def
  ALT_MON_GPIO_INT_POL_CRC_def
  ALT_MON_GPIO_INT_POL_CCD_def
  ALT_MON_GPIO_INT_POL_PRR_def
  ALT_MON_GPIO_INT_POL_PRE_def
  ALT_MON_GPIO_INT_POL_PRD_def
  ALT_MON_GPIO_INT_POL_NCP_def
  ALT_MON_GPIO_INT_POL_NSP_def
  ALT_MON_GPIO_INT_POL_CDP_def
  ALT_MON_GPIO_INT_POL_FPO_def

subsection \<open>Interrupt Status Register - gpio_intstatus\<close>

definition ALT_MON_GPIO_INTSTAT_NS :: reg_field where
  "ALT_MON_GPIO_INTSTAT_NS = \<lparr> lsb = 0, msb = 0, width = 1, set_msk = 0x00000001, clr_msk = 0xfffffffe, reset_val = 0x0,
     get_of = (\<lambda>value. drop_bit 0 (value AND 0x00000001)), set_of = (\<lambda>value. push_bit 0 value AND 0x00000001),
     enum = [(''INACT'', 0x0), (''ACT'', 0x1)] \<rparr>"

definition ALT_MON_GPIO_INTSTAT_CD :: reg_field where
  "ALT_MON_GPIO_INTSTAT_CD = \<lparr> lsb = 1, msb = 1, width = 1, set_msk = 0x00000002, clr_msk = 0xfffffffd, reset_val = 0x0,
     get_of = (\<lambda>value. drop_bit 1 (value AND 0x00000002)), set_of = (\<lambda>value. push_bit 1 value AND 0x00000002),
     enum = [(''INACT'', 0x0), (''ACT'', 0x1)] \<rparr>"

definition ALT_MON_GPIO_INTSTAT_ID :: reg_field where
  "ALT_MON_GPIO_INTSTAT_ID = \<lparr> lsb = 2, msb = 2, width = 1, set_msk = 0x00000004, clr_msk = 0xfffffffb, reset_val = 0x0,
     get_of = (\<lambda>value. drop_bit 2 (value AND 0x00000004)), set_of = (\<lambda>value. push_bit 2 value AND 0x00000004),
     enum = [(''INACT'', 0x0), (''ACT'', 0x1)] \<rparr>"

definition ALT_MON_GPIO_INTSTAT_CRC :: reg_field where
  "ALT_MON_GPIO_INTSTAT_CRC = \<lparr> lsb = 3, msb = 3, width = 1, set_msk = 0x00000008, clr_msk = 0xfffffff7, reset_val = 0x0,
     get_of = (\<lambda>value. drop_bit 3 (value AND 0x00000008)), set_of = (\<lambda>value. push_bit 3 value AND 0x00000008),
     enum = [(''INACT'', 0x0), (''ACT'', 0x1)] \<rparr>"

definition ALT_MON_GPIO_INTSTAT_CCD :: reg_field where
  "ALT_MON_GPIO_INTSTAT_CCD = \<lparr> lsb = 4, msb = 4, width = 1, set_msk = 0x00000010, clr_msk = 0xffffffef, reset_val = 0x0,
     get_of = (\<lambda>value. drop_bit 4 (value AND 0x00000010)), set_of = (\<lambda>value. push_bit 4 value AND 0x00000010),
     enum = [(''INACT'', 0x0), (''ACT'', 0x1)] \<rparr>"

definition ALT_MON_GPIO_INTSTAT_PRR :: reg_field where
  "ALT_MON_GPIO_INTSTAT_PRR = \<lparr> lsb = 5, msb = 5, width = 1, set_msk = 0x00000020, clr_msk = 0xffffffdf, reset_val = 0x0,
     get_of = (\<lambda>value. drop_bit 5 (value AND 0x00000020)), set_of = (\<lambda>value. push_bit 5 value AND 0x00000020),
     enum = [(''INACT'', 0x0), (''ACT'', 0x1)] \<rparr>"

definition ALT_MON_GPIO_INTSTAT_PRE :: reg_field where
  "ALT_MON_GPIO_INTSTAT_PRE = \<lparr> lsb = 6, msb = 6, width = 1, set_msk = 0x00000040, clr_msk = 0xffffffbf, reset_val = 0x0,
     get_of = (\<lambda>value. drop_bit 6 (value AND 0x00000040)), set_of = (\<lambda>value. push_bit 6 value AND 0x00000040),
     enum = [(''INACT'', 0x0), (''ACT'', 0x1)] \<rparr>"

definition ALT_MON_GPIO_INTSTAT_PRD :: reg_field where
  "ALT_MON_GPIO_INTSTAT_PRD = \<lparr> lsb = 7, msb = 7, width = 1, set_msk = 0x00000080, clr_msk = 0xffffff7f, reset_val = 0x0,
     get_of = (\<lambda>value. drop_bit 7 (value AND 0x00000080)), set_of = (\<lambda>value. push_bit 7 value AND 0x00000080),
     enum = [(''INACT'', 0x0), (''ACT'', 0x1)] \<rparr>"

definition ALT_MON_GPIO_INTSTAT_NCP :: reg_field where
  "ALT_MON_GPIO_INTSTAT_NCP = \<lparr> lsb = 8, msb = 8, width = 1, set_msk = 0x00000100, clr_msk = 0xfffffeff, reset_val = 0x0,
     get_of = (\<lambda>value. drop_bit 8 (value AND 0x00000100)), set_of = (\<lambda>value. push_bit 8 value AND 0x00000100),
     enum = [(''INACT'', 0x0), (''ACT'', 0x1)] \<rparr>"

definition ALT_MON_GPIO_INTSTAT_NSP :: reg_field where
  "ALT_MON_GPIO_INTSTAT_NSP = \<lparr> lsb = 9, msb = 9, width = 1, set_msk = 0x00000200, clr_msk = 0xfffffdff, reset_val = 0x0,
     get_of = (\<lambda>value. drop_bit 9 (value AND 0x00000200)), set_of = (\<lambda>value. push_bit 9 value AND 0x00000200),
     enum = [(''INACT'', 0x0), (''ACT'', 0x1)] \<rparr>"

definition ALT_MON_GPIO_INTSTAT_CDP :: reg_field where
  "ALT_MON_GPIO_INTSTAT_CDP = \<lparr> lsb = 10, msb = 10, width = 1, set_msk = 0x00000400, clr_msk = 0xfffffbff, reset_val = 0x0,
     get_of = (\<lambda>value. drop_bit 10 (value AND 0x00000400)), set_of = (\<lambda>value. push_bit 10 value AND 0x00000400),
     enum = [(''INACT'', 0x0), (''ACT'', 0x1)] \<rparr>"

definition ALT_MON_GPIO_INTSTAT_FPO :: reg_field where
  "ALT_MON_GPIO_INTSTAT_FPO = \<lparr> lsb = 11, msb = 11, width = 1, set_msk = 0x00000800, clr_msk = 0xfffff7ff, reset_val = 0x0,
     get_of = (\<lambda>value. drop_bit 11 (value AND 0x00000800)), set_of = (\<lambda>value. push_bit 11 value AND 0x00000800),
     enum = [(''INACT'', 0x0), (''ACT'', 0x1)] \<rparr>"

definition ALT_MON_GPIO_INTSTAT :: register where
  "ALT_MON_GPIO_INTSTAT = \<lparr> offset = 0x40,
     reg_fields = [ALT_MON_GPIO_INTSTAT_NS, ALT_MON_GPIO_INTSTAT_CD, ALT_MON_GPIO_INTSTAT_ID,
       ALT_MON_GPIO_INTSTAT_CRC, ALT_MON_GPIO_INTSTAT_CCD, ALT_MON_GPIO_INTSTAT_PRR,
       ALT_MON_GPIO_INTSTAT_PRE, ALT_MON_GPIO_INTSTAT_PRD, ALT_MON_GPIO_INTSTAT_NCP,
       ALT_MON_GPIO_INTSTAT_NSP, ALT_MON_GPIO_INTSTAT_CDP, ALT_MON_GPIO_INTSTAT_FPO],
     bits = [(''ns'', 1, True), (''cd'', 1, True), (''id'', 1, True), (''crc'', 1, True),
       (''ccd'', 1, True), (''prr'', 1, True), (''pre'', 1, True), (''prd'', 1, True),
       (''ncp'', 1, True), (''nsp'', 1, True), (''cdp'', 1, True), (''fpo'', 1, True),
       ('''', 20, False)] \<rparr>"

lemmas alt_mon_gpio_intstat_defs = ALT_MON_GPIO_INTSTAT_def
  ALT_MON_GPIO_INTSTAT_NS_def
  ALT_MON_GPIO_INTSTAT_CD_def
  ALT_MON_GPIO_INTSTAT_ID_def
  ALT_MON_GPIO_INTSTAT_CRC_def
  ALT_MON_GPIO_INTSTAT_CCD_def
  ALT_MON_GPIO_INTSTAT_PRR_def
  ALT_MON_GPIO_INTSTAT_PRE_def
  ALT_MON_GPIO_INTSTAT_PRD_def
  ALT_MON_GPIO_INTSTAT_NCP_def
  ALT_MON_GPIO_INTSTAT_NSP_def
  ALT_MON_GPIO_INTSTAT_CDP_def
  ALT_MON_GPIO_INTSTAT_FPO_def

subsection \<open>Raw Interrupt Status Register - gpio_raw_intstatus\<close>

definition ALT_MON_GPIO_RAW_INTSTAT_NS :: reg_field where
  "ALT_MON_GPIO_RAW_INTSTAT_NS = \<lparr> lsb = 0, msb = 0, width = 1, set_msk = 0x00000001, clr_msk = 0xfffffffe, reset_val = 0x0,
     get_of = (\<lambda>value. drop_bit 0 (value AND 0x00000001)), set_of = (\<lambda>value. push_bit 0 value AND 0x00000001),
     enum = [(''INACT'', 0x0), (''ACT'', 0x1)] \<rparr>"

definition ALT_MON_GPIO_RAW_INTSTAT_CD :: reg_field where
  "ALT_MON_GPIO_RAW_INTSTAT_CD = \<lparr> lsb = 1, msb = 1, width = 1, set_msk = 0x00000002, clr_msk = 0xfffffffd, reset_val = 0x0,
     get_of = (\<lambda>value. drop_bit 1 (value AND 0x00000002)), set_of = (\<lambda>value. push_bit 1 value AND 0x00000002),
     enum = [(''INACT'', 0x0), (''ACT'', 0x1)] \<rparr>"

definition ALT_MON_GPIO_RAW_INTSTAT_ID :: reg_field where
  "ALT_MON_GPIO_RAW_INTSTAT_ID = \<lparr> lsb = 2, msb = 2, width = 1, set_msk = 0x00000004, clr_msk = 0xfffffffb, reset_val = 0x0,
     get_of = (\<lambda>value. drop_bit 2 (value AND 0x00000004)), set_of = (\<lambda>value. push_bit 2 value AND 0x00000004),
     enum = [(''INACT'', 0x0), (''ACT'', 0x1)] \<rparr>"

definition ALT_MON_GPIO_RAW_INTSTAT_CRC :: reg_field where
  "ALT_MON_GPIO_RAW_INTSTAT_CRC = \<lparr> lsb = 3, msb = 3, width = 1, set_msk = 0x00000008, clr_msk = 0xfffffff7, reset_val = 0x0,
     get_of = (\<lambda>value. drop_bit 3 (value AND 0x00000008)), set_of = (\<lambda>value. push_bit 3 value AND 0x00000008),
     enum = [(''INACT'', 0x0), (''ACT'', 0x1)] \<rparr>"

definition ALT_MON_GPIO_RAW_INTSTAT_CCD :: reg_field where
  "ALT_MON_GPIO_RAW_INTSTAT_CCD = \<lparr> lsb = 4, msb = 4, width = 1, set_msk = 0x00000010, clr_msk = 0xffffffef, reset_val = 0x0,
     get_of = (\<lambda>value. drop_bit 4 (value AND 0x00000010)), set_of = (\<lambda>value. push_bit 4 value AND 0x00000010),
     enum = [(''INACT'', 0x0), (''ACT'', 0x1)] \<rparr>"

definition ALT_MON_GPIO_RAW_INTSTAT_PRR :: reg_field where
  "ALT_MON_GPIO_RAW_INTSTAT_PRR = \<lparr> lsb = 5, msb = 5, width = 1, set_msk = 0x00000020, clr_msk = 0xffffffdf, reset_val = 0x0,
     get_of = (\<lambda>value. drop_bit 5 (value AND 0x00000020)), set_of = (\<lambda>value. push_bit 5 value AND 0x00000020),
     enum = [(''INACT'', 0x0), (''ACT'', 0x1)] \<rparr>"

definition ALT_MON_GPIO_RAW_INTSTAT_PRE :: reg_field where
  "ALT_MON_GPIO_RAW_INTSTAT_PRE = \<lparr> lsb = 6, msb = 6, width = 1, set_msk = 0x00000040, clr_msk = 0xffffffbf, reset_val = 0x0,
     get_of = (\<lambda>value. drop_bit 6 (value AND 0x00000040)), set_of = (\<lambda>value. push_bit 6 value AND 0x00000040),
     enum = [(''INACT'', 0x0), (''ACT'', 0x1)] \<rparr>"

definition ALT_MON_GPIO_RAW_INTSTAT_PRD :: reg_field where
  "ALT_MON_GPIO_RAW_INTSTAT_PRD = \<lparr> lsb = 7, msb = 7, width = 1, set_msk = 0x00000080, clr_msk = 0xffffff7f, reset_val = 0x0,
     get_of = (\<lambda>value. drop_bit 7 (value AND 0x00000080)), set_of = (\<lambda>value. push_bit 7 value AND 0x00000080),
     enum = [(''INACT'', 0x0), (''ACT'', 0x1)] \<rparr>"

definition ALT_MON_GPIO_RAW_INTSTAT_NCP :: reg_field where
  "ALT_MON_GPIO_RAW_INTSTAT_NCP = \<lparr> lsb = 8, msb = 8, width = 1, set_msk = 0x00000100, clr_msk = 0xfffffeff, reset_val = 0x0,
     get_of = (\<lambda>value. drop_bit 8 (value AND 0x00000100)), set_of = (\<lambda>value. push_bit 8 value AND 0x00000100),
     enum = [(''INACT'', 0x0), (''ACT'', 0x1)] \<rparr>"

definition ALT_MON_GPIO_RAW_INTSTAT_NSP :: reg_field where
  "ALT_MON_GPIO_RAW_INTSTAT_NSP = \<lparr> lsb = 9, msb = 9, width = 1, set_msk = 0x00000200, clr_msk = 0xfffffdff, reset_val = 0x0,
     get_of = (\<lambda>value. drop_bit 9 (value AND 0x00000200)), set_of = (\<lambda>value. push_bit 9 value AND 0x00000200),
     enum = [(''INACT'', 0x0), (''ACT'', 0x1)] \<rparr>"

definition ALT_MON_GPIO_RAW_INTSTAT_CDP :: reg_field where
  "ALT_MON_GPIO_RAW_INTSTAT_CDP = \<lparr> lsb = 10, msb = 10, width = 1, set_msk = 0x00000400, clr_msk = 0xfffffbff, reset_val = 0x0,
     get_of = (\<lambda>value. drop_bit 10 (value AND 0x00000400)), set_of = (\<lambda>value. push_bit 10 value AND 0x00000400),
     enum = [(''INACT'', 0x0), (''ACT'', 0x1)] \<rparr>"

definition ALT_MON_GPIO_RAW_INTSTAT_FPO :: reg_field where
  "ALT_MON_GPIO_RAW_INTSTAT_FPO = \<lparr> lsb = 11, msb = 11, width = 1, set_msk = 0x00000800, clr_msk = 0xfffff7ff, reset_val = 0x0,
     get_of = (\<lambda>value. drop_bit 11 (value AND 0x00000800)), set_of = (\<lambda>value. push_bit 11 value AND 0x00000800),
     enum = [(''INACT'', 0x0), (''ACT'', 0x1)] \<rparr>"

definition ALT_MON_GPIO_RAW_INTSTAT :: register where
  "ALT_MON_GPIO_RAW_INTSTAT = \<lparr> offset = 0x44,
     reg_fields = [ALT_MON_GPIO_RAW_INTSTAT_NS, ALT_MON_GPIO_RAW_INTSTAT_CD,
       ALT_MON_GPIO_RAW_INTSTAT_ID, ALT_MON_GPIO_RAW_INTSTAT_CRC, ALT_MON_GPIO_RAW_INTSTAT_CCD,
       ALT_MON_GPIO_RAW_INTSTAT_PRR, ALT_MON_GPIO_RAW_INTSTAT_PRE, ALT_MON_GPIO_RAW_INTSTAT_PRD,
       ALT_MON_GPIO_RAW_INTSTAT_NCP, ALT_MON_GPIO_RAW_INTSTAT_NSP, ALT_MON_GPIO_RAW_INTSTAT_CDP,
       ALT_MON_GPIO_RAW_INTSTAT_FPO],
     bits = [(''ns'', 1, True), (''cd'', 1, True), (''id'', 1, True), (''crc'', 1, True),
       (''ccd'', 1, True), (''prr'', 1, True), (''pre'', 1, True), (''prd'', 1, True),
       (''ncp'', 1, True), (''nsp'', 1, True), (''cdp'', 1, True), (''fpo'', 1, True),
       ('''', 20, False)] \<rparr>"

lemmas alt_mon_gpio_raw_intstat_defs = ALT_MON_GPIO_RAW_INTSTAT_def
  ALT_MON_GPIO_RAW_INTSTAT_NS_def
  ALT_MON_GPIO_RAW_INTSTAT_CD_def
  ALT_MON_GPIO_RAW_INTSTAT_ID_def
  ALT_MON_GPIO_RAW_INTSTAT_CRC_def
  ALT_MON_GPIO_RAW_INTSTAT_CCD_def
  ALT_MON_GPIO_RAW_INTSTAT_PRR_def
  ALT_MON_GPIO_RAW_INTSTAT_PRE_def
  ALT_MON_GPIO_RAW_INTSTAT_PRD_def
  ALT_MON_GPIO_RAW_INTSTAT_NCP_def
  ALT_MON_GPIO_RAW_INTSTAT_NSP_def
  ALT_MON_GPIO_RAW_INTSTAT_CDP_def
  ALT_MON_GPIO_RAW_INTSTAT_FPO_def

subsection \<open>Clear Interrupt Register - gpio_porta_eoi\<close>

definition ALT_MON_GPIO_PORTA_EOI_NS :: reg_field where
  "ALT_MON_GPIO_PORTA_EOI_NS = \<lparr> lsb = 0, msb = 0, width = 1, set_msk = 0x00000001, clr_msk = 0xfffffffe, reset_val = 0x0,
     get_of = (\<lambda>value. drop_bit 0 (value AND 0x00000001)), set_of = (\<lambda>value. push_bit 0 value AND 0x00000001),
     enum = [(''NOCLR'', 0x0), (''CLR'', 0x1)] \<rparr>"

definition ALT_MON_GPIO_PORTA_EOI_CD :: reg_field where
  "ALT_MON_GPIO_PORTA_EOI_CD = \<lparr> lsb = 1, msb = 1, width = 1, set_msk = 0x00000002, clr_msk = 0xfffffffd, reset_val = 0x0,
     get_of = (\<lambda>value. drop_bit 1 (value AND 0x00000002)), set_of = (\<lambda>value. push_bit 1 value AND 0x00000002),
     enum = [(''NOCLR'', 0x0), (''CLR'', 0x1)] \<rparr>"

definition ALT_MON_GPIO_PORTA_EOI_ID :: reg_field where
  "ALT_MON_GPIO_PORTA_EOI_ID = \<lparr> lsb = 2, msb = 2, width = 1, set_msk = 0x00000004, clr_msk = 0xfffffffb, reset_val = 0x0,
     get_of = (\<lambda>value. drop_bit 2 (value AND 0x00000004)), set_of = (\<lambda>value. push_bit 2 value AND 0x00000004),
     enum = [(''NOCLR'', 0x0), (''CLR'', 0x1)] \<rparr>"

definition ALT_MON_GPIO_PORTA_EOI_CRC :: reg_field where
  "ALT_MON_GPIO_PORTA_EOI_CRC = \<lparr> lsb = 3, msb = 3, width = 1, set_msk = 0x00000008, clr_msk = 0xfffffff7, reset_val = 0x0,
     get_of = (\<lambda>value. drop_bit 3 (value AND 0x00000008)), set_of = (\<lambda>value. push_bit 3 value AND 0x00000008),
     enum = [(''NOCLR'', 0x0), (''CLR'', 0x1)] \<rparr>"

definition ALT_MON_GPIO_PORTA_EOI_CCD :: reg_field where
  "ALT_MON_GPIO_PORTA_EOI_CCD = \<lparr> lsb = 4, msb = 4, width = 1, set_msk = 0x00000010, clr_msk = 0xffffffef, reset_val = 0x0,
     get_of = (\<lambda>value. drop_bit 4 (value AND 0x00000010)), set_of = (\<lambda>value. push_bit 4 value AND 0x00000010),
     enum = [(''NOCLR'', 0x0), (''CLR'', 0x1)] \<rparr>"

definition ALT_MON_GPIO_PORTA_EOI_PRR :: reg_field where
  "ALT_MON_GPIO_PORTA_EOI_PRR = \<lparr> lsb = 5, msb = 5, width = 1, set_msk = 0x00000020, clr_msk = 0xffffffdf, reset_val = 0x0,
     get_of = (\<lambda>value. drop_bit 5 (value AND 0x00000020)), set_of = (\<lambda>value. push_bit 5 value AND 0x00000020),
     enum = [(''NOCLR'', 0x0), (''CLR'', 0x1)] \<rparr>"

definition ALT_MON_GPIO_PORTA_EOI_PRE :: reg_field where
  "ALT_MON_GPIO_PORTA_EOI_PRE = \<lparr> lsb = 6, msb = 6, width = 1, set_msk = 0x00000040, clr_msk = 0xffffffbf, reset_val = 0x0,
     get_of = (\<lambda>value. drop_bit 6 (value AND 0x00000040)), set_of = (\<lambda>value. push_bit 6 value AND 0x00000040),
     enum = [(''NOCLR'', 0x0), (''CLR'', 0x1)] \<rparr>"

definition ALT_MON_GPIO_PORTA_EOI_PRD :: reg_field where
  "ALT_MON_GPIO_PORTA_EOI_PRD = \<lparr> lsb = 7, msb = 7, width = 1, set_msk = 0x00000080, clr_msk = 0xffffff7f, reset_val = 0x0,
     get_of = (\<lambda>value. drop_bit 7 (value AND 0x00000080)), set_of = (\<lambda>value. push_bit 7 value AND 0x00000080),
     enum = [(''NOCLR'', 0x0), (''CLR'', 0x1)] \<rparr>"

definition ALT_MON_GPIO_PORTA_EOI_NCP :: reg_field where
  "ALT_MON_GPIO_PORTA_EOI_NCP = \<lparr> lsb = 8, msb = 8, width = 1, set_msk = 0x00000100, clr_msk = 0xfffffeff, reset_val = 0x0,
     get_of = (\<lambda>value. drop_bit 8 (value AND 0x00000100)), set_of = (\<lambda>value. push_bit 8 value AND 0x00000100),
     enum = [(''NOCLR'', 0x0), (''CLR'', 0x1)] \<rparr>"

definition ALT_MON_GPIO_PORTA_EOI_NSP :: reg_field where
  "ALT_MON_GPIO_PORTA_EOI_NSP = \<lparr> lsb = 9, msb = 9, width = 1, set_msk = 0x00000200, clr_msk = 0xfffffdff, reset_val = 0x0,
     get_of = (\<lambda>value. drop_bit 9 (value AND 0x00000200)), set_of = (\<lambda>value. push_bit 9 value AND 0x00000200),
     enum = [(''NOCLR'', 0x0), (''CLR'', 0x1)] \<rparr>"

definition ALT_MON_GPIO_PORTA_EOI_CDP :: reg_field where
  "ALT_MON_GPIO_PORTA_EOI_CDP = \<lparr> lsb = 10, msb = 10, width = 1, set_msk = 0x00000400, clr_msk = 0xfffffbff, reset_val = 0x0,
     get_of = (\<lambda>value. drop_bit 10 (value AND 0x00000400)), set_of = (\<lambda>value. push_bit 10 value AND 0x00000400),
     enum = [(''NOCLR'', 0x0), (''CLR'', 0x1)] \<rparr>"

definition ALT_MON_GPIO_PORTA_EOI_FPO :: reg_field where
  "ALT_MON_GPIO_PORTA_EOI_FPO = \<lparr> lsb = 11, msb = 11, width = 1, set_msk = 0x00000800, clr_msk = 0xfffff7ff, reset_val = 0x0,
     get_of = (\<lambda>value. drop_bit 11 (value AND 0x00000800)), set_of = (\<lambda>value. push_bit 11 value AND 0x00000800),
     enum = [(''NOCLR'', 0x0), (''CLR'', 0x1)] \<rparr>"

definition ALT_MON_GPIO_PORTA_EOI :: register where
  "ALT_MON_GPIO_PORTA_EOI = \<lparr> offset = 0x4c,
     reg_fields = [ALT_MON_GPIO_PORTA_EOI_NS, ALT_MON_GPIO_PORTA_EOI_CD, ALT_MON_GPIO_PORTA_EOI_ID,
       ALT_MON_GPIO_PORTA_EOI_CRC, ALT_MON_GPIO_PORTA_EOI_CCD, ALT_MON_GPIO_PORTA_EOI_PRR,
       ALT_MON_GPIO_PORTA_EOI_PRE, ALT_MON_GPIO_PORTA_EOI_PRD, ALT_MON_GPIO_PORTA_EOI_NCP,
       ALT_MON_GPIO_PORTA_EOI_NSP, ALT_MON_GPIO_PORTA_EOI_CDP, ALT_MON_GPIO_PORTA_EOI_FPO],
     bits = [(''ns'', 1, False), (''cd'', 1, False), (''id'', 1, False), (''crc'', 1, False),
       (''ccd'', 1, False), (''prr'', 1, False), (''pre'', 1, False), (''prd'', 1, False),
       (''ncp'', 1, False), (''nsp'', 1, False), (''cdp'', 1, False), (''fpo'', 1, False),
       ('''', 20, False)] \<rparr>"

lemmas alt_mon_gpio_porta_eoi_defs = ALT_MON_GPIO_PORTA_EOI_def
  ALT_MON_GPIO_PORTA_EOI_NS_def
  ALT_MON_GPIO_PORTA_EOI_CD_def
  ALT_MON_GPIO_PORTA_EOI_ID_def
  ALT_MON_GPIO_PORTA_EOI_CRC_def
  ALT_MON_GPIO_PORTA_EOI_CCD_def
  ALT_MON_GPIO_PORTA_EOI_PRR_def
  ALT_MON_GPIO_PORTA_EOI_PRE_def
  ALT_MON_GPIO_PORTA_EOI_PRD_def
  ALT_MON_GPIO_PORTA_EOI_NCP_def
  ALT_MON_GPIO_PORTA_EOI_NSP_def
  ALT_MON_GPIO_PORTA_EOI_CDP_def
  ALT_MON_GPIO_PORTA_EOI_FPO_def

subsection \<open>External Port A Register - gpio_ext_porta\<close>

definition ALT_MON_GPIO_EXT_PORTA_NS :: reg_field where
  "ALT_MON_GPIO_EXT_PORTA_NS = \<lparr> lsb = 0, msb = 0, width = 1, set_msk = 0x00000001, clr_msk = 0xfffffffe, reset_val = 0x0,
     get_of = (\<lambda>value. drop_bit 0 (value AND 0x00000001)), set_of = (\<lambda>value. push_bit 0 value AND 0x00000001),
     enum = [] \<rparr>"

definition ALT_MON_GPIO_EXT_PORTA_CD :: reg_field where
  "ALT_MON_GPIO_EXT_PORTA_CD = \<lparr> lsb = 1, msb = 1, width = 1, set_msk = 0x00000002, clr_msk = 0xfffffffd, reset_val = 0x0,
     get_of = (\<lambda>value. drop_bit 1 (value AND 0x00000002)), set_of = (\<lambda>value. push_bit 1 value AND 0x00000002),
     enum = [] \<rparr>"

definition ALT_MON_GPIO_EXT_PORTA_ID :: reg_field where
  "ALT_MON_GPIO_EXT_PORTA_ID = \<lparr> lsb = 2, msb = 2, width = 1, set_msk = 0x00000004, clr_msk = 0xfffffffb, reset_val = 0x0,
     get_of = (\<lambda>value. drop_bit 2 (value AND 0x00000004)), set_of = (\<lambda>value. push_bit 2 value AND 0x00000004),
     enum = [] \<rparr>"

definition ALT_MON_GPIO_EXT_PORTA_CRC :: reg_field where
  "ALT_MON_GPIO_EXT_PORTA_CRC = \<lparr> lsb = 3, msb = 3, width = 1, set_msk = 0x00000008, clr_msk = 0xfffffff7, reset_val = 0x0,
     get_of = (\<lambda>value. drop_bit 3 (value AND 0x00000008)), set_of = (\<lambda>value. push_bit 3 value AND 0x00000008),
     enum = [] \<rparr>"

definition ALT_MON_GPIO_EXT_PORTA_CCD :: reg_field where
  "ALT_MON_GPIO_EXT_PORTA_CCD = \<lparr> lsb = 4, msb = 4, width = 1, set_msk = 0x00000010, clr_msk = 0xffffffef, reset_val = 0x0,
     get_of = (\<lambda>value. drop_bit 4 (value AND 0x00000010)), set_of = (\<lambda>value. push_bit 4 value AND 0x00000010),
     enum = [] \<rparr>"

definition ALT_MON_GPIO_EXT_PORTA_PRR :: reg_field where
  "ALT_MON_GPIO_EXT_PORTA_PRR = \<lparr> lsb = 5, msb = 5, width = 1, set_msk = 0x00000020, clr_msk = 0xffffffdf, reset_val = 0x0,
     get_of = (\<lambda>value. drop_bit 5 (value AND 0x00000020)), set_of = (\<lambda>value. push_bit 5 value AND 0x00000020),
     enum = [] \<rparr>"

definition ALT_MON_GPIO_EXT_PORTA_PRE :: reg_field where
  "ALT_MON_GPIO_EXT_PORTA_PRE = \<lparr> lsb = 6, msb = 6, width = 1, set_msk = 0x00000040, clr_msk = 0xffffffbf, reset_val = 0x0,
     get_of = (\<lambda>value. drop_bit 6 (value AND 0x00000040)), set_of = (\<lambda>value. push_bit 6 value AND 0x00000040),
     enum = [] \<rparr>"

definition ALT_MON_GPIO_EXT_PORTA_PRD :: reg_field where
  "ALT_MON_GPIO_EXT_PORTA_PRD = \<lparr> lsb = 7, msb = 7, width = 1, set_msk = 0x00000080, clr_msk = 0xffffff7f, reset_val = 0x0,
     get_of = (\<lambda>value. drop_bit 7 (value AND 0x00000080)), set_of = (\<lambda>value. push_bit 7 value AND 0x00000080),
     enum = [] \<rparr>"

definition ALT_MON_GPIO_EXT_PORTA_NCP :: reg_field where
  "ALT_MON_GPIO_EXT_PORTA_NCP = \<lparr> lsb = 8, msb = 8, width = 1, set_msk = 0x00000100, clr_msk = 0xfffffeff, reset_val = 0x0,
     get_of = (\<lambda>value. drop_bit 8 (value AND 0x00000100)), set_of = (\<lambda>value. push_bit 8 value AND 0x00000100),
     enum = [] \<rparr>"

definition ALT_MON_GPIO_EXT_PORTA_NSP :: reg_field where
  "ALT_MON_GPIO_EXT_PORTA_NSP = \<lparr> lsb = 9, msb = 9, width = 1, set_msk = 0x00000200, clr_msk = 0xfffffdff, reset_val = 0x0,
     get_of = (\<lambda>value. drop_bit 9 (value AND 0x00000200)), set_of = (\<lambda>value. push_bit 9 value AND 0x00000200),
     enum = [] \<rparr>"

definition ALT_MON_GPIO_EXT_PORTA_CDP :: reg_field where
  "ALT_MON_GPIO_EXT_PORTA_CDP = \<lparr> lsb = 10, msb = 10, width = 1, set_msk = 0x00000400, clr_msk = 0xfffffbff, reset_val = 0x0,
     get_of = (\<lambda>value. drop_bit 10 (value AND 0x00000400)), set_of = (\<lambda>value. push_bit 10 value AND 0x00000400),
     enum = [] \<rparr>"

definition ALT_MON_GPIO_EXT_PORTA_FPO :: reg_field where
  "ALT_MON_GPIO_EXT_PORTA_FPO = \<lparr> lsb = 11, msb = 11, width = 1, set_msk = 0x00000800, clr_msk = 0xfffff7ff, reset_val = 0x0,
     get_of = (\<lambda>value. drop_bit 11 (value AND 0x00000800)), set_of = (\<lambda>value. push_bit 11 value AND 0x00000800),
     enum = [] \<rparr>"

definition ALT_MON_GPIO_EXT_PORTA :: register where
  "ALT_MON_GPIO_EXT_PORTA = \<lparr> offset = 0x50,
     reg_fields = [ALT_MON_GPIO_EXT_PORTA_NS, ALT_MON_GPIO_EXT_PORTA_CD, ALT_MON_GPIO_EXT_PORTA_ID,
       ALT_MON_GPIO_EXT_PORTA_CRC, ALT_MON_GPIO_EXT_PORTA_CCD, ALT_MON_GPIO_EXT_PORTA_PRR,
       ALT_MON_GPIO_EXT_PORTA_PRE, ALT_MON_GPIO_EXT_PORTA_PRD, ALT_MON_GPIO_EXT_PORTA_NCP,
       ALT_MON_GPIO_EXT_PORTA_NSP, ALT_MON_GPIO_EXT_PORTA_CDP, ALT_MON_GPIO_EXT_PORTA_FPO],
     bits = [(''ns'', 1, True), (''cd'', 1, True), (''id'', 1, True), (''crc'', 1, True),
       (''ccd'', 1, True), (''prr'', 1, True), (''pre'', 1, True), (''prd'', 1, True),
       (''ncp'', 1, True), (''nsp'', 1, True), (''cdp'', 1, True), (''fpo'', 1, True),
       ('''', 20, False)] \<rparr>"

lemmas alt_mon_gpio_ext_porta_defs = ALT_MON_GPIO_EXT_PORTA_def
  ALT_MON_GPIO_EXT_PORTA_NS_def
  ALT_MON_GPIO_EXT_PORTA_CD_def
  ALT_MON_GPIO_EXT_PORTA_ID_def
  ALT_MON_GPIO_EXT_PORTA_CRC_def
  ALT_MON_GPIO_EXT_PORTA_CCD_def
  ALT_MON_GPIO_EXT_PORTA_PRR_def
  ALT_MON_GPIO_EXT_PORTA_PRE_def
  ALT_MON_GPIO_EXT_PORTA_PRD_def
  ALT_MON_GPIO_EXT_PORTA_NCP_def
  ALT_MON_GPIO_EXT_PORTA_NSP_def
  ALT_MON_GPIO_EXT_PORTA_CDP_def
  ALT_MON_GPIO_EXT_PORTA_FPO_def

subsection \<open>Synchronization Level Register - gpio_ls_sync\<close>

definition ALT_MON_GPIO_LS_SYNC_GPIO_LS_SYNC :: reg_field where
  "ALT_MON_GPIO_LS_SYNC_GPIO_LS_SYNC = \<lparr> lsb = 0, msb = 0, width = 1, set_msk = 0x00000001, clr_msk = 0xfffffffe, reset_val = 0x0,
     get_of = (\<lambda>value. drop_bit 0 (value AND 0x00000001)), set_of = (\<lambda>value. push_bit 0 value AND 0x00000001),
     enum = [(''NOSYNC'', 0x0), (''SYNC'', 0x1)] \<rparr>"

definition ALT_MON_GPIO_LS_SYNC :: register where
  "ALT_MON_GPIO_LS_SYNC = \<lparr> offset = 0x60,
     reg_fields = [ALT_MON_GPIO_LS_SYNC_GPIO_LS_SYNC],
     bits = [(''gpio_ls_sync'', 1, False), ('''', 31, False)] \<rparr>"

lemmas alt_mon_gpio_ls_sync_defs = ALT_MON_GPIO_LS_SYNC_def
  ALT_MON_GPIO_LS_SYNC_GPIO_LS_SYNC_def

subsection \<open>GPIO Version Register - gpio_ver_id_code\<close>

definition ALT_MON_GPIO_VER_ID_CODE_GPIO_VER_ID_CODE :: reg_field where
  "ALT_MON_GPIO_VER_ID_CODE_GPIO_VER_ID_CODE = \<lparr> lsb = 0, msb = 31, width = 32, set_msk = 0xffffffff, clr_msk = 0x00000000, reset_val = 0x3230382a,
     get_of = (\<lambda>value. drop_bit 0 (value AND 0xffffffff)), set_of = (\<lambda>value. push_bit 0 value AND 0xffffffff),
     enum = [] \<rparr>"

definition ALT_MON_GPIO_VER_ID_CODE :: register where
  "ALT_MON_GPIO_VER_ID_CODE = \<lparr> offset = 0x6c,
     reg_fields = [ALT_MON_GPIO_VER_ID_CODE_GPIO_VER_ID_CODE],
     bits = [(''gpio_ver_id_code'', 32, True)] \<rparr>"

lemmas alt_mon_gpio_ver_id_code_defs = ALT_MON_GPIO_VER_ID_CODE_def
  ALT_MON_GPIO_VER_ID_CODE_GPIO_VER_ID_CODE_def

subsection \<open>Configuration Register 2 - gpio_config_reg2\<close>

definition ALT_MON_GPIO_CFG_REG2_ENC_ID_PWIDTH_A :: reg_field where
  "ALT_MON_GPIO_CFG_REG2_ENC_ID_PWIDTH_A = \<lparr> lsb = 0, msb = 4, width = 5, set_msk = 0x0000001f, clr_msk = 0xffffffe0, reset_val = 0xb,
     get_of = (\<lambda>value. drop_bit 0 (value AND 0x0000001f)), set_of = (\<lambda>value. push_bit 0 value AND 0x0000001f),
     enum = [(''WIDTHLESSONE8BITS'', 0x7), (''WIDTHLESSONE12BITS'', 0xb)] \<rparr>"

definition ALT_MON_GPIO_CFG_REG2_ENC_ID_PWIDTH_B :: reg_field where
  "ALT_MON_GPIO_CFG_REG2_ENC_ID_PWIDTH_B = \<lparr> lsb = 5, msb = 9, width = 5, set_msk = 0x000003e0, clr_msk = 0xfffffc1f, reset_val = 0x7,
     get_of = (\<lambda>value. drop_bit 5 (value AND 0x000003e0)), set_of = (\<lambda>value. push_bit 5 value AND 0x000003e0),
     enum = [(''WIDTHLESSONE8BITS'', 0x7), (''WIDTHLESSONE12BITS'', 0xb)] \<rparr>"

definition ALT_MON_GPIO_CFG_REG2_ENC_ID_PWIDTH_C :: reg_field where
  "ALT_MON_GPIO_CFG_REG2_ENC_ID_PWIDTH_C = \<lparr> lsb = 10, msb = 14, width = 5, set_msk = 0x00007c00, clr_msk = 0xffff83ff, reset_val = 0x7,
     get_of = (\<lambda>value. drop_bit 10 (value AND 0x00007c00)), set_of = (\<lambda>value. push_bit 10 value AND 0x00007c00),
     enum = [(''WIDTHLESSONE8BITS'', 0x7), (''WIDTHLESSONE12BITS'', 0xb)] \<rparr>"

definition ALT_MON_GPIO_CFG_REG2_ENC_ID_PWIDTH_D :: reg_field where
  "ALT_MON_GPIO_CFG_REG2_ENC_ID_PWIDTH_D = \<lparr> lsb = 15, msb = 19, width = 5, set_msk = 0x000f8000, clr_msk = 0xfff07fff, reset_val = 0x7,
     get_of = (\<lambda>value. drop_bit 15 (value AND 0x000f8000)), set_of = (\<lambda>value. push_bit 15 value AND 0x000f8000),
     enum = [(''WIDTHLESSONE8BITS'', 0x7), (''WIDTHLESSONE12BITS'', 0xb)] \<rparr>"

definition ALT_MON_GPIO_CFG_REG2 :: register where
  "ALT_MON_GPIO_CFG_REG2 = \<lparr> offset = 0x70,
     reg_fields = [ALT_MON_GPIO_CFG_REG2_ENC_ID_PWIDTH_A, ALT_MON_GPIO_CFG_REG2_ENC_ID_PWIDTH_B,
       ALT_MON_GPIO_CFG_REG2_ENC_ID_PWIDTH_C, ALT_MON_GPIO_CFG_REG2_ENC_ID_PWIDTH_D],
     bits = [(''encoded_id_pwidth_a'', 5, True), (''encoded_id_pwidth_b'', 5, True),
       (''encoded_id_pwidth_c'', 5, True), (''encoded_id_pwidth_d'', 5, True), ('''', 12, False)] \<rparr>"

lemmas alt_mon_gpio_cfg_reg2_defs = ALT_MON_GPIO_CFG_REG2_def
  ALT_MON_GPIO_CFG_REG2_ENC_ID_PWIDTH_A_def
  ALT_MON_GPIO_CFG_REG2_ENC_ID_PWIDTH_B_def
  ALT_MON_GPIO_CFG_REG2_ENC_ID_PWIDTH_C_def
  ALT_MON_GPIO_CFG_REG2_ENC_ID_PWIDTH_D_def

subsection \<open>Configuration Register 1 - gpio_config_reg1\<close>

definition ALT_MON_GPIO_CFG_REG1_APB_DATA_WIDTH :: reg_field where
  "ALT_MON_GPIO_CFG_REG1_APB_DATA_WIDTH = \<lparr> lsb = 0, msb = 1, width = 2, set_msk = 0x00000003, clr_msk = 0xfffffffc, reset_val = 0x2,
     get_of = (\<lambda>value. drop_bit 0 (value AND 0x00000003)), set_of = (\<lambda>value. push_bit 0 value AND 0x00000003),
     enum = [(''WIDTH32BITS'', 0x2)] \<rparr>"

definition ALT_MON_GPIO_CFG_REG1_NUM_PORTS :: reg_field where
  "ALT_MON_GPIO_CFG_REG1_NUM_PORTS = \<lparr> lsb = 2, msb = 3, width = 2, set_msk = 0x0000000c, clr_msk = 0xfffffff3, reset_val = 0x0,
     get_of = (\<lambda>value. drop_bit 2 (value AND 0x0000000c)), set_of = (\<lambda>value. push_bit 2 value AND 0x0000000c),
     enum = [(''ONEPORTA'', 0x0)] \<rparr>"

definition ALT_MON_GPIO_CFG_REG1_PORTA_SINGLE_CTL :: reg_field where
  "ALT_MON_GPIO_CFG_REG1_PORTA_SINGLE_CTL = \<lparr> lsb = 4, msb = 4, width = 1, set_msk = 0x00000010, clr_msk = 0xffffffef, reset_val = 0x1,
     get_of = (\<lambda>value. drop_bit 4 (value AND 0x00000010)), set_of = (\<lambda>value. push_bit 4 value AND 0x00000010),
     enum = [(''SOFTCTLONLY'', 0x1)] \<rparr>"

definition ALT_MON_GPIO_CFG_REG1_PORTB_SINGLE_CTL :: reg_field where
  "ALT_MON_GPIO_CFG_REG1_PORTB_SINGLE_CTL = \<lparr> lsb = 5, msb = 5, width = 1, set_msk = 0x00000020, clr_msk = 0xffffffdf, reset_val = 0x1,
     get_of = (\<lambda>value. drop_bit 5 (value AND 0x00000020)), set_of = (\<lambda>value. push_bit 5 value AND 0x00000020),
     enum = [(''SOFTCTLONLY'', 0x1)] \<rparr>"

definition ALT_MON_GPIO_CFG_REG1_PORTC_SINGLE_CTL :: reg_field where
  "ALT_MON_GPIO_CFG_REG1_PORTC_SINGLE_CTL = \<lparr> lsb = 6, msb = 6, width = 1, set_msk = 0x00000040, clr_msk = 0xffffffbf, reset_val = 0x1,
     get_of = (\<lambda>value. drop_bit 6 (value AND 0x00000040)), set_of = (\<lambda>value. push_bit 6 value AND 0x00000040),
     enum = [(''SOFTCTLONLY'', 0x1)] \<rparr>"

definition ALT_MON_GPIO_CFG_REG1_PORTD_SINGLE_CTL :: reg_field where
  "ALT_MON_GPIO_CFG_REG1_PORTD_SINGLE_CTL = \<lparr> lsb = 7, msb = 7, width = 1, set_msk = 0x00000080, clr_msk = 0xffffff7f, reset_val = 0x1,
     get_of = (\<lambda>value. drop_bit 7 (value AND 0x00000080)), set_of = (\<lambda>value. push_bit 7 value AND 0x00000080),
     enum = [(''SOFTCTLONLY'', 0x1)] \<rparr>"

definition ALT_MON_GPIO_CFG_REG1_HW_PORTA :: reg_field where
  "ALT_MON_GPIO_CFG_REG1_HW_PORTA = \<lparr> lsb = 8, msb = 8, width = 1, set_msk = 0x00000100, clr_msk = 0xfffffeff, reset_val = 0x0,
     get_of = (\<lambda>value. drop_bit 8 (value AND 0x00000100)), set_of = (\<lambda>value. push_bit 8 value AND 0x00000100),
     enum = [(''PORTANOHARD'', 0x0)] \<rparr>"

definition ALT_MON_GPIO_CFG_REG1_PORTA_INTR :: reg_field where
  "ALT_MON_GPIO_CFG_REG1_PORTA_INTR = \<lparr> lsb = 12, msb = 12, width = 1, set_msk = 0x00001000, clr_msk = 0xffffefff, reset_val = 0x1,
     get_of = (\<lambda>value. drop_bit 12 (value AND 0x00001000)), set_of = (\<lambda>value. push_bit 12 value AND 0x00001000),
     enum = [(''PORTAINTERR'', 0x1)] \<rparr>"

definition ALT_MON_GPIO_CFG_REG1_DEBOUNCE :: reg_field where
  "ALT_MON_GPIO_CFG_REG1_DEBOUNCE = \<lparr> lsb = 13, msb = 13, width = 1, set_msk = 0x00002000, clr_msk = 0xffffdfff, reset_val = 0x0,
     get_of = (\<lambda>value. drop_bit 13 (value AND 0x00002000)), set_of = (\<lambda>value. push_bit 13 value AND 0x00002000),
     enum = [(''DEBOUNCEA_DISD'', 0x0)] \<rparr>"

definition ALT_MON_GPIO_CFG_REG1_ADD_ENC_PARAMS :: reg_field where
  "ALT_MON_GPIO_CFG_REG1_ADD_ENC_PARAMS = \<lparr> lsb = 14, msb = 14, width = 1, set_msk = 0x00004000, clr_msk = 0xffffbfff, reset_val = 0x1,
     get_of = (\<lambda>value. drop_bit 14 (value AND 0x00004000)), set_of = (\<lambda>value. push_bit 14 value AND 0x00004000),
     enum = [(''ADDENCPARAMS'', 0x1)] \<rparr>"

definition ALT_MON_GPIO_CFG_REG1_GPIO_ID :: reg_field where
  "ALT_MON_GPIO_CFG_REG1_GPIO_ID = \<lparr> lsb = 15, msb = 15, width = 1, set_msk = 0x00008000, clr_msk = 0xffff7fff, reset_val = 0x0,
     get_of = (\<lambda>value. drop_bit 15 (value AND 0x00008000)), set_of = (\<lambda>value. push_bit 15 value AND 0x00008000),
     enum = [(''IDCODE_EXCLUDED'', 0x0)] \<rparr>"

definition ALT_MON_GPIO_CFG_REG1_ENC_ID_WIDTH :: reg_field where
  "ALT_MON_GPIO_CFG_REG1_ENC_ID_WIDTH = \<lparr> lsb = 16, msb = 20, width = 5, set_msk = 0x001f0000, clr_msk = 0xffe0ffff, reset_val = 0x1f,
     get_of = (\<lambda>value. drop_bit 16 (value AND 0x001f0000)), set_of = (\<lambda>value. push_bit 16 value AND 0x001f0000),
     enum = [(''ENCIDWIDTH'', 0x1f)] \<rparr>"

definition ALT_MON_GPIO_CFG_REG1 :: register where
  "ALT_MON_GPIO_CFG_REG1 = \<lparr> offset = 0x74,
     reg_fields = [ALT_MON_GPIO_CFG_REG1_APB_DATA_WIDTH, ALT_MON_GPIO_CFG_REG1_NUM_PORTS,
       ALT_MON_GPIO_CFG_REG1_PORTA_SINGLE_CTL, ALT_MON_GPIO_CFG_REG1_PORTB_SINGLE_CTL,
       ALT_MON_GPIO_CFG_REG1_PORTC_SINGLE_CTL, ALT_MON_GPIO_CFG_REG1_PORTD_SINGLE_CTL,
       ALT_MON_GPIO_CFG_REG1_HW_PORTA, ALT_MON_GPIO_CFG_REG1_PORTA_INTR,
       ALT_MON_GPIO_CFG_REG1_DEBOUNCE, ALT_MON_GPIO_CFG_REG1_ADD_ENC_PARAMS,
       ALT_MON_GPIO_CFG_REG1_GPIO_ID, ALT_MON_GPIO_CFG_REG1_ENC_ID_WIDTH],
     bits = [(''apb_data_width'', 2, True), (''num_ports'', 2, True),
       (''porta_single_ctl'', 1, True), (''portb_single_ctl'', 1, True),
       (''portc_single_ctl'', 1, True), (''portd_single_ctl'', 1, True), (''hw_porta'', 1, True),
       ('''', 3, False), (''porta_intr'', 1, True), (''debounce'', 1, True),
       (''add_encoded_params'', 1, True), (''gpio_id'', 1, True), (''encoded_id_width'', 5, True),
       ('''', 11, False)] \<rparr>"

lemmas alt_mon_gpio_cfg_reg1_defs = ALT_MON_GPIO_CFG_REG1_def
  ALT_MON_GPIO_CFG_REG1_APB_DATA_WIDTH_def
  ALT_MON_GPIO_CFG_REG1_NUM_PORTS_def
  ALT_MON_GPIO_CFG_REG1_PORTA_SINGLE_CTL_def
  ALT_MON_GPIO_CFG_REG1_PORTB_SINGLE_CTL_def
  ALT_MON_GPIO_CFG_REG1_PORTC_SINGLE_CTL_def
  ALT_MON_GPIO_CFG_REG1_PORTD_SINGLE_CTL_def
  ALT_MON_GPIO_CFG_REG1_HW_PORTA_def
  ALT_MON_GPIO_CFG_REG1_PORTA_INTR_def
  ALT_MON_GPIO_CFG_REG1_DEBOUNCE_def
  ALT_MON_GPIO_CFG_REG1_ADD_ENC_PARAMS_def
  ALT_MON_GPIO_CFG_REG1_GPIO_ID_def
  ALT_MON_GPIO_CFG_REG1_ENC_ID_WIDTH_def

subsection \<open>Write Data Register - img_data_w\<close>

definition ALT_FPGAMGRDATA_DATA_FLD :: reg_field where
  "ALT_FPGAMGRDATA_DATA_FLD = \<lparr> lsb = 0, msb = 31, width = 32, set_msk = 0xffffffff, clr_msk = 0x00000000, reset_val = 0x0,
     get_of = (\<lambda>value. drop_bit 0 (value AND 0xffffffff)), set_of = (\<lambda>value. push_bit 0 value AND 0xffffffff),
     enum = [] \<rparr>"

definition ALT_FPGAMGRDATA_DATA :: register where
  "ALT_FPGAMGRDATA_DATA = \<lparr> offset = 0x0,
     reg_fields = [ALT_FPGAMGRDATA_DATA_FLD],
     bits = [(''fld'', 32, False)] \<rparr>"

lemmas alt_fpgamgrdata_data_defs = ALT_FPGAMGRDATA_DATA_def
  ALT_FPGAMGRDATA_DATA_FLD_def

section \<open>Groups\<close>

text \<open>
  The struct of a register group: registers, padding of so many words, and another group.
\<close>

datatype member = Reg register | Pad nat | Grp "member list"

fun member_size :: "member \<Rightarrow> nat" where
  "member_size (Reg r) = 4"
| "member_size (Pad n) = 4 * n"
| "member_size (Grp ms) = sum_list (map member_size ms)"

fun layout :: "nat \<Rightarrow> member \<Rightarrow> (nat \<times> register) list"
  and layouts :: "nat \<Rightarrow> member list \<Rightarrow> (nat \<times> register) list" where
  "layout p (Reg r) = [(p, r)]"
| "layout p (Pad n) = []"
| "layout p (Grp ms) = layouts p ms"
| "layouts p [] = []"
| "layouts p (m # ms) = layout p m @ layouts (p + member_size m) ms"

definition ALT_MON_s :: member where
  "ALT_MON_s = Grp [Pad 12, Reg ALT_MON_GPIO_INTEN, Reg ALT_MON_GPIO_INTMSK,
     Reg ALT_MON_GPIO_INTTYPE_LEVEL, Reg ALT_MON_GPIO_INT_POL, Reg ALT_MON_GPIO_INTSTAT,
     Reg ALT_MON_GPIO_RAW_INTSTAT, Pad 1, Reg ALT_MON_GPIO_PORTA_EOI, Reg ALT_MON_GPIO_EXT_PORTA,
     Pad 3, Reg ALT_MON_GPIO_LS_SYNC, Pad 2, Reg ALT_MON_GPIO_VER_ID_CODE, Reg ALT_MON_GPIO_CFG_REG2,
     Reg ALT_MON_GPIO_CFG_REG1, Pad 2]"

definition ALT_FPGAMGR_s :: member where
  "ALT_FPGAMGR_s = Grp [Reg ALT_FPGAMGR_STAT, Reg ALT_FPGAMGR_CTL, Reg ALT_FPGAMGR_DCLKCNT,
     Reg ALT_FPGAMGR_DCLKSTAT, Reg ALT_FPGAMGR_GPO, Reg ALT_FPGAMGR_GPI, Reg ALT_FPGAMGR_MISCI,
     Pad 505, ALT_MON_s, Pad 480]"

text \<open>The \<open>ADDR\<close> macro of a register.\<close>

definition reg_addr :: "nat \<Rightarrow> register \<Rightarrow> nat" where
  "reg_addr base R = base + offset R"

definition manager_registers :: "register list" where
  "manager_registers = [ALT_FPGAMGR_STAT, ALT_FPGAMGR_CTL, ALT_FPGAMGR_DCLKCNT, ALT_FPGAMGR_DCLKSTAT, ALT_FPGAMGR_GPO, ALT_FPGAMGR_GPI, ALT_FPGAMGR_MISCI]"

definition monitor_registers :: "register list" where
  "monitor_registers = [ALT_MON_GPIO_INTEN,
     ALT_MON_GPIO_INTMSK,
     ALT_MON_GPIO_INTTYPE_LEVEL,
     ALT_MON_GPIO_INT_POL,
     ALT_MON_GPIO_INTSTAT,
     ALT_MON_GPIO_RAW_INTSTAT,
     ALT_MON_GPIO_PORTA_EOI,
     ALT_MON_GPIO_EXT_PORTA,
     ALT_MON_GPIO_LS_SYNC,
     ALT_MON_GPIO_VER_ID_CODE,
     ALT_MON_GPIO_CFG_REG2,
     ALT_MON_GPIO_CFG_REG1]"

section \<open>Agreement\<close>

text \<open>The macros of every field agree with each other and with the struct of its register.\<close>

lemma fpgamgr_stat_ok [intro]: "register_ok ALT_FPGAMGR_STAT"
  by (simp add: register_ok_def field_ok_def mask_numeral alt_fpgamgr_stat_defs)

lemma fpgamgr_ctl_ok [intro]: "register_ok ALT_FPGAMGR_CTL"
  by (simp add: register_ok_def field_ok_def mask_numeral alt_fpgamgr_ctl_defs)

lemma fpgamgr_dclkcnt_ok [intro]: "register_ok ALT_FPGAMGR_DCLKCNT"
  by (simp add: register_ok_def field_ok_def mask_numeral alt_fpgamgr_dclkcnt_defs)

lemma fpgamgr_dclkstat_ok [intro]: "register_ok ALT_FPGAMGR_DCLKSTAT"
  by (simp add: register_ok_def field_ok_def mask_numeral alt_fpgamgr_dclkstat_defs)

lemma fpgamgr_gpo_ok [intro]: "register_ok ALT_FPGAMGR_GPO"
  by (simp add: register_ok_def field_ok_def mask_numeral alt_fpgamgr_gpo_defs)

lemma fpgamgr_gpi_ok [intro]: "register_ok ALT_FPGAMGR_GPI"
  by (simp add: register_ok_def field_ok_def mask_numeral alt_fpgamgr_gpi_defs)

lemma fpgamgr_misci_ok [intro]: "register_ok ALT_FPGAMGR_MISCI"
  by (simp add: register_ok_def field_ok_def mask_numeral alt_fpgamgr_misci_defs)

lemma mon_gpio_inten_ok [intro]: "register_ok ALT_MON_GPIO_INTEN"
  by (simp add: register_ok_def field_ok_def mask_numeral alt_mon_gpio_inten_defs)

lemma mon_gpio_intmsk_ok [intro]: "register_ok ALT_MON_GPIO_INTMSK"
  by (simp add: register_ok_def field_ok_def mask_numeral alt_mon_gpio_intmsk_defs)

lemma mon_gpio_inttype_level_ok [intro]: "register_ok ALT_MON_GPIO_INTTYPE_LEVEL"
  by (simp add: register_ok_def field_ok_def mask_numeral alt_mon_gpio_inttype_level_defs)

lemma mon_gpio_int_pol_ok [intro]: "register_ok ALT_MON_GPIO_INT_POL"
  by (simp add: register_ok_def field_ok_def mask_numeral alt_mon_gpio_int_pol_defs)

lemma mon_gpio_intstat_ok [intro]: "register_ok ALT_MON_GPIO_INTSTAT"
  by (simp add: register_ok_def field_ok_def mask_numeral alt_mon_gpio_intstat_defs)

lemma mon_gpio_raw_intstat_ok [intro]: "register_ok ALT_MON_GPIO_RAW_INTSTAT"
  by (simp add: register_ok_def field_ok_def mask_numeral alt_mon_gpio_raw_intstat_defs)

lemma mon_gpio_porta_eoi_ok [intro]: "register_ok ALT_MON_GPIO_PORTA_EOI"
  by (simp add: register_ok_def field_ok_def mask_numeral alt_mon_gpio_porta_eoi_defs)

lemma mon_gpio_ext_porta_ok [intro]: "register_ok ALT_MON_GPIO_EXT_PORTA"
  by (simp add: register_ok_def field_ok_def mask_numeral alt_mon_gpio_ext_porta_defs)

lemma mon_gpio_ls_sync_ok [intro]: "register_ok ALT_MON_GPIO_LS_SYNC"
  by (simp add: register_ok_def field_ok_def mask_numeral alt_mon_gpio_ls_sync_defs)

lemma mon_gpio_ver_id_code_ok [intro]: "register_ok ALT_MON_GPIO_VER_ID_CODE"
  by (simp add: register_ok_def field_ok_def mask_numeral alt_mon_gpio_ver_id_code_defs)

lemma mon_gpio_cfg_reg2_ok [intro]: "register_ok ALT_MON_GPIO_CFG_REG2"
  by (simp add: register_ok_def field_ok_def mask_numeral alt_mon_gpio_cfg_reg2_defs)

lemma mon_gpio_cfg_reg1_ok [intro]: "register_ok ALT_MON_GPIO_CFG_REG1"
  by (simp add: register_ok_def field_ok_def mask_numeral alt_mon_gpio_cfg_reg1_defs)

lemma fpgamgrdata_data_ok [intro]: "register_ok ALT_FPGAMGRDATA_DATA"
  by (simp add: register_ok_def field_ok_def mask_numeral alt_fpgamgrdata_data_defs)

lemma registers_ok: "R \<in> set (ALT_FPGAMGRDATA_DATA # manager_registers @ monitor_registers) \<Longrightarrow> register_ok R"
  by (auto simp: manager_registers_def monitor_registers_def)

end
