(* ===== verification/Mmio.thy ===== *)
theory Mmio
  imports Prelude
begin

text \<open>
  Memory-mapped registers, as \<^verbatim>\<open>node/FPGAconfig/socal.h\<close> accesses them.  The hardware is
  not code of the repository: it is a parameter \<open>dev\<close>, which answers every register read
  from the whole history of bus accesses, so that no assumption is made about what a
  register does.  A driver routine is a computation over that history (\<open>io\<close>), and what it
  did to the hardware is the list of accesses it appends.
\<close>

section \<open>The bus\<close>

type_synonym addr = u32

datatype access = Rd addr u32 | Wr addr u32

type_synonym history = "access list"
type_synonym device = "history \<Rightarrow> addr \<Rightarrow> u32"
type_synonym 'a io = "(history, 'a) state"

definition alt_read_word :: "device \<Rightarrow> addr \<Rightarrow> u32 io" where
  "alt_read_word dev src = State (\<lambda>h. let v = dev h src in (v, h @ [Rd src v]))"

definition alt_write_word :: "addr \<Rightarrow> u32 \<Rightarrow> unit io" where
  "alt_write_word dest src = State (\<lambda>h. ((), h @ [Wr dest src]))"

definition alt_setbits_word :: "device \<Rightarrow> addr \<Rightarrow> u32 \<Rightarrow> unit io" where
  "alt_setbits_word dev dest bits =
     do { v \<leftarrow> alt_read_word dev dest; alt_write_word dest (v OR bits) }"

definition alt_clrbits_word :: "device \<Rightarrow> addr \<Rightarrow> u32 \<Rightarrow> unit io" where
  "alt_clrbits_word dev dest bits =
     do { v \<leftarrow> alt_read_word dev dest; alt_write_word dest (v AND NOT bits) }"

definition alt_replbits_word :: "device \<Rightarrow> addr \<Rightarrow> u32 \<Rightarrow> u32 \<Rightarrow> unit io" where
  "alt_replbits_word dev dest msk src =
     do { v \<leftarrow> alt_read_word dev dest;
          alt_write_word dest ((v AND NOT msk) OR (src AND msk)) }"

lemma run_read [bus_simps]:
  "run_state (alt_read_word dev a) h = (dev h a, h @ [Rd a (dev h a)])"
  by (simp add: alt_read_word_def Let_def)

lemma run_write [bus_simps]: "run_state (alt_write_word a v) h = ((), h @ [Wr a v])"
  by (simp add: alt_write_word_def)

lemma run_setbits [bus_simps]:
  "run_state (alt_setbits_word dev a b) h = ((), h @ [Rd a (dev h a), Wr a (dev h a OR b)])"
  by (simp add: alt_setbits_word_def bus_simps)

lemma run_clrbits [bus_simps]:
  "run_state (alt_clrbits_word dev a b) h = ((), h @ [Rd a (dev h a), Wr a (dev h a AND NOT b)])"
  by (simp add: alt_clrbits_word_def bus_simps)

lemma run_replbits [bus_simps]:
  "run_state (alt_replbits_word dev a m s) h =
     ((), h @ [Rd a (dev h a), Wr a ((dev h a AND NOT m) OR (s AND m))])"
  by (simp add: alt_replbits_word_def bus_simps)

section \<open>What a computation did\<close>

text \<open>The writes of a history, and those to one register.\<close>

fun writes :: "history \<Rightarrow> (addr \<times> u32) list" where
  "writes [] = []"
| "writes (Rd a v # h) = writes h"
| "writes (Wr a v # h) = (a, v) # writes h"

definition writes_to :: "addr \<Rightarrow> history \<Rightarrow> u32 list" where
  "writes_to a h = map snd (filter (\<lambda>p. fst p = a) (writes h))"

fun reads_of :: "addr \<Rightarrow> history \<Rightarrow> u32 list" where
  "reads_of a [] = []"
| "reads_of a (Rd b v # h) = (if b = a then v # reads_of a h else reads_of a h)"
| "reads_of a (Wr b v # h) = reads_of a h"

lemma writes_append [simp]: "writes (h @ h') = writes h @ writes h'"
  by (induction h rule: writes.induct) auto

lemma writes_to_append [simp]: "writes_to a (h @ h') = writes_to a h @ writes_to a h'"
  by (simp add: writes_to_def)

lemma writes_to_Nil [simp]: "writes_to a [] = []"
  by (simp add: writes_to_def)

lemma writes_to_Cons [simp]:
  "writes_to a (Rd b v # h) = writes_to a h"
  "writes_to a (Wr b v # h) = (if b = a then v # writes_to a h else writes_to a h)"
  by (simp_all add: writes_to_def)

lemma reads_of_append [simp]: "reads_of a (h @ h') = reads_of a h @ reads_of a h'"
  by (induction a h rule: reads_of.induct) auto

text \<open>
  \<open>outcome m h\<close> is the value \<open>m\<close> returns from history \<open>h\<close>, \<open>after m h\<close> the history it
  leaves and \<open>done_by m h\<close> the accesses it made.
\<close>

definition outcome :: "'a io \<Rightarrow> history \<Rightarrow> 'a" where
  "outcome m h = fst (run_state m h)"

definition after :: "'a io \<Rightarrow> history \<Rightarrow> history" where
  "after m h = snd (run_state m h)"

definition done_by :: "'a io \<Rightarrow> history \<Rightarrow> history" where
  "done_by m h = drop (length h) (after m h)"

text \<open>A driver routine only ever extends the history.\<close>

definition extends :: "'a io \<Rightarrow> bool" where
  "extends m \<longleftrightarrow> (\<forall>h. \<exists>t. after m h = h @ t)"

lemma extendsI: "(\<And>h. \<exists>t. snd (run_state m h) = h @ t) \<Longrightarrow> extends m"
  by (simp add: extends_def after_def)

lemma after_done_by: "extends m \<Longrightarrow> after m h = h @ done_by m h"
  unfolding extends_def done_by_def by (metis append_eq_conv_conj)

lemma extends_return [simp, intro]: "extends (State_Monad.return x)"
  by (rule extendsI) simp

lemma extends_read [simp, intro]: "extends (alt_read_word dev a)"
  by (rule extendsI) (simp add: bus_simps)

lemma extends_write [simp, intro]: "extends (alt_write_word a v)"
  by (rule extendsI) (simp add: bus_simps)

lemma extends_bind [intro]:
  assumes "extends m" and "\<And>x. extends (f x)"
  shows "extends (State_Monad.bind m f)"
proof (rule extendsI)
  fix h
  obtain x h1 where m: "run_state m h = (x, h1)" by force
  with assms(1) obtain t1 where t1: "h1 = h @ t1"
    by (metis after_def extends_def snd_conv)
  from assms(2)[of x] obtain t2 where "snd (run_state (f x) h1) = h1 @ t2"
    by (metis after_def extends_def)
  then show "\<exists>t. snd (run_state (State_Monad.bind m f) h) = h @ t"
    using m t1 by auto
qed

lemma outcome_return [simp]: "outcome (State_Monad.return x) h = x"
  and after_return [simp]: "after (State_Monad.return x) h = h"
  by (simp_all add: outcome_def after_def)

lemma outcome_bind [simp]:
  "outcome (State_Monad.bind m f) h = outcome (f (outcome m h)) (after m h)"
  by (simp add: outcome_def after_def split: prod.split)

lemma after_bind [simp]:
  "after (State_Monad.bind m f) h = after (f (outcome m h)) (after m h)"
  by (simp add: outcome_def after_def split: prod.split)

lemma outcome_read [simp]: "outcome (alt_read_word dev a) h = dev h a"
  and after_read [simp]: "after (alt_read_word dev a) h = h @ [Rd a (dev h a)]"
  by (simp_all add: outcome_def after_def bus_simps)

lemma after_write [simp]: "after (alt_write_word a v) h = h @ [Wr a v]"
  by (simp add: after_def bus_simps)

lemma after_setbits [simp]:
    "after (alt_setbits_word dev a b) h = h @ [Rd a (dev h a), Wr a (dev h a OR b)]"
  and after_clrbits [simp]:
    "after (alt_clrbits_word dev a b) h = h @ [Rd a (dev h a), Wr a (dev h a AND NOT b)]"
  and after_replbits [simp]:
    "after (alt_replbits_word dev a m s) h =
       h @ [Rd a (dev h a), Wr a ((dev h a AND NOT m) OR (s AND m))]"
  by (simp_all add: after_def bus_simps)

lemma done_by_bind:
  assumes "extends m" and "\<And>x. extends (f x)"
  shows "done_by (State_Monad.bind m f) h =
           done_by m h @ done_by (f (outcome m h)) (after m h)"
  using after_done_by[OF extends_bind[OF assms(1), of f, OF assms(2)], where h = h]
    after_done_by[OF assms(1), where h = h]
    after_done_by[OF assms(2), where h = "after m h"]
  by simp

section \<open>Bounded polling: do { ... } while (timeout--)\<close>

text \<open>
  The driver's polling loops have one shape: run the body, leave with its verdict if it
  has one, and give up with \<open>tmo\<close> once the count is used up.  The body runs at most
  \<open>n + 1\<close> times, since the count is tested after it.
\<close>

fun poll :: "'r option io \<Rightarrow> 'r \<Rightarrow> nat \<Rightarrow> 'r io" where
  "poll body tmo 0 =
     do { r \<leftarrow> body; State_Monad.return (case r of Some x \<Rightarrow> x | None \<Rightarrow> tmo) }"
| "poll body tmo (Suc n) =
     do { r \<leftarrow> body; (case r of Some x \<Rightarrow> State_Monad.return x | None \<Rightarrow> poll body tmo n) }"

text \<open>The history at which the \<open>k\<close>-th pass over the body starts, all earlier ones undecided.\<close>

fun nth_pass :: "'r option io \<Rightarrow> nat \<Rightarrow> history \<Rightarrow> history" where
  "nth_pass body 0 h = h"
| "nth_pass body (Suc k) h = nth_pass body k (after body h)"

lemma extends_poll: "extends body \<Longrightarrow> extends (poll body tmo n)"
  by (induction n) (auto split: option.split)

text \<open>
  The verdict of the loop: that of the first decided pass among the \<open>n + 1\<close> it makes,
  and \<open>tmo\<close> if there is none.
\<close>

lemma poll_decided:
  assumes "k \<le> n" and "outcome body (nth_pass body k h) = Some x"
    and "\<And>j. j < k \<Longrightarrow> outcome body (nth_pass body j h) = None"
  shows "outcome (poll body tmo n) h = x \<and>
         after (poll body tmo n) h = nth_pass body (Suc k) h"
  using assms
proof (induction n arbitrary: h k)
  case 0
  then show ?case by simp
next
  case (Suc n)
  show ?case
  proof (cases k)
    case 0
    with Suc.prems show ?thesis
      by simp
  next
    case (Suc k')
    have "outcome body h = None" using Suc.prems(3)[of 0] Suc by simp
    moreover have "outcome (poll body tmo n) (after body h) = x \<and>
        after (poll body tmo n) (after body h) = nth_pass body (Suc k') (after body h)"
    proof (rule Suc.IH)
      show "k' \<le> n" using Suc.prems(1) Suc by simp
      show "outcome body (nth_pass body k' (after body h)) = Some x"
        using Suc.prems(2) Suc by simp
      show "outcome body (nth_pass body j (after body h)) = None" if "j < k'" for j
        using Suc.prems(3)[of "Suc j"] that Suc by simp
    qed
    ultimately show ?thesis using Suc by simp
  qed
qed

lemma poll_timeout:
  assumes "\<And>j. j \<le> n \<Longrightarrow> outcome body (nth_pass body j h) = None"
  shows "outcome (poll body tmo n) h = tmo \<and>
         after (poll body tmo n) h = nth_pass body (Suc n) h"
  using assms
proof (induction n arbitrary: h)
  case 0
  then show ?case by simp
next
  case (Suc n)
  have "outcome body h = None" using Suc.prems[of 0] by simp
  moreover have "outcome (poll body tmo n) (after body h) = tmo \<and>
      after (poll body tmo n) (after body h) = nth_pass body (Suc n) (after body h)"
    by (rule Suc.IH) (use Suc.prems[of "Suc _"] in simp)
  ultimately show ?case by simp
qed

lemma nth_pass_Suc: "nth_pass body (Suc k) h = after body (nth_pass body k h)"
  by (induction k arbitrary: h) auto

text \<open>A poll's verdict is that of a pass, or the timeout.\<close>

lemma poll_cases:
  obtains (decided) k x where "k \<le> n" "outcome body (nth_pass body k h) = Some x"
      "\<And>j. j < k \<Longrightarrow> outcome body (nth_pass body j h) = None"
      "outcome (poll body tmo n) h = x"
      "after (poll body tmo n) h = after body (nth_pass body k h)"
  | (timeout) "\<And>j. j \<le> n \<Longrightarrow> outcome body (nth_pass body j h) = None"
      "outcome (poll body tmo n) h = tmo"
      "after (poll body tmo n) h = nth_pass body (Suc n) h"
proof (cases "\<exists>k\<le>n. outcome body (nth_pass body k h) \<noteq> None")
  case True
  define k where "k = (LEAST k. outcome body (nth_pass body k h) \<noteq> None)"
  have k: "outcome body (nth_pass body k h) \<noteq> None"
    unfolding k_def using True by (metis (mono_tags, lifting) LeastI)
  have "k \<le> n" unfolding k_def using True by (meson Least_le order.trans)
  moreover have none: "outcome body (nth_pass body j h) = None" if "j < k" for j
    using not_less_Least[of j] that unfolding k_def by blast
  moreover obtain x where "outcome body (nth_pass body k h) = Some x" using k by blast
  ultimately show ?thesis
    using decided poll_decided[of k n body h x tmo] unfolding nth_pass_Suc by blast
next
  case False
  then have "\<And>j. j \<le> n \<Longrightarrow> outcome body (nth_pass body j h) = None" by blast
  then show ?thesis using timeout poll_timeout[of n body h tmo] by blast
qed

text \<open>Induction over a poll: every pass keeps \<open>P\<close>, whatever it decides.\<close>

lemma poll_invariant:
  assumes "P h" and "\<And>h. P h \<Longrightarrow> P (after body h)"
  shows "P (after (poll body tmo n) h)"
  using assms(1)
proof (induction n arbitrary: h)
  case 0
  then show ?case using assms(2) by simp
next
  case (Suc n)
  then show ?case using assms(2)
    by (auto split: option.split)
qed

section \<open>Which registers a computation writes\<close>

text \<open>\<open>writes_only A m\<close>: whatever the device answers, \<open>m\<close> writes no register outside \<open>A\<close>.\<close>

definition writes_only :: "addr set \<Rightarrow> 'a io \<Rightarrow> bool" where
  "writes_only A m \<longleftrightarrow>
     (\<forall>h. \<exists>t. after m h = h @ t \<and> fst ` set (writes t) \<subseteq> A)"

lemma writes_only_extends: "writes_only A m \<Longrightarrow> extends m"
  unfolding writes_only_def extends_def by blast

lemma writes_onlyE:
  assumes "writes_only A m"
  obtains t where "after m h = h @ t" and "fst ` set (writes t) \<subseteq> A"
  using assms unfolding writes_only_def by blast

lemma writes_only_return [simp, intro]: "writes_only A (State_Monad.return x)"
  by (simp add: writes_only_def)

lemma writes_only_read [simp, intro]: "writes_only A (alt_read_word dev a)"
  by (simp add: writes_only_def)

lemma writes_only_write [simp, intro]: "a \<in> A \<Longrightarrow> writes_only A (alt_write_word a v)"
  by (simp add: writes_only_def)

lemma writes_only_setbits [simp, intro]: "a \<in> A \<Longrightarrow> writes_only A (alt_setbits_word dev a v)"
  and writes_only_clrbits [simp, intro]: "a \<in> A \<Longrightarrow> writes_only A (alt_clrbits_word dev a v)"
  and writes_only_replbits [simp, intro]:
    "a \<in> A \<Longrightarrow> writes_only A (alt_replbits_word dev a v w)"
  by (simp_all add: writes_only_def)

lemma writes_only_bind [intro!]:
  assumes "writes_only A m" and "\<And>x. writes_only A (f x)"
  shows "writes_only A (State_Monad.bind m f)"
  unfolding writes_only_def
proof
  fix h
  obtain t where t: "after m h = h @ t" "fst ` set (writes t) \<subseteq> A"
    using assms(1) by (rule writes_onlyE)
  obtain u where "after (f (outcome m h)) (after m h) = after m h @ u" "fst ` set (writes u) \<subseteq> A"
    using assms(2) by (rule writes_onlyE)
  with t show "\<exists>t. after (State_Monad.bind m f) h = h @ t \<and> fst ` set (writes t) \<subseteq> A"
    by (intro exI[of _ "t @ u"]) auto
qed

lemma writes_only_if [intro!]:
  "writes_only A m \<Longrightarrow> writes_only A m' \<Longrightarrow> writes_only A (if b then m else m')"
  by simp

lemma writes_only_poll [intro!]:
  assumes "writes_only A body"
  shows "writes_only A (poll body tmo n)"
  using assms by (induction n) (auto split: option.split)

lemma writes_to_only:
  assumes "writes_only A m" and "a \<notin> A"
  shows "writes_to a (after m h) = writes_to a h"
proof -
  obtain t where t: "after m h = h @ t" "fst ` set (writes t) \<subseteq> A"
    using assms(1) by (rule writes_onlyE)
  with assms(2) have "filter (\<lambda>p. fst p = a) (writes t) = []"
    by (auto simp: filter_empty_conv)
  with t show ?thesis by (simp add: writes_to_def)
qed

end
