(* ===== verification/Fpga_Manager.thy ===== *)
theory Fpga_Manager
  imports Mmio
begin

text \<open>
  The FPGA manager driver, \<^verbatim>\<open>node/FPGAconfig/alt_fpga_manager.c\<close> (built with
  \<^verbatim>\<open>ALT_FPGA_ENABLE_DMA_SUPPORT = 0\<close> and \<^verbatim>\<open>_ALT_FPGA_USE_DCLK = 0\<close>, the defaults), and
  its caller \<^verbatim>\<open>writeConfig.hpp\<close>.  Registers are named by their physical address, which
  the mapped virtual addresses of \<^verbatim>\<open>hps.h\<close> stand for.  C enumerations that are read from
  hardware are kept as the integers they are.
\<close>

section \<open>Registers and constants\<close>

definition ALT_FPGAMGR_STAT_ADDR :: addr where "ALT_FPGAMGR_STAT_ADDR = 0xff706000"
definition ALT_FPGAMGR_CTL_ADDR :: addr where "ALT_FPGAMGR_CTL_ADDR = 0xff706004"
definition ALT_FPGAMGR_DCLKCNT_ADDR :: addr where "ALT_FPGAMGR_DCLKCNT_ADDR = 0xff706008"
definition ALT_FPGAMGR_DCLKSTAT_ADDR :: addr where "ALT_FPGAMGR_DCLKSTAT_ADDR = 0xff70600c"
definition ALT_FPGAMGR_GPO_ADDR :: addr where "ALT_FPGAMGR_GPO_ADDR = 0xff706010"
definition ALT_FPGAMGR_GPI_ADDR :: addr where "ALT_FPGAMGR_GPI_ADDR = 0xff706014"
definition ALT_FPGAMGR_MON_GPIO_INTEN_ADDR :: addr where
  "ALT_FPGAMGR_MON_GPIO_INTEN_ADDR = 0xff706830"
definition ALT_FPGAMGR_MON_GPIO_INTTYPE_LEVEL_ADDR :: addr where
  "ALT_FPGAMGR_MON_GPIO_INTTYPE_LEVEL_ADDR = 0xff706838"
definition ALT_FPGAMGR_MON_GPIO_INT_POL_ADDR :: addr where
  "ALT_FPGAMGR_MON_GPIO_INT_POL_ADDR = 0xff70683c"
definition ALT_FPGAMGR_MON_GPIO_PORTA_EOI_ADDR :: addr where
  "ALT_FPGAMGR_MON_GPIO_PORTA_EOI_ADDR = 0xff70684c"
definition ALT_FPGAMGR_MON_GPIO_EXT_PORTA_ADDR :: addr where
  "ALT_FPGAMGR_MON_GPIO_EXT_PORTA_ADDR = 0xff706850"
definition ALT_FPGAMGRDATA_ADDR :: addr where "ALT_FPGAMGRDATA_ADDR = 0xffb90000"

lemmas fpga_addrs =
  ALT_FPGAMGR_STAT_ADDR_def ALT_FPGAMGR_CTL_ADDR_def ALT_FPGAMGR_DCLKCNT_ADDR_def
  ALT_FPGAMGR_DCLKSTAT_ADDR_def ALT_FPGAMGR_GPO_ADDR_def ALT_FPGAMGR_GPI_ADDR_def
  ALT_FPGAMGR_MON_GPIO_INTEN_ADDR_def ALT_FPGAMGR_MON_GPIO_INTTYPE_LEVEL_ADDR_def
  ALT_FPGAMGR_MON_GPIO_INT_POL_ADDR_def ALT_FPGAMGR_MON_GPIO_PORTA_EOI_ADDR_def
  ALT_FPGAMGR_MON_GPIO_EXT_PORTA_ADDR_def ALT_FPGAMGRDATA_ADDR_def

abbreviation (input) "ALT_FPGAMGR_CTL_EN_SET_MSK \<equiv> 0x00000001 :: u32"
abbreviation (input) "ALT_FPGAMGR_CTL_NCE_CLR_MSK \<equiv> 0xfffffffd :: u32"
abbreviation (input) "ALT_FPGAMGR_CTL_NCFGPULL_SET_MSK \<equiv> 0x00000004 :: u32"
abbreviation (input) "ALT_FPGAMGR_CTL_NCFGPULL_CLR_MSK \<equiv> 0xfffffffb :: u32"
abbreviation (input) "ALT_FPGAMGR_CTL_CDRATIO_CLR_MSK \<equiv> 0xffffff3f :: u32"
abbreviation (input) "ALT_FPGAMGR_CTL_AXICFGEN_SET_MSK \<equiv> 0x00000100 :: u32"
abbreviation (input) "ALT_FPGAMGR_CTL_AXICFGEN_CLR_MSK \<equiv> 0xfffffeff :: u32"
abbreviation (input) "ALT_FPGAMGR_CTL_CFGWDTH_SET_MSK \<equiv> 0x00000200 :: u32"
abbreviation (input) "ALT_FPGAMGR_CTL_CFGWDTH_CLR_MSK \<equiv> 0xfffffdff :: u32"
abbreviation (input) "ALT_FPGAMGR_DCLKSTAT_DCNTDONE_E_DONE \<equiv> 0x1 :: u32"
abbreviation (input) "ALT_MON_GPIO_PORTA_EOI_NS_E_CLR \<equiv> 0x1 :: u32"

definition ALT_FPGAMGR_CTL_CDRATIO_SET :: "u32 \<Rightarrow> u32" where
  "ALT_FPGAMGR_CTL_CDRATIO_SET v = push_bit 6 v AND 0x000000c0"

definition ALT_FPGAMGR_STAT_MOD_GET :: "u32 \<Rightarrow> u32" where
  "ALT_FPGAMGR_STAT_MOD_GET v = v AND 0x00000007"

definition ALT_FPGAMGR_STAT_MSEL_GET :: "u32 \<Rightarrow> u32" where
  "ALT_FPGAMGR_STAT_MSEL_GET v = drop_bit 3 (v AND 0x000000f8)"

abbreviation (input) "ALT_FPGA_STATE_RESET \<equiv> 0x1 :: u32"
abbreviation (input) "ALT_FPGA_STATE_CFG \<equiv> 0x2 :: u32"
abbreviation (input) "ALT_FPGA_STATE_USER_MODE \<equiv> 0x4 :: u32"
abbreviation (input) "ALT_FPGA_STATE_POWER_OFF \<equiv> 0xF :: u32"

abbreviation (input) "ALT_FPGA_MON_nSTATUS \<equiv> 0x0001 :: u32"
abbreviation (input) "ALT_FPGA_MON_CONF_DONE \<equiv> 0x0002 :: u32"
abbreviation (input) "ALT_FPGA_MON_CRC_ERROR \<equiv> 0x0008 :: u32"
abbreviation (input) "ALT_FPGA_MON_FPGA_POWER_ON \<equiv> 0x0800 :: u32"

abbreviation (input) "ALT_FPGA_CFG_MODE_UNKNOWN \<equiv> 0x20 :: u32"

abbreviation (input) "ALT_FPGA_TMO_STATE \<equiv> 2048 :: u32"
abbreviation (input) "ALT_FPGA_TMO_DCLK_CONST \<equiv> 2048 :: u32"
abbreviation (input) "ALT_FPGA_TMO_DCLK_MUL \<equiv> 2 :: u32"
abbreviation (input) "ALT_FPGA_TMO_CONFIG \<equiv> 8192 :: u32"
abbreviation (input) "ISTREAM_CHUNK_SIZE \<equiv> 512 :: u32"

section \<open>Control, state and reset\<close>

definition alt_fpga_init :: "status io" where
  "alt_fpga_init = State_Monad.return ALT_E_SUCCESS"

definition alt_fpga_uninit :: "status io" where
  "alt_fpga_uninit = State_Monad.return ALT_E_SUCCESS"

definition alt_fpga_control_enable :: "device \<Rightarrow> status io" where
  "alt_fpga_control_enable dev =
     do { alt_setbits_word dev ALT_FPGAMGR_CTL_ADDR ALT_FPGAMGR_CTL_EN_SET_MSK;
          State_Monad.return ALT_E_SUCCESS }"

definition alt_fpga_control_disable :: "device \<Rightarrow> status io" where
  "alt_fpga_control_disable dev =
     do { alt_clrbits_word dev ALT_FPGAMGR_CTL_ADDR ALT_FPGAMGR_CTL_EN_SET_MSK;
          State_Monad.return ALT_E_SUCCESS }"

definition alt_fpga_control_is_enabled :: "device \<Rightarrow> bool io" where
  "alt_fpga_control_is_enabled dev =
     do { v \<leftarrow> alt_read_word dev ALT_FPGAMGR_CTL_ADDR;
          State_Monad.return (v AND ALT_FPGAMGR_CTL_EN_SET_MSK \<noteq> 0) }"

definition alt_fpga_mon_status_get :: "device \<Rightarrow> u32 io" where
  "alt_fpga_mon_status_get dev =
     do { v \<leftarrow> alt_read_word dev ALT_FPGAMGR_MON_GPIO_EXT_PORTA_ADDR;
          State_Monad.return (v AND (push_bit 12 1 - 1)) }"

definition alt_fpga_state_get :: "device \<Rightarrow> u32 io" where
  "alt_fpga_state_get dev =
     do { m \<leftarrow> alt_fpga_mon_status_get dev;
          (if m AND ALT_FPGA_MON_FPGA_POWER_ON = 0
           then State_Monad.return ALT_FPGA_STATE_POWER_OFF
           else do { v \<leftarrow> alt_read_word dev ALT_FPGAMGR_STAT_ADDR;
                     State_Monad.return (ALT_FPGAMGR_STAT_MOD_GET v) }) }"

definition alt_fpga_reset_assert :: "device \<Rightarrow> status io" where
  "alt_fpga_reset_assert dev =
     do { en \<leftarrow> alt_fpga_control_is_enabled dev;
          (if \<not> en then State_Monad.return ALT_E_FPGA_NO_SOC_CTRL
           else do { st \<leftarrow> alt_fpga_state_get dev;
                (if st = ALT_FPGA_STATE_POWER_OFF then State_Monad.return ALT_E_FPGA_PWR_OFF
                 else do { alt_setbits_word dev ALT_FPGAMGR_CTL_ADDR
                             ALT_FPGAMGR_CTL_NCFGPULL_SET_MSK;
                           State_Monad.return ALT_E_SUCCESS }) }) }"

definition alt_fpga_reset_deassert :: "device \<Rightarrow> status io" where
  "alt_fpga_reset_deassert dev =
     do { en \<leftarrow> alt_fpga_control_is_enabled dev;
          (if \<not> en then State_Monad.return ALT_E_FPGA_NO_SOC_CTRL
           else do { st \<leftarrow> alt_fpga_state_get dev;
                (if st = ALT_FPGA_STATE_POWER_OFF then State_Monad.return ALT_E_FPGA_PWR_OFF
                 else do { alt_clrbits_word dev ALT_FPGAMGR_CTL_ADDR
                             ALT_FPGAMGR_CTL_NCFGPULL_SET_MSK;
                           State_Monad.return ALT_E_SUCCESS }) }) }"

text \<open>The twelve MSEL encodings the driver accepts; every other one is reserved.\<close>

definition alt_fpga_cfg_mode_get :: "device \<Rightarrow> u32 io" where
  "alt_fpga_cfg_mode_get dev =
     do { v \<leftarrow> alt_read_word dev ALT_FPGAMGR_STAT_ADDR;
          let msel = ALT_FPGAMGR_STAT_MSEL_GET v;
          State_Monad.return
            (if msel \<in> {0x0, 0x1, 0x2, 0x4, 0x5, 0x6, 0x8, 0x9, 0xa, 0xc, 0xd, 0xe}
             then msel else ALT_FPGA_CFG_MODE_UNKNOWN) }"

definition alt_fpga_cfg_mode_set :: "u32 \<Rightarrow> status io" where
  "alt_fpga_cfg_mode_set cfg_mode = State_Monad.return ALT_E_ERROR"

section \<open>Waiting on the hardware\<close>

definition wait_for_fpga_state :: "device \<Rightarrow> u32 \<Rightarrow> u32 \<Rightarrow> status io" where
  "wait_for_fpga_state dev state timeout =
     poll (do { current \<leftarrow> alt_fpga_state_get dev;
                State_Monad.return (if current = state then Some ALT_E_SUCCESS else None) })
          ALT_E_TMO (unat timeout)"

definition config_done_body :: "device \<Rightarrow> status option io" where
  "config_done_body dev =
     do { status \<leftarrow> alt_fpga_mon_status_get dev;
          let conf_done = (status AND ALT_FPGA_MON_CONF_DONE \<noteq> 0);
          let nstatus = (status AND ALT_FPGA_MON_nSTATUS \<noteq> 0);
          State_Monad.return
            (if status AND ALT_FPGA_MON_CRC_ERROR \<noteq> 0 then Some ALT_E_FPGA_CRC
             else if conf_done = nstatus
                  then Some (if conf_done then ALT_E_SUCCESS else ALT_E_FPGA_CFG)
                  else None) }"

definition wait_for_config_done :: "device \<Rightarrow> u32 \<Rightarrow> status io" where
  "wait_for_config_done dev timeout = poll (config_done_body dev) ALT_E_TMO (unat timeout)"

definition dclk_body :: "device \<Rightarrow> status option io" where
  "dclk_body dev =
     do { d \<leftarrow> alt_read_word dev ALT_FPGAMGR_DCLKSTAT_ADDR;
          (if d = ALT_FPGAMGR_DCLKSTAT_DCNTDONE_E_DONE
           then do { alt_write_word ALT_FPGAMGR_DCLKSTAT_ADDR ALT_FPGAMGR_DCLKSTAT_DCNTDONE_E_DONE;
                     State_Monad.return (Some ALT_E_SUCCESS) }
           else State_Monad.return None) }"

definition dclk_set_and_wait_clear :: "device \<Rightarrow> u32 \<Rightarrow> u32 \<Rightarrow> status io" where
  "dclk_set_and_wait_clear dev cnt timeout =
     do { v \<leftarrow> alt_read_word dev ALT_FPGAMGR_DCLKSTAT_ADDR;
          (if v \<noteq> 0
           then alt_write_word ALT_FPGAMGR_DCLKSTAT_ADDR ALT_FPGAMGR_DCLKSTAT_DCNTDONE_E_DONE
           else State_Monad.return ());
          alt_write_word ALT_FPGAMGR_DCLKCNT_ADDR cnt;
          poll (dclk_body dev) ALT_E_TMO (unat timeout) }"

section \<open>Writing configuration data\<close>

text \<open>
  \<open>alt_fpga_internal_writeaxi\<close> without DMA.  The C loop advances the index \<open>i\<close> and
  shortens \<open>cfg_buf_len\<close>, so after it \<open>cfg_buf_len\<close> is the 0 to 3 bytes left over; the tail is
  then read at \<open>cfg_buf + (cfg_buf_len & ~0x3)\<close>, with that shortened length.
\<close>

function pio_words :: "mem \<Rightarrow> nat \<Rightarrow> u32 \<Rightarrow> u32 io" where
  "pio_words cfg_buf i cfg_buf_len =
     (if 4 \<le> cfg_buf_len
      then do { alt_write_word ALT_FPGAMGRDATA_ADDR (word_at cfg_buf (4 * i));
                pio_words cfg_buf (i + 1) (cfg_buf_len - 4) }
      else State_Monad.return cfg_buf_len)"
  by pat_completeness auto
termination
proof (relation "measure (\<lambda>(cfg_buf, i, cfg_buf_len). unat cfg_buf_len)")
  fix cfg_buf :: mem and i :: nat and cfg_buf_len :: u32
  assume "4 \<le> cfg_buf_len"
  then have "unat (cfg_buf_len - 4) < unat cfg_buf_len"
    by (simp add: unat_sub word_le_nat_alt)
  then show "((cfg_buf, i + 1, cfg_buf_len - 4), cfg_buf, i, cfg_buf_len)
      \<in> measure (\<lambda>(cfg_buf, i, cfg_buf_len). unat cfg_buf_len)" by simp
qed simp

declare pio_words.simps [simp del]

definition pio_tail :: "mem \<Rightarrow> u32 \<Rightarrow> unit io" where
  "pio_tail cfg_buf cfg_buf_len =
     (let buffer_32 = word_at cfg_buf (unat (cfg_buf_len AND NOT 0x3));
          r = cfg_buf_len AND 0x3
      in if r = 3 then alt_write_word ALT_FPGAMGRDATA_ADDR (buffer_32 AND 0x00ffffff)
         else if r = 2 then alt_write_word ALT_FPGAMGRDATA_ADDR (buffer_32 AND 0x0000ffff)
         else if r = 1 then alt_write_word ALT_FPGAMGRDATA_ADDR (buffer_32 AND 0x000000ff)
         else State_Monad.return ())"

definition alt_fpga_internal_writeaxi :: "mem \<Rightarrow> u32 \<Rightarrow> status io" where
  "alt_fpga_internal_writeaxi cfg_buf cfg_buf_len =
     do { rest \<leftarrow> pio_words cfg_buf 0 cfg_buf_len;
          (if rest AND 0x3 \<noteq> 0 then pio_tail cfg_buf rest else State_Monad.return ());
          State_Monad.return ALT_E_SUCCESS }"

text \<open>
  The source of the image: a buffer, or a callback that is asked again and again for at
  most \<open>ISTREAM_CHUNK_SIZE\<close> bytes.  The callback is the caller's code and a parameter; it
  answers with its signed status (a byte count, 0 at the end, negative on error), the
  buffer it filled and its own new state.
\<close>

type_synonym 's istream = "u32 \<Rightarrow> 's \<Rightarrow> (u32 \<times> mem) \<times> 's"

datatype 's fpga_data = FPGA_DATA_FULL mem u32 | FPGA_DATA_ISTREAM "'s istream" 's

text \<open>
  In \<open>cb_status > sizeof(buffer)\<close> and \<open>cb_status > data_limit\<close> the signed status is converted
  to unsigned, so both are comparisons of words; \<open>cb_status < 0\<close> is the signed one.
\<close>

function istream_loop :: "'s istream \<Rightarrow> 's \<Rightarrow> u32 \<Rightarrow> status io" where
  "istream_loop stream udata data_limit =
     (case stream ISTREAM_CHUNK_SIZE udata of ((cb_status, buffer), udata') \<Rightarrow>
        if ISTREAM_CHUNK_SIZE < cb_status then State_Monad.return ALT_E_FPGA_CFG_STM
        else if sint cb_status < 0 then State_Monad.return ALT_E_FPGA_CFG_STM
        else if cb_status = 0 then State_Monad.return ALT_E_SUCCESS
        else if data_limit < cb_status then State_Monad.return ALT_E_FPGA_CFG_STM
        else do { status \<leftarrow> alt_fpga_internal_writeaxi buffer cb_status;
                  (if status \<noteq> ALT_E_SUCCESS then State_Monad.return status
                   else if 0 < sint cb_status
                        then istream_loop stream udata' (data_limit - cb_status)
                        else State_Monad.return status) })"
  by pat_completeness auto
termination
proof (relation "measure (\<lambda>(stream, udata, data_limit). unat data_limit)")
  fix stream :: "'s istream" and udata udata' :: 's and data_limit cb :: u32
    and p x buffer status
  assume "cb \<noteq> 0" and "\<not> data_limit < cb"
  then have "unat (data_limit - cb) < unat data_limit"
    by (simp add: unat_sub word_le_nat_alt not_less unat_gt_0)
       (metis diff_less le_zero_eq not_gr_zero unat_eq_zero word_le_nat_alt)
  then show "((stream, udata', data_limit - cb), stream, udata, data_limit)
      \<in> measure (\<lambda>(stream, udata, data_limit). unat data_limit)" by simp
qed simp

declare istream_loop.simps [simp del]

definition alt_fpga_internal_configure_idata :: "device \<Rightarrow> 's fpga_data \<Rightarrow> status io" where
  "alt_fpga_internal_configure_idata dev fpga_data =
     (let data_limit = 32 * 1024 * 1024 in
      do { status \<leftarrow> (case fpga_data of
             FPGA_DATA_FULL buffer len \<Rightarrow>
               if data_limit < len then State_Monad.return ALT_E_FPGA_CFG
               else alt_fpga_internal_writeaxi buffer len
           | FPGA_DATA_ISTREAM stream udata \<Rightarrow> istream_loop stream udata data_limit);
           (if status \<noteq> ALT_E_SUCCESS then State_Monad.return status
            else do { status \<leftarrow> wait_for_config_done dev ALT_FPGA_TMO_CONFIG;
                      State_Monad.return
                        (if status \<noteq> ALT_E_SUCCESS
                         then if status = ALT_E_FPGA_CRC then ALT_E_FPGA_CRC
                              else if status = ALT_E_TMO then ALT_E_FPGA_CFG
                              else ALT_E_FPGA_CFG
                         else ALT_E_SUCCESS) }) })"

section \<open>The configuration sequence\<close>

text \<open>Step 1, the CFGWIDTH and CDRATIO each MSEL mode asks for.\<close>

definition cfg_width_ratio :: "u32 \<Rightarrow> (nat \<times> nat) option" where
  "cfg_width_ratio mode =
     (if mode = 0x0 then Some (16, 1) else if mode = 0x1 then Some (16, 2)
      else if mode = 0x2 then Some (16, 4) else if mode = 0x4 then Some (16, 1)
      else if mode = 0x5 then Some (16, 2) else if mode = 0x6 then Some (16, 4)
      else if mode = 0x8 then Some (32, 1) else if mode = 0x9 then Some (32, 4)
      else if mode = 0xa then Some (32, 8) else if mode = 0xc then Some (32, 1)
      else if mode = 0xd then Some (32, 4) else if mode = 0xe then Some (32, 8)
      else None)"

definition ctrl_for_mode :: "nat \<Rightarrow> nat \<Rightarrow> u32 \<Rightarrow> u32 option" where
  "ctrl_for_mode cfgwidth cdratio ctrl_reg =
     (let c = ctrl_reg AND ALT_FPGAMGR_CTL_CDRATIO_CLR_MSK in
      case (if cdratio = 1 then Some (c OR ALT_FPGAMGR_CTL_CDRATIO_SET 0x0)
            else if cdratio = 2 then Some (c OR ALT_FPGAMGR_CTL_CDRATIO_SET 0x1)
            else if cdratio = 4 then Some (c OR ALT_FPGAMGR_CTL_CDRATIO_SET 0x2)
            else if cdratio = 8 then Some (c OR ALT_FPGAMGR_CTL_CDRATIO_SET 0x3)
            else None) of
        None \<Rightarrow> None
      | Some c \<Rightarrow>
          (case (if cfgwidth = 16 then Some (c AND ALT_FPGAMGR_CTL_CFGWDTH_CLR_MSK)
                 else if cfgwidth = 32 then Some (c OR ALT_FPGAMGR_CTL_CFGWDTH_SET_MSK)
                 else None) of
             None \<Rightarrow> None
           | Some c \<Rightarrow> Some (c AND ALT_FPGAMGR_CTL_NCE_CLR_MSK)))"

text \<open>Steps 12 and 13: start-up clocks, then user mode.\<close>

definition configure_finish :: "device \<Rightarrow> status \<Rightarrow> status io" where
  "configure_finish dev data_status =
     do { status \<leftarrow> dclk_set_and_wait_clear dev 4
                      (ALT_FPGA_TMO_DCLK_CONST + 4 * ALT_FPGA_TMO_DCLK_MUL);
          (if status \<noteq> ALT_E_SUCCESS
           then State_Monad.return
                  (if data_status \<noteq> ALT_E_SUCCESS then data_status else ALT_E_FPGA_CFG)
           else do { status \<leftarrow> wait_for_fpga_state dev ALT_FPGA_STATE_USER_MODE ALT_FPGA_TMO_STATE;
                     State_Monad.return
                       (if status = ALT_E_TMO
                        then if data_status \<noteq> ALT_E_SUCCESS then data_status else ALT_E_FPGA_CFG
                        else data_status) }) }"

text \<open>Steps 7 to 11: clear nSTATUS, open the AXI data slave, send the image, close it.\<close>

definition configure_data :: "device \<Rightarrow> 's fpga_data \<Rightarrow> u32 \<Rightarrow> status io" where
  "configure_data dev fpga_data ctrl_reg =
     do { alt_write_word ALT_FPGAMGR_MON_GPIO_PORTA_EOI_ADDR ALT_MON_GPIO_PORTA_EOI_NS_E_CLR;
          let ctrl_reg = ctrl_reg OR ALT_FPGAMGR_CTL_AXICFGEN_SET_MSK;
          alt_write_word ALT_FPGAMGR_CTL_ADDR ctrl_reg;
          data_status \<leftarrow> alt_fpga_internal_configure_idata dev fpga_data;
          let ctrl_reg = ctrl_reg AND ALT_FPGAMGR_CTL_AXICFGEN_CLR_MSK;
          alt_write_word ALT_FPGAMGR_CTL_ADDR ctrl_reg;
          configure_finish dev data_status }"

text \<open>Steps 1 (the write) and 3 to 6: pulse the reset, then wait for the configuration phase.\<close>

definition configure_reset :: "device \<Rightarrow> 's fpga_data \<Rightarrow> u32 \<Rightarrow> status io" where
  "configure_reset dev fpga_data ctrl_reg =
     do { alt_write_word ALT_FPGAMGR_CTL_ADDR ctrl_reg;
          let ctrl_reg = ctrl_reg OR ALT_FPGAMGR_CTL_NCFGPULL_SET_MSK;
          alt_write_word ALT_FPGAMGR_CTL_ADDR ctrl_reg;
          status \<leftarrow> wait_for_fpga_state dev ALT_FPGA_STATE_RESET ALT_FPGA_TMO_STATE;
          let ctrl_reg = ctrl_reg AND ALT_FPGAMGR_CTL_NCFGPULL_CLR_MSK;
          alt_write_word ALT_FPGAMGR_CTL_ADDR ctrl_reg;
          (if status \<noteq> ALT_E_SUCCESS then State_Monad.return ALT_E_FPGA_CFG
           else do { status \<leftarrow> wait_for_fpga_state dev ALT_FPGA_STATE_CFG ALT_FPGA_TMO_STATE;
                     (if status \<noteq> ALT_E_SUCCESS then State_Monad.return ALT_E_FPGA_CFG
                      else configure_data dev fpga_data ctrl_reg) }) }"

definition alt_fpga_internal_configure :: "device \<Rightarrow> 's fpga_data \<Rightarrow> status io" where
  "alt_fpga_internal_configure dev fpga_data =
     do { en \<leftarrow> alt_fpga_control_is_enabled dev;
          (if \<not> en then State_Monad.return ALT_E_FPGA_NO_SOC_CTRL
           else do { st \<leftarrow> alt_fpga_state_get dev;
             (if st = ALT_FPGA_STATE_POWER_OFF then State_Monad.return ALT_E_FPGA_PWR_OFF
              else do { ctrl_reg \<leftarrow> alt_read_word dev ALT_FPGAMGR_CTL_ADDR;
                mode \<leftarrow> alt_fpga_cfg_mode_get dev;
                (case cfg_width_ratio mode of
                   None \<Rightarrow> State_Monad.return ALT_E_ERROR
                 | Some (cfgwidth, cdratio) \<Rightarrow>
                     (case ctrl_for_mode cfgwidth cdratio ctrl_reg of
                        None \<Rightarrow> State_Monad.return ALT_E_ERROR
                      | Some ctrl_reg \<Rightarrow> configure_reset dev fpga_data ctrl_reg)) }) }) }"

definition alt_fpga_configure :: "device \<Rightarrow> mem \<Rightarrow> u32 \<Rightarrow> status io" where
  "alt_fpga_configure dev cfg_buf cfg_buf_len =
     alt_fpga_internal_configure dev (FPGA_DATA_FULL cfg_buf cfg_buf_len :: unit fpga_data)"

definition alt_fpga_istream_configure :: "device \<Rightarrow> 's istream \<Rightarrow> 's \<Rightarrow> status io" where
  "alt_fpga_istream_configure dev cfg_stream user_data =
     alt_fpga_internal_configure dev (FPGA_DATA_ISTREAM cfg_stream user_data)"

text \<open>
  \<^verbatim>\<open>writeConfig.hpp\<close>: take control, configure, give control back.  \<open>fsize\<close> is an \<open>int\<close>
  passed where a \<open>size_t\<close> is expected: its bit pattern is what arrives.
\<close>

definition writeFPGAconfig :: "device \<Rightarrow> mem \<Rightarrow> u32 \<Rightarrow> bool io" where
  "writeFPGAconfig dev buf fsize =
     do { _ \<leftarrow> alt_fpga_init;
          _ \<leftarrow> alt_fpga_control_enable dev;
          stat \<leftarrow> alt_fpga_state_get dev;
          status \<leftarrow> alt_fpga_configure dev buf fsize;
          _ \<leftarrow> alt_fpga_control_disable dev;
          State_Monad.return (status = ALT_E_SUCCESS) }"

section \<open>General-purpose signals and monitor interrupts\<close>

definition alt_fpga_gpi_read :: "device \<Rightarrow> u32 \<Rightarrow> u32 io" where
  "alt_fpga_gpi_read dev msk =
     (if msk = 0 then State_Monad.return 0
      else do { v \<leftarrow> alt_read_word dev ALT_FPGAMGR_GPI_ADDR; State_Monad.return (v AND msk) })"

definition alt_fpga_gpo_write :: "device \<Rightarrow> u32 \<Rightarrow> u32 \<Rightarrow> status io" where
  "alt_fpga_gpo_write dev msk value =
     (if msk = 0 then State_Monad.return ALT_E_SUCCESS
      else do { v \<leftarrow> alt_read_word dev ALT_FPGAMGR_GPO_ADDR;
                alt_write_word ALT_FPGAMGR_GPO_ADDR ((v AND NOT msk) OR (value AND msk));
                State_Monad.return ALT_E_SUCCESS })"

abbreviation (input) "mon_bits \<equiv> (push_bit 12 1 - 1) :: u32"

definition alt_fpga_man_irq_disable :: "device \<Rightarrow> u32 \<Rightarrow> status io" where
  "alt_fpga_man_irq_disable dev mon_stat_mask =
     (if mon_stat_mask AND NOT mon_bits \<noteq> 0 then State_Monad.return ALT_E_BAD_ARG
      else do { current \<leftarrow> alt_read_word dev ALT_FPGAMGR_MON_GPIO_INTEN_ADDR;
                alt_write_word ALT_FPGAMGR_MON_GPIO_INTEN_ADDR
                  (current AND (NOT mon_stat_mask AND mon_bits));
                State_Monad.return ALT_E_SUCCESS })"

definition alt_fpga_man_irq_enable :: "device \<Rightarrow> u32 \<Rightarrow> status io" where
  "alt_fpga_man_irq_enable dev mon_stat_mask =
     (if mon_stat_mask AND NOT mon_bits \<noteq> 0 then State_Monad.return ALT_E_BAD_ARG
      else do { alt_setbits_word dev ALT_FPGAMGR_MON_GPIO_INTEN_ADDR mon_stat_mask;
                State_Monad.return ALT_E_SUCCESS })"

definition alt_fpga_man_irq_type_get :: "device \<Rightarrow> u32 \<Rightarrow> u32 io" where
  "alt_fpga_man_irq_type_get dev mon_stat_mask =
     do { v \<leftarrow> alt_read_word dev ALT_FPGAMGR_MON_GPIO_INTTYPE_LEVEL_ADDR;
          State_Monad.return (v AND mon_stat_mask) }"

definition alt_fpga_man_irq_type_set :: "device \<Rightarrow> u32 \<Rightarrow> u32 \<Rightarrow> status io" where
  "alt_fpga_man_irq_type_set dev mon_stat_mask mon_stat_config =
     (if mon_stat_mask AND NOT mon_bits \<noteq> 0 then State_Monad.return ALT_E_BAD_ARG
      else do { alt_replbits_word dev ALT_FPGAMGR_MON_GPIO_INTTYPE_LEVEL_ADDR
                  mon_stat_mask mon_stat_config;
                State_Monad.return ALT_E_SUCCESS })"

definition alt_fpga_man_irq_pol_get :: "device \<Rightarrow> u32 \<Rightarrow> u32 io" where
  "alt_fpga_man_irq_pol_get dev mon_stat_mask =
     do { v \<leftarrow> alt_read_word dev ALT_FPGAMGR_MON_GPIO_INT_POL_ADDR;
          State_Monad.return (v AND mon_stat_mask) }"

definition alt_fpga_man_irq_pol_set :: "device \<Rightarrow> u32 \<Rightarrow> u32 \<Rightarrow> status io" where
  "alt_fpga_man_irq_pol_set dev mon_stat_mask mon_stat_config =
     (if mon_stat_mask AND NOT mon_bits \<noteq> 0 then State_Monad.return ALT_E_BAD_ARG
      else do { alt_replbits_word dev ALT_FPGAMGR_MON_GPIO_INT_POL_ADDR
                  mon_stat_mask mon_stat_config;
                State_Monad.return ALT_E_SUCCESS })"

section \<open>The data path\<close>


lemma word_sub_div4: 
  assumes "4 \<le> (len :: u32)"
  shows "unat len div 4 = Suc (unat (len - 4) div 4)" and "unat len mod 4 = unat (len - 4) mod 4"
proof -
  have u: "unat (len - 4) = unat len - 4" and "4 \<le> unat len"
    using assms by (simp_all add: unat_sub word_le_nat_alt)
  then show "unat len div 4 = Suc (unat (len - 4) div 4)" "unat len mod 4 = unat (len - 4) mod 4"
    by (simp_all add: le_div_geq le_mod_geq)
qed

lemma pio_words_run:
  "after (pio_words buf i len) h =
     h @ map (\<lambda>k. Wr ALT_FPGAMGRDATA_ADDR (word_at buf (4 * k))) [i..<i + unat len div 4] \<and>
   unat (outcome (pio_words buf i len) h) = unat len mod 4"
proof (induction buf i len arbitrary: h rule: pio_words.induct)
  case (1 buf i len)
  show ?case
  proof (cases "4 \<le> len")
    case True
    note IH = "1.IH"[OF True]
    have d: "[i..<i + unat len div 4] = i # [i + 1..<i + 1 + unat (len - 4) div 4]"
      using word_sub_div4(1)[OF True] by (simp add: upt_conv_Cons del: upt_Suc)
    have m: "unat (len - 4) mod 4 = unat len mod 4" using word_sub_div4(2)[OF True] by simp
    have eq: "pio_words buf i len =
        State_Monad.bind (alt_write_word ALT_FPGAMGRDATA_ADDR (word_at buf (4 * i)))
          (\<lambda>_. pio_words buf (i + 1) (len - 4))"
      using True by (simp add: pio_words.simps[of buf i len])
    show ?thesis unfolding eq d using IH m by (simp del: upt_Suc)
  next
    case False
    then have "unat len < 4" by (simp add: word_le_nat_alt)
    with False show ?thesis by (subst (1 2) pio_words.simps) simp
  qed
qed


text \<open>
  The words that the PIO transfer writes for \<open>n\<close> bytes: the complete words of the buffer and,
  where \<open>n\<close> is no multiple of four, one word for the 1 to 3 bytes left.  The code reads that
  word at the start of the buffer, not at its end, so this is not the image in general:
  \<open>axi_words_image\<close> says what it is, \<open>axi_words_whole\<close> when it is the image.
\<close>

definition axi_words :: "mem \<Rightarrow> nat \<Rightarrow> u32 list" where
  "axi_words buf n =
     map (\<lambda>k. word_at buf (4 * k)) [0..<n div 4] @
     (if n mod 4 = 0 then [] else [word_at buf 0 AND mask (8 * (n mod 4))])"

lemma small_word_cases:
  assumes "unat (r :: u32) = k" and "k < 4"
  obtains "r = 0" "k = 0" | "r = 1" "k = 1" | "r = 2" "k = 2" | "r = 3" "k = 3"
proof -
  have r: "r = of_nat k" using assms(1) by auto
  consider "k = 0" | "k = 1" | "k = 2" | "k = 3" using assms(2) by linarith
  then show ?thesis using that r by cases auto
qed

lemma pio_tail_after:
  assumes "unat r = k" and "k < 4"
  shows "after (if r AND 0x3 \<noteq> 0 then pio_tail buf r else State_Monad.return ()) h =
    h @ (if k = 0 then [] else [Wr ALT_FPGAMGRDATA_ADDR (word_at buf 0 AND mask (8 * k))])"
  using assms by (rule small_word_cases) (simp_all add: pio_tail_def mask_eq_exp_minus_1)

lemma writeaxi_run:
  "after (alt_fpga_internal_writeaxi buf len) h =
     h @ map (Wr ALT_FPGAMGRDATA_ADDR) (axi_words buf (unat len)) \<and>
   outcome (alt_fpga_internal_writeaxi buf len) h = ALT_E_SUCCESS"
proof -
  have k: "unat (outcome (pio_words buf 0 len) h) = unat len mod 4" for h
    using pio_words_run[of buf 0 len h] by blast
  show ?thesis
    using pio_words_run[of buf 0 len h] pio_tail_after[OF k, of h buf "after (pio_words buf 0 len) h"]
    by (simp add: alt_fpga_internal_writeaxi_def axi_words_def comp_def)
qed

lemma bytes32_masked:
  assumes "0 < k" "k < 4"
  shows "bytes32 (word_at m p AND mask (8 * k)) = bytes_at m p k @ replicate (4 - k) 0"
proof -
  consider "k = 1" | "k = 2" | "k = 3" using assms by linarith
  then show ?thesis
    by cases (auto simp: bytes32_def word_at_def le32_def bytes_at_def bit_simps upt_rec
        numeral_3_eq_3 numeral_2_eq_2 intro!: bit_word_eqI)
qed

lemma concat_words:
  "concat (map (\<lambda>k. bytes32 (word_at m (4 * k))) [0..<j]) = bytes_at m 0 (4 * j)"
proof (induction j)
  case (Suc j)
  have "bytes_at m 0 (4 * Suc j) = bytes_at m 0 (4 * j) @ bytes_at m (4 * j) 4"
    using bytes_at_add[of m 0 "4 * j" 4] by (simp add: add.commute)
  with Suc show ?case by (simp add: bytes32_word_at)
qed simp

lemma axi_words_bytes:
  "concat (map bytes32 (axi_words buf n)) =
     bytes_at buf 0 (4 * (n div 4)) @
     (if n mod 4 = 0 then [] else bytes_at buf 0 (n mod 4) @ replicate (4 - n mod 4) 0)"
  using bytes32_masked[of "n mod 4" buf 0]
  by (simp add: axi_words_def comp_def concat_words)

lemma length_axi_words: "length (axi_words buf n) = (n + 3) div 4"
  by (simp add: axi_words_def) presburger

lemma axi_words_image:
  "take n (concat (map bytes32 (axi_words buf n))) =
     bytes_at buf 0 (4 * (n div 4)) @ bytes_at buf 0 (n mod 4)"
proof -
  have n: "n = 4 * (n div 4) + n mod 4" by simp
  show ?thesis unfolding axi_words_bytes by (subst n, subst take_add) (simp add: take_all)
qed

lemma axi_words_whole:
  "take n (concat (map bytes32 (axi_words buf n))) = bytes_at buf 0 n \<longleftrightarrow>
   bytes_at buf (4 * (n div 4)) (n mod 4) = bytes_at buf 0 (n mod 4)"
proof -
  have "bytes_at buf 0 n = bytes_at buf 0 (4 * (n div 4)) @ bytes_at buf (4 * (n div 4)) (n mod 4)"
    using bytes_at_add[of buf 0 "4 * (n div 4)" "n mod 4"] by simp
  then show ?thesis unfolding axi_words_image by auto
qed


section \<open>Polling results\<close>

abbreviation mgr_regs :: "addr set" where
  "mgr_regs \<equiv> {ALT_FPGAMGR_DCLKSTAT_ADDR, ALT_FPGAMGR_DCLKCNT_ADDR}"

lemma writes_only_state_get [simp, intro]: "writes_only A (alt_fpga_state_get dev)"
  by (auto simp: alt_fpga_state_get_def alt_fpga_mon_status_get_def)

lemma writes_only_mon_get [simp, intro]: "writes_only A (alt_fpga_mon_status_get dev)"
  by (auto simp: alt_fpga_mon_status_get_def)

lemma writes_only_wait_state [simp, intro]: "writes_only A (wait_for_fpga_state dev st n)"
  by (auto simp: wait_for_fpga_state_def)

lemma writes_only_config_done [simp, intro]: "writes_only A (wait_for_config_done dev n)"
  by (auto simp: wait_for_config_done_def config_done_body_def Let_def)

lemma writes_only_dclk: "writes_only mgr_regs (dclk_set_and_wait_clear dev c n)"
  by (auto simp: dclk_set_and_wait_clear_def dclk_body_def)

lemma writes_only_finish: "writes_only mgr_regs (configure_finish dev ds)"
  by (auto simp: configure_finish_def intro: writes_only_dclk)

lemma writes_map_Wr [simp]: "writes (map (Wr a) vs) = map (Pair a) vs"
  by (induction vs) auto

lemma writes_to_map_Wr [simp]: "writes_to b (map (Wr a) vs) = (if a = b then vs else [])"
  by (auto simp: writes_to_def comp_def filter_map)

lemma writes_only_writeaxi: "writes_only {ALT_FPGAMGRDATA_ADDR} (alt_fpga_internal_writeaxi buf len)"
  unfolding writes_only_def by (auto simp: writeaxi_run)

lemma sint_pos: "\<not> sint a < 0 \<Longrightarrow> a \<noteq> 0 \<Longrightarrow> 0 < sint (a :: u32)"
  by (metis linorder_neqE_linordered_idom signed_eq_0_iff)

lemma writes_only_istream: "writes_only {ALT_FPGAMGRDATA_ADDR} (istream_loop stream udata limit)"
proof (induction stream udata limit rule: istream_loop.induct)
  case (1 stream udata limit)
  obtain cb buffer udata' where s: "stream ISTREAM_CHUNK_SIZE udata = ((cb, buffer), udata')"
    by (metis prod.exhaust)
  note IH = "1.IH"[OF s[symmetric] refl]
  show ?case
    using IH writes_only_writeaxi[of buffer cb] sint_pos[of cb]
    by (subst istream_loop.simps) (auto simp: s)
qed

lemma writes_only_idata:
  "writes_only {ALT_FPGAMGRDATA_ADDR} (alt_fpga_internal_configure_idata dev d)"
  by (auto simp: alt_fpga_internal_configure_idata_def Let_def split: fpga_data.split
      intro!: writes_only_bind writes_only_writeaxi writes_only_istream)


section \<open>Control-register writes\<close>

lemma addr_neq [simp]:
  "ALT_FPGAMGR_CTL_ADDR \<noteq> ALT_FPGAMGR_DCLKSTAT_ADDR"
  "ALT_FPGAMGR_CTL_ADDR \<noteq> ALT_FPGAMGR_DCLKCNT_ADDR"
  "ALT_FPGAMGR_CTL_ADDR \<noteq> ALT_FPGAMGR_MON_GPIO_PORTA_EOI_ADDR"
  "ALT_FPGAMGR_CTL_ADDR \<noteq> ALT_FPGAMGRDATA_ADDR"
  "ALT_FPGAMGRDATA_ADDR \<noteq> ALT_FPGAMGR_DCLKSTAT_ADDR"
  "ALT_FPGAMGRDATA_ADDR \<noteq> ALT_FPGAMGR_DCLKCNT_ADDR"
  "ALT_FPGAMGRDATA_ADDR \<noteq> ALT_FPGAMGR_MON_GPIO_PORTA_EOI_ADDR"
  by (simp_all add: fpga_addrs)

lemmas addr_neq' [simp] = addr_neq [symmetric]

abbreviation ctl_writes :: "history \<Rightarrow> u32 list" where
  "ctl_writes \<equiv> writes_to ALT_FPGAMGR_CTL_ADDR"

lemma ctl_finish: "ctl_writes (after (configure_finish dev ds) h) = ctl_writes h"
  by (rule writes_to_only[OF writes_only_finish]) simp

lemma ctl_idata: "ctl_writes (after (alt_fpga_internal_configure_idata dev d) h) = ctl_writes h"
  by (rule writes_to_only[OF writes_only_idata]) simp

lemma ctl_wait: "ctl_writes (after (wait_for_fpga_state dev st n) h) = ctl_writes h"
  by (rule writes_to_only[of "{}"]) auto

lemma ctl_data:
  "ctl_writes (after (configure_data dev d c) h) =
     ctl_writes h @ [c OR ALT_FPGAMGR_CTL_AXICFGEN_SET_MSK,
       (c OR ALT_FPGAMGR_CTL_AXICFGEN_SET_MSK) AND ALT_FPGAMGR_CTL_AXICFGEN_CLR_MSK]"
  by (simp add: configure_data_def Let_def ctl_finish ctl_idata)

lemma ctl_reset:
  "\<exists>ws. ctl_writes (after (configure_reset dev d c) h) = ctl_writes h @ ws \<and>
    (let c1 = c OR ALT_FPGAMGR_CTL_NCFGPULL_SET_MSK; c2 = c1 AND ALT_FPGAMGR_CTL_NCFGPULL_CLR_MSK;
         c3 = c2 OR ALT_FPGAMGR_CTL_AXICFGEN_SET_MSK
     in ws = [c, c1, c2] \<or> ws = [c, c1, c2, c3, c3 AND ALT_FPGAMGR_CTL_AXICFGEN_CLR_MSK])"
  by (auto simp: configure_reset_def Let_def ctl_wait ctl_data)


section \<open>The data window\<close>

text \<open>
  \<open>window_open o t\<close>: with the window \<open>o\<close> at the start of \<open>t\<close>, is the AXI data slave open
  (AXICFGEN set, reset released) after it; \<open>data_gated o t\<close>: every write to the data
  register in \<open>t\<close> finds it open.
\<close>

definition ctl_opens :: "u32 \<Rightarrow> bool" where
  "ctl_opens v \<longleftrightarrow> v AND ALT_FPGAMGR_CTL_AXICFGEN_SET_MSK \<noteq> 0 \<and>
                  v AND ALT_FPGAMGR_CTL_NCFGPULL_SET_MSK = 0"

fun window_open :: "bool \<Rightarrow> history \<Rightarrow> bool" where
  "window_open op [] = op"
| "window_open op (Rd a v # t) = window_open op t"
| "window_open op (Wr a v # t) =
     window_open (if a = ALT_FPGAMGR_CTL_ADDR then ctl_opens v else op) t"

fun data_gated :: "bool \<Rightarrow> history \<Rightarrow> bool" where
  "data_gated op [] = True"
| "data_gated op (Rd a v # t) = data_gated op t"
| "data_gated op (Wr a v # t) =
     (if a = ALT_FPGAMGR_CTL_ADDR then data_gated (ctl_opens v) t
      else (a = ALT_FPGAMGRDATA_ADDR \<longrightarrow> op) \<and> data_gated op t)"

lemma window_open_append [simp]: "window_open op (t @ u) = window_open (window_open op t) u"
  by (induction op t rule: window_open.induct) auto

lemma data_gated_append [simp]:
  "data_gated op (t @ u) \<longleftrightarrow> data_gated op t \<and> data_gated (window_open op t) u"
  by (induction op t rule: data_gated.induct) auto

lemma window_quiet:
  "ALT_FPGAMGR_CTL_ADDR \<notin> fst ` set (writes t) \<Longrightarrow> window_open op t = op"
  by (induction op t rule: window_open.induct) auto

lemma gated_quiet:
  "ALT_FPGAMGR_CTL_ADDR \<notin> fst ` set (writes t) \<Longrightarrow>
   op \<or> ALT_FPGAMGRDATA_ADDR \<notin> fst ` set (writes t) \<Longrightarrow> data_gated op t"
  by (induction op t rule: data_gated.induct) auto

text \<open>
  \<open>gated op m op'\<close>: run with the window \<open>op\<close>, \<open>m\<close> keeps the discipline and leaves it \<open>op'\<close>.
\<close>

definition gated :: "bool \<Rightarrow> 'a io \<Rightarrow> bool" where
  "gated op m \<longleftrightarrow> (\<forall>h. \<exists>t. after m h = h @ t \<and> data_gated op t)"

lemma gated_only:
  assumes "writes_only A m" and "ALT_FPGAMGR_CTL_ADDR \<notin> A" and "op \<or> ALT_FPGAMGRDATA_ADDR \<notin> A"
    and "\<And>x. gated op (f x)"
  shows "gated op (State_Monad.bind m f)"
  unfolding gated_def
proof
  fix h
  obtain t where t: "after m h = h @ t" "fst ` set (writes t) \<subseteq> A"
    using assms(1) by (rule writes_onlyE)
  obtain u where u: "after (f (outcome m h)) (h @ t) = (h @ t) @ u" "data_gated op u"
    using assms(4) unfolding gated_def by blast
  have "data_gated op t" "window_open op t = op"
    using t assms(2,3) by (auto intro!: gated_quiet window_quiet)
  with t u show "\<exists>t. after (State_Monad.bind m f) h = h @ t \<and> data_gated op t"
    by (intro exI[of _ "t @ u"]) auto
qed

lemma gated_ctl:
  assumes "gated (ctl_opens v) (f ())"
  shows "gated op (State_Monad.bind (alt_write_word ALT_FPGAMGR_CTL_ADDR v) f)"
  unfolding gated_def
proof
  fix h
  obtain u where "after (f ()) (h @ [Wr ALT_FPGAMGR_CTL_ADDR v]) =
      (h @ [Wr ALT_FPGAMGR_CTL_ADDR v]) @ u" "data_gated (ctl_opens v) u"
    using assms unfolding gated_def by blast
  then show "\<exists>t. after (State_Monad.bind (alt_write_word ALT_FPGAMGR_CTL_ADDR v) f) h = h @ t \<and>
      data_gated op t"
    by (intro exI[of _ "Wr ALT_FPGAMGR_CTL_ADDR v # u"]) auto
qed

lemma gated_return [simp]: "gated op (State_Monad.return x)"
  by (simp add: gated_def)

lemma gated_writes_only:
  assumes "writes_only A m" and "ALT_FPGAMGR_CTL_ADDR \<notin> A" and "ALT_FPGAMGRDATA_ADDR \<notin> A"
  shows "gated op m"
  unfolding gated_def
proof
  fix h
  obtain t where t: "after m h = h @ t" "fst ` set (writes t) \<subseteq> A"
    using assms(1) by (rule writes_onlyE)
  then show "\<exists>t. after m h = h @ t \<and> data_gated op t"
    using assms(2,3) by (intro exI[of _ t] conjI gated_quiet) auto
qed

lemma gated_if: "gated op m \<Longrightarrow> gated op m' \<Longrightarrow> gated op (if b then m else m')"
  by simp

lemma ctl_opens_axi [simp]:
  "ctl_opens ((c AND ALT_FPGAMGR_CTL_NCFGPULL_CLR_MSK) OR ALT_FPGAMGR_CTL_AXICFGEN_SET_MSK)"
proof -
  let ?v = "(c AND 0xfffffffb) OR (0x100 :: u32)"
  have "bit (?v AND 0x100) 8" by (simp add: bit_simps)
  then have "?v AND 0x100 \<noteq> 0" by force
  moreover have "?v AND 4 = 0" by (simp add: word_ao_dist and.assoc)
  ultimately show ?thesis by (simp add: ctl_opens_def)
qed

lemma gated_data: "gated op (configure_data dev d (c AND ALT_FPGAMGR_CTL_NCFGPULL_CLR_MSK))"
  unfolding configure_data_def Let_def
  by (rule gated_only[of "{ALT_FPGAMGR_MON_GPIO_PORTA_EOI_ADDR}"], simp, simp, simp,
      rule gated_ctl, rule gated_only[OF writes_only_idata], simp, simp,
      rule gated_ctl, rule gated_writes_only[OF writes_only_finish]) simp_all

lemma gated_reset: "gated op (configure_reset dev d c)"
  unfolding configure_reset_def Let_def
  by (intro gated_ctl gated_only[OF writes_only_wait_state[of "{}"]] gated_if gated_return gated_data)
     simp_all

lemma gated_configure: "gated op (alt_fpga_internal_configure dev d)"
  unfolding alt_fpga_internal_configure_def alt_fpga_control_is_enabled_def alt_fpga_cfg_mode_get_def
    Let_def
  by (intro gated_only[of "{}"] gated_if gated_return writes_only_bind writes_only_read
      writes_only_return writes_only_state_get)
     (auto split: option.split intro: gated_reset)


section \<open>What success means\<close>

definition state_body :: "device \<Rightarrow> u32 \<Rightarrow> status option io" where
  "state_body dev st =
     do { current \<leftarrow> alt_fpga_state_get dev;
          State_Monad.return (if current = st then Some ALT_E_SUCCESS else None) }"

lemma wait_state_alt: "wait_for_fpga_state dev st n = poll (state_body dev st) ALT_E_TMO (unat n)"
  by (simp add: wait_for_fpga_state_def state_body_def)

lemma wait_state_success:
  assumes "outcome (wait_for_fpga_state dev st n) h = ALT_E_SUCCESS"
  shows "\<exists>h'. outcome (alt_fpga_state_get dev) h' = st \<and>
          after (wait_for_fpga_state dev st n) h = after (alt_fpga_state_get dev) h'"
proof (rule poll_cases[where body = "state_body dev st" and tmo = ALT_E_TMO and n = "unat n" and h = h])
  fix k x
  assume "outcome (state_body dev st) (nth_pass (state_body dev st) k h) = Some x"
    and "after (poll (state_body dev st) ALT_E_TMO (unat n)) h =
         after (state_body dev st) (nth_pass (state_body dev st) k h)"
  then show ?thesis
    by (intro exI[of _ "nth_pass (state_body dev st) k h"])
       (simp add: wait_state_alt, simp add: state_body_def split: if_splits)
qed (use assms in \<open>simp add: wait_state_alt\<close>)

lemma wait_state_outcome:
  "outcome (wait_for_fpga_state dev st n) h \<in> {ALT_E_SUCCESS, ALT_E_TMO}"
  unfolding wait_state_alt
  by (rule poll_cases[where body = "state_body dev st" and tmo = ALT_E_TMO and n = "unat n" and h = h])
     (auto simp: state_body_def split: if_splits)

lemma state_get_accesses:
  assumes "outcome (alt_fpga_state_get dev) h = st" and "st \<noteq> ALT_FPGA_STATE_POWER_OFF"
  shows "\<exists>m v. after (alt_fpga_state_get dev) h =
           h @ [Rd ALT_FPGAMGR_MON_GPIO_EXT_PORTA_ADDR m, Rd ALT_FPGAMGR_STAT_ADDR v] \<and>
         m AND ALT_FPGA_MON_FPGA_POWER_ON \<noteq> 0 \<and> ALT_FPGAMGR_STAT_MOD_GET v = st"
  using assms
  by (auto simp: alt_fpga_state_get_def alt_fpga_mon_status_get_def and.assoc split: if_splits)

lemma finish_success:
  assumes "outcome (configure_finish dev ds) h = ALT_E_SUCCESS"
  shows "ds = ALT_E_SUCCESS \<and> (\<exists>t m v. after (configure_finish dev ds) h =
           t @ [Rd ALT_FPGAMGR_MON_GPIO_EXT_PORTA_ADDR m, Rd ALT_FPGAMGR_STAT_ADDR v] \<and>
         m AND ALT_FPGA_MON_FPGA_POWER_ON \<noteq> 0 \<and>
         ALT_FPGAMGR_STAT_MOD_GET v = ALT_FPGA_STATE_USER_MODE)"
proof -
  let ?m = "dclk_set_and_wait_clear dev 4 (ALT_FPGA_TMO_DCLK_CONST + 4 * ALT_FPGA_TMO_DCLK_MUL)"
  let ?w = "wait_for_fpga_state dev ALT_FPGA_STATE_USER_MODE ALT_FPGA_TMO_STATE"
  have d: "outcome ?m h = ALT_E_SUCCESS"
    using assms by (auto simp: configure_finish_def split: if_splits)
  then have w: "outcome ?w (after ?m h) = ALT_E_SUCCESS" and ds: "ds = ALT_E_SUCCESS"
    using assms wait_state_outcome[of dev ALT_FPGA_STATE_USER_MODE ALT_FPGA_TMO_STATE "after ?m h"]
    by (auto simp: configure_finish_def split: if_splits)
  from wait_state_success[OF w] obtain h' where
    "outcome (alt_fpga_state_get dev) h' = ALT_FPGA_STATE_USER_MODE"
    and a: "after ?w (after ?m h) = after (alt_fpga_state_get dev) h'" by blast
  with state_get_accesses[OF this(1)] d ds show ?thesis
    by (auto simp: configure_finish_def)
qed

lemma data_finish: "writes_to ALT_FPGAMGRDATA_ADDR (after (configure_finish dev ds) h) =
    writes_to ALT_FPGAMGRDATA_ADDR h"
  by (rule writes_to_only[OF writes_only_finish]) simp

lemma data_wait: "writes_to ALT_FPGAMGRDATA_ADDR (after (wait_for_fpga_state dev st n) h) =
    writes_to ALT_FPGAMGRDATA_ADDR h"
  by (rule writes_to_only[of "{}"]) auto

lemma data_state: "writes_to ALT_FPGAMGRDATA_ADDR (after (alt_fpga_state_get dev) h) =
    writes_to ALT_FPGAMGRDATA_ADDR h"
  by (rule writes_to_only[of "{}"]) auto

lemma data_config_done: "writes_to ALT_FPGAMGRDATA_ADDR (after (wait_for_config_done dev n) h) =
    writes_to ALT_FPGAMGRDATA_ADDR h"
  by (rule writes_to_only[of "{}"]) auto

lemma idata_full_success:
  assumes d: "d = FPGA_DATA_FULL buf len" and s: "outcome (alt_fpga_internal_configure_idata dev d) h = ALT_E_SUCCESS"
  shows "len \<le> 32 * 1024 * 1024 \<and>
    writes_to ALT_FPGAMGRDATA_ADDR
      (after (alt_fpga_internal_configure_idata dev d) h) =
    writes_to ALT_FPGAMGRDATA_ADDR h @ axi_words buf (unat len)"
  using s unfolding d
  by (auto simp: alt_fpga_internal_configure_idata_def writeaxi_run data_config_done not_less
      split: if_splits)

lemma data_phase_success:
  assumes d: "d = FPGA_DATA_FULL buf len" and s: "outcome (configure_data dev d c) h = ALT_E_SUCCESS"
  shows "len \<le> 32 * 1024 * 1024 \<and>
    writes_to ALT_FPGAMGRDATA_ADDR (after (configure_data dev d c) h) =
      writes_to ALT_FPGAMGRDATA_ADDR h @ axi_words buf (unat len) \<and>
    (\<exists>t m v. after (configure_data dev d c) h =
           t @ [Rd ALT_FPGAMGR_MON_GPIO_EXT_PORTA_ADDR m, Rd ALT_FPGAMGR_STAT_ADDR v] \<and>
         m AND ALT_FPGA_MON_FPGA_POWER_ON \<noteq> 0 \<and>
         ALT_FPGAMGR_STAT_MOD_GET v = ALT_FPGA_STATE_USER_MODE)"
proof -
  let ?h1 = "h @ [Wr ALT_FPGAMGR_MON_GPIO_PORTA_EOI_ADDR ALT_MON_GPIO_PORTA_EOI_NS_E_CLR,
    Wr ALT_FPGAMGR_CTL_ADDR (c OR ALT_FPGAMGR_CTL_AXICFGEN_SET_MSK)]"
  have f: "outcome (configure_finish dev (outcome (alt_fpga_internal_configure_idata dev d) ?h1))
      (after (alt_fpga_internal_configure_idata dev d) ?h1 @
         [Wr ALT_FPGAMGR_CTL_ADDR ((c OR ALT_FPGAMGR_CTL_AXICFGEN_SET_MSK) AND
            ALT_FPGAMGR_CTL_AXICFGEN_CLR_MSK)]) = ALT_E_SUCCESS"
    using s by (simp add: configure_data_def Let_def)
  note fs = finish_success[OF f]
  from fs have i: "outcome (alt_fpga_internal_configure_idata dev d) ?h1 = ALT_E_SUCCESS" by blast
  show ?thesis
    using fs idata_full_success[OF d i] unfolding i
    by (simp add: configure_data_def Let_def data_finish i)
qed


text \<open>
  The two ways a configuration goes: refused before any write, or begun with the control
  word \<open>c\<close> for the mode.
\<close>

lemma two_choices:
  obtains "(case x of None \<Rightarrow> e | Some (a, b) \<Rightarrow> (case f a b of None \<Rightarrow> e | Some c \<Rightarrow> g c)) = e"
  | c where "(case x of None \<Rightarrow> e | Some (a, b) \<Rightarrow> (case f a b of None \<Rightarrow> e | Some c \<Rightarrow> g c)) = g c"
proof (cases x)
  case (Some ab)
  then show ?thesis using that by (cases ab, cases "f (fst ab) (snd ab)") auto
qed (use that in simp)

lemma configure_shape:
  obtains (refused) t where "after (alt_fpga_internal_configure dev d) h = h @ t" "writes t = []"
      "outcome (alt_fpga_internal_configure dev d) h
         \<in> {ALT_E_FPGA_NO_SOC_CTRL, ALT_E_FPGA_PWR_OFF, ALT_E_ERROR}"
  | (started) t c where
      "after (alt_fpga_internal_configure dev d) h = after (configure_reset dev d c) (h @ t)"
      "outcome (alt_fpga_internal_configure dev d) h = outcome (configure_reset dev d c) (h @ t)"
      "writes t = []"
proof -
  let ?h1 = "h @ [Rd ALT_FPGAMGR_CTL_ADDR (dev h ALT_FPGAMGR_CTL_ADDR)]"
  obtain t1 where t1: "after (alt_fpga_state_get dev) ?h1 = ?h1 @ t1" "writes t1 = []"
    using writes_only_state_get[of "{}" dev] unfolding writes_only_def by fastforce
  let ?h2 = "?h1 @ t1"
  let ?ctl = "dev ?h2 ALT_FPGAMGR_CTL_ADDR"
  let ?h3 = "?h2 @ [Rd ALT_FPGAMGR_CTL_ADDR ?ctl]"
  let ?mode = "outcome (alt_fpga_cfg_mode_get dev) ?h3"
  let ?h4 = "?h3 @ [Rd ALT_FPGAMGR_STAT_ADDR (dev ?h3 ALT_FPGAMGR_STAT_ADDR)]"
  have h4: "after (alt_fpga_cfg_mode_get dev) ?h3 = ?h4"
    by (simp add: alt_fpga_cfg_mode_get_def Let_def)
  have w: "writes (drop (length h) ?h4) = []" using t1 by simp
  consider "dev h ALT_FPGAMGR_CTL_ADDR AND ALT_FPGAMGR_CTL_EN_SET_MSK = 0"
    | "dev h ALT_FPGAMGR_CTL_ADDR AND ALT_FPGAMGR_CTL_EN_SET_MSK \<noteq> 0"
      "outcome (alt_fpga_state_get dev) ?h1 = ALT_FPGA_STATE_POWER_OFF"
    | "dev h ALT_FPGAMGR_CTL_ADDR AND ALT_FPGAMGR_CTL_EN_SET_MSK \<noteq> 0"
      "outcome (alt_fpga_state_get dev) ?h1 \<noteq> ALT_FPGA_STATE_POWER_OFF" by blast
  then show ?thesis
  proof cases
    case 1
    then show ?thesis
      by (intro refused[of "[Rd ALT_FPGAMGR_CTL_ADDR (dev h ALT_FPGAMGR_CTL_ADDR)]"])
         (simp_all add: alt_fpga_internal_configure_def alt_fpga_control_is_enabled_def)
  next
    case 2
    then show ?thesis
      by (intro refused[of "Rd ALT_FPGAMGR_CTL_ADDR (dev h ALT_FPGAMGR_CTL_ADDR) # t1"])
         (simp_all add: alt_fpga_internal_configure_def alt_fpga_control_is_enabled_def t1)
  next
    case 3
    let ?rest = "case cfg_width_ratio ?mode of
        None \<Rightarrow> State_Monad.return ALT_E_ERROR
      | Some (cfgwidth, cdratio) \<Rightarrow>
          (case ctrl_for_mode cfgwidth cdratio ?ctl of
             None \<Rightarrow> State_Monad.return ALT_E_ERROR
           | Some c \<Rightarrow> configure_reset dev d c)"
    have run: "after (alt_fpga_internal_configure dev d) h = after ?rest ?h4"
        "outcome (alt_fpga_internal_configure dev d) h = outcome ?rest ?h4"
      using 3 t1 h4
      by (simp_all add: alt_fpga_internal_configure_def alt_fpga_control_is_enabled_def
          cong: option.case_cong prod.case_cong)
    show ?thesis
    proof (rule two_choices[where x = "cfg_width_ratio ?mode" and f = "\<lambda>w r. ctrl_for_mode w r ?ctl"
          and e = "State_Monad.return ALT_E_ERROR" and g = "configure_reset dev d"])
      assume "?rest = State_Monad.return ALT_E_ERROR"
      with run w show ?thesis by (intro refused[of "drop (length h) ?h4"]) simp_all
    next
      fix c
      assume "?rest = configure_reset dev d c"
      with run w show ?thesis by (intro started[of c "drop (length h) ?h4"]) simp_all
    qed
  qed
qed

lemma reset_success:
  assumes "outcome (configure_reset dev d c) h = ALT_E_SUCCESS"
  shows "\<exists>h' c'. outcome (configure_data dev d c') h' = ALT_E_SUCCESS \<and>
    after (configure_reset dev d c) h = after (configure_data dev d c') h' \<and>
    writes_to ALT_FPGAMGRDATA_ADDR h' = writes_to ALT_FPGAMGRDATA_ADDR h"
  using assms
  by (simp add: configure_reset_def Let_def split: if_splits)
     (intro exI, erule conjI, simp add: data_wait)

lemma writes_nil_to: "writes t = [] \<Longrightarrow> writes_to a t = []"
  by (simp add: writes_to_def)

lemma configure_success_lemma:
  assumes s: "outcome (alt_fpga_internal_configure dev d) h = ALT_E_SUCCESS"
    and d: "d = FPGA_DATA_FULL buf len"
  shows "len \<le> 32 * 1024 * 1024 \<and>
    writes_to ALT_FPGAMGRDATA_ADDR (after (alt_fpga_internal_configure dev d) h) =
      writes_to ALT_FPGAMGRDATA_ADDR h @ axi_words buf (unat len) \<and>
    (\<exists>t m v. after (alt_fpga_internal_configure dev d) h =
           t @ [Rd ALT_FPGAMGR_MON_GPIO_EXT_PORTA_ADDR m, Rd ALT_FPGAMGR_STAT_ADDR v] \<and>
         m AND ALT_FPGA_MON_FPGA_POWER_ON \<noteq> 0 \<and>
         ALT_FPGAMGR_STAT_MOD_GET v = ALT_FPGA_STATE_USER_MODE)"
proof (rule configure_shape[of dev d h])
  fix t c
  assume a: "after (alt_fpga_internal_configure dev d) h = after (configure_reset dev d c) (h @ t)"
    and o: "outcome (alt_fpga_internal_configure dev d) h = outcome (configure_reset dev d c) (h @ t)"
    and w: "writes t = []"
  from reset_success[of dev d c "h @ t"] s o obtain h' c' where
      "outcome (configure_data dev d c') h' = ALT_E_SUCCESS"
      "after (configure_reset dev d c) (h @ t) = after (configure_data dev d c') h'"
      "writes_to ALT_FPGAMGRDATA_ADDR h' = writes_to ALT_FPGAMGRDATA_ADDR h"
    by (auto simp: writes_nil_to[OF w])
  with data_phase_success[OF d this(1)] show ?thesis unfolding a by simp
qed (use s in simp)

section \<open>The stream interface\<close>

fun replies :: "'s istream \<Rightarrow> 's \<Rightarrow> nat \<Rightarrow> (u32 \<times> mem) list \<times> 's" where
  "replies stream udata 0 = ([], udata)"
| "replies stream udata (Suc n) =
     (case stream ISTREAM_CHUNK_SIZE udata of (r, udata') \<Rightarrow>
        (case replies stream udata' n of (rs, udata'') \<Rightarrow> (r # rs, udata'')))"

definition chunk_words :: "(u32 \<times> mem) list \<Rightarrow> u32 list" where
  "chunk_words cs = concat (map (\<lambda>(cb, buffer). axi_words buffer (unat cb)) cs)"

lemma small_sint: "cb \<le> ISTREAM_CHUNK_SIZE \<Longrightarrow> sint cb = uint cb"
proof -
  assume "cb \<le> ISTREAM_CHUNK_SIZE"
  then have "uint cb \<le> 512" by (simp add: word_le_def)
  then have "uint cb < 2 ^ 31" by simp
  moreover have "- (2 ^ 31) \<le> uint cb" by (rule order_trans[OF _ uint_ge_0]) simp
  ultimately show ?thesis using signed_take_bit_int_eq_self[of 31 "uint cb"] by (simp add: sint_uint)
qed

text \<open>
  \<open>stream_result stream udata limit cs status\<close>: the callback's first replies are the chunks
  \<open>cs\<close>, each of 1 to 512 bytes and together within \<open>limit\<close>, and its next reply ends the
  stream with \<open>status\<close>: end of data, or a bad or excessive count.
\<close>

definition stream_result ::
  "'s istream \<Rightarrow> 's \<Rightarrow> nat \<Rightarrow> (u32 \<times> mem) list \<Rightarrow> status \<Rightarrow> bool" where
  "stream_result stream udata limit cs status \<longleftrightarrow>
     (case replies stream udata (length cs) of (rs, udata') \<Rightarrow>
        rs = cs \<and>
        (\<forall>c \<in> set cs. 0 < fst c \<and> fst c \<le> ISTREAM_CHUNK_SIZE) \<and>
        sum_list (map (unat \<circ> fst) cs) \<le> limit \<and>
        (let cb = fst (fst (stream ISTREAM_CHUNK_SIZE udata')) in
           (cb = 0 \<and> status = ALT_E_SUCCESS) \<or>
           (cb \<noteq> 0 \<and> status = ALT_E_FPGA_CFG_STM \<and>
              (ISTREAM_CHUNK_SIZE < cb \<or> limit < sum_list (map (unat \<circ> fst) cs) + unat cb))))"

lemma stream_result_Nil:
  assumes "stream ISTREAM_CHUNK_SIZE udata = ((cb, buffer), udata')"
    and "cb = 0 \<and> status = ALT_E_SUCCESS \<or>
      cb \<noteq> 0 \<and> status = ALT_E_FPGA_CFG_STM \<and> (ISTREAM_CHUNK_SIZE < cb \<or> limit < unat cb)"
  shows "stream_result stream udata limit [] status"
  using assms by (auto simp: stream_result_def)

lemma stream_result_Cons:
  assumes "stream ISTREAM_CHUNK_SIZE udata = ((cb, buffer), udata')"
    and "stream_result stream udata' (limit - unat cb) cs status"
    and "cb \<noteq> 0" "cb \<le> ISTREAM_CHUNK_SIZE" "unat cb \<le> limit"
  shows "stream_result stream udata limit ((cb, buffer) # cs) status"
  using assms by (auto simp: stream_result_def Let_def word_neq_0_conv split: prod.splits)

lemma istream_run:
  "\<exists>cs. stream_result stream udata (unat limit) cs (outcome (istream_loop stream udata limit) h) \<and>
     after (istream_loop stream udata limit) h =
       h @ map (Wr ALT_FPGAMGRDATA_ADDR) (chunk_words cs)"
proof (induction stream udata limit arbitrary: h rule: istream_loop.induct)
  case (1 stream udata limit)
  obtain cb buffer udata' where s: "stream ISTREAM_CHUNK_SIZE udata = ((cb, buffer), udata')"
    by (metis prod.exhaust)
  have stop: ?case
    if "istream_loop stream udata limit = State_Monad.return st"
      and "cb = 0 \<and> st = ALT_E_SUCCESS \<or> cb \<noteq> 0 \<and> st = ALT_E_FPGA_CFG_STM \<and>
        (ISTREAM_CHUNK_SIZE < cb \<or> unat limit < unat cb)" for st
    using stream_result_Nil[of stream udata cb buffer udata' st "unat limit"] s that
    by (intro exI[of _ "[]"]) (simp add: chunk_words_def)
  consider (big) "ISTREAM_CHUNK_SIZE < cb" | (eos) "cb = 0"
    | (limit) "cb \<le> ISTREAM_CHUNK_SIZE" "cb \<noteq> 0" "limit < cb"
    | (chunk) "cb \<le> ISTREAM_CHUNK_SIZE" "cb \<noteq> 0" "cb \<le> limit" by fastforce
  then show ?case
  proof cases
    case big
    then show ?thesis by (intro stop, subst istream_loop.simps) (auto simp: s)
  next
    case eos
    then show ?thesis by (intro stop, subst istream_loop.simps) (auto simp: s)
  next
    case limit
    then show ?thesis using small_sint[OF limit(1)]
      by (intro stop[of ALT_E_FPGA_CFG_STM], subst istream_loop.simps)
         (auto simp: s word_less_nat_alt)
  next
    case chunk
    then have c: "\<not> sint cb < 0" "0 < sint cb" "\<not> ISTREAM_CHUNK_SIZE < cb" "\<not> limit < cb"
      using small_sint[of cb] sint_pos[of cb] by simp_all
    have lim: "unat (limit - cb) = unat limit - unat cb" "unat cb \<le> unat limit"
      using chunk(3) by (simp_all add: unat_sub word_le_nat_alt)
    let ?h1 = "h @ map (Wr ALT_FPGAMGRDATA_ADDR) (axi_words buffer (unat cb))"
    have eq: "istream_loop stream udata limit = State_Monad.bind (alt_fpga_internal_writeaxi buffer cb)
        (\<lambda>status. if status \<noteq> ALT_E_SUCCESS then State_Monad.return status
                  else istream_loop stream udata' (limit - cb))"
      using c chunk(2) by (subst istream_loop.simps) (simp add: s cong: if_cong)
    obtain cs where "stream_result stream udata' (unat (limit - cb)) cs
          (outcome (istream_loop stream udata' (limit - cb)) ?h1)"
        "after (istream_loop stream udata' (limit - cb)) ?h1 =
           ?h1 @ map (Wr ALT_FPGAMGRDATA_ADDR) (chunk_words cs)"
      using "1.IH"[OF s[symmetric] refl c(3,1) chunk(2) c(4) _ c(2)] by blast
    then show ?thesis
      using stream_result_Cons[of stream udata cb buffer udata' "unat limit" cs] s lim chunk
      by (intro exI[of _ "(cb, buffer) # cs"]) (simp add: eq writeaxi_run chunk_words_def)
  qed
qed


section \<open>Statuses\<close>

lemma idata_outcome:
  "outcome (alt_fpga_internal_configure_idata dev d) h
     \<in> {ALT_E_SUCCESS, ALT_E_FPGA_CFG, ALT_E_FPGA_CRC, ALT_E_FPGA_CFG_STM}"
proof (cases d)
  case (FPGA_DATA_ISTREAM stream udata)
  obtain cs where "stream_result stream udata (unat (32 * 1024 * 1024 :: u32)) cs
      (outcome (istream_loop stream udata (32 * 1024 * 1024)) h)"
    using istream_run[of stream udata "32 * 1024 * 1024" h] by blast
  then have "outcome (istream_loop stream udata (32 * 1024 * 1024)) h
      \<in> {ALT_E_SUCCESS, ALT_E_FPGA_CFG_STM}"
    by (auto simp: stream_result_def Let_def split: prod.splits)
  then show ?thesis
    using FPGA_DATA_ISTREAM by (auto simp: alt_fpga_internal_configure_idata_def Let_def)
qed (auto simp: alt_fpga_internal_configure_idata_def Let_def writeaxi_run)

lemma reset_outcome:
  "outcome (configure_reset dev d c) h
     \<in> {ALT_E_SUCCESS, ALT_E_FPGA_CFG, ALT_E_FPGA_CRC, ALT_E_FPGA_CFG_STM}"
proof -
  have f: "outcome (configure_finish dev ds) h' \<in> {ds, ALT_E_FPGA_CFG}" for ds h'
    by (auto simp: configure_finish_def)
  have "outcome (configure_data dev d c') h'
      \<in> {ALT_E_SUCCESS, ALT_E_FPGA_CFG, ALT_E_FPGA_CRC, ALT_E_FPGA_CFG_STM}" for c' h'
    using idata_outcome[of dev d "h' @ [Wr ALT_FPGAMGR_MON_GPIO_PORTA_EOI_ADDR ALT_MON_GPIO_PORTA_EOI_NS_E_CLR,
        Wr ALT_FPGAMGR_CTL_ADDR (c' OR ALT_FPGAMGR_CTL_AXICFGEN_SET_MSK)]"] f
    by (simp add: configure_data_def Let_def) (metis insertE singletonD insertI1 insertI2)
  then show ?thesis by (simp add: configure_reset_def Let_def)
qed

lemma config_done_cases:
  "\<exists>h' m. after (wait_for_config_done dev n) h = h' @ [Rd ALT_FPGAMGR_MON_GPIO_EXT_PORTA_ADDR m] \<and>
     (case outcome (wait_for_config_done dev n) h of
        ALT_E_FPGA_CRC \<Rightarrow> m AND ALT_FPGA_MON_CRC_ERROR \<noteq> 0
      | ALT_E_SUCCESS \<Rightarrow> m AND ALT_FPGA_MON_CRC_ERROR = 0 \<and> m AND ALT_FPGA_MON_CONF_DONE \<noteq> 0 \<and>
          m AND ALT_FPGA_MON_nSTATUS \<noteq> 0
      | ALT_E_FPGA_CFG \<Rightarrow> m AND ALT_FPGA_MON_CRC_ERROR = 0 \<and> m AND ALT_FPGA_MON_CONF_DONE = 0 \<and>
          m AND ALT_FPGA_MON_nSTATUS = 0
      | ALT_E_TMO \<Rightarrow> m AND ALT_FPGA_MON_CRC_ERROR = 0 \<and>
          (m AND ALT_FPGA_MON_CONF_DONE = 0) \<noteq> (m AND ALT_FPGA_MON_nSTATUS = 0)
      | _ \<Rightarrow> False)"
proof (rule poll_cases[where body = "config_done_body dev" and tmo = ALT_E_TMO and n = "unat n" and h = h])
  fix k x
  let ?h = "nth_pass (config_done_body dev) k h"
  assume "outcome (config_done_body dev) ?h = Some x"
    "outcome (poll (config_done_body dev) ALT_E_TMO (unat n)) h = x"
    "after (poll (config_done_body dev) ALT_E_TMO (unat n)) h = after (config_done_body dev) ?h"
  then show ?thesis
    by (intro exI[of _ ?h] exI[of _ "dev ?h ALT_FPGAMGR_MON_GPIO_EXT_PORTA_ADDR"])
       (auto simp: wait_for_config_done_def config_done_body_def alt_fpga_mon_status_get_def
          Let_def and.assoc split: if_splits)
next
  let ?h = "nth_pass (config_done_body dev) (unat n) h"
  assume "\<And>j. j \<le> unat n \<Longrightarrow>
      outcome (config_done_body dev) (nth_pass (config_done_body dev) j h) = None"
    and a: "outcome (poll (config_done_body dev) ALT_E_TMO (unat n)) h = ALT_E_TMO"
      "after (poll (config_done_body dev) ALT_E_TMO (unat n)) h =
         nth_pass (config_done_body dev) (Suc (unat n)) h"
  then have "outcome (config_done_body dev) ?h = None" by simp
  with a show ?thesis
    by (intro exI[of _ ?h] exI[of _ "dev ?h ALT_FPGAMGR_MON_GPIO_EXT_PORTA_ADDR"])
       (auto simp: wait_for_config_done_def nth_pass_Suc config_done_body_def
          alt_fpga_mon_status_get_def Let_def and.assoc simp del: nth_pass.simps split: if_splits)
qed

section \<open>Properties of the configuration sequence\<close>

lemma poll_first:
  assumes "outcome body h = Some x"
  shows "outcome (poll body tmo n) h = x" and "after (poll body tmo n) h = after body h"
  using poll_decided[of 0 n body h x tmo] assms by simp_all

text \<open>
  A device for the witnesses: controllable and powered, passive parallel x16, whose state
  follows the number of control writes so far (reset asserted, then released, ...).
\<close>

definition demo_device :: device where
  "demo_device h a =
     (if a = ALT_FPGAMGR_CTL_ADDR then 1
      else if a = ALT_FPGAMGR_MON_GPIO_EXT_PORTA_ADDR then 0x803
      else if a = ALT_FPGAMGR_DCLKSTAT_ADDR then 1
      else if a = ALT_FPGAMGR_STAT_ADDR
           then (let n = length (ctl_writes h) in
                 if n = 2 then 1 else if n = 3 then 2 else if n = 5 then 4 else 0)
      else 0)"

definition demo_image :: mem where
  "demo_image p = (if p < 5 then of_nat (p + 1) else 0)"

lemma demo_regs [simp]:
  "demo_device h ALT_FPGAMGR_CTL_ADDR = 1"
  "demo_device h ALT_FPGAMGR_MON_GPIO_EXT_PORTA_ADDR = 0x803"
  "demo_device h ALT_FPGAMGR_DCLKSTAT_ADDR = 1"
  by (simp_all add: demo_device_def fpga_addrs)

lemma demo_stat:
  "demo_device h ALT_FPGAMGR_STAT_ADDR = (let n = length (ctl_writes h) in
     if n = 2 then 1 else if n = 3 then 2 else if n = 5 then 4 else 0)"
  by (simp add: demo_device_def fpga_addrs)

lemma demo_state:
  "outcome (alt_fpga_state_get demo_device) h = ALT_FPGAMGR_STAT_MOD_GET (demo_device h ALT_FPGAMGR_STAT_ADDR)"
  "ctl_writes (after (alt_fpga_state_get demo_device) h) = ctl_writes h"
  by (simp_all add: alt_fpga_state_get_def alt_fpga_mon_status_get_def demo_stat)

lemma demo_wait:
  assumes "ALT_FPGAMGR_STAT_MOD_GET (demo_device h ALT_FPGAMGR_STAT_ADDR) = st"
  shows "outcome (wait_for_fpga_state demo_device st n) h = ALT_E_SUCCESS"
  unfolding wait_state_alt using assms
  by (intro poll_first(1)) (simp add: state_body_def demo_state demo_stat Let_def)

lemma demo_config_done: "outcome (wait_for_config_done demo_device n) h = ALT_E_SUCCESS"
  unfolding wait_for_config_done_def
  by (intro poll_first(1)) (simp add: config_done_body_def alt_fpga_mon_status_get_def Let_def)

lemma demo_dclk: "outcome (dclk_set_and_wait_clear demo_device c n) h = ALT_E_SUCCESS"
proof -
  have "outcome (poll (dclk_body demo_device) ALT_E_TMO (unat n)) h' = ALT_E_SUCCESS" for h'
    by (intro poll_first(1)) (simp add: dclk_body_def)
  then show ?thesis by (simp add: dclk_set_and_wait_clear_def)
qed

lemma ctl_dclk: "ctl_writes (after (dclk_set_and_wait_clear dev c n) h) = ctl_writes h"
  by (rule writes_to_only[OF writes_only_dclk]) simp

lemma demo_finish:
  assumes "length (ctl_writes h) = 5"
  shows "outcome (configure_finish demo_device ALT_E_SUCCESS) h = ALT_E_SUCCESS"
  using assms
  by (simp add: configure_finish_def demo_dclk demo_wait ctl_dclk demo_stat ALT_FPGAMGR_STAT_MOD_GET_def)

lemma demo_data:
  assumes "length (ctl_writes h) = 3"
  shows "outcome (configure_data demo_device (FPGA_DATA_FULL demo_image 5 :: unit fpga_data) c) h = ALT_E_SUCCESS"
proof -
  have "outcome (alt_fpga_internal_configure_idata demo_device (FPGA_DATA_FULL demo_image 5 :: unit fpga_data)) h' =
      ALT_E_SUCCESS" for h'
    by (simp add: alt_fpga_internal_configure_idata_def writeaxi_run demo_config_done)
  then show ?thesis
    using assms by (simp add: configure_data_def Let_def demo_finish ctl_idata)
qed

lemma demo_reset:
  assumes "ctl_writes h = []"
  shows "outcome (configure_reset demo_device (FPGA_DATA_FULL demo_image 5 :: unit fpga_data) c) h = ALT_E_SUCCESS"
  using assms
  by (simp add: configure_reset_def Let_def demo_wait demo_stat ALT_FPGAMGR_STAT_MOD_GET_def
      ctl_wait demo_data)

lemma demo_configure:
  "outcome (alt_fpga_internal_configure demo_device (FPGA_DATA_FULL demo_image 5 :: unit fpga_data)) [] = ALT_E_SUCCESS"
  by (simp add: alt_fpga_internal_configure_def alt_fpga_control_is_enabled_def demo_state demo_stat
      ALT_FPGAMGR_STAT_MOD_GET_def alt_fpga_cfg_mode_get_def Let_def ALT_FPGAMGR_STAT_MSEL_GET_def
      cfg_width_ratio_def ctrl_for_mode_def ALT_FPGAMGR_CTL_CDRATIO_SET_def demo_reset)

text \<open>
  C1: a configuration that reports success had an image of at most 32 MiB and wrote to the data
  register \<open>(len + 3) div 4\<close> words, whose first \<open>len\<close> bytes are the complete words of the image, in order,
  followed by the first \<open>len mod 4\<close> bytes of the image again (the code reads the last bytes at
  the wrong place).  So what it wrote is the image exactly when the last \<open>len mod 4\<close> bytes of the
  image repeat its first, in particular when the length is a multiple of four.  Its last two
  register reads saw the FPGA powered and in user mode.
\<close>

theorem configure_success:
  assumes "outcome (alt_fpga_configure dev buf len) h = ALT_E_SUCCESS"
  shows "len \<le> 32 * 1024 * 1024 \<and>
    writes_to ALT_FPGAMGRDATA_ADDR (after (alt_fpga_configure dev buf len) h) =
      writes_to ALT_FPGAMGRDATA_ADDR h @ axi_words buf (unat len) \<and>
    length (axi_words buf (unat len)) = (unat len + 3) div 4 \<and>
    take (unat len) (concat (map bytes32 (axi_words buf (unat len)))) =
      bytes_at buf 0 (4 * (unat len div 4)) @ bytes_at buf 0 (unat len mod 4) \<and>
    (take (unat len) (concat (map bytes32 (axi_words buf (unat len)))) = bytes_at buf 0 (unat len) \<longleftrightarrow>
       bytes_at buf (4 * (unat len div 4)) (unat len mod 4) = bytes_at buf 0 (unat len mod 4)) \<and>
    (unat len mod 4 = 0 \<longrightarrow>
       concat (map bytes32 (axi_words buf (unat len))) = bytes_at buf 0 (unat len)) \<and>
    (\<exists>t m v. after (alt_fpga_configure dev buf len) h =
           t @ [Rd ALT_FPGAMGR_MON_GPIO_EXT_PORTA_ADDR m, Rd ALT_FPGAMGR_STAT_ADDR v] \<and>
         m AND ALT_FPGA_MON_FPGA_POWER_ON \<noteq> 0 \<and>
         ALT_FPGAMGR_STAT_MOD_GET v = ALT_FPGA_STATE_USER_MODE)"
proof -
  have "unat len mod 4 = 0 \<longrightarrow> concat (map bytes32 (axi_words buf (unat len))) = bytes_at buf 0 (unat len)"
    by (auto simp: axi_words_bytes elim: dvdE)
  then show ?thesis
    using configure_success_lemma[OF assms[unfolded alt_fpga_configure_def] refl]
      length_axi_words axi_words_image axi_words_whole
    unfolding alt_fpga_configure_def by blast
qed

text \<open>
  Five bytes, reported as a success: the device got 1, 2, 3, 4 and then the first byte again.
\<close>

theorem configure_success_witness:
  "writes_to ALT_FPGAMGRDATA_ADDR (after (alt_fpga_configure demo_device demo_image 5) []) =
     axi_words demo_image 5 \<and>
   take 5 (concat (map bytes32 (axi_words demo_image 5))) = [1, 2, 3, 4, 1] \<and>
   bytes_at demo_image 0 5 = [1, 2, 3, 4, 5]"
proof -
  have "bytes_at demo_image 0 4 @ bytes_at demo_image 0 1 = [1, 2, 3, 4, 1]"
    "bytes_at demo_image 0 5 = [1, 2, 3, 4, 5]"
    by (simp_all add: bytes_at_def demo_image_def upt_rec numeral_3_eq_3)
  then show ?thesis
    using configure_success[of demo_device demo_image 5 "[]"] demo_configure
    by (simp add: alt_fpga_configure_def)
qed

text \<open>
  C2: whatever the hardware answers and wherever the image comes from, every word written
  to the AXI data register is written after a control write that opened the data slave
  (AXICFGEN set, reset released) and before any control write that closes it.
\<close>

theorem configure_data_gated:
  "\<exists>t. after (alt_fpga_internal_configure dev fpga_data) h = h @ t \<and> data_gated False t"
  using gated_configure[of False dev fpga_data] unfolding gated_def by blast

text \<open>
  C27: a configuration attempt leaves the hardware untouched exactly when it answers that
  the processor has no control, that the FPGA is off, or that the MSEL mode is unsupported.
\<close>

theorem configure_refused_iff:
  "writes (after (alt_fpga_internal_configure dev fpga_data) h) = writes h \<longleftrightarrow>
   outcome (alt_fpga_internal_configure dev fpga_data) h
     \<in> {ALT_E_FPGA_NO_SOC_CTRL, ALT_E_FPGA_PWR_OFF, ALT_E_ERROR}"
proof (rule configure_shape[of dev fpga_data h])
  fix t c
  assume a: "after (alt_fpga_internal_configure dev fpga_data) h = after (configure_reset dev fpga_data c) (h @ t)"
    and o: "outcome (alt_fpga_internal_configure dev fpga_data) h = outcome (configure_reset dev fpga_data c) (h @ t)"
    and w: "writes t = []"
  have "ctl_writes (after (configure_reset dev fpga_data c) (h @ t)) \<noteq> ctl_writes h"
    using ctl_reset[of dev fpga_data c "h @ t"] writes_nil_to[OF w, of ALT_FPGAMGR_CTL_ADDR] 
    by (auto simp: Let_def)
  then have "writes (after (configure_reset dev fpga_data c) (h @ t)) \<noteq> writes h"
    by (auto simp: writes_to_def)
  then show ?thesis using reset_outcome[of dev fpga_data c "h @ t"] unfolding a o by auto
qed simp

text \<open>
  The control words of one configuration, in order: none, or the word \<open>c\<close> chosen for the
  mode, reset asserted, reset released, and, if the device reached its configuration phase,
  the data slave opened and closed again.
\<close>

definition ctl_protocol :: "u32 list \<Rightarrow> bool" where
  "ctl_protocol ws \<longleftrightarrow> ws = [] \<or>
     (let c = hd ws; asserted = c OR ALT_FPGAMGR_CTL_NCFGPULL_SET_MSK;
          released = asserted AND ALT_FPGAMGR_CTL_NCFGPULL_CLR_MSK;
          opened = released OR ALT_FPGAMGR_CTL_AXICFGEN_SET_MSK;
          closed = opened AND ALT_FPGAMGR_CTL_AXICFGEN_CLR_MSK
      in ws = [c, asserted, released] \<or> ws = [c, asserted, released, opened, closed])"

lemma configure_ctl:
  "\<exists>ws. ctl_writes (after (alt_fpga_internal_configure dev d) h) = ctl_writes h @ ws \<and> ctl_protocol ws"
proof (rule configure_shape[of dev d h])
  fix t c
  assume a: "after (alt_fpga_internal_configure dev d) h = after (configure_reset dev d c) (h @ t)"
    and w: "writes t = []"
  show ?thesis
    using ctl_reset[of dev d c "h @ t"] writes_nil_to[OF w, of ALT_FPGAMGR_CTL_ADDR]
    unfolding a by (auto simp: ctl_protocol_def Let_def)
qed (auto simp: ctl_protocol_def writes_nil_to)

lemma configure_extends: "extends (alt_fpga_internal_configure dev d)"
  using gated_configure[of False dev d] unfolding gated_def extends_def by blast

text \<open>
  \<open>writeFPGAconfig\<close> takes control first, gives it back last, whatever happens in between;
  between the two the control writes follow the reset and data-slave protocol; and it
  answers true exactly when the configuration itself reported success.
\<close>

theorem writeFPGAconfig_control:
  "\<exists>v ws v'. ctl_writes (after (writeFPGAconfig dev buf fsize) h) =
      ctl_writes h @ (v OR ALT_FPGAMGR_CTL_EN_SET_MSK) # ws @ [v' AND NOT ALT_FPGAMGR_CTL_EN_SET_MSK] \<and>
    ctl_protocol ws \<and>
    (outcome (writeFPGAconfig dev buf fsize) h \<longleftrightarrow>
       outcome (alt_fpga_configure dev buf fsize)
         (after (alt_fpga_state_get dev) (after (alt_fpga_control_enable dev) h)) = ALT_E_SUCCESS)"
proof -
  let ?d = "FPGA_DATA_FULL buf fsize :: unit fpga_data"
  let ?h1 = "after (alt_fpga_state_get dev) (after (alt_fpga_control_enable dev) h)"
  obtain ws where ws: "ctl_writes (after (alt_fpga_internal_configure dev ?d) ?h1) = ctl_writes ?h1 @ ws"
      "ctl_protocol ws"
    using configure_ctl by blast
  have "ctl_writes (after (alt_fpga_state_get dev) h') = ctl_writes h'" for h'
    by (rule writes_to_only[of "{}"]) auto
  then have h1: "ctl_writes ?h1 = ctl_writes h @ [dev h ALT_FPGAMGR_CTL_ADDR OR ALT_FPGAMGR_CTL_EN_SET_MSK]"
    by (simp add: alt_fpga_control_enable_def)
  show ?thesis
    using ws h1
    by (auto simp: writeFPGAconfig_def alt_fpga_init_def alt_fpga_control_disable_def
        alt_fpga_configure_def alt_fpga_control_enable_def)
qed

text \<open>
  C28: a PIO transfer sends \<open>(len + 3) div 4\<close> words and reports success; the bytes it sent are
  those of the buffer exactly when the last incomplete word of the buffer repeats the
  buffer's first bytes (always so when the length is a multiple of four): the tail is read
  from the start of the buffer, not from where the complete words ended.
\<close>

theorem writeaxi_delivers_iff:
  "outcome (alt_fpga_internal_writeaxi cfg_buf cfg_buf_len) h = ALT_E_SUCCESS \<and>
   (\<exists>ws. after (alt_fpga_internal_writeaxi cfg_buf cfg_buf_len) h =
           h @ map (Wr ALT_FPGAMGRDATA_ADDR) ws \<and>
         length ws = (unat cfg_buf_len + 3) div 4 \<and>
         (take (unat cfg_buf_len) (concat (map bytes32 ws)) = bytes_at cfg_buf 0 (unat cfg_buf_len)
          \<longleftrightarrow> bytes_at cfg_buf (4 * (unat cfg_buf_len div 4)) (unat cfg_buf_len mod 4) =
              bytes_at cfg_buf 0 (unat cfg_buf_len mod 4)))"
  using writeaxi_run[of cfg_buf cfg_buf_len h]
    length_axi_words[of cfg_buf "unat cfg_buf_len"]
    axi_words_whole[of "unat cfg_buf_len" cfg_buf]
  by blast

text \<open>
  The five bytes 1, 2, 3, 4, 5 reach the device as 1, 2, 3, 4 and then 1, 0, 0, 0.
\<close>

lemma writeaxi_tail_example:
  "concat (map bytes32 (writes_to ALT_FPGAMGRDATA_ADDR
     (after (alt_fpga_internal_writeaxi demo_image 5) []))) = [1, 2, 3, 4, 1, 0, 0, 0] \<and>
   bytes_at demo_image 0 5 = [1, 2, 3, 4, 5]"
  by (simp add: writeaxi_run axi_words_bytes) (simp add: bytes_at_def demo_image_def upt_rec numeral_3_eq_3)

text \<open>
  The stream loop returns for every callback; it has sent the words of exactly the
  chunks that came before the reply that ended it, these chunks are of 1 to 512 bytes and
  together within the limit, and its status is success at the end of the data and
  \<open>ALT_E_FPGA_CFG_STM\<close> on an error count or on one over the chunk or the image limit.
\<close>

theorem istream_delivers:
  "\<exists>cs. stream_result stream udata (unat data_limit) cs
          (outcome (istream_loop stream udata data_limit) h) \<and>
     after (istream_loop stream udata data_limit) h =
       h @ map (Wr ALT_FPGAMGRDATA_ADDR) (chunk_words cs)"
  by (rule istream_run)

text \<open>
  \<open>wait_for_fpga_state\<close> succeeds exactly when one of its first \<open>timeout + 1\<close> samples of
  the state is the one waited for, and times out otherwise.
\<close>

theorem wait_for_fpga_state_iff:
  "outcome (wait_for_fpga_state dev state timeout) h =
     (if \<exists>k \<le> unat timeout.
           outcome (alt_fpga_state_get dev) (((\<lambda>h. after (alt_fpga_state_get dev) h) ^^ k) h) = state
      then ALT_E_SUCCESS else ALT_E_TMO)"
proof -
  have np: "nth_pass (state_body dev state) k h = ((\<lambda>h. after (alt_fpga_state_get dev) h) ^^ k) h" for k
    by (induction k) (simp_all add: nth_pass_Suc state_body_def del: nth_pass.simps(2))
  have o: "outcome (state_body dev state) h' =
      (if outcome (alt_fpga_state_get dev) h' = state then Some ALT_E_SUCCESS else None)" for h'
    by (simp add: state_body_def)
  show ?thesis
    unfolding wait_state_alt
    by (rule poll_cases[where body = "state_body dev state" and tmo = ALT_E_TMO and n = "unat timeout" and h = h])
       (force simp: o np split: if_splits)+
qed

text \<open>
  The verdict of \<open>wait_for_config_done\<close> is that of the last monitor word it read: a
  CRC error wins, CONF_DONE and nSTATUS both set is success, both clear is a configuration
  error, and a timeout means that they still disagreed.
\<close>

theorem wait_for_config_done_verdict:
  "\<exists>h' m. after (wait_for_config_done dev timeout) h =
       h' @ [Rd ALT_FPGAMGR_MON_GPIO_EXT_PORTA_ADDR m] \<and>
     (case outcome (wait_for_config_done dev timeout) h of
        ALT_E_FPGA_CRC \<Rightarrow> m AND ALT_FPGA_MON_CRC_ERROR \<noteq> 0
      | ALT_E_SUCCESS \<Rightarrow> m AND ALT_FPGA_MON_CRC_ERROR = 0 \<and> m AND ALT_FPGA_MON_CONF_DONE \<noteq> 0 \<and>
          m AND ALT_FPGA_MON_nSTATUS \<noteq> 0
      | ALT_E_FPGA_CFG \<Rightarrow> m AND ALT_FPGA_MON_CRC_ERROR = 0 \<and> m AND ALT_FPGA_MON_CONF_DONE = 0 \<and>
          m AND ALT_FPGA_MON_nSTATUS = 0
      | ALT_E_TMO \<Rightarrow> m AND ALT_FPGA_MON_CRC_ERROR = 0 \<and>
          (m AND ALT_FPGA_MON_CONF_DONE = 0) \<noteq> (m AND ALT_FPGA_MON_nSTATUS = 0)
      | _ \<Rightarrow> False)"
  by (rule config_done_cases)

text \<open>
  \<open>alt_fpga_gpo_write\<close> sets exactly the masked output bits to the value's bits with
  one write, keeps the others, and writes nothing for an empty mask.
\<close>

theorem gpo_write_bits:
  "ALT_E_SUCCESS = outcome (alt_fpga_gpo_write dev msk value) h \<and>
   (let old = dev h ALT_FPGAMGR_GPO_ADDR;
        ws = writes_to ALT_FPGAMGR_GPO_ADDR (done_by (alt_fpga_gpo_write dev msk value) h)
    in if msk = 0 then ws = []
       else \<exists>w. ws = [w] \<and> (\<forall>n. bit w n = (if bit msk n then bit value n else bit old n)))"
proof -
  have [simp]: "bit v n \<Longrightarrow> n < 32" for v :: u32 and n using bit_imp_le_length[of v n] by auto
  show ?thesis
    by (auto simp: alt_fpga_gpo_write_def Let_def done_by_def bit_simps)
qed

text \<open>
  for each of the twelve MSEL modes the control word gets the mode's clock ratio in
  CDRATIO, its data width in CFGWDTH and a cleared nCE, and keeps every other bit of the
  word read; every other mode is rejected.
\<close>

theorem ctrl_for_mode_fields:
  "case cfg_width_ratio mode of
     None \<Rightarrow> mode \<notin> {0, 1, 2, 4, 5, 6, 8, 9, 0xa, 0xc, 0xd, 0xe}
   | Some (cfgwidth, cdratio) \<Rightarrow>
       (case ctrl_for_mode cfgwidth cdratio ctrl_reg of
          None \<Rightarrow> False
        | Some c \<Rightarrow>
            cdratio = 2 ^ (of_bool (bit c 6) + 2 * of_bool (bit c 7)) \<and>
            (bit c 9 \<longleftrightarrow> cfgwidth = 32) \<and> \<not> bit c 1 \<and>
            c AND 0xfffffd3d = ctrl_reg AND 0xfffffd3d)"
proof (cases "cfg_width_ratio mode")
  case None
  then show ?thesis by (auto simp: cfg_width_ratio_def split: if_splits)
next
  case (Some wr)
  then have "wr \<in> {16, 32} \<times> {1, 2, 4, 8}"
    by (auto simp: cfg_width_ratio_def split: if_splits)
  with Some show ?thesis
    by (auto simp: ctrl_for_mode_def Let_def ALT_FPGAMGR_CTL_CDRATIO_SET_def bit_simps
        word_ao_dist and.assoc)
qed

end
