(* ===== verification/Fpga_Registers.thy ===== *)
theory Fpga_Registers
  imports Fpgamgr_Regs Fpga_Manager
begin

text \<open>
  The FPGA manager driver on the register map: the constants of \<^theory_text>\<open>Fpga_Manager\<close> are those of the
  headers, the structs lie where the offsets say, and whatever is called in whatever order, the
  driver reads only registers of the manager, writes only writable ones, and stays in the two windows
  a Linux build maps.
\<close>

section \<open>The map\<close>

text \<open>The registers at their physical addresses.\<close>

definition manager_map :: "(nat \<times> register) list" where
  "manager_map =
     map (\<lambda>R. (reg_addr (rofst ALT_FPGAMGR) R, R)) manager_registers @
     map (\<lambda>R. (reg_addr (rofst ALT_FPGAMGR + rofst ALT_FPGAMGR_MON) R, R)) monitor_registers @
     [(reg_addr (rofst ALT_FPGAMGRDATA) ALT_FPGAMGRDATA_DATA, ALT_FPGAMGRDATA_DATA)]"

text \<open>The windows \<open>__VIRTUALMEM_SPACE_INIT\<close> maps from \<^verbatim>\<open>/dev/mem\<close>.\<close>

definition mapped_windows :: "(nat \<times> nat) list" where
  "mapped_windows = [(rofst ALT_FPGAMGRDATA, 0x04), (rofst ALT_FPGAMGR, 0x1000)]"

text \<open>A register with a field its struct does not declare \<open>const\<close>.\<close>

definition writable :: "register \<Rightarrow> bool" where
  "writable R \<longleftrightarrow> list_ex (\<lambda>b. fst b \<noteq> [] \<and> \<not> snd (snd b)) (bits R)"

lemma manager_map_eval:
  "manager_map = [
     (0xff706000, ALT_FPGAMGR_STAT), (0xff706004, ALT_FPGAMGR_CTL), (0xff706008, ALT_FPGAMGR_DCLKCNT),
     (0xff70600c, ALT_FPGAMGR_DCLKSTAT), (0xff706010, ALT_FPGAMGR_GPO), (0xff706014, ALT_FPGAMGR_GPI),
     (0xff706018, ALT_FPGAMGR_MISCI), (0xff706830, ALT_MON_GPIO_INTEN), (0xff706834, ALT_MON_GPIO_INTMSK),
     (0xff706838, ALT_MON_GPIO_INTTYPE_LEVEL), (0xff70683c, ALT_MON_GPIO_INT_POL),
     (0xff706840, ALT_MON_GPIO_INTSTAT), (0xff706844, ALT_MON_GPIO_RAW_INTSTAT),
     (0xff70684c, ALT_MON_GPIO_PORTA_EOI), (0xff706850, ALT_MON_GPIO_EXT_PORTA),
     (0xff706860, ALT_MON_GPIO_LS_SYNC), (0xff70686c, ALT_MON_GPIO_VER_ID_CODE),
     (0xff706870, ALT_MON_GPIO_CFG_REG2), (0xff706874, ALT_MON_GPIO_CFG_REG1),
     (0xffb90000, ALT_FPGAMGRDATA_DATA)]"
  by (simp add: manager_map_def manager_registers_def monitor_registers_def reg_addr_def
      ALT_FPGAMGR_def ALT_FPGAMGR_MON_def ALT_FPGAMGRDATA_def ALT_FPGAMGRDATA_DATA_def
      ALT_FPGAMGR_STAT_def ALT_FPGAMGR_CTL_def ALT_FPGAMGR_DCLKCNT_def ALT_FPGAMGR_DCLKSTAT_def
      ALT_FPGAMGR_GPO_def ALT_FPGAMGR_GPI_def ALT_FPGAMGR_MISCI_def ALT_MON_GPIO_INTEN_def
      ALT_MON_GPIO_INTMSK_def ALT_MON_GPIO_INTTYPE_LEVEL_def ALT_MON_GPIO_INT_POL_def
      ALT_MON_GPIO_INTSTAT_def ALT_MON_GPIO_RAW_INTSTAT_def ALT_MON_GPIO_PORTA_EOI_def
      ALT_MON_GPIO_EXT_PORTA_def ALT_MON_GPIO_LS_SYNC_def ALT_MON_GPIO_VER_ID_CODE_def
      ALT_MON_GPIO_CFG_REG2_def ALT_MON_GPIO_CFG_REG1_def)

section \<open>Calls\<close>

text \<open>The operations of the driver, and the configuration entry point that combines them.\<close>

datatype 's fpga_call =
    Control_Enable | Control_Disable | Control_Is_Enabled | State_Get | Mon_Status_Get
  | Reset_Assert | Reset_Deassert | Cfg_Mode_Get | Cfg_Mode_Set u32
  | Configure mem u32 | Istream_Configure "'s istream" 's | Write_Config mem u32
  | Gpi_Read u32 | Gpo_Write u32 u32 | Irq_Disable u32 | Irq_Enable u32
  | Irq_Type_Get u32 | Irq_Type_Set u32 u32 | Irq_Pol_Get u32 | Irq_Pol_Set u32 u32

definition ignoring :: "'a io \<Rightarrow> unit io" where
  "ignoring m = do { _ \<leftarrow> m; State_Monad.return () }"

fun perform :: "device \<Rightarrow> 's fpga_call \<Rightarrow> unit io" where
  "perform dev Control_Enable = ignoring (alt_fpga_control_enable dev)"
| "perform dev Control_Disable = ignoring (alt_fpga_control_disable dev)"
| "perform dev Control_Is_Enabled = ignoring (alt_fpga_control_is_enabled dev)"
| "perform dev State_Get = ignoring (alt_fpga_state_get dev)"
| "perform dev Mon_Status_Get = ignoring (alt_fpga_mon_status_get dev)"
| "perform dev Reset_Assert = ignoring (alt_fpga_reset_assert dev)"
| "perform dev Reset_Deassert = ignoring (alt_fpga_reset_deassert dev)"
| "perform dev Cfg_Mode_Get = ignoring (alt_fpga_cfg_mode_get dev)"
| "perform dev (Cfg_Mode_Set m) = ignoring (alt_fpga_cfg_mode_set m)"
| "perform dev (Configure b n) = ignoring (alt_fpga_configure dev b n)"
| "perform dev (Istream_Configure f s) = ignoring (alt_fpga_istream_configure dev f s)"
| "perform dev (Write_Config b n) = ignoring (writeFPGAconfig dev b n)"
| "perform dev (Gpi_Read m) = ignoring (alt_fpga_gpi_read dev m)"
| "perform dev (Gpo_Write m v) = ignoring (alt_fpga_gpo_write dev m v)"
| "perform dev (Irq_Disable m) = ignoring (alt_fpga_man_irq_disable dev m)"
| "perform dev (Irq_Enable m) = ignoring (alt_fpga_man_irq_enable dev m)"
| "perform dev (Irq_Type_Get m) = ignoring (alt_fpga_man_irq_type_get dev m)"
| "perform dev (Irq_Type_Set m v) = ignoring (alt_fpga_man_irq_type_set dev m v)"
| "perform dev (Irq_Pol_Get m) = ignoring (alt_fpga_man_irq_pol_get dev m)"
| "perform dev (Irq_Pol_Set m v) = ignoring (alt_fpga_man_irq_pol_set dev m v)"

fun perform_all :: "device \<Rightarrow> 's fpga_call list \<Rightarrow> unit io" where
  "perform_all dev [] = State_Monad.return ()"
| "perform_all dev (c # cs) = do { _ \<leftarrow> perform dev c; perform_all dev cs }"

section \<open>Accesses\<close>

fun access_ok :: "access \<Rightarrow> bool" where
  "access_ok (Rd a v) \<longleftrightarrow> list_ex (\<lambda>p. fst p = unat a) manager_map"
| "access_ok (Wr a v) \<longleftrightarrow> list_ex (\<lambda>p. fst p = unat a \<and> writable (snd p)) manager_map"

definition keeps_to_map :: "'a io \<Rightarrow> bool" where
  "keeps_to_map m \<longleftrightarrow> (\<forall>h. \<exists>t. after m h = h @ t \<and> list_all access_ok t)"

lemma keeps_extends: "keeps_to_map m \<Longrightarrow> extends m"
  unfolding keeps_to_map_def extends_def by blast

lemma keeps_done_by: "keeps_to_map m \<Longrightarrow> list_all access_ok (done_by m h)"
  unfolding keeps_to_map_def done_by_def by (metis append_eq_conv_conj)

lemma keeps_return [simp, intro]: "keeps_to_map (State_Monad.return x)"
  by (simp add: keeps_to_map_def)

lemma keeps_read: "access_ok (Rd a 0) \<Longrightarrow> keeps_to_map (alt_read_word dev a)"
  by (simp add: keeps_to_map_def)

lemma keeps_write: "access_ok (Wr a 0) \<Longrightarrow> keeps_to_map (alt_write_word a v)"
  by (simp add: keeps_to_map_def)

lemma keeps_setbits:
    "access_ok (Rd a 0) \<Longrightarrow> access_ok (Wr a 0) \<Longrightarrow> keeps_to_map (alt_setbits_word dev a v)"
  and keeps_clrbits:
    "access_ok (Rd a 0) \<Longrightarrow> access_ok (Wr a 0) \<Longrightarrow> keeps_to_map (alt_clrbits_word dev a v)"
  and keeps_replbits:
    "access_ok (Rd a 0) \<Longrightarrow> access_ok (Wr a 0) \<Longrightarrow> keeps_to_map (alt_replbits_word dev a v w)"
  by (simp_all add: keeps_to_map_def)

lemma keeps_bind [intro!]:
  assumes "keeps_to_map m" and "\<And>x. keeps_to_map (f x)"
  shows "keeps_to_map (State_Monad.bind m f)"
  unfolding keeps_to_map_def
proof
  fix h
  obtain t where "after m h = h @ t" "list_all access_ok t" using assms(1) unfolding keeps_to_map_def by blast
  moreover obtain u where "after (f (outcome m h)) (after m h) = after m h @ u" "list_all access_ok u"
    using assms(2) unfolding keeps_to_map_def by blast
  ultimately show "\<exists>t. after (State_Monad.bind m f) h = h @ t \<and> list_all access_ok t"
    by (intro exI[of _ "t @ u"]) auto
qed

lemma keeps_if [intro!]: "keeps_to_map m \<Longrightarrow> keeps_to_map m' \<Longrightarrow> keeps_to_map (if b then m else m')"
  by simp

lemma keeps_poll [intro!]: "keeps_to_map body \<Longrightarrow> keeps_to_map (poll body tmo n)"
  by (induction n) (auto split: option.split)

text \<open>The registers the driver uses.\<close>

lemma read_ok [simp]:
  "access_ok (Rd ALT_FPGAMGR_STAT_ADDR v)" "access_ok (Rd ALT_FPGAMGR_CTL_ADDR v)"
  "access_ok (Rd ALT_FPGAMGR_DCLKSTAT_ADDR v)" "access_ok (Rd ALT_FPGAMGR_GPO_ADDR v)"
  "access_ok (Rd ALT_FPGAMGR_GPI_ADDR v)" "access_ok (Rd ALT_FPGAMGR_MON_GPIO_INTEN_ADDR v)"
  "access_ok (Rd ALT_FPGAMGR_MON_GPIO_INTTYPE_LEVEL_ADDR v)"
  "access_ok (Rd ALT_FPGAMGR_MON_GPIO_INT_POL_ADDR v)"
  "access_ok (Rd ALT_FPGAMGR_MON_GPIO_EXT_PORTA_ADDR v)"
  by (simp_all add: manager_map_eval fpga_addrs)

lemma write_ok [simp]:
  "access_ok (Wr ALT_FPGAMGR_CTL_ADDR v)" "access_ok (Wr ALT_FPGAMGR_DCLKCNT_ADDR v)"
  "access_ok (Wr ALT_FPGAMGR_DCLKSTAT_ADDR v)" "access_ok (Wr ALT_FPGAMGR_GPO_ADDR v)"
  "access_ok (Wr ALT_FPGAMGR_MON_GPIO_INTEN_ADDR v)"
  "access_ok (Wr ALT_FPGAMGR_MON_GPIO_INTTYPE_LEVEL_ADDR v)"
  "access_ok (Wr ALT_FPGAMGR_MON_GPIO_INT_POL_ADDR v)"
  "access_ok (Wr ALT_FPGAMGR_MON_GPIO_PORTA_EOI_ADDR v)" "access_ok (Wr ALT_FPGAMGRDATA_ADDR v)"
  by (simp_all add: manager_map_eval fpga_addrs writable_def ALT_FPGAMGR_CTL_def ALT_FPGAMGR_DCLKCNT_def
      ALT_FPGAMGR_DCLKSTAT_def ALT_FPGAMGR_GPO_def ALT_MON_GPIO_INTEN_def ALT_MON_GPIO_INTTYPE_LEVEL_def
      ALT_MON_GPIO_INT_POL_def ALT_MON_GPIO_PORTA_EOI_def ALT_FPGAMGRDATA_DATA_def)

lemmas keeps_access = keeps_read keeps_write keeps_setbits keeps_clrbits keeps_replbits

declare access_ok.simps [simp del]

section \<open>The driver keeps to the map\<close>

lemma keeps_mon_get [simp, intro!]: "keeps_to_map (alt_fpga_mon_status_get dev)"
  by (auto simp: alt_fpga_mon_status_get_def intro!: keeps_access)

lemma keeps_state_get [simp, intro!]: "keeps_to_map (alt_fpga_state_get dev)"
  by (auto simp: alt_fpga_state_get_def intro!: keeps_access)

lemma keeps_is_enabled [simp, intro!]: "keeps_to_map (alt_fpga_control_is_enabled dev)"
  by (auto simp: alt_fpga_control_is_enabled_def intro!: keeps_access)

lemma keeps_control [simp, intro!]:
  "keeps_to_map (alt_fpga_control_enable dev)" "keeps_to_map (alt_fpga_control_disable dev)"
  by (auto simp: alt_fpga_control_enable_def alt_fpga_control_disable_def intro!: keeps_access)

lemma keeps_reset [simp, intro!]:
  "keeps_to_map (alt_fpga_reset_assert dev)" "keeps_to_map (alt_fpga_reset_deassert dev)"
  by (auto simp: alt_fpga_reset_assert_def alt_fpga_reset_deassert_def intro!: keeps_access)

lemma keeps_mode [simp, intro!]: "keeps_to_map (alt_fpga_cfg_mode_get dev)" "keeps_to_map (alt_fpga_cfg_mode_set m)"
  by (auto simp: alt_fpga_cfg_mode_get_def alt_fpga_cfg_mode_set_def Let_def intro!: keeps_access)

lemma keeps_wait [simp, intro!]:
  "keeps_to_map (wait_for_fpga_state dev st n)" "keeps_to_map (wait_for_config_done dev n)"
  "keeps_to_map (dclk_set_and_wait_clear dev c n)"
  by (auto simp: wait_for_fpga_state_def wait_for_config_done_def config_done_body_def
      dclk_set_and_wait_clear_def dclk_body_def Let_def intro!: keeps_access)

lemma keeps_data_words: "list_all access_ok (map (Wr ALT_FPGAMGRDATA_ADDR) vs)"
  by (induction vs) auto

lemma keeps_writeaxi [simp, intro!]: "keeps_to_map (alt_fpga_internal_writeaxi buf len)"
  by (simp add: keeps_to_map_def writeaxi_run keeps_data_words)

lemma keeps_istream [simp, intro!]: "keeps_to_map (istream_loop stream udata limit)"
proof (induction stream udata limit rule: istream_loop.induct)
  case (1 stream udata limit)
  obtain cb buffer udata' where s: "stream ISTREAM_CHUNK_SIZE udata = ((cb, buffer), udata')"
    by (metis prod.exhaust)
  note IH = "1.IH"[OF s[symmetric] refl]
  show ?case
    using IH sint_pos[of cb] by (subst istream_loop.simps) (auto simp: s)
qed

lemma keeps_idata [simp, intro!]: "keeps_to_map (alt_fpga_internal_configure_idata dev d)"
  by (auto simp: alt_fpga_internal_configure_idata_def Let_def split: fpga_data.split)

lemma keeps_phases [simp, intro!]:
  "keeps_to_map (configure_finish dev ds)" "keeps_to_map (configure_data dev d c)"
  "keeps_to_map (configure_reset dev d c)"
proof -
  show f: "keeps_to_map (configure_finish dev ds)" for ds by (auto simp: configure_finish_def)
  show d: "keeps_to_map (configure_data dev d c)" for c
    by (auto simp: configure_data_def Let_def intro!: keeps_access f)
  show "keeps_to_map (configure_reset dev d c)"
    by (auto simp: configure_reset_def Let_def intro!: keeps_access d)
qed

lemma keeps_configure [simp, intro!]: "keeps_to_map (alt_fpga_internal_configure dev d)"
  by (auto simp: alt_fpga_internal_configure_def intro!: keeps_access split: option.split)

lemma keeps_entry [simp, intro!]:
  "keeps_to_map (alt_fpga_configure dev b n)" "keeps_to_map (alt_fpga_istream_configure dev f u)"
  "keeps_to_map (writeFPGAconfig dev b n)"
proof -
  show c: "keeps_to_map (alt_fpga_configure dev b n)" by (simp add: alt_fpga_configure_def)
  show "keeps_to_map (alt_fpga_istream_configure dev f u)" by (simp add: alt_fpga_istream_configure_def)
  show "keeps_to_map (writeFPGAconfig dev b n)" by (auto simp: writeFPGAconfig_def alt_fpga_init_def intro!: c)
qed

lemma keeps_signals [simp, intro!]:
  "keeps_to_map (alt_fpga_gpi_read dev m)" "keeps_to_map (alt_fpga_gpo_write dev m v)"
  by (auto simp: alt_fpga_gpi_read_def alt_fpga_gpo_write_def intro!: keeps_access)

lemma keeps_irq [simp, intro!]:
  "keeps_to_map (alt_fpga_man_irq_disable dev m)" "keeps_to_map (alt_fpga_man_irq_enable dev m)"
  "keeps_to_map (alt_fpga_man_irq_type_get dev m)" "keeps_to_map (alt_fpga_man_irq_type_set dev m v)"
  "keeps_to_map (alt_fpga_man_irq_pol_get dev m)" "keeps_to_map (alt_fpga_man_irq_pol_set dev m v)"
  by (auto simp: alt_fpga_man_irq_disable_def alt_fpga_man_irq_enable_def alt_fpga_man_irq_type_get_def
      alt_fpga_man_irq_type_set_def alt_fpga_man_irq_pol_get_def alt_fpga_man_irq_pol_set_def intro!: keeps_access)

lemma keeps_perform: "keeps_to_map (perform dev c)"
  by (cases c) (auto simp: ignoring_def)

lemma keeps_perform_all: "keeps_to_map (perform_all dev cs)"
  by (induction cs) (auto intro: keeps_perform)

section \<open>Windows\<close>

definition bus_addr :: "access \<Rightarrow> nat" where
  "bus_addr acc = (case acc of Rd a v \<Rightarrow> unat a | Wr a v \<Rightarrow> unat a)"

text \<open>The word at \<open>a\<close> lies in the window.\<close>

definition in_window :: "nat \<Rightarrow> nat \<times> nat \<Rightarrow> bool" where
  "in_window a w \<longleftrightarrow> fst w \<le> a \<and> a + 4 \<le> fst w + snd w"

lemma map_in_windows:
  "list_all (\<lambda>p. list_ex (in_window (fst p)) mapped_windows \<and> fst p mod 4 = 0) manager_map"
  by (simp add: manager_map_eval mapped_windows_def in_window_def ALT_FPGAMGR_def ALT_FPGAMGRDATA_def)

lemma map_in_component:
  "list_all (\<lambda>p. in_window (fst p) (rofst ALT_FPGAMGR, rspan ALT_FPGAMGR) \<or>
     in_window (fst p) (rofst ALT_FPGAMGRDATA, rspan ALT_FPGAMGRDATA)) manager_map"
  by (simp add: manager_map_eval in_window_def ALT_FPGAMGR_def ALT_FPGAMGRDATA_def)

lemma manager_components: "ALT_FPGAMGR \<in> set ALT_HPS" "ALT_FPGAMGRDATA \<in> set ALT_HPS"
  by (simp_all add: ALT_HPS_def)

lemma access_on_map: "access_ok acc \<Longrightarrow> \<exists>R. (bus_addr acc, R) \<in> set manager_map"
  by (cases acc) (auto simp: access_ok.simps bus_addr_def list_ex_iff)

lemma window_of_one:
  assumes "in_window a (rofst r, rspan r)" and "r \<in> set ALT_HPS" and "q \<in> set ALT_HPS" and "r \<noteq> q"
  shows "\<not> (rofst q \<le> a + k \<and> a + k < rofst q + rspan q \<and> k < 4)"
  using one_component[OF assms(2-4)] assms(1) by (auto simp: apart_def in_window_def)

text \<open>
  C31: whatever routines of the FPGA manager driver are called, in whatever order, and whatever the
  hardware answers: every access is of an aligned register of the manager, a write one of a register
  with a writable field; it lies in one of the two windows a Linux build maps, and touches no byte
  of any other of the 51 components of the processor system.
\<close>

theorem driver_keeps_to_map:
  assumes "acc \<in> set (done_by (perform_all dev cs) h)"
  shows "access_ok acc \<and> bus_addr acc mod 4 = 0 \<and> list_ex (in_window (bus_addr acc)) mapped_windows \<and>
    (\<forall>q\<in>set ALT_HPS. \<forall>k<4. rofst q \<le> bus_addr acc + k \<and> bus_addr acc + k < rofst q + rspan q \<longrightarrow>
       q = ALT_FPGAMGR \<or> q = ALT_FPGAMGRDATA)"
proof -
  have ok: "access_ok acc"
    using keeps_done_by[OF keeps_perform_all] assms by (auto simp: list_all_iff)
  then obtain R where R: "(bus_addr acc, R) \<in> set manager_map" using access_on_map by blast
  have "bus_addr acc mod 4 = 0" "list_ex (in_window (bus_addr acc)) mapped_windows"
    using map_in_windows R by (auto simp: list_all_iff)
  moreover obtain r where "r = ALT_FPGAMGR \<or> r = ALT_FPGAMGRDATA" "in_window (bus_addr acc) (rofst r, rspan r)"
    using map_in_component R by (fastforce simp: list_all_iff)
  then have "q = r" if "q \<in> set ALT_HPS" "k < 4" "rofst q \<le> bus_addr acc + k"
      "bus_addr acc + k < rofst q + rspan q" for q k
    using window_of_one[of "bus_addr acc" r q k] manager_components that by blast
  ultimately show ?thesis
    using ok \<open>r = ALT_FPGAMGR \<or> r = ALT_FPGAMGRDATA\<close> by blast
qed

theorem driver_keeps_to_map_witness:
  "Wr ALT_FPGAMGR_CTL_ADDR 1 \<in> set (done_by (perform_all (\<lambda>h a. 0) [Control_Enable :: unit fpga_call]) []) \<and>
   access_ok (Wr ALT_FPGAMGR_CTL_ADDR 1)"
proof -
  have "Wr ALT_FPGAMGR_CTL_ADDR 1 \<in> set (done_by (perform_all (\<lambda>h a. 0) [Control_Enable :: unit fpga_call]) [])"
    by (simp add: done_by_def ignoring_def alt_fpga_control_enable_def)
  with driver_keeps_to_map[OF this] show ?thesis by blast
qed

section \<open>Enumerations of the interface\<close>

text \<open>The enumerations of \<^verbatim>\<open>alt_fpga_manager.h\<close>.\<close>

definition ALT_FPGA_STATE_t :: "(string \<times> u32) list" where
  "ALT_FPGA_STATE_t = [(''POWER_UP'', 0x0), (''RESET'', 0x1), (''CFG'', 0x2), (''INIT'', 0x3),
     (''USER_MODE'', 0x4), (''UNKNOWN'', 0x5), (''POWER_OFF'', 0xF)]"

definition ALT_FPGA_MON_STATUS_t :: "(string \<times> u32) list" where
  "ALT_FPGA_MON_STATUS_t = [(''nSTATUS'', 0x0001), (''CONF_DONE'', 0x0002),
     (''INIT_DONE'', 0x0004), (''CRC_ERROR'', 0x0008), (''CVP_CONF_DONE'', 0x0010),
     (''PR_READY'', 0x0020), (''PR_ERROR'', 0x0040), (''PR_DONE'', 0x0080),
     (''nCONFIG_PIN'', 0x0100), (''nSTATUS_PIN'', 0x0200), (''CONF_DONE_PIN'', 0x0400),
     (''FPGA_POWER_ON'', 0x0800)]"

definition ALT_FPGA_CFG_MODE_t :: "(string \<times> u32) list" where
  "ALT_FPGA_CFG_MODE_t = [(''PP16_FAST_NOAES_NODC'', 0x0), (''PP16_FAST_AES_NODC'', 0x1),
     (''PP16_FAST_AESOPT_DC'', 0x2), (''PP16_SLOW_NOAES_NODC'', 0x4),
     (''PP16_SLOW_AES_NODC'', 0x5), (''PP16_SLOW_AESOPT_DC'', 0x6),
     (''PP32_FAST_NOAES_NODC'', 0x8), (''PP32_FAST_AES_NODC'', 0x9),
     (''PP32_FAST_AESOPT_DC'', 0xa), (''PP32_SLOW_NOAES_NODC'', 0xc),
     (''PP32_SLOW_AES_NODC'', 0xd), (''PP32_SLOW_AESOPT_DC'', 0xe), (''UNKNOWN'', 0x20)]"

text \<open>The data ratio the comments of the modes call for.\<close>

definition documented_cdratio :: "(string \<times> nat) list" where
  "documented_cdratio = [(''PP16_FAST_NOAES_NODC'', 1), (''PP16_FAST_AES_NODC'', 4),
     (''PP16_FAST_AESOPT_DC'', 8), (''PP16_SLOW_NOAES_NODC'', 1), (''PP16_SLOW_AES_NODC'', 4),
     (''PP16_SLOW_AESOPT_DC'', 8), (''PP32_FAST_NOAES_NODC'', 1), (''PP32_FAST_AES_NODC'', 4),
     (''PP32_FAST_AESOPT_DC'', 8), (''PP32_SLOW_NOAES_NODC'', 1), (''PP32_SLOW_AES_NODC'', 4),
     (''PP32_SLOW_AESOPT_DC'', 8)]"

lemma enum_states: "map snd ALT_FPGA_STATE_t = map snd (enum ALT_FPGAMGR_STAT_MOD) @ [ALT_FPGA_STATE_POWER_OFF]"
  by (simp add: ALT_FPGA_STATE_t_def ALT_FPGAMGR_STAT_MOD_def)

lemma enum_monitors: "map snd ALT_FPGA_MON_STATUS_t = map set_msk (reg_fields ALT_MON_GPIO_EXT_PORTA)"
  by (simp add: ALT_FPGA_MON_STATUS_t_def alt_mon_gpio_ext_porta_defs)

lemma enum_modes:
  "list_all (\<lambda>e. e \<in> set (enum ALT_FPGAMGR_STAT_MSEL)) (butlast ALT_FPGA_CFG_MODE_t)"
  "last ALT_FPGA_CFG_MODE_t = (''UNKNOWN'', ALT_FPGA_CFG_MODE_UNKNOWN)"
  by (simp_all add: ALT_FPGA_CFG_MODE_t_def ALT_FPGAMGR_STAT_MSEL_def)

lemma mode_known:
  "cfg_width_ratio m \<noteq> None \<longleftrightarrow> m \<in> snd ` set (butlast ALT_FPGA_CFG_MODE_t)"
  by (simp add: cfg_width_ratio_def ALT_FPGA_CFG_MODE_t_def)

text \<open>
  The ratio programmed is the documented one for every 32-bit mode and every mode without encryption,
  and half of it for the others.
\<close>

lemma programmed_ratio:
  "list_all (\<lambda>(n, v). case (cfg_width_ratio v, map_of documented_cdratio n) of
       (Some (w, r), Some d) \<Rightarrow> r = (if w = 16 \<and> d \<noteq> 1 then d div 2 else d)
     | _ \<Rightarrow> False) (butlast ALT_FPGA_CFG_MODE_t)"
  by (simp add: ALT_FPGA_CFG_MODE_t_def documented_cdratio_def cfg_width_ratio_def)

section \<open>Agreement\<close>

text \<open>
  C33: writing a field of a register of the FPGA manager the way the macros are made for, clear mask
  and set macro, gives the field the value and leaves every other field of the register alone.
\<close>

theorem field_update_exact:
  assumes "R \<in> set (ALT_FPGAMGRDATA_DATA # manager_registers @ monitor_registers)" and "f \<in> set (reg_fields R)"
  shows "get_of f (field_update f x v) = v AND mask (width f) \<and>
    (\<forall>g\<in>set (reg_fields R). g \<noteq> f \<longrightarrow> get_of g (field_update f x v) = get_of g x)"
  using register_update[OF registers_ok[OF assms(1)] assms(2)] by blast

theorem field_update_exact_witness:
  "get_of ALT_FPGAMGR_CTL_CDRATIO (field_update ALT_FPGAMGR_CTL_CDRATIO 0x3ff 1) = 1 \<and>
   get_of ALT_FPGAMGR_CTL_EN (field_update ALT_FPGAMGR_CTL_CDRATIO 0x3ff 1) = 1"
proof -
  have "ALT_FPGAMGR_CTL \<in> set (ALT_FPGAMGRDATA_DATA # manager_registers @ monitor_registers)"
    by (simp add: manager_registers_def)
  moreover have "ALT_FPGAMGR_CTL_CDRATIO \<in> set (reg_fields ALT_FPGAMGR_CTL)" "ALT_FPGAMGR_CTL_EN \<in> set (reg_fields ALT_FPGAMGR_CTL)"
    by (simp_all add: ALT_FPGAMGR_CTL_def)
  moreover have "ALT_FPGAMGR_CTL_EN \<noteq> ALT_FPGAMGR_CTL_CDRATIO"
    by (simp add: ALT_FPGAMGR_CTL_EN_def ALT_FPGAMGR_CTL_CDRATIO_def)
  moreover have "1 AND mask (width ALT_FPGAMGR_CTL_CDRATIO) = (1 :: u32)" "get_of ALT_FPGAMGR_CTL_EN 0x3ff = 1"
    by (simp_all add: ALT_FPGAMGR_CTL_CDRATIO_def ALT_FPGAMGR_CTL_EN_def mask_numeral)
  ultimately show ?thesis
    using field_update_exact[of ALT_FPGAMGR_CTL ALT_FPGAMGR_CTL_CDRATIO "0x3ff" 1] by metis
qed

lemma struct_layout:
  "layout 0 ALT_FPGAMGR_s =
     map (\<lambda>R. (offset R, R)) manager_registers @
     map (\<lambda>R. (rofst ALT_FPGAMGR_MON + offset R, R)) monitor_registers"
proof -
  have "layout 0 ALT_FPGAMGR_s =
     map (\<lambda>(a, R). (a - rofst ALT_FPGAMGR, R)) (butlast manager_map)"
    by (simp add: ALT_FPGAMGR_s_def ALT_MON_s_def manager_map_eval ALT_FPGAMGR_def)
  then show ?thesis by (simp add: manager_map_def butlast_append reg_addr_def comp_def)
qed

lemma struct_sizes:
  "member_size ALT_MON_s = rspan ALT_FPGAMGR_MON" "member_size ALT_FPGAMGR_s = rspan ALT_FPGAMGR"
  by (simp_all add: ALT_MON_s_def ALT_FPGAMGR_s_def ALT_FPGAMGR_MON_def ALT_FPGAMGR_def)

lemma driver_addresses:
  "list_all (\<lambda>(a, R). (unat a, R) \<in> set manager_map)
     [(ALT_FPGAMGR_STAT_ADDR, ALT_FPGAMGR_STAT), (ALT_FPGAMGR_CTL_ADDR, ALT_FPGAMGR_CTL),
      (ALT_FPGAMGR_DCLKCNT_ADDR, ALT_FPGAMGR_DCLKCNT), (ALT_FPGAMGR_DCLKSTAT_ADDR, ALT_FPGAMGR_DCLKSTAT),
      (ALT_FPGAMGR_GPO_ADDR, ALT_FPGAMGR_GPO), (ALT_FPGAMGR_GPI_ADDR, ALT_FPGAMGR_GPI),
      (ALT_FPGAMGR_MON_GPIO_INTEN_ADDR, ALT_MON_GPIO_INTEN),
      (ALT_FPGAMGR_MON_GPIO_INTTYPE_LEVEL_ADDR, ALT_MON_GPIO_INTTYPE_LEVEL),
      (ALT_FPGAMGR_MON_GPIO_INT_POL_ADDR, ALT_MON_GPIO_INT_POL),
      (ALT_FPGAMGR_MON_GPIO_PORTA_EOI_ADDR, ALT_MON_GPIO_PORTA_EOI),
      (ALT_FPGAMGR_MON_GPIO_EXT_PORTA_ADDR, ALT_MON_GPIO_EXT_PORTA),
      (ALT_FPGAMGRDATA_ADDR, ALT_FPGAMGRDATA_DATA)]"
  by (simp add: manager_map_eval fpga_addrs)

lemma driver_masks:
  "ALT_FPGAMGR_CTL_EN_SET_MSK = set_msk ALT_FPGAMGR_CTL_EN"
  "ALT_FPGAMGR_CTL_NCE_CLR_MSK = clr_msk ALT_FPGAMGR_CTL_NCE"
  "ALT_FPGAMGR_CTL_NCFGPULL_SET_MSK = set_msk ALT_FPGAMGR_CTL_NCFGPULL"
  "ALT_FPGAMGR_CTL_NCFGPULL_CLR_MSK = clr_msk ALT_FPGAMGR_CTL_NCFGPULL"
  "ALT_FPGAMGR_CTL_CDRATIO_CLR_MSK = clr_msk ALT_FPGAMGR_CTL_CDRATIO"
  "ALT_FPGAMGR_CTL_AXICFGEN_SET_MSK = set_msk ALT_FPGAMGR_CTL_AXICFGEN"
  "ALT_FPGAMGR_CTL_AXICFGEN_CLR_MSK = clr_msk ALT_FPGAMGR_CTL_AXICFGEN"
  "ALT_FPGAMGR_CTL_CFGWDTH_SET_MSK = set_msk ALT_FPGAMGR_CTL_CFGWDTH"
  "ALT_FPGAMGR_CTL_CFGWDTH_CLR_MSK = clr_msk ALT_FPGAMGR_CTL_CFGWDTH"
  "map_of (enum ALT_FPGAMGR_DCLKSTAT_DCNTDONE) ''DONE'' = Some ALT_FPGAMGR_DCLKSTAT_DCNTDONE_E_DONE"
  "map_of (enum ALT_MON_GPIO_PORTA_EOI_NS) ''CLR'' = Some ALT_MON_GPIO_PORTA_EOI_NS_E_CLR"
  by (simp_all add: ALT_FPGAMGR_CTL_EN_def ALT_FPGAMGR_CTL_NCE_def ALT_FPGAMGR_CTL_NCFGPULL_def
      ALT_FPGAMGR_CTL_CDRATIO_def ALT_FPGAMGR_CTL_AXICFGEN_def ALT_FPGAMGR_CTL_CFGWDTH_def
      ALT_FPGAMGR_DCLKSTAT_DCNTDONE_def ALT_MON_GPIO_PORTA_EOI_NS_def)

lemma driver_macros:
  "ALT_FPGAMGR_CTL_CDRATIO_SET = set_of ALT_FPGAMGR_CTL_CDRATIO"
  "ALT_FPGAMGR_STAT_MOD_GET = get_of ALT_FPGAMGR_STAT_MOD"
  "ALT_FPGAMGR_STAT_MSEL_GET = get_of ALT_FPGAMGR_STAT_MSEL"
  by (simp_all add: fun_eq_iff ALT_FPGAMGR_CTL_CDRATIO_SET_def ALT_FPGAMGR_STAT_MOD_GET_def
      ALT_FPGAMGR_STAT_MSEL_GET_def ALT_FPGAMGR_CTL_CDRATIO_def ALT_FPGAMGR_STAT_MOD_def
      ALT_FPGAMGR_STAT_MSEL_def)

text \<open>
  The two views the headers give agree, and with them the driver's model: the structs of the
  register groups put every register at the offset of its macro and are as large as the address map
  says; the addresses, masks and field macros the driver uses are those of the map; and the states,
  monitor bits and modes of its interface are the values and masks of the fields they are read from.
\<close>

lemma headers_agree:
  "layout 0 ALT_FPGAMGR_s =
     map (\<lambda>R. (offset R, R)) manager_registers @
     map (\<lambda>R. (rofst ALT_FPGAMGR_MON + offset R, R)) monitor_registers \<and>
   member_size ALT_MON_s = rspan ALT_FPGAMGR_MON \<and> member_size ALT_FPGAMGR_s = rspan ALT_FPGAMGR \<and>
   list_all (\<lambda>(a, R). (unat a, R) \<in> set manager_map)
     [(ALT_FPGAMGR_STAT_ADDR, ALT_FPGAMGR_STAT), (ALT_FPGAMGR_CTL_ADDR, ALT_FPGAMGR_CTL),
      (ALT_FPGAMGR_DCLKCNT_ADDR, ALT_FPGAMGR_DCLKCNT), (ALT_FPGAMGR_DCLKSTAT_ADDR, ALT_FPGAMGR_DCLKSTAT),
      (ALT_FPGAMGR_GPO_ADDR, ALT_FPGAMGR_GPO), (ALT_FPGAMGR_GPI_ADDR, ALT_FPGAMGR_GPI),
      (ALT_FPGAMGR_MON_GPIO_INTEN_ADDR, ALT_MON_GPIO_INTEN),
      (ALT_FPGAMGR_MON_GPIO_INTTYPE_LEVEL_ADDR, ALT_MON_GPIO_INTTYPE_LEVEL),
      (ALT_FPGAMGR_MON_GPIO_INT_POL_ADDR, ALT_MON_GPIO_INT_POL),
      (ALT_FPGAMGR_MON_GPIO_PORTA_EOI_ADDR, ALT_MON_GPIO_PORTA_EOI),
      (ALT_FPGAMGR_MON_GPIO_EXT_PORTA_ADDR, ALT_MON_GPIO_EXT_PORTA),
      (ALT_FPGAMGRDATA_ADDR, ALT_FPGAMGRDATA_DATA)] \<and>
   ALT_FPGAMGR_CTL_EN_SET_MSK = set_msk ALT_FPGAMGR_CTL_EN \<and>
   ALT_FPGAMGR_CTL_NCE_CLR_MSK = clr_msk ALT_FPGAMGR_CTL_NCE \<and>
   ALT_FPGAMGR_CTL_NCFGPULL_SET_MSK = set_msk ALT_FPGAMGR_CTL_NCFGPULL \<and>
   ALT_FPGAMGR_CTL_NCFGPULL_CLR_MSK = clr_msk ALT_FPGAMGR_CTL_NCFGPULL \<and>
   ALT_FPGAMGR_CTL_CDRATIO_CLR_MSK = clr_msk ALT_FPGAMGR_CTL_CDRATIO \<and>
   ALT_FPGAMGR_CTL_AXICFGEN_SET_MSK = set_msk ALT_FPGAMGR_CTL_AXICFGEN \<and>
   ALT_FPGAMGR_CTL_AXICFGEN_CLR_MSK = clr_msk ALT_FPGAMGR_CTL_AXICFGEN \<and>
   ALT_FPGAMGR_CTL_CFGWDTH_SET_MSK = set_msk ALT_FPGAMGR_CTL_CFGWDTH \<and>
   ALT_FPGAMGR_CTL_CFGWDTH_CLR_MSK = clr_msk ALT_FPGAMGR_CTL_CFGWDTH \<and>
   map_of (enum ALT_FPGAMGR_DCLKSTAT_DCNTDONE) ''DONE'' = Some ALT_FPGAMGR_DCLKSTAT_DCNTDONE_E_DONE \<and>
   map_of (enum ALT_MON_GPIO_PORTA_EOI_NS) ''CLR'' = Some ALT_MON_GPIO_PORTA_EOI_NS_E_CLR \<and>
   ALT_FPGAMGR_CTL_CDRATIO_SET = set_of ALT_FPGAMGR_CTL_CDRATIO \<and>
   ALT_FPGAMGR_STAT_MOD_GET = get_of ALT_FPGAMGR_STAT_MOD \<and>
   ALT_FPGAMGR_STAT_MSEL_GET = get_of ALT_FPGAMGR_STAT_MSEL \<and>
   map snd ALT_FPGA_STATE_t = map snd (enum ALT_FPGAMGR_STAT_MOD) @ [ALT_FPGA_STATE_POWER_OFF] \<and>
   map snd ALT_FPGA_MON_STATUS_t = map set_msk (reg_fields ALT_MON_GPIO_EXT_PORTA) \<and>
   list_all (\<lambda>e. e \<in> set (enum ALT_FPGAMGR_STAT_MSEL)) (butlast ALT_FPGA_CFG_MODE_t)"
  using struct_layout struct_sizes driver_addresses driver_masks driver_macros
    enum_states enum_monitors enum_modes(1) by blast

end
