(* ===== verification/Dma.thy ===== *)
theory Dma
  imports Mmio
begin

text \<open>
  The DMA controller driver, \<^verbatim>\<open>node/FPGAconfig/alt_dma.c\<close>, up to its line 1122: registers,
  initialisation for both supported devices, channel allocation, execution and events.

  Code outside the repository is a parameter, in the record \<open>dma_env\<close>: the assembler
  of PL330 programs (\<^verbatim>\<open>alt_dma_program.c\<close>), the address translation and cache maintenance
  (which the file itself supplies weak defaults for, modelled below) and the addresses and
  masks of the reset and system managers.  The hardware is the device of \<^theory_text>\<open>Mmio\<close>.
  Pointers and \<open>size_t\<close> are the 32-bit ones of the node.
\<close>

section \<open>Registers\<close>

definition ALT_DMA_DSR_ADDR :: "addr \<Rightarrow> addr" where "ALT_DMA_DSR_ADDR base = base + 0x0"
definition ALT_DMA_DPC_ADDR :: "addr \<Rightarrow> addr" where "ALT_DMA_DPC_ADDR base = base + 0x4"
definition ALT_DMA_INTEN_ADDR :: "addr \<Rightarrow> addr" where "ALT_DMA_INTEN_ADDR base = base + 0x20"
definition ALT_DMA_INT_EVENT_RIS_ADDR :: "addr \<Rightarrow> addr" where
  "ALT_DMA_INT_EVENT_RIS_ADDR base = base + 0x24"
definition ALT_DMA_INTMIS_ADDR :: "addr \<Rightarrow> addr" where "ALT_DMA_INTMIS_ADDR base = base + 0x28"
definition ALT_DMA_INTCLR_ADDR :: "addr \<Rightarrow> addr" where "ALT_DMA_INTCLR_ADDR base = base + 0x2c"
definition ALT_DMA_FSRD_ADDR :: "addr \<Rightarrow> addr" where "ALT_DMA_FSRD_ADDR base = base + 0x30"
definition ALT_DMA_FSRC_ADDR :: "addr \<Rightarrow> addr" where "ALT_DMA_FSRC_ADDR base = base + 0x34"

text \<open>The source computes the FTRD address from the FSRD offset, not from its own 0x38.\<close>

definition ALT_DMA_FTRD_OFST :: addr where "ALT_DMA_FTRD_OFST = 0x38"
definition ALT_DMA_FTRD_ADDR :: "addr \<Rightarrow> addr" where "ALT_DMA_FTRD_ADDR base = base + 0x30"

definition ALT_DMA_FTRx_ADDR :: "addr \<Rightarrow> nat \<Rightarrow> addr" where
  "ALT_DMA_FTRx_ADDR base channel = base + (0x40 + 0x4 * of_nat channel)"
definition ALT_DMA_CSRx_ADDR :: "addr \<Rightarrow> nat \<Rightarrow> addr" where
  "ALT_DMA_CSRx_ADDR base channel = base + (0x100 + 0x8 * of_nat channel)"
definition ALT_DMA_CPCx_ADDR :: "addr \<Rightarrow> nat \<Rightarrow> addr" where
  "ALT_DMA_CPCx_ADDR base channel = base + (0x104 + 0x8 * of_nat channel)"
definition ALT_DMA_SARx_ADDR :: "addr \<Rightarrow> nat \<Rightarrow> addr" where
  "ALT_DMA_SARx_ADDR base channel = base + (0x400 + 0x20 * of_nat channel)"
definition ALT_DMA_DARx_ADDR :: "addr \<Rightarrow> nat \<Rightarrow> addr" where
  "ALT_DMA_DARx_ADDR base channel = base + (0x404 + 0x20 * of_nat channel)"
definition ALT_DMA_CCRx_ADDR :: "addr \<Rightarrow> nat \<Rightarrow> addr" where
  "ALT_DMA_CCRx_ADDR base channel = base + (0x408 + 0x20 * of_nat channel)"
definition ALT_DMA_DBGSTATUS_ADDR :: "addr \<Rightarrow> addr" where "ALT_DMA_DBGSTATUS_ADDR base = base + 0xd00"
definition ALT_DMA_DBGCMD_ADDR :: "addr \<Rightarrow> addr" where "ALT_DMA_DBGCMD_ADDR base = base + 0xd04"
definition ALT_DMA_DBGINST0_ADDR :: "addr \<Rightarrow> addr" where "ALT_DMA_DBGINST0_ADDR base = base + 0xd08"
definition ALT_DMA_DBGINST1_ADDR :: "addr \<Rightarrow> addr" where "ALT_DMA_DBGINST1_ADDR base = base + 0xd0c"

definition ALT_DMA_DSR_DMASTATUS_GET :: "u32 \<Rightarrow> u32" where
  "ALT_DMA_DSR_DMASTATUS_GET v = v AND 0xf"
definition ALT_DMA_CSRx_CHANNELSTATUS_GET :: "u32 \<Rightarrow> u32" where
  "ALT_DMA_CSRx_CHANNELSTATUS_GET v = v AND 0xf"
definition ALT_DMA_DBGINST0_CHANNELNUMBER_SET :: "u32 \<Rightarrow> u32" where
  "ALT_DMA_DBGINST0_CHANNELNUMBER_SET v = push_bit 8 (v AND 0x7)"
definition ALT_DMA_DBGINST0_DEBUGTHREAD_SET :: "u32 \<Rightarrow> u32" where
  "ALT_DMA_DBGINST0_DEBUGTHREAD_SET v = v AND 0x1"
definition ALT_DMA_DBGINST0_INSTRUCTIONBYTE0_SET :: "u32 \<Rightarrow> u32" where
  "ALT_DMA_DBGINST0_INSTRUCTIONBYTE0_SET v = push_bit 16 (v AND 0xff)"
definition ALT_DMA_DBGINST0_INSTRUCTIONBYTE1_SET :: "u32 \<Rightarrow> u32" where
  "ALT_DMA_DBGINST0_INSTRUCTIONBYTE1_SET v = push_bit 24 (v AND 0xff)"

abbreviation (input) "ALT_DMA_DBGINST0_DEBUGTHREAD_E_MANAGER \<equiv> 0 :: u32"
abbreviation (input) "ALT_DMA_DBGINST0_DEBUGTHREAD_E_CHANNEL \<equiv> 1 :: u32"
abbreviation (input) "ALT_DMA_CHANNEL_INFO_FLAG_ALLOCED \<equiv> 1 :: byte"
abbreviation (input) "ALT_DMA_CHANNEL_STATE_STOPPED \<equiv> 0 :: u32"
abbreviation (input) "ALT_DMA_CHANNEL_STATE_KILLING \<equiv> 8 :: u32"

section \<open>Parameters\<close>

text \<open>
  The calls the driver makes on the assembler.  \<open>DMALD\<close>, \<open>DMAST\<close> and \<open>DMALPEND\<close> are the calls with
  \<open>ALT_DMA_PROGRAM_INST_MOD_NONE\<close>; the names with an \<open>x\<close> carry a modifier.
\<close>

datatype dma_reg = SAR | DAR | CCR

datatype dma_mod = INST_MOD_SINGLE | INST_MOD_BURST

datatype dma_periph =
    ALT_DMA_PERIPH_I2C_TX nat
  | ALT_DMA_PERIPH_I2C_RX nat
  | ALT_DMA_PERIPH_QSPI_FLASH_TX
  | ALT_DMA_PERIPH_QSPI_FLASH_RX
  | ALT_DMA_PERIPH_UART_TX nat
  | ALT_DMA_PERIPH_UART_RX nat
  | PERIPH_other nat

datatype dma_call =
    DMAMOV dma_reg u32
  | DMALD
  | DMAST
  | DMASTZ
  | DMALP u32
  | DMALPEND
  | DMAWMB
  | DMASEV nat
  | DMAEND
  | DMAFLUSHP dma_periph
  | DMAWFP dma_periph dma_mod
  | DMALDx dma_mod
  | DMASTx dma_mod
  | DMALPENDx dma_mod

text \<open>The option words of a channel control value, from the assembler's header.\<close>

record ccr_opts =
  SB1 :: u32
  SB16 :: u32
  SB_DEFAULT :: u32
  SS8 :: u32
  SS16 :: u32
  SS32 :: u32
  SS64 :: u32
  SS_DEFAULT :: u32
  SAF :: u32
  SAI :: u32
  SA_DEFAULT :: u32
  SP_DEFAULT :: u32
  SC :: "u32 \<Rightarrow> u32"
  SC_DEFAULT :: u32
  DB1 :: u32
  DB16 :: u32
  DS8 :: u32
  DS16 :: u32
  DS32 :: u32
  DS64 :: u32
  DAF :: u32
  DAI :: u32
  DA_DEFAULT :: u32
  DP_DEFAULT :: u32
  DC :: "u32 \<Rightarrow> u32"
  DC_DEFAULT :: u32
  ES_DEFAULT :: u32

record ('p, 'c) dma_env =
  opts :: ccr_opts
  regs :: device
  secure_base :: addr
  event_abort :: nat
  program_emit :: "dma_call \<Rightarrow> 'p \<Rightarrow> status \<times> 'p"
  program_init :: "'p \<Rightarrow> status \<times> 'p"
  program_clear :: "'p \<Rightarrow> status \<times> 'p"
  program_validate :: "'p \<Rightarrow> status"
  program_start :: "'p \<Rightarrow> u32"
  program_code_size :: "'p \<Rightarrow> u32"
  cache_line :: u32
  cache_system_clean :: "u32 \<Rightarrow> u32 \<Rightarrow> status"
  mmu_va_to_pa :: "u32 \<Rightarrow> u32 \<times> u32 \<times> u32"
  coalesce_begin :: "u32 \<Rightarrow> u32 \<Rightarrow> status \<times> 'c"
  coalesce_next :: "'c \<Rightarrow> status \<times> (u32 \<times> u32) \<times> 'c"
  coalesce_end :: "'c \<Rightarrow> status"

section \<open>Weak defaults\<close>

text \<open>
  The file's own weak definitions, used unless the program links an MMU or a cache driver.
  \<open>alt_mmu_va_to_pa\<close> answers the physical address, the segment length and the fault status.
\<close>

record coalesce =
  coalesce_size :: u32
  nextsegpa :: u32
  nextsegsize :: u32

definition alt_mmu_va_to_pa :: "u32 \<Rightarrow> u32 \<times> u32 \<times> u32" where
  "alt_mmu_va_to_pa va = (va, 0xffffffff, 0)"

definition alt_mmu_va_to_pa_coalesce_begin :: "coalesce \<Rightarrow> u32 \<Rightarrow> u32 \<Rightarrow> status \<times> coalesce" where
  "alt_mmu_va_to_pa_coalesce_begin c va sz =
     (if va + sz - 1 < va then (ALT_E_ERROR, c)
      else (ALT_E_SUCCESS, \<lparr> coalesce_size = sz, nextsegpa = va, nextsegsize = sz \<rparr>))"

definition alt_mmu_va_to_pa_coalesce_next :: "coalesce \<Rightarrow> status \<times> (u32 \<times> u32) \<times> coalesce" where
  "alt_mmu_va_to_pa_coalesce_next c =
     (if coalesce_size c = 0 then (ALT_E_ERROR, (0, 0), c)
      else (ALT_E_SUCCESS, (nextsegpa c, nextsegsize c),
            \<lparr> coalesce_size = 0, nextsegpa = 0, nextsegsize = 0 \<rparr>))"

definition alt_mmu_va_to_pa_coalesce_end :: "coalesce \<Rightarrow> status" where
  "alt_mmu_va_to_pa_coalesce_end c =
     (if coalesce_size c \<noteq> 0 then ALT_E_ERROR else ALT_E_SUCCESS)"

definition alt_cache_system_clean :: "u32 \<Rightarrow> u32 \<Rightarrow> status" where
  "alt_cache_system_clean address len = ALT_E_SUCCESS"

section \<open>Driver state\<close>

text \<open>
  \<open>g_dmaState\<close>, the program buffer and the I2C scratch words of the caller and the bus history,
  threaded together.
\<close>

record 'p dma_state =
  channel_info :: "byte list"
  can_exist :: bool
  program :: 'p
  scratch :: "u32 list"
  bus :: history

type_synonym ('p, 'a) dma = "('p dma_state, 'a) state"

definition on_bus :: "'a io \<Rightarrow> ('p, 'a) dma" where
  "on_bus m = State (\<lambda>s. case run_state m (bus s) of (x, h) \<Rightarrow> (x, s\<lparr> bus := h \<rparr>))"

definition on_program :: "('p \<Rightarrow> 'a \<times> 'p) \<Rightarrow> ('p, 'a) dma" where
  "on_program f = State (\<lambda>s. case f (program s) of (x, p) \<Rightarrow> (x, s\<lparr> program := p \<rparr>))"

definition get_state :: "('p, 'p dma_state) dma" where
  "get_state = State (\<lambda>s. (s, s))"

definition channel_flag :: "nat \<Rightarrow> ('p, byte) dma" where
  "channel_flag i = State (\<lambda>s. (channel_info s ! i, s))"

definition set_channel_flag :: "nat \<Rightarrow> byte \<Rightarrow> ('p, unit) dma" where
  "set_channel_flag i v = State (\<lambda>s. ((), s\<lparr> channel_info := (channel_info s)[i := v] \<rparr>))"

text \<open>\<open>switch (channel)\<close> and \<open>switch (evt_num)\<close>: the eight channels, eight events and the abort.\<close>

definition valid_channel :: "nat \<Rightarrow> bool" where
  "valid_channel channel \<longleftrightarrow> channel \<in> {0, 1, 2, 3, 4, 5, 6, 7}"

definition valid_event :: "('p, 'c) dma_env \<Rightarrow> nat \<Rightarrow> bool" where
  "valid_event E evt \<longleftrightarrow> evt \<in> {0, 1, 2, 3, 4, 5, 6, 7} \<or> evt = event_abort E"

definition alloced :: "byte \<Rightarrow> bool" where
  "alloced flag \<longleftrightarrow> flag AND ALT_DMA_CHANNEL_INFO_FLAG_ALLOCED \<noteq> 0"


section \<open>Initialisation\<close>

datatype dma_security =
    ALT_DMA_SECURITY_DEFAULT | ALT_DMA_SECURITY_SECURE | ALT_DMA_SECURITY_NONSECURE
  | SECURITY_other nat

datatype dma_periph_mux =
    ALT_DMA_PERIPH_MUX_DEFAULT | ALT_DMA_PERIPH_MUX_FPGA | ALT_DMA_PERIPH_MUX_CAN
  | ALT_DMA_PERIPH_MUX_SECMGR | ALT_DMA_PERIPH_MUX_I2C | MUX_other nat

record dma_cfg =
  manager_sec :: dma_security
  irq_sec :: "dma_security list"
  periph_sec :: "dma_security list"
  periph_mux :: "dma_periph_mux list"

text \<open>Reset and system manager, from headers outside the repository, for the two devices.\<close>

record soc_regs =
  HPSINFO_ADDR :: addr
  HPSINFO_CAN_GET :: "u32 \<Rightarrow> u32"
  HPSINFO_CAN_AVAILABLE :: u32
  CTL_CHANSEL_0_MSK :: u32
  CTL_MGRNONSECURE_MSK :: u32
  CTL_IRQNONSECURE_WIDTH :: nat
  CTL_IRQNONSECURE_LSB :: nat
  DMA_CTL_ADDR :: addr
  DMA_PERSECURITY_ADDR :: addr
  PERMODRST_ADDR :: addr
  PERMODRST_DMA_MSK :: u32
  A10_CHANSEL_2_SECMGR :: u32
  A10_CHANSEL_2_FPGA :: u32
  A10_CHANSEL_1_FPGA :: u32
  A10_CHANSEL_1_I2C4_RX :: u32
  A10_CHANSEL_0_FPGA :: u32
  A10_CHANSEL_0_I2C4_TX :: u32
  A10_PERIPH_NS_WIDTH :: nat

text \<open>
  The configuration loops collect bits and stop at the first bad entry (\<open>Inl\<close> its status).
  \<open>i\<close> is the loop index; the list is the part of the array not yet visited.
\<close>

fun mux_bits :: "bool \<Rightarrow> u32 \<Rightarrow> nat \<Rightarrow> dma_periph_mux list \<Rightarrow> u32 \<Rightarrow> (status, u32) sum" where
  "mux_bits can chansel0 i [] dmactrl = Inr dmactrl"
| "mux_bits can chansel0 i (x # xs) dmactrl =
     (case x of
        ALT_DMA_PERIPH_MUX_DEFAULT \<Rightarrow> mux_bits can chansel0 (i + 1) xs dmactrl
      | ALT_DMA_PERIPH_MUX_FPGA \<Rightarrow> mux_bits can chansel0 (i + 1) xs dmactrl
      | ALT_DMA_PERIPH_MUX_CAN \<Rightarrow>
          if \<not> can then Inl ALT_E_BAD_ARG
          else mux_bits can chansel0 (i + 1) xs (dmactrl OR push_bit i chansel0)
      | _ \<Rightarrow> Inl ALT_E_ERROR)"

fun security_bits :: "nat \<Rightarrow> nat \<Rightarrow> dma_security list \<Rightarrow> u32 \<Rightarrow> (status, u32) sum" where
  "security_bits lsb i [] v = Inr v"
| "security_bits lsb i (x # xs) v =
     (case x of
        ALT_DMA_SECURITY_DEFAULT \<Rightarrow> security_bits lsb (i + 1) xs v
      | ALT_DMA_SECURITY_SECURE \<Rightarrow> security_bits lsb (i + 1) xs v
      | ALT_DMA_SECURITY_NONSECURE \<Rightarrow> security_bits lsb (i + 1) xs (v OR push_bit (i + lsb) 1)
      | SECURITY_other k \<Rightarrow> Inl ALT_E_ERROR)"

definition manager_bits :: "u32 \<Rightarrow> dma_security \<Rightarrow> u32 \<Rightarrow> (status, u32) sum" where
  "manager_bits msk sec v =
     (case sec of
        ALT_DMA_SECURITY_DEFAULT \<Rightarrow> Inr v
      | ALT_DMA_SECURITY_SECURE \<Rightarrow> Inr v
      | ALT_DMA_SECURITY_NONSECURE \<Rightarrow> Inr (v OR msk)
      | SECURITY_other k \<Rightarrow> Inl ALT_E_ERROR)"

text \<open>The control word of the Cyclone V and of the Arria 10.\<close>

definition cv_control :: "soc_regs \<Rightarrow> bool \<Rightarrow> dma_cfg \<Rightarrow> (status, u32) sum" where
  "cv_control R can cfg =
     (case mux_bits can (CTL_CHANSEL_0_MSK R) 0 (periph_mux cfg) 0 of
        Inl e \<Rightarrow> Inl e
      | Inr v \<Rightarrow>
          (case manager_bits (CTL_MGRNONSECURE_MSK R) (manager_sec cfg) v of
             Inl e \<Rightarrow> Inl e
           | Inr v \<Rightarrow> security_bits (CTL_IRQNONSECURE_LSB R) 0
                        (take (CTL_IRQNONSECURE_WIDTH R) (irq_sec cfg)) v))"

definition a10_mux :: "soc_regs \<Rightarrow> dma_periph_mux list \<Rightarrow> (status, u32) sum" where
  "a10_mux R mux =
     (case (case mux ! 0 of
              ALT_DMA_PERIPH_MUX_DEFAULT \<Rightarrow> Some (A10_CHANSEL_2_SECMGR R)
            | ALT_DMA_PERIPH_MUX_SECMGR \<Rightarrow> Some (A10_CHANSEL_2_SECMGR R)
            | ALT_DMA_PERIPH_MUX_FPGA \<Rightarrow> Some (A10_CHANSEL_2_FPGA R)
            | _ \<Rightarrow> None,
            case mux ! 1 of
              ALT_DMA_PERIPH_MUX_DEFAULT \<Rightarrow> Some (A10_CHANSEL_1_FPGA R)
            | ALT_DMA_PERIPH_MUX_FPGA \<Rightarrow> Some (A10_CHANSEL_1_FPGA R)
            | ALT_DMA_PERIPH_MUX_I2C \<Rightarrow> Some (A10_CHANSEL_1_I2C4_RX R)
            | _ \<Rightarrow> None,
            case mux ! 2 of
              ALT_DMA_PERIPH_MUX_DEFAULT \<Rightarrow> Some (A10_CHANSEL_0_FPGA R)
            | ALT_DMA_PERIPH_MUX_FPGA \<Rightarrow> Some (A10_CHANSEL_0_FPGA R)
            | ALT_DMA_PERIPH_MUX_I2C \<Rightarrow> Some (A10_CHANSEL_0_I2C4_TX R)
            | _ \<Rightarrow> None) of
        (Some c2, Some c1, Some c0) \<Rightarrow> Inr (c2 OR c1 OR c0)
      | _ \<Rightarrow> Inl ALT_E_ERROR)"

definition a10_control :: "soc_regs \<Rightarrow> dma_cfg \<Rightarrow> (status, u32) sum" where
  "a10_control R cfg =
     (case a10_mux R (periph_mux cfg) of
        Inl e \<Rightarrow> Inl e
      | Inr v \<Rightarrow>
          (case manager_bits (CTL_MGRNONSECURE_MSK R) (manager_sec cfg) v of
             Inl e \<Rightarrow> Inl e
           | Inr v \<Rightarrow> security_bits (CTL_IRQNONSECURE_LSB R) 0
                        (take (CTL_IRQNONSECURE_WIDTH R) (irq_sec cfg)) v))"

text \<open>The common end: peripheral security, then the controller leaves reset.\<close>

definition init_periph ::
  "('p, 'c) dma_env \<Rightarrow> soc_regs \<Rightarrow> dma_security list \<Rightarrow> ('p, status) dma" where
  "init_periph E R secs =
     (case security_bits 0 0 secs 0 of
        Inl e \<Rightarrow> State_Monad.return e
      | Inr v \<Rightarrow> do { on_bus (alt_write_word (DMA_PERSECURITY_ADDR R) v);
                     on_bus (alt_clrbits_word (regs E) (PERMODRST_ADDR R) (PERMODRST_DMA_MSK R));
                     State_Monad.return ALT_E_SUCCESS })"

definition clear_channels :: "('p, unit) dma" where
  "clear_channels = State (\<lambda>s. ((), s\<lparr> channel_info := replicate 8 0 \<rparr>))"

definition set_can_exist :: "bool \<Rightarrow> ('p, unit) dma" where
  "set_can_exist b = State (\<lambda>s. ((), s\<lparr> can_exist := b \<rparr>))"

definition alt_dma_init :: "('p, 'c) dma_env \<Rightarrow> soc_regs \<Rightarrow> dma_cfg \<Rightarrow> ('p, status) dma" where
  "alt_dma_init E R cfg =
     do { clear_channels;
          info \<leftarrow> on_bus (alt_read_word (regs E) (HPSINFO_ADDR R));
          let can = (HPSINFO_CAN_GET R info = HPSINFO_CAN_AVAILABLE R);
          set_can_exist can;
          (case cv_control R can cfg of
             Inl e \<Rightarrow> State_Monad.return e
           | Inr v \<Rightarrow> do { on_bus (alt_write_word (DMA_CTL_ADDR R) v);
                          init_periph E R (periph_sec cfg) }) }"

definition alt_dma_init_a10 :: "('p, 'c) dma_env \<Rightarrow> soc_regs \<Rightarrow> dma_cfg \<Rightarrow> ('p, status) dma" where
  "alt_dma_init_a10 E R cfg =
     do { clear_channels;
          (case a10_control R cfg of
             Inl e \<Rightarrow> State_Monad.return e
           | Inr v \<Rightarrow> do { on_bus (alt_write_word (DMA_CTL_ADDR R) v);
                          init_periph E R (take (A10_PERIPH_NS_WIDTH R) (periph_sec cfg)) }) }"

section \<open>Channels\<close>

text \<open>A getter answers its status and the value it stored through its pointer.\<close>

definition alt_dma_channel_state_get :: "('p, 'c) dma_env \<Rightarrow> nat \<Rightarrow> ('p, status \<times> u32) dma" where
  "alt_dma_channel_state_get E channel =
     (if \<not> valid_channel channel then State_Monad.return (ALT_E_BAD_ARG, 0)
      else do { raw \<leftarrow> on_bus (alt_read_word (regs E) (ALT_DMA_CSRx_ADDR (secure_base E) channel));
                State_Monad.return (ALT_E_SUCCESS, ALT_DMA_CSRx_CHANNELSTATUS_GET raw) })"

definition alt_dma_channel_alloc :: "nat \<Rightarrow> ('p, status) dma" where
  "alt_dma_channel_alloc channel =
     (if \<not> valid_channel channel then State_Monad.return ALT_E_BAD_ARG
      else do { flag \<leftarrow> channel_flag channel;
                (if alloced flag then State_Monad.return ALT_E_ERROR
                 else do { set_channel_flag channel (flag OR ALT_DMA_CHANNEL_INFO_FLAG_ALLOCED);
                           State_Monad.return ALT_E_SUCCESS }) })"

text \<open>The sweep from channel \<open>i\<close>; the channel is answered on success only.\<close>

function alloc_sweep :: "nat \<Rightarrow> ('p, status \<times> nat option) dma" where
  "alloc_sweep i =
     (if i < 8
      then do { flag \<leftarrow> channel_flag i;
                (if \<not> alloced flag
                 then do { status \<leftarrow> alt_dma_channel_alloc i;
                           State_Monad.return
                             (status, if status = ALT_E_SUCCESS then Some i else None) }
                 else alloc_sweep (i + 1)) }
      else State_Monad.return (ALT_E_ERROR, None))"
  by pat_completeness auto
termination by (relation "measure (\<lambda>i. 8 - i)") auto

declare alloc_sweep.simps [simp del]

definition alt_dma_channel_alloc_any :: "('p, status \<times> nat option) dma" where
  "alt_dma_channel_alloc_any = alloc_sweep 0"

definition alt_dma_channel_free :: "('p, 'c) dma_env \<Rightarrow> nat \<Rightarrow> ('p, status) dma" where
  "alt_dma_channel_free E channel =
     (if \<not> valid_channel channel then State_Monad.return ALT_E_BAD_ARG
      else do { flag \<leftarrow> channel_flag channel;
                (if \<not> alloced flag then State_Monad.return ALT_E_ERROR
                 else do { (status, st) \<leftarrow> alt_dma_channel_state_get E channel;
                    (if status \<noteq> ALT_E_SUCCESS then State_Monad.return status
                     else if st \<noteq> ALT_DMA_CHANNEL_STATE_STOPPED then State_Monad.return ALT_E_ERROR
                     else do { set_channel_flag channel
                                 (flag AND NOT ALT_DMA_CHANNEL_INFO_FLAG_ALLOCED);
                               State_Monad.return ALT_E_SUCCESS }) }) })"

text \<open>The range of cache lines the program occupies.\<close>

definition program_lines :: "('p, 'c) dma_env \<Rightarrow> 'p \<Rightarrow> u32 \<times> u32" where
  "program_lines E p =
     (let vaddr = program_start E p AND NOT (cache_line E - 1);
          vend = (program_start E p + program_code_size E p + (cache_line E - 1))
                   AND NOT (cache_line E - 1)
      in (vaddr, vend - vaddr))"

definition alt_dma_channel_exec :: "('p, 'c) dma_env \<Rightarrow> nat \<Rightarrow> ('p, status) dma" where
  "alt_dma_channel_exec E channel =
     (if \<not> valid_channel channel then State_Monad.return ALT_E_BAD_ARG
      else do { flag \<leftarrow> channel_flag channel;
        (if \<not> alloced flag then State_Monad.return ALT_E_ERROR
         else do { (status, st) \<leftarrow> alt_dma_channel_state_get E channel;
           (if st \<noteq> ALT_DMA_CHANNEL_STATE_STOPPED then State_Monad.return ALT_E_ERROR
            else do { s \<leftarrow> get_state;
              let pgm = program s;
              let status = (if status = ALT_E_SUCCESS then program_validate E pgm else status);
              let (vaddr, len) = program_lines E pgm;
              let status = (if status = ALT_E_SUCCESS then cache_system_clean E vaddr len else status);
              let (pgmpa, seglen, dfsr) = mmu_va_to_pa E (program_start E pgm);
              let status = (if status = ALT_E_SUCCESS \<and> dfsr \<noteq> 0 then ALT_E_ERROR else status);
              (if status = ALT_E_SUCCESS
               then do {
                 on_bus (alt_write_word (ALT_DMA_DBGINST0_ADDR (secure_base E))
                   (ALT_DMA_DBGINST0_INSTRUCTIONBYTE0_SET 0xa0 OR
                    ALT_DMA_DBGINST0_INSTRUCTIONBYTE1_SET (of_nat channel)));
                 on_bus (alt_write_word (ALT_DMA_DBGINST1_ADDR (secure_base E)) pgmpa);
                 on_bus (alt_write_word (ALT_DMA_DBGCMD_ADDR (secure_base E)) 0);
                 State_Monad.return status }
               else State_Monad.return status) }) }) })"

text \<open>The wait of \<open>alt_dma_channel_kill\<close>: \<open>while (--i)\<close> with the counter at \<open>n\<close> polls at most \<open>n - 1\<close> times.\<close>

fun kill_wait :: "('p, 'c) dma_env \<Rightarrow> nat \<Rightarrow> nat \<Rightarrow> ('p, status) dma" where
  "kill_wait E channel 0 = State_Monad.return ALT_E_TMO"
| "kill_wait E channel (Suc n) =
     do { (status, current) \<leftarrow> alt_dma_channel_state_get E channel;
          (if status \<noteq> ALT_E_SUCCESS then State_Monad.return status
           else if current = ALT_DMA_CHANNEL_STATE_KILLING \<or> current = ALT_DMA_CHANNEL_STATE_STOPPED
                then State_Monad.return status
                else kill_wait E channel n) }"

definition alt_dma_channel_kill :: "('p, 'c) dma_env \<Rightarrow> nat \<Rightarrow> ('p, status) dma" where
  "alt_dma_channel_kill E channel =
     (if \<not> valid_channel channel then State_Monad.return ALT_E_BAD_ARG
      else do { flag \<leftarrow> channel_flag channel;
        (if \<not> alloced flag then State_Monad.return ALT_E_ERROR
         else do {
           on_bus (alt_write_word (ALT_DMA_DBGINST0_ADDR (secure_base E))
             (ALT_DMA_DBGINST0_INSTRUCTIONBYTE0_SET 0x1 OR
              ALT_DMA_DBGINST0_CHANNELNUMBER_SET (of_nat channel) OR
              ALT_DMA_DBGINST0_DEBUGTHREAD_SET ALT_DMA_DBGINST0_DEBUGTHREAD_E_CHANNEL));
           on_bus (alt_write_word (ALT_DMA_DBGCMD_ADDR (secure_base E)) 0);
           kill_wait E channel (20000 - 1) }) })"

text \<open>The channels \<open>i\<close> to 7 killed and freed, whatever the two calls answer.\<close>

function uninit_sweep :: "('p, 'c) dma_env \<Rightarrow> nat \<Rightarrow> ('p, unit) dma" where
  "uninit_sweep E i =
     (if i < 8
      then do { flag \<leftarrow> channel_flag i;
                (if alloced flag
                 then do { _ \<leftarrow> alt_dma_channel_kill E i; _ \<leftarrow> alt_dma_channel_free E i;
                           State_Monad.return () }
                 else State_Monad.return ());
                uninit_sweep E (i + 1) }
      else State_Monad.return ())"
  by pat_completeness auto
termination by (relation "measure (\<lambda>(E, i). 8 - i)") auto

declare uninit_sweep.simps [simp del]

definition alt_dma_uninit :: "('p, 'c) dma_env \<Rightarrow> soc_regs \<Rightarrow> ('p, status) dma" where
  "alt_dma_uninit E R =
     do { uninit_sweep E 0;
          on_bus (alt_setbits_word (regs E) (PERMODRST_ADDR R) (PERMODRST_DMA_MSK R));
          State_Monad.return ALT_E_SUCCESS }"

section \<open>Registers and events\<close>

definition alt_dma_channel_reg_get ::
  "('p, 'c) dma_env \<Rightarrow> nat \<Rightarrow> dma_reg option \<Rightarrow> ('p, status \<times> u32 option) dma" where
  "alt_dma_channel_reg_get E channel reg =
     (if \<not> valid_channel channel then State_Monad.return (ALT_E_BAD_ARG, None)
      else case reg of
        None \<Rightarrow> State_Monad.return (ALT_E_BAD_ARG, None)
      | Some r \<Rightarrow>
          do { v \<leftarrow> on_bus (alt_read_word (regs E)
                 (case r of SAR \<Rightarrow> ALT_DMA_SARx_ADDR (secure_base E) channel
                  | DAR \<Rightarrow> ALT_DMA_DARx_ADDR (secure_base E) channel
                  | CCR \<Rightarrow> ALT_DMA_CCRx_ADDR (secure_base E) channel));
               State_Monad.return (ALT_E_SUCCESS, Some v) })"

definition alt_dma_send_event :: "('p, 'c) dma_env \<Rightarrow> nat \<Rightarrow> ('p, status) dma" where
  "alt_dma_send_event E evt =
     (if \<not> valid_event E evt then State_Monad.return ALT_E_BAD_ARG
      else do {
        on_bus (alt_write_word (ALT_DMA_DBGINST0_ADDR (secure_base E))
          (ALT_DMA_DBGINST0_INSTRUCTIONBYTE0_SET 0x34 OR
           ALT_DMA_DBGINST0_INSTRUCTIONBYTE1_SET (push_bit 3 (of_nat evt)) OR
           ALT_DMA_DBGINST0_DEBUGTHREAD_SET ALT_DMA_DBGINST0_DEBUGTHREAD_E_MANAGER));
        on_bus (alt_write_word (ALT_DMA_DBGCMD_ADDR (secure_base E)) 0);
        State_Monad.return ALT_E_SUCCESS })"

definition alt_dma_manager_state_get :: "('p, 'c) dma_env \<Rightarrow> ('p, status \<times> u32) dma" where
  "alt_dma_manager_state_get E =
     do { raw \<leftarrow> on_bus (alt_read_word (regs E) (ALT_DMA_DSR_ADDR (secure_base E)));
          State_Monad.return (ALT_E_SUCCESS, ALT_DMA_DSR_DMASTATUS_GET raw) }"

definition alt_dma_manager_fault_status_get :: "('p, 'c) dma_env \<Rightarrow> ('p, status \<times> u32) dma" where
  "alt_dma_manager_fault_status_get E =
     do { v \<leftarrow> on_bus (alt_read_word (regs E) (ALT_DMA_FTRD_ADDR (secure_base E)));
          State_Monad.return (ALT_E_SUCCESS, v) }"

definition alt_dma_channel_fault_status_get ::
  "('p, 'c) dma_env \<Rightarrow> nat \<Rightarrow> ('p, status \<times> u32 option) dma" where
  "alt_dma_channel_fault_status_get E channel =
     (if \<not> valid_channel channel then State_Monad.return (ALT_E_BAD_ARG, None)
      else do { v \<leftarrow> on_bus (alt_read_word (regs E) (ALT_DMA_FTRx_ADDR (secure_base E) channel));
                State_Monad.return (ALT_E_SUCCESS, Some v) })"

datatype event_select = ALT_DMA_EVENT_SELECT_SEND_EVT | ALT_DMA_EVENT_SELECT_SIG_IRQ | SELECT_other

definition alt_dma_event_int_select :: "('p, 'c) dma_env \<Rightarrow> nat \<Rightarrow> event_select \<Rightarrow> ('p, status) dma" where
  "alt_dma_event_int_select E evt opt =
     (if \<not> valid_event E evt then State_Monad.return ALT_E_BAD_ARG
      else case opt of
        ALT_DMA_EVENT_SELECT_SEND_EVT \<Rightarrow>
          do { on_bus (alt_clrbits_word (regs E) (ALT_DMA_INTEN_ADDR (secure_base E)) (push_bit evt 1));
               State_Monad.return ALT_E_SUCCESS }
      | ALT_DMA_EVENT_SELECT_SIG_IRQ \<Rightarrow>
          do { on_bus (alt_setbits_word (regs E) (ALT_DMA_INTEN_ADDR (secure_base E)) (push_bit evt 1));
               State_Monad.return ALT_E_SUCCESS }
      | SELECT_other \<Rightarrow> State_Monad.return ALT_E_BAD_ARG)"

text \<open>
  The two status queries answer \<open>ALT_E_TRUE\<close> (1), \<open>ALT_E_FALSE\<close> (0) or a status code, as
  integers; \<open>ALT_E_FALSE\<close> is the same integer as \<open>ALT_E_SUCCESS\<close>.
\<close>

definition event_bit :: "addr \<Rightarrow> ('p, 'c) dma_env \<Rightarrow> nat \<Rightarrow> ('p, int) dma" where
  "event_bit a E evt =
     (if \<not> valid_event E evt then State_Monad.return (status_code ALT_E_BAD_ARG)
      else do { v \<leftarrow> on_bus (alt_read_word (regs E) a);
                State_Monad.return (if v AND push_bit evt 1 \<noteq> 0 then 1 else 0) })"

definition alt_dma_event_int_status_get_raw :: "('p, 'c) dma_env \<Rightarrow> nat \<Rightarrow> ('p, int) dma" where
  "alt_dma_event_int_status_get_raw E evt =
     event_bit (ALT_DMA_INT_EVENT_RIS_ADDR (secure_base E)) E evt"

definition alt_dma_int_status_get :: "('p, 'c) dma_env \<Rightarrow> nat \<Rightarrow> ('p, int) dma" where
  "alt_dma_int_status_get E irq = event_bit (ALT_DMA_INTMIS_ADDR (secure_base E)) E irq"

definition alt_dma_int_clear :: "('p, 'c) dma_env \<Rightarrow> nat \<Rightarrow> ('p, status) dma" where
  "alt_dma_int_clear E irq =
     (if \<not> valid_event E irq then State_Monad.return ALT_E_BAD_ARG
      else do { on_bus (alt_write_word (ALT_DMA_INTCLR_ADDR (secure_base E)) (push_bit irq 1));
                State_Monad.return ALT_E_SUCCESS })"

section \<open>Error correction\<close>

text \<open>\<open>alt_dma_is_init\<close>: the controller is out of reset.\<close>

definition alt_dma_is_init :: "('p, 'c) dma_env \<Rightarrow> soc_regs \<Rightarrow> ('p, bool) dma" where
  "alt_dma_is_init E R =
     do { permodrst \<leftarrow> on_bus (alt_read_word (regs E) (PERMODRST_ADDR R));
          State_Monad.return (permodrst AND PERMODRST_DMA_MSK R = 0) }"

text \<open>Every channel from \<open>i\<close> on is unallocated or stopped.\<close>

function channels_idle :: "('p, 'c) dma_env \<Rightarrow> nat \<Rightarrow> ('p, bool) dma" where
  "channels_idle E i =
     (if i < 8
      then do { flag \<leftarrow> channel_flag i;
                (if alloced flag
                 then do { (status, st) \<leftarrow> alt_dma_channel_state_get E i;
                           (if st \<noteq> ALT_DMA_CHANNEL_STATE_STOPPED then State_Monad.return False
                            else channels_idle E (i + 1)) }
                 else channels_idle E (i + 1)) }
      else State_Monad.return True)"
  by pat_completeness auto
termination by (relation "measure (\<lambda>(E, i). 8 - i)") auto

declare channels_idle.simps [simp del]

record ecc_regs =
  SYSMGR_ECC_DMA_ADDR :: addr
  SYSMGR_ECC_DMA_EN :: u32
  SYSMGR_ECC_DMA_SERR :: u32
  SYSMGR_ECC_DMA_DERR :: u32
  ECC_DMAC_CTL_ADDR :: addr
  ECC_DMAC_CTL_INITA :: u32
  ECC_DMAC_CTL_ECC_EN :: u32
  ECC_DMAC_INITSTAT_ADDR :: addr
  ECC_DMAC_INITCOMPLETEA :: u32
  ECC_DMAC_ERRINTEN_ADDR :: addr
  ECC_DMAC_SERRINTEN :: u32

definition ecc_start_cv :: "ecc_regs \<Rightarrow> u32 \<Rightarrow> ('p, status) dma" where
  "ecc_start_cv X block =
     (if block AND 7 \<noteq> 0 then State_Monad.return ALT_E_ERROR
      else do { on_bus (alt_write_word (SYSMGR_ECC_DMA_ADDR X) (SYSMGR_ECC_DMA_EN X));
                on_bus (alt_write_word (SYSMGR_ECC_DMA_ADDR X)
                  (SYSMGR_ECC_DMA_EN X OR SYSMGR_ECC_DMA_SERR X OR SYSMGR_ECC_DMA_DERR X));
                State_Monad.return ALT_E_SUCCESS })"

text \<open>The wait for the initialisation: the counter goes on from the channel sweep's 8 to 10000.\<close>

function ecc_wait :: "('p, 'c) dma_env \<Rightarrow> ecc_regs \<Rightarrow> nat \<Rightarrow> ('p, status) dma" where
  "ecc_wait E X i =
     do { v \<leftarrow> on_bus (alt_read_word (regs E) (ECC_DMAC_INITSTAT_ADDR X));
          (if v AND ECC_DMAC_INITCOMPLETEA X \<noteq> 0 then State_Monad.return ALT_E_SUCCESS
           else if i + 1 \<ge> 10000 then State_Monad.return ALT_E_TMO
           else ecc_wait E X (i + 1)) }"
  by pat_completeness auto
termination by (relation "measure (\<lambda>(E, X, i). 10000 - i)") auto

declare ecc_wait.simps [simp del]

definition ecc_start_a10 :: "('p, 'c) dma_env \<Rightarrow> ecc_regs \<Rightarrow> ('p, status) dma" where
  "ecc_start_a10 E X =
     do { on_bus (alt_write_word (ECC_DMAC_CTL_ADDR X) (ECC_DMAC_CTL_INITA X));
          status \<leftarrow> ecc_wait E X 8;
          (if status \<noteq> ALT_E_SUCCESS then State_Monad.return status
           else do { on_bus (alt_write_word (ECC_DMAC_CTL_ADDR X) (ECC_DMAC_CTL_ECC_EN X));
                     on_bus (alt_write_word (ECC_DMAC_ERRINTEN_ADDR X) (ECC_DMAC_SERRINTEN X));
                     State_Monad.return ALT_E_SUCCESS }) }"

definition alt_dma_ecc_start ::
  "('p, 'c) dma_env \<Rightarrow> soc_regs \<Rightarrow> ecc_regs \<Rightarrow> bool \<Rightarrow> u32 \<Rightarrow> ('p, status) dma" where
  "alt_dma_ecc_start E R X a10 block =
     do { ini \<leftarrow> alt_dma_is_init E R;
          (if \<not> ini then State_Monad.return ALT_E_ERROR
           else do { idle \<leftarrow> channels_idle E 0;
                     (if \<not> idle then State_Monad.return ALT_E_ERROR
                      else if a10 then ecc_start_a10 E X else ecc_start_cv X block) }) }"

end
