(* ===== verification/Dma_Program.thy ===== *)
theory Dma_Program
  imports Dma
begin

text \<open>
  The transfer functions of \<^verbatim>\<open>alt_dma.c\<close>, lines 1123 to 2619: each assembles a PL330 program
  for one transfer and starts it.  A segment function is a fixed sequence of assembler
  calls, each guarded by \<open>if (status == ALT_E_SUCCESS)\<close>, with all sizes computed beforehand;
  so a segment is the list of its calls, emitted up to the first that fails (\<open>emit_all\<close>).
\<close>

section \<open>Emission\<close>

definition emit :: "('p, 'c) dma_env \<Rightarrow> dma_call \<Rightarrow> ('p, status) dma" where
  "emit E c = on_program (program_emit E c)"

fun emit_all :: "('p, 'c) dma_env \<Rightarrow> dma_call list \<Rightarrow> ('p, status) dma" where
  "emit_all E [] = State_Monad.return ALT_E_SUCCESS"
| "emit_all E (c # cs) =
     do { status \<leftarrow> emit E c;
          (if status = ALT_E_SUCCESS then emit_all E cs else State_Monad.return status) }"

definition guarded :: "status \<Rightarrow> ('p, status) dma \<Rightarrow> ('p, status) dma" where
  "guarded status m = (if status = ALT_E_SUCCESS then m else State_Monad.return status)"

text \<open>\<open>ALT_MIN\<close>, and a call emitted only when the loop count is more than one.\<close>

definition ALT_MIN :: "u32 \<Rightarrow> u32 \<Rightarrow> u32" where
  "ALT_MIN a b = (if a > b then b else a)"

definition if_looped :: "u32 \<Rightarrow> dma_call \<Rightarrow> dma_call list" where
  "if_looped loopcount c = (if loopcount > 1 then [c] else [])"

section \<open>Channel control words\<close>

definition sb_len :: "u32 \<Rightarrow> u32" where "sb_len n = push_bit 4 (n - 1)"
definition db_len :: "u32 \<Rightarrow> u32" where "db_len n = push_bit 18 (n - 1)"

definition ccr_copy :: "ccr_opts \<Rightarrow> u32 \<Rightarrow> u32 \<Rightarrow> u32 \<Rightarrow> u32 \<Rightarrow> u32" where
  "ccr_copy opt sb ss db ds =
     sb OR ss OR SA_DEFAULT opt OR SP_DEFAULT opt OR SC opt 7 OR
     db OR ds OR DA_DEFAULT opt OR DP_DEFAULT opt OR DC opt 7 OR ES_DEFAULT opt"

definition ccr_zero :: "ccr_opts \<Rightarrow> u32 \<Rightarrow> u32 \<Rightarrow> u32" where
  "ccr_zero opt db ds =
     SB_DEFAULT opt OR SS_DEFAULT opt OR SA_DEFAULT opt OR SP_DEFAULT opt OR SC_DEFAULT opt OR
     db OR ds OR DA_DEFAULT opt OR DP_DEFAULT opt OR DC opt 7 OR ES_DEFAULT opt"

definition ccr_to_reg :: "ccr_opts \<Rightarrow> u32 \<Rightarrow> u32 \<Rightarrow> u32 \<Rightarrow> u32" where
  "ccr_to_reg opt ss_ds sb db =
     ss_ds OR sb OR SA_DEFAULT opt OR SP_DEFAULT opt OR SC opt 7 OR
     db OR DAF opt OR DP_DEFAULT opt OR DC_DEFAULT opt OR ES_DEFAULT opt"

definition ccr_from_reg :: "ccr_opts \<Rightarrow> u32 \<Rightarrow> u32 \<Rightarrow> u32 \<Rightarrow> u32" where
  "ccr_from_reg opt ss_ds sb db =
     ss_ds OR sb OR SAF opt OR SP_DEFAULT opt OR SC_DEFAULT opt OR
     db OR DA_DEFAULT opt OR DP_DEFAULT opt OR DC opt 7 OR ES_DEFAULT opt"

section \<open>Memory to memory\<close>

text \<open>Up to seven single bytes align the source; the calls, and the size left.\<close>

definition m2m_align :: "ccr_opts \<Rightarrow> u32 \<Rightarrow> u32 \<Rightarrow> dma_call list \<times> u32" where
  "m2m_align opt src sizeleft =
     (if src AND 0x7 \<noteq> 0
      then let aligncount = ALT_MIN (8 - (src AND 0x7)) sizeleft
           in ([DMAMOV CCR (ccr_copy opt (sb_len aligncount) (SS8 opt) (db_len aligncount) (DS8 opt)),
                DMALD, DMAST],
               sizeleft - aligncount)
      else ([], sizeleft))"

function m2m_loops :: "u32 \<Rightarrow> dma_call list" where
  "m2m_loops length16burstcount =
     (if length16burstcount > 0
      then let loopcount = ALT_MIN length16burstcount 256
           in if_looped loopcount (DMALP loopcount) @ [DMALD, DMAST] @ if_looped loopcount DMALPEND @
              m2m_loops (length16burstcount - loopcount)
      else [])"
  by pat_completeness auto
termination
proof (relation "measure unat")
  fix n loopcount :: u32
  assume "0 < n" and "loopcount = ALT_MIN n 256"
  then have "loopcount \<le> n" and "0 < loopcount" by (auto simp: ALT_MIN_def)
  then show "(n - loopcount, n) \<in> measure unat"
    by (simp add: unat_sub word_le_nat_alt word_less_nat_alt)
qed simp

declare m2m_loops.simps [simp del]

definition m2m_burst16 :: "ccr_opts \<Rightarrow> u32 \<Rightarrow> dma_call list" where
  "m2m_burst16 opt burstcount =
     (if drop_bit 4 burstcount \<noteq> 0
      then DMAMOV CCR (ccr_copy opt (SB16 opt) (SS64 opt) (DB16 opt) (DS64 opt)) #
           m2m_loops (drop_bit 4 burstcount)
      else [])"

text \<open>One burst of \<open>n\<close> beats.\<close>

definition m2m_burst :: "ccr_opts \<Rightarrow> u32 \<Rightarrow> u32 \<Rightarrow> u32 \<Rightarrow> dma_call list" where
  "m2m_burst opt ss ds n =
     (if n \<noteq> 0
      then [DMAMOV CCR (ccr_copy opt (sb_len n) ss (db_len n) ds), DMALD, DMAST] else [])"

text \<open>The bytes an unaligned destination leaves in the MFIFO are stored one by one.\<close>

definition m2m_correct :: "ccr_opts \<Rightarrow> u32 \<Rightarrow> u32 \<Rightarrow> dma_call list" where
  "m2m_correct opt dst src =
     (let correctcount = (dst + (8 - (src AND 0x7))) AND 0x7
      in [DMAMOV CCR (ccr_copy opt (sb_len correctcount) (SS8 opt) (db_len correctcount) (DS8 opt)),
          DMAST])"

definition m2m_calls :: "ccr_opts \<Rightarrow> u32 \<Rightarrow> u32 \<Rightarrow> u32 \<Rightarrow> dma_call list" where
  "m2m_calls opt dst src segsize =
     (case m2m_align opt src segsize of (align, sizeleft) \<Rightarrow>
        let burstcount = drop_bit 3 sizeleft;
            correction = (burstcount \<noteq> 0 \<and> (src AND 0x7) \<noteq> (dst AND 0x7));
            sizeleft = sizeleft AND 0x7;
            rest = (if drop_bit 4 burstcount \<noteq> 0 then burstcount AND 0xf else burstcount)
        in [DMAMOV SAR src, DMAMOV DAR dst] @ align @ m2m_burst16 opt burstcount @
           m2m_burst opt (SS64 opt) (DS64 opt) rest @
           (if correction then m2m_correct opt dst src else []) @
           m2m_burst opt (SS8 opt) (DS8 opt) sizeleft)"

definition alt_dma_memory_to_memory_segment ::
  "('p, 'c) dma_env \<Rightarrow> u32 \<Rightarrow> u32 \<Rightarrow> u32 \<Rightarrow> ('p, status) dma" where
  "alt_dma_memory_to_memory_segment E segdstpa segsrcpa segsize =
     emit_all E (m2m_calls (opts E) segdstpa segsrcpa segsize)"

section \<open>Zero to memory\<close>

definition z2m_burst :: "ccr_opts \<Rightarrow> u32 \<Rightarrow> u32 \<Rightarrow> dma_call list" where
  "z2m_burst opt ds n =
     (if n \<noteq> 0 then [DMAMOV CCR (ccr_zero opt (db_len n) ds), DMASTZ] else [])"

definition z2m_align :: "ccr_opts \<Rightarrow> u32 \<Rightarrow> u32 \<Rightarrow> dma_call list \<times> u32" where
  "z2m_align opt buf sizeleft =
     (if buf AND 0x7 \<noteq> 0
      then let aligncount = ALT_MIN (8 - (buf AND 0x7)) sizeleft
           in ([DMAMOV CCR (ccr_zero opt (db_len aligncount) (DS8 opt)), DMASTZ], sizeleft - aligncount)
      else ([], sizeleft))"

text \<open>The two nested loop counts for \<open>n\<close> bursts.\<close>

definition z2m_counts :: "u32 \<Rightarrow> u32 \<times> u32" where
  "z2m_counts n =
     (if n > 256
      then let loop0 = ALT_MIN (n div 256) 256 in (if loop0 \<noteq> 0 then loop0 else 1, 256)
      else (1, n))"

lemma z2m_counts_bounds:
  assumes "0 < n" and "z2m_counts n = (loop0, loop1)"
  shows "unat loop0 * unat loop1 \<le> unat n \<and> 0 < unat loop0 * unat loop1 \<and>
    unat (loop0 * loop1) = unat loop0 * unat loop1 \<and> unat loop0 \<le> 256 \<and> unat loop1 \<le> 256"
proof (cases "n > 256")
  case True
  then have n: "256 < unat n" by (simp add: word_less_nat_alt)
  have d: "unat (n div 256) = unat n div 256" by (simp add: unat_div)
  then have "0 < unat (n div 256)" using n by (simp add: div_greater_zero_iff)
  then have l0: "loop0 = ALT_MIN (n div 256) 256" "loop1 = 256"
    using assms(2) True by (auto simp: z2m_counts_def ALT_MIN_def Let_def split: if_splits)
  then have u: "unat loop0 = min (unat n div 256) 256"
    using d by (auto simp: ALT_MIN_def word_less_nat_alt min_def)
  have le: "unat loop0 * 256 \<le> unat n"
  proof -
    have "unat loop0 * 256 \<le> unat n div 256 * 256" using u by simp
    also have "\<dots> \<le> unat n" by simp
    finally show ?thesis .
  qed
  have "unat n < 2 ^ 32" using unsigned_less[of n] by simp
  then have "unat (loop0 * loop1) = unat loop0 * unat loop1"
    using le l0(2) by (simp add: unat_word_ariths)
  moreover have "0 < unat loop0" using u \<open>0 < unat (n div 256)\<close> d by simp
  ultimately show ?thesis using le u l0(2) by simp
next
  case False
  then have "loop0 = 1" "loop1 = n" "unat n \<le> 256"
    using assms(2) by (auto simp: z2m_counts_def word_less_nat_alt)
  then show ?thesis using assms(1) by (simp add: word_less_nat_alt)
qed

function z2m_loops :: "u32 \<Rightarrow> dma_call list" where
  "z2m_loops length16burstcount =
     (if length16burstcount > 0
      then case z2m_counts length16burstcount of (loop0, loop1) \<Rightarrow>
             if_looped loop0 (DMALP loop0) @ if_looped loop1 (DMALP loop1) @ [DMASTZ] @
             if_looped loop1 DMALPEND @ if_looped loop0 DMALPEND @
             z2m_loops (length16burstcount - loop0 * loop1)
      else [])"
  by pat_completeness auto
termination
proof (relation "measure unat")
  fix n loop0 loop1
  assume "0 < n" and "(loop0, loop1) = z2m_counts n"
  then have "unat (loop0 * loop1) \<le> unat n" "0 < unat (loop0 * loop1)"
    using z2m_counts_bounds[of n loop0 loop1] by simp_all
  then show "(n - loop0 * loop1, n) \<in> measure unat"
    by (simp add: unat_sub word_le_nat_alt)
qed simp

declare z2m_loops.simps [simp del]

definition z2m_calls :: "ccr_opts \<Rightarrow> u32 \<Rightarrow> u32 \<Rightarrow> dma_call list" where
  "z2m_calls opt buf segsize =
     (case z2m_align opt buf segsize of (align, sizeleft) \<Rightarrow>
        let burstcount = drop_bit 3 sizeleft;
            sizeleft = sizeleft AND 0x7;
            rest = (if drop_bit 4 burstcount \<noteq> 0 then burstcount AND 0xf else burstcount)
        in [DMAMOV DAR buf] @ align @
           (if drop_bit 4 burstcount \<noteq> 0
            then DMAMOV CCR (ccr_zero opt (DB16 opt) (DS64 opt)) # z2m_loops (drop_bit 4 burstcount)
            else []) @
           z2m_burst opt (DS64 opt) rest @ z2m_burst opt (DS8 opt) sizeleft)"

definition alt_dma_zero_to_memory_segment ::
  "('p, 'c) dma_env \<Rightarrow> u32 \<Rightarrow> u32 \<Rightarrow> ('p, status) dma" where
  "alt_dma_zero_to_memory_segment E segbufpa segsize = emit_all E (z2m_calls (opts E) segbufpa segsize)"

section \<open>Memory to register and register to memory\<close>

text \<open>The two directions share their loops: 256-fold super loops of 16-beat bursts, then single loops.\<close>

function reg_super_loops :: "u32 \<Rightarrow> dma_call list" where
  "reg_super_loops loop256length16burst =
     (if loop256length16burst > 0
      then let loopcount = ALT_MIN loop256length16burst 256
           in if_looped loopcount (DMALP loopcount) @ [DMALP 256, DMALD, DMAST, DMALPEND] @
              if_looped loopcount DMALPEND @ reg_super_loops (loop256length16burst - loopcount)
      else [])"
  by pat_completeness auto
termination
proof (relation "measure unat")
  fix n loopcount :: u32
  assume "0 < n" and "loopcount = ALT_MIN n 256"
  then have "loopcount \<le> n" and "0 < loopcount" by (auto simp: ALT_MIN_def)
  then show "(n - loopcount, n) \<in> measure unat"
    by (simp add: unat_sub word_le_nat_alt word_less_nat_alt)
qed simp

declare reg_super_loops.simps [simp del]

definition reg_loops :: "u32 \<Rightarrow> dma_call list" where
  "reg_loops length16burst =
     (if drop_bit 8 length16burst \<noteq> 0 then reg_super_loops (drop_bit 8 length16burst) else []) @
     (let n = (if drop_bit 8 length16burst \<noteq> 0 then length16burst AND (push_bit 8 1 - 1)
               else length16burst)
      in if n > 0 then if_looped n (DMALP n) @ [DMALD, DMAST] @ if_looped n DMALPEND else [])"

definition m2r_calls :: "ccr_opts \<Rightarrow> u32 \<Rightarrow> u32 \<Rightarrow> u32 \<Rightarrow> dma_call list" where
  "m2r_calls opt ccr_ss_ds_mask src cnt =
     [DMAMOV SAR src] @
     (if drop_bit 4 cnt \<noteq> 0
      then DMAMOV CCR (ccr_to_reg opt ccr_ss_ds_mask (SB16 opt) (DB16 opt)) # reg_loops (drop_bit 4 cnt)
      else []) @
     (let countleft = (if drop_bit 4 cnt \<noteq> 0 then cnt AND 0xf else cnt)
      in if countleft \<noteq> 0
         then [DMAMOV CCR (ccr_to_reg opt ccr_ss_ds_mask (sb_len countleft) (db_len countleft)),
               DMALD, DMAST]
         else [])"

definition alt_dma_memory_to_register_segment ::
  "('p, 'c) dma_env \<Rightarrow> u32 \<Rightarrow> u32 \<Rightarrow> u32 \<Rightarrow> ('p, status) dma" where
  "alt_dma_memory_to_register_segment E ccr_ss_ds_mask segsrcpa cnt =
     emit_all E (m2r_calls (opts E) ccr_ss_ds_mask segsrcpa cnt)"

definition r2m_calls :: "ccr_opts \<Rightarrow> u32 \<Rightarrow> u32 \<Rightarrow> u32 \<Rightarrow> dma_call list" where
  "r2m_calls opt ccr_ss_ds_mask dst cnt =
     [DMAMOV DAR dst] @
     (if drop_bit 4 cnt \<noteq> 0
      then DMAMOV CCR (ccr_from_reg opt ccr_ss_ds_mask (SB16 opt) (DB16 opt)) # reg_loops (drop_bit 4 cnt)
      else []) @
     (let countleft = (if drop_bit 4 cnt \<noteq> 0 then cnt AND 0xf else cnt)
      in if countleft \<noteq> 0
         then [DMAMOV CCR (ccr_from_reg opt ccr_ss_ds_mask (sb_len countleft) (db_len countleft)),
               DMALD, DMAST]
         else [])"

definition alt_dma_register_to_memory_segment ::
  "('p, 'c) dma_env \<Rightarrow> u32 \<Rightarrow> u32 \<Rightarrow> u32 \<Rightarrow> ('p, status) dma" where
  "alt_dma_register_to_memory_segment E ccr_ss_ds_mask segdstpa cnt =
     emit_all E (r2m_calls (opts E) ccr_ss_ds_mask segdstpa cnt)"

section \<open>Drivers\<close>

text \<open>
  The end all four share: the event, the end of the program, and its start, or the clean-up.
  Only the memory-to-memory transfer emits a write barrier before the event (\<open>wmb\<close>).
\<close>

definition finish_program ::
  "('p, 'c) dma_env \<Rightarrow> nat \<Rightarrow> bool \<Rightarrow> bool \<Rightarrow> nat \<Rightarrow> status \<Rightarrow> ('p, status) dma" where
  "finish_program E channel wmb send_evt evt status =
     do { status \<leftarrow> (if send_evt
                     then do { status \<leftarrow> (if wmb then guarded status (emit E DMAWMB)
                                           else State_Monad.return status);
                               guarded status (emit E (DMASEV evt)) }
                     else State_Monad.return status);
          status \<leftarrow> guarded status (emit E DMAEND);
          (if status \<noteq> ALT_E_SUCCESS
           then do { _ \<leftarrow> on_program (program_clear E); State_Monad.return status }
           else alt_dma_channel_exec E channel) }"

text \<open>
  The transfer loops run until the size is used up; the segment sizes come from the address
  translation, so a loop is given as many rounds as \<open>fuel\<close> and answers \<open>None\<close> if they were
  not enough.  A segment that is being worked on is its physical address and size left.
\<close>

fun m2m_segments ::
  "nat \<Rightarrow> ('p, 'c) dma_env \<Rightarrow> u32 \<Rightarrow> status \<Rightarrow> (u32 \<times> u32) \<times> 'c \<Rightarrow> (u32 \<times> u32) \<times> 'c \<Rightarrow>
   ('p, (status \<times> 'c \<times> 'c) option) dma" where
  "m2m_segments fuel E sz status ((pa_dst, n_dst), c_dst) ((pa_src, n_src), c_src) =
     (if sz = 0 \<or> status \<noteq> ALT_E_SUCCESS then State_Monad.return (Some (status, c_dst, c_src))
      else case fuel of
        0 \<Rightarrow> State_Monad.return None
      | Suc fuel' \<Rightarrow>
          (let (status, (pa_dst, n_dst), c_dst) =
                 (if n_dst = 0 then coalesce_next E c_dst else (status, (pa_dst, n_dst), c_dst));
               (status, (pa_src, n_src), c_src) =
                 (if status = ALT_E_SUCCESS \<and> n_src = 0 then coalesce_next E c_src
                  else (status, (pa_src, n_src), c_src));
               segsize = ALT_MIN n_dst n_src
           in do { status \<leftarrow> guarded status
                               (alt_dma_memory_to_memory_segment E pa_dst pa_src segsize);
                   let n_dst = n_dst - segsize;
                   let n_src = n_src - segsize;
                   m2m_segments fuel' E (sz - ALT_MIN segsize sz) status
                     ((if n_dst \<noteq> 0 then pa_dst + segsize else pa_dst, n_dst), c_dst)
                     ((if n_src \<noteq> 0 then pa_src + segsize else pa_src, n_src), c_src) }))"

definition overlaps :: "u32 \<Rightarrow> u32 \<Rightarrow> u32 \<Rightarrow> bool" where
  "overlaps dst src sz = (if dst > src then src + sz - 1 > dst else dst + sz - 1 > src)"

definition alt_dma_memory_to_memory ::
  "nat \<Rightarrow> ('p, 'c) dma_env \<Rightarrow> nat \<Rightarrow> u32 \<Rightarrow> u32 \<Rightarrow> u32 \<Rightarrow> bool \<Rightarrow> nat \<Rightarrow> ('p, status option) dma" where
  "alt_dma_memory_to_memory fuel E channel dst src sz send_evt evt =
     (if sz = 0 \<and> \<not> send_evt then State_Monad.return (Some ALT_E_SUCCESS)
      else do {
        status \<leftarrow> on_program (program_init E);
        (if sz = 0 then do { r \<leftarrow> finish_program E channel True send_evt evt status;
                             State_Monad.return (Some r) }
         else if overlaps dst src sz then State_Monad.return (Some ALT_E_BAD_ARG)
         else do {
           let (st_dst, c_dst) = coalesce_begin E dst sz;
           let status = (if status = ALT_E_SUCCESS then st_dst else status);
           let (st_src, c_src) = coalesce_begin E src sz;
           let status = (if status = ALT_E_SUCCESS then st_src else status);
           r \<leftarrow> m2m_segments fuel E sz status ((0, 0), c_dst) ((0, 0), c_src);
           (case r of
              None \<Rightarrow> State_Monad.return None
            | Some (status, c_dst, c_src) \<Rightarrow>
                do { let status = (if status = ALT_E_SUCCESS then coalesce_end E c_dst else status);
                     let status = (if status = ALT_E_SUCCESS then coalesce_end E c_src else status);
                     r \<leftarrow> finish_program E channel True send_evt evt status;
                     State_Monad.return (Some r) }) }) })"

text \<open>The loop of the other three, over the segments of one buffer; \<open>seg\<close> emits one segment.\<close>

fun segments ::
  "nat \<Rightarrow> ('p, 'c) dma_env \<Rightarrow> (u32 \<Rightarrow> u32 \<Rightarrow> ('p, status) dma) \<Rightarrow> u32 \<Rightarrow> status \<Rightarrow> 'c \<Rightarrow>
   ('p, (status \<times> 'c) option) dma" where
  "segments fuel E seg sz status c =
     (if sz = 0 \<or> status \<noteq> ALT_E_SUCCESS then State_Monad.return (Some (status, c))
      else case fuel of
        0 \<Rightarrow> State_Monad.return None
      | Suc fuel' \<Rightarrow>
          (case coalesce_next E c of (status, (segpa, segsize), c) \<Rightarrow>
             do { status \<leftarrow> guarded status (seg segpa segsize);
                  segments fuel' E seg (sz - segsize) status c }))"

declare m2m_segments.simps [simp del] segments.simps [simp del]

definition transfer ::
  "nat \<Rightarrow> ('p, 'c) dma_env \<Rightarrow> nat \<Rightarrow> (u32 \<Rightarrow> u32 \<Rightarrow> ('p, status) dma) \<Rightarrow> u32 \<Rightarrow> u32 \<Rightarrow> bool \<Rightarrow> nat \<Rightarrow>
   status \<Rightarrow> ('p, status option) dma" where
  "transfer fuel E channel seg buf sz send_evt evt status =
     do { let (st, c) = coalesce_begin E buf sz;
          let status = (if status = ALT_E_SUCCESS then st else status);
          r \<leftarrow> segments fuel E seg sz status c;
          (case r of
             None \<Rightarrow> State_Monad.return None
           | Some (status, c) \<Rightarrow>
               do { let status = (if status = ALT_E_SUCCESS then coalesce_end E c else status);
                    r \<leftarrow> finish_program E channel False send_evt evt status;
                    State_Monad.return (Some r) }) }"

definition alt_dma_zero_to_memory ::
  "nat \<Rightarrow> ('p, 'c) dma_env \<Rightarrow> nat \<Rightarrow> u32 \<Rightarrow> u32 \<Rightarrow> bool \<Rightarrow> nat \<Rightarrow> ('p, status option) dma" where
  "alt_dma_zero_to_memory fuel E channel buf sz send_evt evt =
     (if sz = 0 \<and> \<not> send_evt then State_Monad.return (Some ALT_E_SUCCESS)
      else do {
        status \<leftarrow> on_program (program_init E);
        (if sz = 0 then do { r \<leftarrow> finish_program E channel False send_evt evt status;
                             State_Monad.return (Some r) }
         else transfer fuel E channel (alt_dma_zero_to_memory_segment E) buf sz send_evt evt status) })"

text \<open>The register width in bits: the CCR burst sizes and the logarithm of its bytes.\<close>

definition reg_width :: "ccr_opts \<Rightarrow> u32 \<Rightarrow> (u32 \<times> nat) option" where
  "reg_width opt bits =
     (if bits = 8 then Some (SS8 opt OR DS8 opt, 0)
      else if bits = 16 then Some (SS16 opt OR DS16 opt, 1)
      else if bits = 32 then Some (SS32 opt OR DS32 opt, 2)
      else if bits = 64 then Some (SS64 opt OR DS64 opt, 3)
      else None)"

text \<open>
  The common shape of the two register transfers: check the width and the alignment of both
  addresses, set the register's address (\<open>reg\<close>, in \<open>mov\<close>) and transfer \<open>count\<close> registers to
  or from \<open>buf\<close>.  An unsupported width leaves the logarithm 0 and fails the call.
\<close>

definition register_transfer ::
  "nat \<Rightarrow> ('p, 'c) dma_env \<Rightarrow> nat \<Rightarrow> dma_reg \<Rightarrow> (u32 \<Rightarrow> u32 \<Rightarrow> u32 \<Rightarrow> ('p, status) dma) \<Rightarrow>
   u32 \<Rightarrow> u32 \<Rightarrow> u32 \<Rightarrow> u32 \<Rightarrow> bool \<Rightarrow> nat \<Rightarrow> ('p, status option) dma" where
  "register_transfer fuel E channel mov segment reg buf cnt bits send_evt evt =
     (if cnt = 0 \<and> \<not> send_evt then State_Monad.return (Some ALT_E_SUCCESS)
      else do {
        status \<leftarrow> on_program (program_init E);
        (if cnt = 0 then do { r \<leftarrow> finish_program E channel False send_evt evt status;
                              State_Monad.return (Some r) }
         else do {
           let (msk, log2) = (case reg_width (opts E) bits of Some w \<Rightarrow> w | None \<Rightarrow> (0, 0));
           let status = (if status = ALT_E_SUCCESS \<and> reg_width (opts E) bits = None
                         then ALT_E_BAD_ARG else status);
           let low = push_bit log2 1 - 1;
           let status = (if status = ALT_E_SUCCESS \<and> (reg AND low \<noteq> 0 \<or> buf AND low \<noteq> 0)
                         then ALT_E_BAD_ARG else status);
           status \<leftarrow> guarded status (emit E (DMAMOV mov reg));
           transfer fuel E channel (\<lambda>pa n. segment msk pa (drop_bit log2 n)) buf
             (cnt * push_bit log2 1) send_evt evt status }) })"

definition alt_dma_memory_to_register ::
  "nat \<Rightarrow> ('p, 'c) dma_env \<Rightarrow> nat \<Rightarrow> u32 \<Rightarrow> u32 \<Rightarrow> u32 \<Rightarrow> u32 \<Rightarrow> bool \<Rightarrow> nat \<Rightarrow> ('p, status option) dma"
where
  "alt_dma_memory_to_register fuel E channel dst_reg src_buf cnt register_width_bits send_evt evt =
     register_transfer fuel E channel DAR (alt_dma_memory_to_register_segment E)
       dst_reg src_buf cnt register_width_bits send_evt evt"

definition alt_dma_register_to_memory ::
  "nat \<Rightarrow> ('p, 'c) dma_env \<Rightarrow> nat \<Rightarrow> u32 \<Rightarrow> u32 \<Rightarrow> u32 \<Rightarrow> u32 \<Rightarrow> bool \<Rightarrow> nat \<Rightarrow> ('p, status option) dma"
where
  "alt_dma_register_to_memory fuel E channel dst_buf src_reg cnt register_width_bits send_evt evt =
     register_transfer fuel E channel SAR (alt_dma_register_to_memory_segment E)
       src_reg dst_buf cnt register_width_bits send_evt evt"

end
