(* ===== verification/Pl330.thy ===== *)
theory Pl330
  imports Dma
begin

text \<open>
  What the assembled programs do: a reference semantics of the PL330 channel instructions the
  driver uses, after the PL330 technical reference manual.  It is the specification the
  transfer functions are proved against, not code of the repository.

  A burst moves as many bytes as beats of the beat size; with an incrementing address that
  is not aligned to the beat size its first beat is partial.  A store of more bytes than
  the MFIFO holds aborts the channel (\<open>None\<close>).  With a fixed address the beats come from, or
  go to, a device register: \<open>rs\<close> is the bytes that register delivers, in order.  The exception is
  a fixed source in memory: the words at \<open>cells\<close>, which a program loads again and again.
  \<open>accesses\<close> records what crosses the registers, by address: each beat written, each load of so
  many bytes.

  A peripheral grants transfers: \<open>DMAWFP\<close> waits for a single or a burst request and remembers its
  kind; for that request the peripheral has room for (or holds) \<open>room\<close> bytes.  A load or store
  with a modifier is executed if the modifier is the kind of the request and skipped if it is
  the other; with the modifier of a single request it moves one beat, whatever the burst length.
  Moving more bytes from or to the register than the request granted overruns its FIFO and is
  an abort here (if \<open>per_beat\<close>, the FIFO has an entry per beat, whatever its width, and the
  request grants entries), and so is a conditional loop end whose modifier is not the kind of the request.
\<close>

section \<open>Channel control fields\<close>

definition src_inc :: "u32 \<Rightarrow> bool" where "src_inc w \<longleftrightarrow> bit w 0"
definition src_size :: "u32 \<Rightarrow> nat" where "src_size w = 2 ^ unat (drop_bit 1 w AND 7)"
definition src_len :: "u32 \<Rightarrow> nat" where "src_len w = unat (drop_bit 4 w AND 15) + 1"
definition dst_inc :: "u32 \<Rightarrow> bool" where "dst_inc w \<longleftrightarrow> bit w 14"
definition dst_size :: "u32 \<Rightarrow> nat" where "dst_size w = 2 ^ unat (drop_bit 15 w AND 7)"
definition dst_len :: "u32 \<Rightarrow> nat" where "dst_len w = unat (drop_bit 18 w AND 15) + 1"

text \<open>
  The documented values of the option words: the six fields above are set as their names
  say, and no other option touches them.
\<close>

definition ccr_fields :: u32 where "ccr_fields = 0x003fc0ff"

definition ccr_opts_ok :: "ccr_opts \<Rightarrow> bool" where
  "ccr_opts_ok opt \<longleftrightarrow>
     SB1 opt = 0 \<and> SB16 opt = 0xf0 \<and> SS8 opt = 0 \<and> SS16 opt = 2 \<and> SS32 opt = 4 \<and> SS64 opt = 6 \<and>
     SA_DEFAULT opt = 1 \<and> SAF opt = 0 \<and> SAI opt = 1 \<and>
     DB1 opt = 0 \<and> DB16 opt = 0x3c0000 \<and> DS8 opt = 0 \<and> DS16 opt = 0x8000 \<and> DS32 opt = 0x10000 \<and>
     DS64 opt = 0x18000 \<and> DA_DEFAULT opt = 0x4000 \<and> DAF opt = 0 \<and> DAI opt = 0x4000 \<and>
     SB_DEFAULT opt AND 0x003fc000 = 0 \<and> SS_DEFAULT opt AND 0x003fc000 = 0 \<and>
     SP_DEFAULT opt AND ccr_fields = 0 \<and> SC opt 7 AND ccr_fields = 0 \<and>
     SC_DEFAULT opt AND ccr_fields = 0 \<and> DP_DEFAULT opt AND ccr_fields = 0 \<and>
     DC opt 7 AND ccr_fields = 0 \<and> DC_DEFAULT opt AND ccr_fields = 0 \<and>
     ES_DEFAULT opt AND ccr_fields = 0"

section \<open>Instructions\<close>

datatype reg_access = Put nat "byte list" | Get nat nat

record pl330 =
  sar :: nat
  dar :: nat
  ccr :: u32
  mfifo :: "byte list"
  memory :: mem
  reg_in :: nat
  reg_out :: "byte list"
  accesses :: "reg_access list"
  cells :: "nat set"
  per_beat :: bool
  room :: "dma_mod \<Rightarrow> nat"
  request :: "dma_mod option"
  credit :: nat

definition load_count :: "pl330 \<Rightarrow> nat" where
  "load_count m = src_len (ccr m) * src_size (ccr m) -
     (if src_inc (ccr m) then sar m mod src_size (ccr m) else 0)"

definition store_count :: "pl330 \<Rightarrow> nat" where
  "store_count m = dst_len (ccr m) * dst_size (ccr m) -
     (if dst_inc (ccr m) then dar m mod dst_size (ccr m) else 0)"

text \<open>The beats of a transfer, and what crosses the register.\<close>

definition beats :: "nat \<Rightarrow> byte list \<Rightarrow> byte list list" where
  "beats z bs = map (\<lambda>i. take z (drop (i * z) bs)) [0..<length bs div z]"

lemma upt_shift: "[0..<q + r] = [0..<q] @ map ((+) q) [0..<r]"
  by (induction r) simp_all

lemma beats_append:
  assumes "0 < z" and "z dvd length a"
  shows "beats z (a @ b) = beats z a @ beats z b"
proof -
  obtain q where q: "length a = z * q" using assms(2) by (rule dvdE)
  have n: "length (a @ b) div z = q + length b div z" "length a div z = q" using assms(1) by (simp_all add: q)
  have a: "take z (drop (i * z) (a @ b)) = take z (drop (i * z) a)" if "i < q" for i
  proof -
    have "(i + 1) * z \<le> q * z" using that by (intro mult_right_mono) simp_all
    then have "i * z + z \<le> length a" by (simp add: q mult.commute)
    then show ?thesis by simp
  qed
  have b: "take z (drop ((q + i) * z) (a @ b)) = take z (drop (i * z) b)" for i
  proof -
    have "(q + i) * z = length a + i * z" by (simp add: q algebra_simps)
    then show ?thesis by simp
  qed
  have "beats z (a @ b) = map (\<lambda>i. take z (drop (i * z) (a @ b))) ([0..<q] @ map ((+) q) [0..<length b div z])"
    by (simp only: beats_def n(1) upt_shift)
  also have "\<dots> = map (\<lambda>i. take z (drop (i * z) a)) [0..<q] @ map (\<lambda>i. take z (drop (i * z) b)) [0..<length b div z]"
    unfolding map_append map_map o_def b by (intro arg_cong2[where f = "(@)"] refl map_cong) (simp_all only: set_upt atLeastLessThan_iff a)
  finally show ?thesis by (simp only: beats_def n(2))
qed

lemma beats_Nil [simp]: "beats z [] = []"
  by (simp add: beats_def)

lemma beats_1 [simp]: "beats 1 bs = map (\<lambda>b. [b]) bs" "beats (Suc 0) bs = map (\<lambda>b. [b]) bs"
  by (auto simp: beats_def take_Suc_conv_app_nth intro: nth_equalityI)

definition cell_bytes :: "nat \<Rightarrow> pl330 \<Rightarrow> byte list" where
  "cell_bytes n m = map (\<lambda>i. memory m (sar m + i mod src_size (ccr m))) [0..<n]"

definition fixed_load :: "mem \<Rightarrow> nat \<Rightarrow> pl330 \<Rightarrow> pl330" where
  "fixed_load rs n m =
     (if sar m \<in> cells m then m\<lparr> mfifo := mfifo m @ cell_bytes n m \<rparr>
      else m\<lparr> mfifo := mfifo m @ bytes_at rs (reg_in m) n, reg_in := reg_in m + n,
              accesses := accesses m @ [Get (sar m) n] \<rparr>)"

definition reg_store :: "byte list \<Rightarrow> pl330 \<Rightarrow> pl330" where
  "reg_store bs m =
     m\<lparr> reg_out := reg_out m @ bs, accesses := accesses m @ map (Put (dar m)) (beats (dst_size (ccr m)) bs) \<rparr>"

lemma reg_store_append:
  assumes "dst_size (ccr m) dvd length a"
  shows "reg_store b (reg_store a m) = reg_store (a @ b) m"
  using assms by (simp add: reg_store_def beats_append dst_size_def)

definition do_load :: "mem \<Rightarrow> pl330 \<Rightarrow> pl330" where
  "do_load rs m =
     (let n = load_count m
      in if src_inc (ccr m)
         then m\<lparr> mfifo := mfifo m @ bytes_at (memory m) (sar m) n, sar := sar m + n \<rparr>
         else fixed_load rs n m)"

definition do_store :: "byte list \<Rightarrow> pl330 \<Rightarrow> pl330" where
  "do_store bs m =
     (if dst_inc (ccr m)
      then m\<lparr> memory := store_bytes (memory m) (dar m) bs, dar := dar m + length bs \<rparr>
      else reg_store bs m)"

text \<open>One beat: what a load or store of a single request moves.\<close>

definition load_beat :: "pl330 \<Rightarrow> nat" where
  "load_beat m = src_size (ccr m) - (if src_inc (ccr m) then sar m mod src_size (ccr m) else 0)"

definition store_beat :: "pl330 \<Rightarrow> nat" where
  "store_beat m = dst_size (ccr m) - (if dst_inc (ccr m) then dar m mod dst_size (ccr m) else 0)"

definition cost :: "nat \<Rightarrow> nat \<Rightarrow> pl330 \<Rightarrow> nat" where
  "cost z n m = (if per_beat m then n div z else n)"

definition granted_load :: "mem \<Rightarrow> nat \<Rightarrow> pl330 \<Rightarrow> pl330 option" where
  "granted_load rs n m =
     (if src_inc (ccr m)
      then Some (m\<lparr> mfifo := mfifo m @ bytes_at (memory m) (sar m) n, sar := sar m + n \<rparr>)
      else if sar m \<in> cells m then Some (fixed_load rs n m)
      else if cost (src_size (ccr m)) n m \<le> credit m
      then Some (fixed_load rs n (m\<lparr> credit := credit m - cost (src_size (ccr m)) n m \<rparr>))
      else None)"

definition granted_store :: "nat \<Rightarrow> pl330 \<Rightarrow> pl330 option" where
  "granted_store n m =
     (if length (mfifo m) < n then None
      else if dst_inc (ccr m)
      then Some (m\<lparr> memory := store_bytes (memory m) (dar m) (take n (mfifo m)), dar := dar m + n,
                    mfifo := drop n (mfifo m) \<rparr>)
      else if cost (dst_size (ccr m)) n m \<le> credit m
      then Some (reg_store (take n (mfifo m)) (m\<lparr> mfifo := drop n (mfifo m),
                    credit := credit m - cost (dst_size (ccr m)) n m \<rparr>))
      else None)"

lemma cost_le: "cost z n m \<le> n"
  by (simp add: cost_def)

lemma cost_simps [simp]:
  "cost z n (m\<lparr> mfifo := f \<rparr>) = cost z n m" "cost z n (m\<lparr> sar := a \<rparr>) = cost z n m"
  "cost z n (m\<lparr> request := r \<rparr>) = cost z n m" "cost z n (m\<lparr> credit := c \<rparr>) = cost z n m"
  by (simp_all add: cost_def)

lemma reg_store_simps [simp]:
  "sar (reg_store bs m) = sar m" "dar (reg_store bs m) = dar m" "ccr (reg_store bs m) = ccr m"
  "mfifo (reg_store bs m) = mfifo m" "memory (reg_store bs m) = memory m"
  "reg_in (reg_store bs m) = reg_in m" "reg_out (reg_store bs m) = reg_out m @ bs"
  "cells (reg_store bs m) = cells m" "per_beat (reg_store bs m) = per_beat m"
  "room (reg_store bs m) = room m" "request (reg_store bs m) = request m"
  "credit (reg_store bs m) = credit m"
  by (simp_all add: reg_store_def)

lemma fixed_load_simps [simp]:
  "sar (fixed_load rs n m) = sar m" "dar (fixed_load rs n m) = dar m" "ccr (fixed_load rs n m) = ccr m"
  "memory (fixed_load rs n m) = memory m" "reg_out (fixed_load rs n m) = reg_out m"
  "cells (fixed_load rs n m) = cells m" "per_beat (fixed_load rs n m) = per_beat m"
  "room (fixed_load rs n m) = room m" "request (fixed_load rs n m) = request m"
  "credit (fixed_load rs n m) = credit m"
  by (simp_all add: fixed_load_def)

lemma fixed_load_device [simp]:
  "sar m \<notin> cells m \<Longrightarrow> mfifo (fixed_load rs n m) = mfifo m @ bytes_at rs (reg_in m) n"
  "sar m \<notin> cells m \<Longrightarrow> reg_in (fixed_load rs n m) = reg_in m + n"
  "sar m \<notin> cells m \<Longrightarrow> accesses (fixed_load rs n m) = accesses m @ [Get (sar m) n]"
  by (simp_all add: fixed_load_def)

fun pl330_step :: "mem \<Rightarrow> dma_call \<Rightarrow> pl330 \<Rightarrow> pl330 option" where
  "pl330_step rs (DMAMOV SAR v) m = Some (m\<lparr> sar := unat v \<rparr>)"
| "pl330_step rs (DMAMOV DAR v) m = Some (m\<lparr> dar := unat v \<rparr>)"
| "pl330_step rs (DMAMOV CCR v) m = Some (m\<lparr> ccr := v \<rparr>)"
| "pl330_step rs DMALD m = Some (do_load rs m)"
| "pl330_step rs DMAST m =
     (if store_count m \<le> length (mfifo m)
      then Some ((do_store (take (store_count m) (mfifo m)) m)
                   \<lparr> mfifo := drop (store_count m) (mfifo m) \<rparr>)
      else None)"
| "pl330_step rs DMASTZ m = Some (do_store (replicate (store_count m) 0) m)"
| "pl330_step rs DMAWMB m = Some m"
| "pl330_step rs (DMASEV evt) m = Some m"
| "pl330_step rs DMAEND m = Some m"
| "pl330_step rs (DMAFLUSHP p) m = Some m"
| "pl330_step rs (DMAWFP p k) m = Some (m\<lparr> request := Some k, credit := room m k \<rparr>)"
| "pl330_step rs (DMALDx k) m =
     (if request m \<noteq> Some k then Some m
      else granted_load rs (if k = INST_MOD_SINGLE then load_beat m else load_count m) m)"
| "pl330_step rs (DMASTx k) m =
     (if request m \<noteq> Some k then Some m
      else granted_store (if k = INST_MOD_SINGLE then store_beat m else store_count m) m)"
| "pl330_step rs (DMALPENDx k) m = (if request m = Some k then Some m else None)"
| "pl330_step rs (DMALP n) m = None"
| "pl330_step rs DMALPEND m = None"

section \<open>Loops\<close>

text \<open>
  \<open>loop_body d cs\<close>: \<open>cs\<close> up to the \<open>DMALPEND\<close> that closes \<open>d\<close> nested loops and one more.  A
  conditional loop end stays in the body, where it is checked in every round.
\<close>

fun loop_end :: "dma_call \<Rightarrow> dma_call list option" where
  "loop_end DMALPEND = Some []"
| "loop_end (DMALPENDx k) = Some [DMALPENDx k]"
| "loop_end _ = None"

fun loop_body :: "nat \<Rightarrow> dma_call list \<Rightarrow> (dma_call list \<times> dma_call list) option" where
  "loop_body d [] = None"
| "loop_body d (c # cs) =
     (case loop_end c of
        Some e \<Rightarrow> (case d of 0 \<Rightarrow> Some (e, cs)
                   | Suc d' \<Rightarrow> map_option (apfst (Cons c)) (loop_body d' cs))
      | None \<Rightarrow> map_option (apfst (Cons c)) (loop_body (case c of DMALP n \<Rightarrow> Suc d | _ \<Rightarrow> d) cs))"

lemma loop_end_length: "loop_end c = Some e \<Longrightarrow> length e \<le> 1"
  by (cases c) auto

lemma loop_body_length:
  "loop_body d cs = Some (b, r) \<Longrightarrow> length b \<le> length cs \<and> length r < length cs"
proof (induction d cs arbitrary: b r rule: loop_body.induct)
  case (2 d c cs)
  show ?case
  proof (cases "loop_end c")
    case None
    then show ?thesis using 2 by (fastforce simp: apfst_def)
  next
    case (Some e)
    then show ?thesis using 2 loop_end_length[OF Some] by (cases d) (fastforce simp: apfst_def)+
  qed
qed simp

function unroll :: "dma_call list \<Rightarrow> dma_call list" where
  "unroll [] = []"
| "unroll (c # cs) =
     (case c of
        DMALP n \<Rightarrow> (case loop_body 0 cs of
                     None \<Rightarrow> []
                   | Some (b, r) \<Rightarrow> concat (replicate (unat n) (unroll b)) @ unroll r)
      | _ \<Rightarrow> c # unroll cs)"
  by pat_completeness auto
termination
  by (relation "measure length") (auto dest!: loop_body_length)

fun run_flat :: "mem \<Rightarrow> dma_call list \<Rightarrow> pl330 \<Rightarrow> pl330 option" where
  "run_flat rs [] m = Some m"
| "run_flat rs (c # cs) m =
     (case pl330_step rs c m of None \<Rightarrow> None | Some m' \<Rightarrow> run_flat rs cs m')"

text \<open>The run of a program with its loops.\<close>

definition run_program :: "mem \<Rightarrow> dma_call list \<Rightarrow> pl330 \<Rightarrow> pl330 option" where
  "run_program rs cs m = run_flat rs (unroll cs) m"

lemma run_flat_append:
  "run_flat rs (cs @ ds) m = (case run_flat rs cs m of None \<Rightarrow> None | Some m' \<Rightarrow> run_flat rs ds m')"
  by (induction cs arbitrary: m) (auto split: option.split)

text \<open>Closed call lists: every loop in them is closed in them, so they unroll on their own.\<close>

definition closed_calls :: "dma_call list \<Rightarrow> bool" where
  "closed_calls b \<longleftrightarrow>
     (\<forall>d cs. loop_body d (b @ cs) = map_option (apfst ((@) b)) (loop_body d cs)) \<and>
     (\<forall>r. unroll (b @ r) = unroll b @ unroll r)"

lemma map_apfst_comp: "map_option (apfst f) (map_option (apfst g) x) = map_option (apfst (\<lambda>l. f (g l))) x"
  by (cases x) (auto simp: apfst_def)

lemma map_apfst_ident: "map_option (apfst (\<lambda>l. l)) x = x"
  by (cases x) (auto simp: apfst_def)

lemma append_fun:
  "(@) [] = (\<lambda>l. l)" "(@) [c] = (#) c" "(@) (a @ b) = (\<lambda>l. a @ b @ l)"
  by auto

lemma closed_body: "closed_calls b \<Longrightarrow> loop_body d (b @ cs) = map_option (apfst (\<lambda>l. b @ l)) (loop_body d cs)"
  by (simp add: closed_calls_def)

lemma unroll_append: "closed_calls b \<Longrightarrow> unroll (b @ r) = unroll b @ unroll r"
  by (simp add: closed_calls_def)

lemma closed_Nil [simp]: "closed_calls []"
  by (simp add: closed_calls_def map_apfst_ident append_fun)

lemma closed_append [intro]: "closed_calls a \<Longrightarrow> closed_calls b \<Longrightarrow> closed_calls (a @ b)"
  unfolding closed_calls_def by (simp add: map_apfst_comp append_fun)

lemma closed_simple:
  assumes "loop_end c = None" and "\<And>n. c \<noteq> DMALP n"
  shows "closed_calls [c]"
  using assms by (cases c) (auto simp: closed_calls_def append_fun)

lemma closed_loop:
  assumes "closed_calls b"
  shows "closed_calls (DMALP n # b @ [DMALPEND])"
    and "unroll (DMALP n # b @ [DMALPEND]) = concat (replicate (unat n) (unroll b))"
    and "closed_calls (DMALP n # b @ [DMALPENDx k])"
    and "unroll (DMALP n # b @ [DMALPENDx k]) = concat (replicate (unat n) (unroll b @ [DMALPENDx k]))"
proof -
  have b: "unroll (b @ [DMALPENDx k]) = unroll b @ [DMALPENDx k]" for k
    by (simp add: unroll_append[OF assms])
  have u: "unroll (DMALP n # b @ DMALPEND # r) = concat (replicate (unat n) (unroll b)) @ unroll r"
    "unroll (DMALP n # b @ DMALPENDx k # r) =
      concat (replicate (unat n) (unroll b @ [DMALPENDx k])) @ unroll r" for r k
    by (simp_all add: closed_body[OF assms] b)
  from u(1)[of "[]"] u(2)[where r = "[]"] show one: "unroll (DMALP n # b @ [DMALPEND]) = concat (replicate (unat n) (unroll b))"
    and onex: "unroll (DMALP n # b @ [DMALPENDx k]) = concat (replicate (unat n) (unroll b @ [DMALPENDx k]))"
    for k by simp_all
  have "loop_body d (DMALP n # b @ e # cs) =
      map_option (apfst (\<lambda>l. DMALP n # b @ e # l)) (loop_body d cs)"
    if "e = DMALPEND \<or> e = DMALPENDx k" for d cs e
    using that by (auto simp: closed_body[OF assms] map_apfst_comp)
  moreover have "((@) (DMALP n # b @ [e])) = (\<lambda>l. DMALP n # b @ e # l)" for e by auto
  ultimately show "closed_calls (DMALP n # b @ [DMALPEND])" "closed_calls (DMALP n # b @ [DMALPENDx k])"
    unfolding closed_calls_def one onex using u by simp_all
qed

end
