(* ===== verification/Dma_Words.thy ===== *)
theory Dma_Words
  imports Dma_Program Pl330
begin

text \<open>
  What the words and loops of the transfer programs mean: the loops of \<^theory_text>\<open>Dma_Program\<close>
  unroll to a number of bursts, and the control words it builds select the increments, beat
  sizes and burst lengths the code intends, for the documented option values.
\<close>

section \<open>Words\<close>

lemma unat_drop: "unat (drop_bit k (w :: u32)) = unat w div 2 ^ k"
  unfolding unsigned_drop_bit_eq
  using unsigned_less[of w, where 'a=nat] by (simp add: drop_bit_eq_div take_bit_nat_eq_self)

lemma unat_mask: "unat ((w :: u32) AND mask k) = unat w mod 2 ^ k"
  unfolding take_bit_eq_mask [symmetric] unsigned_take_bit_eq by (simp add: take_bit_eq_mod)

lemma unat_low:
  "unat ((w :: u32) AND 7) = unat w mod 8"
  "unat ((w :: u32) AND 15) = unat w mod 16"
  "unat ((w :: u32) AND 255) = unat w mod 256"
  using unat_mask[of w 3] unat_mask[of w 4] unat_mask[of w 8] by (simp_all add: mask_eq_exp_minus_1)

section \<open>Loops\<close>

definition pairs :: "nat \<Rightarrow> dma_call list" where
  "pairs n = concat (replicate n [DMALD, DMAST])"

lemma pairs_0 [simp]: "pairs 0 = []"
  and pairs_Suc [simp]: "pairs (Suc n) = [DMALD, DMAST] @ pairs n"
  by (simp_all add: pairs_def)

lemma pairs_add: "pairs (m + n) = pairs m @ pairs n"
  by (simp add: pairs_def replicate_add)

lemma concat_pairs: "concat (replicate m (pairs n)) = pairs (m * n)"
  by (induction m) (simp_all add: pairs_add add.commute)

lemma concat_singles: "concat (replicate m (replicate n x)) = replicate (m * n) x"
  by (induction m) (simp_all add: replicate_add [symmetric] add.commute)

lemma closed_burst:
  "closed_calls [DMALD, DMAST]" "unroll [DMALD, DMAST] = pairs 1"
  using closed_append[OF closed_simple[of DMALD] closed_simple[of DMAST]] by simp_all

lemma closed_zero: "closed_calls [DMASTZ]" "unroll [DMASTZ] = [DMASTZ]"
  using closed_simple[of DMASTZ] by simp_all

lemma closed_looped:
  assumes "closed_calls b" and "0 < n"
  shows "closed_calls (if_looped n (DMALP n) @ b @ if_looped n DMALPEND)"
    and "unroll (if_looped n (DMALP n) @ b @ if_looped n DMALPEND) =
           concat (replicate (unat n) (unroll b))"
proof -
  have "unat n = 1" if "\<not> 1 < n"
    using that assms(2) by (simp add: word_less_nat_alt)
  then show "closed_calls (if_looped n (DMALP n) @ b @ if_looped n DMALPEND)"
    and "unroll (if_looped n (DMALP n) @ b @ if_looped n DMALPEND) =
           concat (replicate (unat n) (unroll b))"
    using closed_loop[OF assms(1)] assms(1) by (auto simp: if_looped_def)
qed

lemma ALT_MIN_le: "ALT_MIN a b \<le> a" "unat (ALT_MIN a b) = min (unat a) (unat b)"
  by (auto simp: ALT_MIN_def word_le_nat_alt word_less_nat_alt)

lemma ALT_MIN_pos: "0 < a \<Longrightarrow> 0 < b \<Longrightarrow> 0 < ALT_MIN a b"
  by (simp add: ALT_MIN_def)

lemma unat_minus_le: "b \<le> a \<Longrightarrow> unat (a - b) = unat a - unat b" for a b :: u32
  by (simp add: unat_sub)

lemma m2m_loops_unroll: "closed_calls (m2m_loops n) \<and> unroll (m2m_loops n) = pairs (unat n)"
proof (induction n rule: m2m_loops.induct)
  case (1 n)
  show ?case
  proof (cases "0 < n")
    case True
    define k where "k = ALT_MIN n 256"
    have k: "0 < k" "k \<le> n" using True by (auto simp: k_def ALT_MIN_pos ALT_MIN_le)
    have e: "m2m_loops n =
        (if_looped k (DMALP k) @ [DMALD, DMAST] @ if_looped k DMALPEND) @ m2m_loops (n - k)"
      using True by (subst m2m_loops.simps) (simp add: k_def Let_def)
    note IH = 1[OF True k_def]
    note L = closed_looped[OF closed_burst(1) k(1), unfolded closed_burst(2) concat_pairs]
    have "unat n = unat k + unat (n - k)"
      using k by (simp add: unat_minus_le word_le_nat_alt)
    then show ?thesis
      unfolding e using IH L by (simp add: closed_append unroll_append pairs_add del: append_assoc)
  qed (subst (1 2) m2m_loops.simps, simp add: word_gt_0)
qed

lemma z2m_loops_unroll:
  "closed_calls (z2m_loops n) \<and> unroll (z2m_loops n) = replicate (unat n) DMASTZ"
proof (induction n rule: z2m_loops.induct)
  case (1 n)
  show ?case
  proof (cases "0 < n")
    case True
    obtain a b where ab: "z2m_counts n = (a, b)" by force
    note B = z2m_counts_bounds[OF True ab]
    then have pos: "0 < a" "0 < b" by (auto simp: word_less_nat_alt)
    have e: "z2m_loops n =
        (if_looped a (DMALP a) @ (if_looped b (DMALP b) @ [DMASTZ] @ if_looped b DMALPEND) @
         if_looped a DMALPEND) @ z2m_loops (n - a * b)"
      using True by (subst z2m_loops.simps) (simp add: ab)
    note IH = 1[OF True ab [symmetric]]
    note L = closed_looped[OF closed_zero(1) pos(2), unfolded closed_zero(2) concat_singles]
    note M = closed_looped[OF L(1) pos(1), unfolded L(2)]
    have "concat (replicate (unat b) [DMASTZ]) = replicate (unat b) DMASTZ"
      using concat_singles[of "unat b" 1 DMASTZ] by simp
    moreover have "unat n = unat a * unat b + unat (n - a * b)"
      using B by (simp add: unat_minus_le word_le_nat_alt)
    ultimately show ?thesis
      unfolding e using IH M
      by (simp add: closed_append unroll_append replicate_add concat_singles del: append_assoc)
  qed (subst (1 2) z2m_loops.simps, simp add: word_gt_0)
qed

lemma reg_super_loops_unroll:
  "closed_calls (reg_super_loops n) \<and> unroll (reg_super_loops n) = pairs (256 * unat n)"
proof (induction n rule: reg_super_loops.induct)
  case (1 n)
  show ?case
  proof (cases "0 < n")
    case True
    define k where "k = ALT_MIN n 256"
    have k: "0 < k" "k \<le> n" using True by (auto simp: k_def ALT_MIN_pos ALT_MIN_le)
    have e: "reg_super_loops n =
        (if_looped k (DMALP k) @ (DMALP 256 # [DMALD, DMAST] @ [DMALPEND]) @ if_looped k DMALPEND) @
        reg_super_loops (n - k)"
      using True by (subst reg_super_loops.simps) (simp add: k_def Let_def)
    note IH = 1[OF True k_def]
    have u: "unat (256 :: u32) = 256" by simp
    note B = closed_loop[OF closed_burst(1), of 256, unfolded closed_burst(2) concat_pairs u]
    note L = closed_looped[OF B(1) k(1), unfolded B(2) concat_pairs]
    have "unat n = unat k + unat (n - k)"
      using k by (simp add: unat_minus_le word_le_nat_alt)
    then show ?thesis
      unfolding e using IH L
      by (simp add: closed_append unroll_append pairs_add algebra_simps del: append_assoc)
  qed (subst (1 2) reg_super_loops.simps, simp add: word_gt_0)
qed

lemma reg_loops_unroll: "closed_calls (reg_loops n) \<and> unroll (reg_loops n) = pairs (unat n)"
proof -
  define tl where "tl k = (if 0 < k then if_looped k (DMALP k) @ [DMALD, DMAST] @ if_looped k DMALPEND
    else [])" for k
  have tl: "closed_calls (tl k) \<and> unroll (tl k) = pairs (unat k)" for k
    using closed_looped[OF closed_burst(1), of k, unfolded closed_burst(2) concat_pairs]
    by (auto simp: tl_def word_gt_0)
  have r: "reg_loops n =
      (if drop_bit 8 n \<noteq> 0 then reg_super_loops (drop_bit 8 n) else []) @
      tl (if drop_bit 8 n \<noteq> 0 then n AND 255 else n)"
    by (simp add: reg_loops_def tl_def Let_def)
  have "unat n = 256 * unat (drop_bit 8 n) + unat (n AND 255)"
    by (simp add: unat_drop unat_low)
  then show ?thesis
    unfolding r using reg_super_loops_unroll[of "drop_bit 8 n"] tl
    by (auto simp: unroll_append pairs_add)
qed

section \<open>Channel control words\<close>

text \<open>The fields of a control word: increment, beat size and beats of the source, then of the destination.\<close>

definition src_field :: "u32 \<Rightarrow> bool \<times> nat \<times> nat" where
  "src_field w = (src_inc w, src_size w, src_len w)"

definition dst_field :: "u32 \<Rightarrow> bool \<times> nat \<times> nat" where
  "dst_field w = (dst_inc w, dst_size w, dst_len w)"

abbreviation "src_mask \<equiv> 0x000000ff :: u32"
abbreviation "dst_mask \<equiv> 0x003fc000 :: u32"

lemma bit_and_cong: "(v :: u32) AND k = w AND k \<Longrightarrow> bit k n \<Longrightarrow> bit v n = bit w n"
  by (metis bit_and_iff)

lemma field_cong:
  assumes "(v :: u32) AND k = w AND k" and "\<And>i. bit m i \<Longrightarrow> bit k (i + n)"
  shows "drop_bit n v AND m = drop_bit n w AND m"
  using assms bit_and_cong[OF assms(1)]
  by (intro bit_word_eqI) (auto simp: bit_simps add.commute)

lemma low_bits: "bit (7 :: u32) i \<longleftrightarrow> i < 3" "bit (15 :: u32) i \<longleftrightarrow> i < 4"
  using bit_mask_iff[of 3 i, where 'a=u32] bit_mask_iff[of 4 i, where 'a=u32]
  by (auto simp: mask_numeral mask_eq_exp_minus_1 possible_bit_def)

lemma masks_bit: "bit src_mask i \<longleftrightarrow> i < 8" "bit dst_mask i \<longleftrightarrow> 14 \<le> i \<and> i < 22"
proof -
  have s: "src_mask = mask 8" and d: "dst_mask = push_bit 14 (mask 8)"
    by (simp_all add: mask_eq_exp_minus_1)
  show "bit src_mask i \<longleftrightarrow> i < 8" unfolding s by (auto simp: bit_simps)
  show "bit dst_mask i \<longleftrightarrow> 14 \<le> i \<and> i < 22" unfolding d by (auto simp: bit_simps)
qed

lemma field_range:
  "bit (7 :: u32) i \<Longrightarrow> bit src_mask (i + 1)" "bit (15 :: u32) i \<Longrightarrow> bit src_mask (i + 4)"
  "bit (7 :: u32) i \<Longrightarrow> bit dst_mask (i + 15)" "bit (15 :: u32) i \<Longrightarrow> bit dst_mask (i + 18)"
  "bit src_mask 0" "bit dst_mask 14"
  unfolding low_bits masks_bit by simp_all

lemma src_field_cong:
  assumes "(v :: u32) AND src_mask = w AND src_mask"
  shows "src_field v = src_field w"
proof -
  have "drop_bit 1 v AND 7 = drop_bit 1 w AND 7" "drop_bit 4 v AND 15 = drop_bit 4 w AND 15"
    by (rule field_cong[OF assms]; rule field_range; assumption)+
  moreover have "bit v 0 = bit w 0" by (rule bit_and_cong[OF assms field_range(5)])
  ultimately show ?thesis unfolding src_field_def src_inc_def src_size_def src_len_def by (simp only: simp_thms)
qed

lemma dst_field_cong:
  assumes "(v :: u32) AND dst_mask = w AND dst_mask"
  shows "dst_field v = dst_field w"
proof -
  have "drop_bit 15 v AND 7 = drop_bit 15 w AND 7" "drop_bit 18 v AND 15 = drop_bit 18 w AND 15"
    by (rule field_cong[OF assms]; rule field_range; assumption)+
  moreover have "bit v 14 = bit w 14" by (rule bit_and_cong[OF assms field_range(6)])
  ultimately show ?thesis unfolding dst_field_def dst_inc_def dst_size_def dst_len_def by (simp only: simp_thms)
qed

text \<open>Burst lengths of 1 to 16 beats, and beat sizes of 1, 2, 4 and 8 bytes.\<close>

definition lengths :: "u32 set" where
  "lengths = {1, 2, 3, 4, 5, 6, 7, 8, 9, 10, 11, 12, 13, 14, 15, 16}"

definition sizes :: "u32 set" where "sizes = {0, 1, 2, 3}"

lemma lengthsI:
  assumes "0 < n" and "n \<le> 16"
  shows "n \<in> lengths"
proof -
  have "unat n \<in> set [1..<17]" using assms by (auto simp: word_le_nat_alt word_less_nat_alt)
  then have "n \<in> of_nat ` set [1..<17]" 
    by (intro image_eqI[where x = "unat n"]) simp_all
  also have "of_nat ` set [1..<17] = lengths"
    by (simp add: lengths_def upt_rec insert_commute)
  finally show ?thesis .
qed

lemma src_field_eval:
  assumes "n \<in> lengths" and "k \<in> sizes"
  shows "src_field (sb_len n OR push_bit 1 k OR 1) = (True, 2 ^ unat k, unat n)"
    and "src_field (sb_len n OR push_bit 1 k) = (False, 2 ^ unat k, unat n)"
    and "(sb_len n OR push_bit 1 k) AND dst_mask = 0"
  using assms unfolding lengths_def sizes_def
  by (auto simp: src_field_def src_inc_def src_size_def src_len_def sb_len_def)

lemma dst_field_eval:
  assumes "n \<in> lengths" and "k \<in> sizes"
  shows "dst_field (db_len n OR push_bit 15 k OR 0x4000) = (True, 2 ^ unat k, unat n)"
    and "dst_field (db_len n OR push_bit 15 k) = (False, 2 ^ unat k, unat n)"
    and "(db_len n OR push_bit 15 k) AND src_mask = 0"
  using assms unfolding lengths_def sizes_def
  by (auto simp: dst_field_def dst_inc_def dst_size_def dst_len_def db_len_def)

end
