(* ===== verification/Dma_Transfer.thy ===== *)
theory Dma_Transfer
  imports Dma_Words
begin

text \<open>
  The correctness of the transfer programs of \<^theory_text>\<open>Dma_Program\<close> over the instruction
  semantics of \<^theory_text>\<open>Pl330\<close>: for each kind of segment, from any machine with an empty
  MFIFO, the program runs without an abort and moves exactly its bytes (\<open>m2m_calls_runs\<close>,
  \<open>z2m_calls_runs\<close>, \<open>m2r_calls_runs\<close>, \<open>r2m_calls_runs\<close>), and its loops fit the two loop
  counters of a channel.  Addresses are natural numbers here, so the results are about
  segments that do not wrap around the 32-bit address space.
\<close>

section \<open>The control words of the transfers\<close>

lemma or_and_zero: "(a OR b) AND m = (0 :: u32) \<longleftrightarrow> a AND m = 0 \<and> b AND m = 0"
  unfolding word_ao_dist by (auto simp: bit_eq_iff bit_simps)

lemma fields_masks:
  assumes "x AND ccr_fields = 0"
  shows "x AND src_mask = 0" and "x AND dst_mask = 0"
proof -
  have "x AND (ccr_fields AND src_mask) = 0" "x AND (ccr_fields AND dst_mask) = 0"
    by (simp_all only: and.assoc [symmetric] assms zero_and_eq)
  then show "x AND src_mask = 0" and "x AND dst_mask = 0"
    by (simp_all add: ccr_fields_def)
qed

lemma opts_zero:
  assumes "ccr_opts_ok opt"
  shows "SP_DEFAULT opt AND src_mask = 0" "SP_DEFAULT opt AND dst_mask = 0"
    "SC opt 7 AND src_mask = 0" "SC opt 7 AND dst_mask = 0"
    "SC_DEFAULT opt AND src_mask = 0" "SC_DEFAULT opt AND dst_mask = 0"
    "DP_DEFAULT opt AND src_mask = 0" "DP_DEFAULT opt AND dst_mask = 0"
    "DC opt 7 AND src_mask = 0" "DC opt 7 AND dst_mask = 0"
    "DC_DEFAULT opt AND src_mask = 0" "DC_DEFAULT opt AND dst_mask = 0"
    "ES_DEFAULT opt AND src_mask = 0" "ES_DEFAULT opt AND dst_mask = 0"
    "SB_DEFAULT opt AND dst_mask = 0" "SS_DEFAULT opt AND dst_mask = 0"
  using assms unfolding ccr_opts_ok_def by (simp_all add: fields_masks)

lemma opts_values:
  assumes "ccr_opts_ok opt"
  shows "SS8 opt = push_bit 1 0" "SS16 opt = push_bit 1 1" "SS32 opt = push_bit 1 2"
    "SS64 opt = push_bit 1 3" "DS8 opt = push_bit 15 0" "DS16 opt = push_bit 15 1"
    "DS32 opt = push_bit 15 2" "DS64 opt = push_bit 15 3"
    "SB16 opt = sb_len 16" "DB16 opt = db_len 16"
    "SA_DEFAULT opt = 1" "DA_DEFAULT opt = 0x4000" "SAF opt = 0" "DAF opt = 0"
  using assms unfolding ccr_opts_ok_def by (simp_all add: sb_len_def db_len_def)

lemma zero_masks:
  assumes "n \<in> lengths" and "k \<in> sizes"
  shows "sb_len n AND dst_mask = 0" "push_bit 1 k AND dst_mask = 0"
    "db_len n AND src_mask = 0" "push_bit 15 k AND src_mask = 0"
  using src_field_eval(3)[OF assms] dst_field_eval(3)[OF assms] by (simp_all only: or_and_zero)

lemma ccr_copy_fields:
  assumes "ccr_opts_ok opt" and "n \<in> lengths" and "k \<in> sizes"
  shows "src_field (ccr_copy opt (sb_len n) (push_bit 1 k) (db_len n) (push_bit 15 k)) =
           (True, 2 ^ unat k, unat n)"
    and "dst_field (ccr_copy opt (sb_len n) (push_bit 1 k) (db_len n) (push_bit 15 k)) =
           (True, 2 ^ unat k, unat n)"
proof -
  note z = opts_zero[OF assms(1)] opts_values(11,12)[OF assms(1)] zero_masks[OF assms(2,3)]
  let ?w = "ccr_copy opt (sb_len n) (push_bit 1 k) (db_len n) (push_bit 15 k)"
  have "?w AND src_mask = (sb_len n OR push_bit 1 k OR 1) AND src_mask"
    unfolding ccr_copy_def word_ao_dist z by simp
  then show "src_field ?w = (True, 2 ^ unat k, unat n)"
    using src_field_eval(1)[OF assms(2,3)] src_field_cong by metis
  have "?w AND dst_mask = (db_len n OR push_bit 15 k OR 0x4000) AND dst_mask"
    unfolding ccr_copy_def word_ao_dist z by simp
  then show "dst_field ?w = (True, 2 ^ unat k, unat n)"
    using dst_field_eval(1)[OF assms(2,3)] dst_field_cong by metis
qed

lemma ccr_zero_fields:
  assumes "ccr_opts_ok opt" and "n \<in> lengths" and "k \<in> sizes"
  shows "dst_field (ccr_zero opt (db_len n) (push_bit 15 k)) = (True, 2 ^ unat k, unat n)"
proof -
  note z = opts_zero[OF assms(1)] opts_values(11,12)[OF assms(1)] zero_masks[OF assms(2,3)]
  have "ccr_zero opt (db_len n) (push_bit 15 k) AND dst_mask =
      (db_len n OR push_bit 15 k OR 0x4000) AND dst_mask"
    unfolding ccr_zero_def word_ao_dist z by simp
  then show ?thesis using dst_field_eval(1)[OF assms(2,3)] dst_field_cong by metis
qed

lemma ccr_to_reg_fields:
  assumes "ccr_opts_ok opt" and "n \<in> lengths" and "k \<in> sizes"
  shows "src_field (ccr_to_reg opt (push_bit 1 k OR push_bit 15 k) (sb_len n) (db_len n)) =
           (True, 2 ^ unat k, unat n)"
    and "dst_field (ccr_to_reg opt (push_bit 1 k OR push_bit 15 k) (sb_len n) (db_len n)) =
           (False, 2 ^ unat k, unat n)"
proof -
  note z = opts_zero[OF assms(1)] opts_values(11,14)[OF assms(1)] zero_masks[OF assms(2,3)]
  let ?w = "ccr_to_reg opt (push_bit 1 k OR push_bit 15 k) (sb_len n) (db_len n)"
  have "?w AND src_mask = (sb_len n OR push_bit 1 k OR 1) AND src_mask"
    unfolding ccr_to_reg_def word_ao_dist z by (simp add: or.assoc or.commute or.left_commute)
  then show "src_field ?w = (True, 2 ^ unat k, unat n)"
    using src_field_eval(1)[OF assms(2,3)] src_field_cong by metis
  have "?w AND dst_mask = (db_len n OR push_bit 15 k) AND dst_mask"
    unfolding ccr_to_reg_def word_ao_dist z by (simp add: or.assoc or.commute or.left_commute)
  then show "dst_field ?w = (False, 2 ^ unat k, unat n)"
    using dst_field_eval(2)[OF assms(2,3)] dst_field_cong by metis
qed

lemma ccr_from_reg_fields:
  assumes "ccr_opts_ok opt" and "n \<in> lengths" and "k \<in> sizes"
  shows "src_field (ccr_from_reg opt (push_bit 1 k OR push_bit 15 k) (sb_len n) (db_len n)) =
           (False, 2 ^ unat k, unat n)"
    and "dst_field (ccr_from_reg opt (push_bit 1 k OR push_bit 15 k) (sb_len n) (db_len n)) =
           (True, 2 ^ unat k, unat n)"
proof -
  note z = opts_zero[OF assms(1)] opts_values(12,13)[OF assms(1)] zero_masks[OF assms(2,3)]
  let ?w = "ccr_from_reg opt (push_bit 1 k OR push_bit 15 k) (sb_len n) (db_len n)"
  have "?w AND src_mask = (sb_len n OR push_bit 1 k) AND src_mask"
    unfolding ccr_from_reg_def word_ao_dist z by (simp add: or.assoc or.commute or.left_commute)
  then show "src_field ?w = (False, 2 ^ unat k, unat n)"
    using src_field_eval(2)[OF assms(2,3)] src_field_cong by metis
  have "?w AND dst_mask = (db_len n OR push_bit 15 k OR 0x4000) AND dst_mask"
    unfolding ccr_from_reg_def word_ao_dist z by (simp add: or.assoc or.commute or.left_commute)
  then show "dst_field ?w = (True, 2 ^ unat k, unat n)"
    using dst_field_eval(1)[OF assms(2,3)] dst_field_cong by metis
qed

section \<open>Alignment\<close>

lemma small_mod8: "x < 16 \<Longrightarrow> x mod 8 = (0 :: nat) \<longleftrightarrow> x = 0 \<or> x = 8"
  by presburger

lemma small_sums:
  "\<sigma> < 8 \<Longrightarrow> \<iota> < 8 \<Longrightarrow> \<delta> < 8 \<Longrightarrow> \<sigma> + \<iota> = 0 \<or> \<sigma> + \<iota> = (8 :: nat) \<Longrightarrow>
    (\<delta> + \<iota> = 0 \<or> \<delta> + \<iota> = 8) = (\<sigma> = \<delta>)"
  by auto

lemma mod8_zero: "(a + c) mod 8 = (0 :: nat) \<longleftrightarrow> a mod 8 + c mod 8 = 0 \<or> a mod 8 + c mod 8 = 8"
proof -
  have "(a + c) mod 8 = (a mod 8 + c mod 8) mod 8" by (rule mod_add_eq [symmetric])
  moreover have "a mod 8 < 8" "c mod 8 < 8" by simp_all
  then have "a mod 8 + c mod 8 < 16" by (rule add_strict_mono[where b = 8 and d = 8, simplified])
  ultimately show ?thesis using small_mod8 by metis
qed

lemma next_multiple: "a = 8 * q + r \<Longrightarrow> r < 8 \<Longrightarrow> a + (8 - r) = 8 * (q + 1)" for a :: nat
  by simp

lemma bursts_of_16: "8 * b = 128 * (b div 16) + 8 * (b mod 16)" for b :: nat
proof -
  have "8 * b = 8 * (16 * (b div 16) + b mod 16)" by simp
  also have "\<dots> = 128 * (b div 16) + 8 * (b mod 16)" unfolding distrib_left by simp
  finally show ?thesis .
qed

lemma mod8_complement:
  assumes "(s + i) mod 8 = (0 :: nat)"
  shows "(d + (8 - s mod 8)) mod 8 = (d + i) mod 8"
    and "(d + i) mod 8 = 0 \<longleftrightarrow> s mod 8 = d mod 8"
proof -
  have "(8 - s mod 8) mod 8 = i mod 8"
  proof -
    have "s mod 8 + i mod 8 = 0 \<or> s mod 8 + i mod 8 = 8" using assms by (simp only: mod8_zero)
    then have "8 - s mod 8 = 8 \<and> i mod 8 = 0 \<or> 8 - s mod 8 = i mod 8" by auto
    then show ?thesis by auto
  qed
  then show "(d + (8 - s mod 8)) mod 8 = (d + i) mod 8" by (rule mod_add_cong [OF refl])
  show "(d + i) mod 8 = 0 \<longleftrightarrow> s mod 8 = d mod 8"
    using small_sums[of "s mod 8" "i mod 8" "d mod 8"] assms by (simp only: mod8_zero)
qed

section \<open>Copying\<close>

text \<open>
  After reading \<open>i\<close> bytes from \<open>s\<close>, with \<open>r\<close> of them still in the MFIFO, the first \<open>i - r\<close>
  bytes are at \<open>d\<close> and nothing else of the memory \<open>M\<close> has changed.
\<close>

definition copied :: "mem \<Rightarrow> nat \<Rightarrow> nat \<Rightarrow> nat \<Rightarrow> nat \<Rightarrow> pl330 \<Rightarrow> bool" where
  "copied M s d i r m \<longleftrightarrow>
     r \<le> i \<and> sar m = s + i \<and> dar m = d + (i - r) \<and> mfifo m = bytes_at M (s + (i - r)) r \<and>
     memory m = store_bytes M d (bytes_at M s (i - r))"

definition disjoint :: "nat \<Rightarrow> nat \<Rightarrow> nat \<Rightarrow> bool" where
  "disjoint s d n \<longleftrightarrow> s + n \<le> d \<or> d + n \<le> s"

lemma src_fieldD: "src_field w = (a, b, c) \<Longrightarrow> src_inc w = a \<and> src_size w = b \<and> src_len w = c"
  and dst_fieldD: "dst_field w = (a, b, c) \<Longrightarrow> dst_inc w = a \<and> dst_size w = b \<and> dst_len w = c"
  by (simp_all add: src_field_def dst_field_def)

lemma store_bytes_append:
  "store_bytes (store_bytes m p xs) (p + length xs) ys = store_bytes m p (xs @ ys)"
  by (auto simp: store_bytes_def nth_append fun_eq_iff)

lemma take_bytes_at: "k \<le> n \<Longrightarrow> take k (bytes_at m p n) = bytes_at m p k"
  and drop_bytes_at: "k \<le> n \<Longrightarrow> drop k (bytes_at m p n) = bytes_at m (p + k) (n - k)"
  by (simp_all add: bytes_at_def take_map drop_map)

lemma copied_load:
  assumes "copied M s d i r m" and "src_inc (ccr m)" and "load_count m = n"
    and "i + n \<le> N" and "disjoint s d N"
  shows "copied M s d (i + n) (r + n) (do_load rs m)" and "ccr (do_load rs m) = ccr m"
proof -
  have "bytes_at (memory m) (s + i) n = bytes_at M (s + i) n"
    using assms by (intro bytes_at_cong) (auto simp: copied_def disjoint_def)
  moreover have "bytes_at M (s + (i - r)) (r + n) = bytes_at M (s + (i - r)) r @ bytes_at M (s + i) n"
    using assms(1) by (simp add: bytes_at_add copied_def)
  ultimately show "copied M s d (i + n) (r + n) (do_load rs m)" and "ccr (do_load rs m) = ccr m"
    using assms(1-3) by (simp_all add: copied_def do_load_def Let_def)
qed

lemma copied_store:
  assumes "copied M s d i r m" and "dst_inc (ccr m)" and "store_count m = k" and "k \<le> r"
  obtains m' where "pl330_step rs DMAST m = Some m'" and "copied M s d i (r - k) m'"
    and "ccr m' = ccr m"
proof -
  have e: "i - (r - k) = (i - r) + k" "s + (i - r + k) = s + (i - r) + k"
    using assms(1,4) by (auto simp: copied_def)
  have "store_bytes (store_bytes M d (bytes_at M s (i - r))) (d + (i - r)) (bytes_at M (s + (i - r)) k) =
      store_bytes M d (bytes_at M s ((i - r) + k))"
    using store_bytes_append[of M d "bytes_at M s (i - r)"] by (simp add: bytes_at_add)
  moreover have "r - k \<le> i" using assms(1) by (auto simp: copied_def)
  ultimately have e': "store_bytes (store_bytes M d (bytes_at M s (i - r))) (d + (i - r))
      (bytes_at M (s + (i - r)) k) = store_bytes M d (bytes_at M s ((i - r) + k)) \<and> r - k \<le> i" ..
  let ?m = "(do_store (take (store_count m) (mfifo m)) m)\<lparr> mfifo := drop (store_count m) (mfifo m) \<rparr>"
  have "pl330_step rs DMAST m = Some ?m" using assms by (simp add: copied_def)
  moreover have "copied M s d i (r - k) ?m"
    using assms e' unfolding copied_def do_store_def e
    by (simp add: take_bytes_at drop_bytes_at add.assoc)
  moreover have "ccr ?m = ccr m" by (simp add: do_store_def)
  ultimately show thesis by (rule that)
qed

text \<open>A burst of single bytes keeps what is in the MFIFO; a burst of eight-byte beats keeps the misalignment.\<close>

lemma burst1:
  assumes "copied M s d i r m" and "src_field (ccr m) = (True, 1, n)"
    and "dst_field (ccr m) = (True, 1, n)" and "i + n \<le> N" and "disjoint s d N"
  obtains m' where "run_flat rs [DMALD, DMAST] m = Some m'" and "copied M s d (i + n) r m'"
    and "ccr m' = ccr m"
proof -
  note S = src_fieldD[OF assms(2)] dst_fieldD[OF assms(3)]
  have l: "load_count m = n" using S by (simp add: load_count_def)
  have c: "copied M s d (i + n) (r + n) (do_load rs m)" and e: "ccr (do_load rs m) = ccr m"
    using copied_load[OF assms(1) _ l assms(4,5)] S by auto
  have "dst_inc (ccr (do_load rs m))" "store_count (do_load rs m) = n"
    using S by (simp_all add: store_count_def e)
  then obtain m' where "pl330_step rs DMAST (do_load rs m) = Some m'"
    and "copied M s d (i + n) r m'" and "ccr m' = ccr m"
    using copied_store[OF c, of n rs] e by auto
  then show thesis using that by simp
qed

lemma burst8:
  assumes "copied M s d i r m" and "src_field (ccr m) = (True, 8, n)"
    and "dst_field (ccr m) = (True, 8, n)" and "i + 8 * n \<le> N" and "disjoint s d N"
    and "0 < n" and "(s + i) mod 8 = 0" and "r = 0 \<or> r = (d + i) mod 8"
  obtains m' where "run_flat rs [DMALD, DMAST] m = Some m'"
    and "copied M s d (i + 8 * n) ((d + i) mod 8) m'" and "ccr m' = ccr m"
proof -
  note S = src_fieldD[OF assms(2)] dst_fieldD[OF assms(3)]
  have sar: "sar m = s + i" and dar: "dar m = d + (i - r)" and r: "r \<le> i"
    using assms(1) by (auto simp: copied_def)
  have l: "load_count m = 8 * n" using S assms(7) by (simp add: load_count_def sar)
  have c: "copied M s d (i + 8 * n) (r + 8 * n) (do_load rs m)" and e: "ccr (do_load rs m) = ccr m"
    using copied_load[OF assms(1) _ l assms(4,5)] S by auto
  have dar': "dar (do_load rs m) = dar m" by (simp add: do_load_def Let_def)
  define q where "q = (d + i) mod 8"
  have "dar m mod 8 = q - r"
  proof (cases "r = 0")
    case False
    then have "r = (d + i) mod 8" using assms(8) by blast
    then have "dar m = (d + i) - (d + i) mod 8" using dar r by simp
    then have "dar m mod 8 = 0" using minus_mod_eq_mult_div[of "d + i" 8] by simp
    then show ?thesis using \<open>r = (d + i) mod 8\<close> by (simp add: q_def)
  qed (simp add: dar q_def)
  then have k: "store_count (do_load rs m) = 8 * n - (q - r)"
    using S by (simp add: store_count_def e dar' mult.commute)
  moreover have "q < 8" "r \<le> q \<or> r = 0" using assms(8) by (auto simp: q_def)
  ultimately have "store_count (do_load rs m) \<le> r + 8 * n"
    and "r + 8 * n - store_count (do_load rs m) = q"
    using assms(6) by auto
  then obtain m' where "pl330_step rs DMAST (do_load rs m) = Some m'"
    and "copied M s d (i + 8 * n) q m'" and "ccr m' = ccr m"
    using copied_store[OF c, of _ rs] e S by auto
  then show thesis using that by (simp add: q_def)
qed

section \<open>Programs\<close>

text \<open>A run from any state of \<open>P\<close> ends, without an abort, in a state of \<open>Q\<close>.\<close>

definition runs :: "mem \<Rightarrow> (pl330 \<Rightarrow> bool) \<Rightarrow> dma_call list \<Rightarrow> (pl330 \<Rightarrow> bool) \<Rightarrow> bool" where
  "runs rs P cs Q \<longleftrightarrow> (\<forall>m. P m \<longrightarrow> (\<exists>m'. run_program rs cs m = Some m' \<and> Q m'))"

definition flat :: "dma_call list \<Rightarrow> bool" where
  "flat cs \<longleftrightarrow> (\<forall>c \<in> set cs. loop_end c = None \<and> (\<forall>n. c \<noteq> DMALP n))"

lemma flat_simps [simp]:
  "flat []" "flat (DMAMOV r v # cs) = flat cs" "flat (DMALD # cs) = flat cs"
  "flat (DMAST # cs) = flat cs" "flat (DMASTZ # cs) = flat cs" "flat (DMAWMB # cs) = flat cs"
  "flat (DMASEV e # cs) = flat cs" "flat (DMAEND # cs) = flat cs"
  "flat (DMAFLUSHP p # cs) = flat cs" "flat (DMAWFP p k # cs) = flat cs"
  "flat (DMALDx k # cs) = flat cs" "flat (DMASTx k # cs) = flat cs"
  by (simp_all add: flat_def)

lemma closed_flat: "flat cs \<Longrightarrow> closed_calls cs \<and> unroll cs = cs"
proof (induction cs)
  case (Cons c cs)
  then have c: "closed_calls [c]" by (intro closed_simple) (auto simp: flat_def)
  moreover have "unroll [c] = [c]" using Cons.prems by (cases c) (auto simp: flat_def)
  ultimately show ?case
    using Cons closed_append[OF c, of cs] unroll_append[OF c, of cs] by (simp add: flat_def)
qed simp

lemma runs_flat: "flat cs \<Longrightarrow> runs rs P cs Q \<longleftrightarrow> (\<forall>m. P m \<longrightarrow> (\<exists>m'. run_flat rs cs m = Some m' \<and> Q m'))"
  by (simp add: runs_def run_program_def closed_flat)

lemma runs_append:
  assumes "closed_calls cs" and "runs rs P cs Q" and "runs rs Q ds R"
  shows "runs rs P (cs @ ds) R"
  unfolding runs_def
proof (intro allI impI)
  fix m
  assume "P m"
  with assms(2) obtain m1 where "run_program rs cs m = Some m1" "Q m1" unfolding runs_def by blast
  moreover from this(2) assms(3) obtain m2 where "run_program rs ds m1 = Some m2" "R m2"
    unfolding runs_def by blast
  ultimately show "\<exists>m'. run_program rs (cs @ ds) m = Some m' \<and> R m'"
    by (simp add: run_program_def unroll_append[OF assms(1)] run_flat_append)
qed

lemma runs_Nil [simp]: "runs rs P [] Q \<longleftrightarrow> (\<forall>m. P m \<longrightarrow> Q m)"
  by (simp add: runs_flat)

lemma runs_if:
  assumes "c \<Longrightarrow> runs rs P cs Q" and "\<not> c \<Longrightarrow> runs rs P ds Q"
  shows "runs rs P (if c then cs else ds) Q"
  using assms by simp

lemma runs_mov_ccr:
  assumes "flat cs" and "\<And>m. P m \<Longrightarrow> ccr m = w \<Longrightarrow> \<exists>m'. run_flat rs cs m = Some m' \<and> Q m'"
    and "\<And>m. P m \<Longrightarrow> P (m\<lparr> ccr := w \<rparr>)"
  shows "runs rs P (DMAMOV CCR w # cs) Q"
  using assms(2,3) by (auto simp: runs_flat assms(1))

lemma copied_ccr [simp]: "copied M s d i r (m\<lparr> ccr := w \<rparr>) = copied M s d i r m"
  by (simp add: copied_def)

section \<open>Memory to memory\<close>

lemma lengths_unat: "n \<in> lengths \<Longrightarrow> 0 < unat n"
  by (auto simp: lengths_def)

lemma copy1:
  assumes "ccr_opts_ok opt" and "n \<in> lengths" and "disjoint s d N" and "i + unat n \<le> N"
  shows "runs rs (copied M s d i r)
    [DMAMOV CCR (ccr_copy opt (sb_len n) (SS8 opt) (db_len n) (DS8 opt)), DMALD, DMAST]
    (copied M s d (i + unat n) r)"
proof (rule runs_mov_ccr)
  fix m
  assume c: "copied M s d i r m"
    and w: "ccr m = ccr_copy opt (sb_len n) (SS8 opt) (db_len n) (DS8 opt)"
  have "src_field (ccr m) = (True, 1, unat n)" "dst_field (ccr m) = (True, 1, unat n)"
    using ccr_copy_fields[OF assms(1,2), of 0] by (simp_all add: w opts_values[OF assms(1)] sizes_def)
  from burst1[OF c this assms(4,3)]
  show "\<exists>m'. run_flat rs [DMALD, DMAST] m = Some m' \<and> copied M s d (i + unat n) r m'" by metis
qed simp_all

lemma copy8_fields:
  assumes "ccr_opts_ok opt" and "n \<in> lengths"
    and "ccr m = ccr_copy opt (sb_len n) (SS64 opt) (db_len n) (DS64 opt)"
  shows "src_field (ccr m) = (True, 8, unat n)" "dst_field (ccr m) = (True, 8, unat n)"
  using ccr_copy_fields[OF assms(1,2), of 3] by (simp_all add: assms(3) opts_values[OF assms(1)] sizes_def)

lemma copy8:
  assumes "ccr_opts_ok opt" and "n \<in> lengths" and "disjoint s d N" and "i + 8 * unat n \<le> N"
    and "(s + i) mod 8 = 0" and "r = 0 \<or> r = (d + i) mod 8"
  shows "runs rs (copied M s d i r)
    [DMAMOV CCR (ccr_copy opt (sb_len n) (SS64 opt) (db_len n) (DS64 opt)), DMALD, DMAST]
    (copied M s d (i + 8 * unat n) ((d + i) mod 8))"
proof (rule runs_mov_ccr)
  fix m
  assume c: "copied M s d i r m"
    and w: "ccr m = ccr_copy opt (sb_len n) (SS64 opt) (db_len n) (DS64 opt)"
  from burst8[OF c copy8_fields[OF assms(1,2) w] assms(4,3) lengths_unat[OF assms(2)] assms(5,6)]
  show "\<exists>m'. run_flat rs [DMALD, DMAST] m = Some m' \<and>
      copied M s d (i + 8 * unat n) ((d + i) mod 8) m'" by metis
qed simp_all

lemma bursts8:
  assumes "copied M s d i r m" and "src_field (ccr m) = (True, 8, n)"
    and "dst_field (ccr m) = (True, 8, n)" and "i + 8 * n * k \<le> N" and "disjoint s d N"
    and "0 < n" and "(s + i) mod 8 = 0" and "r = 0 \<or> r = (d + i) mod 8"
  shows "\<exists>m'. run_flat rs (pairs k) m = Some m' \<and>
    copied M s d (i + 8 * n * k) (if k = 0 then r else (d + i) mod 8) m'"
  using assms
proof (induction k arbitrary: i r m)
  case (Suc k)
  have "i + 8 * n \<le> N" using Suc.prems(4) by simp
  from burst8[OF Suc.prems(1-3) this Suc.prems(5-8)]
  obtain m1 where m1: "run_flat rs [DMALD, DMAST] m = Some m1"
    "copied M s d (i + 8 * n) ((d + i) mod 8) m1" "ccr m1 = ccr m" by metis
  have q: "(d + (i + 8 * n)) mod 8 = (d + i) mod 8" "(s + (i + 8 * n)) mod 8 = 0"
    using Suc.prems(7) by (metis add.assoc mod_mult_self2)+
  have n: "i + 8 * n + 8 * n * k \<le> N" using Suc.prems(4) by (simp add: algebra_simps)
  have "\<exists>m'. run_flat rs (pairs k) m1 = Some m' \<and> copied M s d (i + 8 * n + 8 * n * k)
      (if k = 0 then (d + i) mod 8 else (d + (i + 8 * n)) mod 8) m'"
    by (rule Suc.IH[OF m1(2) _ _ n Suc.prems(5,6) q(2)]) (simp_all add: m1(3) Suc.prems(2,3) q)
  then show ?case
    using m1(1) unfolding pairs_Suc run_flat_append q(1) by (auto simp: algebra_simps)
qed simp

lemma flat_closed: "flat cs \<Longrightarrow> closed_calls cs"
  by (simp add: closed_flat)

lemma m2m_burst_flat: "flat (m2m_burst opt ss ds n)"
  by (simp add: m2m_burst_def)

lemma m2m_burst1:
  assumes "ccr_opts_ok opt" and "disjoint s d N" and "i + unat n \<le> N" and "n \<le> 16"
  shows "runs rs (copied M s d i r) (m2m_burst opt (SS8 opt) (DS8 opt) n) (copied M s d (i + unat n) r)"
  using copy1[OF assms(1) lengthsI[OF _ assms(4)] assms(2,3)]
  by (auto simp: m2m_burst_def word_gt_0)

text \<open>What a sequence of eight-byte bursts leaves in the MFIFO.\<close>

definition left_over :: "nat \<Rightarrow> nat \<Rightarrow> nat \<Rightarrow> nat" where
  "left_over r q k = (if k = 0 then r else q)"

lemma m2m_burst8:
  assumes "ccr_opts_ok opt" and "disjoint s d N" and "i + 8 * unat n \<le> N" and "n \<le> 16"
    and "(s + i) mod 8 = 0" and "r = 0 \<or> r = (d + i) mod 8"
  shows "runs rs (copied M s d i r) (m2m_burst opt (SS64 opt) (DS64 opt) n)
    (copied M s d (i + 8 * unat n) (left_over r ((d + i) mod 8) (unat n)))"
proof (cases "n = 0")
  case False
  then have "0 < n" by (simp add: word_gt_0)
  from copy8[OF assms(1) lengthsI[OF this assms(4)] assms(2,3,5,6)] False show ?thesis
    by (simp add: m2m_burst_def left_over_def unat_eq_0)
qed (simp add: m2m_burst_def left_over_def)

lemma m2m_burst16_closed: "closed_calls (m2m_burst16 opt b)"
proof -
  have "DMAMOV CCR w # m2m_loops n = [DMAMOV CCR w] @ m2m_loops n" for w n by simp
  moreover have "closed_calls ([DMAMOV CCR w] @ m2m_loops n)" for w n
    by (intro closed_append) (simp_all add: flat_closed m2m_loops_unroll)
  ultimately show ?thesis by (simp add: m2m_burst16_def)
qed

lemma runs_ccr_pairs:
  assumes "closed_calls cs" and "unroll cs = pairs k"
    and "\<And>m. P m \<Longrightarrow> ccr m = w \<Longrightarrow> \<exists>m'. run_flat rs (pairs k) m = Some m' \<and> Q m'"
    and "\<And>m. P m \<Longrightarrow> P (m\<lparr> ccr := w \<rparr>)"
  shows "runs rs P (DMAMOV CCR w # cs) Q"
proof -
  have "unroll (DMAMOV CCR w # cs) = DMAMOV CCR w # pairs k" using assms(2) by simp
  then show ?thesis using assms(3,4) by (auto simp: runs_def run_program_def)
qed

lemma m2m_burst16_runs:
  assumes "ccr_opts_ok opt" and "disjoint s d N" and "i + 128 * (unat b div 16) \<le> N"
    and "(s + i) mod 8 = 0" and "r = 0 \<or> r = (d + i) mod 8"
  shows "runs rs (copied M s d i r) (m2m_burst16 opt b)
    (copied M s d (i + 128 * (unat b div 16)) (left_over r ((d + i) mod 8) (unat b div 16)))"
proof (cases "drop_bit 4 b = 0")
  case True
  then have "unat b div 16 = 0" using unat_drop[of 4 b] by simp
  then show ?thesis using True by (simp add: m2m_burst16_def left_over_def)
next
  case False
  have u: "unat (drop_bit 4 b) = unat b div 16" using unat_drop[of 4 b] by simp
  have l: "(16 :: u32) \<in> lengths" "unat (16 :: u32) = 16" by (simp_all add: lengths_def)
  have "runs rs (copied M s d i r)
      (DMAMOV CCR (ccr_copy opt (SB16 opt) (SS64 opt) (DB16 opt) (DS64 opt)) # m2m_loops (drop_bit 4 b))
      (copied M s d (i + 128 * (unat b div 16)) (left_over r ((d + i) mod 8) (unat b div 16)))"
  proof (rule runs_ccr_pairs)
    fix m
    assume c: "copied M s d i r m"
      and w: "ccr m = ccr_copy opt (SB16 opt) (SS64 opt) (DB16 opt) (DS64 opt)"
    then have "ccr m = ccr_copy opt (sb_len 16) (SS64 opt) (db_len 16) (DS64 opt)"
      by (simp only: opts_values(9,10)[OF assms(1)])
    note f = copy8_fields[OF assms(1) l(1) this, unfolded l(2)]
    have "i + 8 * 16 * (unat b div 16) \<le> N" using assms(3) by simp
    from bursts8[OF c f this assms(2) _ assms(4,5)]
    show "\<exists>m'. run_flat rs (pairs (unat b div 16)) m = Some m' \<and>
        copied M s d (i + 128 * (unat b div 16)) (left_over r ((d + i) mod 8) (unat b div 16)) m'"
      by (simp add: left_over_def)
  qed (use m2m_loops_unroll[of "drop_bit 4 b"] u in simp_all)
  then show ?thesis using False by (simp add: m2m_burst16_def)
qed

text \<open>The eight-byte phase: \<open>b\<close> beats, in bursts of 16 and one rest.\<close>

definition rest_burst :: "u32 \<Rightarrow> u32" where
  "rest_burst b = (if drop_bit 4 b \<noteq> 0 then b AND 0xf else b)"

lemma rest_burst: "unat (rest_burst b) = unat b mod 16" "rest_burst b \<le> 16"
proof -
  have "unat b div 16 = 0 \<Longrightarrow> unat b mod 16 = unat b" by (simp add: div_eq_0_iff)
  then show u: "unat (rest_burst b) = unat b mod 16"
    using unat_drop[of 4 b] by (auto simp: rest_burst_def unat_low)
  have "unat b mod 16 < 16" by simp
  then have "unat (rest_burst b) \<le> 16" unfolding u by linarith
  then show "rest_burst b \<le> 16" by (simp add: word_le_nat_alt)
qed

lemma m2m_phase8:
  assumes "ccr_opts_ok opt" and "disjoint s d N" and "i + 8 * unat b \<le> N" and "(s + i) mod 8 = 0"
  shows "runs rs (copied M s d i 0)
    (m2m_burst16 opt b @ m2m_burst opt (SS64 opt) (DS64 opt) (rest_burst b))
    (copied M s d (i + 8 * unat b) (left_over 0 ((d + i) mod 8) (unat b)))"
proof -
  define j where "j = i + 128 * (unat b div 16)"
  define r where "r = left_over 0 ((d + i) mod 8) (unat b div 16)"
  have b: "unat b = 16 * (unat b div 16) + unat b mod 16" by simp
  then have n: "j + 8 * unat (rest_burst b) = i + 8 * unat b" unfolding rest_burst j_def by linarith
  have q: "(d + j) mod 8 = (d + i) mod 8" "(s + j) mod 8 = (s + i) mod 8"
  proof -
    have "d + j = d + i + 8 * (16 * (unat b div 16))" "s + j = s + i + 8 * (16 * (unat b div 16))"
      by (simp_all add: j_def)
    then show "(d + j) mod 8 = (d + i) mod 8" "(s + j) mod 8 = (s + i) mod 8"
      by (metis mod_mult_self2)+
  qed
  have "left_over r ((d + j) mod 8) (unat (rest_burst b)) = left_over 0 ((d + i) mod 8) (unat b)"
    using b by (auto simp: left_over_def r_def q rest_burst split: if_splits)
  moreover have "runs rs (copied M s d i 0) (m2m_burst16 opt b) (copied M s d j r)"
    unfolding j_def r_def using assms b by (intro m2m_burst16_runs) auto
  moreover have "runs rs (copied M s d j r) (m2m_burst opt (SS64 opt) (DS64 opt) (rest_burst b))
      (copied M s d (j + 8 * unat (rest_burst b)) (left_over r ((d + j) mod 8) (unat (rest_burst b))))"
    using assms n q rest_burst(2) by (intro m2m_burst8[where N = N]) (auto simp: r_def left_over_def)
  ultimately show ?thesis
    using runs_append[OF m2m_burst16_closed] n by metis
qed

text \<open>How many single bytes align an address.\<close>

lemma align_count:
  fixes a sz :: u32
  assumes "0 < sz"
  defines "n \<equiv> ALT_MIN (8 - (a AND 7)) sz"
  shows "a AND 7 = 0 \<longleftrightarrow> unat a mod 8 = 0" and "0 < n" and "n \<le> 16"
    and "unat (sz - n) = unat sz - unat n" and "unat n \<le> unat sz"
    and "unat (sz - n) = 0 \<or> (unat a + unat n) mod 8 = 0 \<or> unat a mod 8 = 0"
proof -
  have "a AND 7 \<le> 8" using unat_low(1)[of a] by (simp add: word_le_nat_alt)
  then have "unat (8 - (a AND 7)) = 8 - unat a mod 8" by (simp add: unat_minus_le unat_low)
  then have n: "unat n = min (8 - unat a mod 8) (unat sz)" by (simp only: n_def ALT_MIN_le)
  show "a AND 7 = 0 \<longleftrightarrow> unat a mod 8 = 0" by (metis unat_low(1) unat_eq_zero)
  show "0 < n" "n \<le> 16" using assms(1) n by (auto simp: word_less_nat_alt word_le_nat_alt)
  show le: "unat n \<le> unat sz" by (simp add: n)
  then show d: "unat (sz - n) = unat sz - unat n" by (simp add: unat_minus_le word_le_nat_alt)
  have "unat a + (8 - unat a mod 8) = 8 * (unat a div 8 + 1)"
    by (rule next_multiple) simp_all
  then have "(unat a + (8 - unat a mod 8)) mod 8 = 0" by simp
  then show "unat (sz - n) = 0 \<or> (unat a + unat n) mod 8 = 0 \<or> unat a mod 8 = 0"
    using n d by (auto simp: min_def split: if_splits)
qed

text \<open>The single bytes that align the source.\<close>

lemma m2m_align_runs:
  assumes "ccr_opts_ok opt" and "m2m_align opt src sz = (cs, left)" and "disjoint (unat src) d N"
    and "unat sz \<le> N" and "0 < sz"
  shows "closed_calls cs" and "unat left \<le> unat sz"
    and "runs rs (copied M (unat src) d 0 0) cs (copied M (unat src) d (unat sz - unat left) 0)"
    and "unat left div 8 \<noteq> 0 \<Longrightarrow> (unat src + (unat sz - unat left)) mod 8 = 0"
proof -
  let ?n = "ALT_MIN (8 - (src AND 7)) sz"
  note n = align_count[OF assms(5), of src]
  have left: "unat left = (if unat src mod 8 = 0 then unat sz else unat sz - unat ?n)"
    using assms(2) n by (auto simp: m2m_align_def Let_def split: if_splits)
  show "closed_calls cs"
    using assms(2) by (auto simp: m2m_align_def Let_def flat_closed split: if_splits)
  show "unat left \<le> unat sz" by (simp add: left)
  show "unat left div 8 \<noteq> 0 \<Longrightarrow> (unat src + (unat sz - unat left)) mod 8 = 0"
    using n(6) unfolding left n(4) by (cases "unat src mod 8 = 0") auto
  show "runs rs (copied M (unat src) d 0 0) cs (copied M (unat src) d (unat sz - unat left) 0)"
  proof (cases "unat src mod 8 = 0")
    case True
    then have "src AND 7 = 0" using n(1) by simp
    then have "cs = []" "left = sz" using assms(2) by (simp_all add: m2m_align_def)
    then show ?thesis by simp
  next
    case False
    have "unat ?n \<le> N" using n(5) assms(4) by linarith
    with copy1[OF assms(1) lengthsI[OF n(2,3)] assms(3), of 0 rs M 0]
    have "runs rs (copied M (unat src) d 0 0)
        [DMAMOV CCR (ccr_copy opt (sb_len ?n) (SS8 opt) (db_len ?n) (DS8 opt)), DMALD, DMAST]
        (copied M (unat src) d (unat ?n) 0)" by simp
    moreover have "unat sz - unat left = unat ?n" using False left n by simp
    moreover have "cs = [DMAMOV CCR (ccr_copy opt (sb_len ?n) (SS8 opt) (db_len ?n) (DS8 opt)), DMALD, DMAST]"
      using False n(1) assms(2) by (simp add: m2m_align_def Let_def)
    ultimately show ?thesis by simp
  qed
qed

text \<open>The bytes left in the MFIFO are stored.\<close>

lemma m2m_correct_flat: "flat (m2m_correct opt dst src)"
  by (simp add: m2m_correct_def Let_def)

lemma correct_count:
  "unat ((dst + (8 - (src AND 0x7))) AND (0x7 :: u32)) = (unat dst + (8 - unat src mod 8)) mod 8"
proof -
  have "src AND 7 \<le> 8" using unat_low(1)[of src] by (simp add: word_le_nat_alt)
  then have e: "unat (8 - (src AND 7)) = 8 - unat src mod 8" by (simp add: unat_minus_le unat_low)
  have "unat (dst + (8 - (src AND 7))) mod 8 = (unat dst + (8 - unat src mod 8)) mod 8"
    unfolding unat_word_ariths e by (simp add: mod_mod_cancel)
  then show ?thesis unfolding unat_low .
qed

lemma m2m_correct_runs:
  assumes "ccr_opts_ok opt" and "r = (unat dst + (8 - unat src mod 8)) mod 8" and "r \<noteq> 0"
  shows "runs rs (copied M s d i r) (m2m_correct opt dst src) (copied M s d i 0)"
proof -
  let ?n = "(dst + (8 - (src AND 0x7))) AND (0x7 :: u32)"
  have n: "unat ?n = r" unfolding correct_count assms(2) ..
  moreover have "r < 8" using assms(2) by simp
  ultimately have "0 < ?n" "?n \<le> 16" using assms(3) by (simp_all add: word_less_nat_alt word_le_nat_alt)
  note l = lengthsI[OF this]
  have "runs rs (copied M s d i r)
      [DMAMOV CCR (ccr_copy opt (sb_len ?n) (SS8 opt) (db_len ?n) (DS8 opt)), DMAST] (copied M s d i 0)"
  proof (rule runs_mov_ccr)
    fix m
    assume c: "copied M s d i r m"
      and w: "ccr m = ccr_copy opt (sb_len ?n) (SS8 opt) (db_len ?n) (DS8 opt)"
    have "dst_field (ccr m) = (True, 1, r)"
      using ccr_copy_fields(2)[OF assms(1) l, of 0] n
      by (simp add: w opts_values[OF assms(1)] sizes_def)
    then have "dst_inc (ccr m)" "store_count m = r" by (auto dest: dst_fieldD simp: store_count_def)
    then obtain m' where "pl330_step rs DMAST m = Some m'" "copied M s d i (r - r) m'"
      by (rule copied_store[OF c _ _ order.refl])
    then show "\<exists>m'. run_flat rs [DMAST] m = Some m' \<and> copied M s d i 0 m'" by auto
  qed simp_all
  then show ?thesis by (simp only: m2m_correct_def Let_def)
qed

text \<open>The whole segment.\<close>

lemma runs_start:
  "runs rs (\<lambda>m. m = m0 \<and> mfifo m = []) [DMAMOV SAR src, DMAMOV DAR dst]
     (copied (memory m0) (unat src) (unat dst) 0 0)"
  by (auto simp: runs_flat copied_def store_bytes_def fun_eq_iff)

lemma m2m_calls_runs:
  assumes "ccr_opts_ok opt" and "0 < sz" and "disjoint (unat src) (unat dst) (unat sz)"
  shows "runs rs (\<lambda>m. m = m0 \<and> mfifo m = []) (m2m_calls opt dst src sz)
    (copied (memory m0) (unat src) (unat dst) (unat sz) 0)"
proof -
  define s d M N where "s = unat src" and "d = unat dst" and "M = memory m0" and "N = unat sz"
  obtain cs left where al: "m2m_align opt src sz = (cs, left)" by force
  note A = m2m_align_runs[OF assms(1) al assms(3) order.refl assms(2), folded s_def d_def N_def]
  define b where "b = drop_bit 3 left"
  have b: "unat b = unat left div 8" using unat_drop[of 3 left] by (simp add: b_def)
  define i where "i = N - unat left"
  define q where "q = (d + i) mod 8"
  have N: "i + unat left = N" using A(2) by (simp add: i_def)
  then have iN: "i + 8 * unat b \<le> N" unfolding b by presburger
  let ?C = "copied M s d"
  let ?r = "left_over 0 q (unat b)"
  let ?p8 = "m2m_burst16 opt b @ m2m_burst opt (SS64 opt) (DS64 opt) (rest_burst b)"
  define corr where "corr \<longleftrightarrow> b \<noteq> 0 \<and> (src AND 0x7) \<noteq> (dst AND 0x7)"
  have P8: "runs rs (?C i 0) ?p8 (?C (i + 8 * unat b) ?r)"
  proof (cases "b = 0")
    case True
    then show ?thesis by (simp add: m2m_burst16_def m2m_burst_def rest_burst_def left_over_def)
  next
    case False
    then have "unat left div 8 \<noteq> 0" using b by (metis unat_eq_zero)
    then have "(s + i) mod 8 = 0" using A(4) by (simp add: i_def)
    from m2m_phase8[OF assms(1) assms(3)[folded s_def d_def N_def] iN this]
    show ?thesis unfolding q_def .
  qed
  have Q: "?r = (if corr then (d + (8 - s mod 8)) mod 8 else 0)" "corr \<longrightarrow> ?r \<noteq> 0"
  proof -
    have c: "corr \<longleftrightarrow> unat b \<noteq> 0 \<and> s mod 8 \<noteq> d mod 8"
      unfolding corr_def s_def d_def by (metis unat_low(1) unat_eq_zero word_unat_eq_iff)
    have e: "q = (d + (8 - s mod 8)) mod 8" "s mod 8 \<noteq> d mod 8 \<longleftrightarrow> q \<noteq> 0" if "unat b \<noteq> 0"
    proof -
      have "(s + i) mod 8 = 0" using that A(4) b by (simp add: i_def)
      then show "q = (d + (8 - s mod 8)) mod 8" "s mod 8 \<noteq> d mod 8 \<longleftrightarrow> q \<noteq> 0"
        unfolding q_def using mod8_complement[of s i d] by auto
    qed
    show "?r = (if corr then (d + (8 - s mod 8)) mod 8 else 0)" "corr \<longrightarrow> ?r \<noteq> 0"
      using e by (auto simp: c left_over_def)
  qed
  have CO: "runs rs (?C (i + 8 * unat b) ?r) (if corr then m2m_correct opt dst src else [])
      (?C (i + 8 * unat b) 0)"
    using Q m2m_correct_runs[OF assms(1), of ?r dst src] by (auto simp: s_def d_def)
  have T: "runs rs (?C (i + 8 * unat b) 0) (m2m_burst opt (SS8 opt) (DS8 opt) (left AND 7)) (?C N 0)"
  proof -
    have e: "i + 8 * unat b + unat (left AND 7) = N"
      unfolding b unat_low using N by presburger
    have "unat (left AND 7) \<le> 16" unfolding unat_low by presburger
    then have "left AND 7 \<le> 16" by (simp add: word_le_nat_alt)
    from m2m_burst1[OF assms(1) assms(3)[folded s_def d_def N_def] eq_refl[OF e] this]
    show ?thesis unfolding e .
  qed
  have "m2m_calls opt dst src sz = [DMAMOV SAR src, DMAMOV DAR dst] @ cs @ ?p8 @
      (if corr then m2m_correct opt dst src else []) @ m2m_burst opt (SS8 opt) (DS8 opt) (left AND 7)"
    by (simp add: m2m_calls_def al Let_def b_def corr_def rest_burst_def)
  moreover have "closed_calls ?p8" "closed_calls (if corr then m2m_correct opt dst src else [])"
    by (simp_all add: closed_append m2m_burst16_closed flat_closed m2m_burst_flat m2m_correct_flat)
  ultimately show ?thesis
    using runs_append[OF _ runs_start[of rs m0 src dst, folded s_def d_def M_def]
        runs_append[OF A(1) A(3)[of rs M, folded i_def] runs_append[OF _ P8 runs_append[OF _ CO T]]]]
    by (simp add: flat_closed N_def s_def d_def M_def)
qed

section \<open>Zero to memory\<close>

definition zeroed :: "mem \<Rightarrow> nat \<Rightarrow> nat \<Rightarrow> pl330 \<Rightarrow> bool" where
  "zeroed M d i m \<longleftrightarrow> dar m = d + i \<and> mfifo m = [] \<and> memory m = store_bytes M d (replicate i 0)"

lemma zeroed_ccr [simp]: "zeroed M d i (m\<lparr> ccr := w \<rparr>) = zeroed M d i m"
  by (simp add: zeroed_def)

lemma zero_step:
  assumes "zeroed M d i m" and "dst_field (ccr m) = (True, z, n)" and "(d + i) mod z = 0"
  obtains m' where "pl330_step rs DMASTZ m = Some m'" and "zeroed M d (i + n * z) m'"
    and "ccr m' = ccr m"
proof -
  let ?m = "do_store (replicate (n * z) 0) m"
  have "store_bytes (store_bytes M d (replicate i 0)) (d + i) (replicate (n * z) 0) =
      store_bytes M d (replicate (i + n * z) 0)"
    using store_bytes_append[of M d "replicate i 0"] by (simp add: replicate_add)
  then have "zeroed M d (i + n * z) ?m" "ccr ?m = ccr m"
    using assms dst_fieldD[OF assms(2)] by (simp_all add: zeroed_def do_store_def)
  moreover have "pl330_step rs DMASTZ m = Some ?m"
    using assms dst_fieldD[OF assms(2)] by (simp add: store_count_def zeroed_def)
  ultimately show thesis using that by blast
qed

lemma zero_steps:
  assumes "zeroed M d i m" and "dst_field (ccr m) = (True, z, n)" and "(d + i) mod z = 0"
  shows "\<exists>m'. run_flat rs (replicate k DMASTZ) m = Some m' \<and> zeroed M d (i + n * z * k) m'"
  using assms
proof (induction k arbitrary: i m)
  case (Suc k)
  from zero_step[OF Suc.prems] obtain m1 where m1: "pl330_step rs DMASTZ m = Some m1"
    "zeroed M d (i + n * z) m1" "ccr m1 = ccr m" by metis
  have "(d + (i + n * z)) mod z = 0" using Suc.prems(3) by (metis add.assoc mod_mult_self1)
  then have "\<exists>m'. run_flat rs (replicate k DMASTZ) m1 = Some m' \<and>
      zeroed M d (i + n * z + n * z * k) m'"
    using m1 Suc.prems(2) by (intro Suc.IH) simp_all
  then show ?case using m1(1) by (simp add: algebra_simps)
qed simp

lemma runs_ccr_zeros:
  assumes "closed_calls cs" and "unroll cs = replicate k DMASTZ"
    and "dst_field w = (True, z, n)" and "(d + i) mod z = 0" and "j = i + n * z * k"
  shows "closed_calls (DMAMOV CCR w # cs)"
    and "runs rs (zeroed M d i) (DMAMOV CCR w # cs) (zeroed M d j)"
proof -
  have "closed_calls ([DMAMOV CCR w] @ cs)" using assms(1) by (intro closed_append) (simp_all add: flat_closed)
  then show "closed_calls (DMAMOV CCR w # cs)" by simp
  have "unroll (DMAMOV CCR w # cs) = DMAMOV CCR w # replicate k DMASTZ" using assms(2) by simp
  then show "runs rs (zeroed M d i) (DMAMOV CCR w # cs) (zeroed M d j)"
    using zero_steps[of M d i _ z n] assms(3,4,5) by (auto simp: runs_def run_program_def)
qed

lemma z2m_burst_runs:
  assumes "ccr_opts_ok opt" and "n \<le> 16" and "k \<in> sizes" and "ds = push_bit 15 k"
    and "n \<noteq> 0 \<Longrightarrow> (d + i) mod 2 ^ unat k = 0" and "j = i + 2 ^ unat k * unat n"
  shows "closed_calls (z2m_burst opt ds n)"
    and "runs rs (zeroed M d i) (z2m_burst opt ds n) (zeroed M d j)"
proof -
  show "closed_calls (z2m_burst opt ds n)" by (simp add: z2m_burst_def flat_closed)
  show "runs rs (zeroed M d i) (z2m_burst opt ds n) (zeroed M d j)"
  proof (cases "n = 0")
    case False
    then have "n \<in> lengths" using assms(2) by (intro lengthsI) (simp_all add: word_gt_0)
    note f = ccr_zero_fields[OF assms(1) this assms(3)]
    show ?thesis
      using runs_ccr_zeros(2)[OF closed_zero(1) _ f assms(5), of 1 j rs M] False assms(4,6)
      by (simp add: z2m_burst_def mult.commute)
  qed (simp add: z2m_burst_def assms(6))
qed

lemma z2m_align_runs:
  assumes "ccr_opts_ok opt" and "z2m_align opt buf sz = (cs, left)" and "0 < sz"
  shows "closed_calls cs" and "unat left \<le> unat sz"
    and "runs rs (zeroed M (unat buf) 0) cs (zeroed M (unat buf) (unat sz - unat left))"
    and "unat left div 8 \<noteq> 0 \<Longrightarrow> (unat buf + (unat sz - unat left)) mod 8 = 0"
proof -
  let ?n = "ALT_MIN (8 - (buf AND 7)) sz"
  note n = align_count[OF assms(3), of buf]
  have left: "unat left = (if unat buf mod 8 = 0 then unat sz else unat sz - unat ?n)"
    using assms(2) n by (auto simp: z2m_align_def Let_def split: if_splits)
  show "unat left \<le> unat sz" by (simp add: left)
  show "unat left div 8 \<noteq> 0 \<Longrightarrow> (unat buf + (unat sz - unat left)) mod 8 = 0"
    using n(6) unfolding left n(4) by (cases "unat buf mod 8 = 0") auto
  have "cs = (if unat buf mod 8 = 0 then [] else z2m_burst opt (DS8 opt) ?n)"
    using assms(2) n(1,2) by (auto simp: z2m_align_def z2m_burst_def Let_def split: if_splits)
  moreover note z2m_burst_runs[OF assms(1) n(3), of 0 "DS8 opt" "unat buf" 0 "unat ?n"]
  ultimately show "closed_calls cs"
    and "runs rs (zeroed M (unat buf) 0) cs (zeroed M (unat buf) (unat sz - unat left))"
    using n left by (auto simp: sizes_def opts_values[OF assms(1)])
qed

lemma z2m_calls_runs:
  assumes "ccr_opts_ok opt" and "0 < sz"
  shows "runs rs (\<lambda>m. m = m0 \<and> mfifo m = []) (z2m_calls opt buf sz)
    (zeroed (memory m0) (unat buf) (unat sz))"
proof -
  define d M N where "d = unat buf" and "M = memory m0" and "N = unat sz"
  obtain cs left where al: "z2m_align opt buf sz = (cs, left)" by force
  note A = z2m_align_runs[OF assms(1) al assms(2), folded d_def N_def]
  define b where "b = drop_bit 3 left"
  define c where "c = drop_bit 4 b"
  have b: "unat b = unat left div 8" using unat_drop[of 3 left] by (simp add: b_def)
  have c: "unat c = unat b div 16" using unat_drop[of 4 b] by (simp add: c_def)
  define i j where "i = N - unat left" and "j = i + 128 * unat c"
  let ?Z = "zeroed M d"
  let ?p16 = "if c \<noteq> 0 then DMAMOV CCR (ccr_zero opt (DB16 opt) (DS64 opt)) # z2m_loops c else []"
  have ali: "(d + i) mod 8 = 0" "(d + j) mod 8 = 0" if "b \<noteq> 0"
  proof -
    have "unat b \<noteq> 0" using that by (metis unat_eq_zero)
    then show "(d + i) mod 8 = 0" using A(4) by (simp add: i_def b)
    moreover have "d + j = d + i + 8 * (16 * unat c)" by (simp add: j_def)
    ultimately show "(d + j) mod 8 = 0" by (metis mod_mult_self2)
  qed
  have f: "dst_field (ccr_zero opt (DB16 opt) (DS64 opt)) = (True, 8, 16)"
    using ccr_zero_fields[OF assms(1), of 16 3]
    by (simp add: opts_values[OF assms(1)] sizes_def lengths_def)
  have P16: "closed_calls ?p16 \<and> runs rs (?Z i) ?p16 (?Z j)"
  proof (cases "c = 0")
    case False
    then have "b \<noteq> 0" by (auto simp: c_def)
    then show ?thesis
      using runs_ccr_zeros[OF conjunct1[OF z2m_loops_unroll] conjunct2[OF z2m_loops_unroll] f ali(1), of j c]
        False by (simp add: j_def)
  qed (simp add: j_def)
  have rb: "i + 8 * unat b = j + 8 * unat (rest_burst b)"
    using bursts_of_16[of "unat b"] by (simp only: rest_burst j_def c)
  have ds: "DS64 opt = push_bit 15 3" "(3 :: u32) \<in> sizes" "2 ^ unat (3 :: u32) = (8 :: nat)"
    by (simp_all add: opts_values[OF assms(1)] sizes_def)
  have rz: "rest_burst b \<noteq> 0 \<Longrightarrow> (d + j) mod 2 ^ unat (3 :: u32) = 0"
    using ali(2) by (cases "b = 0") (simp_all add: ds(3) rest_burst_def)
  have R: "closed_calls (z2m_burst opt (DS64 opt) (rest_burst b))"
    "runs rs (?Z j) (z2m_burst opt (DS64 opt) (rest_burst b)) (?Z (i + 8 * unat b))"
    using z2m_burst_runs[OF assms(1) rest_burst(2)[of b] ds(2,1) rz, of "i + 8 * unat b"] rb ds(3) by simp_all
  have T: "runs rs (?Z (i + 8 * unat b)) (z2m_burst opt (DS8 opt) (left AND 7)) (?Z N)"
  proof -
    have "unat (left AND 7) \<le> 16" unfolding unat_low by presburger
    then have "left AND 7 \<le> 16" by (simp add: word_le_nat_alt)
    moreover have "N = i + unat left" using A(2) by (simp add: i_def)
    then have "N = i + 8 * unat b + unat (left AND 7)" unfolding b unat_low by presburger
    ultimately show ?thesis
      by (intro z2m_burst_runs(2)[OF assms(1), of _ 0]) (simp_all add: sizes_def opts_values[OF assms(1)])
  qed
  have S: "runs rs (\<lambda>m. m = m0 \<and> mfifo m = []) [DMAMOV DAR buf] (?Z 0)"
    by (auto simp: runs_flat zeroed_def store_bytes_def fun_eq_iff d_def M_def)
  have "z2m_calls opt buf sz = [DMAMOV DAR buf] @ cs @ ?p16 @
      z2m_burst opt (DS64 opt) (rest_burst b) @ z2m_burst opt (DS8 opt) (left AND 7)"
    by (simp add: z2m_calls_def al Let_def b_def c_def rest_burst_def)
  then show ?thesis
    using runs_append[OF _ S runs_append[OF A(1) A(3)[of rs M, folded i_def]
        runs_append[OF _ _ runs_append[OF R T]]]] P16
    by (simp add: flat_closed N_def d_def M_def)
qed

section \<open>Registers\<close>

text \<open>
  \<open>sent\<close>: the first \<open>i\<close> bytes from \<open>s\<close> have gone to the register at \<open>a\<close>, after what \<open>out\<close> it had.
  \<open>received\<close>: \<open>i\<close> bytes of the stream of the register at \<open>a\<close>, \<open>rs\<close> from its position \<open>p\<close>, are at \<open>d\<close>.
\<close>

definition sent :: "nat \<Rightarrow> mem \<Rightarrow> nat \<Rightarrow> byte list \<Rightarrow> nat \<Rightarrow> pl330 \<Rightarrow> bool" where
  "sent a M s out i m \<longleftrightarrow>
     dar m = a \<and> sar m = s + i \<and> mfifo m = [] \<and> memory m = M \<and> reg_out m = out @ bytes_at M s i"

definition received :: "nat \<Rightarrow> mem \<Rightarrow> mem \<Rightarrow> nat \<Rightarrow> nat \<Rightarrow> nat \<Rightarrow> pl330 \<Rightarrow> bool" where
  "received a rs M d p i m \<longleftrightarrow>
     sar m = a \<and> a \<notin> cells m \<and> dar m = d + i \<and> mfifo m = [] \<and> reg_in m = p + i \<and>
     memory m = store_bytes M d (bytes_at rs p i)"

lemma sent_ccr [simp]: "sent a M s out i (m\<lparr> ccr := w \<rparr>) = sent a M s out i m"
  and received_ccr [simp]: "received a rs M d p i (m\<lparr> ccr := w \<rparr>) = received a rs M d p i m"
  by (simp_all add: sent_def received_def)

lemma sent_burst:
  assumes "sent a M s out i m" and "src_field (ccr m) = (True, z, n)"
    and "dst_field (ccr m) = (False, z, n)" and "(s + i) mod z = 0"
  shows "\<exists>m'. run_flat rs [DMALD, DMAST] m = Some m' \<and> sent a M s out (i + z * n) m' \<and> ccr m' = ccr m"
proof -
  note S = src_fieldD[OF assms(2)] dst_fieldD[OF assms(3)]
  have l: "load_count m = z * n"
    using S assms(1,4) by (simp add: load_count_def sent_def mult.commute)
  let ?m = "do_load rs m"
  have da: "dar ?m = dar m" by (simp add: do_load_def Let_def)
  have ld: "mfifo ?m = bytes_at M (s + i) (z * n)" "ccr ?m = ccr m" "sar ?m = s + (i + z * n)"
    "memory ?m = M" "reg_out ?m = reg_out m"
    using assms(1) S l by (simp_all add: do_load_def sent_def Let_def)
  have st: "store_count ?m = z * n" using S ld(2) by (simp add: store_count_def mult.commute)
  have "pl330_step rs DMAST ?m = Some ((reg_store (bytes_at M (s + i) (z * n)) ?m)\<lparr> mfifo := [] \<rparr>)"
    using S by (simp add: st ld do_store_def)
  then show ?thesis
    using assms(1) ld da by (auto simp: sent_def bytes_at_add)
qed

lemma received_burst:
  assumes "received a rs M d p i m" and "src_field (ccr m) = (False, z, n)"
    and "dst_field (ccr m) = (True, z, n)" and "(d + i) mod z = 0"
  shows "\<exists>m'. run_flat rs [DMALD, DMAST] m = Some m' \<and> received a rs M d p (i + z * n) m' \<and> ccr m' = ccr m"
proof -
  note S = src_fieldD[OF assms(2)] dst_fieldD[OF assms(3)]
  have l: "load_count m = z * n" using S by (simp add: load_count_def mult.commute)
  let ?m = "do_load rs m" and ?bs = "bytes_at rs (p + i) (z * n)"
  have ld: "mfifo ?m = ?bs" "ccr ?m = ccr m" "dar ?m = d + i" "memory ?m = memory m"
    "reg_in ?m = p + (i + z * n)" "sar ?m = sar m" "cells ?m = cells m"
    using assms(1) S l by (simp_all add: do_load_def received_def Let_def)
  have st: "store_count ?m = z * n"
    using S assms(4) ld by (simp add: store_count_def mult.commute)
  have "pl330_step rs DMAST ?m =
      Some (?m\<lparr> memory := store_bytes (memory m) (d + i) ?bs, dar := d + (i + z * n), mfifo := [] \<rparr>)"
    using S by (simp add: st ld do_store_def add.assoc)
  moreover have "store_bytes (memory m) (d + i) ?bs = store_bytes M d (bytes_at rs p (i + z * n))"
    using store_bytes_append[of M d "bytes_at rs p i" ?bs] assms(1)
    by (simp add: received_def bytes_at_add)
  ultimately show ?thesis
    using ld assms(1) by (auto simp: received_def)
qed

text \<open>An invariant \<open>I\<close> that a burst advances by \<open>k\<close> bytes is advanced by a loop, and by a register program.\<close>

lemma iterate_pairs:
  assumes "\<And>i m. I i m \<Longrightarrow> ccr m = w \<Longrightarrow>
      \<exists>m'. run_flat rs [DMALD, DMAST] m = Some m' \<and> I (i + k) m' \<and> ccr m' = w"
    and "I i m" and "ccr m = w"
  shows "\<exists>m'. run_flat rs (pairs n) m = Some m' \<and> I (i + k * n) m'"
  using assms(2,3)
proof (induction n arbitrary: i m)
  case (Suc n)
  from assms(1)[OF Suc.prems] obtain m1
    where m1: "run_flat rs [DMALD, DMAST] m = Some m1" "I (i + k) m1" "ccr m1 = w" by blast
  from Suc.IH[OF m1(2,3)] m1(1) show ?case
    unfolding pairs_Suc run_flat_append by (auto simp: algebra_simps)
qed simp

lemma register_runs:
  fixes I :: "nat \<Rightarrow> pl330 \<Rightarrow> bool"
  assumes step: "\<And>n i m. n \<in> lengths \<Longrightarrow> I i m \<Longrightarrow> ccr m = word n \<Longrightarrow>
      \<exists>m'. run_flat rs [DMALD, DMAST] m = Some m' \<and> I (i + z * unat n) m' \<and> ccr m' = word n"
    and ccr: "\<And>i m w. I i (m\<lparr> ccr := w \<rparr>) = I i m"
  shows "runs rs (I 0)
    ((if drop_bit 4 cnt \<noteq> 0 then DMAMOV CCR (word 16) # reg_loops (drop_bit 4 cnt) else []) @
     (if rest_burst cnt \<noteq> 0 then [DMAMOV CCR (word (rest_burst cnt)), DMALD, DMAST] else []))
    (I (z * unat cnt))"
proof -
  define c where "c = drop_bit 4 cnt"
  have c: "unat c = unat cnt div 16" using unat_drop[of 4 cnt] by (simp add: c_def)
  have l16: "(16 :: u32) \<in> lengths" "unat (16 :: u32) = 16" by (simp_all add: lengths_def)
  let ?p = "if c \<noteq> 0 then DMAMOV CCR (word 16) # reg_loops c else []"
  let ?t = "if rest_burst cnt \<noteq> 0 then [DMAMOV CCR (word (rest_burst cnt)), DMALD, DMAST] else []"
  have "closed_calls ([DMAMOV CCR (word 16)] @ reg_loops c)"
    by (intro closed_append) (simp_all add: flat_closed reg_loops_unroll)
  then have closed: "closed_calls ?p" by simp
  have P: "runs rs (I 0) ?p (I (z * 16 * unat c))"
  proof (cases "c = 0")
    case False
    have "runs rs (I 0) (DMAMOV CCR (word 16) # reg_loops c) (I (z * 16 * unat c))"
    proof (rule runs_ccr_pairs[OF conjunct1[OF reg_loops_unroll] conjunct2[OF reg_loops_unroll]])
      fix m
      assume m: "I 0 m" "ccr m = word 16"
      have "\<exists>m'. run_flat rs (pairs (unat c)) m = Some m' \<and> I (0 + z * 16 * unat c) m'"
        by (rule iterate_pairs[where w = "word 16" and I = I and i = 0, OF _ m(1) m(2)]) (use step[OF l16(1)] l16(2) in simp_all)
      then show "\<exists>m'. run_flat rs (pairs (unat c)) m = Some m' \<and> I (z * 16 * unat c) m'" by simp
    qed (simp add: ccr)
    then show ?thesis using False by simp
  qed simp
  have n: "z * 16 * unat c + z * unat (rest_burst cnt) = z * unat cnt"
    using mult_div_mod_eq[of 16 "unat cnt"] unfolding rest_burst c by (metis distrib_left mult.assoc)
  have T: "runs rs (I (z * 16 * unat c)) ?t (I (z * unat cnt))"
  proof (cases "rest_burst cnt = 0")
    case False
    then have "rest_burst cnt \<in> lengths" using rest_burst(2) by (intro lengthsI) (simp_all add: word_gt_0)
    from step[OF this, of "z * 16 * unat c"] n False
    show ?thesis by (auto simp: ccr intro!: runs_mov_ccr simp del: run_flat.simps)
  next
    case True
    then have e: "z * 16 * unat c = z * unat cnt" using n by (simp only: unsigned_0 mult_0_right add_0_right)
    have "runs rs (I (z * unat cnt)) ?t (I (z * unat cnt))" using True by simp
    then show ?thesis by (simp only: e)
  qed
  show ?thesis using runs_append[OF closed P T] unfolding c_def .
qed

lemma m2r_calls_runs:
  assumes "ccr_opts_ok opt" and "k \<in> sizes" and "unat src mod 2 ^ unat k = 0"
  shows "runs rs (\<lambda>m. m = m0 \<and> mfifo m = [])
    (m2r_calls opt (push_bit 1 k OR push_bit 15 k) src cnt)
    (sent (dar m0) (memory m0) (unat src) (reg_out m0) (2 ^ unat k * unat cnt))"
proof -
  let ?z = "2 ^ unat k :: nat" and ?msk = "push_bit 1 k OR push_bit 15 k"
  let ?w = "\<lambda>n. ccr_to_reg opt ?msk (sb_len n) (db_len n)"
  define I where "I i m \<longleftrightarrow> sent (dar m0) (memory m0) (unat src) (reg_out m0) i m \<and> (unat src + i) mod ?z = 0" for i m
  have R: "runs rs (I 0)
      ((if drop_bit 4 cnt \<noteq> 0 then DMAMOV CCR (?w 16) # reg_loops (drop_bit 4 cnt) else []) @
       (if rest_burst cnt \<noteq> 0 then [DMAMOV CCR (?w (rest_burst cnt)), DMALD, DMAST] else []))
      (I (?z * unat cnt))"
  proof (rule register_runs[of I ?w])
    fix n i m
    assume n: "n \<in> lengths" and I: "I i m" and w: "ccr m = ?w n"
    note f = ccr_to_reg_fields[OF assms(1) n assms(2), folded w]
    have "(unat src + (i + ?z * unat n)) mod ?z = 0"
      using I by (simp add: I_def add.assoc [symmetric])
    then show "\<exists>m'. run_flat rs [DMALD, DMAST] m = Some m' \<and> I (i + ?z * unat n) m' \<and> ccr m' = ?w n"
      using sent_burst[OF _ f, of "dar m0" "memory m0" "unat src" "reg_out m0" i rs] I w unfolding I_def by metis
  qed (simp add: I_def)
  have S: "runs rs (\<lambda>m. m = m0 \<and> mfifo m = []) [DMAMOV SAR src] (I 0)"
    using assms(3) by (auto simp: runs_flat I_def sent_def)
  have e: "m2r_calls opt ?msk src cnt = [DMAMOV SAR src] @
      ((if drop_bit 4 cnt \<noteq> 0 then DMAMOV CCR (?w 16) # reg_loops (drop_bit 4 cnt) else []) @
       (if rest_burst cnt \<noteq> 0 then [DMAMOV CCR (?w (rest_burst cnt)), DMALD, DMAST] else []))"
    by (simp add: m2r_calls_def rest_burst_def Let_def opts_values[OF assms(1)])
  have "runs rs (\<lambda>m. m = m0 \<and> mfifo m = []) (m2r_calls opt ?msk src cnt) (I (?z * unat cnt))"
    unfolding e by (rule runs_append[OF _ S R]) (simp add: flat_closed)
  then show ?thesis by (auto simp: runs_def I_def)
qed

lemma r2m_calls_runs:
  assumes "ccr_opts_ok opt" and "k \<in> sizes" and "unat dst mod 2 ^ unat k = 0" and "sar m0 \<notin> cells m0"
  shows "runs rs (\<lambda>m. m = m0 \<and> mfifo m = [])
    (r2m_calls opt (push_bit 1 k OR push_bit 15 k) dst cnt)
    (received (sar m0) rs (memory m0) (unat dst) (reg_in m0) (2 ^ unat k * unat cnt))"
proof -
  let ?z = "2 ^ unat k :: nat" and ?msk = "push_bit 1 k OR push_bit 15 k"
  let ?w = "\<lambda>n. ccr_from_reg opt ?msk (sb_len n) (db_len n)"
  define I where "I i m \<longleftrightarrow> received (sar m0) rs (memory m0) (unat dst) (reg_in m0) i m \<and>
    (unat dst + i) mod ?z = 0" for i m
  have R: "runs rs (I 0)
      ((if drop_bit 4 cnt \<noteq> 0 then DMAMOV CCR (?w 16) # reg_loops (drop_bit 4 cnt) else []) @
       (if rest_burst cnt \<noteq> 0 then [DMAMOV CCR (?w (rest_burst cnt)), DMALD, DMAST] else []))
      (I (?z * unat cnt))"
  proof (rule register_runs[of I ?w])
    fix n i m
    assume n: "n \<in> lengths" and I: "I i m" and w: "ccr m = ?w n"
    note f = ccr_from_reg_fields[OF assms(1) n assms(2), folded w]
    have "(unat dst + (i + ?z * unat n)) mod ?z = 0"
      using I by (simp add: I_def add.assoc [symmetric])
    then show "\<exists>m'. run_flat rs [DMALD, DMAST] m = Some m' \<and> I (i + ?z * unat n) m' \<and> ccr m' = ?w n"
      using received_burst[OF _ f, of "sar m0" rs "memory m0" "unat dst" "reg_in m0" i] I w unfolding I_def by metis
  qed (simp add: I_def)
  have S: "runs rs (\<lambda>m. m = m0 \<and> mfifo m = []) [DMAMOV DAR dst] (I 0)"
    using assms(3,4) by (auto simp: runs_flat I_def received_def store_bytes_def fun_eq_iff)
  have e: "r2m_calls opt ?msk dst cnt = [DMAMOV DAR dst] @
      ((if drop_bit 4 cnt \<noteq> 0 then DMAMOV CCR (?w 16) # reg_loops (drop_bit 4 cnt) else []) @
       (if rest_burst cnt \<noteq> 0 then [DMAMOV CCR (?w (rest_burst cnt)), DMALD, DMAST] else []))"
    by (simp add: r2m_calls_def rest_burst_def Let_def opts_values[OF assms(1)])
  have "runs rs (\<lambda>m. m = m0 \<and> mfifo m = []) (r2m_calls opt ?msk dst cnt) (I (?z * unat cnt))"
    unfolding e by (rule runs_append[OF _ S R]) (simp add: flat_closed)
  then show ?thesis by (auto simp: runs_def I_def)
qed

section \<open>The controller's loop counters\<close>

text \<open>
  A channel has two loop counters of one to 256 rounds.  \<open>loop_depth d cs\<close>: how many loops are
  open after \<open>cs\<close> when \<open>d\<close> were open before, \<open>None\<close> if the counters cannot hold them.
\<close>

fun loop_depth :: "nat \<Rightarrow> dma_call list \<Rightarrow> nat option" where
  "loop_depth d [] = Some d"
| "loop_depth d (c # cs) =
     (case c of
        DMALP n \<Rightarrow> if d < 2 \<and> 0 < n \<and> n \<le> 256 then loop_depth (d + 1) cs else None
      | DMALPEND \<Rightarrow> if 0 < d then loop_depth (d - 1) cs else None
      | DMALPENDx k \<Rightarrow> if 0 < d then loop_depth (d - 1) cs else None
      | _ \<Rightarrow> loop_depth d cs)"

lemma loop_depth_append: "loop_depth d a = Some e \<Longrightarrow> loop_depth d (a @ b) = loop_depth e b"
  by (induction a arbitrary: d) (auto split: dma_call.splits if_splits)

lemma loop_depth_flat: "flat cs \<Longrightarrow> loop_depth d cs = Some d"
proof (induction cs)
  case (Cons c cs)
  then show ?case by (cases c) (auto simp: flat_def)
qed simp

lemma loop_depth_looped:
  assumes "loop_depth (d + 1) b = Some (d + 1)" and "loop_depth d b = Some d"
    and "0 < n" and "n \<le> 256" and "d < 2"
  shows "loop_depth d (if_looped n (DMALP n) @ b @ if_looped n DMALPEND) = Some d"
  using assms by (simp add: if_looped_def loop_depth_append)

lemma ALT_MIN_256: "ALT_MIN n 256 \<le> 256"
  by (auto simp: ALT_MIN_def)

lemma m2m_loops_depth: "loop_depth 0 (m2m_loops n) = Some 0"
proof (induction n rule: m2m_loops.induct)
  case (1 n)
  show ?case
  proof (cases "0 < n")
    case True
    define k where "k = ALT_MIN n 256"
    have k: "0 < k" "k \<le> 256" using True by (simp_all add: k_def ALT_MIN_pos ALT_MIN_256)
    have "loop_depth 0 (if_looped k (DMALP k) @ [DMALD, DMAST] @ if_looped k DMALPEND) = Some 0"
      using k by (intro loop_depth_looped) (simp_all add: loop_depth_flat)
    moreover have "m2m_loops n =
        (if_looped k (DMALP k) @ [DMALD, DMAST] @ if_looped k DMALPEND) @ m2m_loops (n - k)"
      using True by (subst m2m_loops.simps) (simp add: k_def Let_def)
    ultimately show ?thesis using 1[OF True k_def] by (simp only: loop_depth_append)
  qed (subst m2m_loops.simps, simp)
qed

lemma z2m_loops_depth: "loop_depth 0 (z2m_loops n) = Some 0"
proof (induction n rule: z2m_loops.induct)
  case (1 n)
  show ?case
  proof (cases "0 < n")
    case True
    obtain a b where ab: "z2m_counts n = (a, b)" by force
    have B: "0 < a" "0 < b" "a \<le> 256" "b \<le> 256"
      using z2m_counts_bounds[OF True ab] by (simp_all add: word_less_nat_alt word_le_nat_alt)
    let ?b = "if_looped b (DMALP b) @ [DMASTZ] @ if_looped b DMALPEND"
    have "loop_depth d ?b = Some d" if "d < 2" for d
      using B that by (intro loop_depth_looped) (simp_all add: loop_depth_flat)
    then have "loop_depth 0 (if_looped a (DMALP a) @ ?b @ if_looped a DMALPEND) = Some 0"
      using B by (intro loop_depth_looped) simp_all
    moreover have "z2m_loops n =
        (if_looped a (DMALP a) @ ?b @ if_looped a DMALPEND) @ z2m_loops (n - a * b)"
      using True by (subst z2m_loops.simps) (simp add: ab)
    ultimately show ?thesis using 1[OF True ab [symmetric]] by (simp only: loop_depth_append)
  qed (subst z2m_loops.simps, simp)
qed

lemma reg_super_loops_depth: "loop_depth 0 (reg_super_loops n) = Some 0"
proof (induction n rule: reg_super_loops.induct)
  case (1 n)
  show ?case
  proof (cases "0 < n")
    case True
    define k where "k = ALT_MIN n 256"
    have k: "0 < k" "k \<le> 256" using True by (simp_all add: k_def ALT_MIN_pos ALT_MIN_256)
    let ?b = "[DMALP 256, DMALD, DMAST, DMALPEND]"
    have "loop_depth 0 (if_looped k (DMALP k) @ ?b @ if_looped k DMALPEND) = Some 0"
      using k by (intro loop_depth_looped) (simp_all add: word_le_nat_alt)
    moreover have "reg_super_loops n =
        (if_looped k (DMALP k) @ ?b @ if_looped k DMALPEND) @ reg_super_loops (n - k)"
      using True by (subst reg_super_loops.simps) (simp add: k_def Let_def)
    ultimately show ?thesis using 1[OF True k_def] by (simp only: loop_depth_append)
  qed (subst reg_super_loops.simps, simp)
qed

lemma loop_depth_if: "(c \<Longrightarrow> loop_depth d a = Some d) \<Longrightarrow> (\<not> c \<Longrightarrow> loop_depth d b = Some d) \<Longrightarrow>
    loop_depth d (if c then a else b) = Some d"
  by simp

lemma reg_loops_depth: "loop_depth 0 (reg_loops n) = Some 0"
proof -
  let ?k = "if drop_bit 8 n \<noteq> 0 then n AND 255 else n"
  have "unat ?k \<le> 255"
  proof (cases "drop_bit 8 n = 0")
    case True
    then have "unat n div 256 = 0" using unat_drop[of 8 n] by simp
    then show ?thesis using True by simp
  next
    case False
    have "unat n mod 256 < 256" by simp
    then show ?thesis using False by (simp add: unat_low)
  qed
  then have le: "?k \<le> 256" by (simp only: word_le_nat_alt) simp
  have b: "loop_depth 0 (if_looped k (DMALP k) @ [DMALD, DMAST] @ if_looped k DMALPEND) = Some 0"
    if "0 < k" "k \<le> 256" for k
    using that by (intro loop_depth_looped) (simp_all add: loop_depth_flat)
  let ?t = "if 0 < ?k then if_looped ?k (DMALP ?k) @ [DMALD, DMAST] @ if_looped ?k DMALPEND else []"
  have t: "loop_depth 0 ?t = Some 0"
    by (rule loop_depth_if) (rule b[OF _ le], assumption, simp)
  let ?h = "if drop_bit 8 n \<noteq> 0 then reg_super_loops (drop_bit 8 n) else []"
  have h: "loop_depth 0 ?h = Some 0" by (simp add: reg_super_loops_depth)
  have "reg_loops n = ?h @ ?t" by (simp add: reg_loops_def Let_def)
  then show ?thesis using t loop_depth_append[OF h] by simp
qed

lemma loop_depth_app: "loop_depth d a = Some d \<Longrightarrow> loop_depth d b = Some d \<Longrightarrow> loop_depth d (a @ b) = Some d"
  by (simp add: loop_depth_append)

lemma loop_depth_mov: "loop_depth d (DMAMOV r v # cs) = loop_depth d cs"
  by simp

lemma m2m_calls_depth: "loop_depth 0 (m2m_calls opt dst src sz) = Some 0"
proof -
  obtain cs left where al: "m2m_align opt src sz = (cs, left)" by force
  then have "flat cs" by (auto simp: m2m_align_def Let_def split: if_splits)
  moreover have "loop_depth 0 (m2m_burst16 opt b) = Some 0" for b
    by (simp add: m2m_burst16_def m2m_loops_depth)
  ultimately show ?thesis
    unfolding m2m_calls_def al Let_def prod.case
    by (intro loop_depth_app loop_depth_if) (simp_all add: loop_depth_flat m2m_burst_flat m2m_correct_flat)
qed

lemma z2m_calls_depth: "loop_depth 0 (z2m_calls opt buf sz) = Some 0"
proof -
  obtain cs left where al: "z2m_align opt buf sz = (cs, left)" by force
  then have "flat cs" by (auto simp: z2m_align_def Let_def split: if_splits)
  then show ?thesis
    unfolding z2m_calls_def al Let_def prod.case loop_depth_mov
    by (intro loop_depth_app loop_depth_if) (simp_all add: loop_depth_flat z2m_burst_def z2m_loops_depth)
qed

lemma register_calls_depth:
  "loop_depth 0 (m2r_calls opt msk src cnt) = Some 0" "loop_depth 0 (r2m_calls opt msk src cnt) = Some 0"
  unfolding m2r_calls_def r2m_calls_def Let_def
  by (intro loop_depth_app loop_depth_if; simp add: reg_loops_depth)+

end
