(* ===== verification/Dma_Driver.thy ===== *)
theory Dma_Driver
  imports Dma_Transfer
begin

text \<open>
  The driver of \<^verbatim>\<open>alt_dma.c\<close> as a whole: channel allocation, starting and killing, and the
  four transfers end to end.  A transfer assembles its program through the assembler
  (\<open>assembler\<close> states its documented behaviour), closes it and starts it on the channel; what
  the started program does is run over the instruction semantics of \<^theory_text>\<open>Pl330\<close>
  (\<open>performs\<close>).  \<open>weak_mmu\<close> selects the address translation the file itself supplies.
\<close>

section \<open>Channels\<close>

lemma run_on_bus [bus_simps]:
  "run_state (on_bus m) s = (fst (run_state m (bus s)), s\<lparr> bus := snd (run_state m (bus s)) \<rparr>)"
  by (simp add: on_bus_def split: prod.split)

lemma run_on_program [bus_simps]:
  "run_state (on_program f) s = (fst (f (program s)), s\<lparr> program := snd (f (program s)) \<rparr>)"
  by (simp add: on_program_def split: prod.split)

lemma run_get_state [bus_simps]: "run_state get_state s = (s, s)"
  by (simp add: get_state_def)

lemma run_channel_flag [bus_simps]: "run_state (channel_flag i) s = (channel_info s ! i, s)"
  by (simp add: channel_flag_def)

lemma run_set_channel_flag [bus_simps]:
  "run_state (set_channel_flag i v) s = ((), s\<lparr> channel_info := (channel_info s)[i := v] \<rparr>)"
  by (simp add: set_channel_flag_def)

lemma valid_channel_iff: "valid_channel c \<longleftrightarrow> c < 8"
  by (auto simp: valid_channel_def)

text \<open>Allocation: the sweep from \<open>i\<close> allocates the first free channel.\<close>

lemma alloced_or [simp]: "alloced (f OR 1)"
proof -
  have "bit (f OR 1) 0" by (simp add: bit_simps)
  then have "bit ((f OR 1) AND 1) 0" by (simp add: bit_simps)
  then show ?thesis unfolding alloced_def by (intro notI) simp
qed

lemma alloc_sweep_run:
  "run_state (alloc_sweep i) s =
     (case find (\<lambda>c. \<not> alloced (channel_info s ! c)) [i..<8] of
        None \<Rightarrow> ((ALT_E_ERROR, None), s)
      | Some c \<Rightarrow> ((ALT_E_SUCCESS, Some c),
                   s\<lparr> channel_info := (channel_info s)[c := channel_info s ! c OR 1] \<rparr>))"
proof (induction i rule: alloc_sweep.induct)
  case (1 i)
  show ?case
  proof (cases "i < 8")
    case True
    then have "[i..<8] = i # [i + 1..<8]" by (simp add: upt_conv_Cons)
    then show ?thesis
      using True 1[of "channel_info s ! i"]
      by (subst alloc_sweep.simps) (simp add: bus_simps alt_dma_channel_alloc_def valid_channel_iff)
  qed (subst alloc_sweep.simps, simp)
qed

text \<open>
  \<open>alt_dma_channel_alloc_any\<close> allocates the lowest-numbered free channel, marking it
  and touching nothing else, and fails with \<open>ALT_E_ERROR\<close> exactly when all eight channels
  are allocated, then leaving the driver's state as it was.
\<close>

theorem alloc_any_lowest:
  assumes "length (channel_info s) = 8" and "run_state alt_dma_channel_alloc_any s = ((st, c), s')"
  shows "(case c of
      Some c \<Rightarrow> st = ALT_E_SUCCESS \<and> c < 8 \<and> \<not> alloced (channel_info s ! c) \<and>
        (\<forall>i < c. alloced (channel_info s ! i)) \<and> alloced (channel_info s' ! c) \<and>
        (\<forall>i. i \<noteq> c \<longrightarrow> channel_info s' ! i = channel_info s ! i) \<and>
        program s' = program s \<and> bus s' = bus s
    | None \<Rightarrow> st = ALT_E_ERROR \<and> (\<forall>i < 8. alloced (channel_info s ! i)) \<and> s' = s)"
proof (cases "find (\<lambda>c. \<not> alloced (channel_info s ! c)) [0..<8]")
  case None
  then have "\<forall>i < 8. alloced (channel_info s ! i)" by (auto simp: find_None_iff)
  moreover have "st = ALT_E_ERROR" "c = None" "s' = s"
    using assms(2) None by (simp_all add: alt_dma_channel_alloc_any_def alloc_sweep_run)
  ultimately show ?thesis by simp
next
  case (Some k)
  then have "k < 8" "\<not> alloced (channel_info s ! k)" "\<forall>i < k. alloced (channel_info s ! i)"
    by (auto simp: find_Some_iff)
  moreover have "st = ALT_E_SUCCESS" "c = Some k"
    "s' = s\<lparr> channel_info := (channel_info s)[k := channel_info s ! k OR 1] \<rparr>"
    using assms(2) Some by (simp_all add: alt_dma_channel_alloc_any_def alloc_sweep_run)
  ultimately show ?thesis using assms(1) by simp
qed

theorem alloc_any_lowest_witness:
  "let s = \<lparr> channel_info = [1, 1, 0, 1, 0, 0, 0, 0], can_exist = False, program = (), scratch = [], bus = [] \<rparr>
   in run_state alt_dma_channel_alloc_any s =
        ((ALT_E_SUCCESS, Some 2), s\<lparr> channel_info := [1, 1, 1, 1, 0, 0, 0, 0] \<rparr>)"
proof -
  let ?s = "\<lparr> channel_info = [1, 1, 0, 1, 0, 0, 0, 0], can_exist = False, program = (), scratch = [], bus = [] \<rparr>"
  have f: "find (\<lambda>c. \<not> alloced (channel_info ?s ! c)) [0..<8] = Some 2"
    by (simp add: upt_rec alloced_def)
  have "run_state alt_dma_channel_alloc_any ?s =
      ((ALT_E_SUCCESS, Some 2), ?s\<lparr> channel_info := [1, 1, 1, 1, 0, 0, 0, 0] \<rparr>)"
    unfolding alt_dma_channel_alloc_any_def alloc_sweep_run f by (simp add: numeral_2_eq_2)
  with alloc_any_lowest[OF _ this] show ?thesis by (simp add: Let_def)
qed

text \<open>Reading a channel's state, and what \<open>alt_dma_channel_exec\<close> needs and writes.\<close>

abbreviation "channel_status E channel h \<equiv>
  ALT_DMA_CSRx_CHANNELSTATUS_GET (regs E h (ALT_DMA_CSRx_ADDR (secure_base E) channel))"

lemma channel_state_run:
  "valid_channel c \<Longrightarrow> run_state (alt_dma_channel_state_get E c) s =
     ((ALT_E_SUCCESS, channel_status E c (bus s)),
      s\<lparr> bus := bus s @ [Rd (ALT_DMA_CSRx_ADDR (secure_base E) c)
                            (regs E (bus s) (ALT_DMA_CSRx_ADDR (secure_base E) c))] \<rparr>)"
  by (simp add: alt_dma_channel_state_get_def bus_simps)

definition channel_ready :: "('p, 'c) dma_env \<Rightarrow> nat \<Rightarrow> 'p dma_state \<Rightarrow> bool" where
  "channel_ready E channel s \<longleftrightarrow>
     valid_channel channel \<and> alloced (channel_info s ! channel) \<and>
     channel_status E channel (bus s) = ALT_DMA_CHANNEL_STATE_STOPPED"

definition program_ready :: "('p, 'c) dma_env \<Rightarrow> 'p \<Rightarrow> bool" where
  "program_ready E p \<longleftrightarrow>
     program_validate E p = ALT_E_SUCCESS \<and>
     (case program_lines E p of (a, n) \<Rightarrow> cache_system_clean E a n = ALT_E_SUCCESS) \<and>
     snd (snd (mmu_va_to_pa E (program_start E p))) = 0"

definition start_writes :: "('p, 'c) dma_env \<Rightarrow> nat \<Rightarrow> 'p \<Rightarrow> (addr \<times> u32) list" where
  "start_writes E channel p =
     [(ALT_DMA_DBGINST0_ADDR (secure_base E),
       ALT_DMA_DBGINST0_INSTRUCTIONBYTE0_SET 0xa0 OR
       ALT_DMA_DBGINST0_INSTRUCTIONBYTE1_SET (of_nat channel)),
      (ALT_DMA_DBGINST1_ADDR (secure_base E), fst (mmu_va_to_pa E (program_start E p))),
      (ALT_DMA_DBGCMD_ADDR (secure_base E), 0)]"

lemma exec_run:
  assumes "run_state (alt_dma_channel_exec E channel) s = (st, s')"
  shows "st = ALT_E_SUCCESS \<longleftrightarrow> channel_ready E channel s \<and> program_ready E (program s)"
    and "writes (bus s') = writes (bus s) @
      (if st = ALT_E_SUCCESS then start_writes E channel (program s) else [])"
    and "program s' = program s" and "channel_info s' = channel_info s" and "scratch s' = scratch s"
proof -
  obtain pa len dfsr where mmu: "mmu_va_to_pa E (program_start E (program s)) = (pa, len, dfsr)"
    by (metis prod_cases3)
  obtain a n where lines: "program_lines E (program s) = (a, n)" by force
  note R = assms[unfolded alt_dma_channel_exec_def]
  show "st = ALT_E_SUCCESS \<longleftrightarrow> channel_ready E channel s \<and> program_ready E (program s)"
    and "writes (bus s') = writes (bus s) @
      (if st = ALT_E_SUCCESS then start_writes E channel (program s) else [])"
    and "program s' = program s" and "channel_info s' = channel_info s" and "scratch s' = scratch s"
    using R by (auto simp: bus_simps channel_state_run mmu lines channel_ready_def program_ready_def
        start_writes_def Let_def split: if_splits)
qed

text \<open>
  \<open>alt_dma_channel_exec\<close> starts the program - \<open>DMAGO\<close> into the two debug instruction
  registers, then the debug command - exactly when it answers success, and that is when the
  channel is valid, allocated and stopped and the program validates, is cleaned from the
  cache and has a physical address; otherwise it writes no register.
\<close>

theorem channel_exec_starts:
  "case run_state (alt_dma_channel_exec E channel) s of
     (st, s') \<Rightarrow>
       (st = ALT_E_SUCCESS \<longleftrightarrow> channel_ready E channel s \<and> program_ready E (program s)) \<and>
       writes (bus s') = writes (bus s) @
         (if channel_ready E channel s \<and> program_ready E (program s)
          then start_writes E channel (program s) else [])"
proof -
  obtain st s' where r: "run_state (alt_dma_channel_exec E channel) s = (st, s')" by force
  from exec_run(1,2)[OF r] show ?thesis unfolding r by (simp split del: if_split)
qed

section \<open>Killing a channel\<close>

text \<open>The bus after \<open>k\<close> more reads of a channel's status.\<close>

fun csr_polls :: "('p, 'c) dma_env \<Rightarrow> nat \<Rightarrow> history \<Rightarrow> nat \<Rightarrow> history" where
  "csr_polls E channel h 0 = h"
| "csr_polls E channel h (Suc k) =
     csr_polls E channel (h @ [Rd (ALT_DMA_CSRx_ADDR (secure_base E) channel)
       (regs E h (ALT_DMA_CSRx_ADDR (secure_base E) channel))]) k"

definition killed_at :: "('p, 'c) dma_env \<Rightarrow> nat \<Rightarrow> history \<Rightarrow> bool" where
  "killed_at E channel h \<longleftrightarrow>
     channel_status E channel h \<in> {ALT_DMA_CHANNEL_STATE_KILLING, ALT_DMA_CHANNEL_STATE_STOPPED}"

text \<open>The first of \<open>n\<close> polls that sees the channel killed, and the wait's result.\<close>

definition first_killed :: "('p, 'c) dma_env \<Rightarrow> nat \<Rightarrow> history \<Rightarrow> nat \<Rightarrow> nat option" where
  "first_killed E channel h n = find (\<lambda>k. killed_at E channel (csr_polls E channel h k)) [0..<n]"

lemma find_upt_Suc: "find P [0..<Suc n] = (if P 0 then Some 0 else map_option Suc (find (\<lambda>k. P (Suc k)) [0..<n]))"
proof -
  have "find P (map Suc xs) = map_option Suc (find (\<lambda>k. P (Suc k)) xs)" for xs
    by (induction xs) auto
  moreover have "[0..<Suc n] = 0 # map Suc [0..<n]"
    by (simp add: upt_conv_Cons map_Suc_upt del: upt_Suc)
  ultimately show ?thesis by simp
qed

lemma kill_wait_run:
  assumes "valid_channel channel"
  shows "run_state (kill_wait E channel n) s =
    (case first_killed E channel (bus s) n of
       Some k \<Rightarrow> (ALT_E_SUCCESS, s\<lparr> bus := csr_polls E channel (bus s) (Suc k) \<rparr>)
     | None \<Rightarrow> (ALT_E_TMO, s\<lparr> bus := csr_polls E channel (bus s) n \<rparr>))"
proof (induction n arbitrary: s)
  case 0
  then show ?case by (simp add: first_killed_def)
next
  case (Suc n)
  let ?a = "ALT_DMA_CSRx_ADDR (secure_base E) channel"
  let ?s = "s\<lparr> bus := bus s @ [Rd ?a (regs E (bus s) ?a)] \<rparr>"
  have f: "first_killed E channel (bus s) (Suc n) =
      (if killed_at E channel (bus s) then Some 0 else map_option Suc (first_killed E channel (bus ?s) n))"
    unfolding first_killed_def find_upt_Suc by simp
  show ?case
  proof (cases "killed_at E channel (bus s)")
    case True
    then show ?thesis by (auto simp: f channel_state_run[OF assms] killed_at_def Let_def)
  next
    case False
    have "run_state (kill_wait E channel (Suc n)) s = run_state (kill_wait E channel n) ?s"
      using False by (simp add: channel_state_run[OF assms] killed_at_def)
    also have "\<dots> = (case first_killed E channel (bus ?s) n of
       Some k \<Rightarrow> (ALT_E_SUCCESS, ?s\<lparr> bus := csr_polls E channel (bus ?s) (Suc k) \<rparr>)
     | None \<Rightarrow> (ALT_E_TMO, ?s\<lparr> bus := csr_polls E channel (bus ?s) n \<rparr>))" by (rule Suc.IH)
    finally show ?thesis
      using False by (cases "first_killed E channel (bus ?s) n") (simp_all add: f)
  qed
qed

definition kill_writes :: "('p, 'c) dma_env \<Rightarrow> nat \<Rightarrow> history" where
  "kill_writes E channel =
     [Wr (ALT_DMA_DBGINST0_ADDR (secure_base E))
        (ALT_DMA_DBGINST0_INSTRUCTIONBYTE0_SET 0x1 OR
         ALT_DMA_DBGINST0_CHANNELNUMBER_SET (of_nat channel) OR
         ALT_DMA_DBGINST0_DEBUGTHREAD_SET ALT_DMA_DBGINST0_DEBUGTHREAD_E_CHANNEL),
      Wr (ALT_DMA_DBGCMD_ADDR (secure_base E)) 0]"

text \<open>
  C40: \<open>alt_dma_channel_kill\<close> on an allocated channel issues \<open>DMAKILL\<close> once and polls the
  channel status: success at the first poll that reads killing or stopped, a timeout when
  none of 19999 polls does, and no poll after the verdict.
\<close>

theorem channel_kill_verdict:
  assumes "valid_channel channel" and "alloced (channel_info s ! channel)"
  shows "run_state (alt_dma_channel_kill E channel) s =
    (let h = bus s @ kill_writes E channel
     in case first_killed E channel h 19999 of
          Some k \<Rightarrow> (ALT_E_SUCCESS, s\<lparr> bus := csr_polls E channel h (Suc k) \<rparr>)
        | None \<Rightarrow> (ALT_E_TMO, s\<lparr> bus := csr_polls E channel h 19999 \<rparr>))"
proof -
  let ?h = "bus s @ kill_writes E channel"
  have "run_state (alt_dma_channel_kill E channel) s =
      run_state (kill_wait E channel (20000 - 1)) (s\<lparr> bus := ?h \<rparr>)"
    using assms by (simp add: alt_dma_channel_kill_def bus_simps kill_writes_def del: kill_wait.simps)
  also have "(20000 :: nat) - 1 = 19999" by simp
  finally show ?thesis
    by (simp add: kill_wait_run[OF assms(1)] Let_def split: option.split)
qed

section \<open>Assembling and starting\<close>

text \<open>
  The documented behaviour of the assembler: a successful call appends its instruction to the
  program, a successful initialisation empties it; \<open>calls\<close> reads a program buffer back.
\<close>

definition assembler :: "('p, 'c) dma_env \<Rightarrow> ('p \<Rightarrow> dma_call list) \<Rightarrow> bool" where
  "assembler E calls \<longleftrightarrow>
     (\<forall>p. fst (program_init E p) = ALT_E_SUCCESS \<longrightarrow> calls (snd (program_init E p)) = []) \<and>
     (\<forall>c p. fst (program_emit E c p) = ALT_E_SUCCESS \<longrightarrow>
        calls (snd (program_emit E c p)) = calls p @ [c])"

text \<open>The environment with the weak address translation of the file itself.\<close>

definition weak_mmu :: "('p, coalesce) dma_env \<Rightarrow> bool" where
  "weak_mmu E \<longleftrightarrow>
     (\<exists>c. coalesce_begin E = alt_mmu_va_to_pa_coalesce_begin c) \<and>
     coalesce_next E = alt_mmu_va_to_pa_coalesce_next \<and>
     coalesce_end E = alt_mmu_va_to_pa_coalesce_end"

text \<open>
  \<open>emits E calls m cs\<close>: \<open>m\<close> never touches the bus, the channel table or the scratch words, and when it
  succeeds it has appended \<open>cs\<close> to the program.
\<close>

definition emits ::
  "('p \<Rightarrow> dma_call list) \<Rightarrow> ('p, status) dma \<Rightarrow> dma_call list \<Rightarrow> bool" where
  "emits calls m cs \<longleftrightarrow>
     (\<forall>s st s'. run_state m s = (st, s') \<longrightarrow>
        bus s' = bus s \<and> channel_info s' = channel_info s \<and> scratch s' = scratch s \<and>
        (st = ALT_E_SUCCESS \<longrightarrow> calls (program s') = calls (program s) @ cs))"

lemma emits_emit: "assembler E calls \<Longrightarrow> emits calls (emit E c) [c]"
  by (auto simp: emits_def emit_def bus_simps assembler_def)

lemma emits_return [simp]: "emits calls (State_Monad.return st) []"
  by (simp add: emits_def)

lemma emits_fail: "st \<noteq> ALT_E_SUCCESS \<Longrightarrow> emits calls (State_Monad.return st) cs"
  by (simp add: emits_def)

lemma emits_bind:
  assumes "emits calls m cs" and "emits calls (f ALT_E_SUCCESS) ds"
    and "\<And>st. st \<noteq> ALT_E_SUCCESS \<Longrightarrow> f st = State_Monad.return st"
  shows "emits calls (State_Monad.bind m f) (cs @ ds)"
  unfolding emits_def
proof (intro allI impI)
  fix s st s'
  assume r: "run_state (State_Monad.bind m f) s = (st, s')"
  obtain st1 s1 where m: "run_state m s = (st1, s1)" by force
  with r have f: "run_state (f st1) s1 = (st, s')" by simp
  show "bus s' = bus s \<and> channel_info s' = channel_info s \<and> scratch s' = scratch s \<and>
      (st = ALT_E_SUCCESS \<longrightarrow> calls (program s') = calls (program s) @ cs @ ds)"
  proof (cases "st1 = ALT_E_SUCCESS")
    case True
    then show ?thesis using assms(1,2) m f unfolding emits_def by (metis append.assoc)
  next
    case False
    then have "st = st1" "s' = s1" using f assms(3) by auto
    then show ?thesis using False assms(1) m unfolding emits_def by metis
  qed
qed

lemma emits_guarded:
  "(status = ALT_E_SUCCESS \<Longrightarrow> emits calls m cs) \<Longrightarrow> emits calls (guarded status m) cs"
  by (auto simp: guarded_def emits_fail)

lemma emits_all: "assembler E calls \<Longrightarrow> emits calls (emit_all E cs) cs"
proof (induction cs)
  case (Cons c cs)
  then show ?case
    using emits_bind[OF emits_emit[OF Cons.prems], of "\<lambda>st. if st = ALT_E_SUCCESS then emit_all E cs
        else State_Monad.return st" cs c] by simp
qed simp

text \<open>The instructions that close a program, and what finishing one does.\<close>

definition closing :: "bool \<Rightarrow> bool \<Rightarrow> nat \<Rightarrow> dma_call list" where
  "closing wmb send_evt evt =
     (if send_evt then (if wmb then [DMAWMB] else []) @ [DMASEV evt] else []) @ [DMAEND]"

definition close_program :: "('p, 'c) dma_env \<Rightarrow> bool \<Rightarrow> bool \<Rightarrow> nat \<Rightarrow> status \<Rightarrow> ('p, status) dma" where
  "close_program E wmb send_evt evt status =
     do { status \<leftarrow> (if send_evt
                     then do { status \<leftarrow> (if wmb then guarded status (emit E DMAWMB)
                                           else State_Monad.return status);
                               guarded status (emit E (DMASEV evt)) }
                     else State_Monad.return status);
          guarded status (emit E DMAEND) }"

lemma closing_emits:
  assumes "assembler E calls"
  shows "emits calls (close_program E wmb send_evt evt ALT_E_SUCCESS) (closing wmb send_evt evt)"
proof -
  let ?w = "if wmb then guarded ALT_E_SUCCESS (emit E DMAWMB) else State_Monad.return ALT_E_SUCCESS"
  let ?e = "if send_evt then do { status \<leftarrow> ?w; guarded status (emit E (DMASEV evt)) }
    else State_Monad.return ALT_E_SUCCESS"
  have W: "emits calls ?w (if wmb then [DMAWMB] else [])"
    using assms by (auto intro: emits_guarded emits_emit)
  have "emits calls (do { status \<leftarrow> ?w; guarded status (emit E (DMASEV evt)) })
      ((if wmb then [DMAWMB] else []) @ [DMASEV evt])"
    by (rule emits_bind[OF W emits_guarded[OF emits_emit[OF assms]]]) (simp add: guarded_def)
  then have "emits calls ?e (if send_evt then (if wmb then [DMAWMB] else []) @ [DMASEV evt] else [])"
    by simp
  then show ?thesis
    unfolding close_program_def closing_def
    using assms by (intro emits_bind emits_guarded emits_emit) (simp_all add: guarded_def)
qed

lemma close_fails: "status \<noteq> ALT_E_SUCCESS \<Longrightarrow>
    run_state (close_program E wmb send_evt evt status) s = (status, s)"
  by (simp add: close_program_def guarded_def)

lemma finish_run:
  "run_state (finish_program E channel wmb send_evt evt status) s =
     (case run_state (close_program E wmb send_evt evt status) s of
        (st, s1) \<Rightarrow> run_state (if st \<noteq> ALT_E_SUCCESS
          then do { _ \<leftarrow> on_program (program_clear E); State_Monad.return st }
          else alt_dma_channel_exec E channel) s1)"
  by (simp add: finish_program_def close_program_def Let_def split: prod.split)

text \<open>\<open>m\<close> leaves bus and channels alone, and on success the program is exactly \<open>cs\<close>.\<close>

definition assembles ::
  "('p \<Rightarrow> dma_call list) \<Rightarrow> ('p, status) dma \<Rightarrow> dma_call list \<Rightarrow> bool" where
  "assembles calls m cs \<longleftrightarrow>
     (\<forall>s st s'. run_state m s = (st, s') \<longrightarrow>
        bus s' = bus s \<and> channel_info s' = channel_info s \<and> scratch s' = scratch s \<and>
        (st = ALT_E_SUCCESS \<longrightarrow> calls (program s') = cs))"

lemma assembles_init: "assembler E calls \<Longrightarrow> assembles calls (on_program (program_init E)) []"
  by (auto simp: assembles_def bus_simps assembler_def)

lemma assembles_bind:
  assumes "assembles calls m cs" and "emits calls (f ALT_E_SUCCESS) ds"
    and "\<And>st. st \<noteq> ALT_E_SUCCESS \<Longrightarrow> f st = State_Monad.return st"
  shows "assembles calls (State_Monad.bind m f) (cs @ ds)"
  unfolding assembles_def
proof (intro allI impI)
  fix s st s'
  assume r: "run_state (State_Monad.bind m f) s = (st, s')"
  obtain st1 s1 where m: "run_state m s = (st1, s1)" by force
  with r have f: "run_state (f st1) s1 = (st, s')" by simp
  show "bus s' = bus s \<and> channel_info s' = channel_info s \<and> scratch s' = scratch s \<and>
      (st = ALT_E_SUCCESS \<longrightarrow> calls (program s') = cs @ ds)"
  proof (cases "st1 = ALT_E_SUCCESS")
    case True
    then show ?thesis using assms(1,2) m f unfolding emits_def assembles_def by metis
  next
    case False
    then have "st = st1" "s' = s1" using f assms(3) by auto
    then show ?thesis using False assms(1) m unfolding assembles_def by metis
  qed
qed

text \<open>The result of a transfer whose body assembles \<open>cs\<close>.\<close>

definition transfer_result ::
  "('p, 'c) dma_env \<Rightarrow> ('p \<Rightarrow> dma_call list) \<Rightarrow> nat \<Rightarrow> dma_call list \<Rightarrow> 'p dma_state \<Rightarrow> status \<Rightarrow>
   'p dma_state \<Rightarrow> bool" where
  "transfer_result E calls channel cs s st s' \<longleftrightarrow>
     (if st = ALT_E_SUCCESS
      then calls (program s') = cs \<and>
        writes (bus s') = writes (bus s) @ start_writes E channel (program s')
      else writes (bus s') = writes (bus s))"

lemma finish_result:
  assumes "assembler E calls" and "assembles calls body cs"
    and "run_state (do { st \<leftarrow> body; finish_program E channel wmb send_evt evt st }) s = (st, s')"
  shows "transfer_result E calls channel (cs @ closing wmb send_evt evt) s st s'"
proof -
  obtain st1 s1 where b: "run_state body s = (st1, s1)" by force
  obtain st2 s2 where c: "run_state (close_program E wmb send_evt evt st1) s1 = (st2, s2)" by force
  have B: "bus s1 = bus s" "st1 = ALT_E_SUCCESS \<Longrightarrow> calls (program s1) = cs"
    using assms(2) b unfolding assembles_def by metis+
  have C: "bus s2 = bus s"
    "st2 = ALT_E_SUCCESS \<Longrightarrow> calls (program s2) = cs @ closing wmb send_evt evt"
  proof -
    have "bus s2 = bus s \<and> (st2 = ALT_E_SUCCESS \<longrightarrow> calls (program s2) = cs @ closing wmb send_evt evt)"
    proof (cases "st1 = ALT_E_SUCCESS")
      case True
      then show ?thesis
        using c closing_emits[OF assms(1), of wmb send_evt evt] B unfolding emits_def by metis
    next
      case False
      then show ?thesis using c close_fails[OF False, of E wmb send_evt evt s1] B(1) by simp
    qed
    then show "bus s2 = bus s"
      "st2 = ALT_E_SUCCESS \<Longrightarrow> calls (program s2) = cs @ closing wmb send_evt evt" by blast+
  qed
  have r: "run_state (if st2 \<noteq> ALT_E_SUCCESS
      then do { _ \<leftarrow> on_program (program_clear E); State_Monad.return st2 }
      else alt_dma_channel_exec E channel) s2 = (st, s')"
    using assms(3) b c by (simp add: finish_run)
  show ?thesis
  proof (cases "st2 = ALT_E_SUCCESS")
    case True
    then have "run_state (alt_dma_channel_exec E channel) s2 = (st, s')" using r by simp
    from exec_run[OF this] show ?thesis using C True by (simp add: transfer_result_def)
  next
    case False
    then show ?thesis using r C by (auto simp: transfer_result_def bus_simps)
  qed
qed

lemma finish_scratch:
  assumes "assembler E calls"
    and "run_state (finish_program E channel wmb send_evt evt st1) s = (st, s')"
  shows "scratch s' = scratch s"
proof -
  obtain st2 s2 where c: "run_state (close_program E wmb send_evt evt st1) s = (st2, s2)" by force
  have "scratch s2 = scratch s"
    using c closing_emits[OF assms(1), of wmb send_evt evt] close_fails[of st1 E wmb send_evt evt s]
    unfolding emits_def by (cases "st1 = ALT_E_SUCCESS") (metis, simp)
  moreover have "scratch s' = scratch s2"
    using assms(2) exec_run(5)[of E channel s2 st s'] unfolding finish_run c
    by (auto simp: bus_simps split: if_splits)
  ultimately show ?thesis by simp
qed

section \<open>Transfers with the default address translation\<close>

text \<open>The weak translation answers one segment, the whole buffer; so each loop makes one round.\<close>

abbreviation "no_segment \<equiv> \<lparr> coalesce_size = 0, nextsegpa = 0, nextsegsize = 0 \<rparr>"

definition one_segment :: "u32 \<Rightarrow> u32 \<Rightarrow> coalesce" where
  "one_segment va sz = \<lparr> coalesce_size = sz, nextsegpa = va, nextsegsize = sz \<rparr>"

lemma weak_coalesce:
  assumes "weak_mmu E"
  shows "sz \<noteq> 0 \<Longrightarrow> coalesce_next E (one_segment va sz) = (ALT_E_SUCCESS, (va, sz), no_segment)"
    and "coalesce_end E no_segment = ALT_E_SUCCESS"
  using assms by (auto simp: weak_mmu_def alt_mmu_va_to_pa_coalesce_begin_def one_segment_def
      alt_mmu_va_to_pa_coalesce_next_def alt_mmu_va_to_pa_coalesce_end_def)

lemma weak_begin:
  assumes "weak_mmu E" and "coalesce_begin E va sz = (ALT_E_SUCCESS, c)"
  shows "c = one_segment va sz"
  using assms by (auto simp: weak_mmu_def alt_mmu_va_to_pa_coalesce_begin_def one_segment_def
      split: if_splits)

lemma m2m_segments_end:
  "sz = 0 \<or> st \<noteq> ALT_E_SUCCESS \<Longrightarrow>
    m2m_segments fuel E sz st (a, c) (b, d) = State_Monad.return (Some (st, c, d))"
  by (cases a; cases b) (simp add: m2m_segments.simps)

lemma m2m_segments_one:
  assumes "weak_mmu E" and "sz \<noteq> 0"
  shows "run_state (m2m_segments (Suc fuel) E sz ALT_E_SUCCESS ((0, 0), one_segment dst sz)
      ((0, 0), one_segment src sz)) s =
    (case run_state (alt_dma_memory_to_memory_segment E dst src sz) s of
       (st, s1) \<Rightarrow> (Some (st, no_segment, no_segment), s1))"
proof -
  note W = weak_coalesce(1)[OF assms]
  have m: "ALT_MIN sz sz = sz" by (simp add: ALT_MIN_def)
  show ?thesis
    using assms(2)
    by (subst m2m_segments.simps)
      (simp add: W m guarded_def m2m_segments_end Let_def split: prod.split)
qed

definition m2m_body :: "('p, 'c) dma_env \<Rightarrow> u32 \<Rightarrow> u32 \<Rightarrow> u32 \<Rightarrow> ('p, status) dma" where
  "m2m_body E dst src sz =
     do { st \<leftarrow> on_program (program_init E);
          guarded st
            (let st = fst (coalesce_begin E dst sz);
                 st = (if st = ALT_E_SUCCESS then fst (coalesce_begin E src sz) else st)
             in guarded st (alt_dma_memory_to_memory_segment E dst src sz)) }"

lemma m2m_driver_run:
  assumes "weak_mmu E" and "sz \<noteq> 0" and "\<not> overlaps dst src sz"
  shows "run_state (alt_dma_memory_to_memory (Suc fuel) E channel dst src sz send_evt evt) s =
    (case run_state (do { st \<leftarrow> m2m_body E dst src sz; finish_program E channel True send_evt evt st }) s of
       (st, s') \<Rightarrow> (Some st, s'))"
proof -
  obtain st1 s1 where i: "run_state (on_program (program_init E)) s = (st1, s1)" by force
  obtain std cd where d: "coalesce_begin E dst sz = (std, cd)" by force
  obtain sts cs where c: "coalesce_begin E src sz = (sts, cs)" by force
  have D: "std = ALT_E_SUCCESS \<Longrightarrow> cd = one_segment dst sz"
    and C: "sts = ALT_E_SUCCESS \<Longrightarrow> cs = one_segment src sz"
    using weak_begin[OF assms(1)] d c by blast+
  show ?thesis
  proof (cases "st1 = ALT_E_SUCCESS \<and> std = ALT_E_SUCCESS \<and> sts = ALT_E_SUCCESS")
    case True
    then have "cd = one_segment dst sz" "cs = one_segment src sz" using C D by blast+
    then show ?thesis
      using True assms(2,3) i d c
      by (simp add: alt_dma_memory_to_memory_def m2m_body_def guarded_def m2m_segments_one[OF assms(1,2)]
          weak_coalesce(2)[OF assms(1)] split: prod.split)
  next
    case False
    then show ?thesis
      using assms(2,3) i d c
      by (auto simp: alt_dma_memory_to_memory_def m2m_body_def guarded_def m2m_segments_end split: prod.split)
  qed
qed

lemma m2m_body_assembles:
  "assembler E calls \<Longrightarrow> assembles calls (m2m_body E dst src sz) (m2m_calls (opts E) dst src sz)"
  unfolding m2m_body_def alt_dma_memory_to_memory_segment_def Let_def
  by (rule assembles_bind[OF assembles_init, of E calls _ "m2m_calls (opts E) dst src sz", simplified])
    (assumption, intro emits_guarded emits_all, assumption, simp add: guarded_def)

text \<open>Programs that are closed on their own.\<close>

lemma closed_mov: "closed_calls cs \<Longrightarrow> closed_calls (DMAMOV r v # cs)"
  using closed_append[OF flat_closed[of "[DMAMOV r v]"]] by simp

lemma m2m_calls_closed: "closed_calls (m2m_calls opt dst src sz)"
proof -
  obtain cs left where al: "m2m_align opt src sz = (cs, left)" by force
  then have "flat cs" by (auto simp: m2m_align_def Let_def split: if_splits)
  then show ?thesis
    unfolding m2m_calls_def al Let_def prod.case
    by (intro closed_append)
      (simp_all add: flat_closed m2m_burst_flat m2m_correct_flat m2m_burst16_closed)
qed

lemma closing_runs: "runs rs P (closing wmb send_evt evt) P"
  by (auto simp: closing_def runs_flat)

text \<open>\<open>performs\<close>: on any machine with an empty MFIFO the program runs to its end, with the effect \<open>Q\<close>.\<close>

definition performs :: "dma_call list \<Rightarrow> (mem \<Rightarrow> pl330 \<Rightarrow> pl330 \<Rightarrow> bool) \<Rightarrow> bool" where
  "performs cs Q \<longleftrightarrow>
     (\<forall>rs m. mfifo m = [] \<longrightarrow> (\<exists>m'. run_program rs cs m = Some m' \<and> mfifo m' = [] \<and> Q rs m m'))"

text \<open>The same on machines of which \<open>P\<close> holds.\<close>

definition performs_when ::
  "(pl330 \<Rightarrow> bool) \<Rightarrow> dma_call list \<Rightarrow> (mem \<Rightarrow> pl330 \<Rightarrow> pl330 \<Rightarrow> bool) \<Rightarrow> bool" where
  "performs_when P cs Q \<longleftrightarrow>
     (\<forall>rs m. mfifo m = [] \<and> P m \<longrightarrow> (\<exists>m'. run_program rs cs m = Some m' \<and> mfifo m' = [] \<and> Q rs m m'))"

lemma performs_iff_when: "performs cs Q \<longleftrightarrow> performs_when (\<lambda>_. True) cs Q"
  by (simp add: performs_def performs_when_def)

lemma performs_when_closing:
  assumes "\<And>m0. P m0 \<Longrightarrow> closed_calls cs"
    and "\<And>rs m0. P m0 \<Longrightarrow> runs rs (\<lambda>m. m = m0 \<and> mfifo m = []) cs (T rs m0)"
    and "\<And>rs m0 m'. T rs m0 m' \<Longrightarrow> mfifo m' = [] \<and> Q rs m0 m'"
  shows "performs_when P (cs @ closing wmb send_evt evt) Q"
  unfolding performs_when_def
proof (intro allI impI, elim conjE)
  fix rs :: mem and m :: pl330
  assume "mfifo m = []" "P m"
  moreover from this(2) have "runs rs (\<lambda>m'. m' = m \<and> mfifo m' = []) (cs @ closing wmb send_evt evt) (T rs m)"
    by (intro runs_append[OF assms(1,2) closing_runs])
  ultimately show "\<exists>m'. run_program rs (cs @ closing wmb send_evt evt) m = Some m' \<and>
      mfifo m' = [] \<and> Q rs m m'"
    using assms(3) unfolding runs_def by blast
qed

lemma performs_closing:
  assumes "\<And>rs m0. runs rs (\<lambda>m. m = m0 \<and> mfifo m = []) cs (P rs m0)"
    and "closed_calls cs" and "\<And>rs m0 m'. P rs m0 m' \<Longrightarrow> mfifo m' = [] \<and> Q rs m0 m'"
  shows "performs (cs @ closing wmb send_evt evt) Q"
  unfolding performs_iff_when by (rule performs_when_closing[OF assms(2,1,3)])

definition copies_bytes :: "u32 \<Rightarrow> u32 \<Rightarrow> u32 \<Rightarrow> mem \<Rightarrow> pl330 \<Rightarrow> pl330 \<Rightarrow> bool" where
  "copies_bytes dst src sz rs m m' \<longleftrightarrow>
     memory m' = store_bytes (memory m) (unat dst) (bytes_at (memory m) (unat src) (unat sz))"

lemma m2m_performs:
  assumes "ccr_opts_ok opt" and "sz \<noteq> 0" and "disjoint (unat src) (unat dst) (unat sz)"
  shows "performs (m2m_calls opt dst src sz @ closing wmb send_evt evt) (copies_bytes dst src sz)"
proof (rule performs_closing[OF _ m2m_calls_closed])
  show "runs rs (\<lambda>m. m = m0 \<and> mfifo m = []) (m2m_calls opt dst src sz)
      (copied (memory m0) (unat src) (unat dst) (unat sz) 0)" for rs m0
    using assms by (intro m2m_calls_runs) (simp_all add: word_gt_0)
qed (simp add: copied_def copies_bytes_def)

text \<open>A started program and its effect, or nothing written.\<close>

definition starts_program ::
  "('p, 'c) dma_env \<Rightarrow> ('p \<Rightarrow> dma_call list) \<Rightarrow> nat \<Rightarrow> (mem \<Rightarrow> pl330 \<Rightarrow> pl330 \<Rightarrow> bool) \<Rightarrow>
   'p dma_state \<Rightarrow> status option \<times> 'p dma_state \<Rightarrow> bool" where
  "starts_program E calls channel Q s res \<longleftrightarrow>
     (case res of (r, s') \<Rightarrow>
        if r = Some ALT_E_SUCCESS
        then performs (calls (program s')) Q \<and>
          writes (bus s') = writes (bus s) @ start_writes E channel (program s')
        else r \<noteq> None \<and> writes (bus s') = writes (bus s))"

definition starts_when ::
  "('p, 'c) dma_env \<Rightarrow> ('p \<Rightarrow> dma_call list) \<Rightarrow> nat \<Rightarrow> (pl330 \<Rightarrow> bool) \<Rightarrow>
   (mem \<Rightarrow> pl330 \<Rightarrow> pl330 \<Rightarrow> bool) \<Rightarrow> 'p dma_state \<Rightarrow> status option \<times> 'p dma_state \<Rightarrow> bool" where
  "starts_when E calls channel P Q s res \<longleftrightarrow>
     (case res of (r, s') \<Rightarrow>
        if r = Some ALT_E_SUCCESS
        then performs_when P (calls (program s')) Q \<and>
          writes (bus s') = writes (bus s) @ start_writes E channel (program s')
        else r \<noteq> None \<and> writes (bus s') = writes (bus s))"

lemma starts_program_iff_when:
  "starts_program E calls channel Q s res \<longleftrightarrow> starts_when E calls channel (\<lambda>_. True) Q s res"
  by (simp add: starts_program_def starts_when_def performs_iff_when)

lemma starts_whenI:
  assumes "assembler E calls" and "assembles calls body cs"
    and "performs_when P (cs @ closing wmb send_evt evt) Q"
  shows "starts_when E calls channel P Q s
    (case run_state (do { st \<leftarrow> body; finish_program E channel wmb send_evt evt st }) s of
       (st, s') \<Rightarrow> (Some st, s'))"
proof -
  obtain st s' where r: "run_state (do { st \<leftarrow> body; finish_program E channel wmb send_evt evt st }) s = (st, s')"
    by force
  from finish_result[OF assms(1,2) r] show ?thesis
    using assms(3) unfolding r by (auto simp: starts_when_def transfer_result_def split: if_splits)
qed

lemma starts_programI:
  assumes "assembler E calls" and "assembles calls body cs"
    and "performs (cs @ closing wmb send_evt evt) Q"
  shows "starts_program E calls channel Q s
    (case run_state (do { st \<leftarrow> body; finish_program E channel wmb send_evt evt st }) s of
       (st, s') \<Rightarrow> (Some st, s'))"
  unfolding starts_program_iff_when
  by (rule starts_whenI[OF assms(1,2) assms(3)[unfolded performs_iff_when]])

text \<open>
  The code's test finds every pair of regions that share at least two bytes, as long as the
  regions do not run over the end of the address space.
\<close>

lemma overlaps_of_shared:
  assumes "unat src + unat sz \<le> 2 ^ 32" and "unat dst + unat sz \<le> 2 ^ 32"
    and "unat src + 1 < unat dst + unat sz" and "unat dst + 1 < unat src + unat sz"
  shows "overlaps dst src sz"
proof -
  have sz: "0 < unat sz" using assms(3,4) by simp
  have e: "unat (a + sz - 1) = unat a + unat sz - 1" if "unat a + unat sz \<le> 2 ^ 32" for a :: u32
  proof -
    have "1 \<le> sz" using sz by (simp add: word_le_nat_alt)
    then have "unat (sz - 1) = unat sz - 1" by (simp add: unat_sub)
    moreover have "a + sz - 1 = a + (sz - 1)" by simp
    ultimately show ?thesis using that sz by (simp only: unat_word_ariths) simp
  qed
  show ?thesis using assms e[OF assms(1)] e[OF assms(2)] by (auto simp: overlaps_def word_less_nat_alt)
qed

lemma m2m_overlaps:
  assumes "sz \<noteq> 0" and "overlaps dst src sz"
  shows "case run_state (alt_dma_memory_to_memory fuel E channel dst src sz send_evt evt) s of
    (r, s') \<Rightarrow> r = Some ALT_E_BAD_ARG \<and> bus s' = bus s"
  using assms by (auto simp: alt_dma_memory_to_memory_def bus_simps split: prod.split)

text \<open>
  C3: \<open>alt_dma_memory_to_memory\<close>, with the default address translation and a size other than
  zero, always returns.  Where the two buffers are disjoint and it answers success, it has
  started a program on the channel which, run by the controller, copies exactly the \<open>sz\<close>
  bytes from \<open>src\<close> to \<open>dst\<close> for every alignment of the two and leaves nothing in the MFIFO;
  where it answers anything else it has written no register.  Where the buffers (neither over
  the end of the address space) share two bytes or more it answers \<open>ALT_E_BAD_ARG\<close> and
  touches no register.  Buffers that share exactly one byte are covered by neither half: the
  check lets them pass, see \<open>overlap_of_one_byte_missed\<close>.
\<close>

theorem memory_to_memory_copies:
  assumes "weak_mmu E" and "assembler E calls" and "ccr_opts_ok (opts E)" and "sz \<noteq> 0"
  shows "(disjoint (unat src) (unat dst) (unat sz) \<longrightarrow>
      starts_program E calls channel (copies_bytes dst src sz) s
        (run_state (alt_dma_memory_to_memory (Suc fuel) E channel dst src sz send_evt evt) s)) \<and>
    (unat src + unat sz \<le> 2 ^ 32 \<and> unat dst + unat sz \<le> 2 ^ 32 \<and>
     unat src + 1 < unat dst + unat sz \<and> unat dst + 1 < unat src + unat sz \<longrightarrow>
      (case run_state (alt_dma_memory_to_memory (Suc fuel) E channel dst src sz send_evt evt) s of
         (r, s') \<Rightarrow> r = Some ALT_E_BAD_ARG \<and> bus s' = bus s))"
proof (intro conjI impI, goal_cases)
  case 1
  show ?case
  proof (cases "overlaps dst src sz")
    case True
    then show ?thesis
      using m2m_overlaps[OF assms(4) True, where fuel = "Suc fuel" and E = E and channel = channel
          and send_evt = send_evt and evt = evt and s = s]
      by (auto simp: starts_program_def)
  next
    case False
    show ?thesis
      unfolding m2m_driver_run[OF assms(1,4) False]
      by (rule starts_programI[OF assms(2) m2m_body_assembles[OF assms(2)] m2m_performs[OF assms(3,4) 1]])
  qed
next
  case 2
  then show ?case by (intro m2m_overlaps assms(4) overlaps_of_shared) simp_all
qed

definition demo_opts :: ccr_opts where
  "demo_opts = \<lparr> SB1 = 0, SB16 = 0xf0, SB_DEFAULT = 0, SS8 = 0, SS16 = 2, SS32 = 4, SS64 = 6, SS_DEFAULT = 0,
     SAF = 0, SAI = 1, SA_DEFAULT = 1, SP_DEFAULT = 0, SC = (\<lambda>n. push_bit 11 n), SC_DEFAULT = 0,
     DB1 = 0, DB16 = 0x3c0000, DS8 = 0, DS16 = 0x8000, DS32 = 0x10000, DS64 = 0x18000, DAF = 0, DAI = 0x4000,
     DA_DEFAULT = 0x4000, DP_DEFAULT = 0, DC = (\<lambda>n. push_bit 25 n), DC_DEFAULT = 0, ES_DEFAULT = 0 \<rparr>"

text \<open>A controller whose channel reads as executing twice, then as killing.\<close>

definition slow_kill :: "(unit, unit) dma_env" where
  "slow_kill = \<lparr> opts = demo_opts, regs = (\<lambda>h a. if length h < 4 then 1 else 8), secure_base = 0xffe01000,
     event_abort = 8, program_emit = (\<lambda>c p. (ALT_E_ERROR, p)), program_init = (\<lambda>p. (ALT_E_ERROR, p)),
     program_clear = (\<lambda>p. (ALT_E_ERROR, p)), program_validate = (\<lambda>p. ALT_E_ERROR),
     program_start = (\<lambda>p. 0), program_code_size = (\<lambda>p. 0), cache_line = 32,
     cache_system_clean = alt_cache_system_clean, mmu_va_to_pa = alt_mmu_va_to_pa,
     coalesce_begin = (\<lambda>va n. (ALT_E_ERROR, ())), coalesce_next = (\<lambda>c. (ALT_E_ERROR, (0, 0), ())),
     coalesce_end = (\<lambda>c. ALT_E_ERROR) \<rparr>"

theorem channel_kill_verdict_witness:
  "case run_state (alt_dma_channel_kill slow_kill 5)
      \<lparr> channel_info = [0, 0, 0, 0, 0, 1, 0, 0], can_exist = False, program = (), scratch = [], bus = [] \<rparr> of
     (st, s') \<Rightarrow> st = ALT_E_SUCCESS \<and> bus s' =
       [Wr 0xffe01d08 0x10501, Wr 0xffe01d04 0, Rd 0xffe01128 1, Rd 0xffe01128 1, Rd 0xffe01128 8]"
proof -
  let ?s = "\<lparr> channel_info = [0, 0, 0, 0, 0, 1, 0, 0], can_exist = False, program = (), scratch = [], bus = [] \<rparr>"
  let ?h = "bus ?s @ kill_writes slow_kill 5"
  have e: "(19999 :: nat) = Suc (Suc (Suc 19996))" by simp
  have "first_killed slow_kill 5 ?h 19999 = Some 2"
    unfolding first_killed_def e find_upt_Suc
    by (simp add: killed_at_def slow_kill_def kill_writes_def
        ALT_DMA_CSRx_CHANNELSTATUS_GET_def del: upt_rec_numeral)
  moreover have "csr_polls slow_kill 5 ?h (Suc 2) =
      [Wr 0xffe01d08 0x10501, Wr 0xffe01d04 0, Rd 0xffe01128 1, Rd 0xffe01128 1, Rd 0xffe01128 8]"
    unfolding numeral_2_eq_2 csr_polls.simps
    by (simp add: slow_kill_def kill_writes_def ALT_DMA_DBGINST0_ADDR_def ALT_DMA_DBGCMD_ADDR_def
        ALT_DMA_CSRx_ADDR_def ALT_DMA_DBGINST0_INSTRUCTIONBYTE0_SET_def
        ALT_DMA_DBGINST0_CHANNELNUMBER_SET_def ALT_DMA_DBGINST0_DEBUGTHREAD_SET_def)
  moreover have "alloced (channel_info ?s ! 5)" by (simp add: alloced_def)
  ultimately show ?thesis
    using channel_kill_verdict[of 5 ?s slow_kill] by (simp only: valid_channel_iff Let_def option.case) simp
qed

definition demo_dma :: "(dma_call list, coalesce) dma_env" where
  "demo_dma = \<lparr> opts = demo_opts, regs = (\<lambda>h a. 0), secure_base = 0xffe01000, event_abort = 8,
     program_emit = (\<lambda>c p. (ALT_E_SUCCESS, p @ [c])), program_init = (\<lambda>p. (ALT_E_SUCCESS, [])),
     program_clear = (\<lambda>p. (ALT_E_SUCCESS, [])), program_validate = (\<lambda>p. ALT_E_SUCCESS),
     program_start = (\<lambda>p. 0x8000), program_code_size = (\<lambda>p. 64), cache_line = 32,
     cache_system_clean = alt_cache_system_clean, mmu_va_to_pa = alt_mmu_va_to_pa,
     coalesce_begin = alt_mmu_va_to_pa_coalesce_begin no_segment,
     coalesce_next = alt_mmu_va_to_pa_coalesce_next, coalesce_end = alt_mmu_va_to_pa_coalesce_end \<rparr>"

definition dma_demo_state :: "dma_call list dma_state" where
  "dma_demo_state = \<lparr> channel_info = [0, 0, 1, 0, 0, 0, 0, 0], can_exist = False, program = [], scratch = [], bus = [] \<rparr>"

lemma demo_ok: "weak_mmu demo_dma" "assembler demo_dma (\<lambda>p. p)" "ccr_opts_ok (opts demo_dma)"
proof -
  show "weak_mmu demo_dma" by (auto simp: weak_mmu_def demo_dma_def)
  show "assembler demo_dma (\<lambda>p. p)" by (simp add: assembler_def demo_dma_def)
  show "ccr_opts_ok (opts demo_dma)"
    by (simp add: ccr_opts_ok_def demo_dma_def demo_opts_def ccr_fields_def)
qed

lemma demo_opts_eq: "opts demo_dma = demo_opts"
  by (simp add: demo_dma_def)

lemma demo_emit_all:
  "run_state (emit_all demo_dma cs) s = (ALT_E_SUCCESS, s\<lparr> program := program s @ cs \<rparr>)"
  by (induction cs arbitrary: s) (simp_all add: emit_def bus_simps demo_dma_def)

lemma dma_demo_finish:
  "channel_info s ! 2 = 1 \<Longrightarrow>
    fst (run_state (finish_program demo_dma 2 wmb send_evt evt ALT_E_SUCCESS) s) = ALT_E_SUCCESS"
  by (simp add: finish_program_def guarded_def emit_def bus_simps demo_dma_def Let_def
      alt_dma_channel_exec_def valid_channel_iff alloced_def alt_dma_channel_state_get_def
      ALT_DMA_CSRx_CHANNELSTATUS_GET_def program_lines_def alt_cache_system_clean_def alt_mmu_va_to_pa_def)

lemma demo_m2m_success:
  "fst (run_state (alt_dma_memory_to_memory (Suc 0) demo_dma 2 0x1003 0x2001 300 True 3) dma_demo_state) =
     Some ALT_E_SUCCESS"
proof -
  have "run_state (m2m_body demo_dma 0x1003 0x2001 300) dma_demo_state =
      (ALT_E_SUCCESS, dma_demo_state\<lparr> program := m2m_calls demo_opts 0x1003 0x2001 300 \<rparr>)"
    by (simp add: m2m_body_def bus_simps alt_dma_memory_to_memory_segment_def demo_emit_all guarded_def)
      (simp add: demo_dma_def alt_mmu_va_to_pa_coalesce_begin_def demo_emit_all[unfolded demo_dma_def])
  moreover have "\<not> overlaps 0x1003 0x2001 300" by (simp add: overlaps_def)
  ultimately show ?thesis
    using dma_demo_finish[of "dma_demo_state\<lparr> program := m2m_calls demo_opts 0x1003 0x2001 300 \<rparr>" True True 3]
    by (auto simp: m2m_driver_run demo_ok dma_demo_state_def split: prod.split)
qed

text \<open>
  300 bytes at odd addresses are copied; the same to a buffer that begins inside the source are
  refused.
\<close>

theorem memory_to_memory_copies_witness:
  "(\<exists>s'. run_state (alt_dma_memory_to_memory (Suc 0) demo_dma 2 0x1003 0x2001 300 True 3) dma_demo_state =
       (Some ALT_E_SUCCESS, s') \<and>
     performs (program s') (copies_bytes 0x1003 0x2001 300) \<and>
     writes (bus s') = start_writes demo_dma 2 (program s')) \<and>
   fst (run_state (alt_dma_memory_to_memory (Suc 0) demo_dma 2 0x2081 0x2001 300 True 3) dma_demo_state) =
     Some ALT_E_BAD_ARG"
proof
  obtain s' where r: "run_state (alt_dma_memory_to_memory (Suc 0) demo_dma 2 0x1003 0x2001 300 True 3)
      dma_demo_state = (Some ALT_E_SUCCESS, s')"
    using demo_m2m_success by (metis prod.collapse)
  have "disjoint (unat (0x2001 :: u32)) (unat (0x1003 :: u32)) (unat (300 :: u32))"
    by (simp add: disjoint_def)
  with memory_to_memory_copies[OF demo_ok, of 300 "0x2001" "0x1003" 2 dma_demo_state 0 True 3] r
  show "\<exists>s'. run_state (alt_dma_memory_to_memory (Suc 0) demo_dma 2 0x1003 0x2001 300 True 3) dma_demo_state =
      (Some ALT_E_SUCCESS, s') \<and> performs (program s') (copies_bytes 0x1003 0x2001 300) \<and>
      writes (bus s') = start_writes demo_dma 2 (program s')"
    by (auto simp: starts_program_def dma_demo_state_def)
  show "fst (run_state (alt_dma_memory_to_memory (Suc 0) demo_dma 2 0x2081 0x2001 300 True 3) dma_demo_state) =
      Some ALT_E_BAD_ARG"
    using memory_to_memory_copies[OF demo_ok, of 300 "0x2001" "0x2081" 2 dma_demo_state 0 True 3]
    by (auto split: prod.splits)
qed

section \<open>One buffer\<close>

lemma finish_fails:
  "st \<noteq> ALT_E_SUCCESS \<Longrightarrow> run_state (finish_program E channel wmb send_evt evt st) s =
     (st, s\<lparr> program := snd (program_clear E (program s)) \<rparr>)"
  by (simp add: finish_run close_fails bus_simps)

lemma segments_end:
  "sz = 0 \<or> st \<noteq> ALT_E_SUCCESS \<Longrightarrow> segments fuel E seg sz st c = State_Monad.return (Some (st, c))"
  by (simp add: segments.simps)

lemma segments_one:
  assumes "weak_mmu E" and "sz \<noteq> 0"
  shows "run_state (segments (Suc fuel) E seg sz ALT_E_SUCCESS (one_segment buf sz)) s =
    (case run_state (seg buf sz) s of (st, s1) \<Rightarrow> (Some (st, no_segment), s1))"
  using assms(2)
  by (subst segments.simps)
    (simp add: weak_coalesce(1)[OF assms] guarded_def segments_end split: prod.split)

definition segment_body ::
  "('p, 'c) dma_env \<Rightarrow> (u32 \<Rightarrow> u32 \<Rightarrow> ('p, status) dma) \<Rightarrow> u32 \<Rightarrow> u32 \<Rightarrow> status \<Rightarrow> ('p, status) dma" where
  "segment_body E seg buf sz st = guarded st (guarded (fst (coalesce_begin E buf sz)) (seg buf sz))"

lemma transfer_run:
  assumes "weak_mmu E" and "sz \<noteq> 0"
  shows "run_state (transfer (Suc fuel) E channel seg buf sz send_evt evt status) s =
    (case run_state (do { st \<leftarrow> segment_body E seg buf sz status;
                          finish_program E channel False send_evt evt st }) s of
       (st, s') \<Rightarrow> (Some st, s'))"
proof -
  obtain st c where b: "coalesce_begin E buf sz = (st, c)" by force
  show ?thesis
  proof (cases "status = ALT_E_SUCCESS \<and> st = ALT_E_SUCCESS")
    case True
    then have "c = one_segment buf sz" using weak_begin[OF assms(1)] b by blast
    then show ?thesis
      using True b by (simp add: transfer_def segment_body_def guarded_def segments_one[OF assms]
          weak_coalesce(2)[OF assms(1)] split: prod.split)
  next
    case False
    then show ?thesis
      using b by (auto simp: transfer_def segment_body_def guarded_def segments_end split: prod.split)
  qed
qed

text \<open>A transfer of no bytes has no segment to emit.\<close>

lemma transfer_run_any:
  assumes "weak_mmu E"
  shows "run_state (transfer (Suc fuel) E channel seg buf sz send_evt evt status) s =
    (case run_state (do { st \<leftarrow> segment_body E
              (if sz = 0 then (\<lambda>_ _. State_Monad.return ALT_E_SUCCESS) else seg) buf sz status;
            finish_program E channel False send_evt evt st }) s of
       (st, s') \<Rightarrow> (Some st, s'))"
proof (cases "sz = 0")
  case False
  then show ?thesis using transfer_run[OF assms False] by simp
next
  case True
  obtain st c where b: "coalesce_begin E buf 0 = (st, c)" by force
  show ?thesis
  proof (cases "status = ALT_E_SUCCESS \<and> st = ALT_E_SUCCESS")
    case True
    then have "coalesce_end E c = ALT_E_SUCCESS"
      using weak_begin[OF assms, of buf 0 c] b assms
      by (simp add: weak_mmu_def alt_mmu_va_to_pa_coalesce_end_def one_segment_def)
    then show ?thesis
      using True b \<open>sz = 0\<close>
      by (simp add: transfer_def segment_body_def guarded_def segments_end split: prod.split)
  next
    case False
    then show ?thesis
      using b \<open>sz = 0\<close>
      by (auto simp: transfer_def segment_body_def guarded_def segments_end split: prod.split)
  qed
qed

lemma segment_body_emits:
  "(\<And>pa n. emits calls (seg pa n) (f pa n)) \<Longrightarrow> emits calls (segment_body E seg buf sz ALT_E_SUCCESS) (f buf sz)"
  unfolding segment_body_def by (intro emits_guarded)

lemma segment_body_fails: "st \<noteq> ALT_E_SUCCESS \<Longrightarrow> segment_body E seg buf sz st = State_Monad.return st"
  by (simp add: segment_body_def guarded_def)

text \<open>Zero to memory.\<close>

definition zeroes_bytes :: "u32 \<Rightarrow> u32 \<Rightarrow> mem \<Rightarrow> pl330 \<Rightarrow> pl330 \<Rightarrow> bool" where
  "zeroes_bytes buf sz rs m m' \<longleftrightarrow>
     memory m' = store_bytes (memory m) (unat buf) (replicate (unat sz) 0)"

lemma z2m_calls_closed: "closed_calls (z2m_calls opt buf sz)"
proof -
  obtain cs left where al: "z2m_align opt buf sz = (cs, left)" by force
  then have "flat cs" by (auto simp: z2m_align_def Let_def split: if_splits)
  then show ?thesis
    unfolding z2m_calls_def al Let_def prod.case
    by (intro closed_append)
      (simp_all add: flat_closed z2m_burst_def closed_mov z2m_loops_unroll)
qed

lemma z2m_performs:
  assumes "ccr_opts_ok opt" and "sz \<noteq> 0"
  shows "performs (z2m_calls opt buf sz @ closing wmb send_evt evt) (zeroes_bytes buf sz)"
proof (rule performs_closing[OF _ z2m_calls_closed])
  show "runs rs (\<lambda>m. m = m0 \<and> mfifo m = []) (z2m_calls opt buf sz)
      (zeroed (memory m0) (unat buf) (unat sz))" for rs m0
    using assms by (intro z2m_calls_runs) (simp_all add: word_gt_0)
qed (simp add: zeroed_def zeroes_bytes_def)

lemma z2m_assembles:
  assumes "assembler E calls"
  shows "assembles calls
    (do { st \<leftarrow> on_program (program_init E);
          segment_body E (alt_dma_zero_to_memory_segment E) buf sz st })
    (z2m_calls (opts E) buf sz)"
  by (rule assembles_bind[OF assembles_init[OF assms], of _ "z2m_calls (opts E) buf sz", simplified])
    (auto intro!: segment_body_emits emits_all[OF assms]
      simp: segment_body_fails alt_dma_zero_to_memory_segment_def)

text \<open>
  C16: \<open>alt_dma_zero_to_memory\<close> of at least one byte, with the default address translation,
  always returns; on success it has started a program that sets exactly the \<open>sz\<close> bytes at \<open>buf\<close> to zero, for
  every alignment of \<open>buf\<close>; otherwise it has written no register.
\<close>

theorem zero_to_memory_zeroes:
  assumes "weak_mmu E" and "assembler E calls" and "ccr_opts_ok (opts E)" and "sz \<noteq> 0"
  shows "starts_program E calls channel (zeroes_bytes buf sz) s
    (run_state (alt_dma_zero_to_memory (Suc fuel) E channel buf sz send_evt evt) s)"
proof -
  let ?body = "do { st \<leftarrow> on_program (program_init E);
    segment_body E (alt_dma_zero_to_memory_segment E) buf sz st }"
  have "run_state (alt_dma_zero_to_memory (Suc fuel) E channel buf sz send_evt evt) s =
      (case run_state (do { st \<leftarrow> ?body; finish_program E channel False send_evt evt st }) s of
         (st, s') \<Rightarrow> (Some st, s'))"
    using assms(4) by (simp add: alt_dma_zero_to_memory_def transfer_run[OF assms(1,4)] split: prod.split)
  then show ?thesis
    by (simp only:) (rule starts_programI[OF assms(2) z2m_assembles[OF assms(2)] z2m_performs[OF assms(3,4)]])
qed

lemma demo_segment:
  "\<not> va + sz - 1 < va \<Longrightarrow>
    run_state (segment_body demo_dma (\<lambda>pa n. emit_all demo_dma (f pa n)) va sz ALT_E_SUCCESS) s =
      (ALT_E_SUCCESS, s\<lparr> program := program s @ f va sz \<rparr>)"
proof -
  assume "\<not> va + sz - 1 < va"
  then have "fst (coalesce_begin demo_dma va sz) = ALT_E_SUCCESS"
    by (simp add: demo_dma_def alt_mmu_va_to_pa_coalesce_begin_def)
  then show ?thesis by (simp add: segment_body_def guarded_def demo_emit_all)
qed

lemma demo_init: "run_state (on_program (program_init demo_dma)) s = (ALT_E_SUCCESS, s\<lparr> program := [] \<rparr>)"
  by (simp add: bus_simps demo_dma_def)

lemma demo_transfer:
  assumes "\<not> va + sz - 1 < va" and "sz \<noteq> 0" and "channel_info s ! 2 = 1"
  shows "fst (run_state (transfer (Suc 0) demo_dma 2 (\<lambda>pa n. emit_all demo_dma (f pa n)) va sz
    send_evt evt ALT_E_SUCCESS) s) = Some ALT_E_SUCCESS"
  using dma_demo_finish[of "s\<lparr> program := program s @ f va sz \<rparr>" False send_evt evt] assms(3)
  by (auto simp: transfer_run[OF demo_ok(1) assms(2)] demo_segment[OF assms(1)] split: prod.split)

theorem zero_to_memory_zeroes_witness:
  "case run_state (alt_dma_zero_to_memory (Suc 0) demo_dma 2 0x1005 0x12345 False 0) dma_demo_state of
     (r, s') \<Rightarrow> r = Some ALT_E_SUCCESS \<and> performs (program s') (zeroes_bytes 0x1005 0x12345)"
proof -
  have "fst (run_state (alt_dma_zero_to_memory (Suc 0) demo_dma 2 0x1005 0x12345 False 0) dma_demo_state) =
      Some ALT_E_SUCCESS"
    using demo_transfer[where va = "0x1005" and sz = "0x12345" and s = dma_demo_state
        and f = "z2m_calls demo_opts" and send_evt = False and evt = 0]
    by (simp add: alt_dma_zero_to_memory_def demo_init alt_dma_zero_to_memory_segment_def[abs_def]
        dma_demo_state_def demo_opts_eq)
  with zero_to_memory_zeroes[OF demo_ok, where sz = "0x12345" and buf = "0x1005" and channel = 2 and s = dma_demo_state and fuel = 0
      and send_evt = False and evt = 0] show ?thesis
    by (auto simp: starts_program_def split: prod.splits)
qed

text \<open>Register transfers: both pass the same checks, then set the register and move \<open>cnt\<close> items.\<close>

definition width_ok :: "u32 \<Rightarrow> nat \<Rightarrow> bool" where
  "width_ok bits k \<longleftrightarrow> (bits = 8 \<and> k = 0) \<or> (bits = 16 \<and> k = 1) \<or> (bits = 32 \<and> k = 2) \<or> (bits = 64 \<and> k = 3)"

lemma reg_width_ok:
  assumes "ccr_opts_ok opt" and "width_ok bits k"
  shows "reg_width opt bits = Some (push_bit 1 (of_nat k) OR push_bit 15 (of_nat k), k)"
    and "(of_nat k :: u32) \<in> sizes" and "unat (of_nat k :: u32) = k"
  using assms by (auto simp: width_ok_def reg_width_def opts_values sizes_def)

lemma reg_width_cases: "(\<exists>k. width_ok bits k) \<or> reg_width opt bits = None"
  by (auto simp: width_ok_def reg_width_def)

lemma aligned_iff: "k < 32 \<Longrightarrow> (a :: u32) AND (push_bit k 1 - 1) = 0 \<longleftrightarrow> unat a mod 2 ^ k = 0"
proof -
  have "push_bit k 1 - 1 = (mask k :: u32)" by (simp add: mask_eq_exp_minus_1 push_bit_eq_mult)
  then show ?thesis using unat_mask[of a k] by (metis unat_eq_zero)
qed

definition reg_body ::
  "('p, 'c) dma_env \<Rightarrow> dma_reg \<Rightarrow> (u32 \<Rightarrow> u32 \<Rightarrow> ('p, status) dma) \<Rightarrow> u32 \<Rightarrow> u32 \<Rightarrow> u32 \<Rightarrow> ('p, status) dma" where
  "reg_body E mov seg reg buf sz =
     do { st \<leftarrow> on_program (program_init E);
          st \<leftarrow> guarded st (emit E (DMAMOV mov reg));
          segment_body E seg buf sz st }"

lemma reg_body_assembles:
  assumes "assembler E calls" and "\<And>pa n. emits calls (seg pa n) (f pa n)"
  shows "assembles calls (reg_body E mov seg reg buf sz) ([DMAMOV mov reg] @ f buf sz)"
proof -
  have "emits calls (do { st \<leftarrow> guarded ALT_E_SUCCESS (emit E (DMAMOV mov reg)); segment_body E seg buf sz st })
      ([DMAMOV mov reg] @ f buf sz)"
  proof (rule emits_bind)
    show "emits calls (guarded ALT_E_SUCCESS (emit E (DMAMOV mov reg))) [DMAMOV mov reg]"
      by (intro emits_guarded emits_emit assms(1))
    show "emits calls (segment_body E seg buf sz ALT_E_SUCCESS) (f buf sz)"
      by (intro segment_body_emits assms(2))
  qed (rule segment_body_fails)
  then have "assembles calls (reg_body E mov seg reg buf sz) ([] @ [DMAMOV mov reg] @ f buf sz)"
    unfolding reg_body_def
    by (rule assembles_bind[OF assembles_init[OF assms(1)]]) (simp add: guarded_def segment_body_fails)
  then show ?thesis by simp
qed

definition item_seg ::
  "(u32 \<Rightarrow> u32 \<Rightarrow> u32 \<Rightarrow> ('p, status) dma) \<Rightarrow> nat \<Rightarrow> u32 \<Rightarrow> u32 \<Rightarrow> u32 \<Rightarrow> ('p, status) dma" where
  "item_seg segment k sz =
     (if sz = 0 then (\<lambda>_ _. State_Monad.return ALT_E_SUCCESS)
      else (\<lambda>pa n. segment (push_bit 1 (of_nat k) OR push_bit 15 (of_nat k)) pa (drop_bit k n)))"

lemma register_transfer_run:
  assumes "weak_mmu E" and "ccr_opts_ok (opts E)" and "cnt \<noteq> 0" and "width_ok bits k"
    and "unat reg mod 2 ^ k = 0" and "unat buf mod 2 ^ k = 0"
  shows "run_state (register_transfer (Suc fuel) E channel mov segment reg buf cnt bits send_evt evt) s =
    (case run_state (do { st \<leftarrow> reg_body E mov (item_seg segment k (cnt * push_bit k 1))
              reg buf (cnt * push_bit k 1);
            finish_program E channel False send_evt evt st }) s of
       (st, s') \<Rightarrow> (Some st, s'))"
proof -
  have k: "k < 32" using assms(4) by (auto simp: width_ok_def)
  show ?thesis
    using assms(3) reg_width_ok[OF assms(2,4)] aligned_iff[OF k] assms(5,6)
    by (simp add: register_transfer_def Let_def reg_body_def transfer_run_any[OF assms(1)] item_seg_def
        split: prod.split)
qed

lemma transfer_refused:
  assumes "st \<noteq> ALT_E_SUCCESS"
  shows "run_state (transfer fuel E channel seg buf sz send_evt evt st) s =
    (Some st, s\<lparr> program := snd (program_clear E (program s)) \<rparr>)"
  using assms by (auto simp: transfer_def segments_end finish_fails split: prod.split)

lemma register_transfer_refused:
  assumes "ccr_opts_ok (opts E)" and "cnt \<noteq> 0"
    and "\<nexists>k. width_ok bits k \<and> unat reg mod 2 ^ k = 0 \<and> unat buf mod 2 ^ k = 0"
  shows "starts_when E calls channel P Q s
    (run_state (register_transfer fuel E channel mov segment reg buf cnt bits send_evt evt) s)"
proof -
  obtain st s1 where i: "run_state (on_program (program_init E)) s = (st, s1)" by force
  then have b: "bus s1 = bus s" by (auto simp: bus_simps)
  consider "reg_width (opts E) bits = None"
    | k where "width_ok bits k" "unat reg mod 2 ^ k \<noteq> 0 \<or> unat buf mod 2 ^ k \<noteq> 0"
  proof (cases "\<exists>k. width_ok bits k")
    case True
    then show ?thesis using assms(3) that(2) by auto
  next
    case False
    then show ?thesis using reg_width_cases[of bits "opts E"] that(1) by auto
  qed
  then show ?thesis
  proof cases
    case 1
    then show ?thesis
      using i b assms(2) by (auto simp: register_transfer_def guarded_def transfer_refused starts_when_def Let_def)
  next
    case (2 k)
    have k: "k < 32" using 2(1) by (auto simp: width_ok_def)
    have "reg AND (push_bit k 1 - 1) \<noteq> 0 \<or> buf AND (push_bit k 1 - 1) \<noteq> 0"
      unfolding aligned_iff[OF k] by (rule 2(2))
    then show ?thesis
      using i b assms(2) reg_width_ok(1)[OF assms(1) 2(1)]
      by (auto simp: register_transfer_def guarded_def transfer_refused starts_when_def Let_def)
  qed
qed

text \<open>An address that is a device register's, not that of memory.\<close>

definition is_device :: "u32 \<Rightarrow> pl330 \<Rightarrow> bool" where
  "is_device reg m \<longleftrightarrow> unat reg \<notin> cells m"

definition sends_bytes :: "u32 \<Rightarrow> u32 \<Rightarrow> nat \<Rightarrow> mem \<Rightarrow> pl330 \<Rightarrow> pl330 \<Rightarrow> bool" where
  "sends_bytes reg src n rs m m' \<longleftrightarrow>
     dar m' = unat reg \<and> memory m' = memory m \<and>
     reg_out m' = reg_out m @ bytes_at (memory m) (unat src) n"

definition receives_bytes :: "u32 \<Rightarrow> u32 \<Rightarrow> nat \<Rightarrow> mem \<Rightarrow> pl330 \<Rightarrow> pl330 \<Rightarrow> bool" where
  "receives_bytes dst reg n rs m m' \<longleftrightarrow>
     sar m' = unat reg \<and> reg_in m' = reg_in m + n \<and>
     memory m' = store_bytes (memory m) (unat dst) (bytes_at rs (reg_in m) n)"

lemma register_calls_closed:
  "closed_calls (m2r_calls opt msk src cnt)" "closed_calls (r2m_calls opt msk dst cnt)"
  unfolding m2r_calls_def r2m_calls_def Let_def
  by (intro closed_append; simp add: flat_closed closed_mov reg_loops_unroll)+

lemma runs_set_dar:
  "runs rs (\<lambda>m. m = m0 \<and> mfifo m = []) [DMAMOV DAR reg]
     (\<lambda>m. m = m0\<lparr> dar := unat reg \<rparr> \<and> mfifo m = [])"
  and runs_set_sar:
  "runs rs (\<lambda>m. m = m0 \<and> mfifo m = []) [DMAMOV SAR reg]
     (\<lambda>m. m = m0\<lparr> sar := unat reg \<rparr> \<and> mfifo m = [])"
  by (auto simp: runs_flat)

lemma m2r_performs:
  assumes "ccr_opts_ok opt" and "width_ok bits k" and "unat src mod 2 ^ k = 0"
  shows "performs (([DMAMOV DAR reg] @
      m2r_calls opt (push_bit 1 (of_nat k) OR push_bit 15 (of_nat k)) src cnt) @ closing wmb send_evt evt)
    (sends_bytes reg src (2 ^ k * unat cnt))"
proof (rule performs_closing)
  let ?c = "m2r_calls opt (push_bit 1 (of_nat k) OR push_bit 15 (of_nat k)) src cnt"
  show "closed_calls ([DMAMOV DAR reg] @ ?c)"
    by (intro closed_append register_calls_closed) (simp add: flat_closed)
  show "runs rs (\<lambda>m. m = m0 \<and> mfifo m = []) ([DMAMOV DAR reg] @ ?c)
      (sent (unat reg) (memory m0) (unat src) (reg_out m0) (2 ^ k * unat cnt))" for rs m0
    using runs_append[OF _ runs_set_dar m2r_calls_runs[OF assms(1) reg_width_ok(2)[OF assms(1,2)]],
        of reg src rs m0 cnt] assms(3)
    by (simp add: flat_closed reg_width_ok(3)[OF assms(1,2)])
qed (simp add: sent_def sends_bytes_def)

lemma r2m_performs:
  assumes "ccr_opts_ok opt" and "width_ok bits k" and "unat dst mod 2 ^ k = 0"
  shows "performs_when (is_device reg) (([DMAMOV SAR reg] @
      r2m_calls opt (push_bit 1 (of_nat k) OR push_bit 15 (of_nat k)) dst cnt) @ closing wmb send_evt evt)
    (receives_bytes dst reg (2 ^ k * unat cnt))"
proof (rule performs_when_closing)
  let ?c = "r2m_calls opt (push_bit 1 (of_nat k) OR push_bit 15 (of_nat k)) dst cnt"
  show "closed_calls ([DMAMOV SAR reg] @ ?c)"
    by (intro closed_append register_calls_closed) (simp add: flat_closed)
  fix m0 rs
  assume "is_device reg m0"
  then have d: "sar (m0\<lparr> sar := unat reg \<rparr>) \<notin> cells (m0\<lparr> sar := unat reg \<rparr>)" by (simp add: is_device_def)
  have "unat dst mod 2 ^ unat (of_nat k :: u32) = 0" using assms(3) by (simp add: reg_width_ok(3)[OF assms(1,2)])
  from r2m_calls_runs[OF assms(1) reg_width_ok(2)[OF assms(1,2)] this d]
  show "runs rs (\<lambda>m. m = m0 \<and> mfifo m = []) ([DMAMOV SAR reg] @ ?c)
      (received (unat reg) rs (memory m0) (unat dst) (reg_in m0) (2 ^ k * unat cnt))"
    using runs_append[OF _ runs_set_sar, of reg rs m0 ?c] by (simp add: flat_closed reg_width_ok(3)[OF assms(1,2)])
qed (simp add: received_def receives_bytes_def)

text \<open>The code counts the bytes in 32 bits, so the count of items wraps with their product.\<close>

lemma item_bytes:
  assumes "width_ok bits k"
  shows "unat (cnt * push_bit k 1 :: u32) = (2 ^ k * unat cnt) mod 2 ^ 32"
    and "2 ^ k * unat (drop_bit k (cnt * push_bit k 1) :: u32) = (2 ^ k * unat cnt) mod 2 ^ 32"
proof -
  have "unat (push_bit k 1 :: u32) = 2 ^ k" using assms by (auto simp: width_ok_def)
  then show u: "unat (cnt * push_bit k 1 :: u32) = (2 ^ k * unat cnt) mod 2 ^ 32"
    by (simp add: unat_word_ariths mult.commute)
  have "(2 :: nat) ^ k dvd 2 ^ 32" using assms by (auto simp: width_ok_def)
  then have "2 ^ k dvd (2 ^ k * unat cnt) mod 2 ^ 32" by (simp add: dvd_mod)
  then show "2 ^ k * unat (drop_bit k (cnt * push_bit k 1) :: u32) = (2 ^ k * unat cnt) mod 2 ^ 32"
    by (simp only: unat_drop u) simp
qed

lemma item_seg_emits:
  assumes "\<And>pa n. emits calls (segment (push_bit 1 (of_nat k) OR push_bit 15 (of_nat k)) pa n) (f pa n)"
  shows "emits calls (item_seg segment k sz pa n) (if sz = 0 then [] else f pa (drop_bit k n))"
  using assms by (simp add: item_seg_def emits_return)

lemma width_bytes: "width_ok bits k \<Longrightarrow> unat bits div 8 = 2 ^ k"
  by (auto simp: width_ok_def)

lemma no_bytes: "store_bytes m p [] = m"
  by (rule ext) (auto simp: store_bytes_def)

lemma no_items_performs:
  "performs (([DMAMOV DAR reg] @ []) @ closing wmb send_evt evt) (sends_bytes reg src 0)"
  "performs_when P (([DMAMOV SAR reg] @ []) @ closing wmb send_evt evt) (receives_bytes dst reg 0)"
proof -
  show "performs (([DMAMOV DAR reg] @ []) @ closing wmb send_evt evt) (sends_bytes reg src 0)"
    by (rule performs_closing[where P = "\<lambda>rs m0 m. m = m0\<lparr> dar := unat reg \<rparr> \<and> mfifo m = []"])
      (simp_all add: runs_set_dar flat_closed sends_bytes_def bytes_at_def)
  show "performs_when P (([DMAMOV SAR reg] @ []) @ closing wmb send_evt evt) (receives_bytes dst reg 0)"
    by (rule performs_when_closing[where T = "\<lambda>rs m0 m. m = m0\<lparr> sar := unat reg \<rparr> \<and> mfifo m = []"])
      (simp_all add: runs_set_sar flat_closed receives_bytes_def bytes_at_def no_bytes)
qed

lemma memory_to_register_runs:
  assumes "weak_mmu E" and "assembler E calls" and "ccr_opts_ok (opts E)" and "cnt \<noteq> 0"
  shows "starts_program E calls channel
    (sends_bytes dst_reg src_buf ((unat bits div 8 * unat cnt) mod 2 ^ 32)) s
    (run_state (alt_dma_memory_to_register (Suc fuel) E channel dst_reg src_buf cnt bits send_evt evt) s)"
proof (cases "\<exists>k. width_ok bits k \<and> unat dst_reg mod 2 ^ k = 0 \<and> unat src_buf mod 2 ^ k = 0")
  case False
  show ?thesis
    unfolding alt_dma_memory_to_register_def starts_program_iff_when
    by (rule register_transfer_refused[OF assms(3,4) False])
next
  case True
  then obtain k where k: "width_ok bits k" "unat dst_reg mod 2 ^ k = 0" "unat src_buf mod 2 ^ k = 0"
    by (elim exE conjE)
  let ?n = "cnt * push_bit k 1"
  let ?seg = "item_seg (alt_dma_memory_to_register_segment E) k ?n"
  let ?f = "m2r_calls (opts E) (push_bit 1 (of_nat k) OR push_bit 15 (of_nat k))"
  let ?c = "if ?n = 0 then [] else ?f src_buf (drop_bit k ?n)"
  have "emits calls (?seg pa n) (if ?n = 0 then [] else ?f pa (drop_bit k n))" for pa n
    by (rule item_seg_emits) (simp add: alt_dma_memory_to_register_segment_def emits_all[OF assms(2)])
  then have A: "assembles calls (reg_body E DAR ?seg dst_reg src_buf ?n) ([DMAMOV DAR dst_reg] @ ?c)"
    by (rule reg_body_assembles[OF assms(2)])
  have "performs (([DMAMOV DAR dst_reg] @ ?c) @ closing False send_evt evt)
      (sends_bytes dst_reg src_buf ((2 ^ k * unat cnt) mod 2 ^ 32))"
  proof (cases "?n = 0")
    case True
    then show ?thesis using no_items_performs(1) item_bytes(1)[OF k(1), of cnt] by simp
  next
    case False
    then show ?thesis
      using m2r_performs[OF assms(3) k(1,3), of dst_reg "drop_bit k ?n" False send_evt evt]
      by (simp only: item_bytes(2)[OF k(1)] if_False)
  qed
  then show ?thesis
    unfolding alt_dma_memory_to_register_def register_transfer_run[OF assms(1,3,4) k] width_bytes[OF k(1)]
    by (rule starts_programI[OF assms(2) A])
qed

text \<open>
  C17: \<open>alt_dma_memory_to_register\<close>, with the default address translation and a count other
  than zero, always returns; on success it has started a program that sends
  \<open>width * cnt mod 2 ^ 32\<close> bytes from \<open>src_buf\<close>, in order, to the register and changes no
  memory: all \<open>cnt\<close> items exactly when their bytes are fewer than \<open>2 ^ 32\<close>, and fewer of them
  otherwise, since the code computes the size in 32 bits.  A width other than 8, 16, 32 or 64
  bits, or a misaligned address, or any failure, writes no register.
\<close>

theorem memory_to_register_sends:
  assumes "weak_mmu E" and "assembler E calls" and "ccr_opts_ok (opts E)" and "cnt \<noteq> 0"
  shows "starts_program E calls channel
    (sends_bytes dst_reg src_buf ((unat bits div 8 * unat cnt) mod 2 ^ 32)) s
    (run_state (alt_dma_memory_to_register (Suc fuel) E channel dst_reg src_buf cnt bits send_evt evt) s)"
  by (rule memory_to_register_runs[OF assms])

lemma demo_reg_body:
  assumes "\<not> buf + sz - 1 < buf"
  shows "run_state (reg_body demo_dma mov (\<lambda>pa n. emit_all demo_dma (f pa n)) reg buf sz) s =
    (ALT_E_SUCCESS, s\<lparr> program := DMAMOV mov reg # f buf sz \<rparr>)"
proof -
  have "run_state (emit demo_dma c) t = (ALT_E_SUCCESS, t\<lparr> program := program t @ [c] \<rparr>)" for c t
    using demo_emit_all[of "[c]" t] by (auto simp: Let_def split: prod.splits if_splits)
  then show ?thesis
    by (simp add: reg_body_def demo_init guarded_def demo_segment[OF assms, unfolded segment_body_def]
        demo_segment[OF assms])
qed

lemma demo_reg_success:
  assumes "\<not> buf + sz - 1 < buf" and "channel_info s ! 2 = 1"
  shows "fst (case run_state (do { st \<leftarrow> reg_body demo_dma mov (\<lambda>pa n. emit_all demo_dma (f pa n)) reg buf sz;
      finish_program demo_dma 2 False send_evt evt st }) s of (st, s') \<Rightarrow> (Some st, s')) = Some ALT_E_SUCCESS"
  using dma_demo_finish[of "s\<lparr> program := DMAMOV mov reg # f buf sz \<rparr>" False send_evt evt] assms(2)
  by (auto simp: demo_reg_body[OF assms(1)] split: prod.split)

lemma demo_reg: "channel_info dma_demo_state ! 2 = 1"
  by (simp add: dma_demo_state_def)

text \<open>
  37 items of 32 bits are sent; of \<open>2 ^ 30 + 1\<close> items, whose bytes wrap to 4, the first is.
\<close>

lemma demo_m2r_success:
  assumes "\<not> src_buf + cnt * 4 - 1 < src_buf" and "cnt \<noteq> 0" and "cnt * 4 \<noteq> 0"
    and "unat reg mod 4 = 0" and "unat src_buf mod 4 = 0"
  shows "fst (run_state (alt_dma_memory_to_register (Suc 0) demo_dma 2 reg src_buf cnt 32 send_evt evt)
    dma_demo_state) = Some ALT_E_SUCCESS"
proof -
  have w: "width_ok 32 2" by (simp add: width_ok_def)
  have n: "cnt * push_bit 2 1 = cnt * 4" by (simp add: push_bit_eq_mult)
  show ?thesis
    unfolding alt_dma_memory_to_register_def alt_dma_memory_to_register_segment_def
    by (subst register_transfer_run[OF demo_ok(1,3) assms(2) w])
      (use assms(3-5) in \<open>simp_all only: n item_seg_def if_False demo_reg_success[OF assms(1) demo_reg]\<close>, simp_all)
qed

theorem memory_to_register_sends_witness:
  "(case run_state (alt_dma_memory_to_register (Suc 0) demo_dma 2 0xff200000 0x1004 37 32 True 1) dma_demo_state of
      (r, s') \<Rightarrow> r = Some ALT_E_SUCCESS \<and> performs (program s') (sends_bytes 0xff200000 0x1004 148)) \<and>
   (case run_state (alt_dma_memory_to_register (Suc 0) demo_dma 2 0xff200000 0x1004 0x40000001 32 True 1)
      dma_demo_state of
      (r, s') \<Rightarrow> r = Some ALT_E_SUCCESS \<and> performs (program s') (sends_bytes 0xff200000 0x1004 4))"
  using memory_to_register_sends[OF demo_ok, of 37 2 "0xff200000" "0x1004" 32 dma_demo_state 0 True 1]
    demo_m2r_success[of "0x1004" 37 "0xff200000" True 1]
    memory_to_register_sends[OF demo_ok, of "0x40000001" 2 "0xff200000" "0x1004" 32 dma_demo_state 0 True 1]
    demo_m2r_success[of "0x1004" "0x40000001" "0xff200000" True 1]
  by (simp add: starts_program_def split: prod.splits)

lemma register_to_memory_runs:
  assumes "weak_mmu E" and "assembler E calls" and "ccr_opts_ok (opts E)" and "cnt \<noteq> 0"
  shows "starts_when E calls channel (is_device src_reg)
    (receives_bytes dst_buf src_reg ((unat bits div 8 * unat cnt) mod 2 ^ 32)) s
    (run_state (alt_dma_register_to_memory (Suc fuel) E channel dst_buf src_reg cnt bits send_evt evt) s)"
proof (cases "\<exists>k. width_ok bits k \<and> unat src_reg mod 2 ^ k = 0 \<and> unat dst_buf mod 2 ^ k = 0")
  case False
  show ?thesis
    unfolding alt_dma_register_to_memory_def by (rule register_transfer_refused[OF assms(3,4) False])
next
  case True
  then obtain k where k: "width_ok bits k" "unat src_reg mod 2 ^ k = 0" "unat dst_buf mod 2 ^ k = 0"
    by (elim exE conjE)
  let ?n = "cnt * push_bit k 1"
  let ?seg = "item_seg (alt_dma_register_to_memory_segment E) k ?n"
  let ?f = "r2m_calls (opts E) (push_bit 1 (of_nat k) OR push_bit 15 (of_nat k))"
  let ?c = "if ?n = 0 then [] else ?f dst_buf (drop_bit k ?n)"
  have "emits calls (?seg pa n) (if ?n = 0 then [] else ?f pa (drop_bit k n))" for pa n
    by (rule item_seg_emits) (simp add: alt_dma_register_to_memory_segment_def emits_all[OF assms(2)])
  then have A: "assembles calls (reg_body E SAR ?seg src_reg dst_buf ?n) ([DMAMOV SAR src_reg] @ ?c)"
    by (rule reg_body_assembles[OF assms(2)])
  have "performs_when (is_device src_reg) (([DMAMOV SAR src_reg] @ ?c) @ closing False send_evt evt)
      (receives_bytes dst_buf src_reg ((2 ^ k * unat cnt) mod 2 ^ 32))"
  proof (cases "?n = 0")
    case True
    then show ?thesis using no_items_performs(2) item_bytes(1)[OF k(1), of cnt] by simp
  next
    case False
    then show ?thesis
      using r2m_performs[OF assms(3) k(1,3), of src_reg "drop_bit k ?n" False send_evt evt]
      by (simp only: item_bytes(2)[OF k(1)] if_False)
  qed
  then show ?thesis
    unfolding alt_dma_register_to_memory_def register_transfer_run[OF assms(1,3,4) k] width_bytes[OF k(1)]
    by (rule starts_whenI[OF assms(2) A])
qed

text \<open>
  C18: \<open>alt_dma_register_to_memory\<close>, with the default address translation and a count other
  than zero, always returns; on success it has started a program that, where the address is a
  device's register, reads \<open>width * cnt mod 2 ^ 32\<close> bytes from it and puts them, in order, at
  \<open>dst_buf\<close>, changing nothing else: all \<open>cnt\<close> items exactly when their bytes are fewer than
  \<open>2 ^ 32\<close>, and fewer of them otherwise, since the code computes the size in 32 bits.  A bad
  width, a misaligned address or any failure writes no register.
\<close>

theorem register_to_memory_receives:
  assumes "weak_mmu E" and "assembler E calls" and "ccr_opts_ok (opts E)" and "cnt \<noteq> 0"
  shows "starts_when E calls channel (is_device src_reg)
    (receives_bytes dst_buf src_reg ((unat bits div 8 * unat cnt) mod 2 ^ 32)) s
    (run_state (alt_dma_register_to_memory (Suc fuel) E channel dst_buf src_reg cnt bits send_evt evt) s)"
  by (rule register_to_memory_runs[OF assms])

lemma demo_r2m_success:
  assumes "\<not> dst_buf + cnt * 2 - 1 < dst_buf" and "cnt \<noteq> 0" and "cnt * 2 \<noteq> 0"
    and "unat reg mod 2 = 0" and "unat dst_buf mod 2 = 0"
  shows "fst (run_state (alt_dma_register_to_memory (Suc 0) demo_dma 2 dst_buf reg cnt 16 send_evt evt)
    dma_demo_state) = Some ALT_E_SUCCESS"
proof -
  have w: "width_ok 16 1" by (simp add: width_ok_def)
  have n: "cnt * push_bit 1 1 = cnt * 2" by (simp add: push_bit_eq_mult)
  show ?thesis
    unfolding alt_dma_register_to_memory_def alt_dma_register_to_memory_segment_def
    by (subst register_transfer_run[OF demo_ok(1,3) assms(2) w])
      (use assms(3-5) in \<open>simp_all only: n item_seg_def if_False demo_reg_success[OF assms(1) demo_reg]\<close>, simp_all)
qed

theorem register_to_memory_receives_witness:
  "case run_state (alt_dma_register_to_memory (Suc 0) demo_dma 2 0x1006 0xff200002 300 16 False 0) dma_demo_state of
     (r, s') \<Rightarrow> r = Some ALT_E_SUCCESS \<and> performs_when (is_device 0xff200002) (program s') (receives_bytes 0x1006 0xff200002 600)"
  using register_to_memory_receives[OF demo_ok, of 300 2 "0xff200002" "0x1006" 16 dma_demo_state 0 False 0]
    demo_r2m_success[of "0x1006" 300 "0xff200002" False 0]
  by (simp add: starts_when_def split: prod.splits)

section \<open>Limits\<close>

text \<open>
  The loops of every segment program fit the controller: at most two open at a
  time, each of 1 to 256 rounds, and all closed at the end.
\<close>

theorem segment_loops_fit:
  "loop_depth 0 (m2m_calls opt dst src sz) = Some 0 \<and> loop_depth 0 (z2m_calls opt buf sz) = Some 0 \<and>
   loop_depth 0 (m2r_calls opt msk src cnt) = Some 0 \<and> loop_depth 0 (r2m_calls opt msk dst cnt) = Some 0"
  by (simp only: m2m_calls_depth z2m_calls_depth register_calls_depth simp_thms)

definition one_at_1008 :: pl330 where
  "one_at_1008 = \<lparr> sar = 0, dar = 0, ccr = 0, mfifo = [], memory = (\<lambda>p. if p = 0x1008 then 1 else 0),
     reg_in = 0, reg_out = [], accesses = [], cells = {}, per_beat = False, room = (\<lambda>_. 0), request = None, credit = 0 \<rparr>"

lemma overlap_calls:
  "m2m_calls demo_opts 0x1008 0x1007 2 @ closing False False 0 =
     [DMAMOV SAR 0x1007, DMAMOV DAR 0x1008, DMAMOV CCR 0xe007801, DMALD, DMAST,
      DMAMOV CCR 0xe007801, DMALD, DMAST, DMAEND]"
  by (simp add: m2m_calls_def m2m_align_def ALT_MIN_def m2m_burst16_def m2m_burst_def ccr_copy_def
      sb_len_def db_len_def demo_opts_def closing_def Let_def)

lemma overlap_run:
  "map_option (\<lambda>m. memory m 0x1009)
     (run_program (\<lambda>p. 0) (m2m_calls demo_opts 0x1008 0x1007 2 @ closing False False 0) one_at_1008) = Some 0"
proof -
  have "src_inc 0xe007801" "src_size 0xe007801 = 1" "src_len 0xe007801 = 1"
    "dst_inc 0xe007801" "dst_size 0xe007801 = 1" "dst_len 0xe007801 = 1"
    by (simp_all add: src_inc_def src_size_def src_len_def dst_inc_def dst_size_def dst_len_def)
  then show ?thesis
    unfolding overlap_calls run_program_def
    by (simp add: closed_flat one_at_1008_def do_load_def do_store_def load_count_def store_count_def
        store_bytes_def bytes_at_def Let_def)
qed

text \<open>
  The overlap check misses regions that share exactly one byte, the last of the first
  and the first of the second: such a transfer is started, and it does not copy its source.
\<close>

theorem overlap_of_one_byte_missed:
  "case run_state (alt_dma_memory_to_memory (Suc 0) demo_dma 2 0x1008 0x1007 2 False 0) dma_demo_state of
     (r, s') \<Rightarrow> r = Some ALT_E_SUCCESS \<and> \<not> performs (program s') (copies_bytes 0x1008 0x1007 2)"
proof -
  let ?cs = "m2m_calls demo_opts 0x1008 0x1007 2"
  let ?run = "run_state (alt_dma_memory_to_memory (Suc 0) demo_dma 2 0x1008 0x1007 2 False 0) dma_demo_state"
  have no: "\<not> overlaps 0x1008 0x1007 2" by (simp add: overlaps_def)
  have "run_state (m2m_body demo_dma 0x1008 0x1007 2) dma_demo_state = (ALT_E_SUCCESS, dma_demo_state\<lparr> program := ?cs \<rparr>)"
    by (simp add: m2m_body_def demo_init alt_dma_memory_to_memory_segment_def demo_emit_all guarded_def)
      (simp add: demo_dma_def alt_mmu_va_to_pa_coalesce_begin_def demo_emit_all[unfolded demo_dma_def])
  moreover obtain s' where f: "run_state (finish_program demo_dma 2 True False 0 ALT_E_SUCCESS)
      (dma_demo_state\<lparr> program := ?cs \<rparr>) = (ALT_E_SUCCESS, s')"
    using dma_demo_finish[of "dma_demo_state\<lparr> program := ?cs \<rparr>" True False 0] demo_reg
    by (cases "run_state (finish_program demo_dma 2 True False 0 ALT_E_SUCCESS)
      (dma_demo_state\<lparr> program := ?cs \<rparr>)") auto
  ultimately have body: "run_state (do { st \<leftarrow> m2m_body demo_dma 0x1008 0x1007 2;
      finish_program demo_dma 2 True False 0 st }) dma_demo_state = (ALT_E_SUCCESS, s')" by simp
  have "program s' = m2m_calls (opts demo_dma) 0x1008 0x1007 2 @ closing True False 0"
    using finish_result[OF demo_ok(2) m2m_body_assembles[OF demo_ok(2)] body] by (simp add: transfer_result_def)
  then have p: "program s' = ?cs @ closing False False 0" by (simp add: demo_opts_eq closing_def)
  have "\<not> performs (program s') (copies_bytes 0x1008 0x1007 2)"
  proof
    assume "performs (program s') (copies_bytes 0x1008 0x1007 2)"
    moreover have "mfifo one_at_1008 = []" by (simp add: one_at_1008_def)
    ultimately obtain m' where "run_program (\<lambda>p. 0) (program s') one_at_1008 = Some m'"
      and "copies_bytes 0x1008 0x1007 2 (\<lambda>p. 0) one_at_1008 m'"
      unfolding performs_def by blast
    then show False
      using overlap_run by (simp add: p copies_bytes_def store_bytes_def one_at_1008_def)
  qed
  then show ?thesis
    using body by (simp add: m2m_driver_run[OF demo_ok(1) _ no])
qed

end
