(* ===== verification/Fpga_Dma.thy ===== *)
theory Fpga_Dma
  imports Fpga_Manager Dma_Driver
begin

text \<open>
  \<^verbatim>\<open>alt_fpga_manager.c\<close> built with \<open>ALT_FPGA_ENABLE_DMA_SUPPORT\<close>: the same configuration sequence,
  with the choice of sending the image through a DMA channel.  It is written over the state of
  the DMA driver; \<open>on_bus\<close> embeds the register accesses of \<^theory_text>\<open>Fpga_Manager\<close>.
\<close>

section \<open>Sending\<close>

text \<open>\<open>while (--i)\<close> with the counter at \<open>n + 1\<close>: at most \<open>n\<close> polls.\<close>

fun state_polls :: "('p, 'c) dma_env \<Rightarrow> nat \<Rightarrow> u32 \<Rightarrow> nat \<Rightarrow> ('p, status) dma" where
  "state_polls E channel state 0 = State_Monad.return ALT_E_TMO"
| "state_polls E channel state (Suc n) =
     do { (status, current) \<leftarrow> alt_dma_channel_state_get E channel;
          (if status \<noteq> ALT_E_SUCCESS then State_Monad.return status
           else if current = state then State_Monad.return status
           else state_polls E channel state n) }"

text \<open>The counter is unsigned: a count of 0 wraps around.\<close>

definition alt_dma_channel_wait_for_state :: "('p, 'c) dma_env \<Rightarrow> nat \<Rightarrow> u32 \<Rightarrow> u32 \<Rightarrow> ('p, status) dma" where
  "alt_dma_channel_wait_for_state E channel state cnt = state_polls E channel state (unat (cnt - 1))"

text \<open>
  \<open>use_dma\<close>: the channel, and the address the buffer has for the controller.  The DMA branch
  leaves \<open>cfg_buf_len\<close> as it is, so the tail that follows is that of the whole buffer.
\<close>

definition writeaxi_dma :: "nat \<Rightarrow> ('p, 'c) dma_env \<Rightarrow> nat \<Rightarrow> u32 \<Rightarrow> mem \<Rightarrow> u32 \<Rightarrow> ('p, status option) dma" where
  "writeaxi_dma fuel E channel va cfg_buf cfg_buf_len =
     do { r \<leftarrow> alt_dma_memory_to_register fuel E channel ALT_FPGAMGRDATA_ADDR va
                 (drop_bit 2 (cfg_buf_len + 3)) 32 False 0;
          (case r of
             None \<Rightarrow> State_Monad.return None
           | Some status \<Rightarrow>
               do { status \<leftarrow> (if status = ALT_E_SUCCESS
                      then alt_dma_channel_wait_for_state E channel ALT_DMA_CHANNEL_STATE_STOPPED cfg_buf_len
                      else State_Monad.return status);
                    (if status = ALT_E_SUCCESS \<and> cfg_buf_len AND 0x3 \<noteq> 0
                     then on_bus (pio_tail cfg_buf cfg_buf_len) else State_Monad.return ());
                    State_Monad.return (Some status) }) }"

type_synonym use_dma = "(nat \<times> u32) option"

definition internal_writeaxi ::
  "nat \<Rightarrow> ('p, 'c) dma_env \<Rightarrow> use_dma \<Rightarrow> mem \<Rightarrow> u32 \<Rightarrow> ('p, status option) dma" where
  "internal_writeaxi fuel E use_dma cfg_buf cfg_buf_len =
     (case use_dma of
        Some (channel, va) \<Rightarrow> writeaxi_dma fuel E channel va cfg_buf cfg_buf_len
      | None \<Rightarrow> do { status \<leftarrow> on_bus (alt_fpga_internal_writeaxi cfg_buf cfg_buf_len);
                     State_Monad.return (Some status) })"

section \<open>The sequence\<close>

lemma limit_shrinks:
  assumes "cb \<noteq> 0" and "\<not> data_limit < (cb :: u32)"
  shows "unat (data_limit - cb) < unat data_limit"
  using assms by (simp add: unat_sub word_le_nat_alt not_less unat_gt_0)
    (metis diff_less le_zero_eq not_gr_zero unat_eq_zero word_le_nat_alt)

function internal_istream ::
  "nat \<Rightarrow> ('p, 'c) dma_env \<Rightarrow> use_dma \<Rightarrow> 's istream \<Rightarrow> 's \<Rightarrow> u32 \<Rightarrow> ('p, status option) dma" where
  "internal_istream fuel E use_dma stream udata data_limit =
     (case stream ISTREAM_CHUNK_SIZE udata of ((cb_status, buffer), udata') \<Rightarrow>
        if ISTREAM_CHUNK_SIZE < cb_status then State_Monad.return (Some ALT_E_FPGA_CFG_STM)
        else if sint cb_status < 0 then State_Monad.return (Some ALT_E_FPGA_CFG_STM)
        else if cb_status = 0 then State_Monad.return (Some ALT_E_SUCCESS)
        else if data_limit < cb_status then State_Monad.return (Some ALT_E_FPGA_CFG_STM)
        else do { r \<leftarrow> internal_writeaxi fuel E use_dma buffer cb_status;
                  (case r of
                     None \<Rightarrow> State_Monad.return None
                   | Some status \<Rightarrow>
                       (if status \<noteq> ALT_E_SUCCESS then State_Monad.return (Some status)
                        else if 0 < sint cb_status
                             then internal_istream fuel E use_dma stream udata' (data_limit - cb_status)
                             else State_Monad.return (Some status))) })"
  by pat_completeness auto
termination
  by (relation "measure (\<lambda>(fuel, E, use_dma, stream, udata, data_limit). unat data_limit)")
    (auto simp: limit_shrinks)

declare internal_istream.simps [simp del]

definition internal_idata ::
  "nat \<Rightarrow> ('p, 'c) dma_env \<Rightarrow> use_dma \<Rightarrow> 's fpga_data \<Rightarrow> ('p, status option) dma" where
  "internal_idata fuel E use_dma fpga_data =
     (let data_limit = 32 * 1024 * 1024 in
      do { r \<leftarrow> (case fpga_data of
             FPGA_DATA_FULL buffer len \<Rightarrow>
               if data_limit < len then State_Monad.return (Some ALT_E_FPGA_CFG)
               else internal_writeaxi fuel E use_dma buffer len
           | FPGA_DATA_ISTREAM stream udata \<Rightarrow> internal_istream fuel E use_dma stream udata data_limit);
           (case r of
              None \<Rightarrow> State_Monad.return None
            | Some status \<Rightarrow>
                (if status \<noteq> ALT_E_SUCCESS then State_Monad.return (Some status)
                 else do { status \<leftarrow> on_bus (wait_for_config_done (regs E) ALT_FPGA_TMO_CONFIG);
                           State_Monad.return (Some
                             (if status \<noteq> ALT_E_SUCCESS
                              then if status = ALT_E_FPGA_CRC then ALT_E_FPGA_CRC
                                   else if status = ALT_E_TMO then ALT_E_FPGA_CFG
                                   else ALT_E_FPGA_CFG
                              else ALT_E_SUCCESS)) })) })"

definition internal_data ::
  "nat \<Rightarrow> ('p, 'c) dma_env \<Rightarrow> use_dma \<Rightarrow> 's fpga_data \<Rightarrow> u32 \<Rightarrow> ('p, status option) dma" where
  "internal_data fuel E use_dma fpga_data ctrl_reg =
     do { on_bus (alt_write_word ALT_FPGAMGR_MON_GPIO_PORTA_EOI_ADDR ALT_MON_GPIO_PORTA_EOI_NS_E_CLR);
          let ctrl_reg = ctrl_reg OR ALT_FPGAMGR_CTL_AXICFGEN_SET_MSK;
          on_bus (alt_write_word ALT_FPGAMGR_CTL_ADDR ctrl_reg);
          r \<leftarrow> internal_idata fuel E use_dma fpga_data;
          (case r of
             None \<Rightarrow> State_Monad.return None
           | Some data_status \<Rightarrow>
               do { let ctrl_reg = ctrl_reg AND ALT_FPGAMGR_CTL_AXICFGEN_CLR_MSK;
                    on_bus (alt_write_word ALT_FPGAMGR_CTL_ADDR ctrl_reg);
                    status \<leftarrow> on_bus (configure_finish (regs E) data_status);
                    State_Monad.return (Some status) }) }"

definition internal_reset ::
  "nat \<Rightarrow> ('p, 'c) dma_env \<Rightarrow> use_dma \<Rightarrow> 's fpga_data \<Rightarrow> u32 \<Rightarrow> ('p, status option) dma" where
  "internal_reset fuel E use_dma fpga_data ctrl_reg =
     do { on_bus (alt_write_word ALT_FPGAMGR_CTL_ADDR ctrl_reg);
          let ctrl_reg = ctrl_reg OR ALT_FPGAMGR_CTL_NCFGPULL_SET_MSK;
          on_bus (alt_write_word ALT_FPGAMGR_CTL_ADDR ctrl_reg);
          status \<leftarrow> on_bus (wait_for_fpga_state (regs E) ALT_FPGA_STATE_RESET ALT_FPGA_TMO_STATE);
          let ctrl_reg = ctrl_reg AND ALT_FPGAMGR_CTL_NCFGPULL_CLR_MSK;
          on_bus (alt_write_word ALT_FPGAMGR_CTL_ADDR ctrl_reg);
          (if status \<noteq> ALT_E_SUCCESS then State_Monad.return (Some ALT_E_FPGA_CFG)
           else do { status \<leftarrow> on_bus (wait_for_fpga_state (regs E) ALT_FPGA_STATE_CFG ALT_FPGA_TMO_STATE);
                     (if status \<noteq> ALT_E_SUCCESS then State_Monad.return (Some ALT_E_FPGA_CFG)
                      else internal_data fuel E use_dma fpga_data ctrl_reg) }) }"

definition internal_configure ::
  "nat \<Rightarrow> ('p, 'c) dma_env \<Rightarrow> use_dma \<Rightarrow> 's fpga_data \<Rightarrow> ('p, status option) dma" where
  "internal_configure fuel E use_dma fpga_data =
     do { en \<leftarrow> on_bus (alt_fpga_control_is_enabled (regs E));
          (if \<not> en then State_Monad.return (Some ALT_E_FPGA_NO_SOC_CTRL)
           else do { st \<leftarrow> on_bus (alt_fpga_state_get (regs E));
             (if st = ALT_FPGA_STATE_POWER_OFF then State_Monad.return (Some ALT_E_FPGA_PWR_OFF)
              else do { ctrl_reg \<leftarrow> on_bus (alt_read_word (regs E) ALT_FPGAMGR_CTL_ADDR);
                mode \<leftarrow> on_bus (alt_fpga_cfg_mode_get (regs E));
                (case cfg_width_ratio mode of
                   None \<Rightarrow> State_Monad.return (Some ALT_E_ERROR)
                 | Some (cfgwidth, cdratio) \<Rightarrow>
                     (case ctrl_for_mode cfgwidth cdratio ctrl_reg of
                        None \<Rightarrow> State_Monad.return (Some ALT_E_ERROR)
                      | Some ctrl_reg \<Rightarrow> internal_reset fuel E use_dma fpga_data ctrl_reg)) }) }) }"

text \<open>The two entry points the switch adds; \<open>va\<close> is the address of the buffer that is sent.\<close>

definition alt_fpga_configure_dma ::
  "nat \<Rightarrow> ('p, 'c) dma_env \<Rightarrow> u32 \<Rightarrow> mem \<Rightarrow> u32 \<Rightarrow> nat \<Rightarrow> ('p, status option) dma" where
  "alt_fpga_configure_dma fuel E va cfg_buf cfg_buf_len dma_channel =
     internal_configure fuel E (Some (dma_channel, va)) (FPGA_DATA_FULL cfg_buf cfg_buf_len :: unit fpga_data)"

definition alt_fpga_istream_configure_dma ::
  "nat \<Rightarrow> ('p, 'c) dma_env \<Rightarrow> u32 \<Rightarrow> 's istream \<Rightarrow> 's \<Rightarrow> nat \<Rightarrow> ('p, status option) dma" where
  "alt_fpga_istream_configure_dma fuel E va cfg_stream user_data dma_channel =
     internal_configure fuel E (Some (dma_channel, va)) (FPGA_DATA_ISTREAM cfg_stream user_data)"

section \<open>The build without a request for DMA\<close>

definition lifted :: "'a io \<Rightarrow> ('p, 'a option) dma" where
  "lifted m = do { x \<leftarrow> on_bus m; State_Monad.return (Some x) }"

lemma state_eqI: "(\<And>s. run_state m s = run_state n s) \<Longrightarrow> m = n"
  by (cases m; cases n) (simp add: fun_eq_iff)

lemma on_bus_morphism:
  "on_bus (State_Monad.return x) = State_Monad.return x"
  "on_bus (State_Monad.bind m f) = do { x \<leftarrow> on_bus m; on_bus (f x) }"
  by (rule state_eqI; simp add: on_bus_def split: prod.split)+

lemma lifted_simps:
  "lifted (State_Monad.return x) = State_Monad.return (Some x)"
  "lifted (State_Monad.bind m f) = do { x \<leftarrow> on_bus m; lifted (f x) }"
  "lifted (if b then m1 else m2) = (if b then lifted m1 else lifted m2)"
  "lifted (let x = y in g x) = (let x = y in lifted (g x))"
  "lifted (case z of None \<Rightarrow> m1 | Some v \<Rightarrow> h v) = (case z of None \<Rightarrow> lifted m1 | Some v \<Rightarrow> lifted (h v))"
  "lifted (case q of (u, v) \<Rightarrow> k u v) = (case q of (u, v) \<Rightarrow> lifted (k u v))"
  by (simp_all add: lifted_def on_bus_morphism split: option.split prod.split)

lemma after_lifted:
  "do { r \<leftarrow> lifted m; (case r of None \<Rightarrow> State_Monad.return None | Some x \<Rightarrow> f x) } = do { x \<leftarrow> on_bus m; f x }"
  by (simp add: lifted_def)

lemma writeaxi_lifted: "internal_writeaxi fuel E None buf len = lifted (alt_fpga_internal_writeaxi buf len)"
  by (simp add: internal_writeaxi_def lifted_def)

lemma istream_lifted:
  "internal_istream fuel E None stream udata data_limit = lifted (istream_loop stream udata data_limit)"
proof (induction stream udata data_limit rule: istream_loop.induct)
  case (1 stream udata data_limit)
  obtain cb buffer udata' where s: "stream ISTREAM_CHUNK_SIZE udata = ((cb, buffer), udata')"
    by (metis prod.collapse)
  show ?case
    using 1[OF s[symmetric] refl]
    by (subst internal_istream.simps, subst istream_loop.simps)
      (simp add: s lifted_simps writeaxi_lifted after_lifted cong: if_cong)
qed

lemma idata_lifted:
  "internal_idata fuel E None fpga_data = lifted (alt_fpga_internal_configure_idata (regs E) fpga_data)"
proof -
  have "(case fpga_data of
      FPGA_DATA_FULL buffer len \<Rightarrow> if 32 * 1024 * 1024 < len then State_Monad.return (Some ALT_E_FPGA_CFG)
        else internal_writeaxi fuel E None buffer len
    | FPGA_DATA_ISTREAM stream udata \<Rightarrow> internal_istream fuel E None stream udata (32 * 1024 * 1024)) =
    lifted (case fpga_data of
      FPGA_DATA_FULL buffer len \<Rightarrow> if 32 * 1024 * 1024 < len then State_Monad.return ALT_E_FPGA_CFG
        else alt_fpga_internal_writeaxi buffer len
    | FPGA_DATA_ISTREAM stream udata \<Rightarrow> istream_loop stream udata (32 * 1024 * 1024))"
    by (cases fpga_data) (simp_all add: lifted_simps writeaxi_lifted istream_lifted)
  then show ?thesis
    unfolding internal_idata_def alt_fpga_internal_configure_idata_def Let_def
    by (simp only: after_lifted lifted_simps)
qed

lemma data_lifted:
  "internal_data fuel E None fpga_data ctrl_reg = lifted (configure_data (regs E) fpga_data ctrl_reg)"
  unfolding internal_data_def configure_data_def Let_def idata_lifted lifted_simps after_lifted
  by (simp add: lifted_def)

lemma reset_lifted:
  "internal_reset fuel E None fpga_data ctrl_reg = lifted (configure_reset (regs E) fpga_data ctrl_reg)"
  unfolding internal_reset_def configure_reset_def Let_def
  by (simp add: lifted_simps data_lifted cong: if_cong)

text \<open>
  Built with DMA support, a configuration that does not ask for DMA is, step by step, the
  one of the default build: the same accesses in the same order and the same status, for a
  buffer and for a stream.
\<close>

theorem dma_build_same_without_dma:
  "internal_configure fuel E None fpga_data =
     do { status \<leftarrow> on_bus (alt_fpga_internal_configure (regs E) fpga_data); State_Monad.return (Some status) }"
proof -
  have "internal_configure fuel E None fpga_data = lifted (alt_fpga_internal_configure (regs E) fpga_data)"
    unfolding internal_configure_def alt_fpga_internal_configure_def
    by (simp add: lifted_simps reset_lifted cong: if_cong option.case_cong)
  then show ?thesis by (simp add: lifted_def)
qed

section \<open>The image through the DMA channel\<close>

lemma state_polls_frame:
  assumes "run_state (state_polls E channel state n) s = (r, s')"
  shows "writes (bus s') = writes (bus s) \<and> program s' = program s"
  using assms
proof (induction n arbitrary: s)
  case (Suc n)
  obtain st cur s1 where g: "run_state (alt_dma_channel_state_get E channel) s = ((st, cur), s1)"
    by (metis prod.exhaust)
  then have "writes (bus s1) = writes (bus s)" "program s1 = program s"
    by (auto simp: alt_dma_channel_state_get_def bus_simps split: if_splits)
  with Suc g show ?case by (auto split: if_splits)
qed simp

text \<open>The last bytes of a buffer, as the tail code writes them.\<close>

definition tail_write :: "mem \<Rightarrow> u32 \<Rightarrow> (addr \<times> u32) list" where
  "tail_write buf len =
     (if len AND 0x3 = 0 then []
      else [(ALT_FPGAMGRDATA_ADDR, word_at buf (unat (len AND NOT 0x3)) AND mask (8 * unat (len AND 0x3)))])"

lemma tail_step:
  fixes r :: u32
  assumes "unat r = k" and "k < 4" and "r \<noteq> 0"
  shows "run_state (on_bus
      (if r = 3 then alt_write_word a (v AND 0x00ffffff)
       else if r = 2 then alt_write_word a (v AND 0x0000ffff)
       else if r = 1 then alt_write_word a (v AND 0x000000ff) else State_Monad.return ())) s =
    ((), s\<lparr> bus := bus s @ [Wr a (v AND mask (8 * k))] \<rparr>)"
  using assms(1,2) by (rule small_word_cases) (use assms(3) in \<open>simp_all add: on_bus_def bus_simps mask_eq_exp_minus_1\<close>)

lemma pio_tail_run:
  assumes "len AND 0x3 \<noteq> 0"
  shows "run_state (on_bus (pio_tail buf len)) s =
    ((), s\<lparr> bus := bus s @ map (\<lambda>(a, v). Wr a v) (tail_write buf len) \<rparr>)"
proof -
  have "len AND 0x3 \<le> 0x3" by (rule word_and_le1)
  then have "unat (len AND 0x3) < 4" by (simp add: word_le_nat_alt)
  note T = tail_step[OF refl this assms]
  show ?thesis
    unfolding pio_tail_def tail_write_def Let_def T using assms by simp
qed

lemma writes_tail_map [simp]: "writes (map (\<lambda>(a, v). Wr a v) ws) = ws"
  by (induction ws) auto

text \<open>
  C34: sending a buffer of 1 to \<open>2 ^ 32 - 4\<close> bytes through DMA (with the default address
  translation) always returns.  On success it has started a program that moves the whole words of the buffer, the last one
  filled up with the bytes behind it, in order to the data register; if the length is no
  multiple of four it then writes the last bytes to the register once more.  On failure nothing
  but the start of that program has been written.
\<close>

theorem writeaxi_dma_sends:
  assumes "weak_mmu E" and "assembler E calls" and "ccr_opts_ok (opts E)"
    and "len \<noteq> 0" and "unat len + 3 < 2 ^ 32"
  shows "case run_state (writeaxi_dma (Suc fuel) E channel va buf len) s of (r, s') \<Rightarrow>
    r \<noteq> None \<and>
    (if r = Some ALT_E_SUCCESS
     then performs (calls (program s')) (sends_bytes ALT_FPGAMGRDATA_ADDR va (4 * ((unat len + 3) div 4))) \<and>
       writes (bus s') = writes (bus s) @ start_writes E channel (program s') @ tail_write buf len
     else writes (bus s') = writes (bus s) \<or>
       writes (bus s') = writes (bus s) @ start_writes E channel (program s'))"
proof -
  let ?cnt = "drop_bit 2 (len + 3)"
  have u: "unat (len + 3) = unat len + 3" using assms(5) by (simp add: unat_add_lem [THEN iffD1])
  then have cnt: "unat ?cnt = (unat len + 3) div 4" by (simp add: unat_drop)
  have "0 < unat len" using assms(4) by (simp add: unat_gt_0)
  then have "unat ?cnt \<noteq> 0" unfolding cnt by simp
  then have c0: "?cnt \<noteq> 0" by (metis unat_0)
  obtain r1 s1 where t: "run_state (alt_dma_memory_to_register (Suc fuel) E channel ALT_FPGAMGRDATA_ADDR va ?cnt 32
      False 0) s = (r1, s1)" by force
  have b: "(unat (32 :: u32) div 8 * unat ?cnt) mod 2 ^ 32 = 4 * ((unat len + 3) div 4)"
    unfolding cnt using assms(5) by simp
  note T = memory_to_register_runs[OF assms(1-3) c0, of channel ALT_FPGAMGRDATA_ADDR va 32 s fuel False 0,
      unfolded t starts_program_def b prod.case]
  show ?thesis
  proof (cases "r1 = Some ALT_E_SUCCESS")
    case False
    then obtain st where "r1 = Some st" "st \<noteq> ALT_E_SUCCESS" "writes (bus s1) = writes (bus s)"
      using T by (cases r1) auto
    then show ?thesis using t by (simp add: writeaxi_dma_def)
  next
    case True
    obtain st s2 where w: "run_state (alt_dma_channel_wait_for_state E channel ALT_DMA_CHANNEL_STATE_STOPPED len) s1 =
        (st, s2)" by force
    have f: "writes (bus s2) = writes (bus s1)" "program s2 = program s1"
      using state_polls_frame[OF w[unfolded alt_dma_channel_wait_for_state_def]] by simp_all
    have T: "performs (calls (program s1)) (sends_bytes ALT_FPGAMGRDATA_ADDR va (4 * ((unat len + 3) div 4)))"
      "writes (bus s1) = writes (bus s) @ start_writes E channel (program s1)"
      using T True by simp_all
    show ?thesis
    proof (cases "st = ALT_E_SUCCESS \<and> len AND 0x3 \<noteq> 0")
      case tail: True
      then show ?thesis
        using t True w f T pio_tail_run[of len buf s2] by (simp add: writeaxi_dma_def)
    next
      case False
      then show ?thesis
        using t True w f T by (auto simp: writeaxi_dma_def tail_write_def)
    qed
  qed
qed

lemma demo_image_transfer:
  "fst (run_state (alt_dma_memory_to_register (Suc 0) demo_dma 2 ALT_FPGAMGRDATA_ADDR 0x1004 2 32 False 0)
    dma_demo_state) = Some ALT_E_SUCCESS"
  by (rule demo_m2r_success) (simp_all add: ALT_FPGAMGRDATA_ADDR_def)

lemma demo_stopped: "run_state (alt_dma_channel_wait_for_state demo_dma 2 ALT_DMA_CHANNEL_STATE_STOPPED 7) s =
    (ALT_E_SUCCESS, s\<lparr> bus := bus s @ [Rd (ALT_DMA_CSRx_ADDR 0xffe01000 2) 0] \<rparr>)"
proof -
  have v: "valid_channel 2" by (simp add: valid_channel_iff)
  have n: "unat ((7 :: u32) - 1) = Suc 5" by simp
  have e: "regs demo_dma h a = 0" "secure_base demo_dma = 0xffe01000" for h a by (simp_all add: demo_dma_def)
  show ?thesis
    unfolding alt_dma_channel_wait_for_state_def n state_polls.simps
    by (simp add: channel_state_run[OF v] e ALT_DMA_CSRx_CHANNELSTATUS_GET_def)
qed

theorem writeaxi_dma_sends_witness:
  "case run_state (writeaxi_dma (Suc 0) demo_dma 2 0x1004 (\<lambda>a. of_nat a) 7) dma_demo_state of (r, s') \<Rightarrow>
     r = Some ALT_E_SUCCESS \<and>
     performs (program s') (sends_bytes ALT_FPGAMGRDATA_ADDR 0x1004 8) \<and>
     writes (bus s') = start_writes demo_dma 2 (program s') @ [(ALT_FPGAMGRDATA_ADDR, 0x060504)]"
proof -
  have c: "drop_bit 2 ((7 :: u32) + 3) = 2" by simp
  obtain s1 where "run_state (alt_dma_memory_to_register (Suc 0) demo_dma 2 ALT_FPGAMGRDATA_ADDR 0x1004
      (drop_bit 2 (7 + 3)) 32 False 0) dma_demo_state = (Some ALT_E_SUCCESS, s1)"
    using demo_image_transfer unfolding c by (metis prod.collapse)
  then have "fst (run_state (writeaxi_dma (Suc 0) demo_dma 2 0x1004 (\<lambda>a. of_nat a) 7) dma_demo_state) =
      Some ALT_E_SUCCESS"
    by (simp add: writeaxi_dma_def demo_stopped pio_tail_run)
  moreover have "tail_write (\<lambda>a. of_nat a) 7 = [(ALT_FPGAMGRDATA_ADDR, 0x060504)]"
    by (simp add: tail_write_def word_at_def le32_def mask_eq_exp_minus_1)
  ultimately show ?thesis
    using writeaxi_dma_sends[OF demo_ok, where len = 7 and channel = 2 and va = "0x1004" and buf = "\<lambda>a. of_nat a" and s = dma_demo_state and fuel = 0]
    by (auto simp: dma_demo_state_def split: prod.splits)
qed

end
