(* ===== verification/Dma_Periph.thy ===== *)
theory Dma_Periph
  imports Dma_Program "HOL-Library.Signed_Division"
begin

text \<open>
  The peripheral transfers of \<^verbatim>\<open>alt_dma.c\<close>, lines 2621 to 5728: UART (16550), QSPI flash and I2C,
  in both directions, and the two entry points that dispatch on the peripheral.  As in
  \<^theory_text>\<open>Dma_Program\<close> a segment is the list of its assembler calls.

  The registers and constants of the peripherals come from headers outside the repository and
  are the fields of \<open>periph_env\<close>; \<open>ram\<close> is the processor's view of the memory the driver reads.
\<close>

section \<open>Parameters\<close>

datatype uart_tx_trigger =
    ALT_16550_FIFO_TRIGGER_TX_EMPTY | ALT_16550_FIFO_TRIGGER_TX_ALMOST_EMPTY
  | ALT_16550_FIFO_TRIGGER_TX_QUARTER_FULL | ALT_16550_FIFO_TRIGGER_TX_HALF_FULL

datatype uart_rx_trigger =
    ALT_16550_FIFO_TRIGGER_RX_ANY | ALT_16550_FIFO_TRIGGER_RX_QUARTER_FULL
  | ALT_16550_FIFO_TRIGGER_RX_HALF_FULL | ALT_16550_FIFO_TRIGGER_RX_ALMOST_FULL

record periph_env =
  ram :: "u32 \<Rightarrow> byte"
  UART_RBR_THR_DLL_ADDR :: "addr \<Rightarrow> addr"
  UART_CPR_ADDR :: "addr \<Rightarrow> addr"
  UART_CPR_FIFO_MOD_GET :: "u32 \<Rightarrow> u32"
  UART_FCR_FIFOE_GET :: "u32 \<Rightarrow> u32"
  UART_FCR_TET_GET :: "u32 \<Rightarrow> uart_tx_trigger option"
  UART_FCR_RT_GET :: "u32 \<Rightarrow> uart_rx_trigger option"
  QSPIDATA_ADDR :: addr
  QSPI_DMAPER_ADDR :: addr
  QSPI_NUMSGLREQBYTES_GET :: "u32 \<Rightarrow> u32"
  QSPI_NUMBURSTREQBYTES_GET :: "u32 \<Rightarrow> u32"
  I2C_CON_ADDR :: "addr \<Rightarrow> addr"
  I2C_CON_MST_MOD_GET :: "u32 \<Rightarrow> u32"
  I2C_MODE_MASTER :: u32
  I2C_DATA_CMD_ADDR :: "addr \<Rightarrow> addr"
  I2C_TX_TL_ADDR :: "addr \<Rightarrow> addr"
  I2C_TX_TL_GET :: "u32 \<Rightarrow> u32"
  I2C_RX_TL_ADDR :: "addr \<Rightarrow> addr"
  I2C_RX_TL_GET :: "u32 \<Rightarrow> u32"
  I2C_RX_FIFO_NUM_ENTRIES :: u32
  I2C_TX_FIFO_NUM_ENTRIES :: u32
  I2C_DATA_CMD_DAT_SET :: "u32 \<Rightarrow> u32"
  I2C_DATA_CMD_RESTART_SET :: "u32 \<Rightarrow> u32"
  I2C_DATA_CMD_STOP_SET :: "u32 \<Rightarrow> u32"
  I2C_DATA_CMD_CMD_SET :: "u32 \<Rightarrow> u32"
  I2C_DATA_CMD_CMD_E_RD :: u32

record uart_handle =
  location :: addr
  fcr :: u32

record i2c_info =
  i2c_location :: addr
  issue_restart :: bool
  issue_stop :: bool
  scratch_va :: u32

text \<open>The caller's \<open>void *\<close>, seen as what the peripheral takes it for.\<close>

record periph_info =
  as_16550 :: uart_handle
  as_i2c :: i2c_info

section \<open>Shared pieces\<close>

text \<open>\<open>ldiv\<close> on the node: 32-bit signed division, truncating; its arguments are converted from unsigned.\<close>

definition ldiv :: "u32 \<Rightarrow> u32 \<Rightarrow> u32 \<times> u32" where
  "ldiv a b = (word_of_int (sint a sdiv sint b), word_of_int (sint a smod sint b))"

text \<open>\<open>n\<close> rounds of \<open>body\<close> in loops of at most 256, each closed by \<open>fin\<close>.\<close>

function counted_loops :: "dma_call list \<Rightarrow> dma_call \<Rightarrow> u32 \<Rightarrow> dma_call list" where
  "counted_loops body fin n =
     (if n > 0
      then let loopcount = ALT_MIN n 256
           in if_looped loopcount (DMALP loopcount) @ body @ if_looped loopcount fin @
              counted_loops body fin (n - loopcount)
      else [])"
  by pat_completeness auto
termination
proof (relation "measure (\<lambda>(body, fin, n). unat n)")
  fix body :: "dma_call list" and fin and n loopcount :: u32
  assume "0 < n" and "loopcount = ALT_MIN n 256"
  then have "loopcount \<le> n" and "0 < loopcount" by (auto simp: ALT_MIN_def)
  then show "((body, fin, n - loopcount), body, fin, n) \<in> measure (\<lambda>(body, fin, n). unat n)"
    by (simp add: unat_sub word_le_nat_alt word_less_nat_alt)
qed simp

declare counted_loops.simps [simp del]

text \<open>The channel control words of the I2C and QSPI transfers, to and from a peripheral.\<close>

definition ccr_periph_out :: "ccr_opts \<Rightarrow> u32 \<Rightarrow> u32 \<Rightarrow> u32 \<Rightarrow> u32 \<Rightarrow> u32 \<Rightarrow> u32" where
  "ccr_periph_out opt sa ss sb sc ds =
     sa OR ss OR sb OR SP_DEFAULT opt OR sc OR DAF opt OR ds OR DB1 opt OR
     DP_DEFAULT opt OR DC_DEFAULT opt OR ES_DEFAULT opt"

definition ccr_periph_in :: "ccr_opts \<Rightarrow> u32 \<Rightarrow> u32 \<Rightarrow> u32 \<Rightarrow> u32" where
  "ccr_periph_in opt ss ds db =
     SAF opt OR ss OR SB1 opt OR SP_DEFAULT opt OR SC_DEFAULT opt OR DAI opt OR ds OR db OR
     DP_DEFAULT opt OR DC opt 7 OR ES_DEFAULT opt"

text \<open>One request granted, and one item moved for it.\<close>

definition wait_for :: "dma_periph \<Rightarrow> dma_mod \<Rightarrow> dma_call list" where
  "wait_for periph k = [DMAFLUSHP periph, DMAWFP periph k]"

definition move_single :: "dma_periph \<Rightarrow> dma_call list" where
  "move_single periph = wait_for periph INST_MOD_SINGLE @ [DMALDx INST_MOD_SINGLE, DMASTx INST_MOD_SINGLE]"

text \<open>The coalescing loop of every peripheral transfer; \<open>seg\<close> assembles one segment.\<close>

definition over_segments ::
  "nat \<Rightarrow> ('p, 'c) dma_env \<Rightarrow> (u32 \<Rightarrow> u32 \<Rightarrow> ('p, status) dma) \<Rightarrow> u32 \<Rightarrow> u32 \<Rightarrow> status \<Rightarrow>
   ('p, status option) dma" where
  "over_segments fuel E seg buf sz status =
     do { let (st, c) = coalesce_begin E buf sz;
          r \<leftarrow> segments fuel E seg sz (if status = ALT_E_SUCCESS then st else status) c;
          State_Monad.return
            (case r of None \<Rightarrow> None
             | Some (status, c) \<Rightarrow> Some (if status = ALT_E_SUCCESS then coalesce_end E c else status)) }"

section \<open>UART\<close>

definition to_16550_single :: "ccr_opts \<Rightarrow> dma_periph \<Rightarrow> u32 \<Rightarrow> dma_call list" where
  "to_16550_single opt periph segsize =
     DMAMOV CCR (ccr_to_reg opt (SS8 opt OR DS8 opt) (SB1 opt) (DB1 opt)) #
     counted_loops (move_single periph) (DMALPENDx INST_MOD_SINGLE) segsize"

definition from_16550_single :: "ccr_opts \<Rightarrow> dma_periph \<Rightarrow> u32 \<Rightarrow> dma_call list" where
  "from_16550_single opt periph segsize =
     DMAMOV CCR (ccr_from_reg opt (SS8 opt OR DS8 opt) (SB1 opt) (DB1 opt)) #
     counted_loops (move_single periph) (DMALPENDx INST_MOD_SINGLE) segsize"

text \<open>The burst segments: one request moves \<open>burst_size\<close> bytes, 16 at a time.\<close>

definition uart_burst :: "dma_periph \<Rightarrow> u32 \<Rightarrow> dma_call list" where
  "uart_burst periph burst_size =
     wait_for periph INST_MOD_BURST @
     [DMALP (drop_bit 4 burst_size), DMALDx INST_MOD_BURST, DMASTx INST_MOD_BURST,
      DMALPENDx INST_MOD_BURST]"

definition to_16550_burst :: "ccr_opts \<Rightarrow> dma_periph \<Rightarrow> u32 \<Rightarrow> u32 \<Rightarrow> dma_call list" where
  "to_16550_burst opt periph burst_size burst_count =
     DMAMOV CCR (ccr_to_reg opt (SS8 opt OR DS8 opt) (SB16 opt) (DB16 opt)) #
     counted_loops (uart_burst periph burst_size) (DMALPENDx INST_MOD_BURST) burst_count"

definition from_16550_burst :: "ccr_opts \<Rightarrow> dma_periph \<Rightarrow> u32 \<Rightarrow> u32 \<Rightarrow> dma_call list" where
  "from_16550_burst opt periph burst_size burst_count =
     DMAMOV CCR (ccr_from_reg opt (SS8 opt OR DS8 opt) (SB16 opt) (DB16 opt)) #
     counted_loops (uart_burst periph burst_size) (DMALPENDx INST_MOD_BURST) burst_count"

definition alt_dma_memory_to_16550_single ::
  "nat \<Rightarrow> ('p, 'c) dma_env \<Rightarrow> dma_periph \<Rightarrow> u32 \<Rightarrow> u32 \<Rightarrow> ('p, status option) dma" where
  "alt_dma_memory_to_16550_single fuel E periph src sz =
     over_segments fuel E
       (\<lambda>segpa segsize. emit_all E (DMAMOV SAR segpa # to_16550_single (opts E) periph segsize))
       src sz ALT_E_SUCCESS"

definition alt_dma_16550_to_memory_single ::
  "nat \<Rightarrow> ('p, 'c) dma_env \<Rightarrow> dma_periph \<Rightarrow> u32 \<Rightarrow> u32 \<Rightarrow> ('p, status option) dma" where
  "alt_dma_16550_to_memory_single fuel E periph dst sz =
     over_segments fuel E
       (\<lambda>segpa segsize. emit_all E (DMAMOV DAR segpa # from_16550_single (opts E) periph segsize))
       dst sz ALT_E_SUCCESS"

definition to_16550_calls :: "ccr_opts \<Rightarrow> dma_periph \<Rightarrow> u32 \<Rightarrow> u32 \<Rightarrow> u32 \<Rightarrow> dma_call list" where
  "to_16550_calls opt periph burst_size segpa segsize =
     (case ldiv segsize burst_size of (burst_count, sizeleft) \<Rightarrow>
        [DMAMOV SAR segpa] @
        (if burst_count \<noteq> 0 then to_16550_burst opt periph burst_size burst_count else []) @
        (if sizeleft \<noteq> 0 then to_16550_single opt periph sizeleft else []))"

definition from_16550_calls :: "ccr_opts \<Rightarrow> dma_periph \<Rightarrow> u32 \<Rightarrow> u32 \<Rightarrow> u32 \<Rightarrow> dma_call list" where
  "from_16550_calls opt periph burst_size segpa segsize =
     (case ldiv segsize burst_size of (burst_count, sizeleft) \<Rightarrow>
        [DMAMOV DAR segpa] @
        (if burst_count \<noteq> 0 then from_16550_burst opt periph burst_size burst_count else []) @
        (if sizeleft \<noteq> 0 then from_16550_single opt periph sizeleft else []))"

definition alt_dma_memory_to_16550_burst ::
  "nat \<Rightarrow> ('p, 'c) dma_env \<Rightarrow> dma_periph \<Rightarrow> u32 \<Rightarrow> u32 \<Rightarrow> u32 \<Rightarrow> ('p, status option) dma" where
  "alt_dma_memory_to_16550_burst fuel E periph burst_size src sz =
     over_segments fuel E (\<lambda>pa n. emit_all E (to_16550_calls (opts E) periph burst_size pa n))
       src sz ALT_E_SUCCESS"

definition alt_dma_16550_to_memory_burst ::
  "nat \<Rightarrow> ('p, 'c) dma_env \<Rightarrow> dma_periph \<Rightarrow> u32 \<Rightarrow> u32 \<Rightarrow> u32 \<Rightarrow> ('p, status option) dma" where
  "alt_dma_16550_to_memory_burst fuel E periph burst_size dst sz =
     over_segments fuel E (\<lambda>pa n. emit_all E (from_16550_calls (opts E) periph burst_size pa n))
       dst sz ALT_E_SUCCESS"

text \<open>The burst size for a trigger level and a FIFO size.\<close>

definition tx_burst_size :: "uart_tx_trigger \<Rightarrow> u32 \<Rightarrow> u32" where
  "tx_burst_size t tx_size = (case t of
     ALT_16550_FIFO_TRIGGER_TX_EMPTY \<Rightarrow> tx_size
   | ALT_16550_FIFO_TRIGGER_TX_ALMOST_EMPTY \<Rightarrow> tx_size - 2
   | ALT_16550_FIFO_TRIGGER_TX_QUARTER_FULL \<Rightarrow> 3 * drop_bit 2 tx_size
   | ALT_16550_FIFO_TRIGGER_TX_HALF_FULL \<Rightarrow> drop_bit 1 tx_size)"

definition rx_burst_size :: "uart_rx_trigger \<Rightarrow> u32 \<Rightarrow> u32" where
  "rx_burst_size t rx_size = (case t of
     ALT_16550_FIFO_TRIGGER_RX_ANY \<Rightarrow> 1
   | ALT_16550_FIFO_TRIGGER_RX_QUARTER_FULL \<Rightarrow> drop_bit 2 rx_size
   | ALT_16550_FIFO_TRIGGER_RX_HALF_FULL \<Rightarrow> drop_bit 1 rx_size
   | ALT_16550_FIFO_TRIGGER_RX_ALMOST_FULL \<Rightarrow> rx_size - 2)"

text \<open>A call made only while the status is a success; the option is for the fuel of the loops.\<close>

definition guarded_opt :: "status \<Rightarrow> ('p, status option) dma \<Rightarrow> ('p, status option) dma" where
  "guarded_opt status m = (if status = ALT_E_SUCCESS then m else State_Monad.return (Some status))"

definition alt_dma_memory_to_16550 ::
  "nat \<Rightarrow> ('p, 'c) dma_env \<Rightarrow> periph_env \<Rightarrow> dma_periph \<Rightarrow> uart_handle \<Rightarrow> u32 \<Rightarrow> u32 \<Rightarrow>
   ('p, status option) dma" where
  "alt_dma_memory_to_16550 fuel E P periph handle src sz =
     do { status \<leftarrow> emit E (DMAMOV DAR (UART_RBR_THR_DLL_ADDR P (location handle)));
          (if UART_FCR_FIFOE_GET P (fcr handle) \<noteq> 0
           then do {
             cpr \<leftarrow> on_bus (alt_read_word (regs E) (UART_CPR_ADDR P (location handle)));
             let tx_size = push_bit 4 (UART_CPR_FIFO_MOD_GET P cpr);
             (case UART_FCR_TET_GET P (fcr handle) of
                None \<Rightarrow> State_Monad.return (Some ALT_E_ERROR)
              | Some t \<Rightarrow>
                  let burst_size = tx_burst_size t tx_size
                  in if burst_size < 16
                     then guarded_opt status (alt_dma_memory_to_16550_single fuel E periph src sz)
                     else guarded_opt status (alt_dma_memory_to_16550_burst fuel E periph
                            (burst_size AND NOT 0xf) src sz)) }
           else guarded_opt status (alt_dma_memory_to_16550_single fuel E periph src sz)) }"

definition alt_dma_16550_to_memory ::
  "nat \<Rightarrow> ('p, 'c) dma_env \<Rightarrow> periph_env \<Rightarrow> dma_periph \<Rightarrow> uart_handle \<Rightarrow> u32 \<Rightarrow> u32 \<Rightarrow>
   ('p, status option) dma" where
  "alt_dma_16550_to_memory fuel E P periph handle dst sz =
     do { status \<leftarrow> emit E (DMAMOV SAR (UART_RBR_THR_DLL_ADDR P (location handle)));
          (if UART_FCR_FIFOE_GET P (fcr handle) \<noteq> 0
           then do {
             cpr \<leftarrow> on_bus (alt_read_word (regs E) (UART_CPR_ADDR P (location handle)));
             let rx_size = push_bit 4 (UART_CPR_FIFO_MOD_GET P cpr);
             (case UART_FCR_RT_GET P (fcr handle) of
                None \<Rightarrow> State_Monad.return (Some ALT_E_ERROR)
              | Some t \<Rightarrow>
                  let burst_size = rx_burst_size t rx_size
                  in if burst_size < 16
                     then guarded_opt status (alt_dma_16550_to_memory_single fuel E periph dst sz)
                     else guarded_opt status (alt_dma_16550_to_memory_burst fuel E periph
                            (burst_size AND NOT 0xf) dst sz)) }
           else guarded_opt status (alt_dma_16550_to_memory_single fuel E periph dst sz)) }"

section \<open>QSPI\<close>

text \<open>
  How an item of \<open>2 ^ n\<close> bytes is moved on the memory side: the logarithm of the beat size, at
  most the 8 bytes of the bus, the beats of a burst, and how many bursts.
\<close>

definition qspi_size :: "u32 \<Rightarrow> u32" where "qspi_size size_log2 = push_bit (unat size_log2) 1"

definition qspi_beats :: "u32 \<Rightarrow> u32 \<times> u32 \<times> u32" where
  "qspi_beats size_log2 =
     (let mem_log2 = ALT_MIN 3 size_log2;
          beats = drop_bit (unat mem_log2) (qspi_size size_log2)
      in if beats \<le> 16 then (mem_log2, beats, 1) else (mem_log2, 16, drop_bit 4 beats))"

definition qspi_align :: "u32 \<Rightarrow> dma_periph \<Rightarrow> u32 \<Rightarrow> u32 \<Rightarrow> dma_call list \<times> u32" where
  "qspi_align ccr periph segpa segsize =
     (if segpa AND 0x7 \<noteq> 0 then (DMAMOV CCR ccr # move_single periph, segsize - 4) else ([], segsize))"

text \<open>The numbers of burst and of single requests for the size that is left.\<close>

definition qspi_counts :: "u32 \<Rightarrow> u32 \<Rightarrow> u32 \<Rightarrow> u32 \<times> u32" where
  "qspi_counts single_log2 burst_log2 segsize =
     (let burst_count = drop_bit (unat burst_log2) segsize
      in if burst_log2 > single_log2 \<and> burst_count \<noteq> 0
         then (burst_count, drop_bit (unat single_log2) (segsize AND (qspi_size burst_log2 - 1)))
         else (0, drop_bit (unat single_log2) segsize))"

definition to_qspi_item :: "dma_mod \<Rightarrow> u32 \<Rightarrow> u32 \<Rightarrow> dma_call list" where
  "to_qspi_item k src_multiple size_log2 =
     wait_for ALT_DMA_PERIPH_QSPI_FLASH_TX k @ replicate (unat src_multiple) (DMALDx k) @
     replicate (unat (drop_bit 2 (qspi_size size_log2))) (DMASTx k)"

definition from_qspi_item :: "dma_mod \<Rightarrow> u32 \<Rightarrow> u32 \<Rightarrow> dma_call list" where
  "from_qspi_item k dst_multiple size_log2 =
     wait_for ALT_DMA_PERIPH_QSPI_FLASH_RX k @
     replicate (unat (drop_bit 2 (qspi_size size_log2))) (DMALDx k) @
     replicate (unat dst_multiple) (DMASTx k)"

text \<open>One phase, of burst or of single requests; the burst one caches its source (\<open>SC(7)\<close>), the single one does not.\<close>

definition to_qspi_phase :: "ccr_opts \<Rightarrow> dma_mod \<Rightarrow> u32 \<Rightarrow> u32 \<Rightarrow> dma_call list" where
  "to_qspi_phase opt k size_log2 cnt =
     (if cnt = 0 then []
      else case qspi_beats size_log2 of (src_log2, src_length, src_multiple) \<Rightarrow>
        DMAMOV CCR (ccr_periph_out opt (SAI opt) (push_bit 1 src_log2) (sb_len src_length)
          (if k = INST_MOD_BURST then SC opt 7 else SC_DEFAULT opt) (DS32 opt)) #
        counted_loops (to_qspi_item k src_multiple size_log2) DMALPEND cnt)"

definition from_qspi_phase :: "ccr_opts \<Rightarrow> dma_mod \<Rightarrow> u32 \<Rightarrow> u32 \<Rightarrow> dma_call list" where
  "from_qspi_phase opt k size_log2 cnt =
     (if cnt = 0 then []
      else case qspi_beats size_log2 of (dst_log2, dst_length, dst_multiple) \<Rightarrow>
        let item = from_qspi_item k dst_multiple size_log2
        in [DMAMOV CCR (ccr_periph_in opt (SS32 opt) (push_bit 15 dst_log2) (db_len dst_length))] @
           (if drop_bit 8 cnt \<noteq> 0
            then counted_loops (DMALP 256 # item @ [DMALPEND]) DMALPEND (drop_bit 8 cnt) else []) @
           counted_loops item DMALPEND (if drop_bit 8 cnt \<noteq> 0 then cnt AND (push_bit 8 1 - 1) else cnt))"

definition to_qspi_calls :: "ccr_opts \<Rightarrow> u32 \<Rightarrow> u32 \<Rightarrow> u32 \<Rightarrow> u32 \<Rightarrow> dma_call list" where
  "to_qspi_calls opt single_log2 burst_log2 segsrcpa segsize =
     (case qspi_align (ccr_periph_out opt (SAI opt) (SS32 opt) (SB1 opt) (SC opt 7) (DS32 opt))
        ALT_DMA_PERIPH_QSPI_FLASH_TX segsrcpa segsize of (align, sizeleft) \<Rightarrow>
      case qspi_counts single_log2 burst_log2 sizeleft of (burst_count, single_count) \<Rightarrow>
        align @ to_qspi_phase opt INST_MOD_BURST burst_log2 burst_count @
        to_qspi_phase opt INST_MOD_SINGLE single_log2 single_count)"

definition from_qspi_calls :: "ccr_opts \<Rightarrow> u32 \<Rightarrow> u32 \<Rightarrow> u32 \<Rightarrow> u32 \<Rightarrow> dma_call list" where
  "from_qspi_calls opt single_log2 burst_log2 segdstpa segsize =
     (case qspi_align (ccr_periph_in opt (SS32 opt) (DS32 opt) (DB1 opt))
        ALT_DMA_PERIPH_QSPI_FLASH_RX segdstpa segsize of (align, sizeleft) \<Rightarrow>
      case qspi_counts single_log2 burst_log2 sizeleft of (burst_count, single_count) \<Rightarrow>
        align @ from_qspi_phase opt INST_MOD_BURST burst_log2 burst_count @
        from_qspi_phase opt INST_MOD_SINGLE single_log2 single_count)"

text \<open>A segment: its checks, its address (\<open>mov\<close>), the check of the item size, and its calls.\<close>

definition qspi_segment ::
  "('p, 'c) dma_env \<Rightarrow> dma_reg \<Rightarrow> (u32 \<Rightarrow> u32 \<Rightarrow> dma_call list) \<Rightarrow> u32 \<Rightarrow> u32 \<Rightarrow> u32 \<Rightarrow> ('p, status) dma" where
  "qspi_segment E mov calls single_log2 segpa segsize =
     (if segpa AND 0x3 \<noteq> 0 \<or> segsize AND 0x3 \<noteq> 0 then State_Monad.return ALT_E_ERROR
      else do { status \<leftarrow> emit E (DMAMOV mov segpa);
                (if segsize AND (qspi_size single_log2 - 1) \<noteq> 0 then State_Monad.return ALT_E_ERROR
                 else guarded status (emit_all E (calls segpa segsize))) })"

definition alt_dma_memory_to_qspi_segment ::
  "('p, 'c) dma_env \<Rightarrow> u32 \<Rightarrow> u32 \<Rightarrow> u32 \<Rightarrow> u32 \<Rightarrow> ('p, status) dma" where
  "alt_dma_memory_to_qspi_segment E single_log2 burst_log2 =
     qspi_segment E SAR (to_qspi_calls (opts E) single_log2 burst_log2) single_log2"

definition alt_dma_qspi_to_memory_segment ::
  "('p, 'c) dma_env \<Rightarrow> u32 \<Rightarrow> u32 \<Rightarrow> u32 \<Rightarrow> u32 \<Rightarrow> ('p, status) dma" where
  "alt_dma_qspi_to_memory_segment E single_log2 burst_log2 =
     qspi_segment E DAR (from_qspi_calls (opts E) single_log2 burst_log2) single_log2"

definition alt_dma_memory_to_qspi ::
  "nat \<Rightarrow> ('p, 'c) dma_env \<Rightarrow> periph_env \<Rightarrow> u32 \<Rightarrow> u32 \<Rightarrow> ('p, status option) dma" where
  "alt_dma_memory_to_qspi fuel E P src sz =
     do { status \<leftarrow> emit E (DMAMOV DAR (QSPIDATA_ADDR P));
          dmaper \<leftarrow> on_bus (alt_read_word (regs E) (QSPI_DMAPER_ADDR P));
          over_segments fuel E
            (alt_dma_memory_to_qspi_segment E (QSPI_NUMSGLREQBYTES_GET P dmaper)
               (QSPI_NUMBURSTREQBYTES_GET P dmaper)) src sz status }"

definition alt_dma_qspi_to_memory ::
  "nat \<Rightarrow> ('p, 'c) dma_env \<Rightarrow> periph_env \<Rightarrow> u32 \<Rightarrow> u32 \<Rightarrow> ('p, status option) dma" where
  "alt_dma_qspi_to_memory fuel E P dst sz =
     do { status \<leftarrow> emit E (DMAMOV SAR (QSPIDATA_ADDR P));
          dmaper \<leftarrow> on_bus (alt_read_word (regs E) (QSPI_DMAPER_ADDR P));
          over_segments fuel E
            (alt_dma_qspi_to_memory_segment E (QSPI_NUMSGLREQBYTES_GET P dmaper)
               (QSPI_NUMBURSTREQBYTES_GET P dmaper)) dst sz status }"

section \<open>I2C\<close>

text \<open>Commands from the scratch words, each written as one 32-bit item.\<close>

definition i2c_custom_calls ::
  "ccr_opts \<Rightarrow> periph_env \<Rightarrow> dma_periph \<Rightarrow> addr \<Rightarrow> u32 \<Rightarrow> u32 \<Rightarrow> bool \<Rightarrow> dma_call list" where
  "i2c_custom_calls opt P periph loc write_info_pa request_count first =
     (if first then [DMAMOV DAR (I2C_DATA_CMD_ADDR P loc)] else []) @
     [DMAMOV SAR write_info_pa] @
     (if first then [DMAMOV CCR (ccr_periph_out opt (SAF opt) (SS32 opt) (SB1 opt) (SC opt 7) (DS32 opt))]
      else []) @
     counted_loops (move_single periph) DMALPEND request_count"

text \<open>Burst size, burst count and single count; the threshold is a byte.\<close>

definition i2c_counts :: "byte \<Rightarrow> u32 \<Rightarrow> u32 \<times> u32 \<times> u32" where
  "i2c_counts threshold segsize =
     (if threshold > 1
      then let burst_size = (if threshold > 16 then 16 else ucast threshold)
           in case ldiv segsize burst_size of (quot, rem) \<Rightarrow> (burst_size, quot, rem)
      else (0, 0, segsize))"

definition to_i2c_calls :: "ccr_opts \<Rightarrow> dma_periph \<Rightarrow> byte \<Rightarrow> u32 \<Rightarrow> u32 \<Rightarrow> dma_call list" where
  "to_i2c_calls opt periph threshold segsrcpa segsize =
     (case i2c_counts threshold segsize of (burst_size, burst_count, single_count) \<Rightarrow>
        [DMAMOV SAR segsrcpa] @
        (if burst_count \<noteq> 0
         then DMAMOV CCR (ccr_periph_out opt (SAI opt) (SS8 opt) (sb_len burst_size) (SC opt 7) (DS8 opt)) #
              counted_loops (wait_for periph INST_MOD_BURST @ [DMALDx INST_MOD_BURST] @
                replicate (unat burst_size) (DMASTx INST_MOD_BURST)) DMALPEND burst_count
         else []) @
        (if single_count \<noteq> 0
         then DMAMOV CCR (ccr_periph_out opt (SAI opt) (SS8 opt) (SB1 opt) (SC opt 7) (DS8 opt)) #
              counted_loops (move_single periph) DMALPEND single_count
         else []))"

definition from_i2c_calls :: "ccr_opts \<Rightarrow> dma_periph \<Rightarrow> byte \<Rightarrow> u32 \<Rightarrow> u32 \<Rightarrow> dma_call list" where
  "from_i2c_calls opt periph threshold segdstpa segsize =
     (case i2c_counts threshold segsize of (burst_size, burst_count, single_count) \<Rightarrow>
        [DMAMOV DAR segdstpa] @
        (if burst_count \<noteq> 0
         then DMAMOV CCR (ccr_periph_in opt (SS8 opt) (DS8 opt) (db_len burst_size)) #
              counted_loops (wait_for periph INST_MOD_BURST @
                replicate (unat burst_size) (DMALDx INST_MOD_BURST) @ [DMASTx INST_MOD_BURST])
                DMALPEND burst_count
         else []) @
        (if single_count \<noteq> 0
         then DMAMOV CCR (ccr_periph_in opt (SS8 opt) (DS8 opt) (DB1 opt)) #
              counted_loops (move_single periph) DMALPEND single_count
         else []))"

definition alt_dma_memory_to_i2c_common ::
  "nat \<Rightarrow> ('p, 'c) dma_env \<Rightarrow> periph_env \<Rightarrow> dma_periph \<Rightarrow> addr \<Rightarrow> u32 \<Rightarrow> u32 \<Rightarrow> ('p, status option) dma" where
  "alt_dma_memory_to_i2c_common fuel E P periph loc src sz =
     do { tl \<leftarrow> on_bus (alt_read_word (regs E) (I2C_TX_TL_ADDR P loc));
          let threshold = ucast (I2C_TX_TL_GET P tl + 1);
          status \<leftarrow> emit E (DMAMOV DAR (I2C_DATA_CMD_ADDR P loc));
          over_segments fuel E (\<lambda>pa n. emit_all E (to_i2c_calls (opts E) periph threshold pa n))
            src sz status }"

definition alt_dma_i2c_to_memory_common ::
  "nat \<Rightarrow> ('p, 'c) dma_env \<Rightarrow> periph_env \<Rightarrow> dma_periph \<Rightarrow> addr \<Rightarrow> u32 \<Rightarrow> u32 \<Rightarrow> ('p, status option) dma" where
  "alt_dma_i2c_to_memory_common fuel E P periph loc dst sz =
     do { tl \<leftarrow> on_bus (alt_read_word (regs E) (I2C_RX_TL_ADDR P loc));
          let threshold = ucast (I2C_RX_TL_GET P tl + 1);
          status \<leftarrow> emit E (DMAMOV SAR (I2C_DATA_CMD_ADDR P loc));
          over_segments fuel E (\<lambda>pa n. emit_all E (from_i2c_calls (opts E) periph threshold pa n))
            dst sz status }"

definition set_scratch :: "nat \<Rightarrow> u32 \<Rightarrow> ('p, unit) dma" where
  "set_scratch i v = State (\<lambda>s. ((), s\<lparr> scratch := (scratch s)[i := v] \<rparr>))"

text \<open>The physical address of the scratch words, and the cleaning of their cache lines.\<close>

definition scratch_pa :: "('p, 'c) dma_env \<Rightarrow> i2c_info \<Rightarrow> status \<times> u32" where
  "scratch_pa E info = (case mmu_va_to_pa E (scratch_va info) of (pa, seglength, dfsr) \<Rightarrow>
     (if dfsr \<noteq> 0 then ALT_E_ERROR else ALT_E_SUCCESS, pa))"

definition clean_scratch :: "('p, 'c) dma_env \<Rightarrow> i2c_info \<Rightarrow> status" where
  "clean_scratch E info =
     (let vaddr = scratch_va info AND NOT (cache_line E - 1);
          vend = (scratch_va info + 16 + (cache_line E - 1)) AND NOT (cache_line E - 1)
      in cache_system_clean E vaddr (vend - vaddr))"

definition i2c_custom ::
  "('p, 'c) dma_env \<Rightarrow> periph_env \<Rightarrow> dma_periph \<Rightarrow> i2c_info \<Rightarrow> u32 \<Rightarrow> u32 \<Rightarrow> u32 \<Rightarrow> bool \<Rightarrow> status \<Rightarrow>
   ('p, status) dma" where
  "i2c_custom E P periph info pa word request_count first status =
     guarded status (emit_all E
       (i2c_custom_calls (opts E) P periph (i2c_location info) (pa + 4 * word) request_count first))"

definition bool_word :: "bool \<Rightarrow> u32" where "bool_word b = (if b then 1 else 0)"

definition i2c_data :: "periph_env \<Rightarrow> byte \<Rightarrow> bool \<Rightarrow> bool \<Rightarrow> u32" where
  "i2c_data P b restart stop =
     I2C_DATA_CMD_DAT_SET P (ucast b) OR I2C_DATA_CMD_RESTART_SET P (bool_word restart) OR
     I2C_DATA_CMD_STOP_SET P (bool_word stop)"

definition i2c_read :: "periph_env \<Rightarrow> bool \<Rightarrow> bool \<Rightarrow> u32" where
  "i2c_read P restart stop =
     I2C_DATA_CMD_CMD_SET P (I2C_DATA_CMD_CMD_E_RD P) OR
     I2C_DATA_CMD_RESTART_SET P (bool_word restart) OR I2C_DATA_CMD_STOP_SET P (bool_word stop)"

definition clean_after :: "('p, 'c) dma_env \<Rightarrow> i2c_info \<Rightarrow> status option \<Rightarrow> status option" where
  "clean_after E info r = (case r of
     None \<Rightarrow> None
   | Some status \<Rightarrow> Some (if status = ALT_E_SUCCESS then clean_scratch E info else status))"

text \<open>
  A master's write: the first byte carries the restart, the last the stop, each as a command
  word in the scratch space; what is between goes as plain bytes.
\<close>

definition alt_dma_memory_to_i2c_master ::
  "nat \<Rightarrow> ('p, 'c) dma_env \<Rightarrow> periph_env \<Rightarrow> dma_periph \<Rightarrow> i2c_info \<Rightarrow> u32 \<Rightarrow> u32 \<Rightarrow> ('p, status option) dma"
where
  "alt_dma_memory_to_i2c_master fuel E P periph info src sz =
     (case scratch_pa E info of (status, pa) \<Rightarrow>
      do {
        r \<leftarrow> (if sz = 1
              then do {
                set_scratch 3 (i2c_data P (ram P src) (issue_restart info) (issue_stop info));
                status \<leftarrow> i2c_custom E P periph info pa 3 1 True status;
                State_Monad.return (Some status) }
              else do {
                _ \<leftarrow> (if issue_stop info
                      then set_scratch 2 (i2c_data P (ram P (src + (sz - 1))) False True)
                      else State_Monad.return ());
                let sz = (if issue_stop info then sz - 1 else sz);
                status \<leftarrow> (if issue_restart info
                  then do { set_scratch 1 (i2c_data P (ram P src) True False);
                            i2c_custom E P periph info pa 1 1 True status }
                  else State_Monad.return status);
                let (src, sz) = (if issue_restart info then (src + 1, sz - 1) else (src, sz));
                r \<leftarrow> (if status = ALT_E_SUCCESS \<and> sz > 0
                      then alt_dma_memory_to_i2c_common fuel E P periph (i2c_location info) src sz
                      else State_Monad.return (Some status));
                (case r of
                   None \<Rightarrow> State_Monad.return None
                 | Some status \<Rightarrow>
                     (if issue_stop info
                      then do { status \<leftarrow> i2c_custom E P periph info pa 2 1 (sz \<noteq> 0) status;
                                State_Monad.return (Some status) }
                      else State_Monad.return (Some status))) });
        State_Monad.return (clean_after E info r) })"

text \<open>
  A master's read: one read command per byte, written ahead of the data by at most the FIFO's
  size.  First the FIFO is filled with commands, then halves of it are read and refilled.
\<close>

definition i2c_prefill ::
  "('p, 'c) dma_env \<Rightarrow> periph_env \<Rightarrow> dma_periph \<Rightarrow> i2c_info \<Rightarrow> u32 \<Rightarrow> u32 \<Rightarrow> u32 \<Rightarrow> status \<Rightarrow>
   ('p, status) dma" where
  "i2c_prefill E P tx_periph info pa prefill_count tx_left status =
     (if prefill_count = 1 then i2c_custom E P tx_periph info pa 3 1 True status
      else if tx_left = 0
      then do { status \<leftarrow> i2c_custom E P tx_periph info pa 1 1 True status;
                status \<leftarrow> (if prefill_count > 2
                           then i2c_custom E P tx_periph info pa 0 (prefill_count - 2) False status
                           else State_Monad.return status);
                i2c_custom E P tx_periph info pa 2 1 False status }
      else do { status \<leftarrow> i2c_custom E P tx_periph info pa 1 1 True status;
                i2c_custom E P tx_periph info pa 0 (prefill_count - 1) False status })"

definition i2c_refill ::
  "('p, 'c) dma_env \<Rightarrow> periph_env \<Rightarrow> dma_periph \<Rightarrow> i2c_info \<Rightarrow> u32 \<Rightarrow> u32 \<Rightarrow> u32 \<Rightarrow> status \<Rightarrow>
   ('p, status \<times> u32) dma" where
  "i2c_refill E P tx_periph info pa half tx_left status =
     (if tx_left > 0
      then do { let refill_count = ALT_MIN tx_left half;
                let tx_left = tx_left - refill_count;
                status \<leftarrow> (if tx_left = 0
                  then do { status \<leftarrow> i2c_custom E P tx_periph info pa 0 (refill_count - 1) True status;
                            i2c_custom E P tx_periph info pa 2 1 False status }
                  else i2c_custom E P tx_periph info pa 0 refill_count True status);
                State_Monad.return (status, tx_left) }
      else State_Monad.return (status, tx_left))"

fun i2c_read_loop ::
  "nat \<Rightarrow> ('p, 'c) dma_env \<Rightarrow> periph_env \<Rightarrow> dma_periph \<Rightarrow> dma_periph \<Rightarrow> i2c_info \<Rightarrow> u32 \<Rightarrow> u32 \<Rightarrow>
   u32 \<Rightarrow> u32 \<Rightarrow> u32 \<Rightarrow> status \<Rightarrow> ('p, status option) dma" where
  "i2c_read_loop fuel E P rx_periph tx_periph info pa half dst rx_left tx_left status =
     (if rx_left = 0 \<or> status \<noteq> ALT_E_SUCCESS then State_Monad.return (Some status)
      else case fuel of
        0 \<Rightarrow> State_Monad.return None
      | Suc fuel' \<Rightarrow>
          do { let single_count = ALT_MIN rx_left half;
               r \<leftarrow> alt_dma_i2c_to_memory_common fuel' E P rx_periph (i2c_location info) dst single_count;
               (case r of
                  None \<Rightarrow> State_Monad.return None
                | Some status \<Rightarrow>
                    do { (status, tx_left) \<leftarrow> i2c_refill E P tx_periph info pa half tx_left status;
                         i2c_read_loop fuel' E P rx_periph tx_periph info pa half (dst + single_count)
                           (rx_left - single_count) tx_left status }) })"

declare i2c_read_loop.simps [simp del]

text \<open>The transmit request of an I2C controller is the one before its receive request.\<close>

fun tx_of :: "dma_periph \<Rightarrow> dma_periph" where
  "tx_of (ALT_DMA_PERIPH_I2C_RX n) = ALT_DMA_PERIPH_I2C_TX n"
| "tx_of p = p"

definition alt_dma_i2c_to_memory_master ::
  "nat \<Rightarrow> ('p, 'c) dma_env \<Rightarrow> periph_env \<Rightarrow> dma_periph \<Rightarrow> i2c_info \<Rightarrow> u32 \<Rightarrow> u32 \<Rightarrow> ('p, status option) dma"
where
  "alt_dma_i2c_to_memory_master fuel E P rx_periph info dst sz =
     (case scratch_pa E info of (status, pa) \<Rightarrow>
      do { let fifo_size = ALT_MIN (I2C_RX_FIFO_NUM_ENTRIES P) (I2C_TX_FIFO_NUM_ENTRIES P);
           set_scratch 0 (i2c_read P False False);
           set_scratch 1 (i2c_read P (issue_restart info) False);
           set_scratch 2 (i2c_read P False (issue_stop info));
           set_scratch 3 (i2c_read P (issue_restart info) (issue_stop info));
           let prefill_count = ALT_MIN sz fifo_size;
           let tx_left = sz - prefill_count;
           status \<leftarrow> i2c_prefill E P (tx_of rx_periph) info pa prefill_count tx_left status;
           r \<leftarrow> i2c_read_loop fuel E P rx_periph (tx_of rx_periph) info pa (fifo_size div 2) dst sz
                 tx_left status;
           State_Monad.return (clean_after E info r) })"

text \<open>Master or slave: the weak \<open>alt_i2c_op_mode_get\<close> of the file itself.\<close>

definition alt_i2c_op_mode_get :: "('p, 'c) dma_env \<Rightarrow> periph_env \<Rightarrow> addr \<Rightarrow> ('p, status \<times> u32) dma" where
  "alt_i2c_op_mode_get E P loc =
     do { cfg_register \<leftarrow> on_bus (alt_read_word (regs E) (I2C_CON_ADDR P loc));
          State_Monad.return (ALT_E_SUCCESS, I2C_CON_MST_MOD_GET P cfg_register) }"

definition alt_dma_memory_to_i2c ::
  "nat \<Rightarrow> ('p, 'c) dma_env \<Rightarrow> periph_env \<Rightarrow> dma_periph \<Rightarrow> i2c_info \<Rightarrow> u32 \<Rightarrow> u32 \<Rightarrow> ('p, status option) dma"
where
  "alt_dma_memory_to_i2c fuel E P periph info src sz =
     do { (status, mode) \<leftarrow> alt_i2c_op_mode_get E P (i2c_location info);
          guarded_opt status
            (if mode = I2C_MODE_MASTER P
             then alt_dma_memory_to_i2c_master fuel E P periph info src sz
             else alt_dma_memory_to_i2c_common fuel E P periph (i2c_location info) src sz) }"

definition alt_dma_i2c_to_memory ::
  "nat \<Rightarrow> ('p, 'c) dma_env \<Rightarrow> periph_env \<Rightarrow> dma_periph \<Rightarrow> i2c_info \<Rightarrow> u32 \<Rightarrow> u32 \<Rightarrow> ('p, status option) dma"
where
  "alt_dma_i2c_to_memory fuel E P periph info dst sz =
     do { (status, mode) \<leftarrow> alt_i2c_op_mode_get E P (i2c_location info);
          guarded_opt status
            (if mode = I2C_MODE_MASTER P
             then alt_dma_i2c_to_memory_master fuel E P periph info dst sz
             else alt_dma_i2c_to_memory_common fuel E P periph (i2c_location info) dst sz) }"

section \<open>Entry points\<close>

text \<open>
  \<open>switch\<close> on the peripheral.  Whatever is not one of these cases is refused: the FPGA and SPI
  requests are listed in the source, but with the default.
\<close>

definition to_periph ::
  "nat \<Rightarrow> ('p, 'c) dma_env \<Rightarrow> periph_env \<Rightarrow> dma_periph \<Rightarrow> periph_info \<Rightarrow> u32 \<Rightarrow> u32 \<Rightarrow> ('p, status option) dma"
where
  "to_periph fuel E P dstp info src sz = (case dstp of
     ALT_DMA_PERIPH_I2C_TX n \<Rightarrow>
       if n < 4 then alt_dma_memory_to_i2c fuel E P dstp (as_i2c info) src sz
       else State_Monad.return (Some ALT_E_BAD_ARG)
   | ALT_DMA_PERIPH_QSPI_FLASH_TX \<Rightarrow> alt_dma_memory_to_qspi fuel E P src sz
   | ALT_DMA_PERIPH_UART_TX n \<Rightarrow>
       if n < 2 then alt_dma_memory_to_16550 fuel E P dstp (as_16550 info) src sz
       else State_Monad.return (Some ALT_E_BAD_ARG)
   | _ \<Rightarrow> State_Monad.return (Some ALT_E_BAD_ARG))"

definition from_periph ::
  "nat \<Rightarrow> ('p, 'c) dma_env \<Rightarrow> periph_env \<Rightarrow> dma_periph \<Rightarrow> periph_info \<Rightarrow> u32 \<Rightarrow> u32 \<Rightarrow> ('p, status option) dma"
where
  "from_periph fuel E P srcp info dst sz = (case srcp of
     ALT_DMA_PERIPH_I2C_RX n \<Rightarrow>
       if n < 4 then alt_dma_i2c_to_memory fuel E P srcp (as_i2c info) dst sz
       else State_Monad.return (Some ALT_E_BAD_ARG)
   | ALT_DMA_PERIPH_QSPI_FLASH_RX \<Rightarrow> alt_dma_qspi_to_memory fuel E P dst sz
   | ALT_DMA_PERIPH_UART_RX n \<Rightarrow>
       if n < 2 then alt_dma_16550_to_memory fuel E P srcp (as_16550 info) dst sz
       else State_Monad.return (Some ALT_E_BAD_ARG)
   | _ \<Rightarrow> State_Monad.return (Some ALT_E_BAD_ARG))"

text \<open>
  The frame both directions share.  A region that overshoots the address space returns at
  once, past the clean-up of the program.
\<close>

definition periph_transfer ::
  "('p, 'c) dma_env \<Rightarrow> nat \<Rightarrow> ('p, status option) dma \<Rightarrow> u32 \<Rightarrow> u32 \<Rightarrow> bool \<Rightarrow> nat \<Rightarrow>
   ('p, status option) dma" where
  "periph_transfer E channel body buf sz send_evt evt =
     (if sz = 0 \<and> \<not> send_evt then State_Monad.return (Some ALT_E_SUCCESS)
      else do {
        status \<leftarrow> on_program (program_init E);
        (if status = ALT_E_SUCCESS \<and> sz \<noteq> 0 \<and> buf + sz - 1 < buf
         then State_Monad.return (Some ALT_E_BAD_ARG)
         else do {
           r \<leftarrow> (if status = ALT_E_SUCCESS \<and> sz \<noteq> 0 then body else State_Monad.return (Some status));
           (case r of
              None \<Rightarrow> State_Monad.return None
            | Some status \<Rightarrow> do { r \<leftarrow> finish_program E channel False send_evt evt status;
                                  State_Monad.return (Some r) }) }) })"

definition alt_dma_memory_to_periph ::
  "nat \<Rightarrow> ('p, 'c) dma_env \<Rightarrow> periph_env \<Rightarrow> nat \<Rightarrow> dma_periph \<Rightarrow> u32 \<Rightarrow> u32 \<Rightarrow> periph_info \<Rightarrow> bool \<Rightarrow> nat \<Rightarrow>
   ('p, status option) dma" where
  "alt_dma_memory_to_periph fuel E P channel dstp src sz info send_evt evt =
     periph_transfer E channel (to_periph fuel E P dstp info src sz) src sz send_evt evt"

definition alt_dma_periph_to_memory ::
  "nat \<Rightarrow> ('p, 'c) dma_env \<Rightarrow> periph_env \<Rightarrow> nat \<Rightarrow> u32 \<Rightarrow> dma_periph \<Rightarrow> u32 \<Rightarrow> periph_info \<Rightarrow> bool \<Rightarrow> nat \<Rightarrow>
   ('p, status option) dma" where
  "alt_dma_periph_to_memory fuel E P channel dst srcp sz info send_evt evt =
     periph_transfer E channel (from_periph fuel E P srcp info dst sz) dst sz send_evt evt"

end
