(* ===== verification/Dma_Uart.thy ===== *)
theory Dma_Uart
  imports Dma_Driver Dma_Periph
begin

text \<open>
  The peripheral transfers over the instruction semantics of \<^theory_text>\<open>Pl330\<close>: what the counted loops
  of requests do, and the UART transfers as a whole.
\<close>

section \<open>Loops of requests\<close>

text \<open>A loop end is checked in every round, if there is a loop.\<close>

definition end_check :: "u32 \<Rightarrow> dma_call \<Rightarrow> dma_call list" where
  "end_check n fin = (if n > 1 then (case loop_end fin of Some e \<Rightarrow> e | None \<Rightarrow> []) else [])"

lemma closed_looped_fin:
  assumes "closed_calls b" and "0 < n" and "fin = DMALPEND \<or> fin = DMALPENDx k"
  shows "closed_calls (if_looped n (DMALP n) @ b @ if_looped n fin)"
    and "unroll (if_looped n (DMALP n) @ b @ if_looped n fin) =
           concat (replicate (unat n) (unroll b @ end_check n fin))"
proof -
  have "unat n = 1" if "\<not> 1 < n"
    using that assms(2) by (simp add: word_less_nat_alt)
  then show "closed_calls (if_looped n (DMALP n) @ b @ if_looped n fin)"
    and "unroll (if_looped n (DMALP n) @ b @ if_looped n fin) =
           concat (replicate (unat n) (unroll b @ end_check n fin))"
    using closed_loop(1,2)[OF assms(1), of n] closed_loop(3,4)[OF assms(1), of n k] assms(1,3) by (auto simp: if_looped_def end_check_def)
qed

lemma iterate_body:
  assumes "\<And>i m. I i m \<Longrightarrow> ccr m = w \<Longrightarrow> i + k \<le> N \<Longrightarrow>
      \<exists>m'. run_flat rs b m = Some m' \<and> I (i + k) m' \<and> ccr m' = w"
    and "I i m" and "ccr m = w" and "i + k * n \<le> N"
  shows "\<exists>m'. run_flat rs (concat (replicate n b)) m = Some m' \<and> I (i + k * n) m' \<and> ccr m' = w"
  using assms(2-4)
proof (induction n arbitrary: i m)
  case (Suc n)
  have "i + k \<le> N" using Suc.prems(3) by simp
  from assms(1)[OF Suc.prems(1,2) this] obtain m1
    where m1: "run_flat rs b m = Some m1" "I (i + k) m1" "ccr m1 = w" by blast
  have "i + k + k * n \<le> N" using Suc.prems(3) by (simp add: algebra_simps)
  from Suc.IH[OF m1(2,3) this] m1(1) show ?case
    by (auto simp: run_flat_append algebra_simps)
qed simp

text \<open>
  What one round does, the loops do as often as they are counted; \<open>md\<close> is the kind of the
  request a round leaves behind, which a conditional loop end asks for.
\<close>

definition advances ::
  "mem \<Rightarrow> (nat \<Rightarrow> pl330 \<Rightarrow> bool) \<Rightarrow> u32 \<Rightarrow> nat \<Rightarrow> dma_mod \<Rightarrow> dma_call list \<Rightarrow> bool" where
  "advances rs I w k md b \<longleftrightarrow> (\<forall>i m. I i m \<longrightarrow> ccr m = w \<longrightarrow>
     (\<exists>m'. run_flat rs (unroll b) m = Some m' \<and> I (i + k) m' \<and> ccr m' = w \<and> request m' = Some md))"

lemma counted_loops_run:
  assumes "closed_calls b" and "advances rs I w k md b" and "fin = DMALPEND \<or> fin = DMALPENDx md"
  shows "closed_calls (counted_loops b fin n) \<and>
    (\<forall>i m. I i m \<longrightarrow> ccr m = w \<longrightarrow>
      (\<exists>m'. run_flat rs (unroll (counted_loops b fin n)) m = Some m' \<and> I (i + k * unat n) m' \<and> ccr m' = w))"
  using assms
proof (induction b fin n rule: counted_loops.induct)
  case (1 b fin n)
  show ?case
  proof (cases "0 < n")
    case True
    define c where "c = ALT_MIN n 256"
    have c: "0 < c" "c \<le> n" using True by (auto simp: c_def ALT_MIN_pos ALT_MIN_le)
    let ?l = "if_looped c (DMALP c) @ b @ if_looped c fin"
    have e: "counted_loops b fin n = ?l @ counted_loops b fin (n - c)"
      using True by (subst counted_loops.simps) (simp add: c_def Let_def)
    note IH = 1(1)[OF True c_def 1(2-4)]
    note L = closed_looped_fin[OF 1(2) c(1) 1(4)]
    have step: "\<exists>m'. run_flat rs (unroll b @ end_check c fin) m = Some m' \<and> I (i + k) m' \<and> ccr m' = w"
      if m: "I i m" "ccr m = w" for i m
    proof -
      from 1(3) m obtain m' where "run_flat rs (unroll b) m = Some m'" "I (i + k) m'" "ccr m' = w"
        "request m' = Some md" unfolding advances_def by blast
      then show ?thesis using 1(4) by (auto simp: run_flat_append end_check_def)
    qed
    have n: "unat n = unat c + unat (n - c)" using c by (simp add: unat_minus_le word_le_nat_alt)
    have "\<exists>m'. run_flat rs (unroll (counted_loops b fin n)) m = Some m' \<and> I (i + k * unat n) m' \<and> ccr m' = w"
      if m: "I i m" "ccr m = w" for i m
    proof -
      from iterate_body[of I w k "i + k * unat c" rs "unroll b @ end_check c fin", OF step m order.refl]
      obtain m1 where m1: "run_flat rs (unroll ?l) m = Some m1" "I (i + k * unat c) m1" "ccr m1 = w"
        unfolding L(2) by blast
      from IH m1(2,3) obtain m2 where "run_flat rs (unroll (counted_loops b fin (n - c))) m1 = Some m2"
        "I (i + k * unat c + k * unat (n - c)) m2" "ccr m2 = w" by blast
      then show ?thesis
        unfolding e unroll_append[OF L(1)] run_flat_append m1(1) n by (simp add: algebra_simps)
    qed
    moreover have "closed_calls (counted_loops b fin n)"
      unfolding e using IH L(1) by (blast intro: closed_append)
    ultimately show ?thesis by blast
  qed (subst (1 2) counted_loops.simps, simp add: word_gt_0)
qed

lemma runs_counted:
  assumes "closed_calls b" and "advances rs I w k md b" and "fin = DMALPEND \<or> fin = DMALPENDx md"
    and "\<And>i m. I i m \<Longrightarrow> I i (m\<lparr> ccr := w \<rparr>)"
  shows "closed_calls (DMAMOV CCR w # counted_loops b fin n)"
    and "runs rs (I i) (DMAMOV CCR w # counted_loops b fin n) (I (i + k * unat n))"
proof -
  note C = counted_loops_run[OF assms(1-3), of n]
  show "closed_calls (DMAMOV CCR w # counted_loops b fin n)" using C by (simp add: closed_mov)
  show "runs rs (I i) (DMAMOV CCR w # counted_loops b fin n) (I (i + k * unat n))"
    unfolding runs_def run_program_def
  proof (intro allI impI)
    fix m
    assume "I i m"
    then have "I i (m\<lparr> ccr := w \<rparr>)" by (rule assms(4))
    with C obtain m' where "run_flat rs (unroll (counted_loops b fin n)) (m\<lparr> ccr := w \<rparr>) = Some m'"
      "I (i + k * unat n) m'" by fastforce
    then show "\<exists>m'. run_flat rs (unroll (DMAMOV CCR w # counted_loops b fin n)) m = Some m' \<and>
        I (i + k * unat n) m'" by simp
  qed
qed

section \<open>Bytes to and from a granted register\<close>

definition sending :: "(dma_mod \<Rightarrow> nat) \<Rightarrow> nat \<Rightarrow> mem \<Rightarrow> nat \<Rightarrow> byte list \<Rightarrow> nat \<Rightarrow> pl330 \<Rightarrow> bool" where
  "sending R a M s out i m \<longleftrightarrow> sent a M s out i m \<and> room m = R"

definition receiving :: "(dma_mod \<Rightarrow> nat) \<Rightarrow> nat \<Rightarrow> mem \<Rightarrow> mem \<Rightarrow> nat \<Rightarrow> nat \<Rightarrow> nat \<Rightarrow> pl330 \<Rightarrow> bool" where
  "receiving R a rs M d p i m \<longleftrightarrow> received a rs M d p i m \<and> room m = R"

definition granted :: "dma_mod \<Rightarrow> nat \<Rightarrow> pl330 \<Rightarrow> bool" where
  "granted k c m \<longleftrightarrow> request m = Some k \<and> c \<le> credit m"

lemma wait_for_run:
  "run_flat rs (wait_for periph k) m = Some (m\<lparr> request := Some k, credit := room m k \<rparr>)"
  by (simp add: wait_for_def)

lemma wait_for_flat [simp]: "flat (wait_for periph k @ cs) = flat cs"
  by (simp add: wait_for_def)

lemma granted_ccr [simp]:
  "sending R a M s out i (m\<lparr> ccr := w \<rparr>) = sending R a M s out i m"
  "receiving R a rs M d p i (m\<lparr> ccr := w \<rparr>) = receiving R a rs M d p i m"
  by (simp_all add: sending_def receiving_def)

lemma granted_wait [simp]:
  "sending R a M s out i (m\<lparr> request := r, credit := c \<rparr>) = sending R a M s out i m"
  "receiving R a rs M d p i (m\<lparr> request := r, credit := c \<rparr>) = receiving R a rs M d p i m"
  by (simp_all add: sending_def receiving_def sent_def received_def)

text \<open>A pair of a load and a store of \<open>n\<close> bytes each.\<close>

lemma sending_pair:
  assumes "sending R a M s out i m" and "src_inc (ccr m)" and "\<not> dst_inc (ccr m)"
    and "granted k c m" and "n \<le> c"
    and "(if k = INST_MOD_SINGLE then load_beat m else load_count m) = n"
    and "\<And>m'. ccr m' = ccr m \<Longrightarrow> (if k = INST_MOD_SINGLE then store_beat m' else store_count m') = n"
  shows "\<exists>m'. run_flat rs [DMALDx k, DMASTx k] m = Some m' \<and> sending R a M s out (i + n) m' \<and>
    ccr m' = ccr m \<and> granted k (c - n) m'"
proof -
  let ?m = "m\<lparr> mfifo := bytes_at M (s + i) n, sar := s + (i + n) \<rparr>"
  let ?p = "cost (dst_size (ccr m)) n m"
  let ?m' = "reg_store (bytes_at M (s + i) n) (?m\<lparr> mfifo := [], credit := credit m - ?p \<rparr>)"
  have st: "mfifo m = []" "memory m = M" "sar m = s + i" "request m = Some k" "c \<le> credit m"
    using assms(1,4) by (simp_all add: sending_def sent_def granted_def)
  have p: "?p \<le> n" by (rule cost_le)
  have "pl330_step rs (DMALDx k) m = Some ?m"
    using assms(2,6) st by (simp add: granted_load_def add.assoc)
  moreover have "(if k = INST_MOD_SINGLE then store_beat ?m else store_count ?m) = n"
    by (rule assms(7)) simp
  then have "pl330_step rs (DMASTx k) ?m = Some ?m'"
    using assms(3,5) st p by (simp add: granted_store_def)
  moreover have "sending R a M s out (i + n) ?m'"
    using assms(1) by (simp add: sending_def sent_def bytes_at_add)
  ultimately show ?thesis using st(4,5) p by (simp add: granted_def)
qed

lemma receiving_pair:
  assumes "receiving R a rs M d p i m" and "\<not> src_inc (ccr m)" and "dst_inc (ccr m)"
    and "granted k c m" and "n \<le> c"
    and "(if k = INST_MOD_SINGLE then load_beat m else load_count m) = n"
    and "\<And>m'. ccr m' = ccr m \<Longrightarrow> dar m' = dar m \<Longrightarrow>
      (if k = INST_MOD_SINGLE then store_beat m' else store_count m') = n"
  shows "\<exists>m'. run_flat rs [DMALDx k, DMASTx k] m = Some m' \<and> receiving R a rs M d p (i + n) m' \<and>
    ccr m' = ccr m \<and> granted k (c - n) m'"
proof -
  let ?bs = "bytes_at rs (p + i) n"
  let ?q = "cost (src_size (ccr m)) n m"
  let ?m = "fixed_load rs n (m\<lparr> credit := credit m - ?q \<rparr>)"
  let ?m' = "?m\<lparr> memory := store_bytes (memory m) (d + i) ?bs, dar := d + (i + n), mfifo := [] \<rparr>"
  have st: "mfifo m = []" "reg_in m = p + i" "dar m = d + i" "request m = Some k" "c \<le> credit m"
    "sar m \<notin> cells m"
    using assms(1,4) by (auto simp: receiving_def received_def granted_def)
  have q: "?q \<le> n" by (rule cost_le)
  have "pl330_step rs (DMALDx k) m = Some ?m"
    using assms(2,5,6) st q by (simp add: granted_load_def)
  moreover have "(if k = INST_MOD_SINGLE then store_beat ?m else store_count ?m) = n"
    by (rule assms(7)) simp_all
  then have "pl330_step rs (DMASTx k) ?m = Some ?m'"
    using assms(3) st by (simp add: granted_store_def add.assoc)
  moreover have "store_bytes (memory m) (d + i) ?bs = store_bytes M d (bytes_at rs p (i + n))"
    using store_bytes_append[of M d "bytes_at rs p i" ?bs] assms(1)
    by (simp add: receiving_def received_def bytes_at_add)
  then have "receiving R a rs M d p (i + n) ?m'"
    using assms(1) st by (simp add: receiving_def received_def)
  ultimately show ?thesis using st(4,5) q by (simp add: granted_def)
qed

text \<open>The UART moves bytes: beats of one byte.\<close>

definition byte_pair ::
  "mem \<Rightarrow> (nat \<Rightarrow> pl330 \<Rightarrow> bool) \<Rightarrow> (dma_mod \<Rightarrow> nat) \<Rightarrow> u32 \<Rightarrow> dma_mod \<Rightarrow> nat \<Rightarrow> bool" where
  "byte_pair rs I R w k n \<longleftrightarrow>
     (\<forall>i m. I i m \<longrightarrow> room m = R) \<and>
     (\<forall>i m r c. I i (m\<lparr> request := r, credit := c \<rparr>) = I i m) \<and>
     (\<forall>i m c. I i m \<longrightarrow> ccr m = w \<longrightarrow> granted k c m \<longrightarrow> n \<le> c \<longrightarrow>
       (\<exists>m'. run_flat rs [DMALDx k, DMASTx k] m = Some m' \<and> I (i + n) m' \<and> ccr m' = w \<and>
             granted k (c - n) m'))"

lemma byte_pair_sending:
  assumes "src_field w = (True, 1, n)" and "dst_field w = (False, 1, n)"
  shows "byte_pair rs (sending R a M s out) R w k (if k = INST_MOD_SINGLE then 1 else n)"
proof -
  note S = src_fieldD[OF assms(1)] dst_fieldD[OF assms(2)]
  show ?thesis
    unfolding byte_pair_def
  proof (intro conjI allI impI)
    show "room m = R" if "sending R a M s out i m" for i m using that by (simp add: sending_def)
  next
    fix i m c
    let ?n = "if k = INST_MOD_SINGLE then 1 else n"
    assume m: "sending R a M s out i m" "ccr m = w" "granted k c m" "?n \<le> c"
    have "\<exists>m'. run_flat rs [DMALDx k, DMASTx k] m = Some m' \<and> sending R a M s out (i + ?n) m' \<and>
        ccr m' = ccr m \<and> granted k (c - ?n) m'"
      by (rule sending_pair[OF m(1) _ _ m(3,4)])
        (use S m(2) in \<open>simp_all add: load_beat_def load_count_def store_beat_def store_count_def\<close>)
    then show "\<exists>m'. run_flat rs [DMALDx k, DMASTx k] m = Some m' \<and> sending R a M s out (i + ?n) m' \<and>
        ccr m' = w \<and> granted k (c - ?n) m'" using m(2) by simp
  qed simp
qed

lemma byte_pair_receiving:
  assumes "src_field w = (False, 1, n)" and "dst_field w = (True, 1, n)"
  shows "byte_pair rs (receiving R a rs M d p) R w k (if k = INST_MOD_SINGLE then 1 else n)"
proof -
  note S = src_fieldD[OF assms(1)] dst_fieldD[OF assms(2)]
  show ?thesis
    unfolding byte_pair_def
  proof (intro conjI allI impI)
    show "room m = R" if "receiving R a rs M d p i m" for i m using that by (simp add: receiving_def)
  next
    fix i m c
    let ?n = "if k = INST_MOD_SINGLE then 1 else n"
    assume m: "receiving R a rs M d p i m" "ccr m = w" "granted k c m" "?n \<le> c"
    have "\<exists>m'. run_flat rs [DMALDx k, DMASTx k] m = Some m' \<and> receiving R a rs M d p (i + ?n) m' \<and>
        ccr m' = ccr m \<and> granted k (c - ?n) m'"
      by (rule receiving_pair[OF m(1) _ _ m(3,4)])
        (use S m(2) in \<open>simp_all add: load_beat_def load_count_def store_beat_def store_count_def\<close>)
    then show "\<exists>m'. run_flat rs [DMALDx k, DMASTx k] m = Some m' \<and> receiving R a rs M d p (i + ?n) m' \<and>
        ccr m' = w \<and> granted k (c - ?n) m'" using m(2) by simp
  qed simp
qed

lemma pair_after_wait:
  assumes "byte_pair rs I R w k n" and "I i m" and "ccr m = w"
  shows "\<exists>m1. run_flat rs (wait_for periph k) m = Some m1 \<and> I i m1 \<and> ccr m1 = w \<and> granted k (R k) m1"
  using assms by (auto simp: wait_for_run byte_pair_def granted_def)

lemma single_advances:
  assumes "byte_pair rs I R w INST_MOD_SINGLE 1" and "1 \<le> R INST_MOD_SINGLE"
  shows "closed_calls (move_single periph)" "advances rs I w 1 INST_MOD_SINGLE (move_single periph)"
proof -
  show c: "closed_calls (move_single periph)" by (simp add: move_single_def flat_closed)
  have u: "unroll (move_single periph) = wait_for periph INST_MOD_SINGLE @ [DMALDx INST_MOD_SINGLE, DMASTx INST_MOD_SINGLE]"
    by (simp add: move_single_def closed_flat)
  show "advances rs I w 1 INST_MOD_SINGLE (move_single periph)"
    unfolding advances_def u run_flat_append
  proof (intro allI impI)
    fix i m
    assume "I i m" "ccr m = w"
    from pair_after_wait[OF assms(1) this, of periph] obtain m1 where m1:
      "run_flat rs (wait_for periph INST_MOD_SINGLE) m = Some m1" "I i m1" "ccr m1 = w"
      "granted INST_MOD_SINGLE (R INST_MOD_SINGLE) m1" by blast
    with assms obtain m2 where "run_flat rs [DMALDx INST_MOD_SINGLE, DMASTx INST_MOD_SINGLE] m1 = Some m2"
      "I (i + 1) m2" "ccr m2 = w" "request m2 = Some INST_MOD_SINGLE"
      unfolding byte_pair_def granted_def by metis
    then show "\<exists>m'. (case run_flat rs (wait_for periph INST_MOD_SINGLE) m of None \<Rightarrow> None
        | Some m' \<Rightarrow> run_flat rs [DMALDx INST_MOD_SINGLE, DMASTx INST_MOD_SINGLE] m') = Some m' \<and>
        I (i + 1) m' \<and> ccr m' = w \<and> request m' = Some INST_MOD_SINGLE"
      unfolding m1(1) option.case by blast
  qed
qed

text \<open>A burst round: the inner loop moves 16 bytes at a time, within what the request granted.\<close>

lemma burst_pairs:
  assumes "byte_pair rs I R w INST_MOD_BURST n"
  shows "I i m \<Longrightarrow> ccr m = w \<Longrightarrow> granted INST_MOD_BURST c m \<Longrightarrow> n * q \<le> c \<Longrightarrow>
    \<exists>m'. run_flat rs (concat (replicate q [DMALDx INST_MOD_BURST, DMASTx INST_MOD_BURST, DMALPENDx INST_MOD_BURST])) m =
      Some m' \<and> I (i + n * q) m' \<and> ccr m' = w \<and> request m' = Some INST_MOD_BURST"
proof (induction q arbitrary: i m c)
  case 0
  then show ?case by (simp add: granted_def)
next
  case (Suc q)
  let ?p = "[DMALDx INST_MOD_BURST, DMASTx INST_MOD_BURST]"
  have "n \<le> c" "n * q \<le> c - n" using Suc.prems(4) by simp_all
  moreover from this(1) Suc.prems(1-3) assms obtain m1 where m1: "run_flat rs ?p m = Some m1" "I (i + n) m1" "ccr m1 = w"
    "granted INST_MOD_BURST (c - n) m1" unfolding byte_pair_def by metis
  ultimately obtain m2 where m2: "run_flat rs (concat (replicate q (?p @ [DMALPENDx INST_MOD_BURST]))) m1 = Some m2"
    "I (i + n + n * q) m2" "ccr m2 = w" "request m2 = Some INST_MOD_BURST"
    using Suc.IH by fastforce
  have "concat (replicate (Suc q) (?p @ [DMALPENDx INST_MOD_BURST])) =
      ?p @ [DMALPENDx INST_MOD_BURST] @ concat (replicate q (?p @ [DMALPENDx INST_MOD_BURST]))" by simp
  moreover have "run_flat rs [DMALPENDx INST_MOD_BURST] m1 = Some m1"
    using m1(4) by (simp add: granted_def)
  ultimately have "run_flat rs (concat (replicate (Suc q) (?p @ [DMALPENDx INST_MOD_BURST]))) m = Some m2"
    using m1(1) m2(1) by (simp only: run_flat_append option.case)
  then show ?case using m2 by (auto simp: algebra_simps)
qed

lemma burst_advances:
  assumes "byte_pair rs I R w INST_MOD_BURST 16" and "unat bs \<le> R INST_MOD_BURST" and "unat bs mod 16 = 0"
  shows "closed_calls (uart_burst periph bs)" "advances rs I w (unat bs) INST_MOD_BURST (uart_burst periph bs)"
proof -
  let ?p = "[DMALDx INST_MOD_BURST, DMASTx INST_MOD_BURST]"
  let ?q = "unat (drop_bit 4 bs)"
  have p: "closed_calls ?p" "unroll ?p = ?p" using closed_flat[of ?p] by simp_all
  note L = closed_loop(3,4)[OF p(1), of "drop_bit 4 bs" INST_MOD_BURST, unfolded p(2)]
  have e: "uart_burst periph bs = wait_for periph INST_MOD_BURST @ (DMALP (drop_bit 4 bs) # ?p @ [DMALPENDx INST_MOD_BURST])"
    by (simp add: uart_burst_def)
  have w: "closed_calls (wait_for periph INST_MOD_BURST)" "unroll (wait_for periph INST_MOD_BURST) = wait_for periph INST_MOD_BURST"
    using closed_flat[of "wait_for periph INST_MOD_BURST"] by (simp_all add: wait_for_def)
  show "closed_calls (uart_burst periph bs)" unfolding e by (intro closed_append w(1) L(1))
  have q: "16 * ?q = unat bs" using assms(3) unat_drop[of 4 bs] mult_div_mod_eq[of 16 "unat bs"] by simp
  show "advances rs I w (unat bs) INST_MOD_BURST (uart_burst periph bs)"
    unfolding advances_def e unroll_append[OF w(1)] w(2) L(2) run_flat_append
  proof (intro allI impI)
    fix i m
    assume "I i m" "ccr m = w"
    from pair_after_wait[OF assms(1) this, of periph] obtain m1 where m1:
      "run_flat rs (wait_for periph INST_MOD_BURST) m = Some m1" "I i m1" "ccr m1 = w"
      "granted INST_MOD_BURST (R INST_MOD_BURST) m1" by blast
    have "16 * ?q \<le> R INST_MOD_BURST" unfolding q by (rule assms(2))
    from burst_pairs[OF assms(1) m1(2-4) this]
    show "\<exists>m'. (case run_flat rs (wait_for periph INST_MOD_BURST) m of None \<Rightarrow> None
        | Some m' \<Rightarrow> run_flat rs (concat (replicate ?q (?p @ [DMALPENDx INST_MOD_BURST]))) m') = Some m' \<and>
        I (i + unat bs) m' \<and> ccr m' = w \<and> request m' = Some INST_MOD_BURST"
      unfolding m1(1) option.case q by simp
  qed
qed

section \<open>UART segments\<close>

lemma sint_small:
  assumes "unat (a :: u32) < 2 ^ 31"
  shows "sint a = int (unat a)"
proof -
  have u: "uint a = int (unat a)" by simp
  have "int (unat a) < int (2 ^ 31)" using assms by (simp only: of_nat_less_iff)
  then have "int (unat a) < 2 ^ 31" by (simp only: of_nat_power of_nat_numeral)
  moreover have "sint a = signed_take_bit 31 (int (unat a))" unfolding sint_uint u by simp
  ultimately show ?thesis by (simp only: signed_take_bit_int_eq_self)
qed

lemma sdiv_nat: "int m sdiv int n = int (m div n)" "int m smod int n = int (m mod n)"
  by (simp_all add: signed_divide_int_def signed_modulo_int_def zdiv_int zmod_int sgn_if)

lemma ldiv_small:
  assumes "unat a < 2 ^ 31" and "unat b < 2 ^ 31" and "ldiv a b = (q, r)"
  shows "unat q = unat a div unat b" and "unat r = unat a mod unat b"
proof -
  have u: "unat (word_of_int (int n) :: u32) = n" if "n \<le> unat a" for n
  proof -
    have "(word_of_int (int n) :: u32) = of_nat n" by simp
    moreover have "n < 2147483648" using that assms(1) by simp
    then have "n mod 2 ^ 32 = n" by simp
    ultimately show ?thesis by (simp only: unat_of_nat) simp
  qed
  have "sint a sdiv sint b = int (unat a div unat b)" "sint a smod sint b = int (unat a mod unat b)"
    unfolding sint_small[OF assms(1)] sint_small[OF assms(2)] by (rule sdiv_nat)+
  then have "q = word_of_int (int (unat a div unat b))" "r = word_of_int (int (unat a mod unat b))"
    using assms(3) by (simp_all add: ldiv_def)
  then show "unat q = unat a div unat b" "unat r = unat a mod unat b"
    using u[OF div_le_dividend] u[OF mod_less_eq_dividend] by simp_all
qed

lemma uart_fields:
  assumes "ccr_opts_ok opt"
  shows "src_field (ccr_to_reg opt (SS8 opt OR DS8 opt) (SB1 opt) (DB1 opt)) = (True, 1, 1)"
    and "dst_field (ccr_to_reg opt (SS8 opt OR DS8 opt) (SB1 opt) (DB1 opt)) = (False, 1, 1)"
    and "src_field (ccr_to_reg opt (SS8 opt OR DS8 opt) (SB16 opt) (DB16 opt)) = (True, 1, 16)"
    and "dst_field (ccr_to_reg opt (SS8 opt OR DS8 opt) (SB16 opt) (DB16 opt)) = (False, 1, 16)"
    and "src_field (ccr_from_reg opt (SS8 opt OR DS8 opt) (SB1 opt) (DB1 opt)) = (False, 1, 1)"
    and "dst_field (ccr_from_reg opt (SS8 opt OR DS8 opt) (SB1 opt) (DB1 opt)) = (True, 1, 1)"
    and "src_field (ccr_from_reg opt (SS8 opt OR DS8 opt) (SB16 opt) (DB16 opt)) = (False, 1, 16)"
    and "dst_field (ccr_from_reg opt (SS8 opt OR DS8 opt) (SB16 opt) (DB16 opt)) = (True, 1, 16)"
proof -
  have l: "(1 :: u32) \<in> lengths" "(16 :: u32) \<in> lengths" "(0 :: u32) \<in> sizes"
    by (simp_all add: lengths_def sizes_def)
  have v: "SS8 opt OR DS8 opt = push_bit 1 0 OR push_bit 15 0" "SB1 opt = sb_len 1" "DB1 opt = db_len 1"
    "SB16 opt = sb_len 16" "DB16 opt = db_len 16"
    using assms by (simp_all add: ccr_opts_ok_def sb_len_def db_len_def)
  show "src_field (ccr_to_reg opt (SS8 opt OR DS8 opt) (SB1 opt) (DB1 opt)) = (True, 1, 1)"
    "dst_field (ccr_to_reg opt (SS8 opt OR DS8 opt) (SB1 opt) (DB1 opt)) = (False, 1, 1)"
    "src_field (ccr_to_reg opt (SS8 opt OR DS8 opt) (SB16 opt) (DB16 opt)) = (True, 1, 16)"
    "dst_field (ccr_to_reg opt (SS8 opt OR DS8 opt) (SB16 opt) (DB16 opt)) = (False, 1, 16)"
    "src_field (ccr_from_reg opt (SS8 opt OR DS8 opt) (SB1 opt) (DB1 opt)) = (False, 1, 1)"
    "dst_field (ccr_from_reg opt (SS8 opt OR DS8 opt) (SB1 opt) (DB1 opt)) = (True, 1, 1)"
    "src_field (ccr_from_reg opt (SS8 opt OR DS8 opt) (SB16 opt) (DB16 opt)) = (False, 1, 16)"
    "dst_field (ccr_from_reg opt (SS8 opt OR DS8 opt) (SB16 opt) (DB16 opt)) = (True, 1, 16)"
    unfolding v
    using ccr_to_reg_fields[OF assms l(1,3)] ccr_to_reg_fields[OF assms l(2,3)]
      ccr_from_reg_fields[OF assms l(1,3)] ccr_from_reg_fields[OF assms l(2,3)] by simp_all
qed

text \<open>The singles of a segment, from any position, and its bursts followed by the singles.\<close>

lemma uart_single_runs:
  assumes "byte_pair rs I R w INST_MOD_SINGLE 1" and "1 \<le> R INST_MOD_SINGLE"
    and "\<And>i m. I i m \<Longrightarrow> I i (m\<lparr> ccr := w \<rparr>)"
  shows "closed_calls (DMAMOV CCR w # counted_loops (move_single periph) (DMALPENDx INST_MOD_SINGLE) n)"
    and "runs rs (I i) (DMAMOV CCR w # counted_loops (move_single periph) (DMALPENDx INST_MOD_SINGLE) n)
      (I (i + unat n))"
proof -
  note C = runs_counted[OF single_advances[OF assms(1,2), of periph] _ assms(3),
      where fin = "DMALPENDx INST_MOD_SINGLE" and n = n]
  show "closed_calls (DMAMOV CCR w # counted_loops (move_single periph) (DMALPENDx INST_MOD_SINGLE) n)"
    and "runs rs (I i) (DMAMOV CCR w # counted_loops (move_single periph) (DMALPENDx INST_MOD_SINGLE) n)
      (I (i + unat n))"
    using C(1) C(2)[where i = i] by simp_all
qed

lemma uart_segment_runs:
  fixes periph :: dma_periph
  assumes single: "byte_pair rs I R w INST_MOD_SINGLE 1" and burst: "byte_pair rs I R v INST_MOD_BURST 16"
    and room: "1 \<le> R INST_MOD_SINGLE" "unat bs \<le> R INST_MOD_BURST"
    and bs: "unat bs mod 16 = 0" "unat bs < 2 ^ 31"
    and ccr: "\<And>i m u. I i m \<Longrightarrow> I i (m\<lparr> ccr := u \<rparr>)"
    and sz: "unat sz < 2 ^ 31" "ldiv sz bs = (q, r)"
  defines "b \<equiv> (if q \<noteq> 0 then DMAMOV CCR v # counted_loops (uart_burst periph bs) (DMALPENDx INST_MOD_BURST) q
      else [])"
    and "t \<equiv> (if r \<noteq> 0 then DMAMOV CCR w # counted_loops (move_single periph) (DMALPENDx INST_MOD_SINGLE) r
      else [])"
  shows "closed_calls (b @ t)" and "runs rs (I 0) (b @ t) (I (unat sz))"
proof -
  note D = ldiv_small[OF sz(1) bs(2) sz(2)]
  have n: "unat bs * unat q + unat r = unat sz" unfolding D by simp
  note B = runs_counted[OF burst_advances[OF burst room(2) bs(1), of periph] _ ccr,
      where fin = "DMALPENDx INST_MOD_BURST" and n = q]
  have b: "closed_calls b" "runs rs (I 0) b (I (unat bs * unat q))"
    using B(1) B(2)[where i = 0] by (auto simp: b_def)
  note T = uart_single_runs[OF single room(1) ccr, where periph = periph and n = r]
  have t: "closed_calls t" "runs rs (I (unat bs * unat q)) t (I (unat sz))"
    using T(1) T(2)[where i = "unat bs * unat q"] by (auto simp: t_def n [symmetric])
  show "closed_calls (b @ t)" by (intro closed_append b(1) t(1))
  show "runs rs (I 0) (b @ t) (I (unat sz))" by (rule runs_append[OF b t(2)])
qed

definition starts_at :: "pl330 \<Rightarrow> (dma_mod \<Rightarrow> nat) \<Rightarrow> pl330 \<Rightarrow> bool" where
  "starts_at m0 R m \<longleftrightarrow> m = m0 \<and> mfifo m = [] \<and> room m = R"

definition starts_dev :: "pl330 \<Rightarrow> (dma_mod \<Rightarrow> nat) \<Rightarrow> pl330 \<Rightarrow> bool" where
  "starts_dev m0 R m \<longleftrightarrow> starts_at m0 R m \<and> sar m0 \<notin> cells m0"

lemma starts_sending:
  "runs rs (starts_at m0 R) [DMAMOV SAR pa] (sending R (dar m0) (memory m0) (unat pa) (reg_out m0) 0)"
  by (auto simp: runs_flat sending_def sent_def starts_at_def)

lemma starts_receiving:
  "runs rs (starts_dev m0 R) [DMAMOV DAR pa] (receiving R (sar m0) rs (memory m0) (unat pa) (reg_in m0) 0)"
  by (auto simp: runs_flat receiving_def received_def starts_dev_def starts_at_def store_bytes_def fun_eq_iff)

lemma to_16550_runs:
  assumes "ccr_opts_ok opt" and "1 \<le> R INST_MOD_SINGLE"
  shows "closed_calls (DMAMOV SAR pa # to_16550_single opt periph sz)"
    and "runs rs (starts_at m0 R) (DMAMOV SAR pa # to_16550_single opt periph sz)
      (sending R (dar m0) (memory m0) (unat pa) (reg_out m0) (unat sz))"
    and "unat sz < 2 ^ 31 \<Longrightarrow> unat bs < 2 ^ 31 \<Longrightarrow> unat bs mod 16 = 0 \<Longrightarrow> unat bs \<le> R INST_MOD_BURST \<Longrightarrow>
      closed_calls (to_16550_calls opt periph bs pa sz) \<and>
      runs rs (starts_at m0 R) (to_16550_calls opt periph bs pa sz)
        (sending R (dar m0) (memory m0) (unat pa) (reg_out m0) (unat sz))"
proof -
  let ?I = "sending R (dar m0) (memory m0) (unat pa) (reg_out m0)"
  note F = uart_fields[OF assms(1)]
  let ?w = "ccr_to_reg opt (SS8 opt OR DS8 opt) (SB1 opt) (DB1 opt)"
  let ?v = "ccr_to_reg opt (SS8 opt OR DS8 opt) (SB16 opt) (DB16 opt)"
  have S: "byte_pair rs ?I R ?w INST_MOD_SINGLE 1" and B: "byte_pair rs ?I R ?v INST_MOD_BURST 16"
    using byte_pair_sending[OF F(1,2), where k = INST_MOD_SINGLE]
      byte_pair_sending[OF F(3,4), where k = INST_MOD_BURST] by simp_all
  have mov: "closed_calls [DMAMOV SAR pa]" by (simp add: flat_closed)
  have ccr: "?I i m \<Longrightarrow> ?I i (m\<lparr> ccr := u \<rparr>)" for i m u by simp
  note single = uart_single_runs[OF S assms(2) ccr,
      where periph = periph and n = sz, folded to_16550_single_def]
  show "closed_calls (DMAMOV SAR pa # to_16550_single opt periph sz)"
    using single(1) by (rule closed_mov)
  show "runs rs (starts_at m0 R) (DMAMOV SAR pa # to_16550_single opt periph sz) (?I (unat sz))"
    using runs_append[OF mov starts_sending single(2)[where i = 0]] by simp
  assume sz: "unat sz < 2 ^ 31" "unat bs < 2 ^ 31" "unat bs mod 16 = 0" "unat bs \<le> R INST_MOD_BURST"
  obtain q r where qr: "ldiv sz bs = (q, r)" by force
  note seg = uart_segment_runs[OF S B assms(2) sz(4,3,2) ccr sz(1) qr, of periph,
      folded to_16550_single_def to_16550_burst_def]
  have e: "to_16550_calls opt periph bs pa sz = [DMAMOV SAR pa] @
      ((if q \<noteq> 0 then to_16550_burst opt periph bs q else []) @
       (if r \<noteq> 0 then to_16550_single opt periph r else []))"
    by (simp add: to_16550_calls_def qr)
  show "closed_calls (to_16550_calls opt periph bs pa sz) \<and>
      runs rs (starts_at m0 R) (to_16550_calls opt periph bs pa sz) (?I (unat sz))"
    unfolding e by (intro conjI closed_append mov seg(1) runs_append[OF mov starts_sending seg(2)])
qed

lemma from_16550_runs:
  assumes "ccr_opts_ok opt" and "1 \<le> R INST_MOD_SINGLE"
  shows "closed_calls (DMAMOV DAR pa # from_16550_single opt periph sz)"
    and "runs rs (starts_dev m0 R) (DMAMOV DAR pa # from_16550_single opt periph sz)
      (receiving R (sar m0) rs (memory m0) (unat pa) (reg_in m0) (unat sz))"
    and "unat sz < 2 ^ 31 \<Longrightarrow> unat bs < 2 ^ 31 \<Longrightarrow> unat bs mod 16 = 0 \<Longrightarrow> unat bs \<le> R INST_MOD_BURST \<Longrightarrow>
      closed_calls (from_16550_calls opt periph bs pa sz) \<and>
      runs rs (starts_dev m0 R) (from_16550_calls opt periph bs pa sz)
        (receiving R (sar m0) rs (memory m0) (unat pa) (reg_in m0) (unat sz))"
proof -
  let ?I = "receiving R (sar m0) rs (memory m0) (unat pa) (reg_in m0)"
  note F = uart_fields[OF assms(1)]
  let ?w = "ccr_from_reg opt (SS8 opt OR DS8 opt) (SB1 opt) (DB1 opt)"
  let ?v = "ccr_from_reg opt (SS8 opt OR DS8 opt) (SB16 opt) (DB16 opt)"
  have S: "byte_pair rs ?I R ?w INST_MOD_SINGLE 1" and B: "byte_pair rs ?I R ?v INST_MOD_BURST 16"
    using byte_pair_receiving[OF F(5,6), where k = INST_MOD_SINGLE]
      byte_pair_receiving[OF F(7,8), where k = INST_MOD_BURST] by simp_all
  have mov: "closed_calls [DMAMOV DAR pa]" by (simp add: flat_closed)
  have ccr: "?I i m \<Longrightarrow> ?I i (m\<lparr> ccr := u \<rparr>)" for i m u by simp
  note single = uart_single_runs[OF S assms(2) ccr,
      where periph = periph and n = sz, folded from_16550_single_def]
  show "closed_calls (DMAMOV DAR pa # from_16550_single opt periph sz)"
    using single(1) by (rule closed_mov)
  show "runs rs (starts_dev m0 R) (DMAMOV DAR pa # from_16550_single opt periph sz) (?I (unat sz))"
    using runs_append[OF mov starts_receiving single(2)[where i = 0]] by simp
  assume sz: "unat sz < 2 ^ 31" "unat bs < 2 ^ 31" "unat bs mod 16 = 0" "unat bs \<le> R INST_MOD_BURST"
  obtain q r where qr: "ldiv sz bs = (q, r)" by force
  note seg = uart_segment_runs[OF S B assms(2) sz(4,3,2) ccr sz(1) qr, of periph,
      folded from_16550_single_def from_16550_burst_def]
  have e: "from_16550_calls opt periph bs pa sz = [DMAMOV DAR pa] @
      ((if q \<noteq> 0 then from_16550_burst opt periph bs q else []) @
       (if r \<noteq> 0 then from_16550_single opt periph r else []))"
    by (simp add: from_16550_calls_def qr)
  show "closed_calls (from_16550_calls opt periph bs pa sz) \<and>
      runs rs (starts_dev m0 R) (from_16550_calls opt periph bs pa sz) (?I (unat sz))"
    unfolding e by (intro conjI closed_append mov seg(1) runs_append[OF mov starts_receiving seg(2)])
qed

section \<open>The frame of a peripheral transfer\<close>

definition emits_at ::
  "('p \<Rightarrow> dma_call list) \<Rightarrow> 'p dma_state \<Rightarrow> ('p, status option) dma \<Rightarrow> dma_call list \<Rightarrow> bool" where
  "emits_at calls s m cs \<longleftrightarrow>
     (\<exists>st s'. run_state m s = (Some st, s') \<and> writes (bus s') = writes (bus s) \<and> scratch s' = scratch s \<and>
        (st = ALT_E_SUCCESS \<longrightarrow> calls (program s') = calls (program s) @ cs))"

text \<open>The same of a body that leaves the words \<open>ws\<close> in the scratch space.\<close>

definition emits_leaving ::
  "('p \<Rightarrow> dma_call list) \<Rightarrow> 'p dma_state \<Rightarrow> ('p, status option) dma \<Rightarrow> dma_call list \<Rightarrow> u32 list \<Rightarrow> bool" where
  "emits_leaving calls s m cs ws \<longleftrightarrow>
     (\<exists>st s'. run_state m s = (Some st, s') \<and> writes (bus s') = writes (bus s) \<and>
        (st = ALT_E_SUCCESS \<longrightarrow> calls (program s') = calls (program s) @ cs \<and> scratch s' = ws))"

lemma emits_at_leaving: "emits_at calls s m cs \<Longrightarrow> emits_leaving calls s m cs (scratch s)"
  by (auto simp: emits_at_def emits_leaving_def)

text \<open>A started program that relies on the scratch words the driver left.\<close>

definition starts_from ::
  "('p, 'c) dma_env \<Rightarrow> ('p \<Rightarrow> dma_call list) \<Rightarrow> nat \<Rightarrow> (u32 list \<Rightarrow> pl330 \<Rightarrow> bool) \<Rightarrow>
   (mem \<Rightarrow> pl330 \<Rightarrow> pl330 \<Rightarrow> bool) \<Rightarrow> 'p dma_state \<Rightarrow> status option \<times> 'p dma_state \<Rightarrow> bool" where
  "starts_from E calls channel P Q s res \<longleftrightarrow>
     (case res of (r, s') \<Rightarrow>
        if r = Some ALT_E_SUCCESS
        then performs_when (P (scratch s')) (calls (program s')) Q \<and>
          writes (bus s') = writes (bus s) @ start_writes E channel (program s')
        else r \<noteq> None \<and> writes (bus s') = writes (bus s))"

lemma starts_when_from: "starts_when E calls channel P Q s res \<longleftrightarrow> starts_from E calls channel (\<lambda>_. P) Q s res"
  by (simp add: starts_when_def starts_from_def)

lemma finish_from:
  assumes "assembler E calls" and "st1 = ALT_E_SUCCESS \<Longrightarrow> calls (program s1) = cs"
    and "run_state (finish_program E channel wmb send_evt evt st1) s1 = (st, s')"
  shows "transfer_result E calls channel (cs @ closing wmb send_evt evt) s1 st s'"
proof -
  let ?b = "State (\<lambda>s. (st1, s\<lparr> program := program s1 \<rparr>))"
  have "assembles calls ?b cs" using assms(2) by (auto simp: assembles_def)
  then show ?thesis
    by (rule finish_result[OF assms(1)]) (use assms(3) in \<open>simp add: State_Monad.bind_def\<close>)
qed

lemma periph_transfer_starts_from:
  assumes "assembler E calls" and "sz \<noteq> 0"
    and "\<And>s1. bus s1 = bus s \<Longrightarrow> scratch s1 = scratch s \<Longrightarrow> emits_leaving calls s1 body cs ws"
    and "\<And>s1 s2. bus s1 = bus s \<Longrightarrow> run_state body s1 = (Some ALT_E_SUCCESS, s2) \<Longrightarrow>
      performs_when (P ws) (cs @ closing False send_evt evt) Q"
  shows "starts_from E calls channel P Q s
    (run_state (periph_transfer E channel body buf sz send_evt evt) s)"
proof -
  obtain st1 s1 where i: "run_state (on_program (program_init E)) s = (st1, s1)" by force
  then have s1: "bus s1 = bus s" "scratch s1 = scratch s" "st1 = ALT_E_SUCCESS \<Longrightarrow> calls (program s1) = []"
    using assembles_init[OF assms(1)] unfolding assembles_def by blast+
  show ?thesis
  proof (cases "st1 = ALT_E_SUCCESS")
    case False
    then show ?thesis
      using i s1 assms(2) finish_fails[OF False, of E channel False send_evt evt s1]
      by (simp add: periph_transfer_def starts_from_def)
  next
    case True
    show ?thesis
    proof (cases "buf + sz - 1 < buf")
      case True
      then show ?thesis
        using i s1 assms(2) \<open>st1 = ALT_E_SUCCESS\<close> by (simp add: periph_transfer_def starts_from_def)
    next
      case False
      obtain st2 s2 where b: "run_state body s1 = (Some st2, s2)" "writes (bus s2) = writes (bus s)"
        "st2 = ALT_E_SUCCESS \<Longrightarrow> calls (program s2) = cs" "st2 = ALT_E_SUCCESS \<Longrightarrow> scratch s2 = ws"
        using assms(3)[OF s1(1,2)] s1 True unfolding emits_leaving_def by auto
      obtain st s' where f: "run_state (finish_program E channel False send_evt evt st2) s2 = (st, s')" by force
      have "run_state (periph_transfer E channel body buf sz send_evt evt) s = (Some st, s')"
        using i b(1) f False True assms(2) by (simp add: periph_transfer_def)
      moreover have "transfer_result E calls channel (cs @ closing False send_evt evt) s2 st s'"
        by (rule finish_from[OF assms(1) b(3) f])
      ultimately show ?thesis
        using assms(4)[OF s1(1)] b finish_fails[of st2 E channel False send_evt evt s2] f
          finish_scratch[OF assms(1) f]
        by (cases "st2 = ALT_E_SUCCESS") (auto simp: starts_from_def transfer_result_def split: if_splits)
    qed
  qed
qed

lemma periph_transfer_starts:
  assumes "assembler E calls" and "sz \<noteq> 0"
    and "\<And>s1. bus s1 = bus s \<Longrightarrow> emits_at calls s1 body cs"
    and "\<And>s1 s2. bus s1 = bus s \<Longrightarrow> run_state body s1 = (Some ALT_E_SUCCESS, s2) \<Longrightarrow>
      performs_when P (cs @ closing False send_evt evt) Q"
  shows "starts_when E calls channel P Q s
    (run_state (periph_transfer E channel body buf sz send_evt evt) s)"
  unfolding starts_when_from
proof (rule periph_transfer_starts_from[OF assms(1,2) _ assms(4)])
  show "emits_leaving calls s1 body cs (scratch s)" if "bus s1 = bus s" "scratch s1 = scratch s" for s1
    using emits_at_leaving[OF assms(3)[OF that(1)]] that(2) by simp
qed

lemma over_segments_one:
  assumes "weak_mmu E" and "sz \<noteq> 0"
  shows "run_state (over_segments (Suc fuel) E seg buf sz status) s =
    (case run_state (segment_body E seg buf sz status) s of (st, s1) \<Rightarrow> (Some st, s1))"
proof -
  obtain st c where b: "coalesce_begin E buf sz = (st, c)" by force
  show ?thesis
  proof (cases "status = ALT_E_SUCCESS \<and> st = ALT_E_SUCCESS")
    case True
    then have "c = one_segment buf sz" using weak_begin[OF assms(1)] b by blast
    then show ?thesis
      using True b by (simp add: over_segments_def segment_body_def guarded_def segments_one[OF assms]
          weak_coalesce(2)[OF assms(1)] split: prod.split)
  next
    case False
    then show ?thesis
      using b by (auto simp: over_segments_def segment_body_def guarded_def segments_end split: prod.split)
  qed
qed

lemma over_segments_emit:
  assumes "weak_mmu E" and "sz \<noteq> 0" and "emits calls (seg buf sz) cs"
  shows "emits_at calls s (over_segments (Suc fuel) E seg buf sz status) cs"
proof -
  let ?m = "segment_body E seg buf sz status"
  obtain st s1 where r: "run_state ?m s = (st, s1)" by force
  have "emits calls ?m cs"
    unfolding segment_body_def by (intro emits_guarded assms(3))
  with r have "bus s1 = bus s" "scratch s1 = scratch s"
    "st = ALT_E_SUCCESS \<longrightarrow> calls (program s1) = calls (program s) @ cs"
    unfolding emits_def by blast+
  then show ?thesis
    unfolding emits_at_def over_segments_one[OF assms(1,2)] using r by simp
qed

lemma over_segments_emits:
  assumes "weak_mmu E" and "assembler E calls" and "sz \<noteq> 0"
  shows "emits_at calls s (over_segments (Suc fuel) E (\<lambda>pa n. emit_all E (f pa n)) buf sz status) (f buf sz)"
  by (intro over_segments_emit[OF assms(1,3)] emits_all assms(2))

text \<open>A register move and whatever follows it.\<close>

lemma emits_at_move:
  assumes "assembler E calls"
    and "\<And>st s1. bus s1 = bus s \<Longrightarrow> emits_at calls s1 (f st) cs"
    and "\<And>st s1. st \<noteq> ALT_E_SUCCESS \<Longrightarrow> bus s1 = bus s \<Longrightarrow>
      \<exists>st' s2. run_state (f st) s1 = (Some st', s2) \<and> st' \<noteq> ALT_E_SUCCESS \<and> writes (bus s2) = writes (bus s) \<and>
        scratch s2 = scratch s1"
  shows "emits_at calls s (do { status \<leftarrow> emit E c; f status }) (c # cs)"
proof -
  obtain st s1 where r: "run_state (emit E c) s = (st, s1)" by force
  with emits_emit[OF assms(1), of c] have s1: "bus s1 = bus s" "scratch s1 = scratch s"
    "st = ALT_E_SUCCESS \<Longrightarrow> calls (program s1) = calls (program s) @ [c]"
    unfolding emits_def by blast+
  show ?thesis
  proof (cases "st = ALT_E_SUCCESS")
    case True
    with assms(2)[OF s1(1), of st] s1 r show ?thesis by (auto simp: emits_at_def)
  next
    case False
    from assms(3)[OF this s1(1)] r s1(2) show ?thesis by (auto simp: emits_at_def)
  qed
qed


section \<open>UART transfers\<close>

text \<open>
  What the UART grants: one byte for a single request, and for a burst request, which it raises
  at its trigger level, as many bytes as the FIFO then has free (to send) or holds (to receive).
\<close>

definition tx_room :: "uart_tx_trigger \<Rightarrow> nat \<Rightarrow> nat" where
  "tx_room t fifo = fifo - (case t of
     ALT_16550_FIFO_TRIGGER_TX_EMPTY \<Rightarrow> 0
   | ALT_16550_FIFO_TRIGGER_TX_ALMOST_EMPTY \<Rightarrow> 2
   | ALT_16550_FIFO_TRIGGER_TX_QUARTER_FULL \<Rightarrow> fifo div 4
   | ALT_16550_FIFO_TRIGGER_TX_HALF_FULL \<Rightarrow> fifo div 2)"

definition rx_fill :: "uart_rx_trigger \<Rightarrow> nat \<Rightarrow> nat" where
  "rx_fill t fifo = (case t of
     ALT_16550_FIFO_TRIGGER_RX_ANY \<Rightarrow> 1
   | ALT_16550_FIFO_TRIGGER_RX_QUARTER_FULL \<Rightarrow> fifo div 4
   | ALT_16550_FIFO_TRIGGER_RX_HALF_FULL \<Rightarrow> fifo div 2
   | ALT_16550_FIFO_TRIGGER_RX_ALMOST_FULL \<Rightarrow> fifo - 2)"

definition uart_fifo_size :: "periph_env \<Rightarrow> u32 \<Rightarrow> nat" where
  "uart_fifo_size P cpr = 16 * unat (UART_CPR_FIFO_MOD_GET P cpr)"

definition grants :: "nat \<Rightarrow> pl330 \<Rightarrow> bool" where
  "grants n m \<longleftrightarrow> 1 \<le> room m INST_MOD_SINGLE \<and> n \<le> room m INST_MOD_BURST"

definition uart_tx_room :: "periph_env \<Rightarrow> uart_handle \<Rightarrow> u32 \<Rightarrow> nat" where
  "uart_tx_room P h cpr = (if UART_FCR_FIFOE_GET P (fcr h) = 0 then 0
     else case UART_FCR_TET_GET P (fcr h) of None \<Rightarrow> 0 | Some t \<Rightarrow> tx_room t (uart_fifo_size P cpr))"

definition uart_rx_fill :: "periph_env \<Rightarrow> uart_handle \<Rightarrow> u32 \<Rightarrow> nat" where
  "uart_rx_fill P h cpr = (if UART_FCR_FIFOE_GET P (fcr h) = 0 then 0
     else case UART_FCR_RT_GET P (fcr h) of None \<Rightarrow> 0 | Some t \<Rightarrow> rx_fill t (uart_fifo_size P cpr))"

lemma unat_times_16:
  assumes "16 * unat (v :: u32) < 2 ^ 32"
  shows "unat (push_bit 4 v) = 16 * unat v"
proof -
  have "unat (v * 16) = unat v * unat (16 :: u32)"
    by (rule unat_mult_lem [THEN iffD1]) (use assms in simp)
  then show ?thesis by (simp add: push_bit_eq_mult)
qed

lemma fifo_size: "unat (v :: u32) < 256 \<Longrightarrow> unat (push_bit 4 v) = 16 * unat v"
  by (rule unat_times_16) simp

lemma tx_burst_size_room:
  assumes "0 < unat v" and "unat v < 256"
  shows "unat (tx_burst_size t (push_bit 4 v)) = tx_room t (16 * unat v)"
proof -
  note F = fifo_size[OF assms(2)]
  have "(2 :: u32) \<le> push_bit 4 v" unfolding word_le_nat_alt F using assms(1) by simp
  then have "unat (push_bit 4 v - 2) = 16 * unat v - 2" by (simp add: unat_sub F)
  moreover have "unat (3 * drop_bit 2 (push_bit 4 v)) = 12 * unat v"
    using assms(2) by (simp add: unat_mult_lem [THEN iffD1] unat_drop F)
  ultimately show ?thesis
    using F by (cases t) (simp_all add: tx_burst_size_def tx_room_def unat_drop)
qed

lemma rx_burst_size_fill:
  assumes "0 < unat v" and "unat v < 256"
  shows "unat (rx_burst_size t (push_bit 4 v)) = rx_fill t (16 * unat v)"
proof -
  note F = fifo_size[OF assms(2)]
  have "(2 :: u32) \<le> push_bit 4 v" unfolding word_le_nat_alt F using assms(1) by simp
  then have "unat (push_bit 4 v - 2) = 16 * unat v - 2" by (simp add: unat_sub F)
  then show ?thesis
    using F by (cases t) (simp_all add: rx_burst_size_def rx_fill_def unat_drop)
qed

text \<open>The burst size as the programs use it: trimmed to whole bursts of 16 beats.\<close>

lemma trimmed:
  "unat (b AND NOT 0xf :: u32) mod 16 = 0" "unat (b AND NOT 0xf :: u32) \<le> unat b"
proof -
  have "(0xf :: u32) = mask 4" by (simp add: mask_eq_exp_minus_1)
  moreover have "b AND NOT (mask 4) = push_bit 4 (drop_bit 4 b)"
    by (rule bit_word_eqI) (auto simp: bit_simps)
  ultimately have e: "b AND NOT 0xf = push_bit 4 (drop_bit 4 b)" by simp
  have d: "unat (drop_bit 4 b) = unat b div 16" by (simp add: unat_drop)
  have "unat b < 2 ^ 32" using unsigned_less[where ?'a = nat, of b] by simp
  then have "unat (b AND NOT 0xf) = 16 * (unat b div 16)"
    unfolding e d [symmetric] by (intro unat_times_16) (simp add: d)
  then show "unat (b AND NOT 0xf :: u32) mod 16 = 0" "unat (b AND NOT 0xf :: u32) \<le> unat b" by simp_all
qed

text \<open>What the two UART functions assemble.\<close>

definition to_uart_calls :: "ccr_opts \<Rightarrow> periph_env \<Rightarrow> dma_periph \<Rightarrow> uart_handle \<Rightarrow> u32 \<Rightarrow> u32 \<Rightarrow> u32 \<Rightarrow> dma_call list" where
  "to_uart_calls opt P periph h cpr src sz =
     (let single = DMAMOV SAR src # to_16550_single opt periph sz
      in if UART_FCR_FIFOE_GET P (fcr h) = 0 then single
         else case UART_FCR_TET_GET P (fcr h) of None \<Rightarrow> []
            | Some t \<Rightarrow>
                let b = tx_burst_size t (push_bit 4 (UART_CPR_FIFO_MOD_GET P cpr))
                in if b < 16 then single else to_16550_calls opt periph (b AND NOT 0xf) src sz)"

definition from_uart_calls :: "ccr_opts \<Rightarrow> periph_env \<Rightarrow> dma_periph \<Rightarrow> uart_handle \<Rightarrow> u32 \<Rightarrow> u32 \<Rightarrow> u32 \<Rightarrow> dma_call list" where
  "from_uart_calls opt P periph h cpr dst sz =
     (let single = DMAMOV DAR dst # from_16550_single opt periph sz
      in if UART_FCR_FIFOE_GET P (fcr h) = 0 then single
         else case UART_FCR_RT_GET P (fcr h) of None \<Rightarrow> []
            | Some t \<Rightarrow>
                let b = rx_burst_size t (push_bit 4 (UART_CPR_FIFO_MOD_GET P cpr))
                in if b < 16 then single else from_16550_calls opt periph (b AND NOT 0xf) dst sz)"

lemma to_uart_runs:
  fixes v :: u32
  assumes "ccr_opts_ok opt" and "grants (uart_tx_room P h cpr) m0" and "room m0 = R"
    and "UART_FCR_FIFOE_GET P (fcr h) \<noteq> 0 \<Longrightarrow> UART_FCR_TET_GET P (fcr h) \<noteq> None \<and>
      0 < unat (UART_CPR_FIFO_MOD_GET P cpr) \<and> unat (UART_CPR_FIFO_MOD_GET P cpr) < 256"
    and "unat sz < 2 ^ 31"
  shows "closed_calls (to_uart_calls opt P periph h cpr src sz)"
    and "runs rs (starts_at m0 R) (to_uart_calls opt P periph h cpr src sz)
      (sending R (dar m0) (memory m0) (unat src) (reg_out m0) (unat sz))"
proof -
  have room: "1 \<le> R INST_MOD_SINGLE" "uart_tx_room P h cpr \<le> R INST_MOD_BURST"
    using assms(2,3) by (auto simp: grants_def)
  note T = to_16550_runs[where R = R, OF assms(1) room(1)]
  have *: "closed_calls (to_uart_calls opt P periph h cpr src sz) \<and>
      runs rs (starts_at m0 R) (to_uart_calls opt P periph h cpr src sz)
        (sending R (dar m0) (memory m0) (unat src) (reg_out m0) (unat sz))"
  proof (cases "UART_FCR_FIFOE_GET P (fcr h) = 0")
    case True
    then show ?thesis using T(1,2) by (simp add: to_uart_calls_def)
  next
    case False
    let ?v = "UART_CPR_FIFO_MOD_GET P cpr"
    from assms(4)[OF False] obtain t where t: "UART_FCR_TET_GET P (fcr h) = Some t" "0 < unat ?v" "unat ?v < 256"
      by blast
    let ?b = "tx_burst_size t (push_bit 4 ?v)"
    have b: "unat ?b = uart_tx_room P h cpr" "unat ?b < 2 ^ 31"
      using False t tx_burst_size_room[OF t(2,3), of t]
      by (simp_all add: uart_tx_room_def uart_fifo_size_def tx_room_def)
    note b16 = trimmed[of ?b]
    have "unat (?b AND NOT 0xf) < 2 ^ 31" "unat (?b AND NOT 0xf) \<le> R INST_MOD_BURST"
      using b16(2) b room(2) by linarith+
    from T(3)[OF assms(5) this(1) b16(1) this(2)] T(1,2)
    show ?thesis using False t(1) by (simp add: to_uart_calls_def Let_def)
  qed
  then show "closed_calls (to_uart_calls opt P periph h cpr src sz)"
    and "runs rs (starts_at m0 R) (to_uart_calls opt P periph h cpr src sz)
      (sending R (dar m0) (memory m0) (unat src) (reg_out m0) (unat sz))" by blast+
qed

lemma from_uart_runs:
  fixes v :: u32
  assumes "ccr_opts_ok opt" and "grants (uart_rx_fill P h cpr) m0" and "room m0 = R"
    and "UART_FCR_FIFOE_GET P (fcr h) \<noteq> 0 \<Longrightarrow> UART_FCR_RT_GET P (fcr h) \<noteq> None \<and>
      0 < unat (UART_CPR_FIFO_MOD_GET P cpr) \<and> unat (UART_CPR_FIFO_MOD_GET P cpr) < 256"
    and "unat sz < 2 ^ 31"
  shows "closed_calls (from_uart_calls opt P periph h cpr dst sz)"
    and "runs rs (starts_dev m0 R) (from_uart_calls opt P periph h cpr dst sz)
      (receiving R (sar m0) rs (memory m0) (unat dst) (reg_in m0) (unat sz))"
proof -
  have room: "1 \<le> R INST_MOD_SINGLE" "uart_rx_fill P h cpr \<le> R INST_MOD_BURST"
    using assms(2,3) by (auto simp: grants_def)
  note T = from_16550_runs[where R = R, OF assms(1) room(1)]
  have *: "closed_calls (from_uart_calls opt P periph h cpr dst sz) \<and>
      runs rs (starts_dev m0 R) (from_uart_calls opt P periph h cpr dst sz)
        (receiving R (sar m0) rs (memory m0) (unat dst) (reg_in m0) (unat sz))"
  proof (cases "UART_FCR_FIFOE_GET P (fcr h) = 0")
    case True
    then show ?thesis using T(1,2) by (simp add: from_uart_calls_def)
  next
    case False
    let ?v = "UART_CPR_FIFO_MOD_GET P cpr"
    from assms(4)[OF False] obtain t where t: "UART_FCR_RT_GET P (fcr h) = Some t" "0 < unat ?v" "unat ?v < 256"
      by blast
    let ?b = "rx_burst_size t (push_bit 4 ?v)"
    have "unat ?b = rx_fill t (16 * unat ?v)" by (rule rx_burst_size_fill[OF t(2,3)])
    moreover have "rx_fill t (16 * unat ?v) < 2 ^ 31"
      using t(3) by (cases t) (simp_all add: rx_fill_def)
    ultimately have b: "unat ?b = uart_rx_fill P h cpr" "unat ?b < 2 ^ 31"
      using False t by (simp_all add: uart_rx_fill_def uart_fifo_size_def)
    note b16 = trimmed[of ?b]
    have "unat (?b AND NOT 0xf) < 2 ^ 31" "unat (?b AND NOT 0xf) \<le> R INST_MOD_BURST"
      using b16(2) b room(2) by linarith+
    from T(3)[OF assms(5) this(1) b16(1) this(2)] T(1,2)
    show ?thesis using False t(1) by (simp add: from_uart_calls_def Let_def)
  qed
  then show "closed_calls (from_uart_calls opt P periph h cpr dst sz)"
    and "runs rs (starts_dev m0 R) (from_uart_calls opt P periph h cpr dst sz)
      (receiving R (sar m0) rs (memory m0) (unat dst) (reg_in m0) (unat sz))" by blast+
qed

text \<open>The drivers assemble these programs.\<close>

lemma emits_at_guarded:
  assumes "emits_at calls s m cs"
  shows "emits_at calls s (guarded_opt status m) cs"
  using assms by (auto simp: guarded_opt_def emits_at_def)

lemma emits_at_read:
  assumes "\<And>s1. writes (bus s1) = writes (bus s) \<Longrightarrow> program s1 = program s \<Longrightarrow>
      emits_at calls s1 (f (regs E (bus s) a)) cs"
  shows "emits_at calls s (do { v \<leftarrow> on_bus (alt_read_word (regs E) a); f v }) cs"
proof -
  let ?s1 = "s\<lparr> bus := bus s @ [Rd a (regs E (bus s) a)] \<rparr>"
  have "emits_at calls ?s1 (f (regs E (bus s) a)) cs" by (rule assms) simp_all
  moreover have "run_state (do { v \<leftarrow> on_bus (alt_read_word (regs E) a); f v }) s =
      run_state (f (regs E (bus s) a)) ?s1" by (simp add: on_bus_def bus_simps)
  ultimately show ?thesis by (simp add: emits_at_def)
qed

lemma emits_at_return [simp]: "st \<noteq> ALT_E_SUCCESS \<Longrightarrow> emits_at calls s (State_Monad.return (Some st)) cs"
  by (simp add: emits_at_def)

lemmas uart_driver_defs = alt_dma_memory_to_16550_single_def alt_dma_memory_to_16550_burst_def
  alt_dma_16550_to_memory_single_def alt_dma_16550_to_memory_burst_def

lemma memory_to_16550_emits:
  assumes "weak_mmu E" and "assembler E calls" and "sz \<noteq> 0"
  shows "emits_at calls s (alt_dma_memory_to_16550 (Suc fuel) E P periph h src sz)
    (DMAMOV DAR (UART_RBR_THR_DLL_ADDR P (location h)) #
     to_uart_calls (opts E) P periph h (regs E (bus s) (UART_CPR_ADDR P (location h))) src sz)"
  unfolding alt_dma_memory_to_16550_def
proof (rule emits_at_move[OF assms(2)], goal_cases)
  case (1 st s1)
  note S = over_segments_emits[OF assms, where fuel = fuel]
  show ?case
    unfolding 1 [symmetric] uart_driver_defs
    by (cases "UART_FCR_FIFOE_GET P (fcr h) = 0")
      (auto simp: to_uart_calls_def Let_def S
          S[where f = "\<lambda>pa n. DMAMOV SAR pa # to_16550_single (opts E) periph n"] simp del: emit_all.simps
        intro!: emits_at_guarded emits_at_read split: option.split)
next
  case (2 st s1)
  then show ?case
    by (auto simp: guarded_opt_def on_bus_def bus_simps Let_def split: option.split)
qed

lemma memory_from_16550_emits:
  assumes "weak_mmu E" and "assembler E calls" and "sz \<noteq> 0"
  shows "emits_at calls s (alt_dma_16550_to_memory (Suc fuel) E P periph h dst sz)
    (DMAMOV SAR (UART_RBR_THR_DLL_ADDR P (location h)) #
     from_uart_calls (opts E) P periph h (regs E (bus s) (UART_CPR_ADDR P (location h))) dst sz)"
  unfolding alt_dma_16550_to_memory_def
proof (rule emits_at_move[OF assms(2)], goal_cases)
  case (1 st s1)
  note S = over_segments_emits[OF assms, where fuel = fuel]
  show ?case
    unfolding 1 [symmetric] uart_driver_defs
    by (cases "UART_FCR_FIFOE_GET P (fcr h) = 0")
      (auto simp: from_uart_calls_def Let_def S
          S[where f = "\<lambda>pa n. DMAMOV DAR pa # from_16550_single (opts E) periph n"] simp del: emit_all.simps
        intro!: emits_at_guarded emits_at_read split: option.split)
next
  case (2 st s1)
  then show ?case
    by (auto simp: guarded_opt_def on_bus_def bus_simps Let_def split: option.split)
qed

text \<open>And they have the effect of the transfer, on a UART that grants what it is configured to.\<close>

lemma to_uart_performs:
  assumes "ccr_opts_ok opt" and "unat sz < 2 ^ 31"
    and "UART_FCR_FIFOE_GET P (fcr h) \<noteq> 0 \<Longrightarrow> UART_FCR_TET_GET P (fcr h) \<noteq> None \<and>
      0 < unat (UART_CPR_FIFO_MOD_GET P cpr) \<and> unat (UART_CPR_FIFO_MOD_GET P cpr) < 256"
  shows "performs_when (grants (uart_tx_room P h cpr))
    ((DMAMOV DAR reg # to_uart_calls opt P periph h cpr src sz) @ closing wmb send_evt evt)
    (sends_bytes reg src (unat sz))"
proof (rule performs_when_closing)
  fix m0
  assume "grants (uart_tx_room P h cpr) m0"
  then have g: "grants (uart_tx_room P h cpr) (m0\<lparr> dar := unat reg \<rparr>)" by (simp add: grants_def)
  note R = to_uart_runs[OF assms(1) g refl assms(3,2), where periph = periph and src = src]
  show "closed_calls (DMAMOV DAR reg # to_uart_calls opt P periph h cpr src sz)"
    using R(1) by (rule closed_mov)
  fix rs
  have "(\<lambda>m. m = m0\<lparr> dar := unat reg \<rparr> \<and> mfifo m = []) =
      starts_at (m0\<lparr> dar := unat reg \<rparr>) (room (m0\<lparr> dar := unat reg \<rparr>))"
    by (auto simp: starts_at_def fun_eq_iff)
  from runs_append[OF _ runs_set_dar R(2)[folded this], of rs]
  show "runs rs (\<lambda>m. m = m0 \<and> mfifo m = []) (DMAMOV DAR reg # to_uart_calls opt P periph h cpr src sz)
      (sending (room m0) (unat reg) (memory m0) (unat src) (reg_out m0) (unat sz))"
    by (simp add: flat_closed)
qed (simp add: sending_def sent_def sends_bytes_def)

lemma from_uart_performs:
  assumes "ccr_opts_ok opt" and "unat sz < 2 ^ 31"
    and "UART_FCR_FIFOE_GET P (fcr h) \<noteq> 0 \<Longrightarrow> UART_FCR_RT_GET P (fcr h) \<noteq> None \<and>
      0 < unat (UART_CPR_FIFO_MOD_GET P cpr) \<and> unat (UART_CPR_FIFO_MOD_GET P cpr) < 256"
  shows "performs_when (\<lambda>m. grants (uart_rx_fill P h cpr) m \<and> is_device reg m)
    ((DMAMOV SAR reg # from_uart_calls opt P periph h cpr dst sz) @ closing wmb send_evt evt)
    (receives_bytes dst reg (unat sz))"
proof (rule performs_when_closing)
  fix m0
  assume "grants (uart_rx_fill P h cpr) m0 \<and> is_device reg m0"
  then have g: "grants (uart_rx_fill P h cpr) (m0\<lparr> sar := unat reg \<rparr>)"
    and d: "unat reg \<notin> cells m0" by (simp_all add: grants_def is_device_def)
  note R = from_uart_runs[OF assms(1) g refl assms(3,2), where periph = periph and dst = dst]
  show "closed_calls (DMAMOV SAR reg # from_uart_calls opt P periph h cpr dst sz)"
    using R(1) by (rule closed_mov)
  fix rs
  have "(\<lambda>m. m = m0\<lparr> sar := unat reg \<rparr> \<and> mfifo m = []) =
      starts_dev (m0\<lparr> sar := unat reg \<rparr>) (room (m0\<lparr> sar := unat reg \<rparr>))"
    using d by (auto simp: starts_dev_def starts_at_def fun_eq_iff)
  from runs_append[OF _ runs_set_sar R(2)[folded this], of rs]
  show "runs rs (\<lambda>m. m = m0 \<and> mfifo m = []) (DMAMOV SAR reg # from_uart_calls opt P periph h cpr dst sz)
      (receiving (room m0) (unat reg) rs (memory m0) (unat dst) (reg_in m0) (unat sz))"
    by (simp add: flat_closed)
qed (simp add: receiving_def received_def receives_bytes_def)

definition uart_tx_ok :: "periph_env \<Rightarrow> uart_handle \<Rightarrow> u32 \<Rightarrow> bool" where
  "uart_tx_ok P h cpr \<longleftrightarrow> (UART_FCR_FIFOE_GET P (fcr h) = 0 \<or>
     UART_FCR_TET_GET P (fcr h) \<noteq> None \<and>
     0 < unat (UART_CPR_FIFO_MOD_GET P cpr) \<and> unat (UART_CPR_FIFO_MOD_GET P cpr) < 256)"

definition uart_rx_ok :: "periph_env \<Rightarrow> uart_handle \<Rightarrow> u32 \<Rightarrow> bool" where
  "uart_rx_ok P h cpr \<longleftrightarrow> (UART_FCR_FIFOE_GET P (fcr h) = 0 \<or>
     UART_FCR_RT_GET P (fcr h) \<noteq> None \<and>
     0 < unat (UART_CPR_FIFO_MOD_GET P cpr) \<and> unat (UART_CPR_FIFO_MOD_GET P cpr) < 256)"

text \<open>A UART with a FIFO of 128 bytes, to send at a quarter full and to receive at half full.\<close>

definition demo_periph :: periph_env where
  "demo_periph = \<lparr> ram = (\<lambda>a. 0), UART_RBR_THR_DLL_ADDR = (\<lambda>a. a), UART_CPR_ADDR = (\<lambda>a. a + 0xf4),
     UART_CPR_FIFO_MOD_GET = (\<lambda>v. 8), UART_FCR_FIFOE_GET = (\<lambda>v. v AND 1),
     UART_FCR_TET_GET = (\<lambda>v. Some ALT_16550_FIFO_TRIGGER_TX_QUARTER_FULL),
     UART_FCR_RT_GET = (\<lambda>v. Some ALT_16550_FIFO_TRIGGER_RX_HALF_FULL),
     QSPIDATA_ADDR = 0xffa00000, QSPI_DMAPER_ADDR = 0xff705020,
     QSPI_NUMSGLREQBYTES_GET = (\<lambda>v. 2), QSPI_NUMBURSTREQBYTES_GET = (\<lambda>v. 5),
     I2C_CON_ADDR = (\<lambda>a. a), I2C_CON_MST_MOD_GET = (\<lambda>v. v AND 1), I2C_MODE_MASTER = 1,
     I2C_DATA_CMD_ADDR = (\<lambda>a. a + 0x10), I2C_TX_TL_ADDR = (\<lambda>a. a + 0x3c), I2C_TX_TL_GET = (\<lambda>v. v AND 0xff),
     I2C_RX_TL_ADDR = (\<lambda>a. a + 0x38), I2C_RX_TL_GET = (\<lambda>v. v AND 0xff),
     I2C_RX_FIFO_NUM_ENTRIES = 64, I2C_TX_FIFO_NUM_ENTRIES = 64,
     I2C_DATA_CMD_DAT_SET = (\<lambda>v. v AND 0xff), I2C_DATA_CMD_RESTART_SET = (\<lambda>v. push_bit 10 v AND 0x400),
     I2C_DATA_CMD_STOP_SET = (\<lambda>v. push_bit 9 v AND 0x200), I2C_DATA_CMD_CMD_SET = (\<lambda>v. push_bit 8 v AND 0x100),
     I2C_DATA_CMD_CMD_E_RD = 1 \<rparr>"

definition demo_info :: periph_info where
  "demo_info = \<lparr> as_16550 = \<lparr> location = 0xffc02000, fcr = 1 \<rparr>,
     as_i2c = \<lparr> i2c_location = 0xffc04000, issue_restart = True, issue_stop = True, scratch_va = 0x100 \<rparr> \<rparr>"

lemma demo_over_segments:
  "\<not> va + sz - 1 < va \<Longrightarrow> sz \<noteq> 0 \<Longrightarrow>
    run_state (over_segments (Suc 0) demo_dma (\<lambda>pa n. emit_all demo_dma (f pa n)) va sz ALT_E_SUCCESS) s =
      (Some ALT_E_SUCCESS, s\<lparr> program := program s @ f va sz \<rparr>)"
  by (simp add: over_segments_one[OF demo_ok(1)] demo_segment)

lemma demo_emit: "run_state (emit demo_dma c) s = (ALT_E_SUCCESS, s\<lparr> program := program s @ [c] \<rparr>)"
  by (simp add: emit_def bus_simps demo_dma_def)

lemma demo_periph_success:
  assumes "run_state body (s0\<lparr> program := [] \<rparr>) = (Some ALT_E_SUCCESS, s2)" and "channel_info s2 ! 2 = 1"
    and "sz \<noteq> 0" and "\<not> buf + sz - 1 < buf"
  shows "fst (run_state (periph_transfer demo_dma 2 body buf sz send_evt evt) s0) = Some ALT_E_SUCCESS"
  using assms dma_demo_finish[OF assms(2), of False send_evt evt]
  by (auto simp: periph_transfer_def demo_init split: prod.split)

lemmas demo_uart_simps = guarded_opt_def Let_def on_bus_def bus_simps demo_emit uart_driver_defs
  demo_over_segments demo_over_segments[where f = "\<lambda>pa n. DMAMOV SAR pa # to_16550_single opt periph n" for opt periph]
  demo_over_segments[where f = "\<lambda>pa n. DMAMOV DAR pa # from_16550_single opt periph n" for opt periph]

text \<open>
  C19: \<open>alt_dma_memory_to_periph\<close> of 1 to \<open>2 ^ 31 - 1\<close> bytes (the code's division is signed) to a
  UART set up as \<open>uart_tx_ok\<close> says, with the default address translation, always returns.  On success it has started a program that, on a UART granting a byte per single
  request and, per burst request, the room its FIFO has at the configured trigger level, runs to
  its end without overrunning the FIFO, writes the \<open>size\<close> bytes at \<open>src\<close> in order to the
  transmit register and changes no memory; on any failure no register is written.
\<close>

theorem memory_to_uart_sends:
  fixes P :: periph_env and info :: periph_info
  defines "h \<equiv> as_16550 info"
  assumes "weak_mmu E" and "assembler E calls" and "ccr_opts_ok (opts E)"
    and "n < 2" and "sz \<noteq> 0" and "unat sz < 2 ^ 31"
    and "uart_tx_ok P h (regs E (bus s) (UART_CPR_ADDR P (location h)))"
  shows "starts_when E calls channel
    (grants (uart_tx_room P h (regs E (bus s) (UART_CPR_ADDR P (location h)))))
    (sends_bytes (UART_RBR_THR_DLL_ADDR P (location h)) src (unat sz)) s
    (run_state (alt_dma_memory_to_periph (Suc fuel) E P channel (ALT_DMA_PERIPH_UART_TX n) src sz info
       send_evt evt) s)"
  unfolding alt_dma_memory_to_periph_def
proof (rule periph_transfer_starts[OF assms(3,6)])
  show "performs_when (grants (uart_tx_room P h (regs E (bus s) (UART_CPR_ADDR P (location h)))))
      ((DMAMOV DAR (UART_RBR_THR_DLL_ADDR P (location h)) #
        to_uart_calls (opts E) P (ALT_DMA_PERIPH_UART_TX n) h (regs E (bus s) (UART_CPR_ADDR P (location h))) src sz) @
       closing False send_evt evt)
      (sends_bytes (UART_RBR_THR_DLL_ADDR P (location h)) src (unat sz))"
    using assms(8) by (intro to_uart_performs assms(4,7)) (auto simp: uart_tx_ok_def)
next
  fix s1 :: "'a dma_state"
  assume "bus s1 = bus s"
  with memory_to_16550_emits[OF assms(2,3,6), of s1 fuel P "ALT_DMA_PERIPH_UART_TX n" h src] assms(5)
  show "emits_at calls s1 (to_periph (Suc fuel) E P (ALT_DMA_PERIPH_UART_TX n) info src sz)
      (DMAMOV DAR (UART_RBR_THR_DLL_ADDR P (location h)) #
        to_uart_calls (opts E) P (ALT_DMA_PERIPH_UART_TX n) h (regs E (bus s) (UART_CPR_ADDR P (location h))) src sz)"
    by (simp add: to_periph_def h_def)
qed

theorem memory_to_uart_sends_witness:
  "case run_state (alt_dma_memory_to_periph (Suc 0) demo_dma demo_periph 2 (ALT_DMA_PERIPH_UART_TX 0) 0x1003 300
       demo_info True 1) dma_demo_state of
     (r, s') \<Rightarrow> r = Some ALT_E_SUCCESS \<and>
       performs_when (grants 96) (program s') (sends_bytes 0xffc02000 0x1003 300)"
proof -
  have "fst (run_state (alt_dma_memory_to_periph (Suc 0) demo_dma demo_periph 2 (ALT_DMA_PERIPH_UART_TX 0) 0x1003 300
      demo_info True 1) dma_demo_state) = Some ALT_E_SUCCESS"
    unfolding alt_dma_memory_to_periph_def
    by (rule demo_periph_success, simp_all add: to_periph_def alt_dma_memory_to_16550_def demo_uart_simps
          demo_periph_def demo_info_def tx_burst_size_def dma_demo_state_def del: emit_all.simps, simp)
  moreover have "uart_tx_room demo_periph (as_16550 demo_info) cpr = 96" for cpr
    by (simp add: uart_tx_room_def demo_periph_def demo_info_def tx_room_def uart_fifo_size_def)
  moreover have "uart_tx_ok demo_periph (as_16550 demo_info) cpr" for cpr
    by (simp add: uart_tx_ok_def demo_periph_def demo_info_def)
  moreover have "UART_RBR_THR_DLL_ADDR demo_periph (location (as_16550 demo_info)) = 0xffc02000"
    by (simp add: demo_periph_def demo_info_def)
  ultimately show ?thesis
    using memory_to_uart_sends[OF demo_ok, of 0 300 demo_periph demo_info dma_demo_state 2 "0x1003" 0 True 1]
    by (auto simp: starts_when_def split: prod.splits)
qed

text \<open>
  C20: \<open>alt_dma_periph_to_memory\<close> of 1 to \<open>2 ^ 31 - 1\<close> bytes from a UART set up as \<open>uart_rx_ok\<close>
  says, with the default address translation, always returns.  On success it has started a program that, on a UART granting a byte per single
  request and, per burst request, what its FIFO holds at the configured trigger level, and whose
  data register is no memory, runs to its end without underrunning the FIFO and puts the next \<open>size\<close> received bytes in order at
  \<open>dst\<close>, changing no other memory; on any failure no register is written.
\<close>

theorem uart_to_memory_receives:
  fixes P :: periph_env and info :: periph_info
  defines "h \<equiv> as_16550 info"
  assumes "weak_mmu E" and "assembler E calls" and "ccr_opts_ok (opts E)"
    and "n < 2" and "sz \<noteq> 0" and "unat sz < 2 ^ 31"
    and "uart_rx_ok P h (regs E (bus s) (UART_CPR_ADDR P (location h)))"
  shows "starts_when E calls channel
    (\<lambda>m. grants (uart_rx_fill P h (regs E (bus s) (UART_CPR_ADDR P (location h)))) m \<and>
      is_device (UART_RBR_THR_DLL_ADDR P (location h)) m)
    (receives_bytes dst (UART_RBR_THR_DLL_ADDR P (location h)) (unat sz)) s
    (run_state (alt_dma_periph_to_memory (Suc fuel) E P channel dst (ALT_DMA_PERIPH_UART_RX n) sz info
       send_evt evt) s)"
  unfolding alt_dma_periph_to_memory_def
proof (rule periph_transfer_starts[OF assms(3,6)])
  show "performs_when (\<lambda>m. grants (uart_rx_fill P h (regs E (bus s) (UART_CPR_ADDR P (location h)))) m \<and>
        is_device (UART_RBR_THR_DLL_ADDR P (location h)) m)
      ((DMAMOV SAR (UART_RBR_THR_DLL_ADDR P (location h)) #
        from_uart_calls (opts E) P (ALT_DMA_PERIPH_UART_RX n) h (regs E (bus s) (UART_CPR_ADDR P (location h))) dst sz) @
       closing False send_evt evt)
      (receives_bytes dst (UART_RBR_THR_DLL_ADDR P (location h)) (unat sz))"
    using assms(8) by (intro from_uart_performs assms(4,7)) (auto simp: uart_rx_ok_def)
next
  fix s1 :: "'a dma_state"
  assume "bus s1 = bus s"
  with memory_from_16550_emits[OF assms(2,3,6), of s1 fuel P "ALT_DMA_PERIPH_UART_RX n" h dst] assms(5)
  show "emits_at calls s1 (from_periph (Suc fuel) E P (ALT_DMA_PERIPH_UART_RX n) info dst sz)
      (DMAMOV SAR (UART_RBR_THR_DLL_ADDR P (location h)) #
        from_uart_calls (opts E) P (ALT_DMA_PERIPH_UART_RX n) h (regs E (bus s) (UART_CPR_ADDR P (location h))) dst sz)"
    by (simp add: from_periph_def h_def)
qed

theorem uart_to_memory_receives_witness:
  "case run_state (alt_dma_periph_to_memory (Suc 0) demo_dma demo_periph 2 0x2001 (ALT_DMA_PERIPH_UART_RX 1) 1000
       demo_info False 0) dma_demo_state of
     (r, s') \<Rightarrow> r = Some ALT_E_SUCCESS \<and>
       performs_when (\<lambda>m. grants 64 m \<and> is_device 0xffc02000 m) (program s') (receives_bytes 0x2001 0xffc02000 1000)"
proof -
  have "fst (run_state (alt_dma_periph_to_memory (Suc 0) demo_dma demo_periph 2 0x2001 (ALT_DMA_PERIPH_UART_RX 1) 1000
      demo_info False 0) dma_demo_state) = Some ALT_E_SUCCESS"
    unfolding alt_dma_periph_to_memory_def
    by (rule demo_periph_success, simp_all add: from_periph_def alt_dma_16550_to_memory_def demo_uart_simps
          demo_periph_def demo_info_def rx_burst_size_def dma_demo_state_def del: emit_all.simps, simp)
  moreover have "uart_rx_fill demo_periph (as_16550 demo_info) cpr = 64" for cpr
    by (simp add: uart_rx_fill_def demo_periph_def demo_info_def rx_fill_def uart_fifo_size_def)
  moreover have "uart_rx_ok demo_periph (as_16550 demo_info) cpr" for cpr
    by (simp add: uart_rx_ok_def demo_periph_def demo_info_def)
  moreover have "UART_RBR_THR_DLL_ADDR demo_periph (location (as_16550 demo_info)) = 0xffc02000"
    by (simp add: demo_periph_def demo_info_def)
  ultimately show ?thesis
    using uart_to_memory_receives[OF demo_ok, of 1 1000 demo_periph demo_info dma_demo_state 2 "0x2001" 0 False 0]
    by (auto simp: starts_when_def split: prod.splits)
qed

end
