(* ===== verification/Dma_Flash.thy ===== *)
theory Dma_Flash
  imports Dma_Uart
begin

text \<open>
  The QSPI flash transfers.  A granted request moves one item, which is
  several beats on one side and several bursts on the other.
\<close>

section \<open>Control words\<close>

text \<open>The words of the transfers: \<open>k\<close> and \<open>n\<close> give the memory side, \<open>d\<close> the size of the peripheral's item.\<close>

lemma ccr_periph_out_fields:
  assumes "ccr_opts_ok opt" and "n \<in> lengths" and "k \<in> sizes" and "d \<in> sizes"
    and "sc = SC opt 7 \<or> sc = SC_DEFAULT opt"
  shows "src_field (ccr_periph_out opt (SAI opt) (push_bit 1 k) (sb_len n) sc (push_bit 15 d)) =
           (True, 2 ^ unat k, unat n)"
    and "dst_field (ccr_periph_out opt (SAI opt) (push_bit 1 k) (sb_len n) sc (push_bit 15 d)) =
           (False, 2 ^ unat d, 1)"
proof -
  have one: "(1 :: u32) \<in> lengths" by (simp add: lengths_def)
  have v: "SAI opt = 1" "DB1 opt = db_len 1" "DAF opt = 0"
    using assms(1) by (simp_all add: ccr_opts_ok_def db_len_def)
  have sc: "sc AND src_mask = 0" "sc AND dst_mask = 0" using assms(5) opts_zero[OF assms(1)] by auto
  note z = opts_zero[OF assms(1)] v sc zero_masks[OF assms(2,3)] zero_masks[OF one assms(4)]
  let ?w = "ccr_periph_out opt (SAI opt) (push_bit 1 k) (sb_len n) sc (push_bit 15 d)"
  have "?w AND src_mask = (sb_len n OR push_bit 1 k OR 1) AND src_mask"
    unfolding ccr_periph_out_def word_ao_dist z by (simp add: or.assoc or.commute or.left_commute)
  then show "src_field ?w = (True, 2 ^ unat k, unat n)"
    using src_field_eval(1)[OF assms(2,3)] src_field_cong by metis
  have "?w AND dst_mask = (db_len 1 OR push_bit 15 d) AND dst_mask"
    unfolding ccr_periph_out_def word_ao_dist z by (simp add: or.assoc or.commute or.left_commute)
  moreover have "unat (1 :: u32) = 1" by simp
  ultimately show "dst_field ?w = (False, 2 ^ unat d, 1)"
    using dst_field_eval(2)[OF one assms(4)] dst_field_cong by metis
qed

lemma ccr_periph_in_fields:
  assumes "ccr_opts_ok opt" and "n \<in> lengths" and "k \<in> sizes" and "d \<in> sizes"
  shows "src_field (ccr_periph_in opt (push_bit 1 d) (push_bit 15 k) (db_len n)) = (False, 2 ^ unat d, 1)"
    and "dst_field (ccr_periph_in opt (push_bit 1 d) (push_bit 15 k) (db_len n)) = (True, 2 ^ unat k, unat n)"
proof -
  have one: "(1 :: u32) \<in> lengths" by (simp add: lengths_def)
  have v: "DAI opt = 0x4000" "SB1 opt = sb_len 1" "SAF opt = 0"
    using assms(1) by (simp_all add: ccr_opts_ok_def sb_len_def)
  note z = opts_zero[OF assms(1)] v zero_masks[OF assms(2,3)] zero_masks[OF one assms(4)]
  let ?w = "ccr_periph_in opt (push_bit 1 d) (push_bit 15 k) (db_len n)"
  have "?w AND src_mask = (sb_len 1 OR push_bit 1 d) AND src_mask"
    unfolding ccr_periph_in_def word_ao_dist z by (simp add: or.assoc or.commute or.left_commute)
  moreover have "unat (1 :: u32) = 1" by simp
  ultimately show "src_field ?w = (False, 2 ^ unat d, 1)"
    using src_field_eval(2)[OF one assms(4)] src_field_cong by metis
  have "?w AND dst_mask = (db_len n OR push_bit 15 k OR 0x4000) AND dst_mask"
    unfolding ccr_periph_in_def word_ao_dist z by (simp add: or.assoc or.commute or.left_commute)
  then show "dst_field ?w = (True, 2 ^ unat k, unat n)"
    using dst_field_eval(1)[OF assms(2,3)] dst_field_cong by metis
qed

section \<open>Items\<close>

text \<open>What one instruction moves: a beat for a single request, a burst for a burst request.\<close>

definition piece :: "dma_mod \<Rightarrow> nat \<Rightarrow> nat \<Rightarrow> nat" where
  "piece k sz ln = (if k = INST_MOD_SINGLE then sz else ln * sz)"

lemma piece_dvd [simp]: "sz dvd piece k sz ln" "piece k sz ln mod sz = 0"
  by (simp_all add: piece_def)

lemma loads_memory:
  assumes "src_field w = (True, sz, ln)"
  shows "ccr m = w \<Longrightarrow> sar m mod sz = 0 \<Longrightarrow> request m = Some k \<Longrightarrow>
    run_flat rs (replicate p (DMALDx k)) m =
      Some (m\<lparr> mfifo := mfifo m @ bytes_at (memory m) (sar m) (p * piece k sz ln),
               sar := sar m + p * piece k sz ln \<rparr>)"
proof (induction p arbitrary: m)
  case 0
  then show ?case by (simp add: bytes_at_def)
next
  case (Suc p)
  let ?l = "piece k sz ln"
  let ?m = "m\<lparr> mfifo := mfifo m @ bytes_at (memory m) (sar m) ?l, sar := sar m + ?l \<rparr>"
  have "(if k = INST_MOD_SINGLE then load_beat m else load_count m) = ?l"
    using Suc.prems src_fieldD[OF assms] by (simp add: load_beat_def load_count_def piece_def)
  then have "pl330_step rs (DMALDx k) m = Some ?m"
    using Suc.prems src_fieldD[OF assms] by (simp add: granted_load_def)
  moreover have "(sar m + ?l) mod sz = 0" using Suc.prems(2) by (simp add: mod_add_eq [symmetric])
  ultimately show ?case
    using Suc.IH[of ?m] Suc.prems by (simp add: bytes_at_add add.assoc)
qed

lemma stores_register:
  assumes "dst_field w = (False, sz, ln)"
  shows "ccr m = w \<Longrightarrow> request m = Some k \<Longrightarrow> q * piece k sz ln \<le> length (mfifo m) \<Longrightarrow>
    q * piece k sz ln \<le> credit m \<Longrightarrow>
    \<exists>c. run_flat rs (replicate q (DMASTx k)) m =
      Some ((reg_store (take (q * piece k sz ln) (mfifo m)) m)
              \<lparr> mfifo := drop (q * piece k sz ln) (mfifo m), credit := c \<rparr>)"
proof (induction q arbitrary: m)
  case 0
  then show ?case by (intro exI[of _ "credit m"]) (simp add: reg_store_def)
next
  case (Suc q)
  let ?l = "piece k sz ln"
  let ?p = "cost (dst_size (ccr m)) ?l m"
  let ?m = "(reg_store (take ?l (mfifo m)) m)\<lparr> mfifo := drop ?l (mfifo m), credit := credit m - ?p \<rparr>"
  have z: "dst_size (ccr m) = sz" using Suc.prems(1) dst_fieldD[OF assms] by simp
  have p: "?p \<le> ?l" by (rule cost_le)
  have "(if k = INST_MOD_SINGLE then store_beat m else store_count m) = ?l"
    using Suc.prems dst_fieldD[OF assms] by (simp add: store_beat_def store_count_def piece_def)
  then have step: "pl330_step rs (DMASTx k) m = Some ?m"
    using Suc.prems dst_fieldD[OF assms] p by (simp add: granted_store_def reg_store_def)
  have "ccr ?m = w" "request ?m = Some k" "q * ?l \<le> length (mfifo ?m)" "q * ?l \<le> credit ?m"
    using Suc.prems p by simp_all
  from Suc.IH[OF this] obtain c where c: "run_flat rs (replicate q (DMASTx k)) ?m =
      Some ((reg_store (take (q * ?l) (mfifo ?m)) ?m)\<lparr> mfifo := drop (q * ?l) (mfifo ?m), credit := c \<rparr>)" by blast
  have "length (take ?l (mfifo m)) = ?l" using Suc.prems(3) by simp
  then have "reg_store (take (q * ?l) (drop ?l (mfifo m))) (reg_store (take ?l (mfifo m)) m) =
      reg_store (take (?l + q * ?l) (mfifo m)) m"
    by (subst reg_store_append) (simp_all add: z take_add)
  then have "(reg_store (take (q * ?l) (mfifo ?m)) ?m)\<lparr> mfifo := drop (q * ?l) (mfifo ?m), credit := c \<rparr> =
      (reg_store (take (Suc q * ?l) (mfifo m)) m)\<lparr> mfifo := drop (Suc q * ?l) (mfifo m), credit := c \<rparr>"
    by (simp add: reg_store_def add.commute)
  with step c show ?case by (intro exI[of _ c]) simp
qed

lemma loads_register:
  assumes "src_field w = (False, sz, ln)"
  shows "ccr m = w \<Longrightarrow> request m = Some k \<Longrightarrow> sar m \<notin> cells m \<Longrightarrow> p * piece k sz ln \<le> credit m \<Longrightarrow>
    \<exists>c. run_flat rs (replicate p (DMALDx k)) m =
      Some (m\<lparr> mfifo := mfifo m @ bytes_at rs (reg_in m) (p * piece k sz ln),
               reg_in := reg_in m + p * piece k sz ln,
               accesses := accesses m @ replicate p (Get (sar m) (piece k sz ln)), credit := c \<rparr>)"
proof (induction p arbitrary: m)
  case 0
  then show ?case by (intro exI[of _ "credit m"]) (simp add: bytes_at_def)
next
  case (Suc p)
  let ?l = "piece k sz ln"
  let ?p = "cost (src_size (ccr m)) ?l m"
  let ?m = "m\<lparr> mfifo := mfifo m @ bytes_at rs (reg_in m) ?l, reg_in := reg_in m + ?l,
      accesses := accesses m @ [Get (sar m) ?l], credit := credit m - ?p \<rparr>"
  have p: "?p \<le> ?l" by (rule cost_le)
  have "(if k = INST_MOD_SINGLE then load_beat m else load_count m) = ?l"
    using Suc.prems src_fieldD[OF assms] by (simp add: load_beat_def load_count_def piece_def)
  then have step: "pl330_step rs (DMALDx k) m = Some ?m"
    using Suc.prems src_fieldD[OF assms] p by (simp add: granted_load_def fixed_load_def)
  have "ccr ?m = w" "request ?m = Some k" "sar ?m \<notin> cells ?m" "p * ?l \<le> credit ?m"
    using Suc.prems p by simp_all
  from Suc.IH[OF this] obtain c where "run_flat rs (replicate p (DMALDx k)) ?m =
      Some (?m\<lparr> mfifo := mfifo ?m @ bytes_at rs (reg_in ?m) (p * ?l), reg_in := reg_in ?m + p * ?l,
        accesses := accesses ?m @ replicate p (Get (sar ?m) ?l), credit := c \<rparr>)" by blast
  with step show ?case by (intro exI[of _ c]) (simp add: bytes_at_add add.assoc)
qed

lemma store_bytes_Nil [simp]: "store_bytes M a [] = M"
  by (auto simp: store_bytes_def fun_eq_iff)

lemma stores_memory:
  assumes "dst_field w = (True, sz, ln)"
  shows "ccr m = w \<Longrightarrow> dar m mod sz = 0 \<Longrightarrow> request m = Some k \<Longrightarrow> q * piece k sz ln \<le> length (mfifo m) \<Longrightarrow>
    run_flat rs (replicate q (DMASTx k)) m =
      Some (m\<lparr> memory := store_bytes (memory m) (dar m) (take (q * piece k sz ln) (mfifo m)),
               dar := dar m + q * piece k sz ln, mfifo := drop (q * piece k sz ln) (mfifo m) \<rparr>)"
proof (induction q arbitrary: m)
  case 0
  then show ?case by simp
next
  case (Suc q)
  let ?l = "piece k sz ln"
  let ?m = "m\<lparr> memory := store_bytes (memory m) (dar m) (take ?l (mfifo m)), dar := dar m + ?l,
      mfifo := drop ?l (mfifo m) \<rparr>"
  have "(if k = INST_MOD_SINGLE then store_beat m else store_count m) = ?l"
    using Suc.prems dst_fieldD[OF assms] by (simp add: store_beat_def store_count_def piece_def)
  then have "pl330_step rs (DMASTx k) m = Some ?m"
    using Suc.prems dst_fieldD[OF assms] by (simp add: granted_store_def)
  moreover have "q * ?l \<le> length (mfifo m) - ?l" using Suc.prems by simp
  moreover have "(dar m + ?l) mod sz = 0" using Suc.prems(2) by (simp add: mod_add_eq [symmetric])
  moreover have "length (take ?l (mfifo m)) = ?l" using Suc.prems(4) by simp
  with store_bytes_append[of "memory m" "dar m" "take ?l (mfifo m)" "take (q * ?l) (drop ?l (mfifo m))"]
  have "store_bytes (store_bytes (memory m) (dar m) (take ?l (mfifo m))) (dar m + ?l)
      (take (q * ?l) (drop ?l (mfifo m))) = store_bytes (memory m) (dar m) (take (?l + q * ?l) (mfifo m))"
    by (simp add: take_add)
  ultimately show ?case
    using Suc.IH[of ?m] Suc.prems by (simp add: add.assoc add.commute)
qed

text \<open>
  A round: the request is granted, then \<open>p\<close> loads and \<open>q\<close> stores move the item.  The position
  on the memory side stays aligned to its beats.
\<close>

definition item_round :: "dma_periph \<Rightarrow> dma_mod \<Rightarrow> nat \<Rightarrow> nat \<Rightarrow> dma_call list" where
  "item_round periph k p q = wait_for periph k @ replicate p (DMALDx k) @ replicate q (DMASTx k)"

lemma item_round_flat: "flat (item_round periph k p q)"
  by (auto simp: item_round_def wait_for_def flat_def)

definition at_beat :: "nat \<Rightarrow> nat \<Rightarrow> (nat \<Rightarrow> pl330 \<Rightarrow> bool) \<Rightarrow> nat \<Rightarrow> pl330 \<Rightarrow> bool" where
  "at_beat sz a I i m \<longleftrightarrow> I i m \<and> (a + i) mod sz = 0"

lemma send_round:
  assumes "src_field w = (True, sz, ln)" and "dst_field w = (False, sz', ln')"
    and "n = p * piece k sz ln" and "n = q * piece k sz' ln'" and "n \<le> R k"
  shows "advances rs (at_beat sz s (sending R a M s out)) w n k (item_round periph k p q)"
  unfolding advances_def closed_flat[OF item_round_flat, THEN conjunct2]
proof (intro allI impI)
  fix i m
  assume I: "at_beat sz s (sending R a M s out) i m" and c: "ccr m = w"
  let ?m0 = "m\<lparr> request := Some k, credit := R k \<rparr>"
  let ?m1 = "?m0\<lparr> mfifo := bytes_at M (s + i) n, sar := s + (i + n) \<rparr>"
  have st: "mfifo m = []" "memory m = M" "sar m = s + i" "room m = R" "(s + i) mod sz = 0"
    "reg_out m = out @ bytes_at M s i" "dar m = a"
    using I by (simp_all add: at_beat_def sending_def sent_def)
  have "run_flat rs (wait_for periph k) m = Some ?m0" using wait_for_run[of rs periph k m] st by simp
  moreover have "run_flat rs (replicate p (DMALDx k)) ?m0 = Some ?m1"
    using loads_memory[OF assms(1), of ?m0 k rs p] c st assms(3) by (simp add: add.assoc)
  moreover obtain cr where "run_flat rs (replicate q (DMASTx k)) ?m1 =
      Some ((reg_store (bytes_at M (s + i) n) ?m1)\<lparr> mfifo := [], credit := cr \<rparr>)" (is "_ = Some ?m2")
    using stores_register[OF assms(2), of ?m1 k q rs] c assms(4,5) by auto
  ultimately have "run_flat rs (item_round periph k p q) m = Some ?m2"
    by (simp only: item_round_def run_flat_append option.case)
  moreover have "sz dvd n" unfolding assms(3) by simp
  then have "(s + (i + n)) mod sz = 0" using st(5) by (simp add: mod_eq_0_iff_dvd add.assoc [symmetric])
  then have "at_beat sz s (sending R a M s out) (i + n) ?m2"
    using st by (simp add: at_beat_def sending_def sent_def bytes_at_add)
  ultimately show "\<exists>m'. run_flat rs (item_round periph k p q) m = Some m' \<and>
      at_beat sz s (sending R a M s out) (i + n) m' \<and> ccr m' = w \<and> request m' = Some k"
    using c by (intro exI[of _ ?m2]) simp
qed

lemma receive_round:
  assumes "src_field w = (False, sz', ln')" and "dst_field w = (True, sz, ln)"
    and "n = p * piece k sz' ln'" and "n = q * piece k sz ln" and "n \<le> R k"
  shows "advances rs (at_beat sz d (receiving R a rs M d pos)) w n k (item_round periph k p q)"
  unfolding advances_def closed_flat[OF item_round_flat, THEN conjunct2]
proof (intro allI impI)
  fix i m
  assume I: "at_beat sz d (receiving R a rs M d pos) i m" and c: "ccr m = w"
  let ?bs = "bytes_at rs (pos + i) n"
  let ?m0 = "m\<lparr> request := Some k, credit := R k \<rparr>"
  have st: "mfifo m = []" "dar m = d + i" "reg_in m = pos + i" "room m = R" "(d + i) mod sz = 0"
    "memory m = store_bytes M d (bytes_at rs pos i)" "sar m = a" "a \<notin> cells m"
    using I by (simp_all add: at_beat_def receiving_def received_def)
  have "run_flat rs (wait_for periph k) m = Some ?m0" using wait_for_run[of rs periph k m] st by simp
  moreover obtain cr where "run_flat rs (replicate p (DMALDx k)) ?m0 =
      Some (?m0\<lparr> mfifo := ?bs, reg_in := pos + (i + n),
        accesses := accesses m @ replicate p (Get (sar m) (piece k sz' ln')), credit := cr \<rparr>)" (is "_ = Some ?m1")
    using loads_register[OF assms(1), of ?m0 k p rs] c st assms(3,5) by (auto simp: add.assoc)
  moreover have "run_flat rs (replicate q (DMASTx k)) ?m1 =
      Some (?m1\<lparr> memory := store_bytes (memory m) (d + i) ?bs, dar := d + (i + n), mfifo := [] \<rparr>)" (is "_ = Some ?m2")
    using stores_memory[OF assms(2), of ?m1 k q rs] c st assms(4) by (simp add: add.assoc)
  ultimately have "run_flat rs (item_round periph k p q) m = Some ?m2"
    by (simp only: item_round_def run_flat_append option.case)
  moreover have "sz dvd n" unfolding assms(4) by simp
  then have "(d + (i + n)) mod sz = 0" using st(5) by (simp add: mod_eq_0_iff_dvd add.assoc [symmetric])
  moreover have "store_bytes (memory m) (d + i) ?bs = store_bytes M d (bytes_at rs pos (i + n))"
    using store_bytes_append[of M d "bytes_at rs pos i" ?bs] st(6) by (simp add: bytes_at_add)
  ultimately show "\<exists>m'. run_flat rs (item_round periph k p q) m = Some m' \<and>
      at_beat sz d (receiving R a rs M d pos) (i + n) m' \<and> ccr m' = w \<and> request m' = Some k"
    using c st by (intro exI[of _ ?m2]) (simp add: at_beat_def receiving_def received_def)
qed

section \<open>QSPI programs\<close>

text \<open>Items of 4 bytes to 32 KiB.\<close>

definition qspi_logs :: "u32 set" where
  "qspi_logs = {2, 3, 4, 5, 6, 7, 8, 9, 10, 11, 12, 13, 14, 15}"

lemma qspi_beats_split:
  assumes "L \<in> qspi_logs"
  shows "case qspi_beats L of (g, ln, reps) \<Rightarrow>
      g = ALT_MIN 3 L \<and> g \<in> sizes \<and> ln \<in> lengths \<and> (L \<le> 3 \<longrightarrow> ln = 1) \<and>
      unat reps * (unat ln * 2 ^ unat g) = 2 ^ unat L"
  using assms unfolding qspi_logs_def
  by (auto simp: qspi_beats_def qspi_size_def ALT_MIN_def lengths_def sizes_def)

lemma qspi_words:
  assumes "L \<in> qspi_logs"
  shows "unat (drop_bit 2 (qspi_size L)) * 4 = 2 ^ unat L" and "unat (qspi_size L) = 2 ^ unat L"
    and "unat L < 32" and "4 dvd (2 :: nat) ^ unat L"
  using assms unfolding qspi_logs_def by (auto simp: qspi_size_def)

text \<open>The size of an item as pieces of both sides.\<close>

lemma qspi_pieces:
  assumes "L \<in> qspi_logs" and "k = INST_MOD_BURST \<or> L \<le> 3" and "qspi_beats L = (g, ln, reps)"
  shows "2 ^ unat L = unat reps * piece k (2 ^ unat g) (unat ln)"
    and "2 ^ unat L = unat (drop_bit 2 (qspi_size L)) * piece k 4 1"
  using qspi_beats_split[OF assms(1)] qspi_words(1)[OF assms(1)] assms(2,3)
  by (auto simp: piece_def)

definition qspi_beat :: "u32 \<Rightarrow> nat" where "qspi_beat L = 2 ^ unat (ALT_MIN 3 L)"

lemma to_qspi_phase_runs:
  fixes s a :: nat and M :: mem and out :: "byte list"
  assumes "ccr_opts_ok opt" and "L \<in> qspi_logs" and "k = INST_MOD_BURST \<or> L \<le> 3" and "2 ^ unat L \<le> R k"
  defines "I \<equiv> at_beat (qspi_beat L) s (sending R a M s out)"
  shows "closed_calls (to_qspi_phase opt k L cnt)"
    and "runs rs (I i) (to_qspi_phase opt k L cnt) (I (i + 2 ^ unat L * unat cnt))"
proof -
  obtain g ln reps where b: "qspi_beats L = (g, ln, reps)" by (cases "qspi_beats L")
  with qspi_beats_split[OF assms(2)] have B: "g = ALT_MIN 3 L" "g \<in> sizes" "ln \<in> lengths" by auto
  define w where "w = ccr_periph_out opt (SAI opt) (push_bit 1 g) (sb_len ln)
    (if k = INST_MOD_BURST then SC opt 7 else SC_DEFAULT opt) (DS32 opt)"
  have w: "src_field w = (True, qspi_beat L, unat ln)" "dst_field w = (False, 4, 1)"
    using ccr_periph_out_fields[OF assms(1) B(3,2), where d = 2] opts_values(7)[OF assms(1)]
    by (simp_all add: w_def qspi_beat_def B(1) sizes_def)
  let ?it = "item_round ALT_DMA_PERIPH_QSPI_FLASH_TX k (unat reps) (unat (drop_bit 2 (qspi_size L)))"
  have A: "advances rs I w (2 ^ unat L) k ?it"
    unfolding I_def
    by (rule send_round[where R = R, OF w qspi_pieces[OF assms(2,3) b, unfolded B(1), folded qspi_beat_def] assms(4)])
  have e: "to_qspi_phase opt k L cnt =
      (if cnt = 0 then [] else DMAMOV CCR w # counted_loops ?it DMALPEND cnt)"
    by (simp add: to_qspi_phase_def b w_def to_qspi_item_def item_round_def)
  have ccr: "I i m \<Longrightarrow> I i (m\<lparr> ccr := v \<rparr>)" for i m v by (simp add: I_def at_beat_def)
  note C = runs_counted[OF flat_closed[OF item_round_flat] A _ ccr, where fin = DMALPEND and n = cnt]
  show "closed_calls (to_qspi_phase opt k L cnt)"
    and "runs rs (I i) (to_qspi_phase opt k L cnt) (I (i + 2 ^ unat L * unat cnt))"
    unfolding e using C(1) C(2)[where i = i] by simp_all
qed

text \<open>Loops of 256 rounds, and the counts that go with them.\<close>

lemma advances_repeat:
  assumes "advances rs I w n md b"
  shows "I i m \<Longrightarrow> ccr m = w \<Longrightarrow>
    \<exists>m'. run_flat rs (concat (replicate (Suc c) (unroll b))) m = Some m' \<and> I (i + n * Suc c) m' \<and>
      ccr m' = w \<and> request m' = Some md"
proof (induction c arbitrary: i m)
  case 0
  with assms show ?case by (fastforce simp: advances_def)
next
  case (Suc c)
  from assms Suc.prems obtain m1 where m1: "run_flat rs (unroll b) m = Some m1" "I (i + n) m1" "ccr m1 = w"
    unfolding advances_def by blast
  from Suc.IH[OF m1(2,3)] m1(1) show ?case
    by (auto simp: run_flat_append add.assoc simp del: replicate_Suc simp: replicate_Suc[of "Suc c"])
qed

lemma advances_loop:
  assumes "advances rs I w n md b" and "closed_calls b" and "0 < c"
  shows "advances rs I w (n * unat c) md (DMALP c # b @ [DMALPEND])"
proof -
  obtain c' where c: "unat c = Suc c'" using assms(3) by (cases "unat c") (simp_all add: word_less_nat_alt)
  show ?thesis
    unfolding advances_def closed_loop(2)[OF assms(2)] c using advances_repeat[OF assms(1)] by blast
qed

lemma split_low:
  assumes "k < 32"
  shows "2 ^ k * unat (drop_bit k c) + unat (c AND (push_bit k 1 - 1)) = unat (c :: u32)"
    and "unat (c AND (push_bit k 1 - 1)) = unat c mod 2 ^ k"
proof -
  have "c AND (push_bit k 1 - 1) = take_bit k c"
    by (simp add: take_bit_eq_mask mask_eq_exp_minus_1)
  then have "unat (c AND (push_bit k 1 - 1)) = take_bit k (unat c)" by (simp only: unsigned_take_bit_eq)
  then show "unat (c AND (push_bit k 1 - 1)) = unat c mod 2 ^ k" by (simp only: take_bit_eq_mod)
  then show "2 ^ k * unat (drop_bit k c) + unat (c AND (push_bit k 1 - 1)) = unat c"
    by (simp add: unat_drop)
qed

lemma qspi_counts_total:
  assumes "S \<in> qspi_logs" and "B \<in> qspi_logs" and "qspi_counts S B sz = (b, c)"
  shows "2 ^ unat B * unat b + 2 ^ unat S * unat c = unat sz - unat sz mod 2 ^ unat S"
proof -
  note w = qspi_words(3)[OF assms(1)] qspi_words(3)[OF assms(2)]
  have S: "2 ^ unat S * unat (drop_bit (unat S) x) = unat x - unat x mod 2 ^ unat S" for x :: u32
    by (simp add: unat_drop minus_mod_eq_mult_div)
  show ?thesis
  proof (cases "S < B \<and> drop_bit (unat B) sz \<noteq> 0")
    case True
    let ?r = "sz AND (push_bit (unat B) 1 - 1)"
    have "(2 :: nat) ^ unat S dvd 2 ^ unat B"
      using True by (intro le_imp_power_dvd) (simp add: word_less_nat_alt)
    then have "unat ?r mod 2 ^ unat S = unat sz mod 2 ^ unat S"
      unfolding split_low(2)[OF w(2)] by (rule mod_mod_cancel)
    moreover have "unat ?r mod 2 ^ unat S \<le> unat ?r" by simp
    ultimately show ?thesis
      using True assms(3) S[of ?r] split_low(1)[OF w(2), of sz] by (auto simp: qspi_counts_def qspi_size_def Let_def)
  next
    case False
    then show ?thesis using assms(3) S by (auto simp: qspi_counts_def Let_def)
  qed
qed

lemma from_qspi_phase_runs:
  fixes d a pos :: nat and M rs :: mem
  assumes "ccr_opts_ok opt" and "L \<in> qspi_logs" and "k = INST_MOD_BURST \<or> L \<le> 3" and "2 ^ unat L \<le> R k"
  defines "I \<equiv> at_beat (qspi_beat L) d (receiving R a rs M d pos)"
  shows "closed_calls (from_qspi_phase opt k L cnt)"
    and "runs rs (I i) (from_qspi_phase opt k L cnt) (I (i + 2 ^ unat L * unat cnt))"
proof -
  obtain g ln reps where b: "qspi_beats L = (g, ln, reps)" by (cases "qspi_beats L")
  with qspi_beats_split[OF assms(2)] have B: "g = ALT_MIN 3 L" "g \<in> sizes" "ln \<in> lengths" by auto
  define w where "w = ccr_periph_in opt (SS32 opt) (push_bit 15 g) (db_len ln)"
  have w: "src_field w = (False, 4, 1)" "dst_field w = (True, qspi_beat L, unat ln)"
    using ccr_periph_in_fields[OF assms(1) B(3,2), where d = 2] opts_values(3)[OF assms(1)]
    by (simp_all add: w_def qspi_beat_def B(1) sizes_def)
  let ?it = "item_round ALT_DMA_PERIPH_QSPI_FLASH_RX k (unat (drop_bit 2 (qspi_size L))) (unat reps)"
  let ?n = "2 ^ unat L :: nat"
  note Q = qspi_pieces[OF assms(2,3) b, unfolded B(1), folded qspi_beat_def]
  have A: "advances rs I w ?n k ?it"
    unfolding I_def by (rule receive_round[where R = R, OF w Q(2,1) assms(4)])
  have it: "closed_calls ?it" by (rule flat_closed[OF item_round_flat])
  let ?lp = "DMALP 256 # ?it @ [DMALPEND]"
  have A2: "advances rs I w (256 * ?n) k ?lp"
    using advances_loop[OF A it, of 256] by (simp add: mult.commute)
  let ?h = "drop_bit 8 cnt" and ?l = "cnt AND (push_bit 8 1 - 1)"
  define t where "t = (if ?h \<noteq> 0 then ?l else cnt)"
  have n: "256 * unat ?h + unat t = unat cnt" using split_low(1)[of 8 cnt] by (auto simp: t_def)
  have ccr: "I i m \<Longrightarrow> I i (m\<lparr> ccr := v \<rparr>)" for i m v by (simp add: I_def at_beat_def)
  note S = counted_loops_run[OF closed_loop(1)[OF it] A2, of DMALPEND ?h]
    and T = counted_loops_run[OF it A, of DMALPEND t]
  define hi where "hi = (if ?h \<noteq> 0 then counted_loops ?lp DMALPEND ?h else [])"
  have H: "closed_calls hi" "I i m \<Longrightarrow> ccr m = w \<Longrightarrow>
      \<exists>m'. run_flat rs (unroll hi) m = Some m' \<and> I (i + 256 * ?n * unat ?h) m' \<and> ccr m' = w" for i m
    using S by (auto simp: hi_def)
  have e: "from_qspi_phase opt k L cnt = (if cnt = 0 then [] else DMAMOV CCR w # hi @ counted_loops ?it DMALPEND t)"
    by (simp add: from_qspi_phase_def b w_def from_qspi_item_def item_round_def t_def hi_def Let_def)
  have c: "closed_calls (hi @ counted_loops ?it DMALPEND t)" using T H(1) by blast
  then show "closed_calls (from_qspi_phase opt k L cnt)" unfolding e by (simp add: closed_mov)
  have N: "i + 256 * ?n * unat ?h + ?n * unat t = i + ?n * unat cnt"
    unfolding n [symmetric] by (simp add: algebra_simps)
  have "\<exists>m'. run_flat rs (unroll (hi @ counted_loops ?it DMALPEND t)) m = Some m' \<and> I (i + ?n * unat cnt) m'"
    if m: "I i m" "ccr m = w" for m
  proof -
    from H(2)[OF m] obtain m1 where "run_flat rs (unroll hi) m = Some m1"
      "I (i + 256 * ?n * unat ?h) m1" "ccr m1 = w" by blast
    moreover from this(2,3) T obtain m2 where "run_flat rs (unroll (counted_loops ?it DMALPEND t)) m1 = Some m2"
      "I (i + ?n * unat cnt) m2" unfolding N [symmetric] by blast
    ultimately show ?thesis by (simp add: unroll_append[OF H(1)] run_flat_append)
  qed
  with ccr show "runs rs (I i) (from_qspi_phase opt k L cnt) (I (i + ?n * unat cnt))"
    unfolding e by (auto simp: runs_def run_program_def)
qed

text \<open>The word that aligns the memory side to 8 bytes.\<close>

definition aligned_rest :: "u32 \<Rightarrow> u32 \<Rightarrow> u32" where
  "aligned_rest pa n = (if pa AND 0x7 \<noteq> 0 then n - 4 else n)"

lemma low_and: "unat (pa AND 0x3 :: u32) = unat pa mod 4" "unat (pa AND 0x7 :: u32) = unat pa mod 8"
  using split_low(2)[of 2 pa] split_low(2)[of 3 pa] by simp_all

lemma and_zero_mod: "(pa AND 0x3 :: u32) = 0 \<longleftrightarrow> unat pa mod 4 = 0" "(pa AND 0x7 :: u32) = 0 \<longleftrightarrow> unat pa mod 8 = 0"
  unfolding low_and [symmetric] by (simp_all add: unat_eq_0)

lemma aligned_rest_props:
  assumes "unat pa mod 4 = 0" and "unat sz mod 4 = 0" and "sz \<noteq> 0"
  shows "\<exists>p. p + unat (aligned_rest pa sz) = unat sz \<and> (unat pa + p) mod 8 = 0 \<and>
    p = (if pa AND 0x7 \<noteq> 0 then 4 else 0)"
proof -
  have "unat sz \<noteq> 0" using assms(3) by (simp add: unat_eq_0)
  with assms(2) have "4 \<le> unat sz" by presburger
  then have "(4 :: u32) \<le> sz" by (simp add: word_le_nat_alt)
  then have u: "unat (sz - 4) = unat sz - 4" by (simp add: unat_sub)
  have "(unat pa + 4) mod 8 = 0" if "unat pa mod 8 \<noteq> 0" using that assms(1) by presburger
  then show ?thesis
    using u \<open>4 \<le> unat sz\<close> by (auto simp: aligned_rest_def and_zero_mod)
qed

lemma at_beat_weaken: "at_beat b a I i m \<Longrightarrow> c dvd b \<Longrightarrow> at_beat c a I i m"
  by (auto simp: at_beat_def mod_eq_0_iff_dvd intro: dvd_trans)

lemma runs_weaken:
  "runs rs P cs Q \<Longrightarrow> (\<And>m. P' m \<Longrightarrow> P m) \<Longrightarrow> (\<And>m. Q m \<Longrightarrow> Q' m) \<Longrightarrow> runs rs P' cs Q'"
  unfolding runs_def by blast

lemma move_single_round: "move_single periph = item_round periph INST_MOD_SINGLE 1 1"
  by (simp add: move_single_def item_round_def)

lemma one_round:
  assumes "advances rs I w n md b" and "closed_calls b" and "\<And>i m v. I i m \<Longrightarrow> I i (m\<lparr> ccr := v \<rparr>)"
  shows "closed_calls (DMAMOV CCR w # b)" and "runs rs (I i) (DMAMOV CCR w # b) (I (i + n))"
proof -
  show "closed_calls (DMAMOV CCR w # b)" using assms(2) by (rule closed_mov)
  show "runs rs (I i) (DMAMOV CCR w # b) (I (i + n))"
    using assms(1,3) unfolding advances_def runs_def run_program_def by fastforce
qed

text \<open>What a segment may be, and what the flash controller must grant.\<close>

definition qspi_sizes_ok :: "u32 \<Rightarrow> u32 \<Rightarrow> bool" where
  "qspi_sizes_ok S B \<longleftrightarrow> (S = 2 \<or> S = 3) \<and> B \<in> qspi_logs"

definition qspi_grants :: "u32 \<Rightarrow> u32 \<Rightarrow> pl330 \<Rightarrow> bool" where
  "qspi_grants S B m \<longleftrightarrow> 2 ^ unat S \<le> room m INST_MOD_SINGLE \<and> (B \<le> S \<or> 2 ^ unat B \<le> room m INST_MOD_BURST)"

definition qspi_segment_ok :: "u32 \<Rightarrow> u32 \<Rightarrow> u32 \<Rightarrow> bool" where
  "qspi_segment_ok S pa sz \<longleftrightarrow> pa AND 0x3 = 0 \<and> sz AND 0x3 = 0 \<and> sz AND (qspi_size S - 1) = 0"

text \<open>The bytes a segment's program moves: after the aligning word, whole single requests.\<close>

definition qspi_moved :: "u32 \<Rightarrow> u32 \<Rightarrow> u32 \<Rightarrow> nat" where
  "qspi_moved S pa sz =
     (let p = (if unat pa mod 8 \<noteq> 0 then 4 else 0) in unat sz - (unat sz - p) mod 2 ^ unat S)"

text \<open>The aligning word, the bursts and the singles make up the program.\<close>

lemma qspi_parts_run:
  assumes "qspi_sizes_ok S B" and "qspi_segment_ok S pa sz" and "sz \<noteq> 0"
    and "qspi_counts S B (aligned_rest pa sz) = (b, c)"
    and align: "if pa AND 0x7 \<noteq> 0
      then closed_calls al \<and> runs rs (at_beat 4 (unat pa) I 0) al (at_beat 4 (unat pa) I 4) else al = []"
    and bursts: "if b \<noteq> 0
      then closed_calls bu \<and> (\<forall>i. runs rs (at_beat 8 (unat pa) I i) bu (at_beat 8 (unat pa) I (i + 2 ^ unat B * unat b)))
      else bu = []"
    and singles: "closed_calls si" "\<And>i. runs rs (at_beat (qspi_beat S) (unat pa) I i) si
      (at_beat (qspi_beat S) (unat pa) I (i + 2 ^ unat S * unat c))"
  shows "closed_calls (al @ bu @ si)" and "runs rs (I 0) (al @ bu @ si) (I (qspi_moved S pa sz))"
proof -
  have S: "S \<in> qspi_logs" "B \<in> qspi_logs" "qspi_beat S dvd 8"
    using assms(1) by (auto simp: qspi_sizes_ok_def qspi_logs_def qspi_beat_def ALT_MIN_def)
  have m: "unat pa mod 4 = 0" "unat sz mod 4 = 0" using assms(2) by (simp_all add: qspi_segment_ok_def and_zero_mod)
  from aligned_rest_props[OF m assms(3)] obtain p where p: "p + unat (aligned_rest pa sz) = unat sz"
    "(unat pa + p) mod 8 = 0" "p = (if pa AND 0x7 \<noteq> 0 then 4 else 0)"
    by (elim exE conjE) (rule that)
  have r: "unat (aligned_rest pa sz) = unat sz - p" "p \<le> unat sz" using p(1) by simp_all
  have pm: "p = (if unat pa mod 8 \<noteq> 0 then 4 else 0)" using p(3) by (simp add: and_zero_mod)
  have "(unat sz - p) mod 2 ^ unat S \<le> unat sz - p" by simp
  then have n: "p + 2 ^ unat B * unat b + 2 ^ unat S * unat c = qspi_moved S pa sz"
    unfolding qspi_moved_def pm [symmetric] Let_def
    using qspi_counts_total[OF S(1,2) assms(4), unfolded r(1)] r(2) by linarith
  have A: "closed_calls al" "runs rs (I 0) al (at_beat 8 (unat pa) I p)"
  proof -
    show "closed_calls al" using align by (auto split: if_splits)
    have "runs rs (at_beat 4 (unat pa) I 0) al (at_beat 4 (unat pa) I p)"
      using align p(3) by (auto split: if_splits)
    then show "runs rs (I 0) al (at_beat 8 (unat pa) I p)"
      by (rule runs_weaken) (use m(1) p(2) in \<open>simp_all add: at_beat_def\<close>)
  qed
  have B: "closed_calls bu"
    "runs rs (at_beat 8 (unat pa) I p) bu (at_beat (qspi_beat S) (unat pa) I (p + 2 ^ unat B * unat b))"
  proof -
    show "closed_calls bu" using bursts by (auto split: if_splits)
    have "runs rs (at_beat 8 (unat pa) I p) bu (at_beat 8 (unat pa) I (p + 2 ^ unat B * unat b))"
      using bursts by (auto split: if_splits)
    then show "runs rs (at_beat 8 (unat pa) I p) bu (at_beat (qspi_beat S) (unat pa) I (p + 2 ^ unat B * unat b))"
      by (rule runs_weaken) (use at_beat_weaken[OF _ S(3)] in blast)+
  qed
  have C: "runs rs (at_beat (qspi_beat S) (unat pa) I (p + 2 ^ unat B * unat b)) si (I (qspi_moved S pa sz))"
    by (rule runs_weaken[OF singles(2)[of "p + 2 ^ unat B * unat b", unfolded n]]) (simp_all add: at_beat_def)
  show "closed_calls (al @ bu @ si)" by (intro closed_append A(1) B(1) singles(1))
  show "runs rs (I 0) (al @ bu @ si) (I (qspi_moved S pa sz))"
    by (intro runs_append[OF A] runs_append[OF B] C)
qed

lemma qspi_beats_of:
  assumes "qspi_sizes_ok S B"
  shows "S \<in> qspi_logs" and "S \<le> 3" and "B \<in> qspi_logs" and "S < B \<Longrightarrow> qspi_beat B = 8"
  using assms by (auto simp: qspi_sizes_ok_def qspi_logs_def qspi_beat_def ALT_MIN_def)

lemma to_qspi_runs:
  assumes "ccr_opts_ok opt" and "qspi_sizes_ok S B" and "qspi_segment_ok S pa sz" and "sz \<noteq> 0"
    and "qspi_grants S B m0" and "room m0 = R"
  shows "closed_calls (DMAMOV SAR pa # to_qspi_calls opt S B pa sz)"
    and "runs rs (starts_at m0 R) (DMAMOV SAR pa # to_qspi_calls opt S B pa sz)
      (sending R (dar m0) (memory m0) (unat pa) (reg_out m0) (qspi_moved S pa sz))"
proof -
  note S = qspi_beats_of[OF assms(2)]
  have room: "2 ^ unat S \<le> R INST_MOD_SINGLE" "S < B \<Longrightarrow> 2 ^ unat B \<le> R INST_MOD_BURST"
    using assms(5,6) by (auto simp: qspi_grants_def)
  have "4 \<le> (2 :: nat) ^ unat S" using qspi_words(4)[OF S(1)] by (rule dvd_imp_le) simp
  then have four: "4 \<le> R INST_MOD_SINGLE" using room(1) by (rule order.trans)
  let ?I = "sending R (dar m0) (memory m0) (unat pa) (reg_out m0)"
  define w where "w = ccr_periph_out opt (SAI opt) (SS32 opt) (SB1 opt) (SC opt 7) (DS32 opt)"
  have v: "SS32 opt = push_bit 1 2" "SB1 opt = sb_len 1" "DS32 opt = push_bit 15 2"
    using assms(1) by (simp_all add: ccr_opts_ok_def sb_len_def)
  have w: "src_field w = (True, 4, 1)" "dst_field w = (False, 4, 1)"
    unfolding w_def v using ccr_periph_out_fields[OF assms(1), of 1 2 2 "SC opt 7"]
    by (simp_all add: lengths_def sizes_def)
  have "advances rs (at_beat 4 (unat pa) ?I) w 4 INST_MOD_SINGLE (move_single ALT_DMA_PERIPH_QSPI_FLASH_TX)" for rs
    unfolding move_single_round by (rule send_round[where R = R, OF w]) (use four in \<open>simp_all add: piece_def\<close>)
  note al = one_round[OF this flat_closed, unfolded move_single_round, OF item_round_flat, folded move_single_round]
  have al': "closed_calls (DMAMOV CCR w # move_single ALT_DMA_PERIPH_QSPI_FLASH_TX)"
    "runs rs (at_beat 4 (unat pa) ?I 0) (DMAMOV CCR w # move_single ALT_DMA_PERIPH_QSPI_FLASH_TX)
      (at_beat 4 (unat pa) ?I 4)" for rs
    using al(1) al(2)[where i = 0] by (simp_all add: at_beat_def)
  obtain b c where bc: "qspi_counts S B (aligned_rest pa sz) = (b, c)" by force
  note P = to_qspi_phase_runs(1)[where R = R, OF assms(1)] to_qspi_phase_runs(2)[where R = R and s = "unat pa", OF assms(1)]
  have nb: "b \<noteq> 0 \<Longrightarrow> S < B" using bc by (auto simp: qspi_counts_def Let_def split: if_splits)
  define a where "a = (if pa AND 0x7 \<noteq> 0 then DMAMOV CCR w # move_single ALT_DMA_PERIPH_QSPI_FLASH_TX else [])"
  note run = qspi_parts_run[where I = ?I and al = a and bu = "to_qspi_phase opt INST_MOD_BURST B b"
      and si = "to_qspi_phase opt INST_MOD_SINGLE S c", OF assms(2-4) bc]
  have parts: "closed_calls (a @ to_qspi_phase opt INST_MOD_BURST B b @ to_qspi_phase opt INST_MOD_SINGLE S c) \<and>
      runs rs (?I 0) (a @ to_qspi_phase opt INST_MOD_BURST B b @ to_qspi_phase opt INST_MOD_SINGLE S c) (?I (qspi_moved S pa sz))"
    for rs
  proof -
    have h1: "if pa AND 0x7 \<noteq> 0 then closed_calls a \<and> runs rs (at_beat 4 (unat pa) ?I 0) a (at_beat 4 (unat pa) ?I 4)
        else a = []" using al' by (simp add: a_def)
    have h2: "if b \<noteq> 0 then closed_calls (to_qspi_phase opt INST_MOD_BURST B b) \<and>
        (\<forall>i. runs rs (at_beat 8 (unat pa) ?I i) (to_qspi_phase opt INST_MOD_BURST B b)
          (at_beat 8 (unat pa) ?I (i + 2 ^ unat B * unat b)))
        else to_qspi_phase opt INST_MOD_BURST B b = []"
      using P[where k = INST_MOD_BURST and cnt = b, OF S(3) _ room(2)] nb S(4) by (auto simp: to_qspi_phase_def)
    have h3: "closed_calls (to_qspi_phase opt INST_MOD_SINGLE S c)"
      "runs rs (at_beat (qspi_beat S) (unat pa) ?I i) (to_qspi_phase opt INST_MOD_SINGLE S c)
        (at_beat (qspi_beat S) (unat pa) ?I (i + 2 ^ unat S * unat c))" for i
      using P[where k = INST_MOD_SINGLE and cnt = c, OF S(1) _ room(1)] S(2) by simp_all
    show ?thesis by (intro conjI run[OF h1 h2 h3])
  qed
  have e: "DMAMOV SAR pa # to_qspi_calls opt S B pa sz =
      [DMAMOV SAR pa] @ a @ to_qspi_phase opt INST_MOD_BURST B b @ to_qspi_phase opt INST_MOD_SINGLE S c"
    using bc by (auto simp: to_qspi_calls_def qspi_align_def aligned_rest_def a_def w_def)
  have mov: "closed_calls [DMAMOV SAR pa]" by (simp add: flat_closed)
  show "closed_calls (DMAMOV SAR pa # to_qspi_calls opt S B pa sz)"
    unfolding e using parts mov by blast
  show "runs rs (starts_at m0 R) (DMAMOV SAR pa # to_qspi_calls opt S B pa sz) (?I (qspi_moved S pa sz))"
    unfolding e using parts by (intro runs_append[OF mov starts_sending]) blast
qed

lemma from_qspi_runs:
  assumes "ccr_opts_ok opt" and "qspi_sizes_ok S B" and "qspi_segment_ok S pa sz" and "sz \<noteq> 0"
    and "qspi_grants S B m0" and "room m0 = R"
  shows "closed_calls (DMAMOV DAR pa # from_qspi_calls opt S B pa sz)"
    and "runs rs (starts_dev m0 R) (DMAMOV DAR pa # from_qspi_calls opt S B pa sz)
      (receiving R (sar m0) rs (memory m0) (unat pa) (reg_in m0) (qspi_moved S pa sz))"
proof -
  note S = qspi_beats_of[OF assms(2)]
  have room: "2 ^ unat S \<le> R INST_MOD_SINGLE" "S < B \<Longrightarrow> 2 ^ unat B \<le> R INST_MOD_BURST"
    using assms(5,6) by (auto simp: qspi_grants_def)
  have "4 \<le> (2 :: nat) ^ unat S" using qspi_words(4)[OF S(1)] by (rule dvd_imp_le) simp
  then have four: "4 \<le> R INST_MOD_SINGLE" using room(1) by (rule order.trans)
  let ?I = "receiving R (sar m0) rs (memory m0) (unat pa) (reg_in m0)"
  define w where "w = ccr_periph_in opt (SS32 opt) (DS32 opt) (DB1 opt)"
  have v: "SS32 opt = push_bit 1 2" "DB1 opt = db_len 1" "DS32 opt = push_bit 15 2"
    using assms(1) by (simp_all add: ccr_opts_ok_def db_len_def)
  have w: "src_field w = (False, 4, 1)" "dst_field w = (True, 4, 1)"
    unfolding w_def v using ccr_periph_in_fields[OF assms(1), of 1 2 2]
    by (simp_all add: lengths_def sizes_def)
  have "advances rs (at_beat 4 (unat pa) ?I) w 4 INST_MOD_SINGLE (move_single ALT_DMA_PERIPH_QSPI_FLASH_RX)"
    unfolding move_single_round by (rule receive_round[where R = R, OF w]) (use four in \<open>simp_all add: piece_def\<close>)
  note al = one_round[OF this flat_closed, unfolded move_single_round, OF item_round_flat, folded move_single_round]
  have al': "closed_calls (DMAMOV CCR w # move_single ALT_DMA_PERIPH_QSPI_FLASH_RX)"
    "runs rs (at_beat 4 (unat pa) ?I 0) (DMAMOV CCR w # move_single ALT_DMA_PERIPH_QSPI_FLASH_RX)
      (at_beat 4 (unat pa) ?I 4)"
    using al(1) al(2)[where i = 0] by (simp_all add: at_beat_def)
  obtain b c where bc: "qspi_counts S B (aligned_rest pa sz) = (b, c)" by force
  note P = from_qspi_phase_runs(1)[where R = R, OF assms(1)] from_qspi_phase_runs(2)[where R = R and d = "unat pa", OF assms(1)]
  have nb: "b \<noteq> 0 \<Longrightarrow> S < B" using bc by (auto simp: qspi_counts_def Let_def split: if_splits)
  define a where "a = (if pa AND 0x7 \<noteq> 0 then DMAMOV CCR w # move_single ALT_DMA_PERIPH_QSPI_FLASH_RX else [])"
  note run = qspi_parts_run[where I = ?I and al = a and bu = "from_qspi_phase opt INST_MOD_BURST B b"
      and si = "from_qspi_phase opt INST_MOD_SINGLE S c", OF assms(2-4) bc]
  have parts: "closed_calls (a @ from_qspi_phase opt INST_MOD_BURST B b @ from_qspi_phase opt INST_MOD_SINGLE S c) \<and>
      runs rs (?I 0) (a @ from_qspi_phase opt INST_MOD_BURST B b @ from_qspi_phase opt INST_MOD_SINGLE S c) (?I (qspi_moved S pa sz))"
   
  proof -
    have h1: "if pa AND 0x7 \<noteq> 0 then closed_calls a \<and> runs rs (at_beat 4 (unat pa) ?I 0) a (at_beat 4 (unat pa) ?I 4)
        else a = []" using al' by (simp add: a_def)
    have h2: "if b \<noteq> 0 then closed_calls (from_qspi_phase opt INST_MOD_BURST B b) \<and>
        (\<forall>i. runs rs (at_beat 8 (unat pa) ?I i) (from_qspi_phase opt INST_MOD_BURST B b)
          (at_beat 8 (unat pa) ?I (i + 2 ^ unat B * unat b)))
        else from_qspi_phase opt INST_MOD_BURST B b = []"
      using P[where k = INST_MOD_BURST and cnt = b, OF S(3) _ room(2)] nb S(4) by (auto simp: from_qspi_phase_def)
    have h3: "closed_calls (from_qspi_phase opt INST_MOD_SINGLE S c)"
      "runs rs (at_beat (qspi_beat S) (unat pa) ?I i) (from_qspi_phase opt INST_MOD_SINGLE S c)
        (at_beat (qspi_beat S) (unat pa) ?I (i + 2 ^ unat S * unat c))" for i
      using P[where k = INST_MOD_SINGLE and cnt = c, OF S(1) _ room(1)] S(2) by simp_all
    show ?thesis by (intro conjI run[OF h1 h2 h3])
  qed
  have e: "DMAMOV DAR pa # from_qspi_calls opt S B pa sz =
      [DMAMOV DAR pa] @ a @ from_qspi_phase opt INST_MOD_BURST B b @ from_qspi_phase opt INST_MOD_SINGLE S c"
    using bc by (auto simp: from_qspi_calls_def qspi_align_def aligned_rest_def a_def w_def)
  have mov: "closed_calls [DMAMOV DAR pa]" by (simp add: flat_closed)
  show "closed_calls (DMAMOV DAR pa # from_qspi_calls opt S B pa sz)"
    unfolding e using parts mov by blast
  show "runs rs (starts_dev m0 R) (DMAMOV DAR pa # from_qspi_calls opt S B pa sz) (?I (qspi_moved S pa sz))"
    unfolding e using parts by (intro runs_append[OF mov starts_receiving]) blast
qed


section \<open>QSPI transfers\<close>

lemma qspi_segment_emits:
  assumes "assembler E calls"
  shows "emits calls (qspi_segment E mov f S pa n) (DMAMOV mov pa # f pa n)"
proof -
  let ?g = "\<lambda>st. if n AND (qspi_size S - 1) \<noteq> 0 then State_Monad.return ALT_E_ERROR
    else guarded st (emit_all E (f pa n))"
  have "emits calls (do { st \<leftarrow> emit E (DMAMOV mov pa); ?g st }) ([DMAMOV mov pa] @ f pa n)"
  proof (cases "n AND (qspi_size S - 1) = 0")
    case True
    then show ?thesis
      by (intro emits_bind emits_emit assms) (auto simp: guarded_def intro: emits_all assms)
  next
    case False
    then show ?thesis
      using emits_emit[OF assms, of "DMAMOV mov pa"] by (auto simp: emits_def split: prod.splits)
  qed
  then show ?thesis by (auto simp: qspi_segment_def emits_fail)
qed

lemma qspi_segment_success:
  "fst (run_state (qspi_segment E mov f S pa n) s) = ALT_E_SUCCESS \<Longrightarrow> qspi_segment_ok S pa n"
  by (auto simp: qspi_segment_def qspi_segment_ok_def split: if_splits prod.splits)

lemma over_segments_success:
  assumes "weak_mmu E" and "sz \<noteq> 0"
    and "run_state (over_segments (Suc fuel) E seg buf sz status) s = (Some ALT_E_SUCCESS, s')"
  shows "fst (run_state (seg buf sz) s) = ALT_E_SUCCESS"
  using assms(3) unfolding over_segments_one[OF assms(1,2)]
  by (auto simp: segment_body_def guarded_def split: if_splits prod.splits)

lemma over_segments_failed:
  "status \<noteq> ALT_E_SUCCESS \<Longrightarrow>
    run_state (over_segments fuel E seg buf sz status) s = (Some status, s)"
  by (auto simp: over_segments_def segments_end split: prod.split)

text \<open>Both directions: the register, the sizes the controller is set to, the segment.\<close>

definition qspi_body ::
  "nat \<Rightarrow> ('p, 'c) dma_env \<Rightarrow> periph_env \<Rightarrow> dma_reg \<Rightarrow> dma_reg \<Rightarrow> (u32 \<Rightarrow> u32 \<Rightarrow> u32 \<Rightarrow> u32 \<Rightarrow> dma_call list) \<Rightarrow>
   u32 \<Rightarrow> u32 \<Rightarrow> ('p, status option) dma" where
  "qspi_body fuel E P reg mov f buf sz =
     do { status \<leftarrow> emit E (DMAMOV reg (QSPIDATA_ADDR P));
          v \<leftarrow> on_bus (alt_read_word (regs E) (QSPI_DMAPER_ADDR P));
          over_segments fuel E
            (qspi_segment E mov (f (QSPI_NUMSGLREQBYTES_GET P v) (QSPI_NUMBURSTREQBYTES_GET P v))
              (QSPI_NUMSGLREQBYTES_GET P v)) buf sz status }"

lemma qspi_bodies:
  "alt_dma_memory_to_qspi fuel E P src sz = qspi_body fuel E P DAR SAR (to_qspi_calls (opts E)) src sz"
  "alt_dma_qspi_to_memory fuel E P dst sz = qspi_body fuel E P SAR DAR (from_qspi_calls (opts E)) dst sz"
  by (simp_all add: alt_dma_memory_to_qspi_def alt_dma_qspi_to_memory_def qspi_body_def
      alt_dma_memory_to_qspi_segment_def[abs_def] alt_dma_qspi_to_memory_segment_def[abs_def])

lemma qspi_body_emits:
  fixes P :: periph_env and s :: "'p dma_state"
  assumes "weak_mmu E" and "assembler E calls" and "sz \<noteq> 0"
  defines "v \<equiv> regs E (bus s) (QSPI_DMAPER_ADDR P)"
  shows "emits_at calls s (qspi_body (Suc fuel) E P reg mov f buf sz)
    (DMAMOV reg (QSPIDATA_ADDR P) # DMAMOV mov buf #
     f (QSPI_NUMSGLREQBYTES_GET P v) (QSPI_NUMBURSTREQBYTES_GET P v) buf sz)"
  unfolding qspi_body_def
proof (rule emits_at_move[OF assms(2)], goal_cases)
  case (1 st s1)
  show ?case
    unfolding v_def 1 [symmetric]
    by (intro emits_at_read over_segments_emit[OF assms(1,3)] qspi_segment_emits assms(2))
next
  case (2 st s1)
  then show ?case by (simp add: on_bus_def bus_simps over_segments_failed)
qed

lemma qspi_body_success:
  assumes "weak_mmu E" and "sz \<noteq> 0"
    and "run_state (qspi_body (Suc fuel) E P reg mov f buf sz) s = (Some ALT_E_SUCCESS, s')"
  shows "qspi_segment_ok (QSPI_NUMSGLREQBYTES_GET P (regs E (bus s) (QSPI_DMAPER_ADDR P))) buf sz"
proof -
  obtain st s1 where e: "run_state (emit E (DMAMOV reg (QSPIDATA_ADDR P))) s = (st, s1)" by force
  then have "bus s1 = bus s" by (auto simp: emit_def bus_simps)
  with assms(3) e show ?thesis
    by (auto simp: qspi_body_def on_bus_def bus_simps
        dest!: over_segments_success[OF assms(1,2)] qspi_segment_success)
qed

lemma starts_at_set:
  "(\<lambda>m. m = m0\<lparr> dar := x \<rparr> \<and> mfifo m = []) = starts_at (m0\<lparr> dar := x \<rparr>) (room m0)"
  "x \<notin> cells m0 \<Longrightarrow> (\<lambda>m. m = m0\<lparr> sar := x \<rparr> \<and> mfifo m = []) = starts_dev (m0\<lparr> sar := x \<rparr>) (room m0)"
  by (auto simp: starts_at_def starts_dev_def fun_eq_iff)

text \<open>A program of a register address and a body that sends or receives.\<close>

lemma sends_performs:
  assumes "\<And>m. P m \<Longrightarrow> P (m\<lparr> dar := unat reg \<rparr>)"
    and "\<And>m0 rs. P m0 \<Longrightarrow> closed_calls cs \<and>
      runs rs (starts_at m0 (room m0)) cs (sending (room m0) (dar m0) (memory m0) (unat src) (reg_out m0) n)"
  shows "performs_when P ((DMAMOV DAR reg # cs) @ closing wmb send_evt evt) (sends_bytes reg src n)"
proof (rule performs_when_closing)
  fix m0
  assume "P m0"
  note R = assms(2)[OF assms(1)[OF this]]
  show "closed_calls (DMAMOV DAR reg # cs)" using R by (blast intro: closed_mov)
  fix rs
  show "runs rs (\<lambda>m. m = m0 \<and> mfifo m = []) (DMAMOV DAR reg # cs)
      (sending (room m0) (unat reg) (memory m0) (unat src) (reg_out m0) n)"
    using runs_append[OF _ runs_set_dar[where rs = rs and reg = reg and ?m0.0 = m0], where ds = cs] R by (simp add: flat_closed starts_at_set)
qed (simp add: sending_def sent_def sends_bytes_def)

lemma receives_performs:
  assumes "\<And>m. P m \<Longrightarrow> P (m\<lparr> sar := unat reg \<rparr>)"
    and "\<And>m0 rs. P m0 \<Longrightarrow> closed_calls cs \<and>
      runs rs (starts_dev m0 (room m0)) cs
        (receiving (room m0) (sar m0) rs (memory m0) (unat dst) (reg_in m0) n)"
  shows "performs_when (\<lambda>m. P m \<and> is_device reg m) ((DMAMOV SAR reg # cs) @ closing wmb send_evt evt) (receives_bytes dst reg n)"
proof (rule performs_when_closing)
  fix m0
  assume "P m0 \<and> is_device reg m0"
  then have p: "P m0" "unat reg \<notin> cells m0" by (simp_all add: is_device_def)
  note R = assms(2)[OF assms(1)[OF p(1)]]
  show "closed_calls (DMAMOV SAR reg # cs)" using R by (blast intro: closed_mov)
  fix rs
  show "runs rs (\<lambda>m. m = m0 \<and> mfifo m = []) (DMAMOV SAR reg # cs)
      (receiving (room m0) (unat reg) rs (memory m0) (unat dst) (reg_in m0) n)"
    using runs_append[OF _ runs_set_sar[where rs = rs and reg = reg and ?m0.0 = m0], where ds = cs] R by (simp add: flat_closed starts_at_set p(2))
qed (simp add: receiving_def received_def receives_bytes_def)

lemma memory_to_qspi_starts:
  assumes "weak_mmu E" and "assembler E calls" and "ccr_opts_ok (opts E)" and "sz \<noteq> 0"
    and "S = QSPI_NUMSGLREQBYTES_GET P (regs E (bus s) (QSPI_DMAPER_ADDR P))"
    and "B = QSPI_NUMBURSTREQBYTES_GET P (regs E (bus s) (QSPI_DMAPER_ADDR P))"
    and "qspi_sizes_ok S B"
    and "qspi_segment_ok S src sz \<Longrightarrow> qspi_moved S src sz = n"
  shows "starts_when E calls channel (qspi_grants S B) (sends_bytes (QSPIDATA_ADDR P) src n) s
    (run_state (alt_dma_memory_to_periph (Suc fuel) E P channel ALT_DMA_PERIPH_QSPI_FLASH_TX src sz info
       send_evt evt) s)"
  unfolding alt_dma_memory_to_periph_def to_periph_def dma_periph.case qspi_bodies
proof (rule periph_transfer_starts[OF assms(2,4)])
  fix s1 :: "'a dma_state"
  assume s1: "bus s1 = bus s"
  show "emits_at calls s1 (qspi_body (Suc fuel) E P DAR SAR (to_qspi_calls (opts E)) src sz)
      (DMAMOV DAR (QSPIDATA_ADDR P) # DMAMOV SAR src # to_qspi_calls (opts E) S B src sz)"
    using qspi_body_emits[OF assms(1,2,4), of s1] by (simp only: s1 assms(5,6))
  fix s2
  assume "run_state (qspi_body (Suc fuel) E P DAR SAR (to_qspi_calls (opts E)) src sz) s1 = (Some ALT_E_SUCCESS, s2)"
  from qspi_body_success[OF assms(1,4) this] have "qspi_segment_ok S src sz"
    by (simp only: s1 assms(5))
  note run = to_qspi_runs[OF assms(3,7) this assms(4), unfolded assms(8)[OF this]]
  show "performs_when (qspi_grants S B)
      ((DMAMOV DAR (QSPIDATA_ADDR P) # DMAMOV SAR src # to_qspi_calls (opts E) S B src sz) @
       closing False send_evt evt) (sends_bytes (QSPIDATA_ADDR P) src n)"
    by (intro sends_performs conjI run) (simp_all add: qspi_grants_def)
qed

lemma qspi_to_memory_starts:
  assumes "weak_mmu E" and "assembler E calls" and "ccr_opts_ok (opts E)" and "sz \<noteq> 0"
    and "S = QSPI_NUMSGLREQBYTES_GET P (regs E (bus s) (QSPI_DMAPER_ADDR P))"
    and "B = QSPI_NUMBURSTREQBYTES_GET P (regs E (bus s) (QSPI_DMAPER_ADDR P))"
    and "qspi_sizes_ok S B"
    and "qspi_segment_ok S dst sz \<Longrightarrow> qspi_moved S dst sz = n"
  shows "starts_when E calls channel (\<lambda>m. qspi_grants S B m \<and> is_device (QSPIDATA_ADDR P) m) (receives_bytes dst (QSPIDATA_ADDR P) n) s
    (run_state (alt_dma_periph_to_memory (Suc fuel) E P channel dst ALT_DMA_PERIPH_QSPI_FLASH_RX sz info
       send_evt evt) s)"
  unfolding alt_dma_periph_to_memory_def from_periph_def dma_periph.case qspi_bodies
proof (rule periph_transfer_starts[OF assms(2,4)])
  fix s1 :: "'a dma_state"
  assume s1: "bus s1 = bus s"
  show "emits_at calls s1 (qspi_body (Suc fuel) E P SAR DAR (from_qspi_calls (opts E)) dst sz)
      (DMAMOV SAR (QSPIDATA_ADDR P) # DMAMOV DAR dst # from_qspi_calls (opts E) S B dst sz)"
    using qspi_body_emits[OF assms(1,2,4), of s1] by (simp only: s1 assms(5,6))
  fix s2
  assume "run_state (qspi_body (Suc fuel) E P SAR DAR (from_qspi_calls (opts E)) dst sz) s1 = (Some ALT_E_SUCCESS, s2)"
  from qspi_body_success[OF assms(1,4) this] have "qspi_segment_ok S dst sz"
    by (simp only: s1 assms(5))
  note run = from_qspi_runs[OF assms(3,7) this assms(4), unfolded assms(8)[OF this]]
  show "performs_when (\<lambda>m. qspi_grants S B m \<and> is_device (QSPIDATA_ADDR P) m)
      ((DMAMOV SAR (QSPIDATA_ADDR P) # DMAMOV DAR dst # from_qspi_calls (opts E) S B dst sz) @
       closing False send_evt evt) (receives_bytes dst (QSPIDATA_ADDR P) n)"
    by (intro receives_performs conjI run) (simp_all add: qspi_grants_def)
qed

lemma qspi_moved_all:
  assumes "S = 2 \<or> unat pa mod 8 = 0" and "S = 2 \<or> S = 3" and "qspi_segment_ok S pa sz"
  shows "qspi_moved S pa sz = unat sz"
proof (cases "S = 2")
  case True
  define n where "n = unat sz"
  have n: "n mod 4 = 0" using assms(3) unfolding n_def qspi_segment_ok_def and_zero_mod by blast
  moreover from n have "(n - 4) mod 4 = 0" by presburger
  ultimately show ?thesis unfolding qspi_moved_def n_def [symmetric] True by simp
next
  case False
  then have S: "S = 3" using assms(2) by blast
  have "sz AND 7 = 0" using assms(3) by (simp add: S qspi_segment_ok_def qspi_size_def)
  then have "unat sz mod 8 = 0" by (simp add: and_zero_mod)
  then show ?thesis using S False assms(1) by (simp add: qspi_moved_def)
qed

lemma qspi_moved_less:
  assumes "unat pa mod 8 = 4" and "qspi_segment_ok 3 pa sz" and "sz \<noteq> 0"
  shows "qspi_moved 3 pa sz = unat sz - 4"
proof -
  have "sz AND 7 = 0" using assms(2) by (simp add: qspi_segment_ok_def qspi_size_def)
  then have "unat sz mod 8 = 0" by (simp add: and_zero_mod)
  then obtain k where k: "unat sz = 8 * k" by auto
  have "unat sz \<noteq> 0" using assms(3) by (simp add: unat_eq_0)
  with k obtain j where "k = Suc j" by (cases k) auto
  with k have "unat sz - 4 = 8 * j + 4" by simp
  then have "(unat sz - 4) mod 8 = 4" by simp
  then show ?thesis using assms(1) by (simp add: qspi_moved_def)
qed

lemma qspi_moved_exact:
  assumes "qspi_sizes_ok S B" and "qspi_segment_ok S pa sz" and "sz \<noteq> 0"
  shows "qspi_moved S pa sz = unat sz - (if S = 3 \<and> unat pa mod 8 \<noteq> 0 then 4 else 0)"
proof (cases "S = 3 \<and> unat pa mod 8 \<noteq> 0")
  case True
  have "unat pa mod 4 = 0" using assms(2) unfolding qspi_segment_ok_def and_zero_mod by blast
  moreover have "unat pa mod 8 \<noteq> 0" using True by blast
  ultimately have "unat pa mod 8 = 4" by presburger
  with True assms(2,3) show ?thesis using qspi_moved_less by simp
next
  case False
  then have "S = 2 \<or> unat pa mod 8 = 0" using assms(1) by (auto simp: qspi_sizes_ok_def)
  then show ?thesis using qspi_moved_all[OF _ _ assms(2)] assms(1) False by (auto simp: qspi_sizes_ok_def)
qed

text \<open>
  C21: \<open>alt_dma_memory_to_periph\<close> to the QSPI flash of at least one byte, with the default
  address translation and the controller set to single requests of 4 or 8 bytes (and burst
  requests of a size in \<open>qspi_logs\<close>), always returns.  On success it has started a program that
  moves the bytes at \<open>src\<close> in order to the flash data port, asking for no more than each
  request grants, and changes no memory: all \<open>size\<close> bytes, except that with single requests of
  8 bytes and a source that is not 8-byte aligned the last 4 bytes are never moved.  A
  misaligned source or size and any other failure write no register.
\<close>

theorem memory_to_qspi_sends:
  assumes "weak_mmu E" and "assembler E calls" and "ccr_opts_ok (opts E)" and "sz \<noteq> 0"
    and "S = QSPI_NUMSGLREQBYTES_GET P (regs E (bus s) (QSPI_DMAPER_ADDR P))"
    and "B = QSPI_NUMBURSTREQBYTES_GET P (regs E (bus s) (QSPI_DMAPER_ADDR P))"
    and "qspi_sizes_ok S B"
  shows "starts_when E calls channel (qspi_grants S B)
    (sends_bytes (QSPIDATA_ADDR P) src (unat sz - (if S = 3 \<and> unat src mod 8 \<noteq> 0 then 4 else 0))) s
    (run_state (alt_dma_memory_to_periph (Suc fuel) E P channel ALT_DMA_PERIPH_QSPI_FLASH_TX src sz info
       send_evt evt) s)"
  by (rule memory_to_qspi_starts[OF assms qspi_moved_exact[OF assms(7) _ assms(4)]])

text \<open>
  C22: \<open>alt_dma_periph_to_memory\<close> from the QSPI flash of at least one byte, with the default
  address translation and the controller set to single requests of 4 or 8 bytes (and burst
  requests of a size in \<open>qspi_logs\<close>), always returns.  On success it has started a program
  that, where the address of the flash data port is a device's, stores the next bytes of that
  port in order at \<open>dst\<close>, taking no more than each request grants, and changes no other memory:
  all \<open>size\<close> bytes, except that with single requests of 8 bytes and a destination that is not
  8-byte aligned the last 4 bytes are never taken.  A misaligned destination or size and any
  other failure write no register.
\<close>

theorem qspi_to_memory_receives:
  assumes "weak_mmu E" and "assembler E calls" and "ccr_opts_ok (opts E)" and "sz \<noteq> 0"
    and "S = QSPI_NUMSGLREQBYTES_GET P (regs E (bus s) (QSPI_DMAPER_ADDR P))"
    and "B = QSPI_NUMBURSTREQBYTES_GET P (regs E (bus s) (QSPI_DMAPER_ADDR P))"
    and "qspi_sizes_ok S B"
  shows "starts_when E calls channel (\<lambda>m. qspi_grants S B m \<and> is_device (QSPIDATA_ADDR P) m)
    (receives_bytes dst (QSPIDATA_ADDR P) (unat sz - (if S = 3 \<and> unat dst mod 8 \<noteq> 0 then 4 else 0))) s
    (run_state (alt_dma_periph_to_memory (Suc fuel) E P channel dst ALT_DMA_PERIPH_QSPI_FLASH_RX sz info
       send_evt evt) s)"
  by (rule qspi_to_memory_starts[OF assms qspi_moved_exact[OF assms(7) _ assms(4)]])

text \<open>
  With single requests of 8 bytes and a source that is aligned to 4 bytes only, a transfer
  to the flash that reports success has started a program that never moves the last 4 bytes.
\<close>

theorem qspi_last_word_dropped:
  assumes "weak_mmu E" and "assembler E calls" and "ccr_opts_ok (opts E)" and "sz \<noteq> 0"
    and "QSPI_NUMSGLREQBYTES_GET P (regs E (bus s) (QSPI_DMAPER_ADDR P)) = 3"
    and "QSPI_NUMBURSTREQBYTES_GET P (regs E (bus s) (QSPI_DMAPER_ADDR P)) = B"
    and "B \<in> qspi_logs" and "unat src mod 8 = 4"
  shows "starts_when E calls channel (qspi_grants 3 B) (sends_bytes (QSPIDATA_ADDR P) src (unat sz - 4)) s
    (run_state (alt_dma_memory_to_periph (Suc fuel) E P channel ALT_DMA_PERIPH_QSPI_FLASH_TX src sz info
       send_evt evt) s)"
  by (rule memory_to_qspi_starts[OF assms(1-4) assms(5,6) [symmetric]])
    (simp_all add: qspi_sizes_ok_def assms(7) qspi_moved_less[OF assms(8) _ assms(4)])

lemma demo_over_segments_run:
  assumes "\<not> va + sz - 1 < va" and "sz \<noteq> 0"
  shows "run_state (over_segments (Suc 0) demo_dma seg va sz ALT_E_SUCCESS) s =
    (case run_state (seg va sz) s of (st, s1) \<Rightarrow> (Some st, s1))"
proof -
  have "fst (coalesce_begin demo_dma va sz) = ALT_E_SUCCESS"
    using assms(1) by (simp add: demo_dma_def alt_mmu_va_to_pa_coalesce_begin_def)
  then show ?thesis
    by (simp add: over_segments_one[OF demo_ok(1) assms(2)] segment_body_def guarded_def)
qed

lemma demo_qspi_run:
  assumes "\<not> buf + sz - 1 < buf" and "sz \<noteq> 0" and "\<And>v. qspi_segment_ok (QSPI_NUMSGLREQBYTES_GET P v) buf sz"
    and "channel_info s ! 2 = 1"
  shows "\<exists>s2. run_state (qspi_body (Suc 0) demo_dma P reg mov f buf sz) s = (Some ALT_E_SUCCESS, s2) \<and>
    channel_info s2 ! 2 = 1"
  using assms
  by (simp add: qspi_body_def demo_emit on_bus_def bus_simps demo_over_segments_run qspi_segment_def
      qspi_segment_ok_def demo_emit_all guarded_def)

lemma demo_qspi_success:
  assumes "\<not> buf + sz - 1 < buf" and "sz \<noteq> 0" and "\<And>v. qspi_segment_ok (QSPI_NUMSGLREQBYTES_GET P v) buf sz"
  shows "fst (run_state (periph_transfer demo_dma 2 (qspi_body (Suc 0) demo_dma P reg mov f buf sz) buf sz
    send_evt evt) dma_demo_state) = Some ALT_E_SUCCESS"
proof -
  have "channel_info (dma_demo_state\<lparr> program := [] \<rparr>) ! 2 = 1" by (simp add: dma_demo_state_def)
  from demo_qspi_run[OF assms this] obtain s2 where
    "run_state (qspi_body (Suc 0) demo_dma P reg mov f buf sz) (dma_demo_state\<lparr> program := [] \<rparr>) =
      (Some ALT_E_SUCCESS, s2)" "channel_info s2 ! 2 = 1" by blast
  from demo_periph_success[OF this assms(2,1)] show ?thesis .
qed

lemma demo_unaligned_success:
  "fst (run_state (alt_dma_memory_to_periph (Suc 0) demo_dma (demo_periph\<lparr> QSPI_NUMSGLREQBYTES_GET := (\<lambda>v. 3) \<rparr>) 2
     ALT_DMA_PERIPH_QSPI_FLASH_TX 0x1004 16 demo_info True 1) dma_demo_state) = Some ALT_E_SUCCESS"
proof -
  let ?P = "demo_periph\<lparr> QSPI_NUMSGLREQBYTES_GET := (\<lambda>v. 3) \<rparr>"
  have "qspi_segment_ok (QSPI_NUMSGLREQBYTES_GET ?P v) 0x1004 16" for v
    by (simp add: qspi_segment_ok_def qspi_size_def)
  from demo_qspi_success[OF _ _ this] show ?thesis
    by (simp add: alt_dma_memory_to_periph_def to_periph_def qspi_bodies)
qed

text \<open>
  1000 bytes by single requests of 4, and 16 bytes of an unaligned buffer by requests of 8, of
  which 12 arrive.
\<close>

theorem memory_to_qspi_sends_witness:
  "(case run_state (alt_dma_memory_to_periph (Suc 0) demo_dma demo_periph 2 ALT_DMA_PERIPH_QSPI_FLASH_TX 0x1004 1000
        demo_info True 1) dma_demo_state of
      (r, s') \<Rightarrow> r = Some ALT_E_SUCCESS \<and>
        performs_when (qspi_grants 2 5) (program s') (sends_bytes 0xffa00000 0x1004 1000)) \<and>
   (case run_state (alt_dma_memory_to_periph (Suc 0) demo_dma (demo_periph\<lparr> QSPI_NUMSGLREQBYTES_GET := (\<lambda>v. 3) \<rparr>) 2
        ALT_DMA_PERIPH_QSPI_FLASH_TX 0x1004 16 demo_info True 1) dma_demo_state of
      (r, s') \<Rightarrow> r = Some ALT_E_SUCCESS \<and>
        performs_when (qspi_grants 3 5) (program s') (sends_bytes 0xffa00000 0x1004 12))"
proof
  let ?P = "demo_periph\<lparr> QSPI_NUMSGLREQBYTES_GET := (\<lambda>v. 3) \<rparr>"
  have "QSPI_NUMSGLREQBYTES_GET ?P v = 3" "QSPI_NUMBURSTREQBYTES_GET ?P v = 5"
    "QSPIDATA_ADDR ?P = 0xffa00000" for v by (simp_all add: demo_periph_def)
  moreover have "qspi_sizes_ok 3 5" by (simp add: qspi_sizes_ok_def qspi_logs_def)
  ultimately show "case run_state (alt_dma_memory_to_periph (Suc 0) demo_dma ?P 2 ALT_DMA_PERIPH_QSPI_FLASH_TX 0x1004 16
        demo_info True 1) dma_demo_state of
      (r, s') \<Rightarrow> r = Some ALT_E_SUCCESS \<and>
        performs_when (qspi_grants 3 5) (program s') (sends_bytes 0xffa00000 0x1004 12)"
    using demo_unaligned_success
      memory_to_qspi_sends[OF demo_ok, of 16 3 ?P dma_demo_state 5 2 "0x1004" 0 demo_info True 1]
    by (auto simp: starts_when_def split: prod.splits)
  have "qspi_segment_ok (QSPI_NUMSGLREQBYTES_GET demo_periph v) 0x1004 1000" for v
    by (simp add: qspi_segment_ok_def qspi_size_def demo_periph_def)
  from demo_qspi_success[OF _ _ this] have "fst (run_state (alt_dma_memory_to_periph (Suc 0) demo_dma demo_periph 2
      ALT_DMA_PERIPH_QSPI_FLASH_TX 0x1004 1000 demo_info True 1) dma_demo_state) = Some ALT_E_SUCCESS"
    by (simp add: alt_dma_memory_to_periph_def to_periph_def qspi_bodies)
  moreover have "QSPI_NUMSGLREQBYTES_GET demo_periph v = 2" "QSPI_NUMBURSTREQBYTES_GET demo_periph v = 5"
    "QSPIDATA_ADDR demo_periph = 0xffa00000" for v by (simp_all add: demo_periph_def)
  moreover have "qspi_sizes_ok 2 5" by (simp add: qspi_sizes_ok_def qspi_logs_def)
  ultimately show "case run_state (alt_dma_memory_to_periph (Suc 0) demo_dma demo_periph 2
        ALT_DMA_PERIPH_QSPI_FLASH_TX 0x1004 1000 demo_info True 1) dma_demo_state of
      (r, s') \<Rightarrow> r = Some ALT_E_SUCCESS \<and>
        performs_when (qspi_grants 2 5) (program s') (sends_bytes 0xffa00000 0x1004 1000)"
    using memory_to_qspi_sends[OF demo_ok, of 1000 2 demo_periph dma_demo_state 5 2 "0x1004" 0 demo_info True 1]
    by (auto simp: starts_when_def split: prod.splits)
qed

theorem qspi_to_memory_receives_witness:
  "case run_state (alt_dma_periph_to_memory (Suc 0) demo_dma demo_periph 2 0x2000 ALT_DMA_PERIPH_QSPI_FLASH_RX 0x12344
       demo_info False 0) dma_demo_state of
     (r, s') \<Rightarrow> r = Some ALT_E_SUCCESS \<and>
       performs_when (\<lambda>m. qspi_grants 2 5 m \<and> is_device 0xffa00000 m) (program s') (receives_bytes 0x2000 0xffa00000 0x12344)"
proof -
  have "qspi_segment_ok (QSPI_NUMSGLREQBYTES_GET demo_periph v) 0x2000 0x12344" for v
    by (simp add: qspi_segment_ok_def qspi_size_def demo_periph_def)
  from demo_qspi_success[OF _ _ this] have "fst (run_state (alt_dma_periph_to_memory (Suc 0) demo_dma demo_periph 2
      0x2000 ALT_DMA_PERIPH_QSPI_FLASH_RX 0x12344 demo_info False 0) dma_demo_state) = Some ALT_E_SUCCESS"
    by (simp add: alt_dma_periph_to_memory_def from_periph_def qspi_bodies)
  moreover have "QSPI_NUMSGLREQBYTES_GET demo_periph v = 2" "QSPI_NUMBURSTREQBYTES_GET demo_periph v = 5"
    "QSPIDATA_ADDR demo_periph = 0xffa00000" for v by (simp_all add: demo_periph_def)
  moreover have "qspi_sizes_ok 2 5" by (simp add: qspi_sizes_ok_def qspi_logs_def)
  ultimately show ?thesis
    using qspi_to_memory_receives[OF demo_ok, of "0x12344" 2 demo_periph dma_demo_state 5 2 "0x2000" 0 demo_info False 0]
    by (auto simp: starts_when_def split: prod.splits)
qed

theorem qspi_last_word_dropped_witness:
  "let P = demo_periph\<lparr> QSPI_NUMSGLREQBYTES_GET := (\<lambda>v. 3) \<rparr>
   in case run_state (alt_dma_memory_to_periph (Suc 0) demo_dma P 2 ALT_DMA_PERIPH_QSPI_FLASH_TX 0x1004 16
         demo_info True 1) dma_demo_state of
       (r, s') \<Rightarrow> r = Some ALT_E_SUCCESS \<and>
         performs_when (qspi_grants 3 5) (program s') (sends_bytes 0xffa00000 0x1004 12)"
proof -
  let ?P = "demo_periph\<lparr> QSPI_NUMSGLREQBYTES_GET := (\<lambda>v. 3) \<rparr>"
  note demo_unaligned_success
  moreover have "QSPI_NUMSGLREQBYTES_GET ?P v = 3" "QSPI_NUMBURSTREQBYTES_GET ?P v = 5"
    "QSPIDATA_ADDR ?P = 0xffa00000" for v by (simp_all add: demo_periph_def)
  moreover have "5 \<in> qspi_logs" by (simp add: qspi_logs_def)
  ultimately show ?thesis
    using qspi_last_word_dropped[OF demo_ok, of 16 ?P dma_demo_state 5 "0x1004" 2 0 demo_info True 1]
    by (auto simp: starts_when_def Let_def split: prod.splits)
qed

end
