(* ===== verification/Dma_I2c.thy ===== *)
theory Dma_I2c
  imports Dma_Flash
begin

text \<open>
  The I2C transfers of a slave, and of a master's plain bytes: bursts of the FIFO threshold, at
  most 16 bytes, then single bytes.
\<close>

section \<open>Segments\<close>

definition i2c_burst :: "byte \<Rightarrow> nat" where
  "i2c_burst threshold = (if threshold > 1 then min 16 (unat threshold) else 0)"

lemma i2c_counts_split:
  assumes "unat sz < 2 ^ 31" and "i2c_counts threshold sz = (bs, b, c)"
  shows "unat bs * unat b + unat c = unat sz" and "unat bs = i2c_burst threshold"
    and "b \<noteq> 0 \<Longrightarrow> bs \<in> lengths"
proof -
  have *: "unat bs * unat b + unat c = unat sz \<and> unat bs = i2c_burst threshold \<and> (b \<noteq> 0 \<longrightarrow> bs \<in> lengths)"
  proof (cases "threshold > 1")
    case True
    let ?bs = "if threshold > 16 then 16 else ucast threshold :: u32"
    have "1 < unat threshold" using True by (simp add: word_less_nat_alt)
    then have u: "unat ?bs = min 16 (unat threshold)"
      by (auto simp: word_less_nat_alt unsigned_ucast_eq take_bit_eq_mod)
    then have "0 < unat ?bs" "unat ?bs \<le> 16" using \<open>1 < unat threshold\<close> by simp_all
    then have "?bs \<in> lengths" by (intro lengthsI) (simp_all only: word_less_nat_alt word_le_nat_alt, simp_all)
    moreover have "ldiv sz ?bs = (b, c)" "bs = ?bs"
      using assms(2) True by (auto simp: i2c_counts_def Let_def split: prod.splits)
    ultimately show ?thesis
      using ldiv_small[OF assms(1), of ?bs b c] u \<open>unat ?bs \<le> 16\<close> True by (simp add: i2c_burst_def)
  next
    case False
    then show ?thesis using assms(2) by (auto simp: i2c_counts_def i2c_burst_def)
  qed
  then show "unat bs * unat b + unat c = unat sz" and "unat bs = i2c_burst threshold"
    and "b \<noteq> 0 \<Longrightarrow> bs \<in> lengths" by blast+
qed

text \<open>A phase of rounds, at any position; every position is a beat of one byte.\<close>

lemma at_beat_1 [simp]: "at_beat 1 a I = I" "at_beat (Suc 0) a I = I"
  by (simp_all add: at_beat_def fun_eq_iff)

lemma rounds_run:
  assumes "advances rs I w n k (item_round periph k p q)" and "\<And>i m v. I i m \<Longrightarrow> I i (m\<lparr> ccr := v \<rparr>)"
  shows "closed_calls (if c \<noteq> 0 then DMAMOV CCR w # counted_loops (item_round periph k p q) DMALPEND c else [])"
    and "runs rs (I i) (if c \<noteq> 0 then DMAMOV CCR w # counted_loops (item_round periph k p q) DMALPEND c else [])
      (I (i + n * unat c))"
  using runs_counted(1)[OF flat_closed[OF item_round_flat] assms(1) _ assms(2), where fin = DMALPEND and n = c]
    runs_counted(2)[OF flat_closed[OF item_round_flat] assms(1) _ assms(2), where fin = DMALPEND and n = c and i = i]
  by simp_all

lemma byte_fields:
  assumes "ccr_opts_ok opt" and "n \<in> lengths"
  shows "src_field (ccr_periph_out opt (SAI opt) (SS8 opt) (sb_len n) (SC opt 7) (DS8 opt)) = (True, 1, unat n)"
    and "dst_field (ccr_periph_out opt (SAI opt) (SS8 opt) (sb_len n) (SC opt 7) (DS8 opt)) = (False, 1, 1)"
    and "src_field (ccr_periph_in opt (SS8 opt) (DS8 opt) (db_len n)) = (False, 1, 1)"
    and "dst_field (ccr_periph_in opt (SS8 opt) (DS8 opt) (db_len n)) = (True, 1, unat n)"
proof -
  have z: "(0 :: u32) \<in> sizes" by (simp add: sizes_def)
  note v = opts_values(1,5)[OF assms(1)]
  show "src_field (ccr_periph_out opt (SAI opt) (SS8 opt) (sb_len n) (SC opt 7) (DS8 opt)) = (True, 1, unat n)"
    "dst_field (ccr_periph_out opt (SAI opt) (SS8 opt) (sb_len n) (SC opt 7) (DS8 opt)) = (False, 1, 1)"
    "src_field (ccr_periph_in opt (SS8 opt) (DS8 opt) (db_len n)) = (False, 1, 1)"
    "dst_field (ccr_periph_in opt (SS8 opt) (DS8 opt) (db_len n)) = (True, 1, unat n)"
    unfolding v
    using ccr_periph_out_fields[OF assms z z, of "SC opt 7"] ccr_periph_in_fields[OF assms z z] by simp_all
qed

text \<open>
  What a transfer of \<open>i\<close> bytes makes of the machine \<open>m0\<close> it starts on: every write is a beat of one
  byte, every load takes one byte, and nothing else changes but the control word and the request.
\<close>

definition i2c_sent :: "pl330 \<Rightarrow> nat \<Rightarrow> nat \<Rightarrow> pl330 \<Rightarrow> bool" where
  "i2c_sent m0 s i m \<longleftrightarrow>
     (\<exists>w r c. m = m0\<lparr> sar := s + i, mfifo := [], reg_out := reg_out m0 @ bytes_at (memory m0) s i,
            accesses := accesses m0 @ map (\<lambda>b. Put (dar m0) [b]) (bytes_at (memory m0) s i),
            ccr := w, request := r, credit := c \<rparr>)"

definition i2c_received :: "mem \<Rightarrow> pl330 \<Rightarrow> nat \<Rightarrow> nat \<Rightarrow> pl330 \<Rightarrow> bool" where
  "i2c_received rs m0 d i m \<longleftrightarrow>
     (\<exists>w r c. m = m0\<lparr> dar := d + i, mfifo := [], memory := store_bytes (memory m0) d (bytes_at rs (reg_in m0) i),
            reg_in := reg_in m0 + i, accesses := accesses m0 @ replicate i (Get (sar m0) 1),
            ccr := w, request := r, credit := c \<rparr>)"

lemma i2c_ccr:
  "i2c_sent m0 s i m \<Longrightarrow> i2c_sent m0 s i (m\<lparr> ccr := w \<rparr>)"
  "i2c_received rs m0 d i m \<Longrightarrow> i2c_received rs m0 d i (m\<lparr> ccr := w \<rparr>)"
  unfolding i2c_sent_def i2c_received_def
  by (elim exE, rule_tac x = w in exI, rule_tac x = r in exI, rule_tac x = c in exI, simp)+

lemma i2c_none:
  "mfifo m0 = [] \<Longrightarrow> i2c_sent m0 s 0 (m0\<lparr> sar := s \<rparr>)"
  "mfifo m0 = [] \<Longrightarrow> i2c_received rs m0 d 0 (m0\<lparr> dar := d \<rparr>)"
  unfolding i2c_sent_def i2c_received_def
  by (intro exI[of _ "ccr m0"] exI[of _ "request m0"] exI[of _ "credit m0"], cases m0, simp)+

lemma i2c_start:
  "runs rs (\<lambda>m. m = m0 \<and> mfifo m = []) [DMAMOV SAR pa] (i2c_sent m0 (unat pa) 0)"
  "runs rs (\<lambda>m. m = m0 \<and> mfifo m = []) [DMAMOV DAR pa] (i2c_received rs m0 (unat pa) 0)"
  by (simp_all add: runs_flat i2c_none)

lemma i2c_sent_fields:
  assumes "i2c_sent m0 s i m"
  shows "mfifo m = []" "memory m = memory m0" "sar m = s + i" "room m = room m0" "dar m = dar m0"
    "cells m = cells m0" "per_beat m = per_beat m0" "reg_in m = reg_in m0"
    "reg_out m = reg_out m0 @ bytes_at (memory m0) s i"
    "accesses m = accesses m0 @ map (\<lambda>b. Put (dar m0) [b]) (bytes_at (memory m0) s i)"
  using assms by (auto simp: i2c_sent_def)

lemma i2c_received_fields:
  assumes "i2c_received rs m0 d i m"
  shows "mfifo m = []" "memory m = store_bytes (memory m0) d (bytes_at rs (reg_in m0) i)" "dar m = d + i"
    "room m = room m0" "sar m = sar m0" "cells m = cells m0" "per_beat m = per_beat m0"
    "reg_in m = reg_in m0 + i" "reg_out m = reg_out m0" "accesses m = accesses m0 @ replicate i (Get (sar m0) 1)"
  using assms by (auto simp: i2c_received_def)

lemma i2c_send_round:
  assumes "src_field w = (True, 1, ln)" and "dst_field w = (False, 1, ln')"
    and "n = p * piece k 1 ln" and "n = q * piece k 1 ln'" and "n \<le> room m0 k"
  shows "advances rs (i2c_sent m0 s) w n k (item_round periph k p q)"
  unfolding advances_def closed_flat[OF item_round_flat, THEN conjunct2]
proof (intro allI impI)
  fix i m
  assume I: "i2c_sent m0 s i m" and c: "ccr m = w"
  let ?bs = "bytes_at (memory m0) (s + i) n"
  let ?m1 = "m\<lparr> request := Some k, credit := room m k \<rparr>"
  let ?m2 = "?m1\<lparr> mfifo := ?bs, sar := s + (i + n) \<rparr>"
  note st = i2c_sent_fields[OF I]
  have "run_flat rs (wait_for periph k) m = Some ?m1" by (rule wait_for_run)
  moreover have "run_flat rs (replicate p (DMALDx k)) ?m1 = Some ?m2"
    using loads_memory[OF assms(1), of ?m1 k rs p] c st assms(3) by (simp add: add.assoc)
  moreover obtain cr where "run_flat rs (replicate q (DMASTx k)) ?m2 =
      Some ((reg_store ?bs ?m2)\<lparr> mfifo := [], credit := cr \<rparr>)" (is "_ = Some ?m3")
    using stores_register[OF assms(2), of ?m2 k q rs] c st(4) assms(4,5) by auto
  ultimately have "run_flat rs (item_round periph k p q) m = Some ?m3"
    by (simp only: item_round_def run_flat_append option.case)
  moreover have "dst_size w = 1" using dst_fieldD[OF assms(2)] by simp
  then have "i2c_sent m0 s (i + n) ?m3"
    using I c unfolding i2c_sent_def
    by (elim exE, intro exI[of _ w] exI[of _ "Some k"] exI[of _ cr]) (simp add: reg_store_def bytes_at_add o_def)
  ultimately show "\<exists>m'. run_flat rs (item_round periph k p q) m = Some m' \<and>
      i2c_sent m0 s (i + n) m' \<and> ccr m' = w \<and> request m' = Some k"
    using c by (intro exI[of _ ?m3]) simp
qed

lemma i2c_receive_round:
  assumes "src_field w = (False, 1, 1)" and "dst_field w = (True, 1, ln)"
    and "n = q * piece k 1 ln" and "n \<le> room m0 k" and "sar m0 \<notin> cells m0"
  shows "advances rs (i2c_received rs m0 d) w n k (item_round periph k n q)"
  unfolding advances_def closed_flat[OF item_round_flat, THEN conjunct2]
proof (intro allI impI)
  fix i m
  assume I: "i2c_received rs m0 d i m" and c: "ccr m = w"
  let ?bs = "bytes_at rs (reg_in m0 + i) n"
  let ?m1 = "m\<lparr> request := Some k, credit := room m k \<rparr>"
  note st = i2c_received_fields[OF I]
  have p: "piece k 1 1 = 1" by (simp add: piece_def)
  have "run_flat rs (wait_for periph k) m = Some ?m1" by (rule wait_for_run)
  moreover obtain cr where "run_flat rs (replicate n (DMALDx k)) ?m1 =
      Some (?m1\<lparr> mfifo := ?bs, reg_in := reg_in m0 + (i + n),
        accesses := accesses m @ replicate n (Get (sar m0) 1), credit := cr \<rparr>)" (is "_ = Some ?m2")
    using loads_register[OF assms(1), of ?m1 k n rs, unfolded p] c st assms(4,5) by (auto simp: add.assoc)
  moreover have "run_flat rs (replicate q (DMASTx k)) ?m2 =
      Some (?m2\<lparr> memory := store_bytes (memory m) (d + i) ?bs, dar := d + (i + n), mfifo := [] \<rparr>)" (is "_ = Some ?m3")
    using stores_memory[OF assms(2), of ?m2 k q rs] c st assms(3) by (simp add: add.assoc)
  ultimately have "run_flat rs (item_round periph k n q) m = Some ?m3"
    by (simp only: item_round_def run_flat_append option.case)
  moreover have "store_bytes (memory m) (d + i) ?bs = store_bytes (memory m0) d (bytes_at rs (reg_in m0) (i + n))"
    using store_bytes_append[of "memory m0" d "bytes_at rs (reg_in m0) i" ?bs] st(2) by (simp add: bytes_at_add)
  then have "i2c_received rs m0 d (i + n) ?m3"
    using I c unfolding i2c_received_def
    by (elim exE, intro exI[of _ w] exI[of _ "Some k"] exI[of _ cr]) (simp add: replicate_add)
  ultimately show "\<exists>m'. run_flat rs (item_round periph k n q) m = Some m' \<and>
      i2c_received rs m0 d (i + n) m' \<and> ccr m' = w \<and> request m' = Some k"
    using c by (intro exI[of _ ?m3]) simp
qed


lemma to_i2c_runs:
  assumes "ccr_opts_ok opt" and "unat sz < 2 ^ 31" and "grants (i2c_burst th) m0"
  shows "closed_calls (to_i2c_calls opt periph th pa sz)"
    and "runs rs (\<lambda>m. m = m0 \<and> mfifo m = []) (to_i2c_calls opt periph th pa sz) (i2c_sent m0 (unat pa) (unat sz))"
proof -
  let ?I = "i2c_sent m0 (unat pa)"
  obtain bs b c where bc: "i2c_counts th sz = (bs, b, c)" by (cases "i2c_counts th sz")
  note N = i2c_counts_split[OF assms(2) bc]
  have room: "1 \<le> room m0 INST_MOD_SINGLE" "unat bs \<le> room m0 INST_MOD_BURST"
    using assms(3) N(2) by (auto simp: grants_def)
  have one: "(1 :: u32) \<in> lengths" by (simp add: lengths_def)
  let ?w = "ccr_periph_out opt (SAI opt) (SS8 opt) (SB1 opt) (SC opt 7) (DS8 opt)"
  let ?v = "ccr_periph_out opt (SAI opt) (SS8 opt) (sb_len bs) (SC opt 7) (DS8 opt)"
  have sb: "SB1 opt = sb_len 1" using assms(1) by (simp add: ccr_opts_ok_def sb_len_def)
  have "advances rs ?I ?w 1 INST_MOD_SINGLE (item_round periph INST_MOD_SINGLE 1 1)" for rs
    using i2c_send_round[where k = INST_MOD_SINGLE and p = 1 and q = 1 and n = 1,
        OF byte_fields(1,2)[OF assms(1) one]] room(1)
    unfolding sb by (simp add: piece_def)
  note S = rounds_run[OF this, where c = c, folded move_single_round, OF i2c_ccr(1)]
  define bu where "bu = (if b \<noteq> 0 then DMAMOV CCR ?v # counted_loops (wait_for periph INST_MOD_BURST @
      [DMALDx INST_MOD_BURST] @ replicate (unat bs) (DMASTx INST_MOD_BURST)) DMALPEND b else [])"
  have B: "closed_calls bu" "runs rs (?I i) bu (?I (i + unat bs * unat b))" for rs i
  proof -
    have "closed_calls bu \<and> runs rs (?I i) bu (?I (i + unat bs * unat b))"
    proof (cases "b = 0")
      case False
      have "advances rs ?I ?v (unat bs) INST_MOD_BURST (item_round periph INST_MOD_BURST 1 (unat bs))" for rs
        using i2c_send_round[where k = INST_MOD_BURST and p = 1 and q = "unat bs" and n = "unat bs",
            OF byte_fields(1,2)[OF assms(1) N(3)[OF False]]] room(2)
        by (simp add: piece_def)
      from rounds_run[OF this i2c_ccr(1), where c = b] False show ?thesis
        by (simp add: bu_def item_round_def)
    qed (simp add: bu_def)
    then show "closed_calls bu" "runs rs (?I i) bu (?I (i + unat bs * unat b))" by blast+
  qed
  have e: "to_i2c_calls opt periph th pa sz = [DMAMOV SAR pa] @ bu @
      (if c \<noteq> 0 then DMAMOV CCR ?w # counted_loops (move_single periph) DMALPEND c else [])"
    by (simp add: to_i2c_calls_def bc bu_def)
  have mov: "closed_calls [DMAMOV SAR pa]" by (simp add: flat_closed)
  show "closed_calls (to_i2c_calls opt periph th pa sz)"
    unfolding e by (intro closed_append mov B(1) S(1))
  have "runs rs (?I (0 + unat bs * unat b)) (if c \<noteq> 0 then DMAMOV CCR ?w # counted_loops (move_single periph) DMALPEND c else [])
      (?I (unat sz))"
    using S(2)[of rs "0 + unat bs * unat b"] N(1) by simp
  then show "runs rs (\<lambda>m. m = m0 \<and> mfifo m = []) (to_i2c_calls opt periph th pa sz) (?I (unat sz))"
    unfolding e by (intro runs_append[OF mov i2c_start(1)] runs_append[OF B])
qed

lemma from_i2c_runs:
  assumes "ccr_opts_ok opt" and "unat sz < 2 ^ 31" and "grants (i2c_burst th) m0" and "sar m0 \<notin> cells m0"
  shows "closed_calls (from_i2c_calls opt periph th pa sz)"
    and "runs rs (\<lambda>m. m = m0 \<and> mfifo m = []) (from_i2c_calls opt periph th pa sz)
      (i2c_received rs m0 (unat pa) (unat sz))"
proof -
  let ?I = "i2c_received rs m0 (unat pa)"
  obtain bs b c where bc: "i2c_counts th sz = (bs, b, c)" by (cases "i2c_counts th sz")
  note N = i2c_counts_split[OF assms(2) bc]
  have room: "1 \<le> room m0 INST_MOD_SINGLE" "unat bs \<le> room m0 INST_MOD_BURST"
    using assms(3) N(2) by (auto simp: grants_def)
  have one: "(1 :: u32) \<in> lengths" by (simp add: lengths_def)
  let ?w = "ccr_periph_in opt (SS8 opt) (DS8 opt) (DB1 opt)"
  let ?v = "ccr_periph_in opt (SS8 opt) (DS8 opt) (db_len bs)"
  have sb: "DB1 opt = db_len 1" using assms(1) by (simp add: ccr_opts_ok_def db_len_def)
  have "advances rs ?I ?w 1 INST_MOD_SINGLE (item_round periph INST_MOD_SINGLE 1 1)"
    using i2c_receive_round[where k = INST_MOD_SINGLE and q = 1 and n = 1,
        OF byte_fields(3,4)[OF assms(1) one] _ _ assms(4)] room(1)
    unfolding sb by (simp add: piece_def)
  note S = rounds_run[OF this, where c = c, folded move_single_round, OF i2c_ccr(2)]
  define bu where "bu = (if b \<noteq> 0 then DMAMOV CCR ?v # counted_loops (wait_for periph INST_MOD_BURST @
      replicate (unat bs) (DMALDx INST_MOD_BURST) @ [DMASTx INST_MOD_BURST]) DMALPEND b else [])"
  have B: "closed_calls bu" "runs rs (?I i) bu (?I (i + unat bs * unat b))" for i
  proof -
    have "closed_calls bu \<and> runs rs (?I i) bu (?I (i + unat bs * unat b))"
    proof (cases "b = 0")
      case False
      have "advances rs ?I ?v (unat bs) INST_MOD_BURST (item_round periph INST_MOD_BURST (unat bs) 1)"
        using i2c_receive_round[where k = INST_MOD_BURST and q = 1 and n = "unat bs",
            OF byte_fields(3,4)[OF assms(1) N(3)[OF False]] _ _ assms(4)] room(2)
        by (simp add: piece_def)
      from rounds_run[OF this i2c_ccr(2), where c = b] False show ?thesis
        by (simp add: bu_def item_round_def)
    qed (simp add: bu_def)
    then show "closed_calls bu" "runs rs (?I i) bu (?I (i + unat bs * unat b))" by blast+
  qed
  have e: "from_i2c_calls opt periph th pa sz = [DMAMOV DAR pa] @ bu @
      (if c \<noteq> 0 then DMAMOV CCR ?w # counted_loops (move_single periph) DMALPEND c else [])"
    by (simp add: from_i2c_calls_def bc bu_def)
  have mov: "closed_calls [DMAMOV DAR pa]" by (simp add: flat_closed)
  show "closed_calls (from_i2c_calls opt periph th pa sz)"
    unfolding e by (intro closed_append mov B(1) S(1))
  have "runs rs (?I (0 + unat bs * unat b)) (if c \<noteq> 0 then DMAMOV CCR ?w # counted_loops (move_single periph) DMALPEND c else [])
      (?I (unat sz))"
    using S(2)[of "0 + unat bs * unat b"] N(1) by simp
  then show "runs rs (\<lambda>m. m = m0 \<and> mfifo m = []) (from_i2c_calls opt periph th pa sz) (?I (unat sz))"
    unfolding e by (intro runs_append[OF mov i2c_start(2)] runs_append[OF B])
qed

lemma from_i2c_closed:
  assumes "ccr_opts_ok opt" and "unat sz < 2 ^ 31"
  shows "closed_calls (from_i2c_calls opt periph th pa sz)"
proof -
  let ?m = "\<lparr> sar = 0, dar = 0, ccr = 0, mfifo = [], memory = (\<lambda>_. 0), reg_in = 0, reg_out = [], accesses = [],
    cells = {}, per_beat = False, room = (\<lambda>k. i2c_burst th + 1), request = None, credit = 0 \<rparr>"
  have "grants (i2c_burst th) ?m" "sar ?m \<notin> cells ?m" by (simp_all add: grants_def)
  from from_i2c_runs(1)[OF assms this] show ?thesis .
qed

text \<open>In terms of the register transfers of the other peripherals.\<close>

lemma i2c_sent_sending: "i2c_sent m0 s i m \<Longrightarrow> sending (room m0) (dar m0) (memory m0) s (reg_out m0) i m"
  by (simp add: sending_def sent_def i2c_sent_fields)

lemma i2c_received_receiving:
  "i2c_received rs m0 d i m \<Longrightarrow> sar m0 \<notin> cells m0 \<Longrightarrow>
    receiving (room m0) (sar m0) rs (memory m0) d (reg_in m0) i m"
  by (simp add: receiving_def received_def i2c_received_fields)

lemma to_i2c_sends:
  assumes "ccr_opts_ok opt" and "unat sz < 2 ^ 31" and "grants (i2c_burst th) m0"
  shows "runs rs (starts_at m0 (room m0)) (to_i2c_calls opt periph th pa sz)
    (sending (room m0) (dar m0) (memory m0) (unat pa) (reg_out m0) (unat sz))"
  using to_i2c_runs(2)[OF assms, of rs periph pa] i2c_sent_sending unfolding runs_def starts_at_def by blast

lemma from_i2c_receives:
  assumes "ccr_opts_ok opt" and "unat sz < 2 ^ 31" and "grants (i2c_burst th) m0"
  shows "runs rs (starts_dev m0 (room m0)) (from_i2c_calls opt periph th pa sz)
    (receiving (room m0) (sar m0) rs (memory m0) (unat pa) (reg_in m0) (unat sz))"
  using from_i2c_runs(2)[OF assms, of rs periph pa] i2c_received_receiving
  unfolding runs_def starts_dev_def starts_at_def by blast

section \<open>Transfers\<close>

text \<open>The threshold the driver reads, after its look at the mode.\<close>

definition i2c_look :: "('p, 'c) dma_env \<Rightarrow> periph_env \<Rightarrow> addr \<Rightarrow> history \<Rightarrow> history" where
  "i2c_look E P loc h = h @ [Rd (I2C_CON_ADDR P loc) (regs E h (I2C_CON_ADDR P loc))]"

definition i2c_is_slave :: "('p, 'c) dma_env \<Rightarrow> periph_env \<Rightarrow> addr \<Rightarrow> history \<Rightarrow> bool" where
  "i2c_is_slave E P loc h \<longleftrightarrow>
     I2C_CON_MST_MOD_GET P (regs E h (I2C_CON_ADDR P loc)) \<noteq> I2C_MODE_MASTER P"

definition i2c_tx_threshold :: "('p, 'c) dma_env \<Rightarrow> periph_env \<Rightarrow> addr \<Rightarrow> history \<Rightarrow> byte" where
  "i2c_tx_threshold E P loc h = ucast (I2C_TX_TL_GET P (regs E h (I2C_TX_TL_ADDR P loc)) + 1)"

definition i2c_rx_threshold :: "('p, 'c) dma_env \<Rightarrow> periph_env \<Rightarrow> addr \<Rightarrow> history \<Rightarrow> byte" where
  "i2c_rx_threshold E P loc h = ucast (I2C_RX_TL_GET P (regs E h (I2C_RX_TL_ADDR P loc)) + 1)"

lemma emits_at_look:
  assumes "emits_at calls (s\<lparr> bus := bus s @ [Rd a (regs E (bus s) a)] \<rparr>) (f (regs E (bus s) a)) cs"
  shows "emits_at calls s (do { v \<leftarrow> on_bus (alt_read_word (regs E) a); f v }) cs"
  using assms by (simp add: emits_at_def on_bus_def bus_simps)

lemma memory_to_i2c_common_emits:
  assumes "weak_mmu E" and "assembler E calls" and "sz \<noteq> 0"
  shows "emits_at calls s (alt_dma_memory_to_i2c_common (Suc fuel) E P periph loc src sz)
    (DMAMOV DAR (I2C_DATA_CMD_ADDR P loc) #
     to_i2c_calls (opts E) periph (i2c_tx_threshold E P loc (bus s)) src sz)"
  unfolding alt_dma_memory_to_i2c_common_def Let_def i2c_tx_threshold_def
  by (rule emits_at_look, rule emits_at_move[OF assms(2) over_segments_emits[OF assms]])
    (simp add: over_segments_failed)

lemma i2c_to_memory_common_emits:
  assumes "weak_mmu E" and "assembler E calls" and "sz \<noteq> 0"
  shows "emits_at calls s (alt_dma_i2c_to_memory_common (Suc fuel) E P periph loc dst sz)
    (DMAMOV SAR (I2C_DATA_CMD_ADDR P loc) #
     from_i2c_calls (opts E) periph (i2c_rx_threshold E P loc (bus s)) dst sz)"
  unfolding alt_dma_i2c_to_memory_common_def Let_def i2c_rx_threshold_def
  by (rule emits_at_look, rule emits_at_move[OF assms(2) over_segments_emits[OF assms]])
    (simp add: over_segments_failed)

lemma i2c_slave_emits:
  assumes "i2c_is_slave E P (i2c_location info) (bus s)"
    and "\<And>s1. bus s1 = i2c_look E P (i2c_location info) (bus s) \<Longrightarrow>
      emits_at calls s1 (alt_dma_memory_to_i2c_common fuel E P periph (i2c_location info) buf sz) cs"
  shows "emits_at calls s (alt_dma_memory_to_i2c fuel E P periph info buf sz) cs"
proof -
  let ?s = "s\<lparr> bus := i2c_look E P (i2c_location info) (bus s) \<rparr>"
  have "run_state (alt_dma_memory_to_i2c fuel E P periph info buf sz) s =
      run_state (alt_dma_memory_to_i2c_common fuel E P periph (i2c_location info) buf sz) ?s"
    using assms(1) by (simp add: alt_dma_memory_to_i2c_def alt_i2c_op_mode_get_def guarded_opt_def
        on_bus_def bus_simps i2c_is_slave_def i2c_look_def)
  moreover have "emits_at calls ?s (alt_dma_memory_to_i2c_common fuel E P periph (i2c_location info) buf sz) cs"
    by (rule assms(2)) simp
  ultimately show ?thesis by (simp add: emits_at_def i2c_look_def)
qed

lemma i2c_slave_emits_in:
  assumes "i2c_is_slave E P (i2c_location info) (bus s)"
    and "\<And>s1. bus s1 = i2c_look E P (i2c_location info) (bus s) \<Longrightarrow>
      emits_at calls s1 (alt_dma_i2c_to_memory_common fuel E P periph (i2c_location info) buf sz) cs"
  shows "emits_at calls s (alt_dma_i2c_to_memory fuel E P periph info buf sz) cs"
proof -
  let ?s = "s\<lparr> bus := i2c_look E P (i2c_location info) (bus s) \<rparr>"
  have "run_state (alt_dma_i2c_to_memory fuel E P periph info buf sz) s =
      run_state (alt_dma_i2c_to_memory_common fuel E P periph (i2c_location info) buf sz) ?s"
    using assms(1) by (simp add: alt_dma_i2c_to_memory_def alt_i2c_op_mode_get_def guarded_opt_def
        on_bus_def bus_simps i2c_is_slave_def i2c_look_def)
  moreover have "emits_at calls ?s (alt_dma_i2c_to_memory_common fuel E P periph (i2c_location info) buf sz) cs"
    by (rule assms(2)) simp
  ultimately show ?thesis by (simp add: emits_at_def i2c_look_def)
qed

text \<open>
  C23: \<open>alt_dma_memory_to_periph\<close> of 1 to \<open>2 ^ 31 - 1\<close> bytes (the code's division is signed) to
  an I2C controller in slave mode, with the default address translation, always returns.  On success it has started a program that writes the \<open>size\<close>
  bytes at \<open>src\<close> in order to the data register, no more per request than the transmit
  threshold, and changes no memory; on any failure no register is written.
\<close>

theorem memory_to_i2c_slave_sends:
  fixes P :: periph_env and info :: periph_info
  defines "loc \<equiv> i2c_location (as_i2c info)"
  assumes "weak_mmu E" and "assembler E calls" and "ccr_opts_ok (opts E)"
    and "n < 4" and "sz \<noteq> 0" and "unat sz < 2 ^ 31" and "i2c_is_slave E P loc (bus s)"
  shows "starts_when E calls channel
    (grants (i2c_burst (i2c_tx_threshold E P loc (i2c_look E P loc (bus s)))))
    (sends_bytes (I2C_DATA_CMD_ADDR P loc) src (unat sz)) s
    (run_state (alt_dma_memory_to_periph (Suc fuel) E P channel (ALT_DMA_PERIPH_I2C_TX n) src sz info
       send_evt evt) s)"
  unfolding alt_dma_memory_to_periph_def
proof (rule periph_transfer_starts[OF assms(3,6)])
  let ?th = "i2c_tx_threshold E P loc (i2c_look E P loc (bus s))"
  let ?cs = "to_i2c_calls (opts E) (ALT_DMA_PERIPH_I2C_TX n) ?th src sz"
  show "performs_when (grants (i2c_burst ?th))
      ((DMAMOV DAR (I2C_DATA_CMD_ADDR P loc) # ?cs) @ closing False send_evt evt)
      (sends_bytes (I2C_DATA_CMD_ADDR P loc) src (unat sz))"
    by (intro sends_performs conjI to_i2c_runs(1) to_i2c_sends assms(4,7)) (simp_all add: grants_def)
  fix s1 :: "'a dma_state"
  assume s1: "bus s1 = bus s"
  have "emits_at calls s1 (alt_dma_memory_to_i2c (Suc fuel) E P (ALT_DMA_PERIPH_I2C_TX n) (as_i2c info) src sz)
      (DMAMOV DAR (I2C_DATA_CMD_ADDR P loc) # ?cs)"
  proof (rule i2c_slave_emits)
    show "i2c_is_slave E P (i2c_location (as_i2c info)) (bus s1)" using assms(8) unfolding s1 loc_def .
    fix s2 :: "'a dma_state"
    assume "bus s2 = i2c_look E P (i2c_location (as_i2c info)) (bus s1)"
    then show "emits_at calls s2 (alt_dma_memory_to_i2c_common (Suc fuel) E P (ALT_DMA_PERIPH_I2C_TX n)
        (i2c_location (as_i2c info)) src sz) (DMAMOV DAR (I2C_DATA_CMD_ADDR P loc) # ?cs)"
      using memory_to_i2c_common_emits[OF assms(2,3,6), of s2 fuel P "ALT_DMA_PERIPH_I2C_TX n" loc src]
      unfolding loc_def s1 by simp
  qed
  then show "emits_at calls s1 (to_periph (Suc fuel) E P (ALT_DMA_PERIPH_I2C_TX n) info src sz)
      (DMAMOV DAR (I2C_DATA_CMD_ADDR P loc) # ?cs)"
    using assms(5) by (simp add: to_periph_def)
qed

text \<open>
  C24: \<open>alt_dma_periph_to_memory\<close> of 1 to \<open>2 ^ 31 - 1\<close> bytes from an I2C controller in slave
  mode, with the default address translation, always returns.  On success it has started a program that, where the address of
  the data register is a device's, stores the next \<open>size\<close> bytes of it in order at \<open>dst\<close>, taking no more per request than the
  receive threshold, and changes no other memory; on any failure no register is written.
\<close>

theorem i2c_slave_to_memory_receives:
  fixes P :: periph_env and info :: periph_info
  defines "loc \<equiv> i2c_location (as_i2c info)"
  assumes "weak_mmu E" and "assembler E calls" and "ccr_opts_ok (opts E)"
    and "n < 4" and "sz \<noteq> 0" and "unat sz < 2 ^ 31" and "i2c_is_slave E P loc (bus s)"
  shows "starts_when E calls channel
    (\<lambda>m. grants (i2c_burst (i2c_rx_threshold E P loc (i2c_look E P loc (bus s)))) m \<and>
      is_device (I2C_DATA_CMD_ADDR P loc) m)
    (receives_bytes dst (I2C_DATA_CMD_ADDR P loc) (unat sz)) s
    (run_state (alt_dma_periph_to_memory (Suc fuel) E P channel dst (ALT_DMA_PERIPH_I2C_RX n) sz info
       send_evt evt) s)"
  unfolding alt_dma_periph_to_memory_def
proof (rule periph_transfer_starts[OF assms(3,6)])
  let ?th = "i2c_rx_threshold E P loc (i2c_look E P loc (bus s))"
  let ?cs = "from_i2c_calls (opts E) (ALT_DMA_PERIPH_I2C_RX n) ?th dst sz"
  show "performs_when (\<lambda>m. grants (i2c_burst ?th) m \<and> is_device (I2C_DATA_CMD_ADDR P loc) m)
      ((DMAMOV SAR (I2C_DATA_CMD_ADDR P loc) # ?cs) @ closing False send_evt evt)
      (receives_bytes dst (I2C_DATA_CMD_ADDR P loc) (unat sz))"
    by (intro receives_performs conjI from_i2c_closed from_i2c_receives assms(4,7)) (simp_all add: grants_def)
  fix s1 :: "'a dma_state"
  assume s1: "bus s1 = bus s"
  have "emits_at calls s1 (alt_dma_i2c_to_memory (Suc fuel) E P (ALT_DMA_PERIPH_I2C_RX n) (as_i2c info) dst sz)
      (DMAMOV SAR (I2C_DATA_CMD_ADDR P loc) # ?cs)"
  proof (rule i2c_slave_emits_in)
    show "i2c_is_slave E P (i2c_location (as_i2c info)) (bus s1)" using assms(8) unfolding s1 loc_def .
    fix s2 :: "'a dma_state"
    assume "bus s2 = i2c_look E P (i2c_location (as_i2c info)) (bus s1)"
    then show "emits_at calls s2 (alt_dma_i2c_to_memory_common (Suc fuel) E P (ALT_DMA_PERIPH_I2C_RX n)
        (i2c_location (as_i2c info)) dst sz) (DMAMOV SAR (I2C_DATA_CMD_ADDR P loc) # ?cs)"
      using i2c_to_memory_common_emits[OF assms(2,3,6), of s2 fuel P "ALT_DMA_PERIPH_I2C_RX n" loc dst]
      unfolding loc_def s1 by simp
  qed
  then show "emits_at calls s1 (from_periph (Suc fuel) E P (ALT_DMA_PERIPH_I2C_RX n) info dst sz)
      (DMAMOV SAR (I2C_DATA_CMD_ADDR P loc) # ?cs)"
    using assms(5) by (simp add: from_periph_def)
qed

text \<open>The demonstration controller reads as a slave with both thresholds at 8 bytes.\<close>

definition demo_slave :: periph_env where
  "demo_slave = demo_periph\<lparr> I2C_TX_TL_GET := (\<lambda>v. 7), I2C_RX_TL_GET := (\<lambda>v. 7) \<rparr>"

lemma demo_slave_simps:
  "i2c_is_slave demo_dma demo_slave loc h"
  "i2c_burst (i2c_tx_threshold demo_dma demo_slave loc h) = 8"
  "i2c_burst (i2c_rx_threshold demo_dma demo_slave loc h) = 8"
  "I2C_DATA_CMD_ADDR demo_slave (i2c_location (as_i2c demo_info)) = 0xffc04010"
  by (simp_all add: i2c_is_slave_def demo_slave_def demo_periph_def demo_dma_def i2c_burst_def
      i2c_tx_threshold_def i2c_rx_threshold_def demo_info_def)

lemma demo_i2c_run:
  assumes "\<not> buf + sz - 1 < buf" and "sz \<noteq> 0" and "channel_info s ! 2 = 1"
  shows "\<exists>s2. run_state (alt_dma_memory_to_i2c (Suc 0) demo_dma demo_slave periph info buf sz) s =
      (Some ALT_E_SUCCESS, s2) \<and> channel_info s2 ! 2 = 1"
    and "\<exists>s2. run_state (alt_dma_i2c_to_memory (Suc 0) demo_dma demo_slave periph info buf sz) s =
      (Some ALT_E_SUCCESS, s2) \<and> channel_info s2 ! 2 = 1"
  using assms demo_slave_simps(1)[of "i2c_location info" "bus s"]
  by (simp_all add: alt_dma_memory_to_i2c_def alt_dma_i2c_to_memory_def alt_i2c_op_mode_get_def guarded_opt_def
      alt_dma_memory_to_i2c_common_def alt_dma_i2c_to_memory_common_def demo_emit on_bus_def bus_simps Let_def
      demo_over_segments i2c_is_slave_def del: emit_all.simps)

theorem memory_to_i2c_slave_sends_witness:
  "case run_state (alt_dma_memory_to_periph (Suc 0) demo_dma demo_slave 2 (ALT_DMA_PERIPH_I2C_TX 1) 0x1001 77
       demo_info True 1) dma_demo_state of
     (r, s') \<Rightarrow> r = Some ALT_E_SUCCESS \<and>
       performs_when (grants 8) (program s') (sends_bytes 0xffc04010 0x1001 77)"
proof -
  have "channel_info (dma_demo_state\<lparr> program := [] \<rparr>) ! 2 = 1" by (simp add: dma_demo_state_def)
  from demo_i2c_run(1)[OF _ _ this, of "0x1001" 77 "ALT_DMA_PERIPH_I2C_TX 1" "as_i2c demo_info"] obtain s2
    where "run_state (alt_dma_memory_to_i2c (Suc 0) demo_dma demo_slave (ALT_DMA_PERIPH_I2C_TX 1) (as_i2c demo_info)
      0x1001 77) (dma_demo_state\<lparr> program := [] \<rparr>) = (Some ALT_E_SUCCESS, s2)" "channel_info s2 ! 2 = 1" by auto
  from demo_periph_success[OF this] have "fst (run_state (alt_dma_memory_to_periph (Suc 0) demo_dma demo_slave 2
      (ALT_DMA_PERIPH_I2C_TX 1) 0x1001 77 demo_info True 1) dma_demo_state) = Some ALT_E_SUCCESS"
    by (simp add: alt_dma_memory_to_periph_def to_periph_def)
  then show ?thesis
    using memory_to_i2c_slave_sends[OF demo_ok, of 1 77 demo_slave demo_info dma_demo_state 2 "0x1001" 0 True 1]
    by (auto simp: starts_when_def demo_slave_simps split: prod.splits)
qed

theorem i2c_slave_to_memory_receives_witness:
  "case run_state (alt_dma_periph_to_memory (Suc 0) demo_dma demo_slave 2 0x2003 (ALT_DMA_PERIPH_I2C_RX 3) 530
       demo_info False 0) dma_demo_state of
     (r, s') \<Rightarrow> r = Some ALT_E_SUCCESS \<and>
       performs_when (\<lambda>m. grants 8 m \<and> is_device 0xffc04010 m) (program s') (receives_bytes 0x2003 0xffc04010 530)"
proof -
  have "channel_info (dma_demo_state\<lparr> program := [] \<rparr>) ! 2 = 1" by (simp add: dma_demo_state_def)
  from demo_i2c_run(2)[OF _ _ this, of "0x2003" 530 "ALT_DMA_PERIPH_I2C_RX 3" "as_i2c demo_info"] obtain s2
    where "run_state (alt_dma_i2c_to_memory (Suc 0) demo_dma demo_slave (ALT_DMA_PERIPH_I2C_RX 3) (as_i2c demo_info)
      0x2003 530) (dma_demo_state\<lparr> program := [] \<rparr>) = (Some ALT_E_SUCCESS, s2)" "channel_info s2 ! 2 = 1" by auto
  from demo_periph_success[OF this] have "fst (run_state (alt_dma_periph_to_memory (Suc 0) demo_dma demo_slave 2
      0x2003 (ALT_DMA_PERIPH_I2C_RX 3) 530 demo_info False 0) dma_demo_state) = Some ALT_E_SUCCESS"
    by (simp add: alt_dma_periph_to_memory_def from_periph_def)
  then show ?thesis
    using i2c_slave_to_memory_receives[OF demo_ok, of 3 530 demo_slave demo_info dma_demo_state 2 "0x2003" 0 False 0]
    by (auto simp: starts_when_def demo_slave_simps split: prod.splits)
qed

end
