(* ===== verification/Dma_I2c_Master.thy ===== *)
theory Dma_I2c_Master
  imports Dma_I2c
begin

text \<open>
  The I2C transfers of a master: the commands it writes into the data register, each a byte to
  write or the order to read one, with the wish for a restart before or a stop after it; the
  programs that issue them from the words the driver keeps in its scratch space; and the transfer
  from memory.
\<close>

section \<open>Commands\<close>

datatype i2c_op = I2c_Write byte bool bool | I2c_Read bool bool

text \<open>
  What the controller takes a write of its data register for; the flags are a restart and a stop.
  A write of one byte leaves the command bits, which are in the second byte, at zero.
\<close>

definition command_of :: "byte list \<Rightarrow> i2c_op" where
  "command_of bs =
     (let hi = (if length bs > 1 then bs ! 1 else 0)
      in if bit hi 0 then I2c_Read (bit hi 2) (bit hi 1) else I2c_Write (hd bs) (bit hi 2) (bit hi 1))"

text \<open>The documented positions of the fields of the data register.\<close>

definition i2c_cmd_ok :: "periph_env \<Rightarrow> bool" where
  "i2c_cmd_ok P \<longleftrightarrow>
     (\<forall>v. I2C_DATA_CMD_DAT_SET P v = v AND 0xff) \<and>
     (\<forall>v. I2C_DATA_CMD_CMD_SET P v = push_bit 8 v AND 0x100) \<and>
     (\<forall>v. I2C_DATA_CMD_STOP_SET P v = push_bit 9 v AND 0x200) \<and>
     (\<forall>v. I2C_DATA_CMD_RESTART_SET P v = push_bit 10 v AND 0x400) \<and>
     I2C_DATA_CMD_CMD_E_RD P = 1"

lemma command_of_data:
  assumes "i2c_cmd_ok P"
  shows "command_of (bytes32 (i2c_data P b r t)) = I2c_Write b r t"
proof -
  have "ucast (i2c_data P b r t) = b"
    using assms masks_bit(1) by (intro bit_word_eqI) (auto simp: i2c_cmd_ok_def i2c_data_def bool_word_def bit_simps)
  moreover have "bit (i2c_data P b r t) 8 = False" "bit (i2c_data P b r t) 9 = t" "bit (i2c_data P b r t) 10 = r"
    using assms by (auto simp: i2c_cmd_ok_def i2c_data_def bool_word_def bit_simps)
  ultimately show ?thesis by (simp add: command_of_def bytes32_def bit_simps)
qed

lemma command_of_read:
  assumes "i2c_cmd_ok P"
  shows "command_of (bytes32 (i2c_read P r t)) = I2c_Read r t"
proof -
  have "bit (i2c_read P r t) 8" "bit (i2c_read P r t) 9 = t" "bit (i2c_read P r t) 10 = r"
    using assms by (auto simp: i2c_cmd_ok_def i2c_read_def bool_word_def bit_simps)
  then show ?thesis by (simp add: command_of_def bytes32_def bit_simps)
qed

lemma command_of_byte [simp]: "command_of [b] = I2c_Write b False False"
  by (simp add: command_of_def)

text \<open>The commands among the accesses, the bytes taken, and whether all of them are at one register.\<close>

fun commands :: "reg_access list \<Rightarrow> i2c_op list" where
  "commands [] = []"
| "commands (Put a bs # t) = command_of bs # commands t"
| "commands (Get a n # t) = commands t"

fun all_at :: "nat \<Rightarrow> reg_access list \<Rightarrow> bool" where
  "all_at a [] \<longleftrightarrow> True"
| "all_at a (Put b bs # t) \<longleftrightarrow> b = a \<and> all_at a t"
| "all_at a (Get b n # t) \<longleftrightarrow> b = a \<and> all_at a t"

text \<open>
  \<open>paced n k t\<close>: with \<open>k\<close> commands outstanding before, no access takes a byte that no command
  asked for, and no command is issued while \<open>n\<close> are outstanding.
\<close>

fun paced :: "nat \<Rightarrow> nat \<Rightarrow> reg_access list \<Rightarrow> bool" where
  "paced n k [] \<longleftrightarrow> True"
| "paced n k (Put a bs # t) \<longleftrightarrow> k < n \<and> paced n (k + 1) t"
| "paced n k (Get a c # t) \<longleftrightarrow> c \<le> k \<and> paced n (k - c) t"

fun outstanding :: "nat \<Rightarrow> reg_access list \<Rightarrow> nat" where
  "outstanding k [] = k"
| "outstanding k (Put a bs # t) = outstanding (k + 1) t"
| "outstanding k (Get a c # t) = outstanding (k - c) t"

lemma commands_append [simp]: "commands (a @ b) = commands a @ commands b"
  by (induction a rule: commands.induct) auto

lemma commands_puts [simp]: "commands (replicate n (Put a bs)) = replicate n (command_of bs)"
  by (induction n) auto

lemma commands_gets [simp]: "commands (replicate n (Get a c)) = []"
  by (induction n) auto

lemma commands_bytes [simp]: "commands (map (\<lambda>b. Put a [b]) bs) = map (\<lambda>b. I2c_Write b False False) bs"
  by (induction bs) auto

lemma all_at_append [simp]: "all_at r (a @ b) \<longleftrightarrow> all_at r a \<and> all_at r b"
  by (induction r a rule: all_at.induct) auto

lemma all_at_replicate [simp]: "all_at r (replicate n (Put r bs))" "all_at r (replicate n (Get r c))"
  by (induction n) auto

lemma all_at_bytes [simp]: "all_at r (map (\<lambda>b. Put r [b]) bs)"
  by (induction bs) auto

lemma paced_append [simp]: "paced n k (a @ b) \<longleftrightarrow> paced n k a \<and> paced n (outstanding k a) b"
  by (induction n k a rule: paced.induct) auto

lemma outstanding_append [simp]: "outstanding k (a @ b) = outstanding (outstanding k a) b"
  by (induction k a rule: outstanding.induct) auto

lemma outstanding_replicate [simp]:
  "outstanding k (replicate c (Put a bs)) = k + c" "outstanding k (replicate c (Get a 1)) = k - c"
  "outstanding k (replicate c (Get a (Suc 0))) = k - c"
  by (induction c arbitrary: k) auto

lemma paced_replicate [simp]:
  "paced n k (replicate c (Put a bs)) \<longleftrightarrow> c = 0 \<or> k + c \<le> n"
  "paced n k (replicate c (Get a 1)) \<longleftrightarrow> c = 0 \<or> c \<le> k"
  "paced n k (replicate c (Get a (Suc 0))) \<longleftrightarrow> c = 0 \<or> c \<le> k"
  by (induction c arbitrary: k) auto

text \<open>What a transfer of \<open>n\<close> bytes should order.\<close>

definition write_ops :: "bool \<Rightarrow> bool \<Rightarrow> byte list \<Rightarrow> i2c_op list" where
  "write_ops r t bs =
     map (\<lambda>i. I2c_Write (bs ! i) (r \<and> i = 0) (t \<and> i + 1 = length bs)) [0..<length bs]"

definition read_ops :: "bool \<Rightarrow> bool \<Rightarrow> nat \<Rightarrow> i2c_op list" where
  "read_ops r t n = map (\<lambda>i. I2c_Read (r \<and> i = 0) (t \<and> i + 1 = n)) [0..<n]"

section \<open>Command programs\<close>

text \<open>Commands loaded again and again from one word of memory.\<close>

definition cmd_sent :: "pl330 \<Rightarrow> nat \<Rightarrow> pl330 \<Rightarrow> bool" where
  "cmd_sent m0 i m \<longleftrightarrow>
     (\<exists>w r c. m = m0\<lparr> mfifo := [],
        reg_out := reg_out m0 @ concat (replicate i (bytes_at (memory m0) (sar m0) 4)),
        accesses := accesses m0 @ replicate i (Put (dar m0) (bytes_at (memory m0) (sar m0) 4)),
        ccr := w, request := r, credit := c \<rparr>)"

lemma cell_bytes_word: "src_size (ccr m) = 4 \<Longrightarrow> cell_bytes 4 m = bytes_at (memory m) (sar m) 4"
  by (rule nth_equalityI) (simp_all add: cell_bytes_def)

lemma beats_word: "length bs = 4 \<Longrightarrow> beats 4 bs = [bs]"
  by (simp add: beats_def)

lemma command_advances:
  assumes "src_field w = (False, 4, 1)" and "dst_field w = (False, 4, 1)"
    and "sar m0 \<in> cells m0" and "per_beat m0" and "1 \<le> room m0 INST_MOD_SINGLE"
  shows "advances rs (cmd_sent m0) w 1 INST_MOD_SINGLE (move_single periph)"
proof -
  have u: "unroll (move_single periph) = wait_for periph INST_MOD_SINGLE @ [DMALDx INST_MOD_SINGLE, DMASTx INST_MOD_SINGLE]"
    by (simp add: move_single_def closed_flat)
  note S = src_fieldD[OF assms(1)] dst_fieldD[OF assms(2)]
  show ?thesis
    unfolding advances_def u run_flat_append wait_for_run option.case
  proof (intro allI impI)
    fix i m
    assume I: "cmd_sent m0 i m" and c: "ccr m = w"
    let ?w = "bytes_at (memory m0) (sar m0) 4"
    have st: "mfifo m = []" "memory m = memory m0" "sar m = sar m0" "room m = room m0" "cells m = cells m0"
      "per_beat m" using I assms(4) by (auto simp: cmd_sent_def)
    let ?m1 = "m\<lparr> request := Some INST_MOD_SINGLE, credit := room m INST_MOD_SINGLE \<rparr>"
    let ?m2 = "?m1\<lparr> mfifo := ?w \<rparr>"
    let ?m3 = "reg_store ?w (?m2\<lparr> mfifo := [], credit := room m INST_MOD_SINGLE - 1 \<rparr>)"
    have "pl330_step rs (DMALDx INST_MOD_SINGLE) ?m1 = Some ?m2"
      using S c st assms(3) by (simp add: load_beat_def granted_load_def fixed_load_def cell_bytes_word)
    moreover have "pl330_step rs (DMASTx INST_MOD_SINGLE) ?m2 = Some ?m3"
      using S c st assms(5) by (simp add: store_beat_def granted_store_def cost_def)
    moreover have "cmd_sent m0 (i + 1) ?m3"
      using I c S unfolding cmd_sent_def
      by (elim exE, intro exI[of _ w] exI[of _ "Some INST_MOD_SINGLE"] exI[of _ "room m INST_MOD_SINGLE - 1"])
        (simp add: reg_store_def beats_word replicate_append_same [symmetric] del: replicate_append_same)
    ultimately show "\<exists>m'. run_flat rs [DMALDx INST_MOD_SINGLE, DMASTx INST_MOD_SINGLE] ?m1 = Some m' \<and>
        cmd_sent m0 (i + 1) m' \<and> ccr m' = w \<and> request m' = Some INST_MOD_SINGLE"
      using c by (intro exI[of _ ?m3]) simp
  qed
qed

text \<open>
  \<open>i2c_at\<close>: \<open>i\<close> bytes received and the accesses \<open>acc\<close> made since \<open>m0\<close>.  \<open>ready\<close>: the controller's
  registers are set for the next command.
\<close>

definition i2c_at ::
  "pl330 \<Rightarrow> mem \<Rightarrow> nat \<Rightarrow> reg_access list \<Rightarrow> nat \<Rightarrow> pl330 \<Rightarrow> bool" where
  "i2c_at m0 rs d acc i m \<longleftrightarrow>
     mfifo m = [] \<and> memory m = store_bytes (memory m0) d (bytes_at rs (reg_in m0) i) \<and>
     reg_in m = reg_in m0 + i \<and> accesses m = accesses m0 @ acc \<and> cells m = cells m0 \<and>
     per_beat m = per_beat m0 \<and> room m = room m0"

definition cmd_ccr :: "ccr_opts \<Rightarrow> u32" where
  "cmd_ccr opt = ccr_periph_out opt (SAF opt) (SS32 opt) (SB1 opt) (SC opt 7) (DS32 opt)"

definition set_for :: "ccr_opts \<Rightarrow> u32 \<Rightarrow> pl330 \<Rightarrow> bool" where
  "set_for opt reg m \<longleftrightarrow> dar m = unat reg \<and> ccr m = cmd_ccr opt"

lemma cmd_fields:
  assumes "ccr_opts_ok opt"
  shows "src_field (cmd_ccr opt) = (False, 4, 1)" "dst_field (cmd_ccr opt) = (False, 4, 1)"
proof -
  have v: "SAF opt = 0" "SB1 opt = 0" "DB1 opt = 0" "DAF opt = 0" "SS32 opt = 4" "DS32 opt = 0x10000"
    using assms by (simp_all add: ccr_opts_ok_def)
  note z = opts_zero[OF assms] v
  have "cmd_ccr opt AND src_mask = 4 AND src_mask" "cmd_ccr opt AND dst_mask = 0x10000 AND dst_mask"
    unfolding cmd_ccr_def ccr_periph_out_def word_ao_dist z by simp_all
  moreover have "src_field 4 = (False, 4, 1)" "dst_field 0x10000 = (False, 4, 1)"
    by (simp_all add: src_field_def dst_field_def src_inc_def src_size_def src_len_def dst_inc_def dst_size_def dst_len_def)
  ultimately show "src_field (cmd_ccr opt) = (False, 4, 1)" "dst_field (cmd_ccr opt) = (False, 4, 1)"
    using src_field_cong dst_field_cong by metis+
qed

lemma custom_runs:
  assumes "ccr_opts_ok opt" and "per_beat m0" and "1 \<le> room m0 INST_MOD_SINGLE" and "unat pa \<in> cells m0"
    and "bytes_at (store_bytes (memory m0) d (bytes_at rs (reg_in m0) i)) (unat pa) 4 = wd"
  shows "closed_calls (i2c_custom_calls opt P periph loc pa n first)"
    and "runs rs (\<lambda>m. i2c_at m0 rs d acc i m \<and> (\<not> first \<longrightarrow> set_for opt (I2C_DATA_CMD_ADDR P loc) m))
      (i2c_custom_calls opt P periph loc pa n first)
      (\<lambda>m. i2c_at m0 rs d (acc @ replicate (unat n) (Put (unat (I2C_DATA_CMD_ADDR P loc)) wd)) i m \<and>
        set_for opt (I2C_DATA_CMD_ADDR P loc) m)"
proof -
  let ?reg = "I2C_DATA_CMD_ADDR P loc"
  let ?pre = "(if first then [DMAMOV DAR ?reg] else []) @ [DMAMOV SAR pa] @
      (if first then [DMAMOV CCR (cmd_ccr opt)] else [])"
  let ?l = "counted_loops (move_single periph) DMALPEND n"
  have e: "i2c_custom_calls opt P periph loc pa n first = ?pre @ ?l"
    by (simp add: i2c_custom_calls_def cmd_ccr_def)
  have pre: "closed_calls ?pre" by (simp add: flat_closed)
  have cm: "closed_calls (move_single periph)" by (simp add: move_single_def flat_closed)
  have adv: "advances rs' (cmd_sent m1) (cmd_ccr opt) 1 INST_MOD_SINGLE (move_single periph)"
    if "sar m1 \<in> cells m1" "per_beat m1" "1 \<le> room m1 INST_MOD_SINGLE" for m1 rs'
    by (rule command_advances[OF cmd_fields[OF assms(1)] that])
  have "closed_calls ?l"
  proof -
    let ?m = "m0\<lparr> sar := unat pa \<rparr>"
    have "sar ?m \<in> cells ?m" "per_beat ?m" "1 \<le> room ?m INST_MOD_SINGLE" using assms(2-4) by simp_all
    from counted_loops_run[OF cm adv[OF this]] show ?thesis by blast
  qed
  then show "closed_calls (i2c_custom_calls opt P periph loc pa n first)"
    unfolding e by (intro closed_append pre)
  show "runs rs (\<lambda>m. i2c_at m0 rs d acc i m \<and> (\<not> first \<longrightarrow> set_for opt ?reg m))
      (i2c_custom_calls opt P periph loc pa n first)
      (\<lambda>m. i2c_at m0 rs d (acc @ replicate (unat n) (Put (unat ?reg) wd)) i m \<and> set_for opt ?reg m)"
    unfolding runs_def run_program_def
  proof (intro allI impI, elim conjE)
    fix m
    assume J: "i2c_at m0 rs d acc i m" and f: "\<not> first \<longrightarrow> set_for opt ?reg m"
    define m1 where "m1 = (if first then m\<lparr> dar := unat ?reg, sar := unat pa, ccr := cmd_ccr opt \<rparr>
      else m\<lparr> sar := unat pa \<rparr>)"
    have st: "sar m1 = unat pa" "dar m1 = unat ?reg" "ccr m1 = cmd_ccr opt" "mfifo m1 = []"
      "memory m1 = memory m" "reg_in m1 = reg_in m" "accesses m1 = accesses m" "cells m1 = cells m0"
      "per_beat m1 = per_beat m0" "room m1 = room m0"
      using J f by (auto simp: m1_def i2c_at_def set_for_def)
    have r: "run_flat rs (unroll ?pre) m = Some m1" by (simp add: m1_def)
    have z: "cmd_sent m1 0 m1" using st(4) unfolding cmd_sent_def
      by (intro exI[of _ "ccr m1"] exI[of _ "request m1"] exI[of _ "credit m1"], cases m1) simp
    have a: "advances rs (cmd_sent m1) (cmd_ccr opt) 1 INST_MOD_SINGLE (move_single periph)"
      by (rule adv) (use assms(2-4) st in simp_all)
    obtain m2 where m2: "run_flat rs (unroll ?l) m1 = Some m2" "cmd_sent m1 (unat n) m2" "ccr m2 = cmd_ccr opt"
      using counted_loops_run[OF cm a, where fin = DMALPEND and n = n] z st(3) by fastforce
    have "bytes_at (memory m1) (sar m1) 4 = wd" using J assms(5) st by (simp add: i2c_at_def)
    then have "i2c_at m0 rs d (acc @ replicate (unat n) (Put (unat ?reg) wd)) i m2 \<and> set_for opt ?reg m2"
      using J m2(2,3) st by (auto simp: i2c_at_def cmd_sent_def set_for_def)
    then show "\<exists>m'. run_flat rs (unroll (i2c_custom_calls opt P periph loc pa n first)) m = Some m' \<and>
        i2c_at m0 rs d (acc @ replicate (unat n) (Put (unat ?reg) wd)) i m' \<and> set_for opt ?reg m'"
      unfolding e unroll_append[OF pre] run_flat_append r using m2(1) by simp
  qed
qed

lemma run_program_mov:
  "run_program rs (DMAMOV DAR v # cs) m = run_program rs cs (m\<lparr> dar := unat v \<rparr>)"
  "run_program rs (DMAMOV SAR v # cs) m = run_program rs cs (m\<lparr> sar := unat v \<rparr>)"
  by (simp_all add: run_program_def)

lemma plain_write_runs:
  assumes "ccr_opts_ok opt" and "unat sz < 2 ^ 31" and "grants (i2c_burst th) m0"
  shows "closed_calls (DMAMOV DAR reg # to_i2c_calls opt periph th pa sz)"
    and "runs rs (i2c_at m0 rs d acc 0) (DMAMOV DAR reg # to_i2c_calls opt periph th pa sz)
      (i2c_at m0 rs d (acc @ map (\<lambda>b. Put (unat reg) [b]) (bytes_at (memory m0) (unat pa) (unat sz))) 0)"
proof -
  show "closed_calls (DMAMOV DAR reg # to_i2c_calls opt periph th pa sz)"
    by (intro closed_mov to_i2c_runs(1)[OF assms])
  show "runs rs (i2c_at m0 rs d acc 0) (DMAMOV DAR reg # to_i2c_calls opt periph th pa sz)
      (i2c_at m0 rs d (acc @ map (\<lambda>b. Put (unat reg) [b]) (bytes_at (memory m0) (unat pa) (unat sz))) 0)"
    unfolding runs_def run_program_mov
  proof (intro allI impI)
    fix m
    assume J: "i2c_at m0 rs d acc 0 m"
    let ?m = "m\<lparr> dar := unat reg \<rparr>"
    have "grants (i2c_burst th) ?m" "mfifo ?m = []" using assms(3) J by (simp_all add: grants_def i2c_at_def)
    with to_i2c_runs(2)[OF assms(1,2) this(1), of rs periph pa] obtain m'
      where m': "run_program rs (to_i2c_calls opt periph th pa sz) ?m = Some m'" "i2c_sent ?m (unat pa) (unat sz) m'"
      unfolding runs_def by blast
    from i2c_sent_fields[OF m'(2)] J
    have "i2c_at m0 rs d (acc @ map (\<lambda>b. Put (unat reg) [b]) (bytes_at (memory m0) (unat pa) (unat sz))) 0 m'"
      by (simp add: i2c_at_def)
    with m'(1) show "\<exists>m'. run_program rs (to_i2c_calls opt periph th pa sz) ?m = Some m' \<and>
        i2c_at m0 rs d (acc @ map (\<lambda>b. Put (unat reg) [b]) (bytes_at (memory m0) (unat pa) (unat sz))) 0 m'"
      by blast
  qed
qed

lemma plain_read_runs:
  assumes "ccr_opts_ok opt" and "unat sz < 2 ^ 31" and "grants (i2c_burst th) m0"
    and "unat reg \<notin> cells m0" and "unat pa = d + i"
  shows "closed_calls (DMAMOV SAR reg # from_i2c_calls opt periph th pa sz)"
    and "runs rs (i2c_at m0 rs d acc i) (DMAMOV SAR reg # from_i2c_calls opt periph th pa sz)
      (i2c_at m0 rs d (acc @ replicate (unat sz) (Get (unat reg) 1)) (i + unat sz))"
proof -
  show "closed_calls (DMAMOV SAR reg # from_i2c_calls opt periph th pa sz)"
    by (intro closed_mov from_i2c_closed[OF assms(1,2)])
  show "runs rs (i2c_at m0 rs d acc i) (DMAMOV SAR reg # from_i2c_calls opt periph th pa sz)
      (i2c_at m0 rs d (acc @ replicate (unat sz) (Get (unat reg) 1)) (i + unat sz))"
    unfolding runs_def run_program_mov
  proof (intro allI impI)
    fix m
    assume J: "i2c_at m0 rs d acc i m"
    let ?m = "m\<lparr> sar := unat reg \<rparr>"
    have "grants (i2c_burst th) ?m" "sar ?m \<notin> cells ?m" "mfifo ?m = []"
      using assms(3,4) J by (simp_all add: grants_def i2c_at_def)
    with from_i2c_runs(2)[OF assms(1,2) this(1,2), of rs periph pa] obtain m'
      where m': "run_program rs (from_i2c_calls opt periph th pa sz) ?m = Some m'" "i2c_received rs ?m (unat pa) (unat sz) m'"
      unfolding runs_def by blast
    have "store_bytes (memory m) (unat pa) (bytes_at rs (reg_in m) (unat sz)) =
        store_bytes (memory m0) d (bytes_at rs (reg_in m0) (i + unat sz))"
      using store_bytes_append[of "memory m0" d "bytes_at rs (reg_in m0) i" "bytes_at rs (reg_in m0 + i) (unat sz)"] J
      by (simp add: i2c_at_def assms(5) bytes_at_add)
    with i2c_received_fields[OF m'(2)] J
    have "i2c_at m0 rs d (acc @ replicate (unat sz) (Get (unat reg) 1)) (i + unat sz) m'"
      by (simp add: i2c_at_def)
    with m'(1) show "\<exists>m'. run_program rs (from_i2c_calls opt periph th pa sz) ?m = Some m' \<and>
        i2c_at m0 rs d (acc @ replicate (unat sz) (Get (unat reg) 1)) (i + unat sz) m'"
      by blast
  qed
qed

section \<open>A master's write\<close>

text \<open>What the driver assembles: the bytes after the restart and before the stop go as they are.\<close>

definition i2c_write_calls ::
  "ccr_opts \<Rightarrow> periph_env \<Rightarrow> dma_periph \<Rightarrow> i2c_info \<Rightarrow> byte \<Rightarrow> u32 \<Rightarrow> u32 \<Rightarrow> u32 \<Rightarrow> dma_call list" where
  "i2c_write_calls opt P periph info th pa src sz =
     (let loc = i2c_location info;
          cmd = (\<lambda>k. i2c_custom_calls opt P periph loc (pa + 4 * k) 1);
          src' = (if issue_restart info then src + 1 else src);
          rest = sz - (if issue_stop info then 1 else 0) - (if issue_restart info then 1 else 0)
      in if sz = 1 then cmd 3 True
         else (if issue_restart info then cmd 1 True else []) @
              (if rest > 0 then DMAMOV DAR (I2C_DATA_CMD_ADDR P loc) # to_i2c_calls opt periph th src' rest else []) @
              (if issue_stop info then cmd 2 (rest \<noteq> 0) else []))"

text \<open>The machines it runs on: a FIFO of entries, the words in memory, and the source the driver saw.\<close>

definition word_pa :: "u32 \<Rightarrow> nat \<Rightarrow> nat" where "word_pa pa k = unat (pa + 4 * of_nat k)"

definition i2c_machine :: "u32 \<Rightarrow> nat \<Rightarrow> u32 \<Rightarrow> u32 list \<Rightarrow> pl330 \<Rightarrow> bool" where
  "i2c_machine reg burst pa ws m \<longleftrightarrow>
     per_beat m \<and> grants burst m \<and> is_device reg m \<and>
     (\<forall>k<4. word_pa pa k \<in> cells m \<and> bytes_at (memory m) (word_pa pa k) 4 = bytes32 (ws ! k))"

definition sees_ram :: "periph_env \<Rightarrow> u32 \<Rightarrow> nat \<Rightarrow> pl330 \<Rightarrow> bool" where
  "sees_ram P src n m \<longleftrightarrow> (\<forall>i<n. memory m (unat src + i) = ram P (src + of_nat i))"

definition i2c_writes ::
  "u32 \<Rightarrow> bool \<Rightarrow> bool \<Rightarrow> u32 \<Rightarrow> nat \<Rightarrow> mem \<Rightarrow> pl330 \<Rightarrow> pl330 \<Rightarrow> bool" where
  "i2c_writes reg r t src n rs m m' \<longleftrightarrow>
     mfifo m' = [] \<and> memory m' = memory m \<and> reg_in m' = reg_in m \<and>
     (\<exists>acc. accesses m' = accesses m @ acc \<and> all_at (unat reg) acc \<and>
        commands acc = write_ops r t (bytes_at (memory m) (unat src) n))"

lemma run_program_Nil [simp]: "run_program rs [] m = Some m"
  by (simp add: run_program_def)

definition i2c_write_words :: "periph_env \<Rightarrow> i2c_info \<Rightarrow> u32 \<Rightarrow> u32 \<Rightarrow> u32 list \<Rightarrow> u32 list" where
  "i2c_write_words P info src sz ws =
     (if sz = 1 then ws[3 := i2c_data P (ram P src) (issue_restart info) (issue_stop info)]
      else let ws = (if issue_stop info then ws[2 := i2c_data P (ram P (src + (sz - 1))) False True] else ws)
           in if issue_restart info then ws[1 := i2c_data P (ram P src) True False] else ws)"

lemma write_ops_plain: "write_ops False False bs = map (\<lambda>b. I2c_Write b False False) bs"
  unfolding write_ops_def by (rule nth_equalityI) simp_all

lemma write_ops_snoc: "write_ops r t (xs @ [y]) = write_ops r False xs @ [I2c_Write y (r \<and> xs = []) t]"
  by (simp add: write_ops_def nth_append cong: map_cong)

lemma write_ops_Cons: "write_ops r False (x # xs) = I2c_Write x r False # map (\<lambda>b. I2c_Write b False False) xs"
  unfolding write_ops_plain [symmetric] by (simp add: write_ops_def map_upt_Suc del: upt_Suc)

lemma write_ops_split:
  assumes "2 \<le> length ((if r then [x] else []) @ mid @ (if t then [y] else []))"
  shows "write_ops r t ((if r then [x] else []) @ mid @ (if t then [y] else [])) =
    (if r then [I2c_Write x True False] else []) @ map (\<lambda>b. I2c_Write b False False) mid @
    (if t then [I2c_Write y False True] else [])"
proof (cases t)
  case True
  then have "\<not> (r \<and> (if r then [x] else []) @ mid = [])" by simp
  then show ?thesis
    using True write_ops_snoc[of r True "(if r then [x] else []) @ mid" y]
    by (cases r) (simp_all add: write_ops_Cons write_ops_plain)
qed (cases r; simp add: write_ops_Cons write_ops_plain)

lemma write_ops_one: "write_ops r t [b] = [I2c_Write b r t]"
  by (simp add: write_ops_def)

lemma i2c_at_start: "runs rs (\<lambda>m. m = m0 \<and> mfifo m = []) [] (i2c_at m0 rs d [] 0)"
  by (simp add: i2c_at_def)

text \<open>The bytes at the ends of the source, and between them.\<close>

lemma bytes_at_ends:
  assumes "2 \<le> n"
  shows "bytes_at M s n = (if r then [M s] else []) @
    bytes_at M (s + (if r then 1 else 0)) (n - (if t then 1 else 0) - (if r then 1 else 0)) @
    (if t then [M (s + n - 1)] else [])"
  by (rule nth_equalityI) (use assms in \<open>auto simp: nth_append nth_Cons split: nat.split intro!: arg_cong[where f = M]\<close>)

lemma unat_rest:
  assumes "unat (sz :: u32) \<ge> 2"
  shows "unat (sz - (if t then 1 else 0) - (if r then 1 else 0)) =
    unat sz - (if t then 1 else 0) - (if r then 1 else 0)"
proof -
  have "unat (sz - 1) = unat sz - 1" "unat (sz - 2) = unat sz - 2"
    using assms by (simp_all add: unat_sub word_le_nat_alt)
  then show ?thesis by (simp add: numeral_2_eq_2)
qed

text \<open>A command from the word \<open>k\<close>, as long as the bytes received are not put over it.\<close>

definition untouched :: "pl330 \<Rightarrow> mem \<Rightarrow> nat \<Rightarrow> nat \<Rightarrow> u32 \<Rightarrow> bool" where
  "untouched m0 rs d i pa \<longleftrightarrow> (\<forall>k<4. bytes_at (store_bytes (memory m0) d (bytes_at rs (reg_in m0) i)) (word_pa pa k) 4 =
     bytes_at (memory m0) (word_pa pa k) 4)"

lemma untouched_0 [simp]: "untouched m0 rs d 0 pa"
  by (simp add: untouched_def)

lemma word_runs:
  assumes "ccr_opts_ok opt" and "i2c_machine reg burst pa ws m0" and "untouched m0 rs d i pa"
    and "k < 4" and "pk = pa + 4 * of_nat k" and "reg = I2C_DATA_CMD_ADDR P loc"
  shows "closed_calls (i2c_custom_calls opt P periph loc pk n first)"
    and "runs rs (\<lambda>m. i2c_at m0 rs d acc i m \<and> (\<not> first \<longrightarrow> set_for opt reg m))
      (i2c_custom_calls opt P periph loc pk n first)
      (\<lambda>m. i2c_at m0 rs d (acc @ replicate (unat n) (Put (unat reg) (bytes32 (ws ! k)))) i m \<and> set_for opt reg m)"
proof -
  have "per_beat m0" "1 \<le> room m0 INST_MOD_SINGLE" "unat pk \<in> cells m0"
    "bytes_at (store_bytes (memory m0) d (bytes_at rs (reg_in m0) i)) (unat pk) 4 = bytes32 (ws ! k)"
    using assms(2-5) by (auto simp: i2c_machine_def word_pa_def grants_def untouched_def)
  note C = custom_runs[OF assms(1) this, where P = P and loc = loc, folded assms(6)]
  show "closed_calls (i2c_custom_calls opt P periph loc pk n first)" by (rule C(1))
  show "runs rs (\<lambda>m. i2c_at m0 rs d acc i m \<and> (\<not> first \<longrightarrow> set_for opt reg m))
      (i2c_custom_calls opt P periph loc pk n first)
      (\<lambda>m. i2c_at m0 rs d (acc @ replicate (unat n) (Put (unat reg) (bytes32 (ws ! k)))) i m \<and> set_for opt reg m)"
    by (rule C(2))
qed

lemma write_calls_runs:
  assumes "ccr_opts_ok opt" and "i2c_cmd_ok P" and "2 \<le> unat sz" and "unat sz < 2 ^ 31"
    and "unat src + unat sz \<le> 2 ^ 32" and "length ws = 4"
    and "i2c_machine (I2C_DATA_CMD_ADDR P (i2c_location info)) (i2c_burst th) pa (i2c_write_words P info src sz ws) m0"
    and "sees_ram P src (unat sz) m0"
  shows "closed_calls (i2c_write_calls opt P periph info th pa src sz)"
    and "runs rs (\<lambda>m. m = m0 \<and> mfifo m = []) (i2c_write_calls opt P periph info th pa src sz)
      (i2c_writes (I2C_DATA_CMD_ADDR P (i2c_location info)) (issue_restart info) (issue_stop info) src (unat sz) rs m0)"
proof -
  let ?reg = "I2C_DATA_CMD_ADDR P (i2c_location info)" and ?ws = "i2c_write_words P info src sz ws"
  let ?r = "issue_restart info" and ?t = "issue_stop info"
  let ?n = "unat sz" and ?M = "memory m0" and ?s = "unat src"
  define rest where "rest = sz - (if ?t then 1 else 0) - (if ?r then 1 else 0)"
  define src' where "src' = (if ?r then src + 1 else src)"
  have sz1: "sz \<noteq> 1" using assms(3) by auto
  have rest: "unat rest = ?n - (if ?t then 1 else 0) - (if ?r then 1 else 0)"
    unfolding rest_def by (rule unat_rest[OF assms(3)])
  have src': "unat src' = ?s + (if ?r then 1 else 0)"
    using assms(3,5) by (simp add: src'_def unat_word_ariths)
  have last: "unat (src + (sz - 1)) = ?s + ?n - 1"
    using assms(3,5) by (simp add: unat_word_ariths unat_sub word_le_nat_alt)
  have g: "grants (i2c_burst th) m0" using assms(7) by (simp add: i2c_machine_def)
  have R: "unat rest < 2 ^ 31" using assms(4) rest by simp
  have m: "ram P src = ?M ?s" "ram P (src + (sz - 1)) = ?M (?s + ?n - 1)"
  proof -
    have "?M (?s + 0) = ram P (src + of_nat 0)" "?M (?s + (?n - 1)) = ram P (src + of_nat (?n - 1))"
      using assms(3,8) unfolding sees_ram_def by (metis less_le_trans zero_less_numeral, metis diff_less less_le_trans zero_less_numeral zero_less_one)
    moreover have "(of_nat (?n - 1) :: u32) = sz - 1" using assms(3) by (simp add: of_nat_diff)
    ultimately show "ram P src = ?M ?s" "ram P (src + (sz - 1)) = ?M (?s + ?n - 1)"
      using assms(3) by simp_all
  qed
  have w1: "?ws ! 1 = i2c_data P (?M ?s) True False" if ?r
    using that sz1 assms(6) by (simp add: i2c_write_words_def Let_def m)
  have w2: "?ws ! 2 = i2c_data P (?M (?s + ?n - 1)) False True" if ?t
    using that sz1 assms(6) by (simp add: i2c_write_words_def Let_def m)
  let ?cmd = "\<lambda>k. i2c_custom_calls opt P periph (i2c_location info) (pa + 4 * k) 1"
  let ?A = "if ?r then ?cmd 1 True else []"
  let ?B = "if rest > 0 then DMAMOV DAR ?reg # to_i2c_calls opt periph th src' rest else []"
  let ?C = "if ?t then ?cmd 2 (rest \<noteq> 0) else []"
  have e: "i2c_write_calls opt P periph info th pa src sz = [] @ ?A @ ?B @ ?C"
    using sz1 by (simp add: i2c_write_calls_def Let_def rest_def src'_def)
  define a where "a = (if ?r then [Put (unat ?reg) (bytes32 (?ws ! 1))] else [])"
  define b where "b = map (\<lambda>b. Put (unat ?reg) [b]) (bytes_at ?M (unat src') (unat rest))"
  define c where "c = (if ?t then [Put (unat ?reg) (bytes32 (?ws ! 2))] else [])"
  let ?J = "\<lambda>acc. i2c_at m0 rs 0 acc 0"
  note CA = word_runs[where rs = rs and d = 0 and i = 0 and k = 1 and pk = "pa + 4 * 1", OF assms(1,7) untouched_0 _ _ refl, simplified]
  note CC = word_runs[where rs = rs and d = 0 and i = 0 and k = 2 and pk = "pa + 4 * 2", OF assms(1,7) untouched_0 _ _ refl, simplified]
  have A: "closed_calls ?A" "runs rs (?J []) ?A (\<lambda>m. ?J a m \<and> (?r \<longrightarrow> set_for opt ?reg m))"
    using CA(1)[of periph 1 True] CA(2)[of "[]" True periph 1] by (simp_all add: a_def runs_def)
  have B: "closed_calls ?B"
    "runs rs (\<lambda>m. ?J a m \<and> (?r \<longrightarrow> set_for opt ?reg m)) ?B (\<lambda>m. ?J (a @ b) m \<and> (rest = 0 \<longrightarrow> set_for opt ?reg m))"
  proof -
    have "rest = 0 \<Longrightarrow> ?r \<and> b = []" using rest assms(3) by (auto simp: b_def split: if_splits)
    then show "closed_calls ?B"
      "runs rs (\<lambda>m. ?J a m \<and> (?r \<longrightarrow> set_for opt ?reg m)) ?B (\<lambda>m. ?J (a @ b) m \<and> (rest = 0 \<longrightarrow> set_for opt ?reg m))"
      using plain_write_runs(1)[OF assms(1) R g, where reg = ?reg and periph = periph and pa = src']
        plain_write_runs(2)[OF assms(1) R g, where reg = ?reg and periph = periph and pa = src' and rs = rs
          and d = 0 and acc = a]
      by (auto simp: runs_def b_def word_gt_0)
  qed
  have C: "closed_calls ?C" "runs rs (\<lambda>m. ?J (a @ b) m \<and> (rest = 0 \<longrightarrow> set_for opt ?reg m)) ?C (?J (a @ b @ c))"
    using CC(1)[where periph = periph and n = 1 and first = "rest \<noteq> 0"]
      CC(2)[where acc = "a @ b" and periph = periph and n = 1 and first = "rest \<noteq> 0"]
    by (simp_all add: c_def runs_def) blast
  show "closed_calls (i2c_write_calls opt P periph info th pa src sz)"
    unfolding e by (intro closed_append A(1) B(1) C(1) closed_Nil)
  have run: "runs rs (\<lambda>m. m = m0 \<and> mfifo m = []) (i2c_write_calls opt P periph info th pa src sz) (?J (a @ b @ c))"
    unfolding e by (rule runs_append[OF closed_Nil i2c_at_start runs_append[OF A runs_append[OF B C(2)]]])
  have "commands (a @ b @ c) = write_ops ?r ?t (bytes_at ?M ?s ?n)"
    unfolding bytes_at_ends[OF assms(3), of ?M ?s ?r ?t]
    by (subst write_ops_split)
      (use assms(3) in \<open>auto simp: a_def b_def c_def w1[unfolded One_nat_def] w2 command_of_data[OF assms(2)] src' rest\<close>)
  moreover have "all_at (unat ?reg) (a @ b @ c)" by (simp add: a_def b_def c_def)
  ultimately show "runs rs (\<lambda>m. m = m0 \<and> mfifo m = []) (i2c_write_calls opt P periph info th pa src sz)
      (i2c_writes ?reg ?r ?t src ?n rs m0)"
    using run unfolding runs_def i2c_writes_def i2c_at_def by fastforce
qed

lemma write_one_runs:
  assumes "ccr_opts_ok opt" and "i2c_cmd_ok P" and "length ws = 4"
    and "i2c_machine (I2C_DATA_CMD_ADDR P (i2c_location info)) (i2c_burst th) pa (i2c_write_words P info src 1 ws) m0"
    and "sees_ram P src 1 m0"
  shows "closed_calls (i2c_write_calls opt P periph info th pa src 1)"
    and "runs rs (\<lambda>m. m = m0 \<and> mfifo m = []) (i2c_write_calls opt P periph info th pa src 1)
      (i2c_writes (I2C_DATA_CMD_ADDR P (i2c_location info)) (issue_restart info) (issue_stop info) src 1 rs m0)"
proof -
  let ?reg = "I2C_DATA_CMD_ADDR P (i2c_location info)"
  let ?w = "i2c_data P (memory m0 (unat src)) (issue_restart info) (issue_stop info)"
  have "memory m0 (unat src) = ram P src" using assms(5) by (simp add: sees_ram_def)
  then have w: "i2c_write_words P info src 1 ws ! 3 = ?w" using assms(3) by (simp add: i2c_write_words_def)
  have e: "i2c_write_calls opt P periph info th pa src 1 =
      i2c_custom_calls opt P periph (i2c_location info) (pa + 4 * 3) 1 True"
    by (simp add: i2c_write_calls_def Let_def)
  note C = word_runs[where rs = rs and d = 0 and i = 0 and k = 3 and pk = "pa + 4 * 3", OF assms(1,4) untouched_0 _ _ refl, simplified]
  show "closed_calls (i2c_write_calls opt P periph info th pa src 1)"
    unfolding e using C(1)[where periph = periph and n = 1 and first = True] by simp
  have "commands [Put (unat ?reg) (bytes32 ?w)] = write_ops (issue_restart info) (issue_stop info) (bytes_at (memory m0) (unat src) 1)"
    by (simp add: command_of_data[OF assms(2)] bytes_at_def write_ops_one)
  moreover have "all_at (unat ?reg) [Put (unat ?reg) (bytes32 ?w)]" by simp
  moreover have "runs rs (\<lambda>m. m = m0 \<and> mfifo m = []) ([] @ i2c_write_calls opt P periph info th pa src 1)
      (\<lambda>m. i2c_at m0 rs 0 [Put (unat ?reg) (bytes32 ?w)] 0 m \<and> set_for opt ?reg m)"
    unfolding e using C(2)[where acc = "[]" and periph = periph and n = 1 and first = True]
    by (intro runs_append[OF closed_Nil i2c_at_start[where d = 0]]) (simp add: w)
  ultimately show "runs rs (\<lambda>m. m = m0 \<and> mfifo m = []) (i2c_write_calls opt P periph info th pa src 1)
      (i2c_writes ?reg (issue_restart info) (issue_stop info) src 1 rs m0)"
    unfolding runs_def i2c_writes_def i2c_at_def by fastforce
qed

section \<open>What the driver assembles\<close>

definition fails_at :: "'p dma_state \<Rightarrow> ('p, status option) dma \<Rightarrow> bool" where
  "fails_at s m \<longleftrightarrow> (\<exists>st s'. run_state m s = (Some st, s') \<and> st \<noteq> ALT_E_SUCCESS \<and> writes (bus s') = writes (bus s))"

lemma fails_leaving: "fails_at s m \<Longrightarrow> emits_leaving calls s m cs ws"
  by (auto simp: fails_at_def emits_leaving_def)

lemma fails_return [simp]: "fails_at s (State_Monad.return (Some st)) \<longleftrightarrow> st \<noteq> ALT_E_SUCCESS"
  by (auto simp: fails_at_def)

lemma i2c_custom_emits:
  assumes "assembler E calls"
  shows "emits calls (i2c_custom E P periph info pa k n first st)
    (i2c_custom_calls (opts E) P periph (i2c_location info) (pa + 4 * k) n first)"
  unfolding i2c_custom_def by (intro emits_guarded emits_all assms)

lemma i2c_custom_fails [simp]:
  "st \<noteq> ALT_E_SUCCESS \<Longrightarrow> i2c_custom E P periph info pa k n first st = State_Monad.return st"
  by (simp add: i2c_custom_def guarded_def)

text \<open>A command, and what follows it; a word set, and what follows it.\<close>

lemma leaving_bind:
  assumes "emits calls m cs"
    and "\<And>s1. bus s1 = bus s \<Longrightarrow> scratch s1 = scratch s \<Longrightarrow> emits_leaving calls s1 (f ALT_E_SUCCESS) ds ws"
    and "\<And>st s1. st \<noteq> ALT_E_SUCCESS \<Longrightarrow> bus s1 = bus s \<Longrightarrow> fails_at s1 (f st)"
  shows "emits_leaving calls s (do { st \<leftarrow> m; f st }) (cs @ ds) ws"
proof -
  obtain st s1 where r: "run_state m s = (st, s1)" by force
  with assms(1) have s1: "bus s1 = bus s" "scratch s1 = scratch s"
    "st = ALT_E_SUCCESS \<Longrightarrow> calls (program s1) = calls (program s) @ cs" unfolding emits_def by blast+
  show ?thesis
  proof (cases "st = ALT_E_SUCCESS")
    case True
    with assms(2)[OF s1(1,2)] s1 r show ?thesis by (auto simp: emits_leaving_def)
  next
    case False
    with assms(3)[OF False s1(1)] s1 r show ?thesis by (auto simp: emits_leaving_def fails_at_def)
  qed
qed

lemma leaving_set:
  assumes "emits_leaving calls (s\<lparr> scratch := (scratch s)[k := v] \<rparr>) m cs ws"
  shows "emits_leaving calls s (do { _ \<leftarrow> set_scratch k v; m }) cs ws"
  using assms by (simp add: set_scratch_def emits_leaving_def)

lemma leaving_clean:
  assumes "emits_leaving calls s m cs ws"
  shows "emits_leaving calls s (do { r \<leftarrow> m; State_Monad.return (clean_after E info r) }) cs ws"
  using assms by (auto simp: emits_leaving_def clean_after_def)

lemma leaving_return: "emits_leaving calls s (State_Monad.return (Some ALT_E_SUCCESS)) [] (scratch s)"
  by (simp add: emits_leaving_def)

text \<open>A transfer of plain bytes, and the command after it.\<close>

lemma leaving_then:
  assumes "emits_at calls s m cs" and "emits calls (g ALT_E_SUCCESS) ds"
    and "\<And>st. st \<noteq> ALT_E_SUCCESS \<Longrightarrow> g st = State_Monad.return st"
  shows "emits_leaving calls s (do { r \<leftarrow> m;
      (case r of None \<Rightarrow> State_Monad.return None
       | Some st \<Rightarrow> do { st \<leftarrow> g st; State_Monad.return (Some st) }) }) (cs @ ds) (scratch s)"
proof -
  from assms(1) obtain st s1 where r: "run_state m s = (Some st, s1)" "writes (bus s1) = writes (bus s)"
    "scratch s1 = scratch s" "st = ALT_E_SUCCESS \<Longrightarrow> calls (program s1) = calls (program s) @ cs"
    unfolding emits_at_def by blast
  show ?thesis
  proof (cases "st = ALT_E_SUCCESS")
    case True
    obtain st2 s2 where g: "run_state (g st) s1 = (st2, s2)" by force
    with assms(2) True have "bus s2 = bus s1" "scratch s2 = scratch s1"
      "st2 = ALT_E_SUCCESS \<Longrightarrow> calls (program s2) = calls (program s1) @ ds" unfolding emits_def by blast+
    then show ?thesis using r g True by (simp add: emits_leaving_def)
  next
    case False
    then show ?thesis using r assms(3)[OF False] by (simp add: emits_leaving_def)
  qed
qed

lemma leaving_same:
  assumes "emits_at calls s m cs"
  shows "emits_leaving calls s (do { r \<leftarrow> m;
      (case r of None \<Rightarrow> State_Monad.return None | Some st \<Rightarrow> State_Monad.return (Some st)) }) cs (scratch s)"
  using assms by (auto simp: emits_at_def emits_leaving_def)

lemma memory_to_i2c_master_emits:
  fixes P :: periph_env and info :: i2c_info
  defines "loc \<equiv> i2c_location info"
  assumes "weak_mmu E" and "assembler E calls" and "sz \<noteq> 0"
  shows "emits_leaving calls s (alt_dma_memory_to_i2c_master (Suc fuel) E P periph info src sz)
    (i2c_write_calls (opts E) P periph info (i2c_tx_threshold E P loc (bus s)) (snd (scratch_pa E info)) src sz)
    (i2c_write_words P info src sz (scratch s))"
proof -
  obtain st pa where sp: "scratch_pa E info = (st, pa)" by force
  show ?thesis
  proof (cases "st = ALT_E_SUCCESS")
    case False
    then have "fails_at s (alt_dma_memory_to_i2c_master (Suc fuel) E P periph info src sz)"
      by (auto simp: alt_dma_memory_to_i2c_master_def sp fails_at_def set_scratch_def clean_after_def Let_def)
    then show ?thesis by (rule fails_leaving)
  next
    case True
    let ?th = "i2c_tx_threshold E P loc (bus s)"
    let ?cmd = "\<lambda>k. i2c_custom_calls (opts E) P periph loc (pa + 4 * k) 1"
    note em = i2c_custom_emits[OF assms(3), of P periph info pa, folded loc_def]
    have common: "emits_at calls s1 (alt_dma_memory_to_i2c_common (Suc fuel) E P periph loc a n)
        (DMAMOV DAR (I2C_DATA_CMD_ADDR P loc) # to_i2c_calls (opts E) periph ?th a n)"
      if "bus s1 = bus s" "n \<noteq> 0" for s1 :: "'a dma_state" and a n
      using memory_to_i2c_common_emits[OF assms(2,3) that(2), of s1 fuel P periph loc a] that(1) by simp
    define tail where "tail src sz st = do { r \<leftarrow> (if st = ALT_E_SUCCESS \<and> sz > 0
          then alt_dma_memory_to_i2c_common (Suc fuel) E P periph loc src sz
          else State_Monad.return (Some st));
        (case r of
           None \<Rightarrow> State_Monad.return None
         | Some status \<Rightarrow>
             (if issue_stop info
              then do { status \<leftarrow> i2c_custom E P periph info pa 2 1 (sz \<noteq> 0) status;
                        State_Monad.return (Some status) }
              else State_Monad.return (Some status))) }" for src sz st
    have tail: "emits_leaving calls s1 (tail src sz ALT_E_SUCCESS)
        ((if sz > 0 then DMAMOV DAR (I2C_DATA_CMD_ADDR P loc) # to_i2c_calls (opts E) periph ?th src sz else []) @
         (if issue_stop info then ?cmd 2 (sz \<noteq> 0) else [])) (scratch s1)"
      if "bus s1 = bus s" for s1 :: "'a dma_state" and src sz
    proof -
      let ?m = "if sz > 0 then alt_dma_memory_to_i2c_common (Suc fuel) E P periph loc src sz
          else State_Monad.return (Some ALT_E_SUCCESS)"
      let ?cs = "if sz > 0 then DMAMOV DAR (I2C_DATA_CMD_ADDR P loc) # to_i2c_calls (opts E) periph ?th src sz else []"
      have m: "emits_at calls s1 ?m ?cs"
        using common[OF that, of sz src] by (simp add: emits_at_def word_gt_0)
      show ?thesis
      proof (cases "issue_stop info")
        case True
        then show ?thesis
          using leaving_then[where g = "i2c_custom E P periph info pa 2 1 (sz \<noteq> 0)", OF m em]
            by (cases "sz > 0") (simp_all add: tail_def cong: option.case_cong)
      next
        case False
        then show ?thesis using leaving_same[OF m] by (cases "sz > 0") (simp_all add: tail_def cong: option.case_cong)
      qed
    qed
    have fail: "fails_at s1 (tail src sz st')" if "st' \<noteq> ALT_E_SUCCESS" for s1 src sz st'
      using that by (simp add: tail_def fails_at_def)
    show ?thesis
    proof (cases "sz = 1")
      case True
      have "emits_leaving calls s (do { _ \<leftarrow> set_scratch 3 (i2c_data P (ram P src) (issue_restart info) (issue_stop info));
          st \<leftarrow> i2c_custom E P periph info pa 3 1 True ALT_E_SUCCESS; State_Monad.return (Some st) })
          (?cmd 3 True @ []) ((scratch s)[3 := i2c_data P (ram P src) (issue_restart info) (issue_stop info)])"
        by (rule leaving_set, rule leaving_bind[OF em]) (simp_all add: emits_leaving_def)
      from leaving_clean[OF this, of E info] show ?thesis
        using \<open>st = ALT_E_SUCCESS\<close> True
        by (simp add: alt_dma_memory_to_i2c_master_def sp i2c_write_calls_def i2c_write_words_def loc_def Let_def
            emits_leaving_def split: prod.splits)
    next
      case False
      let ?w2 = "i2c_data P (ram P (src + (sz - 1))) False True" and ?w1 = "i2c_data P (ram P src) True False"
      define n where "n = (if issue_stop info then sz - 1 else sz)"
      define first where "first = (if issue_restart info
        then do { _ \<leftarrow> set_scratch 1 ?w1; st \<leftarrow> i2c_custom E P periph info pa 1 1 True ALT_E_SUCCESS;
                  tail (src + 1) (n - 1) st }
        else tail src n ALT_E_SUCCESS)"
      define cs where "cs = (if issue_restart info then ?cmd 1 True else []) @
        (let rest = (if issue_restart info then n - 1 else n)
         in (if rest > 0 then DMAMOV DAR (I2C_DATA_CMD_ADDR P loc) #
               to_i2c_calls (opts E) periph ?th (if issue_restart info then src + 1 else src) rest else []) @
            (if issue_stop info then ?cmd 2 (rest \<noteq> 0) else []))"
      have first: "emits_leaving calls s1 first cs (if issue_restart info then (scratch s1)[1 := ?w1] else scratch s1)"
        if "bus s1 = bus s" for s1
      proof (cases "issue_restart info")
        case True
        have "emits_leaving calls s1 (do { _ \<leftarrow> set_scratch 1 ?w1;
            st \<leftarrow> i2c_custom E P periph info pa 1 1 True ALT_E_SUCCESS; tail (src + 1) (n - 1) st })
            cs ((scratch s1)[1 := ?w1])"
          unfolding cs_def Let_def if_P[OF True]
        proof (rule leaving_set, rule leaving_bind[OF em])
          fix s2 :: "'a dma_state"
          assume "bus s2 = bus (s1\<lparr> scratch := (scratch s1)[1 := ?w1] \<rparr>)"
            and "scratch s2 = scratch (s1\<lparr> scratch := (scratch s1)[1 := ?w1] \<rparr>)"
          then show "emits_leaving calls s2 (tail (src + 1) (n - 1) ALT_E_SUCCESS)
              ((if n - 1 > 0 then DMAMOV DAR (I2C_DATA_CMD_ADDR P loc) #
                 to_i2c_calls (opts E) periph ?th (src + 1) (n - 1) else []) @
               (if issue_stop info then ?cmd 2 (n - 1 \<noteq> 0) else [])) ((scratch s1)[1 := ?w1])"
            using tail[of s2 "src + 1" "n - 1"] that by simp
        qed (rule fail)
        then show ?thesis using True by (simp add: first_def)
      next
        case False
        show ?thesis unfolding cs_def first_def Let_def if_not_P[OF False] append_Nil by (rule tail[OF that])
      qed
      have all: "emits_leaving calls s (if issue_stop info then do { _ \<leftarrow> set_scratch 2 ?w2; first } else first) cs
          (i2c_write_words P info src sz (scratch s))"
      proof (cases "issue_stop info")
        case True
        have "emits_leaving calls s (do { _ \<leftarrow> set_scratch 2 ?w2; first }) cs
            (i2c_write_words P info src sz (scratch s))"
          by (rule leaving_set) (use first[of "s\<lparr> scratch := (scratch s)[2 := ?w2] \<rparr>"] True False in
            \<open>simp add: i2c_write_words_def Let_def split: if_splits\<close>)
        then show ?thesis using True by simp
      next
        case f: False
        then show ?thesis using first[of s] False by (simp add: i2c_write_words_def Let_def split: if_splits)
      qed
      have "alt_dma_memory_to_i2c_master (Suc fuel) E P periph info src sz =
          do { r \<leftarrow> (if issue_stop info then do { _ \<leftarrow> set_scratch 2 ?w2; first } else first);
               State_Monad.return (clean_after E info r) }"
        using False \<open>st = ALT_E_SUCCESS\<close>
        by (cases "issue_stop info"; cases "issue_restart info")
          (simp_all add: alt_dma_memory_to_i2c_master_def sp first_def tail_def n_def loc_def Let_def
            cong: option.case_cong if_cong)
      moreover have "i2c_write_calls (opts E) P periph info ?th (snd (scratch_pa E info)) src sz = cs"
        using False by (simp add: i2c_write_calls_def sp loc_def n_def cs_def Let_def)
      ultimately show ?thesis using leaving_clean[OF all, of E info] by simp
    qed
  qed
qed

section \<open>The transfer\<close>

lemma i2c_master_emits:
  assumes "\<not> i2c_is_slave E P (i2c_location info) (bus s)"
    and "\<And>s1. bus s1 = i2c_look E P (i2c_location info) (bus s) \<Longrightarrow> scratch s1 = scratch s \<Longrightarrow>
      emits_leaving calls s1 (alt_dma_memory_to_i2c_master fuel E P periph info buf sz) cs ws"
  shows "emits_leaving calls s (alt_dma_memory_to_i2c fuel E P periph info buf sz) cs ws"
proof -
  let ?s = "s\<lparr> bus := i2c_look E P (i2c_location info) (bus s) \<rparr>"
  have "run_state (alt_dma_memory_to_i2c fuel E P periph info buf sz) s =
      run_state (alt_dma_memory_to_i2c_master fuel E P periph info buf sz) ?s"
    using assms(1) by (simp add: alt_dma_memory_to_i2c_def alt_i2c_op_mode_get_def guarded_opt_def
        on_bus_def bus_simps i2c_is_slave_def i2c_look_def)
  moreover have "emits_leaving calls ?s (alt_dma_memory_to_i2c_master fuel E P periph info buf sz) cs ws"
    by (rule assms(2)) simp_all
  ultimately show ?thesis by (simp add: emits_leaving_def i2c_look_def)
qed

lemma write_calls_perform:
  fixes P :: periph_env and info :: i2c_info
  defines "reg \<equiv> I2C_DATA_CMD_ADDR P (i2c_location info)"
  assumes "ccr_opts_ok opt" and "i2c_cmd_ok P" and "sz \<noteq> 0" and "unat sz < 2 ^ 31"
    and "unat src + unat sz \<le> 2 ^ 32" and "length ws = 4"
  shows "performs_when (\<lambda>m. i2c_machine reg (i2c_burst th) pa (i2c_write_words P info src sz ws) m \<and> sees_ram P src (unat sz) m)
    (i2c_write_calls opt P periph info th pa src sz @ closing wmb send_evt evt)
    (i2c_writes reg (issue_restart info) (issue_stop info) src (unat sz))"
proof (rule performs_when_closing)
  fix m0
  assume m0: "i2c_machine reg (i2c_burst th) pa (i2c_write_words P info src sz ws) m0 \<and> sees_ram P src (unat sz) m0"
  have *: "closed_calls (i2c_write_calls opt P periph info th pa src sz) \<and>
      (\<forall>rs. runs rs (\<lambda>m. m = m0 \<and> mfifo m = []) (i2c_write_calls opt P periph info th pa src sz)
        (i2c_writes reg (issue_restart info) (issue_stop info) src (unat sz) rs m0))"
  proof (cases "sz = 1")
    case True
    then show ?thesis
      using m0 write_one_runs[OF assms(2,3,7), of info th pa src m0] unfolding reg_def by auto
  next
    case False
    have "unat sz \<noteq> 0" "unat sz \<noteq> 1" using False assms(4) by (auto simp: word_unat_eq_iff)
    then have "2 \<le> unat sz" by linarith
    then show ?thesis
      using m0 write_calls_runs[OF assms(2,3) _ assms(5-7), of info th pa m0] unfolding reg_def by auto
  qed
  then show "closed_calls (i2c_write_calls opt P periph info th pa src sz)" by blast
  show "runs rs (\<lambda>m. m = m0 \<and> mfifo m = []) (i2c_write_calls opt P periph info th pa src sz)
      (i2c_writes reg (issue_restart info) (issue_stop info) src (unat sz) rs m0)" for rs using * by blast
qed (simp add: i2c_writes_def)

text \<open>
  C26: \<open>alt_dma_memory_to_periph\<close> of 1 to \<open>2 ^ 31 - 1\<close> bytes, from a buffer inside the address
  space, to an I2C controller in master mode, with the default address translation, always
  returns.  On success it has started a program that, on a machine that holds
  the scratch words the driver left, orders exactly the \<open>size\<close> bytes at \<open>src\<close> in order: the first
  with a restart if asked for, the last with a stop if asked for, and no other command; it changes
  no memory and takes no byte.  On any failure no register is written.
\<close>

theorem memory_to_i2c_master_writes:
  fixes P :: periph_env and info :: periph_info
  defines "i \<equiv> as_i2c info"
  assumes "weak_mmu E" and "assembler E calls" and "ccr_opts_ok (opts E)" and "i2c_cmd_ok P"
    and "n < 4" and "sz \<noteq> 0" and "unat sz < 2 ^ 31" and "unat src + unat sz \<le> 2 ^ 32"
    and "length (scratch s) = 4" and "\<not> i2c_is_slave E P (i2c_location i) (bus s)"
  shows "starts_from E calls channel
    (\<lambda>ws m. i2c_machine (I2C_DATA_CMD_ADDR P (i2c_location i))
        (i2c_burst (i2c_tx_threshold E P (i2c_location i) (i2c_look E P (i2c_location i) (bus s))))
        (snd (scratch_pa E i)) ws m \<and> sees_ram P src (unat sz) m)
    (i2c_writes (I2C_DATA_CMD_ADDR P (i2c_location i)) (issue_restart i) (issue_stop i) src (unat sz)) s
    (run_state (alt_dma_memory_to_periph (Suc fuel) E P channel (ALT_DMA_PERIPH_I2C_TX n) src sz info
       send_evt evt) s)"
  unfolding alt_dma_memory_to_periph_def
proof (rule periph_transfer_starts_from[OF assms(3,7)])
  let ?loc = "i2c_location i"
  let ?th = "i2c_tx_threshold E P ?loc (i2c_look E P ?loc (bus s))"
  let ?cs = "i2c_write_calls (opts E) P (ALT_DMA_PERIPH_I2C_TX n) i ?th (snd (scratch_pa E i)) src sz"
  show "performs_when (\<lambda>m. i2c_machine (I2C_DATA_CMD_ADDR P ?loc) (i2c_burst ?th) (snd (scratch_pa E i))
        (i2c_write_words P i src sz (scratch s)) m \<and> sees_ram P src (unat sz) m)
      (?cs @ closing False send_evt evt)
      (i2c_writes (I2C_DATA_CMD_ADDR P ?loc) (issue_restart i) (issue_stop i) src (unat sz))"
    by (rule write_calls_perform[OF assms(4,5,7-10)])
  fix s1 :: "'a dma_state"
  assume s1: "bus s1 = bus s" "scratch s1 = scratch s"
  have "emits_leaving calls s1 (alt_dma_memory_to_i2c (Suc fuel) E P (ALT_DMA_PERIPH_I2C_TX n) i src sz) ?cs
      (i2c_write_words P i src sz (scratch s))"
  proof (rule i2c_master_emits)
    show "\<not> i2c_is_slave E P ?loc (bus s1)" using assms(11) unfolding s1 .
    fix s2 :: "'a dma_state"
    assume "bus s2 = i2c_look E P ?loc (bus s1)" "scratch s2 = scratch s1"
    then show "emits_leaving calls s2 (alt_dma_memory_to_i2c_master (Suc fuel) E P (ALT_DMA_PERIPH_I2C_TX n) i src sz) ?cs
        (i2c_write_words P i src sz (scratch s))"
      using memory_to_i2c_master_emits[OF assms(2,3,7), of s2 fuel P "ALT_DMA_PERIPH_I2C_TX n" i src]
      unfolding s1 by simp
  qed
  then show "emits_leaving calls s1 (to_periph (Suc fuel) E P (ALT_DMA_PERIPH_I2C_TX n) info src sz) ?cs
      (i2c_write_words P i src sz (scratch s))"
    using assms(6) by (simp add: to_periph_def i_def)
qed

text \<open>The demonstration controller as a master.\<close>

definition demo_master :: periph_env where
  "demo_master = demo_slave\<lparr> ram := (\<lambda>a. ucast a), I2C_CON_MST_MOD_GET := (\<lambda>v. 1) \<rparr>"

definition demo_master_state :: "dma_call list dma_state" where
  "demo_master_state = dma_demo_state\<lparr> scratch := [0, 0, 0, 0] \<rparr>"

lemma demo_master_simps:
  "\<not> i2c_is_slave demo_dma demo_master loc h"
  "i2c_burst (i2c_tx_threshold demo_dma demo_master loc h) = 8"
  "i2c_burst (i2c_rx_threshold demo_dma demo_master loc h) = 8"
  "I2C_DATA_CMD_ADDR demo_master (i2c_location (as_i2c demo_info)) = 0xffc04010"
  "scratch_pa demo_dma (as_i2c demo_info) = (ALT_E_SUCCESS, 0x100)"
  "clean_scratch demo_dma info = ALT_E_SUCCESS"
  "issue_restart (as_i2c demo_info)" "issue_stop (as_i2c demo_info)"
  "i2c_cmd_ok demo_master"
  by (simp_all add: i2c_is_slave_def demo_master_def demo_slave_def demo_periph_def demo_dma_def i2c_burst_def
      i2c_tx_threshold_def i2c_rx_threshold_def demo_info_def scratch_pa_def alt_mmu_va_to_pa_def clean_scratch_def
      alt_cache_system_clean_def i2c_cmd_ok_def Let_def)

lemma demo_custom:
  "run_state (i2c_custom demo_dma P periph info pa k n f ALT_E_SUCCESS) s =
    (ALT_E_SUCCESS, s\<lparr> program := program s @ i2c_custom_calls demo_opts P periph (i2c_location info) (pa + 4 * k) n f \<rparr>)"
  by (simp add: i2c_custom_def guarded_def demo_emit_all demo_opts_eq)

lemma demo_master_run:
  assumes "\<not> (src + 1) + (sz - 2) - 1 < src + 1" and "2 < sz" and "channel_info s ! 2 = 1"
  shows "\<exists>s2. run_state (alt_dma_memory_to_i2c (Suc 0) demo_dma demo_master periph (as_i2c demo_info) src sz) s =
      (Some ALT_E_SUCCESS, s2) \<and> channel_info s2 ! 2 = 1"
proof -
  have "sz \<noteq> 1" "sz - 2 \<noteq> 0" "0 < sz - 2" using assms(2) by (auto simp: word_gt_0)
  then show ?thesis
    using assms demo_master_simps(1)[of "i2c_location (as_i2c demo_info)" "bus s"]
    by (simp add: alt_dma_memory_to_i2c_def alt_i2c_op_mode_get_def guarded_opt_def alt_dma_memory_to_i2c_master_def
        alt_dma_memory_to_i2c_common_def demo_emit demo_custom on_bus_def bus_simps Let_def set_scratch_def clean_after_def
        demo_over_segments i2c_is_slave_def demo_master_simps(5-8) del: emit_all.simps)
qed

text \<open>A machine that holds any four words where the scratch space of the demonstration is.\<close>

definition demo_machine :: "u32 list \<Rightarrow> pl330" where
  "demo_machine ws = \<lparr> sar = 0, dar = 0, ccr = 0, mfifo = [],
     memory = (\<lambda>a. if 0x100 \<le> a \<and> a < 0x110 then bytes32 (ws ! ((a - 0x100) div 4)) ! ((a - 0x100) mod 4) else of_nat a),
     reg_in = 0, reg_out = [], accesses = [], cells = {0x100..<0x110}, per_beat = True, room = (\<lambda>k. 16),
     request = None, credit = 0 \<rparr>"

lemma demo_machine: "i2c_machine 0xffc04010 8 0x100 ws (demo_machine ws)"
proof -
  have "word_pa 0x100 k \<in> cells (demo_machine ws) \<and>
      bytes_at (memory (demo_machine ws)) (word_pa 0x100 k) 4 = bytes32 (ws ! k)" if "k < 4" for k
  proof -
    have w: "word_pa 0x100 k = 0x100 + 4 * k" using that by (simp add: word_pa_def unat_word_ariths unat_of_nat)
    have "bytes_at (memory (demo_machine ws)) (0x100 + 4 * k) 4 = bytes32 (ws ! k)"
      by (rule nth_equalityI) (use that in \<open>simp_all add: demo_machine_def bytes32_def\<close>)
    then show ?thesis using that by (simp add: w demo_machine_def)
  qed
  then show ?thesis by (simp add: i2c_machine_def grants_def is_device_def) (simp add: demo_machine_def)
qed

lemma demo_machine_ram: "sees_ram demo_master 0x1001 77 (demo_machine ws)"
  unfolding sees_ram_def
proof (intro allI impI)
  fix i :: nat
  assume i: "i < 77"
  have "ucast (of_nat (0x1001 + i) :: u32) = (of_nat (0x1001 + i) :: byte)"
    unfolding unsigned_of_nat using i by (simp add: take_bit_nat_eq_self)
  then show "memory (demo_machine ws) (unat (0x1001 :: u32) + i) = ram demo_master (0x1001 + of_nat i)"
    by (simp add: demo_machine_def demo_master_def)
qed

theorem memory_to_i2c_master_writes_witness:
  "case run_state (alt_dma_memory_to_periph (Suc 0) demo_dma demo_master 2 (ALT_DMA_PERIPH_I2C_TX 1) 0x1001 77
       demo_info True 1) demo_master_state of
     (r, s') \<Rightarrow> r = Some ALT_E_SUCCESS \<and>
       performs_when (\<lambda>m. i2c_machine 0xffc04010 8 0x100 (scratch s') m \<and> sees_ram demo_master 0x1001 77 m)
         (program s') (i2c_writes 0xffc04010 True True 0x1001 77) \<and>
       (\<exists>m. i2c_machine 0xffc04010 8 0x100 (scratch s') m \<and> sees_ram demo_master 0x1001 77 m)"
proof -
  have "channel_info (demo_master_state\<lparr> program := [] \<rparr>) ! 2 = 1"
    by (simp add: demo_master_state_def dma_demo_state_def)
  from demo_master_run[OF _ _ this, of "0x1001" 77 "ALT_DMA_PERIPH_I2C_TX 1"] obtain s2
    where "run_state (alt_dma_memory_to_i2c (Suc 0) demo_dma demo_master (ALT_DMA_PERIPH_I2C_TX 1) (as_i2c demo_info)
      0x1001 77) (demo_master_state\<lparr> program := [] \<rparr>) = (Some ALT_E_SUCCESS, s2)" "channel_info s2 ! 2 = 1" by auto
  from demo_periph_success[OF this] have "fst (run_state (alt_dma_memory_to_periph (Suc 0) demo_dma demo_master 2
      (ALT_DMA_PERIPH_I2C_TX 1) 0x1001 77 demo_info True 1) demo_master_state) = Some ALT_E_SUCCESS"
    by (simp add: alt_dma_memory_to_periph_def to_periph_def)
  moreover have "length (scratch demo_master_state) = 4" by (simp add: demo_master_state_def)
  ultimately show ?thesis
    using memory_to_i2c_master_writes[OF demo_ok demo_master_simps(9), of 1 77 "0x1001" demo_master_state demo_info 2 0 True 1]
    by (auto simp: starts_from_def demo_master_simps split: prod.splits intro!: demo_machine demo_machine_ram exI[of _ "demo_machine _"])
qed

end
