(* ===== verification/Dma_I2c_Read.thy ===== *)
theory Dma_I2c_Read
  imports Dma_I2c_Master
begin

text \<open>
  The read of an I2C master: the orders that fill the FIFO, and the rounds that take half a FIFO of
  bytes and order as many again, until every byte is ordered and taken.
\<close>

section \<open>A master's read\<close>

text \<open>The commands of the start, of a round, and the rounds.\<close>

definition i2c_prefill_calls ::
  "ccr_opts \<Rightarrow> periph_env \<Rightarrow> dma_periph \<Rightarrow> addr \<Rightarrow> u32 \<Rightarrow> u32 \<Rightarrow> u32 \<Rightarrow> dma_call list" where
  "i2c_prefill_calls opt P tx loc pa cnt tx_left =
     (let cmd = (\<lambda>k. i2c_custom_calls opt P tx loc (pa + 4 * k))
      in if cnt = 1 then cmd 3 1 True
         else if tx_left = 0
         then cmd 1 1 True @ (if cnt > 2 then cmd 0 (cnt - 2) False else []) @ cmd 2 1 False
         else cmd 1 1 True @ cmd 0 (cnt - 1) False)"

definition i2c_refill_calls ::
  "ccr_opts \<Rightarrow> periph_env \<Rightarrow> dma_periph \<Rightarrow> addr \<Rightarrow> u32 \<Rightarrow> u32 \<Rightarrow> u32 \<Rightarrow> dma_call list" where
  "i2c_refill_calls opt P tx loc pa half tx_left =
     (let cmd = (\<lambda>k. i2c_custom_calls opt P tx loc (pa + 4 * k)); cnt = ALT_MIN tx_left half
      in if tx_left = 0 then []
         else if tx_left - cnt = 0 then cmd 0 (cnt - 1) True @ cmd 2 1 False
         else cmd 0 cnt True)"

fun i2c_round_calls ::
  "nat \<Rightarrow> ccr_opts \<Rightarrow> periph_env \<Rightarrow> dma_periph \<Rightarrow> dma_periph \<Rightarrow> addr \<Rightarrow> byte \<Rightarrow> u32 \<Rightarrow> u32 \<Rightarrow> u32 \<Rightarrow> u32 \<Rightarrow>
   u32 \<Rightarrow> dma_call list" where
  "i2c_round_calls 0 opt P rx tx loc th pa half dst rx_left tx_left = []"
| "i2c_round_calls (Suc f) opt P rx tx loc th pa half dst rx_left tx_left =
     (if rx_left = 0 then []
      else let cnt = ALT_MIN rx_left half
           in (DMAMOV SAR (I2C_DATA_CMD_ADDR P loc) # from_i2c_calls opt rx th dst cnt) @
              i2c_refill_calls opt P tx loc pa half tx_left @
              i2c_round_calls f opt P rx tx loc th pa half (dst + cnt) (rx_left - cnt)
                (tx_left - (if tx_left = 0 then 0 else ALT_MIN tx_left half)))"

lemma emits_at_round:
  assumes "emits_at calls s m cs" and "emits calls (g ALT_E_SUCCESS) ds"
    and "\<And>st. st \<noteq> ALT_E_SUCCESS \<Longrightarrow> g st = State_Monad.return st"
    and "\<And>s1. emits_at calls s1 (h ALT_E_SUCCESS) es"
    and "\<And>st. st \<noteq> ALT_E_SUCCESS \<Longrightarrow> h st = State_Monad.return (Some st)"
  shows "emits_at calls s (do { r \<leftarrow> m;
      (case r of None \<Rightarrow> State_Monad.return None | Some st \<Rightarrow> do { st \<leftarrow> g st; h st }) }) (cs @ ds @ es)"
proof -
  from assms(1) obtain st s1 where r: "run_state m s = (Some st, s1)" "writes (bus s1) = writes (bus s)"
    "scratch s1 = scratch s" "st = ALT_E_SUCCESS \<Longrightarrow> calls (program s1) = calls (program s) @ cs"
    unfolding emits_at_def by blast
  show ?thesis
  proof (cases "st = ALT_E_SUCCESS")
    case True
    obtain st2 s2 where g: "run_state (g st) s1 = (st2, s2)" by force
    with assms(2) True have g2: "bus s2 = bus s1" "scratch s2 = scratch s1"
      "st2 = ALT_E_SUCCESS \<Longrightarrow> calls (program s2) = calls (program s1) @ ds" unfolding emits_def by blast+
    show ?thesis
    proof (cases "st2 = ALT_E_SUCCESS")
      case True
      with assms(4)[of s2] r g g2 \<open>st = ALT_E_SUCCESS\<close> show ?thesis by (auto simp: emits_at_def)
    next
      case False
      with assms(5)[OF False] r g g2 \<open>st = ALT_E_SUCCESS\<close> show ?thesis by (auto simp: emits_at_def)
    qed
  next
    case False
    then show ?thesis using r assms(3,5)[OF False] by (simp add: emits_at_def)
  qed
qed

lemma emits_at_eq: "emits_at calls s m cs \<Longrightarrow> cs' = cs \<Longrightarrow> emits_at calls s m cs'"
  by simp

definition refill_status ::
  "('p, 'c) dma_env \<Rightarrow> periph_env \<Rightarrow> dma_periph \<Rightarrow> i2c_info \<Rightarrow> u32 \<Rightarrow> u32 \<Rightarrow> u32 \<Rightarrow> status \<Rightarrow> ('p, status) dma" where
  "refill_status E P tx info pa half tx_left status =
     (let cnt = ALT_MIN tx_left half
      in if tx_left = 0 then State_Monad.return status
         else if tx_left - cnt = 0
         then do { status \<leftarrow> i2c_custom E P tx info pa 0 (cnt - 1) True status;
                   i2c_custom E P tx info pa 2 1 False status }
         else i2c_custom E P tx info pa 0 cnt True status)"

lemma i2c_refill_eq:
  "i2c_refill E P tx info pa half tx_left status =
     do { status \<leftarrow> refill_status E P tx info pa half tx_left status;
          State_Monad.return (status, tx_left - (if tx_left = 0 then 0 else ALT_MIN tx_left half)) }"
  by (auto simp: i2c_refill_def refill_status_def Let_def word_gt_0 State_Monad.bind_def State_Monad.return_def
      fun_eq_iff split: prod.splits)

lemma refill_emits:
  assumes "assembler E calls"
  shows "emits calls (refill_status E P tx info pa half tx_left ALT_E_SUCCESS)
    (i2c_refill_calls (opts E) P tx (i2c_location info) pa half tx_left)"
proof -
  note em = i2c_custom_emits[OF assms]
  have "emits calls (do { st \<leftarrow> i2c_custom E P tx info pa 0 c True ALT_E_SUCCESS;
      i2c_custom E P tx info pa 2 1 False st })
      (i2c_custom_calls (opts E) P tx (i2c_location info) (pa + 4 * 0) c True @
       i2c_custom_calls (opts E) P tx (i2c_location info) (pa + 4 * 2) 1 False)" for c
    by (rule emits_bind[OF em em]) simp
  then show ?thesis
    using em[of P tx info pa 0 "ALT_MIN tx_left half" True ALT_E_SUCCESS]
    by (auto simp: refill_status_def i2c_refill_calls_def Let_def)
qed

lemma refill_fails: "st \<noteq> ALT_E_SUCCESS \<Longrightarrow> refill_status E P tx info pa half tx_left st = State_Monad.return st"
  by (simp add: refill_status_def Let_def)

lemma read_loop_emits:
  fixes P :: periph_env and info :: i2c_info
  defines "loc \<equiv> i2c_location info"
  assumes "weak_mmu E" and "assembler E calls" and "half \<noteq> 0" and "\<And>h. i2c_rx_threshold E P loc h = th"
  shows "unat rx_left < f \<Longrightarrow>
    emits_at calls s (i2c_read_loop f E P rx tx info pa half dst rx_left tx_left ALT_E_SUCCESS)
      (i2c_round_calls f (opts E) P rx tx loc th pa half dst rx_left tx_left)"
proof (induction f arbitrary: s dst rx_left tx_left)
  case (Suc f)
  show ?case
  proof (cases "rx_left = 0")
    case True
    then show ?thesis by (subst i2c_read_loop.simps) (simp add: emits_at_def)
  next
    case False
    let ?c = "ALT_MIN rx_left half"
    let ?t = "tx_left - (if tx_left = 0 then 0 else ALT_MIN tx_left half)"
    have c: "?c \<noteq> 0" using False assms(4) by (auto simp: ALT_MIN_def)
    have "?c \<le> rx_left" by (rule ALT_MIN_le)
    then have "unat (rx_left - ?c) < unat rx_left"
      using c unat_gt_0[of ?c] by (simp add: unat_minus_le word_le_nat_alt)
    then have less: "unat (rx_left - ?c) < f" using Suc.prems by simp
    have "f \<noteq> 0" using Suc.prems False unat_gt_0[of rx_left] by simp
    then obtain f' where f: "f = Suc f'" by (cases f) auto
    have m: "emits_at calls s (alt_dma_i2c_to_memory_common f E P rx loc dst ?c)
        (DMAMOV SAR (I2C_DATA_CMD_ADDR P loc) # from_i2c_calls (opts E) rx th dst ?c)"
      using i2c_to_memory_common_emits[OF assms(2,3) c, of s f' P rx loc dst] unfolding assms(5) f .
    have l: "i2c_read_loop (Suc f) E P rx tx info pa half dst rx_left tx_left ALT_E_SUCCESS =
        do { r \<leftarrow> alt_dma_i2c_to_memory_common f E P rx loc dst ?c;
             (case r of None \<Rightarrow> State_Monad.return None
              | Some st \<Rightarrow> do { st \<leftarrow> refill_status E P tx info pa half tx_left st;
                  i2c_read_loop f E P rx tx info pa half (dst + ?c) (rx_left - ?c) ?t st }) }"
      using False by (subst i2c_read_loop.simps) (simp add: Let_def i2c_refill_eq loc_def cong: option.case_cong)
    show ?thesis
      unfolding l
    proof (rule emits_at_eq)
      show "emits_at calls s (do { r \<leftarrow> alt_dma_i2c_to_memory_common f E P rx loc dst ?c;
             (case r of None \<Rightarrow> State_Monad.return None
              | Some st \<Rightarrow> do { st \<leftarrow> refill_status E P tx info pa half tx_left st;
                  i2c_read_loop f E P rx tx info pa half (dst + ?c) (rx_left - ?c) ?t st }) })
        ((DMAMOV SAR (I2C_DATA_CMD_ADDR P loc) # from_i2c_calls (opts E) rx th dst ?c) @
         i2c_refill_calls (opts E) P tx loc pa half tx_left @
         i2c_round_calls f (opts E) P rx tx loc th pa half (dst + ?c) (rx_left - ?c) ?t)"
        unfolding loc_def
        by (rule emits_at_round[where g = "refill_status E P tx info pa half tx_left"
            and h = "i2c_read_loop f E P rx tx info pa half (dst + ?c) (rx_left - ?c) ?t",
            OF m[unfolded loc_def] refill_emits[OF assms(3)] refill_fails Suc.IH[OF less, unfolded loc_def]])
          (assumption, subst i2c_read_loop.simps, simp add: f)
    qed (use False in \<open>simp add: Let_def\<close>)
  qed
qed simp

text \<open>
  \<open>reading\<close>: of \<open>n\<close> bytes \<open>rx\<close> are still to be taken and \<open>tx\<close> still to be ordered; the orders so far
  are the first of those for \<open>n\<close> bytes, paced by the FIFO.
\<close>

definition read_op :: "bool \<Rightarrow> bool \<Rightarrow> nat \<Rightarrow> nat \<Rightarrow> i2c_op" where
  "read_op r t n j = I2c_Read (r \<and> j = 0) (t \<and> j + 1 = n)"

lemma read_ops_map: "read_ops r t n = map (read_op r t n) [0..<n]"
  by (simp add: read_ops_def read_op_def)

definition reading ::
  "pl330 \<Rightarrow> mem \<Rightarrow> nat \<Rightarrow> u32 \<Rightarrow> bool \<Rightarrow> bool \<Rightarrow> nat \<Rightarrow> nat \<Rightarrow> nat \<Rightarrow> nat \<Rightarrow> pl330 \<Rightarrow> bool" where
  "reading m0 rs d reg r t fifo n rx tx m \<longleftrightarrow> tx \<le> rx \<and> rx \<le> n \<and>
     (\<exists>acc. i2c_at m0 rs d acc (n - rx) m \<and> all_at (unat reg) acc \<and>
        commands acc = map (read_op r t n) [0..<n - tx] \<and> outstanding 0 acc = rx - tx \<and> paced fifo 0 acc)"

definition i2c_read_words :: "periph_env \<Rightarrow> i2c_info \<Rightarrow> u32 list" where
  "i2c_read_words P info =
     [i2c_read P False False, i2c_read P (issue_restart info) False, i2c_read P False (issue_stop info),
      i2c_read P (issue_restart info) (issue_stop info)]"

lemma take_runs:
  assumes "ccr_opts_ok opt" and "unat c < 2 ^ 31" and "grants (i2c_burst th) m0" and "is_device reg m0"
    and "unat pa = d + (n - rx)" and "unat c \<le> rx - tx"
  shows "closed_calls (DMAMOV SAR reg # from_i2c_calls opt periph th pa c)"
    and "runs rs (reading m0 rs d reg r t fifo n rx tx) (DMAMOV SAR reg # from_i2c_calls opt periph th pa c)
      (reading m0 rs d reg r t fifo n (rx - unat c) tx)"
proof -
  have dev: "unat reg \<notin> cells m0" using assms(4) by (simp add: is_device_def)
  note R = plain_read_runs[OF assms(1-3) dev assms(5), where periph = periph]
  show "closed_calls (DMAMOV SAR reg # from_i2c_calls opt periph th pa c)" by (rule R(1))
  show "runs rs (reading m0 rs d reg r t fifo n rx tx) (DMAMOV SAR reg # from_i2c_calls opt periph th pa c)
      (reading m0 rs d reg r t fifo n (rx - unat c) tx)"
    unfolding runs_def
  proof (intro allI impI)
    fix m
    assume "reading m0 rs d reg r t fifo n rx tx m"
    then obtain acc where acc: "tx \<le> rx" "rx \<le> n" "i2c_at m0 rs d acc (n - rx) m" "all_at (unat reg) acc"
      "commands acc = map (read_op r t n) [0..<n - tx]" "outstanding 0 acc = rx - tx" "paced fifo 0 acc"
      unfolding reading_def by blast
    from R(2)[where rs = rs and acc = acc] acc(3) obtain m' where m': "run_program rs (DMAMOV SAR reg # from_i2c_calls opt periph th pa c) m = Some m'"
      "i2c_at m0 rs d (acc @ replicate (unat c) (Get (unat reg) 1)) (n - rx + unat c) m'"
      unfolding runs_def by blast
    have "n - rx + unat c = n - (rx - unat c)" "rx - unat c - tx = rx - tx - unat c" "tx \<le> rx - unat c"
      using acc(1,2) assms(6) by simp_all
    then have "reading m0 rs d reg r t fifo n (rx - unat c) tx m'"
      using m'(2) acc assms(6) unfolding reading_def
      by (intro conjI exI[of _ "acc @ replicate (unat c) (Get (unat reg) 1)"]) simp_all
    with m'(1) show "\<exists>m'. run_program rs (DMAMOV SAR reg # from_i2c_calls opt periph th pa c) m = Some m' \<and>
        reading m0 rs d reg r t fifo n (rx - unat c) tx m'" by blast
  qed
qed

lemma order_runs:
  assumes "ccr_opts_ok opt" and "i2c_machine reg burst pa ws m0" and "untouched m0 rs d (n - rx) pa"
    and "k < 4" and "pk = pa + 4 * of_nat k" and "reg = I2C_DATA_CMD_ADDR P loc"
    and "\<And>j. n - tx \<le> j \<Longrightarrow> j < n - tx + unat c \<Longrightarrow> command_of (bytes32 (ws ! k)) = read_op r t n j"
    and "unat c \<le> tx" and "rx - tx + unat c \<le> fifo"
  shows "closed_calls (i2c_custom_calls opt P periph loc pk c first)"
    and "runs rs (\<lambda>m. reading m0 rs d reg r t fifo n rx tx m \<and> (\<not> first \<longrightarrow> set_for opt reg m))
      (i2c_custom_calls opt P periph loc pk c first)
      (\<lambda>m. reading m0 rs d reg r t fifo n rx (tx - unat c) m \<and> set_for opt reg m)"
proof -
  note R = word_runs[OF assms(1-6)]
  show "closed_calls (i2c_custom_calls opt P periph loc pk c first)" by (rule R(1))
  show "runs rs (\<lambda>m. reading m0 rs d reg r t fifo n rx tx m \<and> (\<not> first \<longrightarrow> set_for opt reg m))
      (i2c_custom_calls opt P periph loc pk c first)
      (\<lambda>m. reading m0 rs d reg r t fifo n rx (tx - unat c) m \<and> set_for opt reg m)"
    unfolding runs_def
  proof (intro allI impI, elim conjE)
    fix m
    assume I: "reading m0 rs d reg r t fifo n rx tx m" and f: "\<not> first \<longrightarrow> set_for opt reg m"
    from I obtain acc where acc: "tx \<le> rx" "rx \<le> n" "i2c_at m0 rs d acc (n - rx) m" "all_at (unat reg) acc"
      "commands acc = map (read_op r t n) [0..<n - tx]" "outstanding 0 acc = rx - tx" "paced fifo 0 acc"
      unfolding reading_def by blast
    let ?acc = "acc @ replicate (unat c) (Put (unat reg) (bytes32 (ws ! k)))"
    from R(2)[where acc = acc and periph = periph and n = c and first = first] acc(3) f obtain m'
      where m': "run_program rs (i2c_custom_calls opt P periph loc pk c first) m = Some m'"
      "i2c_at m0 rs d ?acc (n - rx) m'" "set_for opt reg m'"
      unfolding runs_def by blast
    have "n - (tx - unat c) = n - tx + unat c" using acc(1,2) assms(8) by simp
    moreover have "map (read_op r t n) [n - tx..<n - tx + unat c] = replicate (unat c) (command_of (bytes32 (ws ! k)))"
      by (rule nth_equalityI) (simp_all add: assms(7) [symmetric])
    ultimately have "commands ?acc = map (read_op r t n) [0..<n - (tx - unat c)]"
      using acc(5) by (simp add: upt_add_eq_append[of 0])
    moreover have "outstanding 0 ?acc = rx - (tx - unat c)" using acc(1,6) assms(8) by simp
    moreover have "paced fifo 0 ?acc" using acc(6,7) assms(9) by simp
    ultimately have "reading m0 rs d reg r t fifo n rx (tx - unat c) m'"
      using m'(2) acc(1,2,4) unfolding reading_def by (intro conjI exI[of _ ?acc]) simp_all
    with m' show "\<exists>m'. run_program rs (i2c_custom_calls opt P periph loc pk c first) m = Some m' \<and>
        reading m0 rs d reg r t fifo n rx (tx - unat c) m' \<and> set_for opt reg m'" by blast
  qed
qed

abbreviation word_cmd where
  "word_cmd opt P periph info pa k c first \<equiv> i2c_custom_calls opt P periph (i2c_location info) (pa + 4 * k) c first"

lemma read_words:
  assumes "i2c_cmd_ok P"
  shows "command_of (bytes32 (i2c_read_words P info ! 0)) = I2c_Read False False"
    "command_of (bytes32 (i2c_read_words P info ! 1)) = I2c_Read (issue_restart info) False"
    "command_of (bytes32 (i2c_read_words P info ! 2)) = I2c_Read False (issue_stop info)"
    "command_of (bytes32 (i2c_read_words P info ! 3)) = I2c_Read (issue_restart info) (issue_stop info)"
  by (simp_all add: i2c_read_words_def command_of_read[OF assms])

text \<open>The orders of one word, for each of the four words.\<close>


lemma middle_runs:
  fixes P :: periph_env and info :: i2c_info
  defines "reg \<equiv> I2C_DATA_CMD_ADDR P (i2c_location info)" and "r \<equiv> issue_restart info" and "t \<equiv> issue_stop info"
  assumes "ccr_opts_ok opt" and "i2c_cmd_ok P" and "i2c_machine reg burst pa (i2c_read_words P info) m0"
    and "untouched m0 rs d (n - rx) pa" and "unat c \<le> tx" and "rx - tx + unat c \<le> fifo" and "tx < n"
    and "unat c < tx \<or> \<not> t"
  shows "closed_calls (word_cmd opt P periph info pa 0 c first)"
    and "runs rs (\<lambda>m. reading m0 rs d reg r t fifo n rx tx m \<and> (\<not> first \<longrightarrow> set_for opt reg m))
      (word_cmd opt P periph info pa 0 c first)
      (\<lambda>m. reading m0 rs d reg r t fifo n rx (tx - unat c) m \<and> set_for opt reg m)"
proof -
  have "command_of (bytes32 (i2c_read_words P info ! 0)) = read_op r t n j"
    if "n - tx \<le> j" "j < n - tx + unat c" for j
    using that assms(8,10,11) by (auto simp: read_words(1)[OF assms(5)] read_op_def)
  note R = order_runs[where k = 0, OF assms(4,6,7) _ _ meta_eq_to_obj_eq[OF assms(1)] this assms(8,9), where pk = "pa + 4 * 0", simplified]
  show "closed_calls (word_cmd opt P periph info pa 0 c first)" using R(1) by simp
  show "runs rs (\<lambda>m. reading m0 rs d reg r t fifo n rx tx m \<and> (\<not> first \<longrightarrow> set_for opt reg m))
      (word_cmd opt P periph info pa 0 c first)
      (\<lambda>m. reading m0 rs d reg r t fifo n rx (tx - unat c) m \<and> set_for opt reg m)" using R(2) by simp
qed

lemma end_runs:
  fixes P :: periph_env and info :: i2c_info
  defines "reg \<equiv> I2C_DATA_CMD_ADDR P (i2c_location info)" and "r \<equiv> issue_restart info" and "t \<equiv> issue_stop info"
  assumes "ccr_opts_ok opt" and "i2c_cmd_ok P" and "i2c_machine reg burst pa (i2c_read_words P info) m0"
    and "untouched m0 rs d (n - rx) pa" and "rx - tx + 1 \<le> fifo" and "0 < tx" and "tx \<le> n"
    and "k < 4" and "k \<noteq> 0" and "tx = n \<longleftrightarrow> k = 1 \<or> k = 3" and "tx = 1 \<longleftrightarrow> k = 2 \<or> k = 3" and "kw = of_nat k"
  shows "closed_calls (word_cmd opt P periph info pa kw 1 first)"
    and "runs rs (\<lambda>m. reading m0 rs d reg r t fifo n rx tx m \<and> (\<not> first \<longrightarrow> set_for opt reg m))
      (word_cmd opt P periph info pa kw 1 first)
      (\<lambda>m. reading m0 rs d reg r t fifo n rx (tx - 1) m \<and> set_for opt reg m)"
proof -
  have "k = 1 \<or> k = 2 \<or> k = 3" using assms(11,12) by linarith
  then have "command_of (bytes32 (i2c_read_words P info ! k)) = read_op r t n j"
    if "n - tx \<le> j" "j < n - tx + unat (1 :: u32)" for j
    using that assms(9,10,13,14) by (auto simp: read_words[OF assms(5), unfolded One_nat_def] read_op_def r_def t_def)
  note R = order_runs[where k = k and c = 1, OF assms(4,6,7,11) _ meta_eq_to_obj_eq[OF assms(1)] this, where pk = "pa + 4 * kw"]
  show "closed_calls (word_cmd opt P periph info pa kw 1 first)" using R(1) assms(8,9,15) by simp
  show "runs rs (\<lambda>m. reading m0 rs d reg r t fifo n rx tx m \<and> (\<not> first \<longrightarrow> set_for opt reg m))
      (word_cmd opt P periph info pa kw 1 first)
      (\<lambda>m. reading m0 rs d reg r t fifo n rx (tx - 1) m \<and> set_for opt reg m)"
    using R(2)[where first = first and periph = periph] assms(8,9,15) by simp
qed

lemma runs_conjunct: "runs rs I cs (\<lambda>m. A m \<and> B m) \<Longrightarrow> runs rs I cs A"
  unfolding runs_def by blast

lemma refill_runs:
  fixes P :: periph_env and info :: i2c_info
  defines "reg \<equiv> I2C_DATA_CMD_ADDR P (i2c_location info)" and "r \<equiv> issue_restart info" and "t \<equiv> issue_stop info"
  assumes "ccr_opts_ok opt" and "i2c_cmd_ok P" and "i2c_machine reg burst pa (i2c_read_words P info) m0"
    and "untouched m0 rs d (n - rx) pa" and "unat tx < n" and "rx - unat tx + unat half \<le> fifo" and "half \<noteq> 0"
  shows "closed_calls (i2c_refill_calls opt P periph (i2c_location info) pa half tx)"
    and "runs rs (reading m0 rs d reg r t fifo n rx (unat tx))
      (i2c_refill_calls opt P periph (i2c_location info) pa half tx)
      (reading m0 rs d reg r t fifo n rx (unat (tx - (if tx = 0 then 0 else ALT_MIN tx half))))"
proof -
  let ?c = "ALT_MIN tx half"
  let ?R = "reading m0 rs d reg r t fifo n rx"
  note M = middle_runs[OF assms(4,5,6)[unfolded reg_def] assms(7), where periph = periph, folded reg_def r_def t_def]
  note L = end_runs[OF assms(4,5,6)[unfolded reg_def] assms(7), where periph = periph and k = 2 and kw = 2 and first = False,
      folded reg_def r_def t_def]
  have "closed_calls (i2c_refill_calls opt P periph (i2c_location info) pa half tx) \<and>
      runs rs (?R (unat tx)) (i2c_refill_calls opt P periph (i2c_location info) pa half tx)
        (?R (unat (tx - (if tx = 0 then 0 else ?c))))"
  proof (cases "tx = 0")
    case True
    then show ?thesis by (simp add: i2c_refill_calls_def Let_def)
  next
    case tx: False
    have c: "?c \<noteq> 0" "unat ?c \<le> unat tx" "unat ?c \<le> unat half"
      using tx assms(10) by (auto simp: ALT_MIN_def word_le_nat_alt word_less_nat_alt)
    have t1: "unat (tx - ?c) = unat tx - unat ?c" using c(2) by (simp add: unat_sub word_le_nat_alt)
    show ?thesis
    proof (cases "tx - ?c = 0")
      case True
      then have e: "?c = tx" by simp
      have p: "0 < unat tx" "unat tx \<le> unat half" using c(3) tx unfolding e by (simp_all add: unat_gt_0)
      then have m1: "unat (tx - 1) = unat tx - 1" using unat_sub[of 1 tx] by (simp add: word_le_nat_alt)
      note A = M[where c = "tx - 1" and first = True and tx = "unat tx" and fifo = fifo]
      note B = L[where tx = 1 and fifo = fifo]
      have "closed_calls (word_cmd opt P periph info pa 0 (tx - 1) True)"
        "runs rs (\<lambda>m. ?R (unat tx) m \<and> (\<not> True \<longrightarrow> set_for opt reg m)) (word_cmd opt P periph info pa 0 (tx - 1) True)
          (\<lambda>m. ?R 1 m \<and> (\<not> False \<longrightarrow> set_for opt reg m))"
        using A m1 p assms(8,9) c(3) unfolding e by simp_all
      moreover have "closed_calls (word_cmd opt P periph info pa 2 1 False)"
        "runs rs (\<lambda>m. ?R 1 m \<and> (\<not> False \<longrightarrow> set_for opt reg m)) (word_cmd opt P periph info pa 2 1 False) (?R 0)"
        using B(1) runs_conjunct[OF B(2)] p assms(8,9) by simp_all
      ultimately have "closed_calls (word_cmd opt P periph info pa 0 (tx - 1) True @ word_cmd opt P periph info pa 2 1 False)"
        "runs rs (\<lambda>m. ?R (unat tx) m \<and> (\<not> True \<longrightarrow> set_for opt reg m))
          (word_cmd opt P periph info pa 0 (tx - 1) True @ word_cmd opt P periph info pa 2 1 False) (?R 0)"
        by (blast intro: closed_append, blast intro: runs_append)
      then show ?thesis using tx e by (simp add: i2c_refill_calls_def Let_def)
    next
      case False
      then have less: "unat ?c < unat tx" using t1 by (metis unat_eq_0 zero_less_diff not_gr_zero)
      note A = M[where c = ?c and first = True and tx = "unat tx" and fifo = fifo]
      have "closed_calls (word_cmd opt P periph info pa 0 ?c True)"
        "runs rs (\<lambda>m. ?R (unat tx) m \<and> (\<not> True \<longrightarrow> set_for opt reg m)) (word_cmd opt P periph info pa 0 ?c True)
          (?R (unat tx - unat ?c))"
        using A less assms(8,9) c(3) by (auto simp: runs_def)
      then show ?thesis using tx False t1 by (simp add: i2c_refill_calls_def Let_def)
    qed
  qed
  then show "closed_calls (i2c_refill_calls opt P periph (i2c_location info) pa half tx)"
    and "runs rs (?R (unat tx)) (i2c_refill_calls opt P periph (i2c_location info) pa half tx)
      (?R (unat (tx - (if tx = 0 then 0 else ?c))))" by blast+
qed

lemma prefill_runs:
  fixes P :: periph_env and info :: i2c_info
  defines "reg \<equiv> I2C_DATA_CMD_ADDR P (i2c_location info)" and "r \<equiv> issue_restart info" and "t \<equiv> issue_stop info"
  assumes "ccr_opts_ok opt" and "i2c_cmd_ok P" and "i2c_machine reg burst pa (i2c_read_words P info) m0"
    and "cnt = ALT_MIN sz fifo" and "sz \<noteq> 0" and "2 \<le> unat fifo"
  shows "closed_calls (i2c_prefill_calls opt P periph (i2c_location info) pa cnt (sz - cnt))"
    and "runs rs (reading m0 rs d reg r t (unat fifo) (unat sz) (unat sz) (unat sz))
      (i2c_prefill_calls opt P periph (i2c_location info) pa cnt (sz - cnt))
      (reading m0 rs d reg r t (unat fifo) (unat sz) (unat sz) (unat (sz - cnt)))"
proof -
  let ?n = "unat sz" and ?f = "unat fifo" and ?c = "unat cnt"
  let ?R = "reading m0 rs d reg r t ?f ?n ?n"
  have u: "untouched m0 rs d (?n - ?n) pa" by simp
  note M = middle_runs[OF assms(4,5,6)[unfolded reg_def] u, where periph = periph and first = False and fifo = ?f,
      folded reg_def r_def t_def]
  note L = end_runs[OF assms(4,5,6)[unfolded reg_def] u, where periph = periph and fifo = ?f, folded reg_def r_def t_def]
  have n: "0 < ?n" using assms(8) by (simp add: unat_gt_0)
  have c: "?c = min ?n ?f" by (simp add: assms(7) ALT_MIN_def word_less_nat_alt min_def)
  have left: "unat (sz - cnt) = ?n - ?c" using c by (simp add: unat_sub word_le_nat_alt)
  have c1: "cnt = 1 \<longleftrightarrow> ?c = 1" by (simp add: word_unat_eq_iff)
  have zero: "sz - cnt = 0 \<longleftrightarrow> ?n \<le> ?f" using c left by (simp add: word_unat_eq_iff)
  have first: "closed_calls (word_cmd opt P periph info pa 1 1 True)"
    "runs rs (?R ?n) (word_cmd opt P periph info pa 1 1 True) (\<lambda>m. ?R (?n - 1) m \<and> set_for opt reg m)" if "?n \<noteq> 1"
    using L[where tx = ?n and k = 1 and kw = 1 and first = True] n assms(9) that by (simp_all add: runs_def)
  have last: "closed_calls (word_cmd opt P periph info pa 2 1 False)"
    "runs rs (\<lambda>m. ?R 1 m \<and> set_for opt reg m) (word_cmd opt P periph info pa 2 1 False) (?R 0)" if "1 < ?n" "?n \<le> ?f"
    using L[where tx = 1 and k = 2 and kw = 2 and first = False] that by (auto simp: runs_def)
  have mid: "closed_calls (word_cmd opt P periph info pa 0 k False)"
    "runs rs (\<lambda>m. ?R (?n - 1) m \<and> set_for opt reg m) (word_cmd opt P periph info pa 0 k False)
      (\<lambda>m. ?R (?n - 1 - unat k) m \<and> set_for opt reg m)" if "unat k + 1 < ?n" "unat k + 1 \<le> ?f" for k
  proof -
    have "unat k \<le> ?n - 1" "?n - (?n - 1) + unat k \<le> ?f" "?n - 1 < ?n" "unat k < ?n - 1 \<or> \<not> t"
      using that by auto
    from M[OF this] show "closed_calls (word_cmd opt P periph info pa 0 k False)"
      "runs rs (\<lambda>m. ?R (?n - 1) m \<and> set_for opt reg m) (word_cmd opt P periph info pa 0 k False)
        (\<lambda>m. ?R (?n - 1 - unat k) m \<and> set_for opt reg m)" by simp_all
  qed
  have "closed_calls (i2c_prefill_calls opt P periph (i2c_location info) pa cnt (sz - cnt)) \<and>
      runs rs (?R ?n) (i2c_prefill_calls opt P periph (i2c_location info) pa cnt (sz - cnt)) (?R (?n - ?c))"
  proof (cases "cnt = 1")
    case True
    then have n1: "?n = 1" "?c = 1" using c c1 assms(9) by auto
    have "closed_calls (word_cmd opt P periph info pa 3 1 True) \<and>
        runs rs (\<lambda>m. ?R 1 m \<and> (\<not> True \<longrightarrow> set_for opt reg m)) (word_cmd opt P periph info pa 3 1 True) (?R 0)"
    proof -
      have "?n - 1 + 1 \<le> ?f" "1 \<le> ?n" "1 = ?n \<longleftrightarrow> 3 = (1 :: nat) \<or> 3 = (3 :: nat)"
        "1 = (1 :: nat) \<longleftrightarrow> 3 = (2 :: nat) \<or> 3 = (3 :: nat)"
        using assms(9) unfolding n1(1) by simp_all
      note L3 = L[OF this(1) zero_less_one this(2) _ _ this(3,4), where kw = 3 and first = True]
      show ?thesis using L3(1) runs_conjunct[OF L3(2)] by simp
    qed
    then show ?thesis using True n1 by (simp add: i2c_prefill_calls_def Let_def)
  next
    case False
    then have n1: "1 < ?n" "1 < ?c" using c c1 n assms(9) by (auto simp: min_def split: if_splits)
    then have n2: "?n \<noteq> 1" by simp
    have cm: "unat (cnt - 1) = ?c - 1" "unat (cnt - 2) = ?c - 2" using n1 by (simp_all add: unat_sub word_le_nat_alt)
    show ?thesis
    proof (cases "sz - cnt = 0")
      case z: True
      then have cf: "?n \<le> ?f" using zero by blast
      then have cn: "?c = ?n" "?n \<le> ?f" using c by linarith+
      show ?thesis
      proof (cases "cnt > 2")
        case True
        then have two: "?n - 1 - unat (cnt - 2) = 1" "unat (cnt - 2) + 1 < ?n" "unat (cnt - 2) + 1 \<le> ?f"
          using cm cn by (auto simp: word_less_nat_alt)
        have "closed_calls (word_cmd opt P periph info pa 1 1 True @ word_cmd opt P periph info pa 0 (cnt - 2) False @
            word_cmd opt P periph info pa 2 1 False)"
          by (intro closed_append first(1)[OF n2] mid(1)[OF two(2,3)] last(1)[OF n1(1) cn(2)])
        moreover have "runs rs (?R ?n) (word_cmd opt P periph info pa 1 1 True @ word_cmd opt P periph info pa 0 (cnt - 2) False @
            word_cmd opt P periph info pa 2 1 False) (?R 0)"
          using mid[OF two(2,3)] unfolding two(1)
          by (intro runs_append[OF first[OF n2] runs_append[OF _ _ last(2)[OF n1(1) cn(2)]]])
        ultimately show ?thesis using True False z cn by (simp add: i2c_prefill_calls_def Let_def)
      next
        case f: False
        then have two: "?n = 2" using n1 cn by (auto simp: word_less_nat_alt)
        have "closed_calls (word_cmd opt P periph info pa 1 1 True @ word_cmd opt P periph info pa 2 1 False)"
          by (intro closed_append first(1)[OF n2] last(1)[OF n1(1) cn(2)])
        moreover have "runs rs (?R ?n) (word_cmd opt P periph info pa 1 1 True @ word_cmd opt P periph info pa 2 1 False) (?R 0)"
          by (rule runs_append[OF first[OF n2]]) (use last(2)[OF n1(1) cn(2)] two in simp)
        ultimately show ?thesis using f False z cn by (simp add: i2c_prefill_calls_def Let_def)
      qed
    next
      case z: False
      then have "?f < ?n" using zero by linarith
      then have cf: "?c = ?f" "?f < ?n" using c by linarith+
      then have two: "unat (cnt - 1) + 1 < ?n" "unat (cnt - 1) + 1 \<le> ?f" "?n - 1 - unat (cnt - 1) = ?n - ?c"
        using cm n1 by auto
      have "closed_calls (word_cmd opt P periph info pa 1 1 True @ word_cmd opt P periph info pa 0 (cnt - 1) False)"
        by (intro closed_append first(1)[OF n2] mid(1)[OF two(1,2)])
      moreover have "runs rs (?R ?n) (word_cmd opt P periph info pa 1 1 True @ word_cmd opt P periph info pa 0 (cnt - 1) False)
          (\<lambda>m. ?R (?n - ?c) m \<and> set_for opt reg m)"
        using mid(2)[OF two(1,2)] unfolding two(3) by (rule runs_append[OF first[OF n2]])
      ultimately show ?thesis using False z by (auto simp: i2c_prefill_calls_def Let_def runs_def)
    qed
  qed
  then show "closed_calls (i2c_prefill_calls opt P periph (i2c_location info) pa cnt (sz - cnt))"
    and "runs rs (?R ?n) (i2c_prefill_calls opt P periph (i2c_location info) pa cnt (sz - cnt)) (?R (unat (sz - cnt)))"
    using left by simp_all
qed

definition words_apart :: "u32 \<Rightarrow> nat \<Rightarrow> nat \<Rightarrow> bool" where
  "words_apart pa d n \<longleftrightarrow> (\<forall>k<4. word_pa pa k + 4 \<le> d \<or> d + n \<le> word_pa pa k)"

lemma apart_untouched:
  assumes "words_apart pa d n" and "i \<le> n"
  shows "untouched m0 rs d i pa"
  unfolding untouched_def
proof (intro allI impI nth_equalityI)
  fix k j :: nat
  assume "k < 4" and "j < length (bytes_at (store_bytes (memory m0) d (bytes_at rs (reg_in m0) i)) (word_pa pa k) 4)"
  with assms show "bytes_at (store_bytes (memory m0) d (bytes_at rs (reg_in m0) i)) (word_pa pa k) 4 ! j =
      bytes_at (memory m0) (word_pa pa k) 4 ! j"
    by (auto simp: words_apart_def dest!: spec[of _ k])
qed simp

lemma read_rounds_run:
  fixes P :: periph_env and info :: i2c_info
  defines "reg \<equiv> I2C_DATA_CMD_ADDR P (i2c_location info)" and "r \<equiv> issue_restart info" and "t \<equiv> issue_stop info"
  assumes "ccr_opts_ok opt" and "i2c_cmd_ok P" and "i2c_machine reg (i2c_burst th) pa (i2c_read_words P info) m0"
    and "words_apart pa d n" and "d + n \<le> 2 ^ 32" and "n < 2 ^ 31" and "half = fifo div 2" and "half \<noteq> 0"
  shows "unat rx < f \<Longrightarrow> unat tx \<le> unat rx \<Longrightarrow> unat rx \<le> n \<Longrightarrow> unat tx < n \<Longrightarrow>
    unat rx - unat tx \<le> unat fifo \<Longrightarrow> (tx \<noteq> 0 \<longrightarrow> unat rx - unat tx = unat fifo) \<Longrightarrow>
    (rx \<noteq> 0 \<longrightarrow> unat dst = d + (n - unat rx)) \<Longrightarrow>
    closed_calls (i2c_round_calls f opt P rxp txp (i2c_location info) th pa half dst rx tx) \<and>
    runs rs (reading m0 rs d reg r t (unat fifo) n (unat rx) (unat tx))
      (i2c_round_calls f opt P rxp txp (i2c_location info) th pa half dst rx tx)
      (reading m0 rs d reg r t (unat fifo) n 0 0)"
proof (induction f arbitrary: dst rx tx)
  case (Suc f)
  let ?R = "reading m0 rs d reg r t (unat fifo) n"
  show ?case
  proof (cases "rx = 0")
    case True
    then have "unat rx = 0" "unat tx = 0" using Suc.prems(2) by simp_all
    then show ?thesis using True by simp
  next
    case rx: False
    define c where "c = ALT_MIN rx half"
    define t' where "t' = tx - (if tx = 0 then 0 else ALT_MIN tx half)"
    have c: "c \<noteq> 0" "unat c = min (unat rx) (unat half)"
      using rx assms(11) by (auto simp: c_def ALT_MIN_def word_less_nat_alt min_def)
    have h: "unat half + unat half \<le> unat fifo" "unat half \<noteq> 0"
      using assms(11) by (simp_all add: assms(10) unat_div word_unat_eq_iff)
    have ct: "unat c \<le> unat rx - unat tx" using c(2) h Suc.prems(2,6) by (cases "tx = 0") auto
    have rc: "unat (rx - c) = unat rx - unat c" using c(2) by (simp add: unat_sub word_le_nat_alt)
    have t': "unat t' = unat tx - min (unat tx) (unat half)"
      by (auto simp: t'_def ALT_MIN_def word_less_nat_alt unat_sub word_le_nat_alt min_def)
    have dst: "unat dst = d + (n - unat rx)" using Suc.prems(7) rx by simp
    have d': "rx - c \<noteq> 0 \<longrightarrow> unat (dst + c) = d + (n - unat (rx - c))"
    proof
      assume "rx - c \<noteq> 0"
      then have "unat c < unat rx" using rc by (metis unat_eq_0 zero_less_diff not_gr_zero)
      then show "unat (dst + c) = d + (n - unat (rx - c))"
        using dst rc assms(8) Suc.prems(3) by (simp add: unat_word_ariths)
    qed
    have mach: "grants (i2c_burst th) m0" "is_device reg m0" using assms(6) by (simp_all add: i2c_machine_def)
    have small: "unat c < 2 ^ 31" using c(2) Suc.prems(3) assms(9) by simp
    note T1 = take_runs(1)[OF assms(4) small mach dst ct, where periph = rxp]
    note T2 = take_runs(2)[OF assms(4) small mach dst ct, where periph = rxp and rs = rs and r = r and t = t
        and fifo = "unat fifo"]
    have full: "unat rx - unat tx = unat fifo" if "tx \<noteq> 0" using Suc.prems(6) that by blast
    have cf: "unat c = unat half" if "tx \<noteq> 0" using full[OF that] c(2) h by simp
    have room: "unat (rx - c) - unat tx + unat half \<le> unat fifo \<or> tx = 0"
      using full cf rc h by fastforce
    have F: "closed_calls (i2c_refill_calls opt P txp (i2c_location info) pa half tx) \<and>
      runs rs (?R (unat rx - unat c) (unat tx)) (i2c_refill_calls opt P txp (i2c_location info) pa half tx)
        (?R (unat (rx - c)) (unat t'))"
    proof (cases "tx = 0")
      case True
      then show ?thesis by (simp add: i2c_refill_calls_def Let_def rc t'_def)
    next
      case False
      have "untouched m0 rs d (n - (unat rx - unat c)) pa" by (rule apart_untouched[OF assms(7)]) simp
      from refill_runs[OF assms(4,5,6)[unfolded reg_def] this Suc.prems(4) _ assms(11), of "unat fifo" txp] False room rc
      show ?thesis by (simp add: t'_def reg_def r_def t_def)
    qed
    have I: "closed_calls (i2c_round_calls f opt P rxp txp (i2c_location info) th pa half (dst + c) (rx - c) t') \<and>
      runs rs (?R (unat (rx - c)) (unat t')) (i2c_round_calls f opt P rxp txp (i2c_location info) th pa half (dst + c) (rx - c) t')
        (?R 0 0)"
    proof (rule Suc.IH)
      show "unat (rx - c) < f" using rc c Suc.prems(1) unat_gt_0[of c] by linarith
      show "unat t' \<le> unat (rx - c)" using t' rc ct Suc.prems(2) by linarith
      show "unat (rx - c) \<le> n" "unat t' < n" using rc t' Suc.prems(3,4) by simp_all
      show "unat (rx - c) - unat t' \<le> unat fifo"
        using t' rc room Suc.prems(5) by (cases "tx = 0") (auto simp: min_def split: if_splits)
      show "t' \<noteq> 0 \<longrightarrow> unat (rx - c) - unat t' = unat fifo"
      proof
        assume "t' \<noteq> 0"
        then have "tx \<noteq> 0" "unat half < unat tx" using t' by (auto simp: word_unat_eq_iff t'_def min_def split: if_splits)
        then show "unat (rx - c) - unat t' = unat fifo" using full cf t' rc by simp
      qed
    qed (rule d')
    have e: "i2c_round_calls (Suc f) opt P rxp txp (i2c_location info) th pa half dst rx tx =
        (DMAMOV SAR reg # from_i2c_calls opt rxp th dst c) @
        i2c_refill_calls opt P txp (i2c_location info) pa half tx @
        i2c_round_calls f opt P rxp txp (i2c_location info) th pa half (dst + c) (rx - c) t'"
      using rx by (simp add: Let_def c_def t'_def reg_def)
    show ?thesis
      unfolding e using F I by (blast intro: closed_append T1 runs_append[OF T1 T2 runs_append])
  qed
qed simp

definition i2c_read_calls ::
  "nat \<Rightarrow> ccr_opts \<Rightarrow> periph_env \<Rightarrow> dma_periph \<Rightarrow> i2c_info \<Rightarrow> byte \<Rightarrow> u32 \<Rightarrow> u32 \<Rightarrow> u32 \<Rightarrow> u32 \<Rightarrow> dma_call list" where
  "i2c_read_calls fuel opt P rx info th pa fifo dst sz =
     (let loc = i2c_location info; cnt = ALT_MIN sz fifo
      in i2c_prefill_calls opt P (tx_of rx) loc pa cnt (sz - cnt) @
         i2c_round_calls fuel opt P rx (tx_of rx) loc th pa (fifo div 2) dst sz (sz - cnt))"

definition fifo_entries :: "periph_env \<Rightarrow> u32" where
  "fifo_entries P = ALT_MIN (I2C_RX_FIFO_NUM_ENTRIES P) (I2C_TX_FIFO_NUM_ENTRIES P)"

lemma prefill_emits:
  assumes "assembler E calls"
  shows "emits calls (i2c_prefill E P tx info pa cnt tx_left ALT_E_SUCCESS)
    (i2c_prefill_calls (opts E) P tx (i2c_location info) pa cnt tx_left)"
proof -
  note em = i2c_custom_emits[OF assms, of P tx info pa]
  let ?cmd = "\<lambda>k. i2c_custom_calls (opts E) P tx (i2c_location info) (pa + 4 * k)"
  have mid: "emits calls (if c then i2c_custom E P tx info pa 0 n False ALT_E_SUCCESS else State_Monad.return ALT_E_SUCCESS)
      (if c then ?cmd 0 n False else [])" for c n
    using em[of 0 n False ALT_E_SUCCESS] by simp
  have "emits calls (do { st \<leftarrow> i2c_custom E P tx info pa 1 1 True ALT_E_SUCCESS;
      st \<leftarrow> (if c then i2c_custom E P tx info pa 0 n False st else State_Monad.return st);
      i2c_custom E P tx info pa 2 1 False st }) (?cmd 1 1 True @ (if c then ?cmd 0 n False else []) @ ?cmd 2 1 False)" for c n
    by (intro emits_bind[OF em] emits_bind[OF mid em]) simp_all
  moreover have "emits calls (do { st \<leftarrow> i2c_custom E P tx info pa 1 1 True ALT_E_SUCCESS;
      i2c_custom E P tx info pa 0 n False st }) (?cmd 1 1 True @ ?cmd 0 n False)" for n
    by (rule emits_bind[OF em em]) simp
  ultimately show ?thesis using em[of 3 1 True ALT_E_SUCCESS] by (simp add: i2c_prefill_def i2c_prefill_calls_def Let_def)
qed

lemma prefill_fails:
  "st \<noteq> ALT_E_SUCCESS \<Longrightarrow> i2c_prefill E P tx info pa cnt tx_left st = State_Monad.return st"
  by (simp add: i2c_prefill_def)

lemma read_loop_fails:
  "st \<noteq> ALT_E_SUCCESS \<Longrightarrow> i2c_read_loop f E P rx tx info pa half dst rxl txl st = State_Monad.return (Some st)"
  by (subst i2c_read_loop.simps) simp

lemma i2c_to_memory_master_emits:
  fixes P :: periph_env and info :: i2c_info
  defines "loc \<equiv> i2c_location info"
  assumes "weak_mmu E" and "assembler E calls" and "fifo_entries P div 2 \<noteq> 0"
    and "\<And>h. i2c_rx_threshold E P loc h = th" and "unat sz < fuel" and "length (scratch s) = 4"
  shows "emits_leaving calls s (alt_dma_i2c_to_memory_master fuel E P rx info dst sz)
    (i2c_read_calls fuel (opts E) P rx info th (snd (scratch_pa E info)) (fifo_entries P) dst sz)
    (i2c_read_words P info)"
proof -
  obtain st pa where sp: "scratch_pa E info = (st, pa)" by force
  let ?cnt = "ALT_MIN sz (fifo_entries P)"
  let ?body = "\<lambda>st. do { st \<leftarrow> i2c_prefill E P (tx_of rx) info pa ?cnt (sz - ?cnt) st;
      r \<leftarrow> i2c_read_loop fuel E P rx (tx_of rx) info pa (fifo_entries P div 2) dst sz (sz - ?cnt) st;
      State_Monad.return (clean_after E info r) }"
  let ?w = "((((scratch s)[0 := i2c_read P False False])[1 := i2c_read P (issue_restart info) False])[
      2 := i2c_read P False (issue_stop info)])[3 := i2c_read P (issue_restart info) (issue_stop info)]"
  have w: "?w = i2c_read_words P info"
    by (rule nth_equalityI)
      (auto simp: assms(7) i2c_read_words_def nth_list_update less_Suc_eq numeral_eq_Suc)
  have e: "run_state (alt_dma_i2c_to_memory_master fuel E P rx info dst sz) s = run_state (?body st) (s\<lparr> scratch := ?w \<rparr>)"
    by (simp add: alt_dma_i2c_to_memory_master_def sp set_scratch_def Let_def fifo_entries_def)
  have "emits_leaving calls (s\<lparr> scratch := ?w \<rparr>) (?body st)
      (i2c_read_calls fuel (opts E) P rx info th pa (fifo_entries P) dst sz) ?w"
  proof (cases "st = ALT_E_SUCCESS")
    case True
    show ?thesis
      unfolding i2c_read_calls_def Let_def True
    proof (rule leaving_bind[OF prefill_emits[OF assms(3)]])
      fix s1 :: "'a dma_state"
      assume "scratch s1 = scratch (s\<lparr> scratch := ?w \<rparr>)"
      then show "emits_leaving calls s1 (do {
          r \<leftarrow> i2c_read_loop fuel E P rx (tx_of rx) info pa (fifo_entries P div 2) dst sz (sz - ?cnt) ALT_E_SUCCESS;
          State_Monad.return (clean_after E info r) })
          (i2c_round_calls fuel (opts E) P rx (tx_of rx) (i2c_location info) th pa (fifo_entries P div 2) dst sz (sz - ?cnt)) ?w"
        using leaving_clean[OF emits_at_leaving[OF read_loop_emits[OF assms(2-5)[unfolded loc_def] assms(6)]], where E = E and info = info,
            of s1 rx "tx_of rx" pa dst "sz - ?cnt"]
        by simp
    qed (simp add: read_loop_fails clean_after_def)
  next
    case False
    then show ?thesis by (simp add: prefill_fails read_loop_fails emits_leaving_def clean_after_def)
  qed
  then show ?thesis using w e by (simp add: emits_leaving_def sp)
qed

text \<open>What a read leaves.\<close>

definition i2c_reads ::
  "u32 \<Rightarrow> bool \<Rightarrow> bool \<Rightarrow> nat \<Rightarrow> u32 \<Rightarrow> nat \<Rightarrow> mem \<Rightarrow> pl330 \<Rightarrow> pl330 \<Rightarrow> bool" where
  "i2c_reads reg r t fifo dst n rs m m' \<longleftrightarrow>
     mfifo m' = [] \<and> memory m' = store_bytes (memory m) (unat dst) (bytes_at rs (reg_in m) n) \<and>
     reg_in m' = reg_in m + n \<and>
     (\<exists>acc. accesses m' = accesses m @ acc \<and> all_at (unat reg) acc \<and> commands acc = read_ops r t n \<and>
        paced fifo 0 acc \<and> outstanding 0 acc = 0)"

lemma read_calls_perform:
  fixes P :: periph_env and info :: i2c_info
  defines "reg \<equiv> I2C_DATA_CMD_ADDR P (i2c_location info)"
  assumes "ccr_opts_ok opt" and "i2c_cmd_ok P" and "sz \<noteq> 0" and "unat sz < 2 ^ 31"
    and "unat dst + unat sz \<le> 2 ^ 32" and "words_apart pa (unat dst) (unat sz)" and "2 \<le> unat fifo" and "unat sz < fuel"
  shows "performs_when (i2c_machine reg (i2c_burst th) pa (i2c_read_words P info))
    (i2c_read_calls fuel opt P rx info th pa fifo dst sz @ closing wmb send_evt evt)
    (i2c_reads reg (issue_restart info) (issue_stop info) (unat fifo) dst (unat sz))"
proof (rule performs_when_closing)
  let ?cs = "i2c_read_calls fuel opt P rx info th pa fifo dst sz" and ?d = "unat dst" and ?n = "unat sz"
  let ?R = "\<lambda>m0 rs. reading m0 rs ?d reg (issue_restart info) (issue_stop info) (unat fifo) ?n"
  let ?cnt = "ALT_MIN sz fifo"
  fix m0
  assume m0: "i2c_machine reg (i2c_burst th) pa (i2c_read_words P info) m0"
  have half: "fifo div 2 \<noteq> 0" using assms(8) by (simp add: word_unat_eq_iff unat_div)
  have n: "0 < ?n" using assms(4) by (simp add: unat_gt_0)
  have c: "unat ?cnt = min ?n (unat fifo)" by (simp add: ALT_MIN_def word_less_nat_alt min_def)
  then have left: "unat (sz - ?cnt) = ?n - min ?n (unat fifo)" by (simp add: unat_sub word_le_nat_alt)
  have all: "closed_calls ?cs \<and> runs rs (?R m0 rs ?n ?n) ?cs (?R m0 rs 0 0)" for rs
  proof -
    note A = prefill_runs[OF assms(2,3) m0[unfolded reg_def] refl assms(4,8), where periph = "tx_of rx", folded reg_def]
    have "closed_calls (i2c_round_calls fuel opt P rx (tx_of rx) (i2c_location info) th pa (fifo div 2) dst sz (sz - ?cnt)) \<and>
      runs rs (?R m0 rs ?n (unat (sz - ?cnt)))
        (i2c_round_calls fuel opt P rx (tx_of rx) (i2c_location info) th pa (fifo div 2) dst sz (sz - ?cnt)) (?R m0 rs 0 0)"
      unfolding reg_def
    proof (rule read_rounds_run[OF assms(2,3) m0[unfolded reg_def] assms(7,6,5) refl half assms(9)])
      have "sz - ?cnt \<noteq> 0 \<Longrightarrow> unat (sz - ?cnt) \<noteq> 0" by (simp add: word_unat_eq_iff)
      then show "sz - ?cnt \<noteq> 0 \<longrightarrow> ?n - unat (sz - ?cnt) = unat fifo" using left by linarith
    qed (use left n assms(8) in simp_all)
    with A(1) runs_append[OF A] show ?thesis
      unfolding i2c_read_calls_def Let_def by (blast intro: closed_append)
  qed
  show "closed_calls ?cs" using all by blast
  have "?R m0 rs ?n ?n m0" if "mfifo m0 = []" for rs
    using that by (auto simp: reading_def i2c_at_def intro!: exI[of _ "[]"])
  then show "runs rs (\<lambda>m. m = m0 \<and> mfifo m = []) ?cs (?R m0 rs 0 0)" for rs
    using all[of rs] unfolding runs_def by blast
next
  fix rs m0 m'
  assume "reading m0 rs (unat dst) reg (issue_restart info) (issue_stop info) (unat fifo) (unat sz) 0 0 m'"
  then show "mfifo m' = [] \<and> i2c_reads reg (issue_restart info) (issue_stop info) (unat fifo) dst (unat sz) rs m0 m'"
    by (auto simp: reading_def i2c_reads_def i2c_at_def read_ops_map)
qed

lemma i2c_read_emits_in:
  assumes "\<not> i2c_is_slave E P (i2c_location info) (bus s)"
    and "\<And>s1. scratch s1 = scratch s \<Longrightarrow>
      emits_leaving calls s1 (alt_dma_i2c_to_memory_master fuel E P periph info buf sz) cs ws"
  shows "emits_leaving calls s (alt_dma_i2c_to_memory fuel E P periph info buf sz) cs ws"
proof -
  let ?s = "s\<lparr> bus := i2c_look E P (i2c_location info) (bus s) \<rparr>"
  have "run_state (alt_dma_i2c_to_memory fuel E P periph info buf sz) s =
      run_state (alt_dma_i2c_to_memory_master fuel E P periph info buf sz) ?s"
    using assms(1) by (simp add: alt_dma_i2c_to_memory_def alt_i2c_op_mode_get_def guarded_opt_def
        on_bus_def bus_simps i2c_is_slave_def i2c_look_def)
  moreover have "emits_leaving calls ?s (alt_dma_i2c_to_memory_master fuel E P periph info buf sz) cs ws"
    by (rule assms(2)) simp
  ultimately show ?thesis by (simp add: emits_leaving_def i2c_look_def)
qed

text \<open>
  C25: \<open>alt_dma_periph_to_memory\<close> of 1 to \<open>2 ^ 31 - 1\<close> bytes, to a buffer inside the address
  space, from an I2C controller in master mode, with the default address translation, a FIFO of at least two entries and scratch words outside the destination, always
  returns.  On success it has started a program that, on a machine that holds the scratch words the
  driver left, orders exactly \<open>size\<close> bytes, the first with a restart if asked for, the last with a
  stop if asked for; never has more of them outstanding than the FIFO has entries, never takes a
  byte that was not ordered, and leaves none; and puts the bytes in order at \<open>dst\<close> and nowhere
  else.  On any failure no register is written.
\<close>

theorem i2c_master_to_memory_reads:
  fixes P :: periph_env and info :: periph_info
  defines "i \<equiv> as_i2c info"
  assumes "weak_mmu E" and "assembler E calls" and "ccr_opts_ok (opts E)" and "i2c_cmd_ok P"
    and "n < 4" and "sz \<noteq> 0" and "unat sz < 2 ^ 31" and "unat dst + unat sz \<le> 2 ^ 32"
    and "length (scratch s) = 4" and "\<not> i2c_is_slave E P (i2c_location i) (bus s)"
    and "\<And>h. i2c_rx_threshold E P (i2c_location i) h = th" and "2 \<le> unat (fifo_entries P)"
    and "words_apart (snd (scratch_pa E i)) (unat dst) (unat sz)" and "unat sz < fuel"
  shows "starts_from E calls channel
    (i2c_machine (I2C_DATA_CMD_ADDR P (i2c_location i)) (i2c_burst th) (snd (scratch_pa E i)))
    (i2c_reads (I2C_DATA_CMD_ADDR P (i2c_location i)) (issue_restart i) (issue_stop i) (unat (fifo_entries P)) dst
       (unat sz)) s
    (run_state (alt_dma_periph_to_memory fuel E P channel dst (ALT_DMA_PERIPH_I2C_RX n) sz info send_evt evt) s)"
  unfolding alt_dma_periph_to_memory_def
proof (rule periph_transfer_starts_from[OF assms(3,7)])
  let ?cs = "i2c_read_calls fuel (opts E) P (ALT_DMA_PERIPH_I2C_RX n) i th (snd (scratch_pa E i)) (fifo_entries P) dst sz"
  show "performs_when (i2c_machine (I2C_DATA_CMD_ADDR P (i2c_location i)) (i2c_burst th) (snd (scratch_pa E i))
        (i2c_read_words P i)) (?cs @ closing False send_evt evt)
      (i2c_reads (I2C_DATA_CMD_ADDR P (i2c_location i)) (issue_restart i) (issue_stop i) (unat (fifo_entries P)) dst (unat sz))"
    by (rule read_calls_perform[OF assms(4,5,7-9,14,13,15)])
  fix s1 :: "'a dma_state"
  assume s1: "bus s1 = bus s" "scratch s1 = scratch s"
  have half: "fifo_entries P div 2 \<noteq> 0" using assms(13) by (simp add: word_unat_eq_iff unat_div)
  have "emits_leaving calls s1 (alt_dma_i2c_to_memory fuel E P (ALT_DMA_PERIPH_I2C_RX n) i dst sz) ?cs (i2c_read_words P i)"
  proof (rule i2c_read_emits_in)
    show "\<not> i2c_is_slave E P (i2c_location i) (bus s1)" using assms(11) unfolding s1 .
    fix s2 :: "'a dma_state"
    assume "scratch s2 = scratch s1"
    then have "length (scratch s2) = 4" using s1 assms(10) by simp
    then show "emits_leaving calls s2 (alt_dma_i2c_to_memory_master fuel E P (ALT_DMA_PERIPH_I2C_RX n) i dst sz) ?cs
        (i2c_read_words P i)"
      by (rule i2c_to_memory_master_emits[OF assms(2,3) half assms(12,15)])
  qed
  then show "emits_leaving calls s1 (from_periph fuel E P (ALT_DMA_PERIPH_I2C_RX n) info dst sz) ?cs (i2c_read_words P i)"
    using assms(6) by (simp add: from_periph_def i_def)
qed

lemma demo_over_segments_Suc:
  assumes "\<not> va + sz - 1 < va" and "sz \<noteq> 0"
  shows "run_state (over_segments (Suc f) demo_dma (\<lambda>pa n. emit_all demo_dma (g pa n)) va sz ALT_E_SUCCESS) s =
      (Some ALT_E_SUCCESS, s\<lparr> program := program s @ g va sz \<rparr>)"
  using assms by (simp add: over_segments_one[OF demo_ok(1)] demo_segment)

lemma demo_take:
  assumes "\<not> va + sz - 1 < va" and "sz \<noteq> 0"
  shows "\<exists>s2. run_state (alt_dma_i2c_to_memory_common (Suc f) demo_dma P periph loc va sz) s =
      (Some ALT_E_SUCCESS, s2) \<and> channel_info s2 = channel_info s"
  using assms by (simp add: alt_dma_i2c_to_memory_common_def demo_emit on_bus_def bus_simps Let_def guarded_opt_def
      demo_over_segments_Suc del: emit_all.simps)

lemma demo_refill:
  "\<exists>t s2. run_state (i2c_refill demo_dma P tx info pa half txl ALT_E_SUCCESS) s = ((ALT_E_SUCCESS, t), s2) \<and>
    channel_info s2 = channel_info s"
  by (simp add: i2c_refill_def Let_def demo_custom)

lemma demo_prefill:
  "\<exists>s2. run_state (i2c_prefill demo_dma P tx info pa cnt txl ALT_E_SUCCESS) s = (ALT_E_SUCCESS, s2) \<and>
    channel_info s2 = channel_info s"
  by (simp add: i2c_prefill_def demo_custom)

lemma demo_read_loop:
  assumes "half \<noteq> 0"
  shows "unat rxl < f \<Longrightarrow> unat va + unat rxl < 2 ^ 32 \<Longrightarrow>
    \<exists>s2. run_state (i2c_read_loop f demo_dma P rx tx info pa half va rxl txl ALT_E_SUCCESS) s =
      (Some ALT_E_SUCCESS, s2) \<and> channel_info s2 = channel_info s"
proof (induction f arbitrary: va rxl txl s)
  case (Suc f)
  show ?case
  proof (cases "rxl = 0")
    case True
    then show ?thesis by (subst i2c_read_loop.simps) simp
  next
    case False
    let ?c = "ALT_MIN rxl half"
    have c: "?c \<noteq> 0" "unat ?c \<le> unat rxl" using False assms by (auto simp: ALT_MIN_def word_less_nat_alt)
    then have r: "unat (rxl - ?c) = unat rxl - unat ?c" "0 < unat ?c"
      by (simp_all add: unat_sub word_le_nat_alt unat_gt_0)
    then have lim: "unat (rxl - ?c) < f" "unat (va + ?c) + unat (rxl - ?c) < 2 ^ 32"
      using Suc.prems c by (simp_all add: unat_word_ariths)
    have "unat (va + ?c - 1) = unat va + unat ?c - 1"
      using Suc.prems(2) c r(2) by (simp add: unat_sub word_le_nat_alt unat_word_ariths)
    then have nw: "\<not> va + ?c - 1 < va" using r(2) by (simp add: word_less_nat_alt)
    obtain f' where f: "f = Suc f'" using lim(1) by (cases f) auto
    obtain s1 where s1: "run_state (alt_dma_i2c_to_memory_common f demo_dma P rx (i2c_location info) va ?c) s =
        (Some ALT_E_SUCCESS, s1)" "channel_info s1 = channel_info s"
      using demo_take[OF nw c(1), of f' P rx "i2c_location info" s] unfolding f by blast
    obtain t s2 where s2: "run_state (i2c_refill demo_dma P tx info pa half txl ALT_E_SUCCESS) s1 = ((ALT_E_SUCCESS, t), s2)"
      "channel_info s2 = channel_info s1" using demo_refill by blast
    obtain s3 where "run_state (i2c_read_loop f demo_dma P rx tx info pa half (va + ?c) (rxl - ?c) t ALT_E_SUCCESS) s2 =
        (Some ALT_E_SUCCESS, s3)" "channel_info s3 = channel_info s2" using Suc.IH[OF lim] by blast
    with s1 s2 show ?thesis using False by (subst i2c_read_loop.simps) (simp add: Let_def)
  qed
qed simp

theorem i2c_master_to_memory_reads_witness:
  "case run_state (alt_dma_periph_to_memory 1000 demo_dma demo_master 2 0x2003 (ALT_DMA_PERIPH_I2C_RX 3) 530
       demo_info False 0) demo_master_state of
     (r, s') \<Rightarrow> r = Some ALT_E_SUCCESS \<and>
       performs_when (i2c_machine 0xffc04010 8 0x100 (scratch s')) (program s')
         (i2c_reads 0xffc04010 True True 64 0x2003 530) \<and>
       (\<exists>m. i2c_machine 0xffc04010 8 0x100 (scratch s') m)"
proof -
  let ?i = "as_i2c demo_info" and ?s = "demo_master_state\<lparr> program := [] \<rparr>"
  have fifo: "fifo_entries demo_master = 64" by (simp add: fifo_entries_def demo_master_def demo_slave_def demo_periph_def ALT_MIN_def)
  have apart: "words_apart (snd (scratch_pa demo_dma ?i)) (unat (0x2003 :: u32)) (unat (530 :: u32))"
    unfolding words_apart_def demo_master_simps(5) snd_conv
  proof (intro allI impI)
    fix k :: nat
    assume "k < 4"
    then have "k = 0 \<or> k = 1 \<or> k = 2 \<or> k = 3" by linarith
    then show "word_pa 0x100 k + 4 \<le> unat (0x2003 :: u32) \<or> unat (0x2003 :: u32) + unat (530 :: u32) \<le> word_pa 0x100 k"
      by (auto simp: word_pa_def)
  qed
  have half: "fifo_entries demo_master div 2 \<noteq> 0" by (simp add: fifo)
  have "\<exists>s2. run_state (alt_dma_i2c_to_memory_master 1000 demo_dma demo_master (ALT_DMA_PERIPH_I2C_RX 3) ?i 0x2003 530) s =
      (Some ALT_E_SUCCESS, s2) \<and> channel_info s2 = channel_info s" for s
  proof -
    let ?ws = "(((scratch s)[0 := i2c_read demo_master False False])[1 := i2c_read demo_master True False])[
        2 := i2c_read demo_master False True]"
    let ?s0 = "s\<lparr> scratch := ?ws[3 := i2c_read demo_master True True] \<rparr>"
    obtain s1 where s1: "run_state (i2c_prefill demo_dma demo_master (ALT_DMA_PERIPH_I2C_TX 3) ?i 0x100 64 466 ALT_E_SUCCESS) ?s0 =
        (ALT_E_SUCCESS, s1)" "channel_info s1 = channel_info ?s0" using demo_prefill by blast
    obtain s2 where s2: "run_state (i2c_read_loop 1000 demo_dma demo_master (ALT_DMA_PERIPH_I2C_RX 3) (ALT_DMA_PERIPH_I2C_TX 3)
        ?i 0x100 32 0x2003 530 466 ALT_E_SUCCESS) s1 = (Some ALT_E_SUCCESS, s2)" "channel_info s2 = channel_info s1"
      using demo_read_loop[of 32 530 1000 "0x2003"] by fastforce
    show ?thesis
      using s1 s2 fifo[unfolded fifo_entries_def]
      by (simp add: alt_dma_i2c_to_memory_master_def demo_master_simps set_scratch_def Let_def ALT_MIN_def clean_after_def)
  qed
  then obtain s2 where "run_state (alt_dma_i2c_to_memory 1000 demo_dma demo_master (ALT_DMA_PERIPH_I2C_RX 3) ?i 0x2003 530) ?s =
      (Some ALT_E_SUCCESS, s2)" "channel_info s2 ! 2 = 1"
    using demo_master_simps(1)[of "i2c_location ?i"]
    by (fastforce simp: alt_dma_i2c_to_memory_def alt_i2c_op_mode_get_def guarded_opt_def on_bus_def bus_simps
        i2c_is_slave_def demo_master_state_def dma_demo_state_def)
  from demo_periph_success[OF this] have "fst (run_state (alt_dma_periph_to_memory 1000 demo_dma demo_master 2
      0x2003 (ALT_DMA_PERIPH_I2C_RX 3) 530 demo_info False 0) demo_master_state) = Some ALT_E_SUCCESS"
    by (simp add: alt_dma_periph_to_memory_def from_periph_def)
  moreover have "length (scratch demo_master_state) = 4" by (simp add: demo_master_state_def)
  moreover have "i2c_rx_threshold demo_dma demo_master loc h = 8" for loc h
    by (simp add: i2c_rx_threshold_def demo_master_def demo_slave_def)
  ultimately show ?thesis
    using i2c_master_to_memory_reads[OF demo_ok demo_master_simps(9), of 3 530 "0x2003" demo_master_state demo_info 8 1000 2 False 0]
      fifo apart demo_master_simps(1)
    by (auto simp: starts_from_def demo_master_simps i2c_burst_def split: prod.splits intro!: demo_machine exI[of _ "demo_machine _"])
qed

end
