(* ===== verification/Socal.thy ===== *)
theory Socal
  imports Mmio
begin

text \<open>
  The accessors of \<^verbatim>\<open>node/FPGAconfig/socal.h\<close> for bytes, half words and double words, and the
  one for words that no driver uses; \<^theory_text>\<open>Mmio\<close> has the others.  They are macros: an argument is of
  whatever integer type the caller gives it, and the promotions of C decide what is written.
\<close>

section \<open>Integers of C\<close>

text \<open>An integer after promotion: \<open>int\<close>, \<open>unsigned int\<close>, \<open>unsigned long long\<close>.\<close>

datatype c_int = SInt u32 | UInt u32 | ULong u64

fun wide :: "c_int \<Rightarrow> u64" where
  "wide (SInt w) = scast w"
| "wide (UInt w) = ucast w"
| "wide (ULong w) = w"

fun c_not :: "c_int \<Rightarrow> c_int" where
  "c_not (SInt w) = SInt (NOT w)"
| "c_not (UInt w) = UInt (NOT w)"
| "c_not (ULong w) = ULong (NOT w)"

text \<open>
  A bitwise operation in the common type of its operands.  On 32 bits it is that of the low
  halves of the converted operands.
\<close>

fun c_op :: "(u64 \<Rightarrow> u64 \<Rightarrow> u64) \<Rightarrow> c_int \<Rightarrow> c_int \<Rightarrow> c_int" where
  "c_op f (SInt v) (SInt w) = SInt (ucast (f (wide (SInt v)) (wide (SInt w))))"
| "c_op f (ULong v) y = ULong (f v (wide y))"
| "c_op f x (ULong w) = ULong (f (wide x) w)"
| "c_op f x y = UInt (ucast (f (wide x) (wide y)))"

section \<open>The bus\<close>

text \<open>An access of \<open>n\<close> bits; the hardware is a parameter as in \<^theory_text>\<open>Mmio\<close>.\<close>

datatype unit_access = Read_unit nat addr u64 | Write_unit nat addr u64

type_synonym unit_device = "unit_access list \<Rightarrow> nat \<Rightarrow> addr \<Rightarrow> u64"
type_synonym 'a unit_io = "(unit_access list, 'a) state"

text \<open>The value read, promoted; an assignment keeps the low bits.\<close>

definition promote :: "nat \<Rightarrow> u64 \<Rightarrow> c_int" where
  "promote n v = (if n < 32 then SInt (ucast v) else if n = 32 then UInt (ucast v) else ULong v)"

definition read_unit :: "nat \<Rightarrow> unit_device \<Rightarrow> addr \<Rightarrow> c_int unit_io" where
  "read_unit n dev a = State (\<lambda>h. let v = take_bit n (dev h n a) in (promote n v, h @ [Read_unit n a v]))"

definition write_unit :: "nat \<Rightarrow> addr \<Rightarrow> c_int \<Rightarrow> unit unit_io" where
  "write_unit n a v = State (\<lambda>h. ((), h @ [Write_unit n a (take_bit n (wide v))]))"

definition alt_write_byte :: "addr \<Rightarrow> c_int \<Rightarrow> unit unit_io" where
  "alt_write_byte = write_unit 8"

definition alt_read_byte :: "unit_device \<Rightarrow> addr \<Rightarrow> c_int unit_io" where
  "alt_read_byte = read_unit 8"

definition alt_write_hword :: "addr \<Rightarrow> c_int \<Rightarrow> unit unit_io" where
  "alt_write_hword = write_unit 16"

definition alt_read_hword :: "unit_device \<Rightarrow> addr \<Rightarrow> c_int unit_io" where
  "alt_read_hword = read_unit 16"

definition alt_write_dword :: "addr \<Rightarrow> c_int \<Rightarrow> unit unit_io" where
  "alt_write_dword = write_unit 64"

definition alt_read_dword :: "unit_device \<Rightarrow> addr \<Rightarrow> c_int unit_io" where
  "alt_read_dword = read_unit 64"

definition alt_setbits_byte :: "unit_device \<Rightarrow> addr \<Rightarrow> c_int \<Rightarrow> unit unit_io" where
  "alt_setbits_byte dev dest bits =
     do { v \<leftarrow> alt_read_byte dev dest; alt_write_byte dest (c_op (OR) v bits) }"

definition alt_clrbits_byte :: "unit_device \<Rightarrow> addr \<Rightarrow> c_int \<Rightarrow> unit unit_io" where
  "alt_clrbits_byte dev dest bits =
     do { v \<leftarrow> alt_read_byte dev dest; alt_write_byte dest (c_op (AND) v (c_not bits)) }"

definition alt_xorbits_byte :: "unit_device \<Rightarrow> addr \<Rightarrow> c_int \<Rightarrow> unit unit_io" where
  "alt_xorbits_byte dev dest bits =
     do { v \<leftarrow> alt_read_byte dev dest; alt_write_byte dest (c_op (XOR) v bits) }"

definition alt_replbits_byte :: "unit_device \<Rightarrow> addr \<Rightarrow> c_int \<Rightarrow> c_int \<Rightarrow> unit unit_io" where
  "alt_replbits_byte dev dest msk src =
     do { v \<leftarrow> alt_read_byte dev dest;
          alt_write_byte dest (c_op (OR) (c_op (AND) v (c_not msk)) (c_op (AND) src msk)) }"

definition alt_setbits_hword :: "unit_device \<Rightarrow> addr \<Rightarrow> c_int \<Rightarrow> unit unit_io" where
  "alt_setbits_hword dev dest bits =
     do { v \<leftarrow> alt_read_hword dev dest; alt_write_hword dest (c_op (OR) v bits) }"

definition alt_clrbits_hword :: "unit_device \<Rightarrow> addr \<Rightarrow> c_int \<Rightarrow> unit unit_io" where
  "alt_clrbits_hword dev dest bits =
     do { v \<leftarrow> alt_read_hword dev dest; alt_write_hword dest (c_op (AND) v (c_not bits)) }"

definition alt_xorbits_hword :: "unit_device \<Rightarrow> addr \<Rightarrow> c_int \<Rightarrow> unit unit_io" where
  "alt_xorbits_hword dev dest bits =
     do { v \<leftarrow> alt_read_hword dev dest; alt_write_hword dest (c_op (XOR) v bits) }"

definition alt_replbits_hword :: "unit_device \<Rightarrow> addr \<Rightarrow> c_int \<Rightarrow> c_int \<Rightarrow> unit unit_io" where
  "alt_replbits_hword dev dest msk src =
     do { v \<leftarrow> alt_read_hword dev dest;
          alt_write_hword dest (c_op (OR) (c_op (AND) v (c_not msk)) (c_op (AND) src msk)) }"

definition alt_xorbits_word :: "unit_device \<Rightarrow> addr \<Rightarrow> c_int \<Rightarrow> unit unit_io" where
  "alt_xorbits_word dev dest bits =
     do { v \<leftarrow> read_unit 32 dev dest; write_unit 32 dest (c_op (XOR) v bits) }"

definition alt_setbits_dword :: "unit_device \<Rightarrow> addr \<Rightarrow> c_int \<Rightarrow> unit unit_io" where
  "alt_setbits_dword dev dest bits =
     do { v \<leftarrow> alt_read_dword dev dest; alt_write_dword dest (c_op (OR) v bits) }"

definition alt_clrbits_dword :: "unit_device \<Rightarrow> addr \<Rightarrow> c_int \<Rightarrow> unit unit_io" where
  "alt_clrbits_dword dev dest bits =
     do { v \<leftarrow> alt_read_dword dev dest; alt_write_dword dest (c_op (AND) v (c_not bits)) }"

definition alt_xorbits_dword :: "unit_device \<Rightarrow> addr \<Rightarrow> c_int \<Rightarrow> unit unit_io" where
  "alt_xorbits_dword dev dest bits =
     do { v \<leftarrow> alt_read_dword dev dest; alt_write_dword dest (c_op (XOR) v bits) }"

definition alt_replbits_dword :: "unit_device \<Rightarrow> addr \<Rightarrow> c_int \<Rightarrow> c_int \<Rightarrow> unit unit_io" where
  "alt_replbits_dword dev dest msk src =
     do { v \<leftarrow> alt_read_dword dev dest;
          alt_write_dword dest (c_op (OR) (c_op (AND) v (c_not msk)) (c_op (AND) src msk)) }"

lemmas unit_defs = alt_setbits_byte_def alt_clrbits_byte_def alt_xorbits_byte_def alt_replbits_byte_def
  alt_setbits_hword_def alt_clrbits_hword_def alt_xorbits_hword_def alt_replbits_hword_def
  alt_xorbits_word_def alt_setbits_dword_def alt_clrbits_dword_def alt_xorbits_dword_def alt_replbits_dword_def
  alt_write_byte_def alt_read_byte_def alt_write_hword_def alt_read_hword_def alt_write_dword_def alt_read_dword_def

section \<open>What an update writes\<close>

text \<open>The reference: bits below \<open>n\<close> of the old value, changed where the mask says so.\<close>

lemma bit_wide_low:
  "k < 32 \<Longrightarrow> bit (wide (c_not x)) k \<longleftrightarrow> \<not> bit (wide x) k"
  "k < 32 \<Longrightarrow> bit (wide (c_op (AND) x y)) k \<longleftrightarrow> bit (wide x) k \<and> bit (wide y) k"
  "k < 32 \<Longrightarrow> bit (wide (c_op (OR) x y)) k \<longleftrightarrow> bit (wide x) k \<or> bit (wide y) k"
  "k < 32 \<Longrightarrow> bit (wide (c_op (XOR) x y)) k \<longleftrightarrow> bit (wide x) k \<noteq> bit (wide y) k"
  by (cases x; cases y; simp add: bit_simps min_def)+

definition updates :: "nat \<Rightarrow> unit_device \<Rightarrow> addr \<Rightarrow> (bool \<Rightarrow> nat \<Rightarrow> bool) \<Rightarrow> unit unit_io \<Rightarrow> bool" where
  "updates n dev a g op \<longleftrightarrow> (\<forall>h. \<exists>new. let old = take_bit n (dev h n a) in
     run_state op h = ((), h @ [Read_unit n a old, Write_unit n a new]) \<and>
     (\<forall>k. bit new k \<longleftrightarrow> k < n \<and> g (bit old k) k))"

lemma updatesI:
  assumes "op = do { v \<leftarrow> read_unit n dev a; write_unit n a (f v) }"
    and "\<And>v k. k < n \<Longrightarrow> bit (wide (f (promote n (take_bit n v)))) k \<longleftrightarrow> g (bit v k) k"
  shows "updates n dev a g op"
  unfolding updates_def assms(1)
  by (auto simp: Let_def read_unit_def write_unit_def bit_take_bit_iff assms(2))

lemma bit_promote: "k < n \<Longrightarrow> n \<le> 64 \<Longrightarrow> bit (wide (promote n (take_bit n v))) k \<longleftrightarrow> bit v k"
  by (auto simp: promote_def bit_simps min_def)

text \<open>Up to 32 bits every update is exact, whatever the type of the mask.\<close>

lemma narrow_updates:
  "updates 8 dev a (\<lambda>b k. b \<or> bit (wide bits) k) (alt_setbits_byte dev a bits)"
  "updates 8 dev a (\<lambda>b k. b \<and> \<not> bit (wide bits) k) (alt_clrbits_byte dev a bits)"
  "updates 8 dev a (\<lambda>b k. b \<noteq> bit (wide bits) k) (alt_xorbits_byte dev a bits)"
  "updates 8 dev a (\<lambda>b k. if bit (wide msk) k then bit (wide src) k else b) (alt_replbits_byte dev a msk src)"
  "updates 16 dev a (\<lambda>b k. b \<or> bit (wide bits) k) (alt_setbits_hword dev a bits)"
  "updates 16 dev a (\<lambda>b k. b \<and> \<not> bit (wide bits) k) (alt_clrbits_hword dev a bits)"
  "updates 16 dev a (\<lambda>b k. b \<noteq> bit (wide bits) k) (alt_xorbits_hword dev a bits)"
  "updates 16 dev a (\<lambda>b k. if bit (wide msk) k then bit (wide src) k else b) (alt_replbits_hword dev a msk src)"
  "updates 32 dev a (\<lambda>b k. b \<noteq> bit (wide bits) k) (alt_xorbits_word dev a bits)"
  unfolding unit_defs
  by (rule updatesI[OF refl], simp add: bit_wide_low bit_promote)+

text \<open>
  Of 64 bits they are exact unless a mask of type \<open>unsigned int\<close> is complemented: the complement
  has 32 bits, so the upper half is cleared with it.
\<close>

lemma wide_ops:
  "wide (c_op f (ULong v) y) = f v (wide y)" "wide (c_op f x (ULong w)) = f (wide x) w"
  by (cases y; simp) (cases x; simp)

lemma wide_not: "(\<forall>w. x \<noteq> UInt w) \<Longrightarrow> wide (c_not x) = NOT (wide x)"
  by (cases x) (auto intro!: bit_word_eqI simp: bit_simps min_def)

lemma bit_u32: "bit (w :: u32) k \<Longrightarrow> k < 32"
  by (drule bit_imp_le_length) simp

lemma wide_and: "(\<forall>w. y \<noteq> UInt w) \<Longrightarrow> wide (c_op (AND) x y) = wide x AND wide y"
  by (cases x; cases y) (auto intro!: bit_word_eqI simp: bit_simps min_def dest: bit_u32)

lemma wide_updates:
  "updates 64 dev a (\<lambda>b k. b \<or> bit (wide bits) k) (alt_setbits_dword dev a bits)"
  "updates 64 dev a (\<lambda>b k. b \<noteq> bit (wide bits) k) (alt_xorbits_dword dev a bits)"
  "\<forall>w. bits \<noteq> UInt w \<Longrightarrow> updates 64 dev a (\<lambda>b k. b \<and> \<not> bit (wide bits) k) (alt_clrbits_dword dev a bits)"
  "\<forall>w. msk \<noteq> UInt w \<Longrightarrow>
     updates 64 dev a (\<lambda>b k. if bit (wide msk) k then bit (wide src) k else b) (alt_replbits_dword dev a msk src)"
  unfolding unit_defs
  by (rule updatesI[OF refl], simp add: promote_def wide_ops wide_not wide_and bit_simps)+

lemma upper_half_cleared:
  "updates 64 dev a (\<lambda>b k. b \<and> k < 32 \<and> \<not> bit w k) (alt_clrbits_dword dev a (UInt w))"
  unfolding unit_defs
  by (rule updatesI[OF refl], auto simp: promote_def wide_ops bit_simps)

end
