(* ===== verification/Message.thy ===== *)
theory Message
  imports Prelude
begin

text \<open>
  The wire format, \<^verbatim>\<open>server/Message.hpp\<close>.  A message is one allocation: an 8-byte
  \<open>alloc_info_s\<close>, then, packed, the header (type, three reserved bytes, payload size) and
  the payload, whose layout depends on the type.  The bytes from the header on are a region
  of memory read through accessors, as in the source, so that what an accessor reads past
  the allocation is a value of the model too.  \<open>unsigned long\<close> and \<open>size_t\<close> are the 64-bit
  ones of the server.
\<close>

section \<open>Types\<close>

type_synonym msg_type = byte

abbreviation (input) "UNDEFINED \<equiv> 0 :: msg_type"
abbreviation (input) "CONFIG \<equiv> 1 :: msg_type"
abbreviation (input) "CONFIG_RESP \<equiv> 2 :: msg_type"
abbreviation (input) "DATA \<equiv> 3 :: msg_type"

datatype ConfigRespStatus = SUCCESS | ERROR

fun resp_code :: "ConfigRespStatus \<Rightarrow> byte" where
  "resp_code SUCCESS = 0"
| "resp_code ERROR = 1"

record block_info =
  control_base :: u32
  input_base :: u32
  output_base :: u32

record message =
  alloc_size :: u64
  as_bytes :: mem

abbreviation (input) "sizeof_alloc_info \<equiv> 8"
abbreviation (input) "sizeof_header \<equiv> 8"
abbreviation (input) "sizeof_config \<equiv> 12"
abbreviation (input) "sizeof_block_info \<equiv> 12"
abbreviation (input) "sizeof_data \<equiv> 4"

section \<open>Accessors and validity\<close>

definition mtype :: "message \<Rightarrow> msg_type" where "mtype msg = as_bytes msg 0"
definition payload_size :: "message \<Rightarrow> u32" where "payload_size msg = word_at (as_bytes msg) 4"

definition cfg_input_size :: "message \<Rightarrow> u32" where "cfg_input_size msg = word_at (as_bytes msg) 8"
definition cfg_output_size :: "message \<Rightarrow> u32" where "cfg_output_size msg = word_at (as_bytes msg) 12"
definition cfg_num_blocks :: "message \<Rightarrow> u32" where "cfg_num_blocks msg = word_at (as_bytes msg) 16"
definition resp_status :: "message \<Rightarrow> byte" where "resp_status msg = as_bytes msg 8"
definition data_id :: "message \<Rightarrow> u32" where "data_id msg = word_at (as_bytes msg) 8"

definition header_is_valid :: "msg_type \<Rightarrow> u32 \<Rightarrow> bool" where
  "header_is_valid t psize \<longleftrightarrow> (t = CONFIG \<or> t = CONFIG_RESP \<or> t = DATA) \<and> psize > 0"

definition get_message_size :: "message \<Rightarrow> u32" where
  "get_message_size msg = sizeof_header + payload_size msg"

definition has_valid_payload_size :: "message \<Rightarrow> bool" where
  "has_valid_payload_size msg \<longleftrightarrow>
     alloc_size msg = sizeof_alloc_info + ucast (get_message_size msg)"

definition is_valid_message :: "message \<Rightarrow> bool" where
  "is_valid_message msg \<longleftrightarrow>
     header_is_valid (mtype msg) (payload_size msg) \<and> has_valid_payload_size msg"

definition is_valid_config :: "message \<Rightarrow> bool" where
  "is_valid_config msg \<longleftrightarrow> is_valid_message msg \<and> mtype msg = CONFIG \<and>
     sizeof_config + ucast (cfg_num_blocks msg) * sizeof_block_info \<le> (ucast (payload_size msg) :: u64)"

definition get_block_info :: "message \<Rightarrow> u32 \<Rightarrow> block_info" where
  "get_block_info msg block_index =
     (let p = 20 + unat block_index * 12
      in \<lparr> control_base = word_at (as_bytes msg) p, input_base = word_at (as_bytes msg) (p + 4),
           output_base = word_at (as_bytes msg) (p + 8) \<rparr>)"

definition get_rbf_offset :: "message \<Rightarrow> u32" where
  "get_rbf_offset msg = cfg_num_blocks msg * sizeof_block_info"

definition get_rbf_size :: "message \<Rightarrow> u32" where
  "get_rbf_size msg = payload_size msg - sizeof_config - get_rbf_offset msg"

definition get_rbf_ptr :: "message \<Rightarrow> nat" where
  "get_rbf_ptr msg = 20 + unat (get_rbf_offset msg)"

definition is_valid_config_resp :: "message \<Rightarrow> bool" where
  "is_valid_config_resp msg \<longleftrightarrow> is_valid_message msg \<and> mtype msg = CONFIG_RESP \<and>
     payload_size msg = 1 \<and> (resp_status msg = resp_code SUCCESS \<or> resp_status msg = resp_code ERROR)"

definition get_data_size :: "message \<Rightarrow> u32" where
  "get_data_size msg = payload_size msg - sizeof_data"

definition is_valid_data :: "message \<Rightarrow> bool" where
  "is_valid_data msg \<longleftrightarrow> is_valid_message msg \<and> mtype msg = DATA"

text \<open>
  The one-argument overload divides by the block size, which traps when it is 0 (\<open>None\<close>);
  \<open>&&\<close> evaluates the division only for a valid data message.
\<close>

definition is_valid_data_of :: "message \<Rightarrow> u32 \<Rightarrow> bool option" where
  "is_valid_data_of msg data_block_size =
     (if is_valid_message msg \<and> mtype msg = DATA
      then if data_block_size = 0 then None
           else Some (get_data_size msg mod data_block_size = 0)
      else Some False)"

definition get_data_block_count :: "message \<Rightarrow> u32 \<Rightarrow> u32 option" where
  "get_data_block_count msg data_block_size =
     (if data_block_size = 0 then None else Some (get_data_size msg div data_block_size))"

section \<open>Construction\<close>

text \<open>
  \<open>fresh\<close> is the content of the newly allocated bytes, which the constructors overwrite only
  in part.  An allocation that fails is retried (\<open>new_message\<close>) or throws; both are outside
  the model: allocation succeeds.
\<close>

definition new_message :: "mem \<Rightarrow> u32 \<Rightarrow> message" where
  "new_message fresh psize =
     \<lparr> alloc_size = sizeof_alloc_info + sizeof_header + ucast psize,
       as_bytes = store32 (fresh(0 := UNDEFINED)) 4 psize \<rparr>"

definition store_block :: "mem \<Rightarrow> nat \<Rightarrow> block_info \<Rightarrow> mem" where
  "store_block m p b =
     store32 (store32 (store32 m p (control_base b)) (p + 4) (input_base b)) (p + 8) (output_base b)"

fun store_blocks :: "mem \<Rightarrow> nat \<Rightarrow> block_info list \<Rightarrow> mem" where
  "store_blocks m p [] = m"
| "store_blocks m p (b # bs) = store_blocks (store_block m p b) (p + 12) bs"

text \<open>
  \<open>payload_size\<close> is computed as a \<open>size_t\<close>, used so for the allocation and truncated to 32
  bits in the header; the RBF bytes are copied to \<open>get_rbf_ptr\<close>, that is past the blocks.
\<close>

definition new_config ::
  "mem \<Rightarrow> block_info list \<Rightarrow> u32 \<Rightarrow> u32 \<Rightarrow> mem option \<Rightarrow> u32 \<Rightarrow> message" where
  "new_config fresh blocks input_size output_size rbf_data rbf_size =
     (let num_blocks = (of_nat (length blocks) :: u64);
          psize = sizeof_config + num_blocks * sizeof_block_info + ucast rbf_size;
          m1 = store32 (fresh(0 := CONFIG)) 4 (ucast psize);
          m2 = store32 (store32 (store32 m1 8 input_size) 12 output_size) 16 (ucast num_blocks);
          msg = \<lparr> alloc_size = sizeof_alloc_info + sizeof_header + psize,
                  as_bytes = store_blocks m2 20 blocks \<rparr>
      in case rbf_data of
           None \<Rightarrow> msg
         | Some rbf \<Rightarrow> msg\<lparr> as_bytes :=
             store_bytes (as_bytes msg) (get_rbf_ptr msg) (bytes_at rbf 0 (unat rbf_size)) \<rparr>)"

definition new_config_resp :: "mem \<Rightarrow> ConfigRespStatus \<Rightarrow> message" where
  "new_config_resp fresh stat =
     \<lparr> alloc_size = sizeof_alloc_info + sizeof_header + 1,
       as_bytes = (store32 (fresh(0 := CONFIG_RESP)) 4 1)(8 := resp_code stat) \<rparr>"

definition new_data :: "mem \<Rightarrow> u32 \<Rightarrow> u32 \<Rightarrow> u32 \<Rightarrow> message" where
  "new_data fresh data_size data_count ident =
     (let psize = sizeof_data + data_size * data_count
      in \<lparr> alloc_size = sizeof_alloc_info + sizeof_header + ucast psize,
           as_bytes = store32 (store32 (fresh(0 := DATA)) 4 psize) 8 ident \<rparr>)"

lemmas accessor_defs = mtype_def payload_size_def cfg_input_size_def cfg_output_size_def
  cfg_num_blocks_def resp_status_def data_id_def

section \<open>Validity\<close>

lemma valid_payload_size_iff:
  "has_valid_payload_size msg \<longleftrightarrow> unat (alloc_size msg) = 8 + (8 + unat (payload_size msg)) mod 2 ^ 32"
proof -
  have "unat (get_message_size msg) = (8 + unat (payload_size msg)) mod 2 ^ 32"
    by (simp add: get_message_size_def unat_word_ariths)
  moreover from this have "unat (8 + ucast (get_message_size msg) :: u64) = 8 + (8 + unat (payload_size msg)) mod 2 ^ 32"
    by (simp add: unat_word_ariths)
  ultimately show ?thesis
    by (metis has_valid_payload_size_def word_unat_eq_iff)
qed

lemma alloc_valid_iff:
  assumes "alloc_size msg = 16 + ucast (payload_size msg)"
  shows "has_valid_payload_size msg \<longleftrightarrow> unat (payload_size msg) < 2 ^ 32 - 8"
proof -
  have lt: "unat (payload_size msg) < 2 ^ 32" using unsigned_less[of "payload_size msg"] by simp
  then have "unat (alloc_size msg) = 16 + unat (payload_size msg)"
    unfolding assms by (simp add: unat_word_ariths)
  then show ?thesis using lt unfolding valid_payload_size_iff by (auto simp: mod_if)
qed

lemma new_message_fields [simp]:
  "mtype (new_message fresh n) = UNDEFINED"
  "payload_size (new_message fresh n) = n"
  "alloc_size (new_message fresh n) = 16 + ucast n"
  by (simp_all add: new_message_def accessor_defs)

lemma new_data_fields [simp]:
  "mtype (new_data fresh ds dc i) = DATA"
  "payload_size (new_data fresh ds dc i) = 4 + ds * dc"
  "data_id (new_data fresh ds dc i) = i"
  "alloc_size (new_data fresh ds dc i) = 16 + ucast (4 + ds * dc)"
  by (simp_all add: new_data_def accessor_defs Let_def)

lemma new_config_resp_fields [simp]:
  "mtype (new_config_resp fresh st) = CONFIG_RESP"
  "payload_size (new_config_resp fresh st) = 1"
  "resp_status (new_config_resp fresh st) = resp_code st"
  "alloc_size (new_config_resp fresh st) = 17"
  by (simp_all add: new_config_resp_def accessor_defs)

lemma data_valid_iff:
  "is_valid_data (new_data fresh ds dc i) \<longleftrightarrow> 4 + ds * dc \<noteq> 0 \<and> unat (4 + ds * dc) < 2 ^ 32 - 8"
  by (simp add: is_valid_data_def is_valid_message_def header_is_valid_def alloc_valid_iff
      word_neq_0_conv)

lemma data_blocks:
  assumes "4 + unat ds * unat dc < 2 ^ 32 - 8" and "ds \<noteq> 0"
  shows "is_valid_data_of (new_data fresh ds dc i) ds = Some True \<and>
    unat (get_data_size (new_data fresh ds dc i)) = unat ds * unat dc \<and>
    get_data_block_count (new_data fresh ds dc i) ds = Some dc"
proof -
  let ?m = "new_data fresh ds dc i"
  have m: "unat (ds * dc) = unat ds * unat dc" using assms(1) by (simp add: unat_word_ariths)
  have p: "unat (4 + ds * dc) = 4 + unat ds * unat dc"
    using assms(1) by (simp add: unat_word_ariths)
  have sz: "get_data_size ?m = ds * dc" by (simp add: get_data_size_def)
  have "4 + ds * dc \<noteq> 0" using p by (metis add_is_0 unat_0 zero_neq_numeral)
  then have v: "is_valid_data ?m" using assms(1) p by (simp add: data_valid_iff)
  have "0 < unat ds" using assms(2) by (simp add: unat_gt_0)
  then have "ds * dc div ds = dc" "ds * dc mod ds = 0"
    by (simp_all add: word_arith_nat_div word_arith_nat_mod m)
  with v sz m assms(2) show ?thesis
    by (simp add: is_valid_data_of_def is_valid_data_def get_data_block_count_def)
qed

text \<open>
  a data message is valid exactly when its payload size, taken modulo 2^32, is not 0
  and leaves room for the header in a 32-bit message size.
\<close>

theorem new_data_valid_iff:
  "is_valid_data (new_data fresh ds dc i) \<longleftrightarrow> 4 + ds * dc \<noteq> 0 \<and> unat (4 + ds * dc) < 2 ^ 32 - 8"
  by (rule data_valid_iff)

text \<open>
  A data message made for \<open>dc\<close> blocks of \<open>ds\<close> bytes, the whole within a 32-bit size,
  passes the receiver's check for that block size and reports exactly \<open>dc\<close> blocks.
\<close>

theorem new_data_blocks:
  assumes "4 + unat ds * unat dc < 2 ^ 32 - 8" and "ds \<noteq> 0"
  shows "is_valid_data_of (new_data fresh ds dc i) ds = Some True \<and>
    unat (get_data_size (new_data fresh ds dc i)) = unat ds * unat dc \<and>
    get_data_block_count (new_data fresh ds dc i) ds = Some dc"
  using assms by (rule data_blocks)

theorem new_data_blocks_witness:
  "get_data_block_count (new_data (\<lambda>_. 0) 16 5 7) 16 = Some 5"
  using new_data_blocks[of 16 5 "\<lambda>_. 0" 7] by simp

section \<open>Configuration messages\<close>

lemma store_block_other [simp]: "q < p \<or> p + 12 \<le> q \<Longrightarrow> store_block m p b q = m q"
  by (auto simp: store_block_def)

lemma store_blocks_other: "q < p \<or> p + 12 * length bs \<le> q \<Longrightarrow> store_blocks m p bs q = m q"
  by (induction m p bs rule: store_blocks.induct) auto

lemma word_at_store_blocks_other [simp]:
  "q + 4 \<le> p \<or> p + 12 * length bs \<le> q \<Longrightarrow> word_at (store_blocks m p bs) q = word_at m q"
  by (auto simp: word_at_def store_blocks_other)

lemma word_at_store_block:
  "word_at (store_block m p b) p = control_base b"
  "word_at (store_block m p b) (p + 4) = input_base b"
  "word_at (store_block m p b) (p + 8) = output_base b"
  by (simp_all add: store_block_def)

lemma word_at_store_blocks:
  assumes "i < length bs"
  shows "word_at (store_blocks m p bs) (p + 12 * i) = control_base (bs ! i)"
    and "word_at (store_blocks m p bs) (p + 12 * i + 4) = input_base (bs ! i)"
    and "word_at (store_blocks m p bs) (p + 12 * i + 8) = output_base (bs ! i)"
proof -
  have "word_at (store_blocks m p bs) (p + 12 * i) = control_base (bs ! i) \<and>
    word_at (store_blocks m p bs) (p + 12 * i + 4) = input_base (bs ! i) \<and>
    word_at (store_blocks m p bs) (p + 12 * i + 8) = output_base (bs ! i)"
    using assms
  proof (induction m p bs arbitrary: i rule: store_blocks.induct)
    case (2 m p b bs)
    show ?case
    proof (cases i)
      case 0
      then show ?thesis by (simp add: word_at_store_block)
    next
      case (Suc j)
      with 2 have "word_at (store_blocks (store_block m p b) (p + 12) bs) (p + 12 + 12 * j) = control_base (bs ! j) \<and>
        word_at (store_blocks (store_block m p b) (p + 12) bs) (p + 12 + 12 * j + 4) = input_base (bs ! j) \<and>
        word_at (store_blocks (store_block m p b) (p + 12) bs) (p + 12 + 12 * j + 8) = output_base (bs ! j)"
        by simp
      then show ?thesis using Suc by (simp add: add.assoc)
    qed
  qed simp
  then show "word_at (store_blocks m p bs) (p + 12 * i) = control_base (bs ! i)"
    "word_at (store_blocks m p bs) (p + 12 * i + 4) = input_base (bs ! i)"
    "word_at (store_blocks m p bs) (p + 12 * i + 8) = output_base (bs ! i)" by auto
qed

text \<open>The blocks a configuration message carries, read back one by one.\<close>

definition get_blocks :: "message \<Rightarrow> block_info list" where
  "get_blocks msg = map (\<lambda>i. get_block_info msg (of_nat i)) [0..<unat (cfg_num_blocks msg)]"

text \<open>The configuration region never wraps around in a message of valid size.\<close>

lemma valid_config_bounds:
  assumes "is_valid_config msg"
  shows "12 + 12 * unat (cfg_num_blocks msg) \<le> unat (payload_size msg)"
    and "unat (get_rbf_offset msg) = 12 * unat (cfg_num_blocks msg)"
    and "12 + unat (get_rbf_offset msg) + unat (get_rbf_size msg) = unat (payload_size msg)"
proof -
  let ?n = "unat (cfg_num_blocks msg)" and ?s = "unat (payload_size msg)"
  have n: "?n < 2 ^ 32" and s: "?s < 2 ^ 32"
    using unsigned_less[of "cfg_num_blocks msg"] unsigned_less[of "payload_size msg"] by simp_all
  have "unat (12 + ucast (cfg_num_blocks msg) * 12 :: u64) = 12 + 12 * ?n"
    using n by (simp add: unat_word_ariths)
  then show le: "12 + 12 * ?n \<le> ?s"
    using assms unfolding is_valid_config_def word_le_nat_alt unat_widen64 by simp
  then show off: "unat (get_rbf_offset msg) = 12 * ?n"
    using s by (simp add: get_rbf_offset_def unat_word_ariths)
  have "12 \<le> payload_size msg" using le by (simp add: word_le_nat_alt)
  moreover have "get_rbf_offset msg \<le> payload_size msg - 12"
    using le off calculation by (simp add: word_le_nat_alt unat_sub)
  ultimately have "unat (get_rbf_size msg) = ?s - 12 - 12 * ?n"
    by (simp add: get_rbf_size_def unat_sub off)
  then show "12 + unat (get_rbf_offset msg) + unat (get_rbf_size msg) = ?s" using le off by simp
qed

lemma new_config_psize:
  assumes "12 + 12 * length bs + unat (rs :: u32) < 2 ^ 32 - 8"
  shows "unat (12 + of_nat (length bs) * 12 + ucast rs :: u64) = 12 + 12 * length bs + unat rs"
    and "unat (ucast (12 + of_nat (length bs) * 12 + ucast rs :: u64) :: u32) = 12 + 12 * length bs + unat rs"
    and "unat (ucast (of_nat (length bs) :: u64) :: u32) = length bs"
proof -
  have l: "unat (of_nat (length bs) :: u64) = length bs"
    using assms by (simp add: unat_of_nat)
  then show u: "unat (12 + of_nat (length bs) * 12 + ucast rs :: u64) = 12 + 12 * length bs + unat rs"
    using assms by (simp add: unat_word_ariths)
  show "unat (ucast (12 + of_nat (length bs) * 12 + ucast rs :: u64) :: u32) = 12 + 12 * length bs + unat rs"
    unfolding unsigned_ucast_eq u using assms by (simp add: take_bit_nat_eq_self)
  show "unat (ucast (of_nat (length bs) :: u64) :: u32) = length bs"
    unfolding unsigned_ucast_eq l using assms by (simp add: take_bit_nat_eq_self)
qed


lemma new_config_fields:
  fixes bs :: "block_info list" and rs :: u32 and fresh rbf :: mem and isz osz :: u32
  defines "msg \<equiv> new_config fresh bs isz osz (Some rbf) rs"
  assumes fit: "12 + 12 * length bs + unat rs < 2 ^ 32 - 8"
  shows "mtype msg = CONFIG" "unat (payload_size msg) = 12 + 12 * length bs + unat rs"
    "cfg_input_size msg = isz" "cfg_output_size msg = osz" "unat (cfg_num_blocks msg) = length bs"
    "alloc_size msg = 16 + ucast (payload_size msg)"
    "get_rbf_ptr msg = 20 + 12 * length bs"
    "bytes_at (as_bytes msg) (20 + 12 * length bs) (unat rs) = bytes_at rbf 0 (unat rs)"
    "i < length bs \<Longrightarrow> get_block_info msg (of_nat i) = bs ! i"
proof -
  let ?p = "12 + of_nat (length bs) * 12 + ucast rs :: u64"
  let ?n = "ucast (of_nat (length bs) :: u64) :: u32"
  let ?m1 = "store32 (fresh(0 := CONFIG)) 4 (ucast ?p)"
  let ?m2 = "store32 (store32 (store32 ?m1 8 isz) 12 osz) 16 ?n"
  let ?m3 = "store_blocks ?m2 20 bs"
  let ?q = "20 + 12 * length bs"
  note ps = new_config_psize[OF fit]
  have rn: "unat (?n * 12) = 12 * length bs"
    using ps(3) fit by (simp add: unat_word_ariths)
  have ptr: "get_rbf_ptr \<lparr>alloc_size = 8 + 8 + ?p, as_bytes = ?m3\<rparr> = ?q"
    by (simp add: get_rbf_ptr_def get_rbf_offset_def cfg_num_blocks_def rn)
  have msg: "msg = \<lparr>alloc_size = 8 + 8 + ?p,
      as_bytes = store_bytes ?m3 ?q (bytes_at rbf 0 (unat rs))\<rparr>"
    unfolding msg_def new_config_def Let_def option.case ptr by simp
  show ty: "mtype msg = CONFIG" by (simp add: msg mtype_def store_blocks_other)
  have psz: "payload_size msg = ucast ?p" by (simp add: msg payload_size_def)
  then show "unat (payload_size msg) = 12 + 12 * length bs + unat rs" by (simp only: ps)
  show "cfg_input_size msg = isz" "cfg_output_size msg = osz"
    by (simp_all add: msg accessor_defs)
  have nb: "cfg_num_blocks msg = ?n" by (simp add: msg cfg_num_blocks_def)
  then show "unat (cfg_num_blocks msg) = length bs" by (simp only: ps)
  have "unat (ucast (payload_size msg) :: u64) = unat ?p" unfolding psz unat_widen64 ps ..
  then have "ucast (payload_size msg) = ?p" by (simp only: word_unat_eq_iff)
  then show "alloc_size msg = 16 + ucast (payload_size msg)" by (simp add: msg)
  show "get_rbf_ptr msg = 20 + 12 * length bs"
    by (simp add: get_rbf_ptr_def get_rbf_offset_def nb rn)
  show "bytes_at (as_bytes msg) ?q (unat rs) = bytes_at rbf 0 (unat rs)"
    using bytes_at_store_bytes[of ?m3 ?q "bytes_at rbf 0 (unat rs)"] by (simp add: msg)
  show "get_block_info msg (of_nat i) = bs ! i" if "i < length bs"
  proof -
    have u: "unat (of_nat i :: u32) = i" using that fit by (simp add: unat_of_nat)
    show ?thesis
      unfolding get_block_info_def Let_def u
      using word_at_store_blocks[OF that, of ?m2 20] that
      by (simp add: msg mult.commute add.commute[of 20] add.assoc)
  qed
qed

lemma config_roundtrip:
  assumes "12 + 12 * length blocks + unat rbf_size < 2 ^ 32 - 8"
  shows "let msg = new_config fresh blocks input_size output_size (Some rbf_data) rbf_size
    in is_valid_config msg \<and> cfg_input_size msg = input_size \<and> cfg_output_size msg = output_size \<and>
       get_blocks msg = blocks \<and> get_rbf_size msg = rbf_size \<and>
       bytes_at (as_bytes msg) (get_rbf_ptr msg) (unat rbf_size) = bytes_at rbf_data 0 (unat rbf_size)"
proof -
  let ?msg = "new_config fresh blocks input_size output_size (Some rbf_data) rbf_size"
  note f = new_config_fields[OF assms, where fresh = fresh and isz = input_size and osz = output_size and rbf = rbf_data]
  have "has_valid_payload_size ?msg" using f(2) assms by (simp add: alloc_valid_iff[OF f(6)])
  moreover have "payload_size ?msg \<noteq> 0" using f(2) by (metis add_is_0 unat_0 zero_neq_numeral)
  moreover have "unat (12 + ucast (cfg_num_blocks ?msg) * 12 :: u64) \<le> unat (ucast (payload_size ?msg) :: u64)"
    using assms f(2,5) by (simp add: unat_word_ariths)
  ultimately have v: "is_valid_config ?msg"
    using f(1) by (simp add: is_valid_config_def is_valid_message_def header_is_valid_def
        word_le_nat_alt word_neq_0_conv)
  moreover have "get_blocks ?msg = blocks"
    unfolding get_blocks_def f(5) by (rule nth_equalityI) (simp_all add: f(9))
  moreover have "unat (get_rbf_size ?msg) = unat rbf_size"
    using valid_config_bounds(2,3)[OF v] f(2,5) by simp
  ultimately show ?thesis using f by (simp add: word_unat_eq_iff)
qed

text \<open>
  C15: a configuration message of a size that fits 32 bits is valid, and its accessors
  return what it was made of: the sizes, every block description, and the RBF image, at
  \<open>get_rbf_ptr\<close> and of size \<open>get_rbf_size\<close>.
\<close>

theorem new_config_roundtrip:
  assumes "12 + 12 * length blocks + unat rbf_size < 2 ^ 32 - 8"
  shows "let msg = new_config fresh blocks input_size output_size (Some rbf_data) rbf_size
    in is_valid_config msg \<and> cfg_input_size msg = input_size \<and> cfg_output_size msg = output_size \<and>
       get_blocks msg = blocks \<and> get_rbf_size msg = rbf_size \<and>
       bytes_at (as_bytes msg) (get_rbf_ptr msg) (unat rbf_size) = bytes_at rbf_data 0 (unat rbf_size)"
  using assms by (rule config_roundtrip)

theorem new_config_roundtrip_witness:
  "is_valid_config (new_config (\<lambda>_. 0xff) [\<lparr> control_base = 1, input_base = 2, output_base = 3 \<rparr>] 16 4
     (Some (\<lambda>i. of_nat i)) 9) \<and>
   get_blocks (new_config (\<lambda>_. 0xff) [\<lparr> control_base = 1, input_base = 2, output_base = 3 \<rparr>] 16 4
     (Some (\<lambda>i. of_nat i)) 9) = [\<lparr> control_base = 1, input_base = 2, output_base = 3 \<rparr>]"
  using new_config_roundtrip[of "[\<lparr> control_base = 1, input_base = 2, output_base = 3 \<rparr>]" 9
    "\<lambda>_. 0xff" 16 4 "\<lambda>i. of_nat i"]
  by (simp add: Let_def)

text \<open>
  In a configuration message that passes \<open>is_valid_config\<close> the block table starts at
  byte 20, the RBF image starts where the table ends, and the image ends where the payload
  ends, without wrap-around, whatever the sender put in the size fields.
\<close>

theorem valid_config_regions:
  assumes "is_valid_config msg"
  shows "get_rbf_ptr msg = 20 + 12 * unat (cfg_num_blocks msg) \<and>
    get_rbf_ptr msg + unat (get_rbf_size msg) = 8 + unat (payload_size msg)"
  using valid_config_bounds[OF assms] by (simp add: get_rbf_ptr_def)

theorem valid_config_regions_witness:
  "get_rbf_ptr (new_config (\<lambda>_. 0xff) [] 16 4 (Some (\<lambda>i. of_nat i)) 9) = 20"
proof -
  let ?m = "new_config (\<lambda>_. 0xff) [] 16 4 (Some (\<lambda>i. of_nat i)) 9"
  note f = new_config_fields[where bs = "[]" and rs = 9 and fresh = "\<lambda>_. 0xff" and isz = 16
    and osz = 4 and rbf = "\<lambda>i. of_nat i"]
  have "is_valid_config ?m"
    using f(1,2,5,6)
    by (auto simp: is_valid_config_def is_valid_message_def header_is_valid_def alloc_valid_iff
        word_gt_0 unat_eq_zero word_le_nat_alt)
  from valid_config_regions[OF this] f(5) show ?thesis by simp
qed

text \<open>
  A configuration response is valid and tells success from error.
\<close>

lemma config_resp_valid:
  "is_valid_config_resp (new_config_resp fresh stat) \<and>
   (resp_status (new_config_resp fresh stat) = resp_code SUCCESS \<longleftrightarrow> stat = SUCCESS)"
  by (cases stat) (simp_all add: is_valid_config_resp_def is_valid_message_def header_is_valid_def
      has_valid_payload_size_def get_message_size_def)


end
