(* ===== verification/Connection.thy ===== *)
theory Connection
  imports Message
begin

text \<open>
  A TCP connection that carries messages, \<^verbatim>\<open>server/Connection.hpp\<close>.  The socket is Boost.Asio's
  and a parameter: \<open>rd\<close> is \<open>async_read_some\<close> and \<open>wr\<close> is \<open>async_write_some\<close>, over a socket
  state of any type.  What the program relies on is the documented contract of the two
  (\<open>reads_stream\<close>, \<open>writes_stream\<close>): they move some bytes, at least one unless they report
  an error, and at most as many as asked.
\<close>

section \<open>Sockets and error codes\<close>

datatype error_code = Eof | Fault | Operation_aborted | Other nat

type_synonym 's read_some = "'s \<Rightarrow> u32 \<Rightarrow> (error_code option \<times> byte list) \<times> 's"
type_synonym 's write_some = "'s \<Rightarrow> byte list \<Rightarrow> (error_code option \<times> nat) \<times> 's"

section \<open>The connection\<close>

partial_function (option) read_exactly ::
  "'s read_some \<Rightarrow> 's \<Rightarrow> u32 \<Rightarrow> ((error_code option \<times> byte list) \<times> 's) option" where
  "read_exactly rd s len =
     (case rd s len of ((ec, bs), s') \<Rightarrow>
        if ec \<noteq> None then Some ((ec, bs), s')
        else if length bs < unat len
        then Option.bind (read_exactly rd s' (len - of_nat (length bs)))
               (\<lambda>r. case r of ((ec, bs'), s'') \<Rightarrow> Some ((ec, bs @ bs'), s''))
        else Some ((ec, bs), s'))"

partial_function (option) write_exactly ::
  "'s write_some \<Rightarrow> 's \<Rightarrow> byte list \<Rightarrow> (error_code option \<times> 's) option" where
  "write_exactly wr s bs =
     (case wr s bs of ((ec, n), s') \<Rightarrow>
        if ec \<noteq> None then Some (ec, s')
        else if n < length bs then write_exactly wr s' (drop n bs)
        else Some (ec, s'))"

text \<open>
  \<open>receive_message\<close>: the header first; an invalid one is a fault and its payload is not
  read.  The message is allocated for the announced size (\<open>fresh\<close> is what the allocation
  holds), gets the received type, and the payload is read into it.
\<close>

definition receive_message ::
  "'s read_some \<Rightarrow> mem \<Rightarrow> 's \<Rightarrow> ((error_code option \<times> message option) \<times> 's) option" where
  "receive_message rd fresh s =
     Option.bind (read_exactly rd s sizeof_header) (\<lambda>((ec, hbytes), s1).
       if ec \<noteq> None then Some ((ec, None), s1)
       else let header = store_bytes (\<lambda>_. 0) 0 hbytes;
                htype = header 0; hsize = word_at header 4
            in if \<not> header_is_valid htype hsize then Some ((Some Fault, None), s1)
               else let msg = new_message fresh hsize;
                        msg = msg\<lparr> as_bytes := (as_bytes msg)(0 := htype) \<rparr>
                    in Option.bind (read_exactly rd s1 hsize) (\<lambda>((ec, pbytes), s2).
                         let msg = msg\<lparr> as_bytes := store_bytes (as_bytes msg) 8 pbytes \<rparr>
                         in if ec \<noteq> None then Some ((ec, None), s2)
                            else if \<not> is_valid_message msg then Some ((Some Fault, None), s2)
                            else Some ((ec, Some msg), s2)))"

text \<open>The bytes \<open>send_message\<close> puts on the wire.\<close>

definition wire :: "message \<Rightarrow> byte list" where
  "wire msg = bytes_at (as_bytes msg) 0 (unat (get_message_size msg))"

definition send_message ::
  "'s write_some \<Rightarrow> 's \<Rightarrow> message \<Rightarrow> (error_code option \<times> 's) option" where
  "send_message wr s msg =
     (if \<not> is_valid_message msg then Some (Some Fault, s) else write_exactly wr s (wire msg))"

text \<open>The identity of a peer; \<open>junk\<close> is the two bytes of \<open>i64\<close> that \<open>from_endpoint\<close> leaves unset.\<close>

datatype conn_id = ID (i64: u64)

definition from_endpoint :: "byte \<Rightarrow> byte \<Rightarrow> byte \<Rightarrow> byte \<Rightarrow> u16 \<Rightarrow> u16 \<Rightarrow> conn_id" where
  "from_endpoint ip0 ip1 ip2 ip3 port junk =
     ID (ucast (le32 ip0 ip1 ip2 ip3) OR push_bit 32 (ucast port) OR push_bit 48 (ucast junk))"

instantiation conn_id :: linorder
begin

definition less_conn_id :: "conn_id \<Rightarrow> conn_id \<Rightarrow> bool" where
  "a < b \<longleftrightarrow> i64 a < i64 b"

definition less_eq_conn_id :: "conn_id \<Rightarrow> conn_id \<Rightarrow> bool" where
  "a \<le> b \<longleftrightarrow> i64 a \<le> i64 b"

instance
  by standard (auto simp: less_conn_id_def less_eq_conn_id_def conn_id.expand)

end

section \<open>The socket's contract\<close>

text \<open>
  \<open>pending s\<close>: the bytes the peer has sent, or will send, that were not read yet.
  \<open>sent s\<close>: the bytes accepted for sending so far.
\<close>

definition reads_stream :: "('s \<Rightarrow> byte list) \<Rightarrow> 's read_some \<Rightarrow> bool" where
  "reads_stream pending rd \<longleftrightarrow>
     (\<forall>s len. 0 < len \<longrightarrow>
        (case rd s len of ((ec, bs), s') \<Rightarrow>
           length bs \<le> unat len \<and> pending s = bs @ pending s' \<and> (ec = None \<longrightarrow> bs \<noteq> [])))"

definition no_read_error :: "('s \<Rightarrow> byte list) \<Rightarrow> 's read_some \<Rightarrow> bool" where
  "no_read_error pending rd \<longleftrightarrow>
     (\<forall>s len. 0 < len \<longrightarrow> pending s \<noteq> [] \<longrightarrow> fst (fst (rd s len)) = None)"

definition writes_stream :: "('s \<Rightarrow> byte list) \<Rightarrow> 's write_some \<Rightarrow> bool" where
  "writes_stream sent wr \<longleftrightarrow>
     (\<forall>s bs. bs \<noteq> [] \<longrightarrow>
        (case wr s bs of ((ec, n), s') \<Rightarrow>
           n \<le> length bs \<and> sent s' = sent s @ take n bs \<and> (ec = None \<longrightarrow> 0 < n)))"

lemma reads_streamD:
  assumes "reads_stream pending rd" and "0 < len" and "rd s len = ((ec, bs), s')"
  shows "length bs \<le> unat len \<and> pending s = bs @ pending s' \<and> (ec = None \<longrightarrow> bs \<noteq> [])"
  using spec[OF spec[OF assms(1)[unfolded reads_stream_def], of s], of len] assms(2,3) by simp

lemma writes_streamD:
  assumes "writes_stream sent wr" and "bs \<noteq> []" and "wr s bs = ((ec, n), s')"
  shows "n \<le> length bs \<and> sent s' = sent s @ take n bs \<and> (ec = None \<longrightarrow> 0 < n)"
  using spec[OF spec[OF assms(1)[unfolded writes_stream_def], of s], of bs] assms(2,3) by simp

lemma no_read_errorD:
  assumes "no_read_error pending rd" and "0 < len" and "rd s len = ((ec, bs), s')" and "pending s \<noteq> []"
  shows "ec = None"
  using spec[OF spec[OF assms(1)[unfolded no_read_error_def], of s], of len] assms(2-4) by simp

section \<open>Exact reads and writes\<close>

lemma read_exactly_total:
  assumes "reads_stream pending rd" and "0 < len"
  shows "\<exists>ec bs s'. read_exactly rd s len = Some ((ec, bs), s') \<and> pending s = bs @ pending s' \<and>
    length bs \<le> unat len \<and> (ec = None \<longrightarrow> length bs = unat len) \<and>
    (no_read_error pending rd \<and> unat len \<le> length (pending s) \<longrightarrow> ec = None)"
  using assms(2)
proof (induction "unat len" arbitrary: s len rule: less_induct)
  case less
  obtain ec bs s' where r: "rd s len = ((ec, bs), s')" by (metis prod.exhaust)
  have c: "length bs \<le> unat len" "pending s = bs @ pending s'" "ec = None \<longrightarrow> bs \<noteq> []"
    using reads_streamD[OF assms(1) less.prems r] by blast+
  have lp: "0 < unat len" using less.prems by (simp add: word_less_nat_alt)
  show ?case
  proof (cases "ec = None \<and> length bs < unat len")
    case True
    let ?len' = "len - of_nat (length bs)"
    have "of_nat (length bs) \<le> len"
      using c(1) by (metis le_unat_uoi word_le_nat_alt)
    moreover have "unat (of_nat (length bs) :: u32) = length bs"
      using c(1) by (metis le_unat_uoi)
    ultimately have u: "unat ?len' = unat len - length bs" by (simp add: unat_sub)
    then have "unat ?len' < unat len" and "0 < ?len'"
      using True c(3) lp by (auto simp: word_less_nat_alt)
    from less.hyps[OF this, of s'] obtain ec' bs' s'' where
      "read_exactly rd s' ?len' = Some ((ec', bs'), s'')" "pending s' = bs' @ pending s''"
      "length bs' \<le> unat ?len'" "ec' = None \<longrightarrow> length bs' = unat ?len'"
      "no_read_error pending rd \<and> unat ?len' \<le> length (pending s') \<longrightarrow> ec' = None" by blast
    moreover have "read_exactly rd s len = Some ((ec', bs @ bs'), s'')"
      using True calculation(1) by (subst read_exactly.simps) (simp add: r)
    ultimately show ?thesis using c u by fastforce
  next
    case False
    have "ec = None" if "no_read_error pending rd" "unat len \<le> length (pending s)"
      using no_read_errorD[OF that(1) less.prems r] that(2) lp by fastforce
    moreover have "ec = None \<longrightarrow> length bs = unat len" using False c(1) by auto
    moreover have "read_exactly rd s len = Some ((ec, bs), s')"
      using False by (subst read_exactly.simps) (auto simp: r)
    ultimately show ?thesis using c by blast
  qed
qed

lemma write_exactly_total:
  assumes "writes_stream sent wr" and "bs \<noteq> []"
  shows "\<exists>ec s' k. write_exactly wr s bs = Some (ec, s') \<and> sent s' = sent s @ take k bs \<and>
    (ec = None \<longrightarrow> take k bs = bs)"
  using assms(2)
proof (induction "length bs" arbitrary: s bs rule: less_induct)
  case less
  obtain ec n s' where w: "wr s bs = ((ec, n), s')" by (metis prod.exhaust)
  have c: "n \<le> length bs" "sent s' = sent s @ take n bs" "ec = None \<longrightarrow> 0 < n"
    using writes_streamD[OF assms(1) less.prems w] by blast+
  show ?case
  proof (cases "ec = None \<and> n < length bs")
    case True
    then have "length (drop n bs) < length bs" "drop n bs \<noteq> []" using c by auto
    from less.hyps[OF this, of s'] obtain ec' s'' k where
      "write_exactly wr s' (drop n bs) = Some (ec', s'')"
      "sent s'' = sent s' @ take k (drop n bs)" "ec' = None \<longrightarrow> take k (drop n bs) = drop n bs"
      by blast
    then have "write_exactly wr s bs = Some (ec', s'') \<and> sent s'' = sent s @ take (n + k) bs \<and>
        (ec' = None \<longrightarrow> take (n + k) bs = bs)"
      using True c by (subst write_exactly.simps) (simp add: w take_add)
    then show ?thesis by blast
  next
    case False
    show ?thesis
    proof -
      have "write_exactly wr s bs = Some (ec, s')"
        using False by (subst write_exactly.simps) (auto simp: w)
      moreover have "ec = None \<longrightarrow> take n bs = bs" using False c(1) by auto
      ultimately show ?thesis using c by blast
    qed
  qed
qed

section \<open>Sending\<close>

lemma valid_size_nonzero:
  assumes "is_valid_message msg" and "unat (payload_size msg) < 2 ^ 32 - 8"
  shows "unat (get_message_size msg) = 8 + unat (payload_size msg)"
    and "wire msg \<noteq> []"
proof -
  show u: "unat (get_message_size msg) = 8 + unat (payload_size msg)"
    using assms(2) by (simp add: get_message_size_def unat_word_ariths)
  then show "wire msg \<noteq> []" by (auto simp: wire_def dest: arg_cong[where f = length])
qed

text \<open>
  \<open>send_message\<close> returns for every socket that keeps its contract; an invalid message
  is a fault and nothing is written; what is written is a prefix of the message's bytes, and
  all of them exactly once, in order, when it reports no error, however the socket splits
  the writes.
\<close>

theorem send_message_delivers:
  assumes "writes_stream sent wr" and "unat (payload_size msg) < 2 ^ 32 - 8"
  shows "\<exists>ec s' k. send_message wr s msg = Some (ec, s') \<and>
    sent s' = sent s @ take k (wire msg) \<and>
    (is_valid_message msg \<or> ec = Some Fault \<and> s' = s) \<and>
    (ec = None \<longrightarrow> take k (wire msg) = wire msg)"
proof (cases "is_valid_message msg")
  case True
  then show ?thesis
    using write_exactly_total[OF assms(1) valid_size_nonzero(2)[OF True assms(2)], of s]
    by (simp add: send_message_def)
next
  case False
  then show ?thesis by (auto simp: send_message_def intro: exI[of _ 0])
qed

section \<open>Receiving\<close>

text \<open>Two messages with the same content: everything but the reserved header bytes.\<close>

definition same_content :: "message \<Rightarrow> message \<Rightarrow> bool" where
  "same_content m1 m2 \<longleftrightarrow> mtype m1 = mtype m2 \<and> payload_size m1 = payload_size m2 \<and>
     bytes_at (as_bytes m1) 8 (unat (payload_size m1)) = bytes_at (as_bytes m2) 8 (unat (payload_size m2))"

definition received :: "mem \<Rightarrow> byte list \<Rightarrow> byte list \<Rightarrow> message" where
  "received fresh hb pb =
     (let header = store_bytes (\<lambda>_. 0) 0 hb;
          msg = new_message fresh (word_at header 4)
      in msg\<lparr> as_bytes := store_bytes ((as_bytes msg)(0 := header 0)) 8 pb \<rparr>)"

lemma received_fields:
  assumes "length hb = 8"
  shows "mtype (received fresh hb pb) = hb ! 0"
    and "payload_size (received fresh hb pb) = le32 (hb ! 4) (hb ! 5) (hb ! 6) (hb ! 7)"
    and "alloc_size (received fresh hb pb) = 16 + ucast (payload_size (received fresh hb pb))"
    and "bytes_at (as_bytes (received fresh hb pb)) 8 (length pb) = pb"
proof -
  have w: "word_at (store_bytes (\<lambda>_. 0) 0 hb) 4 = le32 (hb ! 4) (hb ! 5) (hb ! 6) (hb ! 7)"
    using assms by (simp add: word_at_def store_bytes_def)
  show "mtype (received fresh hb pb) = hb ! 0"
    using assms by (simp add: received_def mtype_def Let_def) (simp add: store_bytes_def)
  show p: "payload_size (received fresh hb pb) = le32 (hb ! 4) (hb ! 5) (hb ! 6) (hb ! 7)"
    by (simp add: received_def payload_size_def Let_def new_message_def w)
  show "alloc_size (received fresh hb pb) = 16 + ucast (payload_size (received fresh hb pb))"
    unfolding p by (simp add: received_def Let_def w)
  show "bytes_at (as_bytes (received fresh hb pb)) 8 (length pb) = pb"
    using bytes_at_store_bytes by (simp add: received_def Let_def)
qed

lemma receive_cases:
  assumes c: "reads_stream pending rd"
  obtains (header_error) e s' hb where "receive_message rd fresh s = Some ((Some e, None), s')"
      "pending s = hb @ pending s'" "no_read_error pending rd \<longrightarrow> length (pending s) < 8"
  | (bad_header) hb s' where "receive_message rd fresh s = Some ((Some Fault, None), s')"
      "pending s = hb @ pending s'" "length hb = 8"
      "\<not> header_is_valid (hb ! 0) (le32 (hb ! 4) (hb ! 5) (hb ! 6) (hb ! 7))"
  | (payload_error) hb pb e s' where "receive_message rd fresh s = Some ((Some e, None), s')"
      "pending s = hb @ pb @ pending s'" "length hb = 8"
      "no_read_error pending rd \<longrightarrow>
         length (pending s) < 8 + unat (le32 (hb ! 4) (hb ! 5) (hb ! 6) (hb ! 7))"
  | (complete) hb pb s' where "pending s = hb @ pb @ pending s'" "length hb = 8"
      "length pb = unat (le32 (hb ! 4) (hb ! 5) (hb ! 6) (hb ! 7))"
      "header_is_valid (hb ! 0) (le32 (hb ! 4) (hb ! 5) (hb ! 6) (hb ! 7))"
      "receive_message rd fresh s =
         (if is_valid_message (received fresh hb pb)
          then Some ((None, Some (received fresh hb pb)), s') else Some ((Some Fault, None), s'))"
proof -
  obtain ec hb s1 where h: "read_exactly rd s 8 = Some ((ec, hb), s1)" "pending s = hb @ pending s1"
      "length hb \<le> 8" "ec = None \<longrightarrow> length hb = 8"
      "no_read_error pending rd \<and> 8 \<le> length (pending s) \<longrightarrow> ec = None"
    using read_exactly_total[OF c, of 8 s, simplified] by blast
  let ?header = "store_bytes (\<lambda>_. 0) 0 hb"
  let ?n = "le32 (hb ! 4) (hb ! 5) (hb ! 6) (hb ! 7)"
  show ?thesis
  proof (cases ec)
    case (Some e)
    show ?thesis
    proof (rule header_error)
      show "receive_message rd fresh s = Some ((Some e, None), s1)"
        using h Some by (simp add: receive_message_def)
      show "no_read_error pending rd \<longrightarrow> length (pending s) < 8" using h(5) Some by fastforce
    qed (rule h(2))
  next
    case None
    with h have l: "length hb = 8" by simp
    have w: "word_at ?header 4 = ?n" "?header 0 = hb ! 0"
      using l by (simp_all add: word_at_def store_bytes_def)
    show ?thesis
    proof (cases "header_is_valid (hb ! 0) ?n")
      case False
      with h None l w show ?thesis
        by (intro bad_header[of s1 hb]) (simp_all add: receive_message_def Let_def)
    next
      case True
      then have "0 < ?n" by (simp add: header_is_valid_def)
      then obtain ec2 pb s2 where p: "read_exactly rd s1 ?n = Some ((ec2, pb), s2)"
          "pending s1 = pb @ pending s2" "ec2 = None \<longrightarrow> length pb = unat ?n"
          "no_read_error pending rd \<and> unat ?n \<le> length (pending s1) \<longrightarrow> ec2 = None"
        using read_exactly_total[OF c, of ?n s1] by blast
      show ?thesis
      proof (cases ec2)
        case (Some e)
        with h p None l w True show ?thesis
          by (intro payload_error[of e s2 hb pb]) (auto simp: receive_message_def Let_def)
      next
        case None2: None
        with h p None l w True show ?thesis
          by (intro complete[of hb pb s2])
             (auto simp: receive_message_def Let_def received_def)
      qed
    qed
  qed
qed


lemma wire_split:
  assumes "unat (payload_size msg) < 2 ^ 32 - 8"
  shows "wire msg = bytes_at (as_bytes msg) 0 8 @ bytes_at (as_bytes msg) 8 (unat (payload_size msg))"
proof -
  have "unat (get_message_size msg) = 8 + unat (payload_size msg)"
    using assms by (simp add: get_message_size_def unat_word_ariths)
  then show ?thesis
    using bytes_at_add[of "as_bytes msg" 0 8 "unat (payload_size msg)"] by (simp add: wire_def)
qed

lemma header_bytes:
  "bytes_at (as_bytes msg) 0 8 ! 0 = mtype msg"
  "le32 (bytes_at (as_bytes msg) 0 8 ! 4) (bytes_at (as_bytes msg) 0 8 ! 5)
     (bytes_at (as_bytes msg) 0 8 ! 6) (bytes_at (as_bytes msg) 0 8 ! 7) = payload_size msg"
  by (simp_all add: mtype_def payload_size_def word_at_def)

lemma receive_one:
  assumes c: "reads_stream pending rd" "no_read_error pending rd"
    and v: "is_valid_message msg" "unat (payload_size msg) < 2 ^ 32 - 8"
    and p: "pending s = wire msg @ rest"
  shows "\<exists>msg' s'. receive_message rd fresh s = Some ((None, Some msg'), s') \<and>
    pending s' = rest \<and> same_content msg' msg \<and> is_valid_message msg'"
proof -
  let ?h = "bytes_at (as_bytes msg) 0 8"
  let ?n = "payload_size msg"
  have hv: "header_is_valid (mtype msg) ?n" using v by (simp add: is_valid_message_def)
  have pend: "pending s = ?h @ bytes_at (as_bytes msg) 8 (unat ?n) @ rest"
    using p by (simp add: wire_split[OF v(2)])
  have hb: "hb = ?h" if "pending s = hb @ t" "length hb = 8" for hb t
    using that pend by (metis append_eq_append_conv length_bytes_at)
  show ?thesis
  proof (rule receive_cases[OF c(1), of fresh s])
    fix e s' hb
    assume "no_read_error pending rd \<longrightarrow> length (pending s) < 8"
    with c(2) pend show ?thesis by simp
  next
    fix hb s'
    assume a: "pending s = hb @ pending s'" "length hb = 8"
      and n: "\<not> header_is_valid (hb ! 0) (le32 (hb ! 4) (hb ! 5) (hb ! 6) (hb ! 7))"
    show ?thesis using hv n unfolding hb[OF a] header_bytes by blast
  next
    fix hb pb e s'
    assume a: "pending s = hb @ pb @ pending s'" "length hb = 8"
      and "no_read_error pending rd \<longrightarrow>
         length (pending s) < 8 + unat (le32 (hb ! 4) (hb ! 5) (hb ! 6) (hb ! 7))"
    with c(2) have "length (pending s) < 8 + unat ?n" unfolding hb[OF a] header_bytes by simp
    with pend show ?thesis by simp
  next
    fix hb pb s'
    assume a: "pending s = hb @ pb @ pending s'" "length hb = 8"
      and l: "length pb = unat (le32 (hb ! 4) (hb ! 5) (hb ! 6) (hb ! 7))"
      and r: "receive_message rd fresh s =
         (if is_valid_message (received fresh hb pb)
          then Some ((None, Some (received fresh hb pb)), s') else Some ((Some Fault, None), s'))"
    note h = hb[OF a]
    have l': "length pb = unat ?n" using l unfolding h header_bytes .
    have pb: "pb = bytes_at (as_bytes msg) 8 (unat ?n)" "pending s' = rest"
      using a(1) pend l' unfolding h by simp_all
    note f = received_fields[OF a(2), of fresh pb, unfolded h header_bytes]
    have "same_content (received fresh ?h pb) msg"
      using f pb l' by (simp add: same_content_def)
    moreover have "is_valid_message (received fresh ?h pb)"
      using f hv v(2) by (simp add: is_valid_message_def alloc_valid_iff[OF f(3)[folded f(2)]])
    ultimately show ?thesis using r pb(2) unfolding h by auto
  qed
qed

text \<open>
  C36: \<open>receive_message\<close> returns for every socket that keeps its contract, with a message
  exactly when it reports no error; the message is then valid, and the bytes taken from the
  stream are its header and its payload and nothing more.
\<close>

theorem receive_message_sound:
  assumes "reads_stream pending rd"
  shows "\<exists>ec m s' consumed. receive_message rd fresh s = Some ((ec, m), s') \<and>
    pending s = consumed @ pending s' \<and> (ec = None \<longleftrightarrow> m \<noteq> None) \<and>
    (case m of None \<Rightarrow> True
     | Some msg \<Rightarrow> is_valid_message msg \<and> length consumed = 8 + unat (payload_size msg) \<and>
         consumed ! 0 = mtype msg \<and> take 4 (drop 4 consumed) = bytes32 (payload_size msg) \<and>
         drop 8 consumed = bytes_at (as_bytes msg) 8 (unat (payload_size msg)))"
proof (rule receive_cases[OF assms, of fresh s])
  fix hb pb s'
  assume a: "pending s = hb @ pb @ pending s'" "length hb = 8"
    and l: "length pb = unat (le32 (hb ! 4) (hb ! 5) (hb ! 6) (hb ! 7))"
    and r: "receive_message rd fresh s =
       (if is_valid_message (received fresh hb pb)
        then Some ((None, Some (received fresh hb pb)), s') else Some ((Some Fault, None), s'))"
  note f = received_fields[OF a(2), of fresh pb]
  have "take 4 (drop 4 hb) = [hb ! 4, hb ! 5, hb ! 6, hb ! 7]"
    using a(2) by (simp add: list_eq_iff_nth_eq numeral_eq_Suc less_Suc_eq all_conj_distrib)
  then have "take 4 (drop 4 hb) = bytes32 (payload_size (received fresh hb pb))"
    unfolding f bytes32_le32 .
  then show ?thesis
    using a l r f
    by (intro exI[of _ "if is_valid_message (received fresh hb pb) then None else Some Fault"]
        exI[of _ "if is_valid_message (received fresh hb pb) then Some (received fresh hb pb) else None"]
        exI[of _ s'] exI[of _ "hb @ pb"]) (simp add: nth_append)
qed (auto intro: append_assoc[symmetric])

text \<open>
  What a configuration response looks like on the wire: the three reserved bytes of the header
  are never set, so they are whatever the allocation held before.
\<close>

lemma wire_config_resp:
  "wire (new_config_resp fresh st) =
     [2, fresh 1, fresh 2, fresh 3, 1, 0, 0, 0, resp_code st]"
proof -
  have "unat (get_message_size (new_config_resp fresh st)) = 9" by (simp add: get_message_size_def)
  then show ?thesis
    by (simp add: wire_def bytes_at_def upt_rec numeral_eq_Suc new_config_resp_def store32_def)
qed

text \<open>A run of \<open>receive_message\<close> calls, as a receive loop makes them.\<close>

fun receive_many :: "'s read_some \<Rightarrow> mem \<Rightarrow> nat \<Rightarrow> 's \<Rightarrow> (message list \<times> 's) option" where
  "receive_many rd fresh 0 s = Some ([], s)"
| "receive_many rd fresh (Suc n) s =
     (case receive_message rd fresh s of
        Some ((None, Some msg), s') \<Rightarrow>
          map_option (\<lambda>(ms, s''). (msg # ms, s'')) (receive_many rd fresh n s')
      | _ \<Rightarrow> None)"

lemma receive_many_same:
  assumes "reads_stream pending rd" and "no_read_error pending rd"
    and "\<forall>msg \<in> set msgs. is_valid_message msg \<and> unat (payload_size msg) < 2 ^ 32 - 8"
    and "pending s = concat (map wire msgs) @ rest"
  shows "\<exists>msgs' s'. receive_many rd fresh (length msgs) s = Some (msgs', s') \<and>
    list_all2 same_content msgs' msgs \<and> pending s' = rest"
  using assms(3,4)
proof (induction msgs arbitrary: s)
  case (Cons msg msgs)
  obtain msg' s1 where r: "receive_message rd fresh s = Some ((None, Some msg'), s1)"
      "pending s1 = concat (map wire msgs) @ rest" "same_content msg' msg"
    using receive_one[OF assms(1,2), of msg s "concat (map wire msgs) @ rest" fresh] Cons.prems by auto
  with Cons.IH[of s1] Cons.prems show ?case by auto
qed simp


text \<open>
  C13: messages sent back to back are received one by one, in order and with the same type,
  size and payload, however the network splits the stream, and the bytes that follow them
  are left for the next call.
\<close>

theorem receive_many_framing:
  assumes "reads_stream pending rd" and "no_read_error pending rd"
    and "\<forall>msg \<in> set msgs. is_valid_message msg \<and> unat (payload_size msg) < 2 ^ 32 - 8"
    and "pending s = concat (map wire msgs) @ rest"
  shows "\<exists>msgs' s'. receive_many rd fresh (length msgs) s = Some (msgs', s') \<and>
    list_all2 same_content msgs' msgs \<and> pending s' = rest"
  by (rule receive_many_same[OF assms])

section \<open>A concrete socket\<close>

text \<open>
  For the witnesses: a peer whose bytes arrive at most three at a time, and a socket that
  accepts at most five bytes per write.
\<close>

definition slow_read :: "byte list read_some" where
  "slow_read s len =
     (let n = min 3 (unat len) in
      if s = [] then ((Some Eof, []), []) else ((None, take n s), drop n s))"

definition slow_write :: "byte list write_some" where
  "slow_write s bs = ((None, min 5 (length bs)), s @ take 5 bs)"

lemma slow_read_ok: "reads_stream id slow_read" "no_read_error id slow_read"
  by (auto simp: reads_stream_def no_read_error_def slow_read_def Let_def word_less_nat_alt)

lemma slow_write_ok: "writes_stream id slow_write"
  by (auto simp: writes_stream_def slow_write_def min_def)

definition demo_resp :: message where
  "demo_resp = new_config_resp (\<lambda>_. 7) SUCCESS"

lemma demo_resp_ok: "is_valid_message demo_resp \<and> unat (payload_size demo_resp) < 2 ^ 32 - 8"
  using config_resp_valid[of "\<lambda>_. 7" SUCCESS]
  by (simp add: demo_resp_def is_valid_config_resp_def)

theorem send_message_delivers_witness:
  "\<exists>ec s' k. send_message slow_write [] demo_resp = Some (ec, s') \<and> s' = take k (wire demo_resp)"
  using send_message_delivers[OF slow_write_ok, of demo_resp "[]"] demo_resp_ok by auto

theorem receive_message_sound_witness:
  "\<exists>ec m s' consumed. receive_message slow_read (\<lambda>_. 0) [1, 2, 3] = Some ((ec, m), s') \<and>
     [1, 2, 3] = consumed @ s'"
  using receive_message_sound[OF slow_read_ok(1), of "\<lambda>_. 0" "[1, 2, 3]"] by auto

theorem receive_many_framing_witness:
  "\<exists>msgs' s'. receive_many slow_read (\<lambda>_. 0) 2 (wire demo_resp @ wire demo_resp @ [9]) = Some (msgs', s') \<and>
     list_all2 same_content msgs' [demo_resp, demo_resp] \<and> s' = [9]"
  using receive_many_framing[OF slow_read_ok, of "[demo_resp, demo_resp]"
      "wire demo_resp @ wire demo_resp @ [9]" "[9]" "\<lambda>_. 0"] demo_resp_ok
  by (simp add: numeral_2_eq_2)

end
