(* ===== verification/Message_Print.thy ===== *)
theory Message_Print
  imports Connection
begin

text \<open>
  Printing, the rest of \<^verbatim>\<open>server/Message.hpp\<close>: the hexadecimal helpers, \<open>print_bytes\<close> and
  \<open>message_s::print\<close>.  What is written to \<open>std::cout\<close> is a string.  Every access goes through
  \<open>peek\<close>, which knows how many bytes the message was allocated with, so that a result \<open>None\<close>
  means an access outside the allocation (or a loop that never ends).
\<close>

section \<open>Hexadecimal helpers\<close>

definition hex_lut :: string where "hex_lut = ''0123456789ABCDEF''"

text \<open>
  \<open>to_hex\<close> appends the digits from the lowest one on, \<open>sizeof(T) * 2\<close> of them, and reverses
  them; \<open>to_hex_as_bytes\<close> prints an integer as it lies in memory.
\<close>

fun low_digits :: "nat \<Rightarrow> 'a::len word \<Rightarrow> string" where
  "low_digits 0 val = []"
| "low_digits (Suc n) val = hex_lut ! unat (val AND 0xF) # low_digits n (drop_bit 4 val)"

definition to_hex :: "'a::len word \<Rightarrow> string" where
  "to_hex val = rev (low_digits (LENGTH('a) div 8 * 2) val)"

definition bytes_to_hex :: "string \<Rightarrow> string \<Rightarrow> byte list \<Rightarrow> string" where
  "bytes_to_hex pre sep bs =
     concat (map (\<lambda>(i, b). (if i \<noteq> 0 then sep else []) @ pre @ to_hex b) (enumerate 0 bs))"

definition to_hex_as_bytes :: "u32 \<Rightarrow> string" where
  "to_hex_as_bytes val = bytes_to_hex ''0x'' '' '' (bytes32 val)"

definition status_as_bytes :: "byte \<Rightarrow> string" where
  "status_as_bytes val = bytes_to_hex ''0x'' '' '' [val]"

text \<open>How a stream writes an unsigned integer, \<open>std::endl\<close> and the tabulator.\<close>

fun decimal :: "nat \<Rightarrow> string" where
  "decimal n = (if n < 10 then [hex_lut ! n] else decimal (n div 10) @ [hex_lut ! (n mod 10)])"

declare decimal.simps [simp del]

abbreviation (input) "endl \<equiv> [CHR 0x0A]"
abbreviation (input) "tab \<equiv> [CHR 0x09]"

text \<open>What a string of digits is worth.\<close>

definition digit_value :: "char \<Rightarrow> nat" where
  "digit_value c = length (takeWhile (\<lambda>d. d \<noteq> c) hex_lut)"

definition number_value :: "nat \<Rightarrow> string \<Rightarrow> nat" where
  "number_value base ds = foldl (\<lambda>n c. base * n + digit_value c) 0 ds"

lemma digit_value_lut [simp]: "n < 16 \<Longrightarrow> digit_value (hex_lut ! n) = n"
proof -
  assume "n < 16"
  then have "n \<in> set [0..<16]" by simp
  moreover have "list_all (\<lambda>n. digit_value (hex_lut ! n) = n) [0..<16]" by code_simp
  ultimately show ?thesis unfolding list_all_iff by blast
qed

lemma number_value_simps [simp]:
  "number_value base [] = 0"
  "number_value base (ds @ [c]) = base * number_value base ds + digit_value c"
  by (simp_all add: number_value_def)

lemma low_digits_value: "number_value 16 (rev (low_digits n val)) = unat val mod 16 ^ n"
proof (induction n arbitrary: val)
  case (Suc n)
  have "val AND 0xF = take_bit 4 val" by (simp add: take_bit_eq_mask mask_eq_exp_minus_1)
  then have "unat (val AND 0xF) = take_bit 4 (unat val)" by (simp only: unsigned_take_bit_eq)
  then have "unat (val AND 0xF) = unat val mod 16" by (simp add: take_bit_eq_mod)
  moreover have "unat (drop_bit 4 val) = unat val div 16"
    unfolding unat_drop_bit_eq by (simp add: drop_bit_eq_div)
  ultimately show ?case by (simp add: Suc mod_mult2_eq)
qed simp

lemma length_low_digits [simp]: "length (low_digits n val) = n"
  by (induction n arbitrary: val) simp_all

text \<open>No digit is lost: the text names the value, in as many digits as its type has.\<close>

lemma to_hex_value:
  assumes "LENGTH('a::len) mod 8 = 0"
  shows "number_value 16 (to_hex (val :: 'a word)) = unat val"
    and "length (to_hex val) = LENGTH('a) div 4"
proof -
  from assms obtain k where k: "LENGTH('a) = 8 * k" by (auto elim: dvdE)
  have "(16 :: nat) ^ (k * 2) = 2 ^ LENGTH('a)" using power_mult[of "2 :: nat" 4 "k * 2"] by (simp add: k)
  moreover have "unat val < 2 ^ LENGTH('a)" by (rule unsigned_less)
  ultimately show "number_value 16 (to_hex val) = unat val"
    by (simp add: to_hex_def low_digits_value k)
  show "length (to_hex val) = LENGTH('a) div 4" by (simp add: to_hex_def k)
qed

lemma decimal_value: "number_value 10 (decimal n) = n"
  by (induction n rule: decimal.induct) (subst decimal.simps, auto simp: number_value_def)

section \<open>Reads\<close>

text \<open>
  The allocation of a message, from its header on; the \<open>alloc_info_s\<close> before it is not
  counted.  \<open>peek\<close> takes the \<open>n\<close> bytes at an offset, \<open>read32\<close> a \<open>uint32_t\<close>.
\<close>

definition region_size :: "message \<Rightarrow> nat" where
  "region_size msg = unat (alloc_size msg) - sizeof_alloc_info"

definition peek :: "message \<Rightarrow> int \<Rightarrow> nat \<Rightarrow> byte list option" where
  "peek msg p n =
     (if 0 \<le> p \<and> nat p + n \<le> region_size msg then Some (bytes_at (as_bytes msg) (nat p) n) else None)"

definition read32 :: "message \<Rightarrow> nat \<Rightarrow> u32 option" where
  "read32 msg p = (if p + 4 \<le> region_size msg then Some (word_at (as_bytes msg) p) else None)"

text \<open>A row of outputs: the first undefined one makes the row undefined.\<close>

fun pieces :: "string option list \<Rightarrow> string option" where
  "pieces [] = Some []"
| "pieces (None # ps) = None"
| "pieces (Some s # ps) = map_option ((@) s) (pieces ps)"

lemma pieces_defined: "(\<exists>s. pieces ps = Some s) \<longleftrightarrow> None \<notin> set ps"
  by (induction ps rule: pieces.induct) auto

lemma pieces_None: "pieces ps = None \<longleftrightarrow> None \<in> set ps"
  using pieces_defined[of ps] by (cases "pieces ps") auto

section \<open>print_bytes\<close>

text \<open>
  One of the loops of \<open>print_bytes\<close>: from \<open>i\<close> on in steps of \<open>bytes_per_line\<close>, as long as
  \<open>go i\<close>, a line of \<open>width i\<close> bytes at \<open>data + i\<close>.  \<open>i\<close> is an \<open>int\<close>: added to an unsigned it is
  one, added to a pointer it is signed, and against a \<open>size_t\<close> it is sign-extended.
\<close>

partial_function (option) print_lines ::
  "message \<Rightarrow> nat \<Rightarrow> u32 \<Rightarrow> string \<Rightarrow> (u32 \<Rightarrow> bool) \<Rightarrow> (u32 \<Rightarrow> nat) \<Rightarrow> u32 \<Rightarrow> string option" where
  "print_lines msg data bytes_per_line pre go width i =
     (if go i
      then Option.bind (peek msg (int data + sint i) (width i)) (\<lambda>bs.
             Option.bind (print_lines msg data bytes_per_line pre go width (i + bytes_per_line)) (\<lambda>rest.
               Some (pre @ bytes_to_hex ''0x'' '' '' bs @ endl @ rest)))
      else Some [])"

definition print_bytes :: "message \<Rightarrow> nat \<Rightarrow> u64 \<Rightarrow> u32 \<Rightarrow> string \<Rightarrow> string option" where
  "print_bytes msg data len bytes_per_line pre =
     (let lines = print_lines msg data bytes_per_line pre;
          below_len = (\<lambda>i :: u32. (scast i :: u64) < len)
      in if ucast (8 * bytes_per_line) < len
         then pieces
           [lines (\<lambda>i. i < 4 * bytes_per_line) (\<lambda>_. unat bytes_per_line) 0,
            Some (pre @ ''...'' @ endl),
            lines below_len (\<lambda>_. unat bytes_per_line) (ucast (len - ucast (4 * bytes_per_line)))]
         else lines below_len
           (\<lambda>i. if (ucast (i + bytes_per_line) :: u64) < len then unat bytes_per_line
                else unat (len - scast i)) 0)"

text \<open>
  A loop returns if an invariant keeps its reads inside and some measure falls with every
  line.
\<close>

lemma print_lines_total:
  assumes "ok i"
    and "\<And>i. ok i \<Longrightarrow> go i \<Longrightarrow> peek msg (int data + sint i) (width i) \<noteq> None \<and> ok (i + b) \<and> m (i + b) < (m i :: nat)"
  shows "\<exists>s. print_lines msg data b pre go width i = Some s"
  using assms(1)
proof (induction "m i" arbitrary: i rule: less_induct)
  case less
  show ?case
  proof (cases "go i")
    case True
    with assms(2)[OF less.prems] obtain bs where
      "peek msg (int data + sint i) (width i) = Some bs" "ok (i + b)" "m (i + b) < m i" by auto
    with True less.hyps[of "i + b"] show ?thesis by (subst print_lines.simps) auto
  qed (simp add: print_lines.simps)
qed

lemma sint_int: "sint (i :: u32) = int (unat i) - (if unat i < 2 ^ 31 then 0 else 2 ^ 32)"
proof -
  have r: "0 \<le> uint i" "uint i < 2 ^ 32" using uint_lt2p[of i] by simp_all
  have "sint i = uint i - 2 ^ 32 * of_bool (bit (uint i) 31)"
    using r by (simp add: sint_uint signed_take_bit_eq_take_bit_minus take_bit_int_eq_self)
  moreover have "bit (uint i) 31 \<longleftrightarrow> \<not> uint i < 2 ^ 31"
  proof (cases "uint i < 2 ^ 31")
    case False
    then have "uint i div 2 ^ 31 = 1" using r by (intro int_div_pos_eq[of _ _ _ "uint i - 2 ^ 31"]) auto
    with False show ?thesis by (simp add: bit_iff_odd)
  qed (use r in \<open>simp add: bit_iff_odd\<close>)
  moreover have e: "int (unat i) = uint i" by simp
  then have "unat i < 2 ^ 31 \<longleftrightarrow> uint i < 2 ^ 31"
    using of_nat_less_iff[of "unat i" "2 ^ 31", where 'a = int]
    by (simp only: of_nat_power of_nat_numeral)
  ultimately show ?thesis unfolding e by (cases "uint i < 2 ^ 31") (simp_all only: simp_thms if_True if_False of_bool_eq mult_1_right mult_zero_right)
qed

lemma unat_scast64:
  "unat (scast (i :: u32) :: u64) = unat i + (if unat i < 2 ^ 31 then 0 else 2 ^ 64 - 2 ^ 32)"
proof -
  have u: "uint i < 2 ^ 32" using uint_lt2p[of i] by simp
  have "uint (scast i :: u64) = sint i mod 2 ^ 64"
    unfolding scast_eq uint_word_of_int by simp
  also have "\<dots> = int (unat i) + (if unat i < 2 ^ 31 then 0 else 2 ^ 64 - 2 ^ 32)"
  proof (cases "unat i < 2 ^ 31")
    case False
    have "(int (unat i) - 2 ^ 32) mod 2 ^ 64 = (int (unat i) - 2 ^ 32 + 2 ^ 64) mod 2 ^ 64"
      by (simp only: mod_add_self2)
    also have "\<dots> = int (unat i) - 2 ^ 32 + 2 ^ 64" using u by (intro mod_pos_pos_trivial) simp_all
    finally show ?thesis using False by (simp add: sint_int)
  qed (use u in \<open>simp add: sint_int mod_pos_pos_trivial\<close>)
  finally have "int (unat (scast i :: u64)) = int (unat i) + (if unat i < 2 ^ 31 then 0 else 2 ^ 64 - 2 ^ 32)"
    unfolding uint_nat .
  then show ?thesis by (cases "unat i < 2 ^ 31") (simp_all flip: of_nat_eq_iff[where 'a = int])
qed

lemma below_len_iff:
  "unat (len :: u64) < 2 ^ 32 \<Longrightarrow>
   (scast (i :: u32) :: u64) < len \<longleftrightarrow> unat i < 2 ^ 31 \<and> unat i < unat len"
  by (auto simp: word_less_nat_alt unat_scast64)

lemma peek_inside:
  assumes "data + unat i + n \<le> region_size msg" and "unat (i :: u32) < 2 ^ 31"
  shows "peek msg (int data + sint i) n \<noteq> None"
  using assms by (simp add: peek_def sint_int nat_add_distrib)

text \<open>
  \<open>print_bytes\<close> always returns and reads nothing but the \<open>len\<close> bytes at \<open>data\<close>, for any 32-bit
  length.  (From 2 GiB on the loop over the last lines does not run: its \<open>int\<close> starts below 0.)
\<close>

lemma print_bytes_total:
  assumes len: "unat len < 2 ^ 32" and inside: "data + unat len \<le> region_size msg"
    and b: "0 < unat b" "unat b < 2 ^ 16"
  shows "\<exists>s. print_bytes msg data len b pre = Some s"
proof -
  let ?L = "unat len" and ?b = "unat b"
  let ?lines = "print_lines msg data b pre" and ?below = "\<lambda>i :: u32. (scast i :: u64) < len"
  have b8: "unat (8 * b) = 8 * ?b" "unat (4 * b) = 4 * ?b" using b by (simp_all add: unat_word_ariths)
  have add: "unat (i + b) = unat i + ?b" if "unat i < 2 ^ 31" for i
    using that b by (simp add: unat_word_ariths)
  show ?thesis
  proof (cases "8 * ?b < ?L")
    case True
    have first: "\<exists>s. ?lines (\<lambda>i. i < 4 * b) (\<lambda>_. ?b) 0 = Some s"
    proof (rule print_lines_total[where ok = "\<lambda>i. unat i < 2 ^ 31" and m = "\<lambda>i. 5 * ?b - unat i"])
      fix i assume "unat i < (2 :: nat) ^ 31" "i < 4 * b"
      then have i: "unat i < 2 ^ 31" "unat i < 4 * ?b" by (simp_all add: word_less_nat_alt b8)
      with True inside b show "peek msg (int data + sint i) ?b \<noteq> None \<and> unat (i + b) < 2 ^ 31 \<and>
          5 * ?b - unat (i + b) < 5 * ?b - unat i"
        by (intro conjI peek_inside) (simp_all add: add)
    qed simp
    let ?i = "ucast (len - ucast (4 * b)) :: u32"
    have "ucast (4 * b) \<le> len" using True b8 by (simp add: word_le_nat_alt)
    then have "unat (len - ucast (4 * b)) = ?L - 4 * ?b" by (simp add: unat_sub b8)
    then have i0: "unat ?i = ?L - 4 * ?b"
      using len by (simp add: unsigned_ucast_eq take_bit_nat_eq_self)
    have last: "\<exists>s. ?lines ?below (\<lambda>_. ?b) ?i = Some s"
    proof (rule print_lines_total[where ok = "\<lambda>i. \<exists>k\<le>4. unat i = ?L - 4 * ?b + k * ?b" and m = "\<lambda>i. ?L - unat i"])
      fix i assume "\<exists>k\<le>4. unat i = ?L - 4 * ?b + k * ?b" "?below i"
      then obtain k where k: "k \<le> 4" "unat i = ?L - 4 * ?b + k * ?b" "unat i < 2 ^ 31" "unat i < ?L"
        unfolding below_len_iff[OF len] by blast
      then have "k < 4" using True by (cases "k = 4") auto
      moreover from this have "k * ?b + ?b \<le> 4 * ?b" using mult_le_mono1[of "Suc k" 4 ?b] by simp
      moreover have "unat (i + b) = ?L - 4 * ?b + Suc k * ?b" using add[OF k(3)] k(2) by simp
      moreover from calculation k(2) True have "unat i + ?b \<le> ?L" by linarith
      ultimately show "peek msg (int data + sint i) ?b \<noteq> None \<and>
          (\<exists>k\<le>4. unat (i + b) = ?L - 4 * ?b + k * ?b) \<and> ?L - unat (i + b) < ?L - unat i"
        using inside b k(3,4) add[OF k(3)] by (intro conjI peek_inside exI[of _ "Suc k"]) simp_all
    qed (use i0 in \<open>simp add: exI[of _ 0]\<close>)
    from first last True b8 show ?thesis
      by (auto simp: print_bytes_def Let_def word_less_nat_alt)
  next
    case False
    let ?w = "\<lambda>i. if (ucast (i + b) :: u64) < len then ?b else unat (len - scast i)"
    have "\<exists>s. ?lines ?below ?w 0 = Some s"
    proof (rule print_lines_total[where ok = "\<lambda>_. True" and m = "\<lambda>i. if ?below i then Suc (?L - unat i) else 0"])
      fix i assume "?below i"
      then have i: "unat i < 2 ^ 31" "unat i < ?L" unfolding below_len_iff[OF len] by blast+
      have "unat (ucast (i + b) :: u64) = unat i + ?b"
        using add[OF i(1)] by (simp only: unat_widen64)
      moreover have "unat (len - scast i) = ?L - unat i"
        using i by (simp add: unat_sub word_le_nat_alt unat_scast64)
      ultimately have w: "?w i \<le> ?L - unat i" by (auto simp: word_less_nat_alt)
      then show "peek msg (int data + sint i) (?w i) \<noteq> None \<and> True \<and>
          (if ?below (i + b) then Suc (?L - unat (i + b)) else 0) < (if ?below i then Suc (?L - unat i) else 0)"
        using i inside b add[OF i(1)] below_len_iff[OF len]
        by (intro conjI peek_inside) auto
    qed simp
    with False b8 show ?thesis by (simp add: print_bytes_def Let_def word_less_nat_alt)
  qed
qed

section \<open>print\<close>

text \<open>
  A 32-bit field on a line of its own, as \<open>print\<close> shows most of them: the bytes as they lie in
  memory, then the number.
\<close>

definition field_line :: "string \<Rightarrow> string \<Rightarrow> u32 option \<Rightarrow> string option" where
  "field_line prefix label field = Option.bind field (\<lambda>v.
     Some (prefix @ label @ tab @ to_hex_as_bytes v @ '' ('' @ decimal (unat v) @ '')'' @ endl))"

definition type_name :: "msg_type \<Rightarrow> string" where
  "type_name t =
     (if t = UNDEFINED then '' (UNDEFINED)''
      else if t = CONFIG then '' (CONFIG)''
      else if t = CONFIG_RESP then '' (CONFIG_RESP)''
      else if t = DATA then '' (DATA)''
      else '' (UNKNOWN)'')"

text \<open>
  The block table: \<open>num_blocks\<close> is taken from the message as it is.  (The \<open>int\<close> that counts
  would overflow at \<open>2 ^ 31\<close> blocks only, far outside any allocation.)
\<close>

definition print_block :: "message \<Rightarrow> string \<Rightarrow> nat \<Rightarrow> string option" where
  "print_block msg prefix i =
     (let blk = 20 + i * 12
      in pieces
        [Some (prefix @ ''Blk #'' @ decimal (i + 1) @ endl),
         field_line prefix ''cBase:'' (read32 msg blk),
         field_line prefix ''iBase:'' (read32 msg (blk + 4)),
         field_line prefix ''oBase:'' (read32 msg (blk + 8))])"

definition print_blocks :: "message \<Rightarrow> string \<Rightarrow> string option" where
  "print_blocks msg prefix = Option.bind (read32 msg 16) (\<lambda>num_blocks.
     pieces (map (print_block msg prefix) [0..<unat num_blocks]))"

definition print :: "string \<Rightarrow> message \<Rightarrow> string option" where
  "print prefix msg =
     pieces
      ([Option.bind (peek msg 0 4) (\<lambda>bs.
          Some (prefix @ ''Type:'' @ tab @ bytes_to_hex ''0x'' '' '' bs @ type_name (mtype msg) @ endl)),
        field_line prefix ''Size:'' (read32 msg 4)] @
       (if mtype msg = UNDEFINED then
          [Some (prefix @ ''Data:''),
           print_bytes msg 8 (ucast (payload_size msg)) 4 (prefix @ tab)]
        else if mtype msg = CONFIG then
          [field_line prefix ''iSize:'' (read32 msg 8),
           field_line prefix ''oSize:'' (read32 msg 12),
           field_line prefix ''nBlk:'' (read32 msg 16),
           print_blocks msg prefix,
           Some (prefix @ ''RBF:'' @ endl),
           print_bytes msg (get_rbf_ptr msg) (ucast (get_rbf_size msg)) 16 (prefix @ tab)]
        else if mtype msg = CONFIG_RESP then
          [Option.bind (peek msg 8 1) (\<lambda>bs.
             Some (prefix @ ''Status:'' @ tab @ status_as_bytes (hd bs) @ '' ('' @
               (if hd bs = resp_code SUCCESS then ''SUCCESS'' else ''ERROR'') @ '')'' @ endl))]
        else if mtype msg = DATA then
          [Option.bind (read32 msg 8) (\<lambda>ident.
             Some (prefix @ ''ID:'' @ tab @ to_hex_as_bytes ident @ '' (0x'' @ to_hex ident @ '')'' @ endl)),
           Some (prefix @ ''Data:'' @ endl),
           print_bytes msg 12 (ucast (get_data_size msg)) 4 (prefix @ tab)]
        else []))"

lemma field_line_None [simp]: "field_line prefix label field = None \<longleftrightarrow> field = None"
  by (cases field) (simp_all add: field_line_def)

lemma field_line_Not_None: "None = field_line prefix label field \<longleftrightarrow> field = None"
  by (cases field) (simp_all add: field_line_def)

lemma read32_None [simp]: "read32 msg p = None \<longleftrightarrow> region_size msg < p + 4"
  by (auto simp: read32_def)

lemma peek_None [simp]: "peek msg (int p) n = None \<longleftrightarrow> region_size msg < p + n"
  by (auto simp: peek_def)

lemma valid_region:
  assumes "is_valid_message msg"
  shows "region_size msg = 8 + unat (payload_size msg) \<or> unat (payload_size msg) \<ge> 2 ^ 32 - 8"
    and "0 < unat (payload_size msg)"
proof -
  have p: "unat (payload_size msg) < 2 ^ 32" using unsigned_less[of "payload_size msg"] by simp
  from assms have "unat (alloc_size msg) = 8 + (8 + unat (payload_size msg)) mod 2 ^ 32"
    by (simp add: is_valid_message_def valid_payload_size_iff)
  with p show "region_size msg = 8 + unat (payload_size msg) \<or> unat (payload_size msg) \<ge> 2 ^ 32 - 8"
    by (auto simp: region_size_def)
  show "0 < unat (payload_size msg)"
    using assms by (simp add: is_valid_message_def header_is_valid_def word_less_nat_alt)
qed

lemma print_block_None:
  "print_block msg prefix i = None \<longleftrightarrow> region_size msg < 20 + i * 12 + 12"
  by (auto simp: print_block_def Let_def pieces_None field_line_Not_None)

lemma print_blocks_None:
  "print_blocks msg prefix = None \<longleftrightarrow>
     region_size msg < 20 \<or>
     0 < cfg_num_blocks msg \<and> region_size msg < 20 + 12 * unat (cfg_num_blocks msg)"
proof (cases "region_size msg < 20")
  case False
  let ?n = "unat (cfg_num_blocks msg)"
  from False have "read32 msg 16 = Some (cfg_num_blocks msg)" by (simp add: read32_def cfg_num_blocks_def)
  then have "print_blocks msg prefix = None \<longleftrightarrow> (\<exists>i < ?n. region_size msg < 20 + i * 12 + 12)"
    by (auto simp: print_blocks_def pieces_None print_block_None eq_commute[of None])
  also have "\<dots> \<longleftrightarrow> 0 < ?n \<and> region_size msg < 20 + 12 * ?n"
    by (auto intro!: exI[of _ "?n - 1"])
  finally show ?thesis using False by (simp add: word_less_nat_alt)
qed (simp add: print_blocks_def bind_eq_None_conv)

section \<open>What printing reads\<close>

lemma print_defined_iff:
  assumes v: "is_valid_message msg" and a: "alloc_size msg = 16 + ucast (payload_size msg)"
  shows "(\<exists>out. print prefix msg = Some out) \<longleftrightarrow>
    (if mtype msg = CONFIG then is_valid_config msg
     else if mtype msg = DATA then 4 \<le> payload_size msg else True)"
proof -
  let ?s = "unat (payload_size msg)"
  have "has_valid_payload_size msg" using v by (simp add: is_valid_message_def)
  then have lt: "?s < 2 ^ 32 - 8" using alloc_valid_iff[OF a] by simp
  with valid_region[OF v] have r: "region_size msg = 8 + ?s" "0 < ?s" by simp_all
  have head: "peek msg 0 4 \<noteq> None" "peek msg 8 1 \<noteq> None" using r peek_None[of msg 0 4] peek_None[of msg 8 1] by simp_all
  consider (config) "mtype msg = CONFIG" | (resp) "mtype msg = CONFIG_RESP" | (data) "mtype msg = DATA"
    using v by (auto simp: is_valid_message_def header_is_valid_def)
  then show ?thesis
  proof cases
    case config
    show ?thesis
    proof (cases "is_valid_config msg")
      case True
      note b = valid_config_bounds[OF True]
      have "get_rbf_ptr msg + unat (ucast (get_rbf_size msg) :: u64) \<le> region_size msg"
        unfolding unat_widen64 using b r by (simp add: get_rbf_ptr_def)
      moreover have "unat (ucast (get_rbf_size msg) :: u64) < 2 ^ 32"
        unfolding unat_widen64 using b(3) lt by simp
      ultimately obtain out where "print_bytes msg (get_rbf_ptr msg) (ucast (get_rbf_size msg)) 16 (prefix @ tab) = Some out"
        using print_bytes_total[of "ucast (get_rbf_size msg)" "get_rbf_ptr msg" msg 16] by auto
      with True config head b(1) r show ?thesis
        by (auto simp: print_def pieces_defined field_line_Not_None print_blocks_None eq_commute[of None] bind_eq_None_conv)
    next
      case False
      then have "\<not> 12 + 12 * unat (cfg_num_blocks msg) \<le> ?s"
        using v config lt unsigned_less[of "cfg_num_blocks msg"]
        by (simp add: is_valid_config_def word_le_nat_alt unat_word_ariths)
      then have "print_blocks msg prefix = None"
        using r by (auto simp: print_blocks_None word_less_nat_alt)
      with False config show ?thesis by (simp add: print_def pieces_defined)
    qed
  next
    case resp
    with head r show ?thesis by (auto simp: print_def pieces_defined field_line_Not_None eq_commute[of None] bind_eq_None_conv)
  next
    case data
    show ?thesis
    proof (cases "4 \<le> payload_size msg")
      case True
      then have d: "unat (get_data_size msg) = ?s - 4" "4 \<le> ?s"
        by (simp_all add: get_data_size_def unat_sub word_le_nat_alt)
      have "unat (ucast (get_data_size msg) :: u64) < 2 ^ 32"
        "12 + unat (ucast (get_data_size msg) :: u64) \<le> region_size msg"
        unfolding unat_widen64 d(1) using lt r d(2) by linarith+
      then obtain out where "print_bytes msg 12 (ucast (get_data_size msg)) 4 (prefix @ tab) = Some out"
        using print_bytes_total[of "ucast (get_data_size msg)" 12 msg 4 "prefix @ tab"] by auto
      with True data head d r show ?thesis
        by (auto simp: print_def pieces_defined field_line_Not_None eq_commute[of None] bind_eq_None_conv)
    next
      case False
      then have "region_size msg < 12" using r by (simp add: word_le_nat_alt)
      with False data show ?thesis by (simp add: print_def pieces_defined eq_commute[of None] bind_eq_None_conv)
    qed
  qed
qed

lemma received_print:
  assumes c: "reads_stream pending rd" and m: "receive_message rd fresh s = Some ((None, Some msg), s')"
  shows "is_valid_message msg" and "alloc_size msg = 16 + ucast (payload_size msg)"
  using m by (rule_tac receive_cases[OF c, of fresh s]; auto simp: received_fields split: if_splits)+

text \<open>
  C35: printing a message that \<open>receive_message\<close> has delivered stays inside its allocation
  and returns, except for two kinds of message that pass \<open>is_valid_message\<close>: a configuration
  whose block table does not fit its payload (what \<open>is_valid_config\<close> would have told) and a
  data message without room for its identifier, which nothing but printing would notice.
\<close>

theorem print_received_inside:
  assumes "reads_stream pending rd" and "receive_message rd fresh s = Some ((None, Some msg), s')"
  shows "(\<exists>out. print prefix msg = Some out) \<longleftrightarrow>
    (if mtype msg = CONFIG then is_valid_config msg
     else if mtype msg = DATA then 4 \<le> payload_size msg else True)"
  using print_defined_iff[OF received_print[OF assms]] .

section \<open>Identities\<close>

text \<open>\<open>Connection::ID::to_string\<close>: four bytes of the union and the 16-bit port after them.\<close>

definition conn_to_string :: "conn_id \<Rightarrow> string" where
  "conn_to_string ident =
     (let ip = (\<lambda>k. decimal (unat (ucast (drop_bit (8 * k) (i64 ident)) :: byte)));
          port = (ucast (drop_bit 32 (i64 ident)) :: u16)
      in ip 0 @ ''.'' @ ip 1 @ ''.'' @ ip 2 @ ''.'' @ ip 3 @ '':'' @ decimal (unat port))"

text \<open>The two bytes that \<open>from_endpoint\<close> leaves unset do not show.\<close>

lemma conn_to_string_endpoint:
  "conn_to_string (from_endpoint a b c d port junk) =
     decimal (unat a) @ ''.'' @ decimal (unat b) @ ''.'' @ decimal (unat c) @ ''.'' @ decimal (unat d) @
     '':'' @ decimal (unat port)"
proof -
  let ?w = "i64 (from_endpoint a b c d port junk)"
  have "(ucast ?w :: byte) = a" "(ucast (drop_bit 8 ?w) :: byte) = b"
    "(ucast (drop_bit 16 ?w) :: byte) = c" "(ucast (drop_bit 24 ?w) :: byte) = d"
    "(ucast (drop_bit 32 ?w) :: u16) = port"
    by (rule bit_word_eqI; auto simp: from_endpoint_def le32_def bit_simps dest: bit_imp_le_length)+
  then show ?thesis by (simp add: conn_to_string_def)
qed

section \<open>Samples\<close>

text \<open>
  A configuration of 12 bytes of payload that announces 255 blocks: \<open>receive_message\<close> delivers
  it.
\<close>

definition short_config :: message where
  "short_config = \<lparr> alloc_size = 28,
     as_bytes = store_bytes (\<lambda>_. 0) 0 [1, 0, 0, 0, 12, 0, 0, 0, 4, 0, 0, 0, 4, 0, 0, 0, 255, 0, 0, 0] \<rparr>"

lemma short_config_fields:
  "mtype short_config = CONFIG" "payload_size short_config = 12" "cfg_num_blocks short_config = 255"
  "is_valid_message short_config"
proof -
  show f: "mtype short_config = CONFIG" "payload_size short_config = 12" "cfg_num_blocks short_config = 255"
    by (simp_all add: short_config_def accessor_defs word_at_def store_bytes_def le32_def)
  show "is_valid_message short_config"
    unfolding is_valid_message_def has_valid_payload_size_def get_message_size_def header_is_valid_def f
    by (simp add: short_config_def)
qed

lemma word_at_region:
  assumes "bytes_at m a n = bytes_at m' a n" and "a \<le> p" and "p + 4 \<le> a + n"
  shows "word_at m p = word_at m' p"
proof (rule word_at_cong)
  fix i :: nat assume "i < 4"
  with assms(2,3) have "bytes_at m a n ! (p + i - a) = m (p + i)" "bytes_at m' a n ! (p + i - a) = m' (p + i)"
    by simp_all
  with assms(1) show "m (p + i) = m' (p + i)" by simp
qed

lemma short_config_received:
  "\<exists>msg. receive_message slow_read (\<lambda>_. 0) (wire short_config) = Some ((None, Some msg), []) \<and>
     mtype msg = CONFIG \<and> payload_size msg = 12 \<and> cfg_num_blocks msg = 255"
proof -
  obtain msg where r: "receive_many slow_read (\<lambda>_. 0) 1 (wire short_config) = Some ([msg], [])"
    and c: "same_content msg short_config"
    using receive_many_same[OF slow_read_ok, of "[short_config]" "wire short_config" "[]" "\<lambda>_. 0"]
      short_config_fields by (auto simp: list_all2_Cons2)
  have "receive_message slow_read (\<lambda>_. 0) (wire short_config) = Some ((None, Some msg), [])"
    using r by (auto split: option.splits prod.splits)
  moreover have "cfg_num_blocks msg = 255"
    using c short_config_fields word_at_region[of "as_bytes msg" 8 12 "as_bytes short_config" 16]
    by (auto simp: same_content_def cfg_num_blocks_def)
  ultimately show ?thesis using c short_config_fields by (auto simp: same_content_def)
qed

theorem print_received_inside_witness:
  "\<exists>msg. receive_message slow_read (\<lambda>_. 0) (wire short_config) = Some ((None, Some msg), []) \<and>
     print tab msg = None"
proof -
  obtain msg where m: "receive_message slow_read (\<lambda>_. 0) (wire short_config) = Some ((None, Some msg), [])"
      "mtype msg = CONFIG" "payload_size msg = 12" "cfg_num_blocks msg = 255"
    using short_config_received by blast
  then have "\<not> is_valid_config msg" by (simp add: is_valid_config_def)
  with print_received_inside[OF slow_read_ok(1) m(1), of tab] m(2) have "print tab msg = None" by auto
  with m(1) show ?thesis by blast
qed

lemma print_demo_resp:
  "print tab demo_resp = Some (concat
     [tab @ ''Type:'' @ tab @ ''0x02 0x07 0x07 0x07 (CONFIG_RESP)'' @ endl,
      tab @ ''Size:'' @ tab @ ''0x01 0x00 0x00 0x00 (1)'' @ endl,
      tab @ ''Status:'' @ tab @ ''0x00 (SUCCESS)'' @ endl])"
  by code_simp

end
