(* ===== verification/Utils.thy ===== *)
theory Utils
  imports Message_Print
begin

text \<open>
  The helpers of \<^verbatim>\<open>utils/src/utils.cpp\<close>: the output of a command, files, and a table of
  numbers.  What the system answers (the output of the process, whether a file can be opened) is an
  argument.  A result \<open>None\<close> is undefined behaviour.
\<close>

section \<open>Commands\<close>

text \<open>
  \<open>fgets\<close> takes up to \<open>n - 1\<close> characters and stops after a newline; what is appended to the
  result is the buffer as a string of C, which ends at the first null character.
\<close>

definition fgets :: "nat \<Rightarrow> string \<Rightarrow> (string \<times> string) option" where
  "fgets n s = (if s = [] then None
     else let k = min (n - 1) (length (takeWhile (\<lambda>c. c \<noteq> CHR 0x0A) s) + 1) in Some (take k s, drop k s))"

definition c_string :: "string \<Rightarrow> string" where
  "c_string s = takeWhile (\<lambda>c. c \<noteq> CHR 0x00) s"

lemma fgets_rest:
  assumes "fgets 200 s = Some (piece, rest)"
  shows "s = piece @ rest" and "length rest < length s"
  using assms by (auto simp: fgets_def Let_def min_def split: if_splits)

function read_pipe :: "string \<Rightarrow> string \<Rightarrow> string" where
  "read_pipe s result =
     (case fgets 200 s of
        None \<Rightarrow> result
      | Some (piece, rest) \<Rightarrow> read_pipe rest (result @ c_string piece))"
  by pat_completeness auto
termination by (relation "measure (length \<circ> fst)") (auto dest: fgets_rest(2))

declare read_pipe.simps [simp del]

text \<open>\<open>popen\<close> answers nothing or the output of the command; the former is an exception.\<close>

definition execCommand :: "string option \<Rightarrow> string + string" where
  "execCommand pipe =
     (case pipe of None \<Rightarrow> Inl ''popen() failed!'' | Some out \<Rightarrow> Inr (read_pipe out []))"

lemma c_string_all: "c_string s = s \<longleftrightarrow> CHR 0x00 \<notin> set s"
  by (auto simp: c_string_def takeWhile_eq_all_conv)

lemma c_string_length: "length (c_string s) \<le> length s"
  by (simp add: c_string_def length_takeWhile_le)

lemma read_pipe_text:
  "\<exists>t. read_pipe s r = r @ t \<and> length t \<le> length s \<and> (t = s \<longleftrightarrow> CHR 0x00 \<notin> set s)"
proof (induction s r rule: read_pipe.induct)
  case (1 s r)
  show ?case
  proof (cases "fgets 200 s")
    case None
    then have "s = []" by (simp add: fgets_def Let_def split: if_splits)
    then show ?thesis by (subst read_pipe.simps) (simp add: fgets_def)
  next
    case (Some pr)
    obtain piece rest where pr: "pr = (piece, rest)" by (cases pr)
    note s = fgets_rest(1)[OF Some[unfolded pr]]
    from "1.IH"[OF Some pr[symmetric]] obtain t where t: "read_pipe rest (r @ c_string piece) = (r @ c_string piece) @ t"
      "length t \<le> length rest" "t = rest \<longleftrightarrow> CHR 0x00 \<notin> set rest" by blast
    have "c_string piece @ t = s \<longleftrightarrow> c_string piece = piece \<and> t = rest"
    proof
      assume e: "c_string piece @ t = s"
      then have "length (c_string piece @ t) = length (piece @ rest)" using s by simp
      with t(2) c_string_length[of piece] have "length (c_string piece) = length piece" by simp
      with e s show "c_string piece = piece \<and> t = rest" by simp
    qed (simp add: s)
    then show ?thesis
      using Some pr t c_string_length[of piece] s
      by (intro exI[of _ "c_string piece @ t"]) (subst read_pipe.simps, auto simp: c_string_all)
  qed
qed

text \<open>The whole output is returned, however long its lines are, exactly if it has no null character.\<close>

lemma execCommand_output: "execCommand (Some out) = Inr out \<longleftrightarrow> CHR 0x00 \<notin> set out"
  using read_pipe_text[of out "[]"] by (auto simp: execCommand_def)

section \<open>Files\<close>

type_synonym files = "string \<Rightarrow> byte list option"

text \<open>\<open>opens\<close>: whether the file can be created.  The answer is always \<open>True\<close>.\<close>

definition writeFile :: "bool \<Rightarrow> string \<Rightarrow> byte list \<Rightarrow> u32 \<Rightarrow> files \<Rightarrow> (bool \<times> files) option" where
  "writeFile opens file buffer len fs =
     (if \<not> opens then Some (True, fs)
      else if length buffer < unat len then None
      else Some (True, fs(file \<mapsto> take (unat len) buffer)))"

text \<open>
  \<open>readFile\<close> answers the address of an array of its own frame, which is gone when it has
  returned.  The array has the length of the file as an \<open>int\<close>, which must be positive.
\<close>

datatype file_pointer = Ended_frame "byte list"

datatype read_result = Assertion_failed | Returned file_pointer nat

definition readFile :: "string \<Rightarrow> files \<Rightarrow> read_result option" where
  "readFile file fs =
     (case fs file of
        None \<Rightarrow> Some Assertion_failed
      | Some content \<Rightarrow>
          if 0 < length content \<and> length content < 2 ^ 31
          then Some (Returned (Ended_frame content) (length content)) else None)"

text \<open>A read through the pointer, after the return.\<close>

fun deref :: "file_pointer \<Rightarrow> nat \<Rightarrow> byte option" where
  "deref (Ended_frame content) i = None"

text \<open>What was written has the right length when read, and none of its bytes can be read.\<close>

lemma write_then_read:
  assumes "writeFile True file buffer len fs = Some (ok, fs')" and "0 < len" and "unat len < 2 ^ 31"
  shows "\<exists>p. readFile file fs' = Some (Returned p (unat len)) \<and> (\<forall>i. deref p i = None)"
  using assms by (auto simp: writeFile_def readFile_def word_less_nat_alt min_def split: if_splits)

lemma failed_write_unreported: "writeFile False file buffer len fs = Some (True, fs)"
  by (simp add: writeFile_def)

section \<open>Printing numbers\<close>

text \<open>\<open>printf\<close> with \<^verbatim>\<open>%d\<close>: the argument is read as a signed integer.\<close>

definition print_d :: "u32 \<Rightarrow> string" where
  "print_d w = (if w <s 0 then CHR ''-'' # decimal (nat (- sint w)) else decimal (unat w))"

text \<open>
  A newline after every \<open>columns\<close> numbers (4 here, 16 in \<^verbatim>\<open>test/main.cpp\<close>).  The index is an
  \<open>int\<close>: from \<open>2 ^ 31\<close> numbers on its increment overflows.
\<close>

definition print_matrix :: "nat \<Rightarrow> u32 list \<Rightarrow> u32 \<Rightarrow> string option" where
  "print_matrix columns matrix len =
     (if unat len < 2 ^ 31 \<and> unat len \<le> length matrix
      then Some (endl @ concat (map (\<lambda>i. print_d (matrix ! i) @ ''   '' @
             (if (i + 1) mod columns = 0 then endl else [])) [0..<unat len]))
      else None)"

definition printMatrix :: "u32 list \<Rightarrow> u32 \<Rightarrow> string option" where
  "printMatrix = print_matrix 4"

lemma printMatrix_example:
  "printMatrix [7, 0xFFFFFFFF] 2 = Some (endl @ ''7   -1   '')"
  by (simp add: printMatrix_def print_matrix_def print_d_def upt_rec decimal.simps hex_lut_def word_sless_alt)

end
