(* ===== verification/Pool.thy ===== *)
theory Pool
  imports Prelude
begin

text \<open>
  The containers of the server and of \<^verbatim>\<open>utils\<close>: \<^verbatim>\<open>server/Queue.hpp\<close> and \<^verbatim>\<open>server/Stack.hpp\<close>
  (a \<open>std\<close> container and a timer on which \<open>async_pop\<close> suspends), \<^verbatim>\<open>utils/include/safeQ.hpp\<close>,
  \<^verbatim>\<open>server/Counter.hpp\<close> and \<^verbatim>\<open>server/Event.hpp\<close>, with the interfaces (\<open>container\<close>, \<open>fifo\<close>,
  \<open>lifo\<close>) their clients rely on.  Coroutines run on one thread: an operation between two
  suspension points is one step.
\<close>

section \<open>Queue and Stack\<close>

text \<open>
  The items are listed in the order \<open>pop\<close> takes them.  \<open>waiters\<close> are the coroutines
  suspended on the timer, oldest first; \<open>woken\<close> those whose wait was cancelled and that the
  executor has not resumed yet.
\<close>

record ('a, 'w) ready =
  items :: "'a list"
  waiters :: "'w list"
  woken :: "'w list"

definition cancel_one :: "('a, 'w) ready \<Rightarrow> ('a, 'w) ready" where
  "cancel_one p = (case waiters p of
     [] \<Rightarrow> p
   | w # ws \<Rightarrow> p\<lparr> waiters := ws, woken := woken p @ [w] \<rparr>)"

definition queue_push :: "'a \<Rightarrow> ('a, 'w) ready \<Rightarrow> ('a, 'w) ready" where
  "queue_push x p = cancel_one (p\<lparr> items := items p @ [x] \<rparr>)"

definition stack_push :: "'a \<Rightarrow> ('a, 'w) ready \<Rightarrow> ('a, 'w) ready" where
  "stack_push x p = cancel_one (p\<lparr> items := x # items p \<rparr>)"

text \<open>\<open>front\<close>, \<open>top\<close> and \<open>pop\<close> of an empty \<open>std\<close> container are undefined: \<open>None\<close>.\<close>

definition pool_pop :: "('a, 'w) ready \<Rightarrow> ('a \<times> ('a, 'w) ready) option" where
  "pool_pop p = (case items p of [] \<Rightarrow> None | x # xs \<Rightarrow> Some (x, p\<lparr> items := xs \<rparr>))"

definition pool_empty :: "('a, 'w) ready \<Rightarrow> bool" where
  "pool_empty p \<longleftrightarrow> items p = []"

text \<open>
  \<open>async_pop\<close> up to its suspension point, and from the point where the wait ended.  The
  coroutine \<open>w\<close> that resumes pops without looking again whether there is an item.
\<close>

definition async_pop :: "'w \<Rightarrow> ('a, 'w) ready \<Rightarrow> 'a option \<times> ('a, 'w) ready" where
  "async_pop w p =
     (if \<not> pool_empty p
      then (case pool_pop p of Some (x, p') \<Rightarrow> (Some x, p') | None \<Rightarrow> (None, p))
      else (None, p\<lparr> waiters := waiters p @ [w] \<rparr>))"

datatype ('a, 'w) resumption = Idle | Undefined | Popped 'w 'a

definition resume_pop :: "('a, 'w) ready \<Rightarrow> ('a, 'w) resumption \<times> ('a, 'w) ready" where
  "resume_pop p = (case woken p of
     [] \<Rightarrow> (Idle, p)
   | w # ws \<Rightarrow>
       (case pool_pop (p\<lparr> woken := ws \<rparr>) of
          None \<Rightarrow> (Undefined, p\<lparr> woken := ws \<rparr>)
        | Some (x, p') \<Rightarrow> (Popped w x, p')))"

text \<open>\<open>while (!q.empty()) v.push_back(q.pop())\<close>: the items in pop order, and the empty pool.\<close>

function drain_pool :: "('a, 'w) ready \<Rightarrow> 'a list \<times> ('a, 'w) ready" where
  "drain_pool p =
     (case pool_pop p of
        None \<Rightarrow> ([], p)
      | Some (x, p') \<Rightarrow> (case drain_pool p' of (xs, p'') \<Rightarrow> (x # xs, p'')))"
  by pat_completeness auto
termination
  by (relation "measure (\<lambda>p. length (items p))") (auto simp: pool_pop_def split: list.splits)

declare drain_pool.simps [simp del]

section \<open>SafeQ\<close>

text \<open>A FIFO behind a mutex; each locked operation is one step.\<close>

datatype 'a safeq = SafeQ (queue_of: "'a list")

fun safeq_size :: "'a safeq \<Rightarrow> nat" where "safeq_size (SafeQ xs) = length xs"
fun safeq_empty :: "'a safeq \<Rightarrow> bool" where "safeq_empty (SafeQ xs) \<longleftrightarrow> xs = []"
fun safeq_push :: "'a \<Rightarrow> 'a safeq \<Rightarrow> 'a safeq" where "safeq_push x (SafeQ xs) = SafeQ (xs @ [x])"
fun safeq_pop :: "'a safeq \<Rightarrow> 'a option \<times> 'a safeq" where
  "safeq_pop (SafeQ []) = (None, SafeQ [])"
| "safeq_pop (SafeQ (x # xs)) = (Some x, SafeQ xs)"

text \<open>The same as an optional pair, the form of the interface below.\<close>

definition safeq_take :: "'a safeq \<Rightarrow> ('a \<times> 'a safeq) option" where
  "safeq_take q = (case safeq_pop q of (Some x, q') \<Rightarrow> Some (x, q') | (None, q') \<Rightarrow> None)"

section \<open>Counter\<close>

text \<open>
  The constructors of \<open>Counter\<close> do not set \<open>_val\<close>: its first value is a parameter wherever a
  counter is made.  \<open>incr\<close> and \<open>decr\<close> cancel the timer, so that every waiting
  \<open>async_wait_zero\<close> tests the value again; it returns when it finds 0.
\<close>

definition counter_incr :: "u32 \<Rightarrow> u32" where "counter_incr v = v + 1"

definition counter_decr :: "u32 \<Rightarrow> u32" where "counter_decr v = (if v = 0 then v else v - 1)"

definition zero_reached :: "u32 \<Rightarrow> bool" where "zero_reached v \<longleftrightarrow> v = 0"

section \<open>Event\<close>

text \<open>An event keeps no state but its waiters: a notification reaches those waiting now.\<close>

definition event_wait :: "'w \<Rightarrow> 'w list \<Rightarrow> 'w list" where "event_wait w ws = ws @ [w]"

fun notify_one :: "'w list \<Rightarrow> 'w list \<times> 'w list" where
  "notify_one [] = ([], [])"
| "notify_one (w # ws) = ([w], ws)"

definition notify_all :: "'w list \<Rightarrow> 'w list \<times> 'w list" where "notify_all ws = (ws, [])"

section \<open>Interfaces\<close>

text \<open>What a client of a pool relies on: \<open>pop\<close> takes out, once, what was pushed.\<close>

locale container =
  fixes push :: "'a \<Rightarrow> 'p \<Rightarrow> 'p"
    and pop :: "'p \<Rightarrow> ('a \<times> 'p) option"
    and bag :: "'p \<Rightarrow> 'a multiset"
  assumes bag_push: "bag (push x p) = add_mset x (bag p)"
    and pop_None: "pop p = None \<longleftrightarrow> bag p = {#}"
    and bag_pop: "pop p = Some (x, p') \<Longrightarrow> bag p = add_mset x (bag p')"

text \<open>\<open>n\<close> pops in a row, and a row of pushes.\<close>

fun pop_many :: "('p \<Rightarrow> ('a \<times> 'p) option) \<Rightarrow> nat \<Rightarrow> 'p \<Rightarrow> ('a list \<times> 'p) option" where
  "pop_many pop 0 p = Some ([], p)"
| "pop_many pop (Suc n) p =
     (case pop p of None \<Rightarrow> None
      | Some (x, p') \<Rightarrow> map_option (\<lambda>(xs, p''). (x # xs, p'')) (pop_many pop n p'))"

context container
begin

lemma bag_push_all: "bag (fold push xs p) = bag p + mset xs"
  by (induction xs arbitrary: p) (simp_all add: bag_push)

lemma pop_many_total:
  "n \<le> size (bag p) \<Longrightarrow>
   \<exists>xs p'. pop_many pop n p = Some (xs, p') \<and> length xs = n \<and> bag p = mset xs + bag p'"
proof (induction n arbitrary: p)
  case (Suc n)
  then have "pop p \<noteq> None" by (auto simp: pop_None)
  then obtain x q where q: "pop p = Some (x, q)" by auto
  then have b: "bag p = add_mset x (bag q)" by (rule bag_pop)
  with Suc.prems have "n \<le> size (bag q)" by simp
  from Suc.IH[OF this] obtain xs r where
    "pop_many pop n q = Some (xs, r)" "length xs = n" "bag q = mset xs + bag r" by blast
  with q b show ?case by auto
qed simp

lemma pop_many_none: "size (bag p) < n \<Longrightarrow> pop_many pop n p = None"
proof (induction n arbitrary: p)
  case (Suc n)
  show ?case
  proof (cases "pop p")
    case (Some r)
    then obtain x q where "pop p = Some (x, q)" by (cases r) auto
    with bag_pop[OF this] Suc show ?thesis by simp
  qed simp
qed simp

end

text \<open>A container whose content is a sequence, taken from its front.\<close>

locale sequence =
  fixes pop :: "'p \<Rightarrow> ('a \<times> 'p) option"
    and contents :: "'p \<Rightarrow> 'a list"
  assumes pop_empty: "pop p = None \<longleftrightarrow> contents p = []"
    and contents_pop: "pop p = Some (x, p') \<Longrightarrow> contents p = x # contents p'"
begin

lemma pop_many_contents:
  "n \<le> length (contents p) \<Longrightarrow>
   \<exists>p'. pop_many pop n p = Some (take n (contents p), p') \<and> contents p' = drop n (contents p)"
proof (induction n arbitrary: p)
  case (Suc n)
  then have "pop p \<noteq> None" by (auto simp: pop_empty)
  then obtain x q where q: "pop p = Some (x, q)" by auto
  then have c: "contents p = x # contents q" by (rule contents_pop)
  with Suc.prems Suc.IH[of q] q show ?case by auto
qed simp

end

locale fifo = sequence +
  fixes push :: "'b \<Rightarrow> 'a \<Rightarrow> 'a"
  assumes contents_push: "contents (push x p) = contents p @ [x]"

sublocale fifo \<subseteq> container push pop "\<lambda>p. mset (contents p)"
  by unfold_locales (auto simp: contents_push pop_empty contents_pop)

context fifo
begin

lemma contents_push_all: "contents (fold push xs p) = contents p @ xs"
  by (induction xs arbitrary: p) (simp_all add: contents_push)

lemma first_in_first_out:
  "\<exists>p'. pop_many pop (length (contents p) + length xs) (fold push xs p) =
     Some (contents p @ xs, p') \<and> contents p' = []"
  using pop_many_contents[of "length (contents p) + length xs" "fold push xs p"]
  by (simp add: contents_push_all)

end

locale lifo = sequence +
  fixes push :: "'b \<Rightarrow> 'a \<Rightarrow> 'a"
  assumes contents_push: "contents (push x p) = x # contents p"

sublocale lifo \<subseteq> container push pop "\<lambda>p. mset (contents p)"
  by unfold_locales (auto simp: contents_push pop_empty contents_pop)

context lifo
begin

lemma contents_push_all: "contents (fold push xs p) = rev xs @ contents p"
  by (induction xs arbitrary: p) (simp_all add: contents_push)

lemma last_in_first_out:
  "\<exists>p'. pop_many pop (length xs) (fold push xs p) = Some (rev xs, p') \<and> contents p' = contents p"
  using pop_many_contents[of "length xs" "fold push xs p"] by (simp add: contents_push_all)

end

section \<open>The implementations\<close>

lemma cancel_one_items [simp]: "items (cancel_one p) = items p"
  by (simp add: cancel_one_def split: list.split)

lemma items_push [simp]:
  "items (queue_push x p) = items p @ [x]" "items (stack_push x p) = x # items p"
  by (simp_all add: queue_push_def stack_push_def)

lemma pool_pop_None: "pool_pop p = None \<longleftrightarrow> items p = []"
  by (simp add: pool_pop_def split: list.split)

lemma pool_pop_Some:
  "pool_pop p = Some (x, p') \<longleftrightarrow> (\<exists>xs. items p = x # xs \<and> p' = p\<lparr> items := xs \<rparr>)"
  by (auto simp: pool_pop_def split: list.split)

interpretation queue_fifo: fifo pool_pop items queue_push
  by unfold_locales (auto simp: pool_pop_None pool_pop_Some)

interpretation stack_lifo: lifo pool_pop items stack_push
  by unfold_locales (auto simp: pool_pop_None pool_pop_Some)

lemma safeq_take_simps [simp]:
  "safeq_take (SafeQ []) = None" "safeq_take (SafeQ (x # xs)) = Some (x, SafeQ xs)"
  by (simp_all add: safeq_take_def)

interpretation safeq_fifo: fifo safeq_take queue_of safeq_push
proof unfold_locales
  show "queue_of (safeq_push x p) = queue_of p @ [x]" for x :: 'a and p by (cases p) simp
  show "safeq_take p = None \<longleftrightarrow> queue_of p = []" for p :: "'a safeq"
    by (cases p rule: safeq_pop.cases) simp_all
  show "queue_of p = x # queue_of p'" if "safeq_take p = Some (x, p')" for p p' and x :: 'a
    using that by (cases p rule: safeq_pop.cases) auto
qed

lemma drain_pool_run: "drain_pool p = (items p, p\<lparr> items := [] \<rparr>)"
proof (induction p rule: drain_pool.induct)
  case (1 p)
  show ?case
  proof (cases "items p")
    case Nil
    then show ?thesis by (subst drain_pool.simps) (simp add: pool_pop_def)
  next
    case (Cons x xs)
    then have pp: "pool_pop p = Some (x, p\<lparr> items := xs \<rparr>)" by (simp add: pool_pop_def)
    show ?thesis
      using "1.IH"[OF pp refl] Cons by (subst drain_pool.simps) (simp add: pp)
  qed
qed


section \<open>Suspended pops\<close>

text \<open>
  The life of a pool with coroutines that pop from it: an outside push, a coroutine that
  calls \<open>async_pop\<close>, and the executor that resumes a woken one.  \<open>None\<close>: undefined behaviour.
\<close>

datatype ('a, 'w) pool_event = Push 'a | Async_pop 'w | Resume

definition pool_step ::
  "('a \<Rightarrow> ('a, 'w) ready \<Rightarrow> ('a, 'w) ready) \<Rightarrow> ('a, 'w) pool_event \<Rightarrow> ('a, 'w) ready \<Rightarrow>
   ('a, 'w) ready option" where
  "pool_step push e p = (case e of
     Push x \<Rightarrow> Some (push x p)
   | Async_pop w \<Rightarrow> Some (snd (async_pop w p))
   | Resume \<Rightarrow> (case resume_pop p of (Undefined, p') \<Rightarrow> None | (_, p') \<Rightarrow> Some p'))"

fun pool_run ::
  "('a \<Rightarrow> ('a, 'w) ready \<Rightarrow> ('a, 'w) ready) \<Rightarrow> ('a, 'w) pool_event list \<Rightarrow> ('a, 'w) ready \<Rightarrow>
   ('a, 'w) ready option" where
  "pool_run push [] p = Some p"
| "pool_run push (e # es) p =
     (case pool_step push e p of None \<Rightarrow> None | Some p' \<Rightarrow> pool_run push es p')"

text \<open>\<open>patient\<close>: no coroutine calls \<open>async_pop\<close> while a woken one has not run yet.\<close>

fun patient ::
  "('a \<Rightarrow> ('a, 'w) ready \<Rightarrow> ('a, 'w) ready) \<Rightarrow> ('a, 'w) pool_event list \<Rightarrow> ('a, 'w) ready \<Rightarrow> bool"
where
  "patient push [] p = True"
| "patient push (e # es) p \<longleftrightarrow>
     (case e of Async_pop w \<Rightarrow> woken p = [] | _ \<Rightarrow> True) \<and>
     (case pool_step push e p of None \<Rightarrow> True | Some p' \<Rightarrow> patient push es p')"

text \<open>What a push does to the pool, whatever its place among the items.\<close>

locale waking_push =
  fixes push :: "'a \<Rightarrow> ('a, 'w) ready \<Rightarrow> ('a, 'w) ready"
  assumes push_items: "mset (items (push x p)) = add_mset x (mset (items p))"
    and push_wakes: "waiters p = w # ws \<Longrightarrow>
      waiters (push x p) = ws \<and> woken (push x p) = woken p @ [w]"
    and push_quiet: "waiters p = [] \<Longrightarrow> waiters (push x p) = [] \<and> woken (push x p) = woken p"
begin

lemma push_length: "length (items (push x p)) = Suc (length (items p))"
  using arg_cong[OF push_items, of size] by simp

lemma push_waiting: "mset (waiters (push x p)) + mset (woken (push x p)) =
    mset (waiters p) + mset (woken p)"
  using push_wakes[of p] push_quiet[of p] by (cases "waiters p") auto

text \<open>Every woken coroutine has an item to pop, and none waits while an item is left for it.\<close>

definition pool_ok :: "('a, 'w) ready \<Rightarrow> bool" where
  "pool_ok p \<longleftrightarrow> length (woken p) \<le> length (items p) \<and>
     (waiters p = [] \<or> length (items p) = length (woken p))"

lemma push_ok: "pool_ok p \<Longrightarrow> pool_ok (push x p)"
  using push_wakes[of p] push_quiet[of p] push_length[of x p]
  by (cases "waiters p") (auto simp: pool_ok_def)

lemma step_ok:
  assumes "pool_ok p" and "case e of Async_pop w \<Rightarrow> woken p = [] | _ \<Rightarrow> True"
  shows "\<exists>p'. pool_step push e p = Some p' \<and> pool_ok p'"
proof (cases e)
  case (Push x)
  then show ?thesis using push_ok[OF assms(1)] by (simp add: pool_step_def)
next
  case (Async_pop w)
  then show ?thesis
    using assms
    by (auto simp: pool_step_def async_pop_def pool_pop_def pool_empty_def pool_ok_def split: list.split)
next
  case Resume
  show ?thesis
  proof (cases "woken p")
    case Nil
    then show ?thesis using Resume assms(1) by (simp add: pool_step_def resume_pop_def)
  next
    case (Cons w ws)
    then obtain x xs where "items p = x # xs" using assms(1) by (cases "items p") (auto simp: pool_ok_def)
    then show ?thesis
      using Cons Resume assms(1) by (auto simp: pool_step_def resume_pop_def pool_pop_def pool_ok_def)
  qed
qed

lemma patient_run:
  "pool_ok p \<Longrightarrow> patient push es p \<Longrightarrow> \<exists>p'. pool_run push es p = Some p' \<and> pool_ok p'"
proof (induction es arbitrary: p)
  case (Cons e es)
  then have "case e of Async_pop w \<Rightarrow> woken p = [] | _ \<Rightarrow> True" by simp
  from step_ok[OF Cons.prems(1) this] obtain p' where "pool_step push e p = Some p'" "pool_ok p'"
    by blast
  with Cons show ?case by simp
qed simp

end

interpretation queue_waking: waking_push queue_push
  by unfold_locales (auto simp: queue_push_def cancel_one_def split: list.split)

interpretation stack_waking: waking_push stack_push
  by unfold_locales (auto simp: stack_push_def cancel_one_def split: list.split)

section \<open>Properties\<close>

text \<open>
  \<open>Queue\<close> is first in, first out: after any pushes, as many pops as there are items
  return the old items in their order and then the new ones in the order of the pushes.
\<close>

theorem queue_first_in_first_out:
  "\<exists>p'. pop_many pool_pop (length (items p) + length xs) (fold queue_push xs p) =
     Some (items p @ xs, p') \<and> items p' = []"
  by (rule queue_fifo.first_in_first_out)

text \<open>
  \<open>Stack\<close> is last in, first out: popping after some pushes returns what was pushed in
  reverse and leaves the items that were there before.
\<close>

theorem stack_last_in_first_out:
  "\<exists>p'. pop_many pool_pop (length xs) (fold stack_push xs p) = Some (rev xs, p') \<and>
     items p' = items p"
  by (rule stack_lifo.last_in_first_out)

text \<open>
  \<open>SafeQ\<close> is first in, first out, its \<open>pop\<close> answers nothing exactly when it is empty,
  and \<open>size\<close> counts its items.
\<close>

theorem safeq_first_in_first_out:
  "(\<exists>q'. pop_many safeq_take (safeq_size q + length xs) (fold safeq_push xs q) =
     Some (queue_of q @ xs, q') \<and> safeq_empty q') \<and>
   (fst (safeq_pop q) = None \<longleftrightarrow> safeq_size q = 0)"
proof -
  have s: "safeq_size r = length (queue_of r)" "safeq_empty r \<longleftrightarrow> queue_of r = []" for r :: "'a safeq"
    by (cases r; simp)+
  have "fst (safeq_pop q) = None \<longleftrightarrow> safeq_size q = 0"
    by (cases q rule: safeq_pop.cases) simp_all
  then show ?thesis
    using safeq_fifo.first_in_first_out[of q xs] by (simp add: s)
qed

definition empty_pool :: "('a, 'w) ready" where
  "empty_pool = \<lparr> items = [], waiters = [], woken = [] \<rparr>"

text \<open>
  In every history of pushes, \<open>async_pop\<close> calls and resumptions in which no coroutine
  calls \<open>async_pop\<close> between the wake-up of another and its resumption, no coroutine ever pops
  from an empty container, for the queue and for the stack.
\<close>

theorem async_pop_safe:
  assumes "patient queue_push es empty_pool" and "patient stack_push fs empty_pool"
  shows "pool_run queue_push es empty_pool \<noteq> None \<and> pool_run stack_push fs empty_pool \<noteq> None"
  using queue_waking.patient_run[of empty_pool es] stack_waking.patient_run[of empty_pool fs] assms
  by (auto simp: queue_waking.pool_ok_def stack_waking.pool_ok_def empty_pool_def)

theorem async_pop_safe_witness:
  "pool_run queue_push [Async_pop (1 :: nat), Push CHR ''x'', Resume, Async_pop 2] empty_pool \<noteq> None"
  using async_pop_safe[of "[Async_pop 1, Push CHR ''x'', Resume, Async_pop 2]" "[]"]
  by (simp add: pool_step_def async_pop_def pool_pop_def pool_empty_def queue_push_def cancel_one_def
      resume_pop_def empty_pool_def)

text \<open>
  Without that discipline the wake-up is lost: a coroutine waits, an item is pushed and
  wakes it, a second coroutine takes the item before the first runs, and the first then
  pops from an empty container, which is undefined.
\<close>

lemma async_pop_race:
  "pool_run queue_push [Async_pop w1, Push x, Async_pop w2, Resume] empty_pool = None \<and>
   pool_run stack_push [Async_pop w1, Push x, Async_pop w2, Resume] empty_pool = None"
  by (simp add: pool_step_def async_pop_def pool_pop_def pool_empty_def queue_push_def stack_push_def
      cancel_one_def resume_pop_def empty_pool_def)

end
