(* ===== verification/Block.thy ===== *)
theory Block
  imports Pool
begin

text \<open>
  A compute block of the node's FPGA and the thread that serves it, \<^verbatim>\<open>utils/src/Block.cpp\<close> and
  \<^verbatim>\<open>Block.hpp\<close>: chunks of items are taken from a queue the blocks share, every item is written
  to the block, the block is started and polled, and its answer is collected.  The threads
  interleave at the accesses of \<open>work\<close> to anything shared: the two queues, the \<open>state\<close> the
  client also writes, and the bus.

  The block itself is hardware and a parameter: it answers a byte read from the trace of the
  accesses to it so far.
\<close>

section \<open>Data\<close>

record chunk =
  chunk_id :: u32
  chunk_size :: u32
  chunk_data :: "byte list"

datatype access = Store u32 "byte list" | Fetch u32 nat | Put u32 byte | Get u32

type_synonym accel = "access list \<Rightarrow> u32 \<Rightarrow> byte"

definition fetch_bytes :: "accel \<Rightarrow> access list \<Rightarrow> u32 \<Rightarrow> u32 \<Rightarrow> byte list" where
  "fetch_bytes hw t p n = map (\<lambda>i. hw t (p + of_nat i)) [0..<unat n]"

text \<open>
  \<open>memcpy\<close> from and into an allocation, at a 32-bit offset; outside of it the behaviour is
  undefined (\<open>None\<close>).
\<close>

definition load_range :: "byte list \<Rightarrow> u32 \<Rightarrow> u32 \<Rightarrow> byte list option" where
  "load_range xs off n =
     (if unat off + unat n \<le> length xs then Some (take (unat n) (drop (unat off) xs)) else None)"

definition store_range :: "byte list \<Rightarrow> u32 \<Rightarrow> byte list \<Rightarrow> byte list option" where
  "store_range xs off bs =
     (if unat off + length bs \<le> length xs
      then Some (take (unat off) xs @ bs @ drop (unat off + length bs) xs) else None)"

section \<open>The thread of a block\<close>

datatype block_state = Busy | Done | Stopped | Ready

text \<open>
  Where \<open>work\<close> stands.  The four positions of an item carry the chunk it is of, the chunk
  being filled and the item's index.
\<close>

datatype position =
    Testing
  | Marking
  | Taking
  | Sending chunk chunk u32
  | Starting chunk chunk u32
  | Polling chunk chunk u32
  | Fetching chunk chunk u32
  | Pushing chunk
  | Ending

text \<open>A port is its address and size; \<open>None\<close>: not set yet.\<close>

record block =
  cr_addr :: u32
  input_port :: "(u32 \<times> u32) option"
  output_port :: "(u32 \<times> u32) option"
  state :: block_state
  position :: position
  bus :: "access list"

definition new_block :: "u32 \<Rightarrow> block" where
  "new_block cra = \<lparr> cr_addr = cra, input_port = None, output_port = None, state = Ready,
     position = Testing, bus = [] \<rparr>"

definition setInputs :: "u32 \<Rightarrow> u32 \<Rightarrow> block \<Rightarrow> block" where
  "setInputs address len b = b\<lparr> input_port := Some (address, len) \<rparr>"

definition setOutputs :: "u32 \<Rightarrow> u32 \<Rightarrow> block \<Rightarrow> block" where
  "setOutputs address len b = b\<lparr> output_port := Some (address, len) \<rparr>"

definition isDone :: "accel \<Rightarrow> access list \<Rightarrow> u32 \<Rightarrow> bool" where
  "isDone hw t cra \<longleftrightarrow> drop_bit 1 (hw t (cra + 0x18) AND 0x02) = 1"

text \<open>The output buffer of \<open>new uint8_t[n]\<close> holds whatever the heap held (\<open>junk\<close>).\<close>

definition new_output :: "(nat \<Rightarrow> byte) \<Rightarrow> chunk \<Rightarrow> u32 \<Rightarrow> chunk" where
  "new_output junk c osz = \<lparr> chunk_id = chunk_id c, chunk_size = chunk_size c,
     chunk_data = map junk [0..<unat (chunk_size c * osz)] \<rparr>"

definition send_item :: "chunk \<Rightarrow> chunk \<Rightarrow> u32 \<Rightarrow> block \<Rightarrow> block option" where
  "send_item c g a b =
     (if a < chunk_size c
      then case input_port b of
          None \<Rightarrow> None
        | Some (p, isz) \<Rightarrow>
            (case load_range (chunk_data c) (a * isz) isz of
               None \<Rightarrow> None
             | Some bs \<Rightarrow> Some (b\<lparr> bus := bus b @ [Store p bs], position := Starting c g a \<rparr>))
      else Some (b\<lparr> position := Pushing g \<rparr>))"

definition block_start :: "chunk \<Rightarrow> chunk \<Rightarrow> u32 \<Rightarrow> block \<Rightarrow> block" where
  "block_start c g a b = b\<lparr> bus := bus b @ [Put (cr_addr b + 0x8) 1], position := Polling c g a \<rparr>"

definition poll_done :: "accel \<Rightarrow> chunk \<Rightarrow> chunk \<Rightarrow> u32 \<Rightarrow> block \<Rightarrow> block" where
  "poll_done hw c g a b = b\<lparr> bus := bus b @ [Get (cr_addr b + 0x18)],
     position := (if isDone hw (bus b) (cr_addr b) then Fetching c g a else Polling c g a) \<rparr>"

definition fetch_item :: "accel \<Rightarrow> chunk \<Rightarrow> chunk \<Rightarrow> u32 \<Rightarrow> block \<Rightarrow> block option" where
  "fetch_item hw c g a b =
     (case output_port b of
        None \<Rightarrow> None
      | Some (q, osz) \<Rightarrow>
          (case store_range (chunk_data g) (a * osz) (fetch_bytes hw (bus b) q osz) of
             None \<Rightarrow> None
           | Some d \<Rightarrow> Some (b\<lparr> bus := bus b @ [Fetch q (unat osz)],
               position := Sending c (g\<lparr> chunk_data := d \<rparr>) (a + 1) \<rparr>)))"

text \<open>One step of the thread; \<open>None\<close>: undefined behaviour.\<close>

type_synonym served = "block \<times> chunk safeq \<times> chunk safeq"

fun work_step :: "accel \<Rightarrow> (nat \<Rightarrow> byte) \<Rightarrow> served \<Rightarrow> served option" where
  "work_step hw junk (b, inq, outq) =
     (case position b of
        Testing \<Rightarrow> Some (if state b = Stopped then b else b\<lparr> position := Marking \<rparr>, inq, outq)
      | Marking \<Rightarrow> Some (b\<lparr> state := Busy, position := Taking \<rparr>, inq, outq)
      | Taking \<Rightarrow>
          (case safeq_pop inq of
             (None, inq) \<Rightarrow> Some (b\<lparr> position := Ending \<rparr>, inq, outq)
           | (Some c, inq) \<Rightarrow>
               (case output_port b of
                  None \<Rightarrow> None
                | Some (q, osz) \<Rightarrow>
                    Some (b\<lparr> position := Sending c (new_output junk c osz) 0 \<rparr>, inq, outq)))
      | Sending c g a \<Rightarrow> map_option (\<lambda>b. (b, inq, outq)) (send_item c g a b)
      | Starting c g a \<Rightarrow> Some (block_start c g a b, inq, outq)
      | Polling c g a \<Rightarrow> Some (poll_done hw c g a b, inq, outq)
      | Fetching c g a \<Rightarrow> map_option (\<lambda>b. (b, inq, outq)) (fetch_item hw c g a b)
      | Pushing g \<Rightarrow> Some (b\<lparr> position := Ending \<rparr>, inq, safeq_push g outq)
      | Ending \<Rightarrow> Some (b\<lparr> state := Done, position := Testing \<rparr>, inq, outq))"

declare work_step.simps [simp del]

section \<open>The node: blocks that share their queues, and their client\<close>

text \<open>\<open>pushed\<close> and \<open>popped\<close> record the client's calls.\<close>

record node =
  blocks :: "block list"
  inputs :: "chunk safeq"
  outputs :: "chunk safeq"
  pushed :: "chunk list"
  popped :: "chunk list"

datatype node_event =
    Work nat "nat \<Rightarrow> byte"
  | Set_inputs nat u32 u32
  | Set_outputs nat u32 u32
  | Set_state nat block_state
  | Push_chunk chunk
  | Pop_chunk

definition new_node :: "block list \<Rightarrow> node" where
  "new_node bs = \<lparr> blocks = bs, inputs = SafeQ [], outputs = SafeQ [], pushed = [], popped = [] \<rparr>"

definition on_block :: "nat \<Rightarrow> (block \<Rightarrow> block) \<Rightarrow> node \<Rightarrow> node option" where
  "on_block i f n =
     (if i < length (blocks n) then Some (n\<lparr> blocks := (blocks n)[i := f (blocks n ! i)] \<rparr>) else None)"

fun node_step :: "(nat \<Rightarrow> accel) \<Rightarrow> node_event \<Rightarrow> node \<Rightarrow> node option" where
  "node_step hw (Work i junk) n =
     (if i < length (blocks n)
      then case work_step (hw i) junk (blocks n ! i, inputs n, outputs n) of
          None \<Rightarrow> None
        | Some (b, inq, outq) \<Rightarrow>
            Some (n\<lparr> blocks := (blocks n)[i := b], inputs := inq, outputs := outq \<rparr>)
      else None)"
| "node_step hw (Set_inputs i p len) n = on_block i (setInputs p len) n"
| "node_step hw (Set_outputs i p len) n = on_block i (setOutputs p len) n"
| "node_step hw (Set_state i s) n = on_block i (\<lambda>b. b\<lparr> state := s \<rparr>) n"
| "node_step hw (Push_chunk c) n =
     Some (n\<lparr> inputs := safeq_push c (inputs n), pushed := pushed n @ [c] \<rparr>)"
| "node_step hw Pop_chunk n =
     (case safeq_pop (outputs n) of
        (None, q) \<Rightarrow> Some (n\<lparr> outputs := q \<rparr>)
      | (Some c, q) \<Rightarrow> Some (n\<lparr> outputs := q, popped := popped n @ [c] \<rparr>))"

fun node_run :: "(nat \<Rightarrow> accel) \<Rightarrow> node_event list \<Rightarrow> node \<Rightarrow> node option" where
  "node_run hw [] n = Some n"
| "node_run hw (e # es) n =
     (case node_step hw e n of None \<Rightarrow> None | Some n' \<Rightarrow> node_run hw es n')"

section \<open>The reference: what becomes of a chunk\<close>

definition item :: "u32 \<Rightarrow> chunk \<Rightarrow> nat \<Rightarrow> byte list" where
  "item isz c a = take (unat isz) (drop (a * unat isz) (chunk_data c))"

definition answers :: "(byte list \<Rightarrow> byte list) \<Rightarrow> u32 \<Rightarrow> chunk \<Rightarrow> nat \<Rightarrow> byte list" where
  "answers f isz c n = concat (map (\<lambda>a. f (item isz c a)) [0..<n])"

definition chunk_result :: "(byte list \<Rightarrow> byte list) \<Rightarrow> u32 \<Rightarrow> chunk \<Rightarrow> chunk" where
  "chunk_result f isz c = \<lparr> chunk_id = chunk_id c, chunk_size = chunk_size c,
     chunk_data = answers f isz c (unat (chunk_size c)) \<rparr>"

text \<open>A chunk that fits its ports: the sizes of its input and output do not wrap.\<close>

definition chunk_fits :: "u32 \<Rightarrow> u32 \<Rightarrow> chunk \<Rightarrow> bool" where
  "chunk_fits isz osz c \<longleftrightarrow>
     unat (chunk_size c) * unat isz \<le> length (chunk_data c) \<and>
     unat (chunk_size c) * unat isz < 2 ^ 32 \<and> unat (chunk_size c) * unat osz < 2 ^ 32"

definition filled :: "u32 \<Rightarrow> chunk \<Rightarrow> bool" where
  "filled osz g \<longleftrightarrow> length (chunk_data g) = unat (chunk_size g) * unat osz"

section \<open>Typing\<close>

definition item_ok :: "u32 \<Rightarrow> u32 \<Rightarrow> chunk \<Rightarrow> chunk \<Rightarrow> bool" where
  "item_ok isz osz c g \<longleftrightarrow> chunk_fits isz osz c \<and> filled osz g \<and>
     chunk_id g = chunk_id c \<and> chunk_size g = chunk_size c"

fun position_ok :: "u32 \<Rightarrow> u32 \<Rightarrow> position \<Rightarrow> bool" where
  "position_ok isz osz (Sending c g a) \<longleftrightarrow> item_ok isz osz c g \<and> a \<le> chunk_size c"
| "position_ok isz osz (Starting c g a) \<longleftrightarrow> item_ok isz osz c g \<and> a < chunk_size c"
| "position_ok isz osz (Polling c g a) \<longleftrightarrow> item_ok isz osz c g \<and> a < chunk_size c"
| "position_ok isz osz (Fetching c g a) \<longleftrightarrow> item_ok isz osz c g \<and> a < chunk_size c"
| "position_ok isz osz (Pushing g) \<longleftrightarrow> filled osz g"
| "position_ok isz osz _ \<longleftrightarrow> True"

definition ports :: "u32 \<Rightarrow> u32 \<Rightarrow> block \<Rightarrow> bool" where
  "ports isz osz b \<longleftrightarrow>
     (\<exists>p. input_port b = Some (p, isz)) \<and> (\<exists>q. output_port b = Some (q, osz))"

definition block_ok :: "u32 \<Rightarrow> u32 \<Rightarrow> block \<Rightarrow> bool" where
  "block_ok isz osz b \<longleftrightarrow> ports isz osz b \<and> position_ok isz osz (position b)"

definition node_ok :: "u32 \<Rightarrow> u32 \<Rightarrow> node \<Rightarrow> bool" where
  "node_ok isz osz n \<longleftrightarrow> (\<forall>b \<in> set (blocks n). block_ok isz osz b) \<and>
     (\<forall>c \<in> set (queue_of (inputs n)). chunk_fits isz osz c) \<and>
     (\<forall>c \<in> set (queue_of (outputs n)). filled osz c)"

text \<open>The client's part: it names existing blocks and pushes chunks that fit.\<close>

fun event_ok :: "u32 \<Rightarrow> u32 \<Rightarrow> nat \<Rightarrow> node_event \<Rightarrow> bool" where
  "event_ok isz osz k (Work i junk) \<longleftrightarrow> i < k"
| "event_ok isz osz k (Set_inputs i p len) \<longleftrightarrow> False"
| "event_ok isz osz k (Set_outputs i p len) \<longleftrightarrow> False"
| "event_ok isz osz k (Set_state i s) \<longleftrightarrow> i < k"
| "event_ok isz osz k (Push_chunk c) \<longleftrightarrow> chunk_fits isz osz c"
| "event_ok isz osz k Pop_chunk \<longleftrightarrow> True"

lemma unat_index:
  assumes "unat (n :: u32) * unat (k :: u32) < 2 ^ 32" and "a \<le> n"
  shows "unat (a * k) = unat a * unat k"
proof -
  have "unat a * unat k \<le> unat n * unat k" using assms(2) by (simp add: word_le_nat_alt mult_le_mono1)
  then have "unat a * unat k < 2 ^ 32" using assms(1) by (rule le_less_trans)
  then show ?thesis by (simp add: unat_word_ariths)
qed

lemma index_end:
  assumes "(a :: u32) < n"
  shows "unat a * k + k \<le> unat n * k" and "unat (a + 1) = Suc (unat a)" and "a + 1 \<le> n"
proof -
  have l: "unat a < unat n" using assms by (simp add: word_less_nat_alt)
  then have "Suc (unat a) * k \<le> unat n * k" by (intro mult_le_mono1) simp
  then show "unat a * k + k \<le> unat n * k" by simp
  have "unat n < 2 ^ 32" using unsigned_less[of n] by simp
  then show "unat (a + 1) = Suc (unat a)" using l by (simp add: unat_word_ariths)
  then show "a + 1 \<le> n" using l by (simp add: word_le_nat_alt)
qed

lemma load_item:
  assumes "chunk_fits isz osz c" and "a < chunk_size c"
  shows "load_range (chunk_data c) (a * isz) isz = Some (item isz c (unat a))"
proof -
  have "unat a * unat isz + unat isz \<le> unat (chunk_size c) * unat isz" by (rule index_end(1)[OF assms(2)])
  moreover have "unat (a * isz) = unat a * unat isz"
    using assms by (auto simp: chunk_fits_def intro: unat_index)
  ultimately show ?thesis using assms(1) by (simp add: load_range_def item_def chunk_fits_def)
qed

lemma store_item:
  assumes "item_ok isz osz c g" and "a < chunk_size c" and "length bs = unat osz"
  shows "store_range (chunk_data g) (a * osz) bs =
    Some (take (unat a * unat osz) (chunk_data g) @ bs @
          drop (unat a * unat osz + unat osz) (chunk_data g))"
proof -
  have "unat a * unat osz + unat osz \<le> unat (chunk_size c) * unat osz" by (rule index_end(1)[OF assms(2)])
  moreover have "unat (a * osz) = unat a * unat osz"
    using assms by (auto simp: item_ok_def chunk_fits_def intro: unat_index)
  ultimately show ?thesis using assms
    by (simp add: store_range_def item_ok_def filled_def)
qed

lemma length_fetch [simp]: "length (fetch_bytes hw t p n) = unat n"
  by (simp add: fetch_bytes_def)

lemma new_output_ok:
  assumes "chunk_fits isz osz c"
  shows "item_ok isz osz c (new_output junk c osz)"
proof -
  have "unat (chunk_size c * osz) = unat (chunk_size c) * unat osz"
    using assms by (auto simp: chunk_fits_def intro: unat_index)
  then show ?thesis using assms by (simp add: item_ok_def new_output_def filled_def)
qed


lemma item_ok_size: "item_ok isz osz c g \<Longrightarrow> chunk_size g = chunk_size c"
  by (simp add: item_ok_def)

lemma item_ok_update:
  "item_ok isz osz c g \<Longrightarrow> length d = length (chunk_data g) \<Longrightarrow> item_ok isz osz c (g\<lparr> chunk_data := d \<rparr>)"
  by (simp add: item_ok_def filled_def)

lemma safeq_pop_Some: "safeq_pop q = (Some x, q') \<Longrightarrow> queue_of q = x # queue_of q'"
  by (cases q rule: safeq_pop.cases) auto

lemma safeq_pop_None: "safeq_pop q = (None, q') \<Longrightarrow> queue_of q = [] \<and> q' = q"
  by (cases q rule: safeq_pop.cases) auto

lemma safeq_push_queue [simp]: "queue_of (safeq_push x q) = queue_of q @ [x]"
  by (cases q) simp

lemma store_item_length:
  assumes "item_ok isz osz c g" and "a < chunk_size c" and "length bs = unat osz"
  shows "length (take (unat a * unat osz) (chunk_data g) @ bs @
          drop (unat a * unat osz + unat osz) (chunk_data g)) = length (chunk_data g)"
proof -
  have "unat a * unat osz + unat osz \<le> unat (chunk_size c) * unat osz" by (rule index_end(1)[OF assms(2)])
  then show ?thesis using assms by (simp add: item_ok_def filled_def)
qed

definition queues_ok :: "u32 \<Rightarrow> u32 \<Rightarrow> chunk safeq \<Rightarrow> chunk safeq \<Rightarrow> bool" where
  "queues_ok isz osz inq outq \<longleftrightarrow> (\<forall>c \<in> set (queue_of inq). chunk_fits isz osz c) \<and>
     (\<forall>c \<in> set (queue_of outq). filled osz c)"

lemma work_step_ok:
  assumes "block_ok isz osz b" and "queues_ok isz osz inq outq"
  shows "\<exists>b' inq' outq'. work_step hw junk (b, inq, outq) = Some (b', inq', outq') \<and>
    block_ok isz osz b' \<and> queues_ok isz osz inq' outq'"
proof -
  obtain p q where pq: "input_port b = Some (p, isz)" "output_port b = Some (q, osz)"
    using assms(1) by (auto simp: block_ok_def ports_def)
  have pos: "position_ok isz osz (position b)" using assms(1) by (simp add: block_ok_def)
  have keep: "block_ok isz osz b'" if "position_ok isz osz (position b')"
    "input_port b' = input_port b" "output_port b' = output_port b" for b'
    using that pq by (simp add: block_ok_def ports_def)
  note Q = assms(2)
  show ?thesis
  proof (cases "position b")
    case Testing
    then show ?thesis using Q keep by (auto simp: work_step.simps)
  next
    case Marking
    then show ?thesis using Q keep by (auto simp: work_step.simps)
  next
    case Taking
    show ?thesis
    proof (cases "safeq_pop inq")
      case (Pair r inq')
      show ?thesis
      proof (cases r)
        case None
        then show ?thesis using Taking Pair Q keep safeq_pop_None[of inq inq']
          by (auto simp: work_step.simps)
      next
        case (Some c)
        then have i: "queue_of inq = c # queue_of inq'" using Pair safeq_pop_Some by simp
        then have "chunk_fits isz osz c" "queues_ok isz osz inq' outq"
          using Q by (auto simp: queues_ok_def)
        then show ?thesis using Taking Pair Some pq keep new_output_ok
          by (simp add: work_step.simps)
      qed
    qed
  next
    case (Sending c g a)
    then have c: "item_ok isz osz c g" "a \<le> chunk_size c" using pos by simp_all
    show ?thesis
    proof (cases "a < chunk_size c")
      case True
      then show ?thesis using Sending c Q keep pq load_item[of isz osz c a]
        by (auto simp: work_step.simps send_item_def item_ok_def)
    next
      case False
      then show ?thesis using Sending c Q keep
        by (auto simp: work_step.simps send_item_def item_ok_def)
    qed
  next
    case (Starting c g a)
    then show ?thesis using pos Q keep by (auto simp: work_step.simps block_start_def)
  next
    case (Polling c g a)
    then show ?thesis using pos Q keep by (auto simp: work_step.simps poll_done_def)
  next
    case (Fetching c g a)
    then have c: "item_ok isz osz c g" "a < chunk_size c" using pos by simp_all
    note st = store_item[OF c length_fetch] and len = store_item_length[OF c length_fetch]
    show ?thesis
      using Fetching Q keep pq c(2) index_end(3)[OF c(2)] item_ok_update[OF c(1) len]
      by (simp add: work_step.simps fetch_item_def st)
  next
    case (Pushing g)
    then show ?thesis using pos Q keep by (auto simp: work_step.simps queues_ok_def)
  next
    case Ending
    then show ?thesis using Q keep by (auto simp: work_step.simps)
  qed
qed

lemma node_step_ok:
  assumes "node_ok isz osz n" and "event_ok isz osz (length (blocks n)) e"
  shows "\<exists>n'. node_step hw e n = Some n' \<and> node_ok isz osz n' \<and> length (blocks n') = length (blocks n)"
proof -
  have upd: "block_ok isz osz b" if "b \<in> set ((blocks n)[i := b'])" "block_ok isz osz b'" for b b' i
    using that assms(1) set_update_subset_insert[of "blocks n" i b'] by (auto simp: node_ok_def)
  have blk: "block_ok isz osz (blocks n ! i)" if "i < length (blocks n)" for i
    using that assms(1) by (auto simp: node_ok_def)
  have q: "queues_ok isz osz (inputs n) (outputs n)" using assms(1) by (simp add: node_ok_def queues_ok_def)
  show ?thesis
  proof (cases e)
    case (Work i junk)
    then have i: "i < length (blocks n)" using assms(2) by simp
    obtain b' inq' outq' where w: "work_step (hw i) junk (blocks n ! i, inputs n, outputs n) = Some (b', inq', outq')"
      "block_ok isz osz b'" "queues_ok isz osz inq' outq'"
      using work_step_ok[OF blk[OF i] q] by blast
    then show ?thesis using Work i upd by (auto simp: node_ok_def queues_ok_def)
  next
    case (Set_state i s)
    then have i: "i < length (blocks n)" using assms(2) by simp
    have "block_ok isz osz ((blocks n ! i)\<lparr> state := s \<rparr>)"
      using blk[OF i] by (simp add: block_ok_def ports_def)
    then show ?thesis using Set_state i upd assms(1) by (auto simp: on_block_def node_ok_def)
  next
    case (Push_chunk c)
    then show ?thesis using assms by (auto simp: node_ok_def)
  next
    case Pop_chunk
    then show ?thesis using assms(1)
      by (auto simp: node_ok_def split: prod.split option.split
        dest!: safeq_pop_Some safeq_pop_None)
  qed (use assms(2) in simp_all)
qed

lemma node_run_ok:
  "node_ok isz osz n \<Longrightarrow> list_all (event_ok isz osz (length (blocks n))) es \<Longrightarrow>
   \<exists>n'. node_run hw es n = Some n' \<and> node_ok isz osz n'"
proof (induction es arbitrary: n)
  case (Cons e es)
  then obtain n' where n': "node_step hw e n = Some n'" "node_ok isz osz n'"
    "length (blocks n') = length (blocks n)"
    using node_step_ok[of isz osz n e hw] by auto
  with Cons show ?case by simp
qed simp


section \<open>Results\<close>

text \<open>
  What the hardware promises: once an item is in the input port and the block was started,
  a done bit means that the output port holds the item's answer.  \<open>responds\<close>: it is done
  after finitely many polls.
\<close>

definition polled :: "access list \<Rightarrow> u32 \<Rightarrow> u32 \<Rightarrow> byte list \<Rightarrow> nat \<Rightarrow> access list" where
  "polled t cra p x k = t @ [Store p x, Put (cra + 0x8) 1] @ replicate k (Get (cra + 0x18))"

definition computes ::
  "accel \<Rightarrow> (byte list \<Rightarrow> byte list) \<Rightarrow> u32 \<Rightarrow> u32 \<times> u32 \<Rightarrow> u32 \<times> u32 \<Rightarrow> bool" where
  "computes hw f cra = (\<lambda>(p, isz) (q, osz). \<forall>t x k. length x = unat isz \<longrightarrow>
     isDone hw (polled t cra p x k) cra \<longrightarrow> fetch_bytes hw (polled t cra p x (Suc k)) q osz = f x)"

definition responds :: "accel \<Rightarrow> u32 \<Rightarrow> u32 \<Rightarrow> bool" where
  "responds hw cra p \<longleftrightarrow> (\<forall>t x. \<exists>k. isDone hw (polled t cra p x k) cra)"

text \<open>The results a block still owes, and the state of its current item.\<close>

fun owed :: "(byte list \<Rightarrow> byte list) \<Rightarrow> u32 \<Rightarrow> position \<Rightarrow> chunk multiset" where
  "owed f isz (Sending c g a) = {#chunk_result f isz c#}"
| "owed f isz (Starting c g a) = {#chunk_result f isz c#}"
| "owed f isz (Polling c g a) = {#chunk_result f isz c#}"
| "owed f isz (Fetching c g a) = {#chunk_result f isz c#}"
| "owed f isz (Pushing g) = {#g#}"
| "owed f isz _ = {#}"

definition answered :: "(byte list \<Rightarrow> byte list) \<Rightarrow> u32 \<Rightarrow> u32 \<Rightarrow> chunk \<Rightarrow> chunk \<Rightarrow> u32 \<Rightarrow> bool" where
  "answered f isz osz c g a \<longleftrightarrow>
     take (unat a * unat osz) (chunk_data g) = answers f isz c (unat a)"

fun position_right ::
  "accel \<Rightarrow> (byte list \<Rightarrow> byte list) \<Rightarrow> u32 \<Rightarrow> u32 \<Rightarrow> u32 \<Rightarrow> u32 \<Rightarrow> access list \<Rightarrow> position \<Rightarrow> bool" where
  "position_right hw f cra p isz osz bs (Sending c g a) \<longleftrightarrow> answered f isz osz c g a"
| "position_right hw f cra p isz osz bs (Starting c g a) \<longleftrightarrow> answered f isz osz c g a \<and>
     (\<exists>t. bs = t @ [Store p (item isz c (unat a))])"
| "position_right hw f cra p isz osz bs (Polling c g a) \<longleftrightarrow> answered f isz osz c g a \<and>
     (\<exists>t k. bs = polled t cra p (item isz c (unat a)) k)"
| "position_right hw f cra p isz osz bs (Fetching c g a) \<longleftrightarrow> answered f isz osz c g a \<and>
     (\<exists>t k. bs = polled t cra p (item isz c (unat a)) (Suc k) \<and>
            isDone hw (polled t cra p (item isz c (unat a)) k) cra)"
| "position_right hw f cra p isz osz bs _ \<longleftrightarrow> True"

definition block_right :: "accel \<Rightarrow> (byte list \<Rightarrow> byte list) \<Rightarrow> u32 \<Rightarrow> u32 \<Rightarrow> block \<Rightarrow> bool" where
  "block_right hw f isz osz b \<longleftrightarrow> (\<forall>p q. input_port b = Some (p, isz) \<longrightarrow> output_port b = Some (q, osz) \<longrightarrow>
     computes hw f (cr_addr b) (p, isz) (q, osz) \<and>
     position_right hw f (cr_addr b) p isz osz (bus b) (position b))"

lemma polled_Suc: "polled t cra p x k @ [Get (cra + 0x18)] = polled t cra p x (Suc k)"
  by (simp add: polled_def replicate_append_same)

lemma polled_0: "t @ [Store p x] @ [Put (cra + 0x8) 1] = polled t cra p x 0"
  by (simp add: polled_def)

lemma item_length:
  assumes "chunk_fits isz osz c" and "a < chunk_size c"
  shows "length (item isz c (unat a)) = unat isz"
proof -
  have "unat a * unat isz + unat isz \<le> unat (chunk_size c) * unat isz" by (rule index_end(1)[OF assms(2)])
  also have "\<dots> \<le> length (chunk_data c)" using assms(1) by (simp add: chunk_fits_def)
  finally have "unat isz \<le> length (chunk_data c) - unat a * unat isz" by linarith
  then show ?thesis by (simp add: item_def)
qed

lemma answers_Suc: "answers f isz c (Suc n) = answers f isz c n @ f (item isz c n)"
  by (simp add: answers_def)

lemma answered_all:
  assumes "item_ok isz osz c g" and "answered f isz osz c g (chunk_size c)"
  shows "g = chunk_result f isz c"
proof -
  have "chunk_data g = answers f isz c (unat (chunk_size c))"
    using assms by (simp add: answered_def item_ok_def filled_def)
  then show ?thesis using assms(1)
    by (cases g) (simp add: chunk_result_def item_ok_def)
qed

lemma answered_next:
  assumes "item_ok isz osz c g" and "a < chunk_size c" and "answered f isz osz c g a"
    and "length bs = unat osz" and "bs = f (item isz c (unat a))"
  shows "answered f isz osz c (g\<lparr> chunk_data := take (unat a * unat osz) (chunk_data g) @ bs @
          drop (unat a * unat osz + unat osz) (chunk_data g) \<rparr>) (a + 1)"
proof -
  have "unat a * unat osz + unat osz \<le> unat (chunk_size c) * unat osz" by (rule index_end(1)[OF assms(2)])
  then have "unat a * unat osz \<le> unat (chunk_size c) * unat osz" by linarith
  then have "unat a * unat osz \<le> length (chunk_data g)"
    using assms(1) by (simp add: item_ok_def filled_def)
  then have "take (unat osz + unat a * unat osz) (take (unat a * unat osz) (chunk_data g) @ bs @
      drop (unat a * unat osz + unat osz) (chunk_data g)) = take (unat a * unat osz) (chunk_data g) @ bs"
    using assms(4) by (simp add: min_def)
  then have "take (unat (a + 1) * unat osz) (take (unat a * unat osz) (chunk_data g) @ bs @
      drop (unat a * unat osz + unat osz) (chunk_data g)) = answers f isz c (unat (a + 1))"
    unfolding index_end(2)[OF assms(2)] answers_Suc mult_Suc assms(3)[unfolded answered_def]
      assms(5) [symmetric] by (simp only:)
  then show ?thesis by (simp add: answered_def)
qed

definition results :: "(byte list \<Rightarrow> byte list) \<Rightarrow> u32 \<Rightarrow> chunk list \<Rightarrow> chunk multiset" where
  "results f isz cs = image_mset (chunk_result f isz) (mset cs)"

lemma results_simps [simp]:
  "results f isz [] = {#}"
  "results f isz (c # cs) = add_mset (chunk_result f isz c) (results f isz cs)"
  "results f isz (cs @ ds) = results f isz cs + results f isz ds"
  by (simp_all add: results_def)

definition owed_and_queued ::
  "(byte list \<Rightarrow> byte list) \<Rightarrow> u32 \<Rightarrow> served \<Rightarrow> chunk multiset" where
  "owed_and_queued f isz = (\<lambda>(b, inq, outq).
     owed f isz (position b) + results f isz (queue_of inq) + mset (queue_of outq))"

lemma work_step_right:
  assumes "block_ok isz osz b" and "queues_ok isz osz inq outq" and "block_right hw f isz osz b"
    and "work_step hw junk (b, inq, outq) = Some (b', inq', outq')"
  shows "block_right hw f isz osz b' \<and>
    owed_and_queued f isz (b', inq', outq') = owed_and_queued f isz (b, inq, outq)"
proof -
  obtain p q where pq: "input_port b = Some (p, isz)" "output_port b = Some (q, osz)"
    using assms(1) by (auto simp: block_ok_def ports_def)
  have pos: "position_ok isz osz (position b)" using assms(1) by (simp add: block_ok_def)
  have comp: "computes hw f (cr_addr b) (p, isz) (q, osz)"
    and right: "position_right hw f (cr_addr b) p isz osz (bus b) (position b)"
    using assms(3) pq by (simp_all add: block_right_def)
  have keep: "block_right hw f isz osz d" if
    "position_right hw f (cr_addr b) p isz osz (bus d) (position d)" "cr_addr d = cr_addr b"
    "input_port d = input_port b" "output_port d = output_port b" for d
    using that pq comp by (simp add: block_right_def)
  note step = assms(4)[unfolded work_step.simps]
  show ?thesis
  proof (cases "position b")
    case Testing
    then show ?thesis using step keep by (auto simp: owed_and_queued_def split: if_splits)
  next
    case Marking
    then show ?thesis using step keep by (auto simp: owed_and_queued_def)
  next
    case Taking
    show ?thesis
    proof (cases "safeq_pop inq")
      case (Pair r inq2)
      show ?thesis
      proof (cases r)
        case None
        then show ?thesis using Taking Pair step keep safeq_pop_None[of inq inq2]
          by (auto simp: owed_and_queued_def)
      next
        case (Some c)
        then have "queue_of inq = c # queue_of inq2" using Pair safeq_pop_Some by simp
        then show ?thesis using Taking Pair Some step pq keep
          by (auto simp: owed_and_queued_def answered_def answers_def)
      qed
    qed
  next
    case (Sending c g a)
    then have c: "item_ok isz osz c g" "a \<le> chunk_size c" using pos by simp_all
    then have fits: "chunk_fits isz osz c" by (simp add: item_ok_def)
    show ?thesis
    proof (cases "a < chunk_size c")
      case True
      then show ?thesis using Sending step keep pq right load_item[OF fits True]
        by (auto simp: owed_and_queued_def send_item_def)
    next
      case False
      with c(2) have "a = chunk_size c" by simp
      with c(1) right Sending have "g = chunk_result f isz c" by (simp add: answered_all)
      then show ?thesis using Sending False step keep
        by (auto simp: owed_and_queued_def send_item_def)
    qed
  next
    case (Starting c g a)
    then obtain t where t: "answered f isz osz c g a" "bus b = t @ [Store p (item isz c (unat a))]"
      using right by auto
    then have "bus b @ [Put (cr_addr b + 0x8) 1] = polled t (cr_addr b) p (item isz c (unat a)) 0"
      by (simp add: polled_def)
    with t(1) have "block_right hw f isz osz (block_start c g a b)"
      by (intro keep) (auto simp: block_start_def)
    then show ?thesis using Starting step by (auto simp: owed_and_queued_def block_start_def)
  next
    case (Polling c g a)
    then obtain t k where t: "answered f isz osz c g a"
      "bus b = polled t (cr_addr b) p (item isz c (unat a)) k" using right by auto
    then have "block_right hw f isz osz (poll_done hw c g a b)"
      by (intro keep) (auto simp: poll_done_def polled_Suc)
    then show ?thesis using Polling step by (auto simp: owed_and_queued_def poll_done_def)
  next
    case (Fetching c g a)
    then have c: "item_ok isz osz c g" "a < chunk_size c" using pos by simp_all
    then have fits: "chunk_fits isz osz c" by (simp add: item_ok_def)
    have ans: "answered f isz osz c g a" using right Fetching by simp
    have "fetch_bytes hw (bus b) q osz = f (item isz c (unat a))"
      using right Fetching comp item_length[OF fits c(2)] by (auto simp: computes_def)
    note nxt = answered_next[OF c ans length_fetch this]
    show ?thesis
      using Fetching step keep pq nxt by (auto simp: owed_and_queued_def fetch_item_def store_item[OF c])
  next
    case (Pushing g)
    then show ?thesis using step keep by (auto simp: owed_and_queued_def)
  next
    case Ending
    then show ?thesis using step keep by (auto simp: owed_and_queued_def)
  qed
qed


section \<open>The whole node\<close>

definition owed_by_blocks :: "(byte list \<Rightarrow> byte list) \<Rightarrow> u32 \<Rightarrow> block list \<Rightarrow> chunk multiset" where
  "owed_by_blocks f isz bs = sum_list (map (\<lambda>b. owed f isz (position b)) bs)"

lemma owed_by_blocks_update:
  "i < length bs \<Longrightarrow>
   owed_by_blocks f isz (bs[i := b]) + owed f isz (position (bs ! i)) =
   owed_by_blocks f isz bs + owed f isz (position b)"
proof (induction bs arbitrary: i)
  case (Cons x xs)
  show ?case
  proof (cases i)
    case (Suc j)
    then have "owed_by_blocks f isz (xs[j := b]) + owed f isz (position (xs ! j)) =
        owed_by_blocks f isz xs + owed f isz (position b)" using Cons by simp
    then show ?thesis using Suc by (simp add: owed_by_blocks_def)
  qed (simp add: owed_by_blocks_def)
qed simp

definition accounted :: "(byte list \<Rightarrow> byte list) \<Rightarrow> u32 \<Rightarrow> node \<Rightarrow> bool" where
  "accounted f isz n \<longleftrightarrow>
     results f isz (pushed n) =
       results f isz (queue_of (inputs n)) + owed_by_blocks f isz (blocks n) +
       mset (queue_of (outputs n)) + mset (popped n)"

definition blocks_right :: "(nat \<Rightarrow> accel) \<Rightarrow> (byte list \<Rightarrow> byte list) \<Rightarrow> u32 \<Rightarrow> u32 \<Rightarrow> block list \<Rightarrow> bool" where
  "blocks_right hw f isz osz bs \<longleftrightarrow> (\<forall>i < length bs. block_right (hw i) f isz osz (bs ! i))"

lemma blocks_right_update:
  "blocks_right hw f isz osz bs \<Longrightarrow> block_right (hw i) f isz osz b \<Longrightarrow>
   blocks_right hw f isz osz (bs[i := b])"
  unfolding blocks_right_def by (metis length_list_update nth_list_update_eq nth_list_update_neq)

lemma multiset_exchange:
  fixes p p' :: "'a multiset"
  assumes "p' + i' + q' = p + i + q" and "s' + p = s + p'"
  shows "i' + s' + q' = i + s + q"
proof -
  have "(i' + s' + q') + p = (s' + p) + (i' + q')" by (simp add: ac_simps)
  also have "\<dots> = s + (p' + i' + q')" unfolding assms(2) by (simp add: ac_simps)
  also have "\<dots> = (i + s + q) + p" unfolding assms(1) by (simp add: ac_simps)
  finally show ?thesis by simp
qed

lemma node_step_right:
  assumes "node_ok isz osz n" and "event_ok isz osz (length (blocks n)) e"
    and "blocks_right hw f isz osz (blocks n)" and "accounted f isz n" and "node_step hw e n = Some n'"
  shows "blocks_right hw f isz osz (blocks n') \<and> accounted f isz n'"
proof (cases e)
  case (Work i junk)
  then have i: "i < length (blocks n)" using assms(2) by simp
  then obtain b' inq' outq' where w: "work_step (hw i) junk (blocks n ! i, inputs n, outputs n) = Some (b', inq', outq')"
    and n': "n' = n\<lparr> blocks := (blocks n)[i := b'], inputs := inq', outputs := outq' \<rparr>"
    using assms(5) Work by (auto split: option.splits)
  have "block_ok isz osz (blocks n ! i)" "queues_ok isz osz (inputs n) (outputs n)"
    using assms(1) i by (auto simp: node_ok_def queues_ok_def)
  moreover have "block_right (hw i) f isz osz (blocks n ! i)" using assms(3) i by (simp add: blocks_right_def)
  ultimately have r: "block_right (hw i) f isz osz b'"
    and q: "owed_and_queued f isz (b', inq', outq') =
      owed_and_queued f isz (blocks n ! i, inputs n, outputs n)"
    using work_step_right[OF _ _ _ w] by auto
  have "results f isz (queue_of inq') + owed_by_blocks f isz ((blocks n)[i := b']) + mset (queue_of outq') =
      results f isz (queue_of (inputs n)) + owed_by_blocks f isz (blocks n) + mset (queue_of (outputs n))"
    using multiset_exchange[OF q[unfolded owed_and_queued_def split_conv] owed_by_blocks_update[OF i]] .
  then show ?thesis using r assms(3,4) blocks_right_update n' by (simp add: accounted_def)
next
  case (Set_state i s)
  then have i: "i < length (blocks n)" using assms(2) by simp
  have "block_right (hw i) f isz osz ((blocks n ! i)\<lparr> state := s \<rparr>)"
    using assms(3) i by (simp add: blocks_right_def block_right_def)
  then show ?thesis
    using Set_state i assms(3,4,5) blocks_right_update owed_by_blocks_update[OF i, of f isz "(blocks n ! i)\<lparr> state := s \<rparr>"]
    by (auto simp: on_block_def accounted_def)
next
  case (Push_chunk c)
  then show ?thesis using assms by (auto simp: accounted_def)
next
  case Pop_chunk
  then show ?thesis using assms(3,4,5)
    by (auto simp: accounted_def split: prod.splits option.splits
      dest!: safeq_pop_Some safeq_pop_None)
qed (use assms(2) in simp_all)

lemma node_run_right:
  "node_ok isz osz n \<Longrightarrow> list_all (event_ok isz osz (length (blocks n))) es \<Longrightarrow>
   blocks_right hw f isz osz (blocks n) \<Longrightarrow> accounted f isz n \<Longrightarrow> node_run hw es n = Some n' \<Longrightarrow>
   accounted f isz n'"
proof (induction es arbitrary: n)
  case (Cons e es)
  then obtain m where m: "node_step hw e n = Some m" "node_ok isz osz m"
    "length (blocks m) = length (blocks n)"
    using node_step_ok[of isz osz n e hw] by auto
  with node_step_right[OF Cons.prems(1) _ Cons.prems(3,4) m(1)] Cons show ?case by simp
qed simp


section \<open>A block drains its queue\<close>

fun work_run :: "accel \<Rightarrow> (nat \<Rightarrow> byte) \<Rightarrow> nat \<Rightarrow> served \<Rightarrow> served option" where
  "work_run hw junk 0 s = Some s"
| "work_run hw junk (Suc k) s =
     (case work_step hw junk s of None \<Rightarrow> None | Some s' \<Rightarrow> work_run hw junk k s')"

definition leads :: "accel \<Rightarrow> (nat \<Rightarrow> byte) \<Rightarrow> served \<Rightarrow> served \<Rightarrow> bool" where
  "leads hw junk s s' \<longleftrightarrow> (\<exists>k. work_run hw junk k s = Some s')"

lemma work_run_add:
  "work_run hw junk (j + k) s =
   (case work_run hw junk j s of None \<Rightarrow> None | Some s' \<Rightarrow> work_run hw junk k s')"
  by (induction j arbitrary: s) (auto split: option.split)

lemma leads_refl [simp]: "leads hw junk s s"
  unfolding leads_def by (rule exI[of _ 0]) simp

lemma leads_trans: "leads hw junk s s' \<Longrightarrow> leads hw junk s' s'' \<Longrightarrow> leads hw junk s s''"
  unfolding leads_def by (elim exE) (rule_tac x = "k + ka" in exI, simp add: work_run_add)

lemma leads_step: "work_step hw junk s = Some s' \<Longrightarrow> leads hw junk s' s'' \<Longrightarrow> leads hw junk s s''"
  unfolding leads_def by (elim exE) (rule_tac x = "Suc k" in exI, simp)

lemma work_step_frame:
  assumes "work_step hw junk (b, inq, outq) = Some (b', inq', outq')"
  shows "cr_addr b' = cr_addr b \<and> input_port b' = input_port b \<and> output_port b' = output_port b"
  using assms
  by (cases "position b")
    (auto simp: work_step.simps send_item_def block_start_def poll_done_def fetch_item_def
      split: if_splits option.splits prod.splits)

text \<open>What every step keeps, and so every run.\<close>

definition serving ::
  "accel \<Rightarrow> (byte list \<Rightarrow> byte list) \<Rightarrow> u32 \<Rightarrow> u32 \<Rightarrow> served \<Rightarrow> bool" where
  "serving hw f isz osz = (\<lambda>(b, inq, outq). block_ok isz osz b \<and> queues_ok isz osz inq outq \<and>
     block_right hw f isz osz b \<and> (\<forall>p. input_port b = Some (p, isz) \<longrightarrow> responds hw (cr_addr b) p))"

lemma serving_step:
  assumes "serving hw f isz osz s"
  obtains s' where "work_step hw junk s = Some s'" and "serving hw f isz osz s'"
    and "owed_and_queued f isz s' = owed_and_queued f isz s"
proof -
  obtain b inq outq where s: "s = (b, inq, outq)" by (cases s)
  then obtain b' inq' outq' where st: "work_step hw junk (b, inq, outq) = Some (b', inq', outq')"
    and ok: "block_ok isz osz b'" "queues_ok isz osz inq' outq'"
    using assms work_step_ok[of isz osz b inq outq hw junk] unfolding serving_def by blast
  moreover have "block_right hw f isz osz b' \<and>
      owed_and_queued f isz (b', inq', outq') = owed_and_queued f isz (b, inq, outq)"
    using assms unfolding s serving_def split_conv by (elim conjE) (rule work_step_right[OF _ _ _ st])
  ultimately show ?thesis
    using that[of "(b', inq', outq')"] assms s work_step_frame[OF st] by (simp add: serving_def)
qed

lemma serving_run:
  "work_run hw junk k s = Some s' \<Longrightarrow> serving hw f isz osz s \<Longrightarrow>
   serving hw f isz osz s' \<and> owed_and_queued f isz s' = owed_and_queued f isz s"
proof (induction k arbitrary: s)
  case (Suc k)
  obtain s2 where "work_step hw junk s = Some s2" "serving hw f isz osz s2"
    "owed_and_queued f isz s2 = owed_and_queued f isz s"
    using serving_step[OF Suc.prems(2), where junk = junk] by metis
  with Suc show ?case by simp
qed simp

lemma serving_leads:
  "leads hw junk s s' \<Longrightarrow> serving hw f isz osz s \<Longrightarrow>
   serving hw f isz osz s' \<and> owed_and_queued f isz s' = owed_and_queued f isz s"
  unfolding leads_def using serving_run by blast

lemma poll_leads:
  assumes "isDone hw (polled t (cr_addr b) p x (j + m)) (cr_addr b)"
    and "position b = Polling c g a" and "bus b = polled t (cr_addr b) p x j"
  shows "\<exists>b'. leads hw junk (b, inq, outq) (b', inq, outq) \<and> position b' = Fetching c g a"
  using assms
proof (induction m arbitrary: j b)
  case 0
  then have "work_step hw junk (b, inq, outq) = Some (poll_done hw c g a b, inq, outq)"
    and "position (poll_done hw c g a b) = Fetching c g a"
    by (simp_all add: work_step.simps poll_done_def)
  then show ?case using leads_step leads_refl by metis
next
  case (Suc m)
  let ?b = "poll_done hw c g a b"
  have st: "work_step hw junk (b, inq, outq) = Some (?b, inq, outq)"
    using Suc.prems by (simp add: work_step.simps)
  show ?case
  proof (cases "isDone hw (bus b) (cr_addr b)")
    case True
    then have "position ?b = Fetching c g a" by (simp add: poll_done_def)
    then show ?thesis using st leads_step leads_refl by metis
  next
    case False
    then have "position ?b = Polling c g a" "bus ?b = polled t (cr_addr ?b) p x (Suc j)"
      "cr_addr ?b = cr_addr b"
      using Suc.prems by (simp_all add: poll_done_def polled_Suc)
    moreover have "isDone hw (polled t (cr_addr ?b) p x (Suc j + m)) (cr_addr ?b)"
      using Suc.prems(1) by (simp add: poll_done_def)
    ultimately show ?thesis using Suc.IH leads_step[OF st] by blast
  qed
qed

text \<open>From the start of an item to its last, then to the finished chunk.\<close>

lemma item_leads:
  assumes "position b = Sending c g a" and "a < chunk_size c" and "serving hw f isz osz (b, inq, outq)"
  shows "\<exists>b' g'. leads hw junk (b, inq, outq) (b', inq, outq) \<and> position b' = Sending c g' (a + 1)"
proof -
  obtain p q where pq: "input_port b = Some (p, isz)" "output_port b = Some (q, osz)"
    using assms(3) by (auto simp: serving_def block_ok_def ports_def)
  have "item_ok isz osz c g" using assms(1,3) by (simp add: serving_def block_ok_def)
  then have fits: "chunk_fits isz osz c" by (simp add: item_ok_def)
  let ?x = "item isz c (unat a)"
  define b1 where "b1 = b\<lparr> bus := bus b @ [Store p ?x], position := Starting c g a \<rparr>"
  define b2 where "b2 = block_start c g a b1"
  have s1: "work_step hw junk (b, inq, outq) = Some (b1, inq, outq)"
    using assms(1,2) pq(1) load_item[OF fits assms(2)]
    by (simp add: work_step.simps send_item_def b1_def)
  have s2: "work_step hw junk (b1, inq, outq) = Some (b2, inq, outq)"
    by (simp add: work_step.simps b2_def b1_def)
  have b2: "position b2 = Polling c g a" "bus b2 = polled (bus b) (cr_addr b2) p ?x 0"
    "cr_addr b2 = cr_addr b" by (simp_all add: b2_def b1_def block_start_def polled_def)
  have "responds hw (cr_addr b) p" using assms(3) pq(1) by (simp add: serving_def)
  then obtain k where "isDone hw (polled (bus b) (cr_addr b2) p ?x (0 + k)) (cr_addr b2)"
    by (auto simp: responds_def b2(3))
  from poll_leads[OF this b2(1,2)] obtain b3 where
    b3: "leads hw junk (b2, inq, outq) (b3, inq, outq)" "position b3 = Fetching c g a" by blast
  have to3: "leads hw junk (b, inq, outq) (b3, inq, outq)"
    by (rule leads_step[OF s1 leads_step[OF s2 b3(1)]])
  obtain s4 where s4: "work_step hw junk (b3, inq, outq) = Some s4"
    using serving_step serving_leads[OF to3 assms(3)] by metis
  then obtain b4 where b4: "fetch_item hw c g a b3 = Some b4" "s4 = (b4, inq, outq)"
    using b3(2) by (auto simp: work_step.simps)
  then obtain g' where "position b4 = Sending c g' (a + 1)"
    by (auto simp: fetch_item_def split: option.splits prod.splits)
  moreover have "leads hw junk (b, inq, outq) (b4, inq, outq)"
    using leads_trans[OF to3 leads_step[OF s4 leads_refl]] b4(2) by simp
  ultimately show ?thesis by blast
qed

lemma chunk_leads:
  assumes "position b = Sending c g a" and "serving hw f isz osz (b, inq, outq)"
  shows "\<exists>b' g'. leads hw junk (b, inq, outq) (b', inq, outq) \<and> position b' = Pushing g'"
  using assms
proof (induction "unat (chunk_size c) - unat a" arbitrary: b g a)
  case 0
  then have "\<not> a < chunk_size c" by (simp add: word_less_nat_alt)
  then have "work_step hw junk (b, inq, outq) = Some (b\<lparr> position := Pushing g \<rparr>, inq, outq)"
    using 0 by (simp add: work_step.simps send_item_def)
  then show ?case using leads_step[OF _ leads_refl] by force
next
  case (Suc n)
  then have a: "a < chunk_size c" by (simp add: word_less_nat_alt)
  obtain b' g' where b': "leads hw junk (b, inq, outq) (b', inq, outq)" "position b' = Sending c g' (a + 1)"
    using item_leads[OF Suc.prems(1) a Suc.prems(2)] by blast
  have "n = unat (chunk_size c) - unat (a + 1)" using Suc.hyps(2) index_end(2)[OF a] by simp
  from Suc.hyps(1)[OF this b'(2)] serving_leads[OF b'(1) Suc.prems(2)] leads_trans[OF b'(1)]
  show ?case by blast
qed

text \<open>One chunk: from the pop to the test of the state, the result is pushed.\<close>

lemma served_chunk:
  assumes "position b = Taking" and "serving hw f isz osz (b, inq, outq)" and "queue_of inq = c # cs"
  shows "\<exists>b'. leads hw junk (b, inq, outq) (b', SafeQ cs, safeq_push (chunk_result f isz c) outq) \<and>
    position b' = Testing \<and> state b' = Done"
proof -
  let ?o = "safeq_push (chunk_result f isz c) outq"
  have inq: "safeq_pop inq = (Some c, SafeQ cs)" using assms(3) by (cases inq) simp
  obtain q where q: "output_port b = Some (q, osz)"
    using assms(2) by (auto simp: serving_def block_ok_def ports_def)
  define b1 where "b1 = b\<lparr> position := Sending c (new_output junk c osz) 0 \<rparr>"
  have s1: "work_step hw junk (b, inq, outq) = Some (b1, SafeQ cs, outq)"
    using assms(1) inq q by (simp add: work_step.simps b1_def)
  have l1: "leads hw junk (b, inq, outq) (b1, SafeQ cs, outq)" by (rule leads_step[OF s1 leads_refl])
  have p1: "position b1 = Sending c (new_output junk c osz) 0" by (simp add: b1_def)
  obtain b2 g where b2: "leads hw junk (b1, SafeQ cs, outq) (b2, SafeQ cs, outq)" "position b2 = Pushing g"
    using chunk_leads[OF p1] serving_leads[OF l1 assms(2)] by blast
  have l2: "leads hw junk (b, inq, outq) (b2, SafeQ cs, outq)" by (rule leads_trans[OF l1 b2(1)])
  have "owed_and_queued f isz (b2, SafeQ cs, outq) = owed_and_queued f isz (b, inq, outq)"
    using serving_leads[OF l2 assms(2)] by simp
  then have g: "g = chunk_result f isz c" using assms(1,3) b2(2) by (simp add: owed_and_queued_def)
  define b3 where "b3 = b2\<lparr> position := Ending \<rparr>"
  define b4 where "b4 = b3\<lparr> state := Done, position := Testing \<rparr>"
  have s3: "work_step hw junk (b2, SafeQ cs, outq) = Some (b3, SafeQ cs, ?o)"
    using b2(2) g by (simp add: work_step.simps b3_def)
  have s4: "work_step hw junk (b3, SafeQ cs, ?o) = Some (b4, SafeQ cs, ?o)"
    by (simp add: work_step.simps b3_def b4_def)
  have "leads hw junk (b, inq, outq) (b4, SafeQ cs, ?o)"
    by (rule leads_trans[OF l2 leads_step[OF s3 leads_step[OF s4 leads_refl]]])
  moreover have "position b4 = Testing \<and> state b4 = Done" by (simp add: b4_def)
  ultimately show ?thesis by blast
qed

lemma resumes:
  assumes "position b = Testing" and "state b \<noteq> Stopped"
  shows "\<exists>b'. leads hw junk (b, inq, outq) (b', inq, outq) \<and> position b' = Taking"
proof -
  have "work_step hw junk (b, inq, outq) = Some (b\<lparr> position := Marking \<rparr>, inq, outq)"
    "work_step hw junk (b\<lparr> position := Marking \<rparr>, inq, outq) =
      Some (b\<lparr> position := Taking, state := Busy \<rparr>, inq, outq)"
    using assms by (simp_all add: work_step.simps)
  then show ?thesis using leads_step[OF _ leads_step[OF _ leads_refl]] by force
qed

lemma drains:
  assumes "position b = Taking" and "serving hw f isz osz (b, inq, outq)"
  shows "\<exists>b'. leads hw junk (b, inq, outq)
      (b', SafeQ [], fold safeq_push (map (chunk_result f isz) (queue_of inq)) outq) \<and>
    position b' = Testing \<and> state b' = Done"
  using assms
proof (induction "queue_of inq" arbitrary: b inq outq)
  case Nil
  then have "inq = SafeQ []" by (cases inq) simp
  then have "work_step hw junk (b, inq, outq) = Some (b\<lparr> position := Ending \<rparr>, inq, outq)"
    "work_step hw junk (b\<lparr> position := Ending \<rparr>, inq, outq) =
      Some (b\<lparr> state := Done, position := Testing \<rparr>, inq, outq)"
    using Nil by (simp_all add: work_step.simps)
  note l = leads_step[OF this(1) leads_step[OF this(2) leads_refl]]
  then show ?case using Nil(1) \<open>inq = SafeQ []\<close> by (intro exI[of _ "b\<lparr> state := Done, position := Testing \<rparr>"]) simp
next
  case (Cons c cs)
  let ?o = "safeq_push (chunk_result f isz c) outq"
  obtain b1 where b1: "leads hw junk (b, inq, outq) (b1, SafeQ cs, ?o)" "position b1 = Testing" "state b1 = Done"
    using served_chunk[OF Cons.prems Cons.hyps(2) [symmetric]] by blast
  obtain b2 where b2: "leads hw junk (b1, SafeQ cs, ?o) (b2, SafeQ cs, ?o)" "position b2 = Taking"
    using resumes[of b1] b1 by force
  note l2 = leads_trans[OF b1(1) b2(1)]
  have "cs = queue_of (SafeQ cs)" by simp
  from Cons.hyps(1)[OF this b2(2)] serving_leads[OF l2 Cons.prems(2)] leads_trans[OF l2]
  show ?case by (simp add: Cons.hyps(2) [symmetric]) blast
qed


section \<open>Defects\<close>

text \<open>
  The output buffer is allocated with a 32-bit product: a chunk whose output has a multiple
  of 4 GiB gets an empty one, and the first answer is written outside of it.
\<close>

lemma wrapped_allocation_crashes:
  assumes "chunk_size c * osz = 0" and "0 < osz" and "output_port b = Some (q, osz)"
    and "position b = Fetching c (new_output junk c osz) 0"
  shows "work_step hw junk (b, inq, outq) = None"
proof -
  have "0 < unat osz" using assms(2) by (simp add: word_less_nat_alt)
  then show ?thesis using assms
    by (simp add: work_step.simps fetch_item_def store_range_def new_output_def)
qed

text \<open>The constructor starts the thread before the ports can be set.\<close>

lemma unset_port_crashes:
  "node_run hw [Push_chunk c, Work 0 junk, Work 0 junk, Work 0 junk] (new_node [new_block cra]) = None"
  by (simp add: new_node_def new_block_def work_step.simps)

section \<open>Properties\<close>

text \<open>
  C10: Typing is preserved and no behaviour is undefined.  Whatever the interleaving of the
  blocks' threads and the client, and whatever the hardware answers: if every block has its
  ports set and every pushed chunk has the bytes its size promises, without 32-bit wrap-around
  of its input and output sizes, no access leaves its buffer, and every chunk in the output
  queue has the length its size promises.
\<close>
theorem node_typed:
  assumes "node_ok isz osz n" and "list_all (event_ok isz osz (length (blocks n))) es"
  shows "\<exists>n'. node_run hw es n = Some n' \<and> node_ok isz osz n'"
  using assms by (rule node_run_ok)

text \<open>A block at rest, whose hardware computes \<open>f\<close>.\<close>

definition idle :: "accel \<Rightarrow> (byte list \<Rightarrow> byte list) \<Rightarrow> u32 \<Rightarrow> u32 \<Rightarrow> block \<Rightarrow> bool" where
  "idle hw f isz osz b \<longleftrightarrow> position b = Testing \<and>
     (\<exists>p q. input_port b = Some (p, isz) \<and> output_port b = Some (q, osz) \<and>
        computes hw f (cr_addr b) (p, isz) (q, osz))"

lemma idle_ok: "idle hw f isz osz b \<Longrightarrow> block_ok isz osz b \<and> block_right hw f isz osz b"
  by (auto simp: idle_def block_ok_def ports_def block_right_def)

lemma owed_idle:
  "\<forall>b \<in> set bs. position b = Testing \<Longrightarrow> owed_by_blocks f isz bs = {#}"
  by (induction bs) (simp_all add: owed_by_blocks_def)

text \<open>
  C7: The results are right and none is lost or doubled.  For any number of blocks that share
  the queues, in every interleaving with the client: the results of the chunks pushed so far
  (item for item the answer of the hardware, under the chunk's id) are those still to be
  computed from the input queue, those the blocks work on, those in the output queue, and those
  the client has popped.
\<close>
theorem node_results:
  assumes "\<forall>i < length bs. idle (hw i) f isz osz (bs ! i)"
    and "list_all (event_ok isz osz (length bs)) es"
  shows "\<exists>n. node_run hw es (new_node bs) = Some n \<and>
    results f isz (pushed n) =
      results f isz (queue_of (inputs n)) + owed_by_blocks f isz (blocks n) +
      mset (queue_of (outputs n)) + mset (popped n)"
proof -
  let ?n = "new_node bs"
  have ok: "node_ok isz osz ?n"
    using assms(1) idle_ok by (fastforce simp: node_ok_def new_node_def in_set_conv_nth)
  have right: "blocks_right hw f isz osz (blocks ?n)"
    using assms(1) idle_ok by (simp add: blocks_right_def new_node_def)
  have "\<forall>b \<in> set bs. position b = Testing"
    using assms(1) by (auto simp: idle_def in_set_conv_nth)
  then have acc: "accounted f isz ?n" by (simp add: accounted_def new_node_def owed_idle)
  have es: "list_all (event_ok isz osz (length (blocks ?n))) es"
    using assms(2) by (simp add: new_node_def)
  from node_run_ok[OF ok es] obtain n where n: "node_run hw es ?n = Some n" by blast
  with node_run_right[OF ok es right acc] show ?thesis by (auto simp: accounted_def)
qed

lemma block_serves_all:
  assumes "position b = Marking" and "input_port b = Some (p, isz)" and "output_port b = Some (q, osz)"
    and "computes hw f (cr_addr b) (p, isz) (q, osz)" and "responds hw (cr_addr b) p"
    and "\<forall>c \<in> set cs. chunk_fits isz osz c"
  shows "\<exists>k b'. work_run hw junk k (b, SafeQ cs, SafeQ []) =
      Some (b', SafeQ [], SafeQ (map (chunk_result f isz) cs)) \<and>
    position b' = Testing \<and> state b' = Done"
proof -
  let ?b = "b\<lparr> state := Busy, position := Taking \<rparr>"
  have st: "work_step hw junk (b, SafeQ cs, SafeQ []) = Some (?b, SafeQ cs, SafeQ [])"
    using assms(1) by (simp add: work_step.simps)
  have "serving hw f isz osz (?b, SafeQ cs, SafeQ [])"
    using assms(2-6) by (auto simp: serving_def block_ok_def ports_def queues_ok_def block_right_def)
  from drains[OF _ this, of junk] obtain b' where
    "leads hw junk (?b, SafeQ cs, SafeQ [])
       (b', SafeQ [], fold safeq_push (map (chunk_result f isz) cs) (SafeQ []))"
    and b': "position b' = Testing" "state b' = Done" by auto
  moreover have "fold safeq_push xs (SafeQ ys) = SafeQ (ys @ xs)" for xs ys :: "chunk list"
    by (induction xs arbitrary: ys) simp_all
  ultimately have "leads hw junk (b, SafeQ cs, SafeQ []) (b', SafeQ [], SafeQ (map (chunk_result f isz) cs))"
    using leads_step[OF st] by simp
  then show ?thesis using b' by (auto simp: leads_def)
qed


section \<open>Examples\<close>

text \<open>A block that adds one to a byte and is done at once.\<close>

fun stored :: "access list \<Rightarrow> byte \<Rightarrow> byte" where
  "stored [] v = v"
| "stored (Store p x # t) v = stored t (hd x)"
| "stored (_ # t) v = stored t v"

definition adder :: accel where
  "adder t a = (if a = 0x18 then 2 else stored t 0 + 1)"

definition add_one :: "byte list \<Rightarrow> byte list" where "add_one x = [hd x + 1]"

definition adder_block :: block where
  "adder_block = setOutputs 0x200 1 (setInputs 0x100 1 (new_block 0))"

definition adder_chunk :: chunk where
  "adder_chunk = \<lparr> chunk_id = 7, chunk_size = 2, chunk_data = [5, 9] \<rparr>"

lemma stored_polled: "stored (polled t cra p x k) v = hd x"
proof -
  have "stored (replicate k (Get c)) v = v" for k c v by (induction k) simp_all
  moreover have "stored (t @ u) v = stored u (stored t v)" for t u v
    by (induction t v rule: stored.induct) simp_all
  ultimately show ?thesis by (simp add: polled_def)
qed

lemma adder_computes: "computes adder add_one 0 (0x100, 1) (0x200, 1)"
  by (simp add: computes_def fetch_bytes_def adder_def stored_polled add_one_def)

lemma adder_responds: "responds adder 0 0x100"
  by (simp add: responds_def isDone_def adder_def)

lemma adder_fits: "chunk_fits 1 1 adder_chunk"
  by (simp add: chunk_fits_def adder_chunk_def)

lemma adder_idle: "idle adder add_one 1 1 adder_block"
  using adder_computes by (simp add: idle_def adder_block_def setInputs_def setOutputs_def new_block_def)

theorem node_typed_witness:
  "\<exists>n. node_run (\<lambda>_. adder) [Push_chunk adder_chunk, Work 0 (\<lambda>_. 0), Set_state 0 Stopped]
     (new_node [adder_block]) = Some n \<and> node_ok 1 1 n"
  by (rule node_typed)
    (use idle_ok[OF adder_idle] adder_fits in \<open>simp_all add: node_ok_def new_node_def\<close>)

theorem node_results_witness:
  "\<exists>n. node_run (\<lambda>_. adder) [Push_chunk adder_chunk, Work 0 (\<lambda>_. 0), Pop_chunk]
     (new_node [adder_block, adder_block]) = Some n \<and>
    results add_one 1 (pushed n) =
      results add_one 1 (queue_of (inputs n)) + owed_by_blocks add_one 1 (blocks n) +
      mset (queue_of (outputs n)) + mset (popped n)"
  by (rule node_results[of _ "\<lambda>_. adder" _ 1 1])
    (use adder_idle adder_fits in \<open>simp_all add: less_Suc_eq\<close>)


end
