(* ===== verification/Board.thy ===== *)
theory Board
  imports Block Hps_Map
begin

text \<open>
  The programs that run on the board: how the bridges to the FPGA are mapped
  (\<^verbatim>\<open>node/main.cpp\<close>, \<^verbatim>\<open>node/globals.hpp\<close>, \<^verbatim>\<open>test/main.cpp\<close>), and the program that drives eleven
  compute blocks (\<^verbatim>\<open>test/main.cpp\<close>): its thread that maps the bridges, creates the blocks and
  pushes the chunks, the one that collects the results, and those of the blocks, in every
  interleaving.  The clock and the printed throughput are left out.

  Two accesses of the program are not synchronised.  \<^verbatim>\<open>receiveQ->empty()\<close> takes no lock: its
  answer is arbitrary here while a block pushes.  \<^verbatim>\<open>Block::state\<close> is a plain variable of
  several threads: it is one word here, read and written at once.
\<close>

section \<open>The bridges\<close>

definition LWHPSFPGA_OFST :: u32 where "LWHPSFPGA_OFST = 0xff200000"
definition HPSFPGA_OFST :: u32 where "HPSFPGA_OFST = 0xC0000000"
definition LWHPSFPGA_END :: u32 where "LWHPSFPGA_END = 0xFF3FFFFF"
definition HPSFPGA_END :: u32 where "HPSFPGA_END = 0xFBFFFFFF"
definition LWH2F_RANGE :: u32 where "LWH2F_RANGE = LWHPSFPGA_END - LWHPSFPGA_OFST"
definition H2F_RANGE :: u32 where "H2F_RANGE = HPSFPGA_END - HPSFPGA_OFST"
definition SPAN :: u32 where "SPAN = 0x00200000"

text \<open>\<open>open\<close> of \<^verbatim>\<open>/dev/mem\<close>; \<open>mmap\<close> of a length at an offset; \<open>close\<close>.\<close>

datatype syscall = Open | Mmap u32 u32 | Close u32

definition MAP_FAILED :: u32 where "MAP_FAILED = - 1"

record bridges =
  fd :: u32
  lwh2f_virtual_base :: u32
  h2f_virtual_base :: u32

text \<open>
  The answers of the kernel are a parameter (\<open>os\<close>, from the calls before).  The node maps
  \<open>LWH2F_RANGE\<close> bytes of the lightweight bridge, the test program \<open>SPAN\<close>.  It returns
  nothing: the caller is not told of a failure.
\<close>

definition initHps2Fpga :: "u32 \<Rightarrow> (syscall list \<Rightarrow> syscall \<Rightarrow> u32) \<Rightarrow> bridges \<Rightarrow> bridges \<times> syscall list" where
  "initHps2Fpga span os b =
     (let b = b\<lparr> fd := os [] Open \<rparr> in
      if fd b <s 0 then (b, [Open])
      else let calls = [Open, Mmap span LWHPSFPGA_OFST];
               b = b\<lparr> lwh2f_virtual_base := os [Open] (Mmap span LWHPSFPGA_OFST),
                      h2f_virtual_base := os calls (Mmap H2F_RANGE HPSFPGA_OFST) \<rparr>;
               calls = calls @ [Mmap H2F_RANGE HPSFPGA_OFST] in
        if lwh2f_virtual_base b = MAP_FAILED \<or> h2f_virtual_base b = MAP_FAILED
        then (b, calls @ [Close (fd b)]) else (b, calls))"

definition no_bridges :: bridges where
  "no_bridges = \<lparr> fd = 0, lwh2f_virtual_base = 0, h2f_virtual_base = 0 \<rparr>"

text \<open>
  A mapping covers whole pages.  The lengths of the node, which are one byte short of the
  bridges, thereby still map all of them, and the lightweight one is the slave of \<^verbatim>\<open>hps.h\<close>.
\<close>

definition pages :: "u32 \<Rightarrow> nat" where "pages len = 4096 * ((unat len + 4095) div 4096)"

lemma bridge_ranges:
  "pages LWH2F_RANGE = rspan ALT_LWFPGASLVS" "pages SPAN = rspan ALT_LWFPGASLVS"
  "unat LWHPSFPGA_OFST = rofst ALT_LWFPGASLVS"
  "unat HPSFPGA_OFST + pages H2F_RANGE = unat HPSFPGA_END + 1"
  "unat LWH2F_RANGE + 1 = rspan ALT_LWFPGASLVS"
  by (simp_all add: pages_def LWH2F_RANGE_def SPAN_def H2F_RANGE_def LWHPSFPGA_OFST_def HPSFPGA_OFST_def
      LWHPSFPGA_END_def HPSFPGA_END_def ALT_LWFPGASLVS_def)

text \<open>The descriptor is closed exactly if it was opened and a mapping failed; no base is then right.\<close>

lemma init_outcome:
  assumes "initHps2Fpga span os no_bridges = (b, calls)"
  shows "Close (fd b) \<in> set calls \<longleftrightarrow>
      \<not> fd b <s 0 \<and> (lwh2f_virtual_base b = MAP_FAILED \<or> h2f_virtual_base b = MAP_FAILED)"
    and "fd b <s 0 \<Longrightarrow> calls = [Open] \<and> h2f_virtual_base b = 0"
  using assms by (auto simp: initHps2Fpga_def no_bridges_def Let_def split: if_splits)

text \<open>
  What \<open>main\<close> gets from it: the base the blocks are placed at, whatever it is, and the addresses
  that the kernel has mapped there, if any (\<open>window\<close>).
\<close>

type_synonym kernel = "syscall list \<Rightarrow> syscall \<Rightarrow> u32"

definition bridge_base :: "kernel \<Rightarrow> u32" where
  "bridge_base os = h2f_virtual_base (fst (initHps2Fpga SPAN os no_bridges))"

definition bridge_window :: "kernel \<Rightarrow> (nat \<times> nat) option" where
  "bridge_window os =
     (if Mmap H2F_RANGE HPSFPGA_OFST \<in> set (snd (initHps2Fpga SPAN os no_bridges)) \<and> bridge_base os \<noteq> MAP_FAILED
      then Some (unat (bridge_base os), pages H2F_RANGE) else None)"

lemma bridge_window_None:
  "bridge_window os = None \<longleftrightarrow> os [] Open <s 0 \<or>
     os [Open, Mmap SPAN LWHPSFPGA_OFST] (Mmap H2F_RANGE HPSFPGA_OFST) = MAP_FAILED"
  by (auto simp: bridge_window_def bridge_base_def initHps2Fpga_def no_bridges_def Let_def)

section \<open>The blocks\<close>

definition inputSize :: u32 where "inputSize = 64 * 64 * 2 * 4"
definition outputSize :: u32 where "outputSize = 64 * 64 * 4"
definition inSize :: nat where "inSize = 1000"
definition DSize :: u32 where "DSize = 4"

text \<open>A call of the main thread: the constructor of a block, or one of its methods.\<close>

datatype board_call = New_block u32 | Call node_event

fun call_step :: "(nat \<Rightarrow> accel) \<Rightarrow> board_call \<Rightarrow> node \<Rightarrow> node option" where
  "call_step hw (New_block cra) n = Some (n\<lparr> blocks := blocks n @ [new_block cra] \<rparr>)"
| "call_step hw (Call e) n = node_step hw e n"

definition cra_of :: "u32 \<Rightarrow> nat \<Rightarrow> u32" where "cra_of base i = base + 0x84140 - of_nat i * 0x20"
definition input_of :: "u32 \<Rightarrow> nat \<Rightarrow> u32" where "input_of base i = base + of_nat i * 0xc000"
definition output_of :: "u32 \<Rightarrow> nat \<Rightarrow> u32" where "output_of base i = base + of_nat i * 0xc000 + 0x8000"

definition init_block :: "u32 \<Rightarrow> nat \<Rightarrow> board_call list" where
  "init_block base i =
     [New_block (cra_of base i), Call (Set_inputs i (input_of base i) inputSize),
      Call (Set_outputs i (output_of base i) outputSize), Call (Set_state i Stopped)]"

definition initEveryting :: "u32 \<Rightarrow> board_call list" where
  "initEveryting base = concat (map (init_block base) [0..<11])"

section \<open>The threads of the program\<close>

text \<open>
  The collecting thread: not created yet; making a block ready at the start of round \<open>i\<close>;
  before \<open>empty\<close> and before \<open>pop\<close> with \<open>count2\<close> results of the round; stopping the blocks.
\<close>

datatype collector = Unborn | Readying nat | Checking nat nat | Popping nat nat | Stopping nat | Over

text \<open>The loop is left when \<open>count2\<close> is \<open>inSize\<close>.\<close>

definition next_result :: "nat \<Rightarrow> nat \<Rightarrow> collector" where
  "next_result i count2 =
     (if count2 = inSize then if Suc i < 10 then Readying (Suc i) else Stopping 0 else Checking i count2)"

text \<open>
  \<open>empty\<close> takes no lock.  While a block is in \<open>push\<close> it races with it, and its answer is
  arbitrary (\<open>seen\<close>).
\<close>

definition in_push :: "block \<Rightarrow> bool" where
  "in_push b \<longleftrightarrow> (case position b of Pushing g \<Rightarrow> True | _ \<Rightarrow> False)"

definition unlocked_empty :: "bool \<Rightarrow> node \<Rightarrow> bool" where
  "unlocked_empty seen n = (if list_ex in_push (blocks n) then seen else safeq_empty (outputs n))"

fun sendingT :: "(nat \<Rightarrow> accel) \<Rightarrow> bool \<Rightarrow> collector \<Rightarrow> node \<Rightarrow> (collector \<times> node) option" where
  "sendingT hw seen Unborn n = None"
| "sendingT hw seen (Readying i) n = map_option (Pair (Checking i 0)) (node_step hw (Set_state i Ready) n)"
| "sendingT hw seen (Checking i count2) n =
     Some (if unlocked_empty seen n then next_result i count2 else Popping i count2, n)"
| "sendingT hw seen (Popping i count2) n =
     map_option (Pair (next_result i (if fst (safeq_pop (outputs n)) = None then count2 else Suc count2)))
       (node_step hw Pop_chunk n)"
| "sendingT hw seen (Stopping i) n =
     map_option (Pair (if Suc i < 10 then Stopping (Suc i) else Over)) (node_step hw (Set_state i Stopped) n)"
| "sendingT hw seen Over n = None"

text \<open>The chunk pushed after \<open>k\<close> others; its data are what the heap holds (\<open>junk\<close>).\<close>

definition fresh_chunk :: "(nat \<Rightarrow> byte) \<Rightarrow> nat \<Rightarrow> chunk" where
  "fresh_chunk junk k = \<lparr> chunk_id = of_nat (k mod inSize), chunk_size = DSize,
     chunk_data = map junk [0..<unat (DSize * inputSize)] \<rparr>"

text \<open>
  The main thread has mapped the bridges (\<open>initHps2Fpga\<close>, whose failure it does not look at), has
  \<open>todo\<close> left of \<open>initEveryting\<close>, then creates the collector, then pushes ten rounds of \<open>inSize\<close>
  chunks (\<open>receivingThread\<close>).  An access of a block outside the mapped \<open>window\<close> faults: it has
  no step.
\<close>

record program =
  node :: node
  todo :: "board_call list"
  pushes :: nat
  collector :: collector
  window :: "(nat \<times> nat) option"

datatype program_event = Main "nat \<Rightarrow> byte" | Collect bool | Serve nat "nat \<Rightarrow> byte"

fun touched :: "access \<Rightarrow> nat \<times> nat" where
  "touched (Store p xs) = (unat p, length xs)"
| "touched (Fetch p n) = (unat p, n)"
| "touched (Put p x) = (unat p, 1)"
| "touched (Get p) = (unat p, 1)"

text \<open>The accesses of a block's thread in the step between two nodes.\<close>

definition new_accesses :: "nat \<Rightarrow> node \<Rightarrow> node \<Rightarrow> access list" where
  "new_accesses i n n' = drop (length (bus (blocks n ! i))) (bus (blocks n' ! i))"

definition accessible :: "(nat \<times> nat) option \<Rightarrow> access \<Rightarrow> bool" where
  "accessible win a \<longleftrightarrow> (case win of None \<Rightarrow> False | Some w \<Rightarrow> inside (touched a) w)"

fun program_step :: "(nat \<Rightarrow> accel) \<Rightarrow> program_event \<Rightarrow> program \<Rightarrow> program option" where
  "program_step hw (Main junk) s =
     (case todo s of
        c # cs \<Rightarrow> map_option (\<lambda>n. s\<lparr> node := n, todo := cs \<rparr>) (call_step hw c (node s))
      | [] \<Rightarrow>
          if collector s = Unborn then Some (s\<lparr> collector := Readying 0 \<rparr>)
          else if pushes s < 10 * inSize
          then map_option (\<lambda>n. s\<lparr> node := n, pushes := Suc (pushes s) \<rparr>)
                 (node_step hw (Push_chunk (fresh_chunk junk (pushes s))) (node s))
          else None)"
| "program_step hw (Collect seen) s =
     map_option (\<lambda>(c, n). s\<lparr> node := n, collector := c \<rparr>) (sendingT hw seen (collector s) (node s))"
| "program_step hw (Serve i junk) s =
     (case node_step hw (Work i junk) (node s) of
        None \<Rightarrow> None
      | Some n \<Rightarrow>
          if list_all (accessible (window s)) (new_accesses i (node s) n) then Some (s\<lparr> node := n \<rparr>) else None)"

definition main_program :: "kernel \<Rightarrow> program" where
  "main_program os = \<lparr> node = new_node [], todo = initEveryting (bridge_base os), pushes = 0,
     collector = Unborn, window = bridge_window os \<rparr>"

inductive program_reachable :: "(nat \<Rightarrow> accel) \<Rightarrow> kernel \<Rightarrow> program \<Rightarrow> bool" for hw os where
  start: "program_reachable hw os (main_program os)"
| step: "program_reachable hw os s \<Longrightarrow> program_step hw e s = Some s' \<Longrightarrow> program_reachable hw os s'"

section \<open>Setting up\<close>

text \<open>What the calls of the main thread do to addresses and ports, whatever the threads do meanwhile.\<close>

type_synonym wiring = "u32 \<times> (u32 \<times> u32) option \<times> (u32 \<times> u32) option"

definition wiring :: "block \<Rightarrow> wiring" where "wiring b = (cr_addr b, input_port b, output_port b)"

definition rewire :: "nat \<Rightarrow> (wiring \<Rightarrow> wiring) \<Rightarrow> wiring list \<Rightarrow> wiring list option" where
  "rewire i f ws = (if i < length ws then Some (ws[i := f (ws ! i)]) else None)"

fun wire_call :: "board_call \<Rightarrow> wiring list \<Rightarrow> wiring list option" where
  "wire_call (New_block cra) ws = Some (ws @ [(cra, None, None)])"
| "wire_call (Call (Set_inputs i p len)) ws = rewire i (\<lambda>(a, _, q). (a, Some (p, len), q)) ws"
| "wire_call (Call (Set_outputs i p len)) ws = rewire i (\<lambda>(a, q, _). (a, q, Some (p, len))) ws"
| "wire_call (Call (Set_state i st)) ws = rewire i id ws"
| "wire_call _ ws = None"

fun wire_calls :: "board_call list \<Rightarrow> wiring list \<Rightarrow> wiring list option" where
  "wire_calls [] ws = Some ws"
| "wire_calls (c # cs) ws = Option.bind (wire_call c ws) (wire_calls cs)"

lemma wire_calls_append: "wire_calls (cs @ ds) ws = Option.bind (wire_calls cs ws) (wire_calls ds)"
  by (induction cs arbitrary: ws) (auto split: Option.bind_split)

definition wired :: "u32 \<Rightarrow> nat \<Rightarrow> wiring" where
  "wired base i = (cra_of base i, Some (input_of base i, inputSize), Some (output_of base i, outputSize))"

lemma wire_init_block: "length ws = i \<Longrightarrow> wire_calls (init_block base i) ws = Some (ws @ [wired base i])"
  using list_update_append[of ws "[(cra_of base i, None, None)]" i] list_update_append[of ws]
  by (simp add: init_block_def rewire_def wired_def nth_append)

lemma wire_init: "wire_calls (concat (map (init_block base) [0..<k])) [] = Some (map (wired base) [0..<k])"
  by (induction k) (simp_all add: wire_calls_append wire_init_block)

text \<open>A block without work: while nothing is pushed no block leaves these positions.\<close>

fun waits :: "position \<Rightarrow> bool" where
  "waits Testing = True" | "waits Marking = True" | "waits Taking = True" | "waits Ending = True"
| "waits _ = False"

lemma waits_step:
  assumes "waits (position b)"
  obtains b' where "work_step hw junk (b, SafeQ [], q) = Some (b', SafeQ [], q)" and "waits (position b')"
    and "wiring b' = wiring b" and "bus b' = bus b"
  using assms by (cases "position b") (auto simp: work_step.simps wiring_def)

definition waiting :: "node \<Rightarrow> bool" where
  "waiting n \<longleftrightarrow> (\<forall>b \<in> set (blocks n). waits (position b) \<and> bus b = []) \<and> inputs n = SafeQ [] \<and> outputs n = SafeQ [] \<and>
     pushed n = [] \<and> popped n = []"

lemma waiting_update:
  assumes "waiting n" and "waits (position b)" and "bus b = []"
  shows "waiting (n\<lparr> blocks := (blocks n)[i := b] \<rparr>)"
  using assms set_update_subset_insert[of "blocks n" i b] by (auto simp: waiting_def)

lemma waiting_work:
  assumes "waiting n" and "i < length (blocks n)"
  shows "\<exists>n'. node_step hw (Work i junk) n = Some n' \<and> waiting n' \<and>
    map wiring (blocks n') = map wiring (blocks n) \<and> new_accesses i n n' = []"
proof -
  have q: "inputs n = SafeQ []" "waits (position (blocks n ! i))" "bus (blocks n ! i) = []"
    using assms by (simp_all add: waiting_def)
  obtain b' where b': "work_step (hw i) junk (blocks n ! i, SafeQ [], outputs n) = Some (b', SafeQ [], outputs n)"
    "waits (position b')" "wiring b' = wiring (blocks n ! i)" "bus b' = []"
    using waits_step[OF q(2)] q(3) by metis
  let ?n = "n\<lparr> blocks := (blocks n)[i := b'] \<rparr>"
  have "node_step hw (Work i junk) n = Some ?n" using assms(2) b'(1) q(1) by simp
  moreover have "map wiring (blocks ?n) = map wiring (blocks n)"
    using b'(3) assms(2) by (simp add: map_update list_update_same_conv)
  moreover have "new_accesses i n ?n = []" using q(3) b'(4) assms(2) by (simp add: new_accesses_def)
  ultimately show ?thesis using waiting_update[OF assms(1) b'(2,4)] by blast
qed

lemma waiting_on_block:
  assumes "waiting n" and "rewire i g (map wiring (blocks n)) = Some ws"
    and "\<And>b. wiring (f b) = g (wiring b)" and "\<And>b. position (f b) = position b"
    and "\<And>b. bus (f b) = bus b"
  shows "\<exists>n'. on_block i f n = Some n' \<and> waiting n' \<and> map wiring (blocks n') = ws"
proof -
  have i: "i < length (blocks n)" using assms(2) by (simp add: rewire_def split: if_splits)
  then have "waits (position (f (blocks n ! i)))" "bus (f (blocks n ! i)) = []"
    using assms(1,4,5) by (simp_all add: waiting_def)
  from waiting_update[OF assms(1) this] show ?thesis
    using i assms(2,3) by (auto simp: on_block_def rewire_def map_update)
qed

lemma waiting_call:
  assumes "waiting n" and "wire_call c (map wiring (blocks n)) = Some ws"
  shows "\<exists>n'. call_step hw c n = Some n' \<and> waiting n' \<and> map wiring (blocks n') = ws"
proof (cases c)
  case (New_block cra)
  then show ?thesis using assms by (auto simp: waiting_def new_block_def wiring_def)
next
  case (Call e)
  then show ?thesis using assms waiting_on_block[OF assms(1)]
    by (cases e) (auto simp: setInputs_def setOutputs_def wiring_def split: prod.splits)
qed

section \<open>Running\<close>

text \<open>How many results the collector has taken, and where it can stand.\<close>

fun taken :: "collector \<Rightarrow> nat" where
  "taken Unborn = 0"
| "taken (Readying i) = i * inSize"
| "taken (Checking i count2) = i * inSize + count2"
| "taken (Popping i count2) = i * inSize + count2"
| "taken _ = 10 * inSize"

fun collector_ok :: "collector \<Rightarrow> bool" where
  "collector_ok (Readying i) \<longleftrightarrow> i < 10"
| "collector_ok (Checking i count2) \<longleftrightarrow> i < 10 \<and> count2 < inSize"
| "collector_ok (Popping i count2) \<longleftrightarrow> i < 10 \<and> count2 < inSize"
| "collector_ok (Stopping i) \<longleftrightarrow> i < 10"
| "collector_ok _ \<longleftrightarrow> True"

lemma next_result_ok:
  "i < 10 \<Longrightarrow> k \<le> inSize \<Longrightarrow> collector_ok (next_result i k) \<and> taken (next_result i k) = i * inSize + k"
  using less_antisym[of i 9] by (auto simp: next_result_def)

text \<open>
  The windows of a block: its control registers, its input and its output port.  The bridge is
  mapped without a wrap of addresses.
\<close>

definition windows_of :: "u32 \<Rightarrow> nat \<Rightarrow> (nat \<times> nat) list" where
  "windows_of base i = [(unat (cra_of base i), 0x20), (unat (input_of base i), unat inputSize),
     (unat (output_of base i), unat outputSize)]"

definition mapped :: "u32 \<Rightarrow> bool" where
  "mapped base \<longleftrightarrow> unat base + pages H2F_RANGE \<le> 2 ^ 32"

text \<open>
  The kernel opened the device and mapped the bridge, within the address space as \<open>mmap\<close> does.
\<close>

definition bridge_mapped :: "kernel \<Rightarrow> bool" where
  "bridge_mapped os \<longleftrightarrow> bridge_window os \<noteq> None \<and> mapped (bridge_base os)"

lemma bridge_mapped_window:
  "bridge_mapped os \<Longrightarrow> bridge_window os = Some (unat (bridge_base os), pages H2F_RANGE)"
  by (auto simp: bridge_mapped_def bridge_window_def split: if_splits)

definition bus_inside :: "u32 \<Rightarrow> nat \<Rightarrow> block \<Rightarrow> bool" where
  "bus_inside base i b \<longleftrightarrow> (\<forall>a \<in> set (bus b). \<exists>w \<in> set (windows_of base i). inside (touched a) w)"

lemma pages_H2F: "pages H2F_RANGE = 0x3c000000"
  by (simp add: pages_def H2F_RANGE_def HPSFPGA_OFST_def HPSFPGA_END_def)

lemma mapped_add: "mapped base \<Longrightarrow> k < 0x3c000000 \<Longrightarrow> unat (base + of_nat k) = unat base + k"
  by (simp add: mapped_def pages_H2F unat_word_ariths unat_of_nat)

lemma addresses:
  assumes "mapped base" and "i < 11"
  shows "unat (cra_of base i) = unat base + (0x84140 - 0x20 * i)"
    and "unat (input_of base i) = unat base + 0xc000 * i"
    and "unat (output_of base i) = unat base + (0xc000 * i + 0x8000)"
proof -
  have "cra_of base i = base + of_nat (0x84140 - 0x20 * i)"
    using assms(2) by (simp add: cra_of_def of_nat_diff)
  with mapped_add[OF assms(1), of "0x84140 - 0x20 * i"] show "unat (cra_of base i) = unat base + (0x84140 - 0x20 * i)"
    by simp
  show "unat (input_of base i) = unat base + 0xc000 * i"
    using mapped_add[OF assms(1), of "0xc000 * i"] assms(2) by (simp add: input_of_def mult.commute)
  show "unat (output_of base i) = unat base + (0xc000 * i + 0x8000)"
    using mapped_add[OF assms(1), of "0xc000 * i + 0x8000"] assms(2)
    by (simp add: output_of_def mult.commute add.assoc)
qed

lemma work_step_bus:
  assumes "mapped base" and "i < 11" and "wiring b = wired base i" and "bus_inside base i b"
    and "work_step hw junk (b, inq, outq) = Some (b', inq', outq')"
  shows "bus_inside base i b' \<and> wiring b' = wired base i"
proof -
  have c: "unat (cra_of base i + 8) = unat (cra_of base i) + 8"
    "unat (cra_of base i + 0x18) = unat (cra_of base i) + 0x18"
    using addresses(1)[OF assms(1,2)] assms(1,2) by (simp_all add: unat_word_ariths mapped_def pages_H2F)
  have w: "cr_addr b = cra_of base i" "input_port b = Some (input_of base i, inputSize)"
    "output_port b = Some (output_of base i, outputSize)"
    using assms(3) by (simp_all add: wiring_def wired_def)
  have s: "unat (inputSize) = 32768" "unat outputSize = 16384"
    by (simp_all add: inputSize_def outputSize_def)
  from assms(4,5) c w s show ?thesis
    by (cases "position b")
      (auto simp: work_step.simps send_item_def block_start_def poll_done_def fetch_item_def bus_inside_def
        windows_of_def inside_def load_range_def wiring_def wired_def
        split: if_splits option.splits prod.splits)
qed

lemma node_step_frame:
  assumes "node_step hw e n = Some n'"
  shows "pushed n' = pushed n @ (case e of Push_chunk c \<Rightarrow> [c] | _ \<Rightarrow> [])"
    and "e \<noteq> Pop_chunk \<Longrightarrow> popped n' = popped n"
    and "e = Pop_chunk \<Longrightarrow> length (popped n') =
      length (popped n) + (if fst (safeq_pop (outputs n)) = None then 0 else 1)"
  using assms by (cases e; auto simp: on_block_def split: if_splits option.splits prod.splits)+

lemma fresh_chunk_fits: "chunk_fits inputSize outputSize (fresh_chunk junk k)"
  by (simp add: chunk_fits_def fresh_chunk_def inputSize_def outputSize_def DSize_def)

definition buses_inside :: "u32 \<Rightarrow> node \<Rightarrow> bool" where
  "buses_inside base n \<longleftrightarrow> (\<forall>i < 11. bus_inside base i (blocks n ! i))"

definition board_computes :: "(nat \<Rightarrow> accel) \<Rightarrow> (byte list \<Rightarrow> byte list) \<Rightarrow> u32 \<Rightarrow> bool" where
  "board_computes hw f base \<longleftrightarrow> (\<forall>i < 11. computes (hw i) f (cra_of base i)
     (input_of base i, inputSize) (output_of base i, outputSize))"

definition serves_right :: "(nat \<Rightarrow> accel) \<Rightarrow> (byte list \<Rightarrow> byte list) \<Rightarrow> u32 \<Rightarrow> node \<Rightarrow> bool" where
  "serves_right hw f base n \<longleftrightarrow> node_ok inputSize outputSize n \<and>
     map wiring (blocks n) = map (wired base) [0..<11] \<and> (mapped base \<longrightarrow> buses_inside base n) \<and>
     (board_computes hw f base \<longrightarrow>
        blocks_right hw f inputSize outputSize (blocks n) \<and> accounted f inputSize n)"

lemma serves_length: "serves_right hw f base n \<Longrightarrow> length (blocks n) = 11"
  unfolding serves_right_def by (metis length_map length_upt diff_zero)

lemma wiring_nth:
  assumes "map wiring bs = map (wired base) [0..<11]" and "i < 11"
  shows "wiring (bs ! i) = wired base i"
proof -
  have "length bs = 11" using arg_cong[OF assms(1), of length] by simp
  then show ?thesis using arg_cong[OF assms(1), of "\<lambda>xs. xs ! i"] assms(2) by simp
qed

lemma node_step_wiring:
  assumes "node_step hw e n = Some n'" and "event_ok isz osz 11 e"
    and w: "map wiring (blocks n) = map (wired base) [0..<11]"
  shows "map wiring (blocks n') = map (wired base) [0..<11]"
    and "mapped base \<Longrightarrow> buses_inside base n \<Longrightarrow> buses_inside base n'"
proof -
  have l: "length (blocks n) = 11" using arg_cong[OF w, of length] by simp
  have upd: "map wiring ((blocks n)[i := b]) = map (wired base) [0..<11]"
    if "wiring b = wiring (blocks n ! i)" for i b
    using that w by (metis list_update_id map_update)
  have in': "buses_inside base (n\<lparr> blocks := (blocks n)[i := b] \<rparr>)"
    if "buses_inside base n" "bus_inside base i b" for i b
    unfolding buses_inside_def
  proof (intro allI impI)
    fix j :: nat assume "j < 11"
    then show "bus_inside base j (blocks (n\<lparr> blocks := (blocks n)[i := b] \<rparr>) ! j)"
      using that l by (cases "j = i") (simp_all add: buses_inside_def)
  qed
  have fr: "wiring b' = wiring b" if "work_step h j (b, x, y) = Some (b', x', y')" for h j b x y b' x' y'
    using work_step_frame[OF that] by (simp add: wiring_def)
  show "map wiring (blocks n') = map (wired base) [0..<11]"
    using assms upd fr
    by (cases e) (auto simp: on_block_def wiring_def split: option.splits prod.splits if_splits)
  assume m: "mapped base" and b: "buses_inside base n"
  have work: "bus_inside base i b'" if "work_step h j (blocks n ! i, x, y) = Some (b', x', y')" "i < 11"
    for h j i x y b' x' y'
    using work_step_bus[OF m that(2) wiring_nth[OF w that(2)] _ that(1)] b that(2) by (simp add: buses_inside_def)
  show "buses_inside base n'"
  proof (cases e)
    case (Work i junk)
    then obtain b' x' y' where st: "work_step (hw i) junk (blocks n ! i, inputs n, outputs n) = Some (b', x', y')"
      "n' = n\<lparr> blocks := (blocks n)[i := b'], inputs := x', outputs := y' \<rparr>"
      using assms(1) by (auto split: option.splits if_splits)
    with work[OF st(1)] in'[OF b, of i b'] Work assms(2) show ?thesis by (simp add: buses_inside_def)
  next
    case (Set_state i st)
    then have "i < 11" "n' = n\<lparr> blocks := (blocks n)[i := (blocks n ! i)\<lparr> state := st \<rparr>] \<rparr>"
      using assms(1,2) by (simp_all add: on_block_def split: if_splits)
    with in'[OF b, of i "(blocks n ! i)\<lparr> state := st \<rparr>"] b show ?thesis
      by (simp add: buses_inside_def bus_inside_def)
  qed (use assms(1,2) b in \<open>auto simp: buses_inside_def split: option.splits prod.splits\<close>)
qed

lemma serves_right_step:
  assumes "serves_right hw f base n" and "event_ok inputSize outputSize 11 e"
  obtains n' where "node_step hw e n = Some n'" and "serves_right hw f base n'"
proof -
  note l = serves_length[OF assms(1)]
  obtain n' where n': "node_step hw e n = Some n'" "node_ok inputSize outputSize n'"
    using node_step_ok[of inputSize outputSize n e hw] assms l by (auto simp: serves_right_def)
  have "serves_right hw f base n'"
    using node_step_right[of inputSize outputSize n e hw f n'] node_step_wiring[OF n'(1) assms(2), of base]
      assms l n' by (simp add: serves_right_def)
  with n'(1) that show ?thesis by blast
qed

lemma owed_none: "\<forall>b \<in> set bs. owed f isz (position b) = {#} \<Longrightarrow> owed_by_blocks f isz bs = {#}"
  by (induction bs) (simp_all add: owed_by_blocks_def)

text \<open>A node set up as planned serves.\<close>

lemma waiting_serves:
  assumes "waiting n" and w: "map wiring (blocks n) = map (wired base) [0..<11]"
  shows "serves_right hw f base n"
proof -
  have l: "length (blocks n) = 11" using arg_cong[OF w, of length] by simp
  have st: "waits (position (blocks n ! i))" "bus (blocks n ! i) = []" if "i < 11" for i
    using assms(1) that l by (simp_all add: waiting_def)
  have ok: "block_ok inputSize outputSize (blocks n ! i) \<and>
      (board_computes hw f base \<longrightarrow> block_right (hw i) f inputSize outputSize (blocks n ! i)) \<and>
      owed f inputSize (position (blocks n ! i)) = {#}" if "i < 11" for i
    using wiring_nth[OF w that] st[OF that] that
    by (cases "position (blocks n ! i)")
      (auto simp: wiring_def wired_def block_ok_def ports_def block_right_def board_computes_def)
  then have "\<forall>b \<in> set (blocks n). block_ok inputSize outputSize b \<and> owed f inputSize (position b) = {#}"
    using l by (auto simp: in_set_conv_nth)
  moreover from this have "owed_by_blocks f inputSize (blocks n) = {#}" by (simp add: owed_none)
  ultimately show ?thesis using ok l st w assms(1)
    by (auto simp: serves_right_def node_ok_def blocks_right_def accounted_def waiting_def buses_inside_def bus_inside_def)
qed

text \<open>What is so in every reachable state: it is being set up, or it runs.\<close>

definition setting_up :: "u32 \<Rightarrow> program \<Rightarrow> bool" where
  "setting_up base s \<longleftrightarrow> mapped base \<and> window s = Some (unat base, pages H2F_RANGE) \<and> waiting (node s) \<and> pushes s = 0 \<and> collector s = Unborn \<and>
     wire_calls (todo s) (map wiring (blocks (node s))) = Some (map (wired base) [0..<11])"

definition runs :: "(nat \<Rightarrow> accel) \<Rightarrow> (byte list \<Rightarrow> byte list) \<Rightarrow> u32 \<Rightarrow> program \<Rightarrow> bool" where
  "runs hw f base s \<longleftrightarrow> mapped base \<and> window s = Some (unat base, pages H2F_RANGE) \<and> todo s = [] \<and> serves_right hw f base (node s) \<and> collector_ok (collector s) \<and>
     pushes s \<le> 10 * inSize \<and> length (popped (node s)) = taken (collector s) \<and>
     map chunk_id (pushed (node s)) = map (\<lambda>k. of_nat (k mod inSize)) [0..<pushes s]"

definition program_ok :: "(nat \<Rightarrow> accel) \<Rightarrow> (byte list \<Rightarrow> byte list) \<Rightarrow> u32 \<Rightarrow> program \<Rightarrow> bool" where
  "program_ok hw f base s \<longleftrightarrow> (todo s \<noteq> [] \<and> setting_up base s) \<or> runs hw f base s"

lemma setting_up_ok:
  assumes "setting_up base s"
  shows "program_ok hw f base s"
  using assms waiting_serves[of "node s" base hw f]
  by (cases "todo s") (auto simp: program_ok_def setting_up_def runs_def waiting_def)

text \<open>The collecting thread: every step is defined, until it is over.\<close>

lemma runs_collect:
  assumes "serves_right hw f base n" and "collector_ok c" and "c \<notin> {Unborn, Over}"
    and "length (popped n) = taken c"
  obtains c' n' where "sendingT hw seen c n = Some (c', n')" and "serves_right hw f base n'" and "collector_ok c'"
    and "length (popped n') = taken c'" and "pushed n' = pushed n"
proof (cases c)
  case (Checking i k)
  then show ?thesis using that[of "if unlocked_empty seen n then next_result i k else Popping i k" n]
      assms next_result_ok[of i k] by (auto split: if_splits)
next
  case (Popping i k)
  obtain n' where n': "node_step hw Pop_chunk n = Some n'" "serves_right hw f base n'"
    using serves_right_step[OF assms(1), of Pop_chunk] by auto
  let ?k = "if fst (safeq_pop (outputs n)) = None then k else Suc k"
  have "collector_ok (next_result i ?k) \<and> taken (next_result i ?k) = i * inSize + ?k"
    using Popping assms(2) by (intro next_result_ok) auto
  with that[of "next_result i ?k" n'] n' node_step_frame[OF n'(1)] Popping assms(4) show ?thesis by auto
next
  case (Readying i)
  obtain n' where n': "node_step hw (Set_state i Ready) n = Some n'" "serves_right hw f base n'"
    using serves_right_step[OF assms(1), of "Set_state i Ready"] Readying assms(2) by auto
  with that[of "Checking i 0" n'] node_step_frame[OF n'(1)] Readying assms show ?thesis
    by (auto simp: inSize_def simp del: node_step.simps)
next
  case (Stopping i)
  obtain n' where n': "node_step hw (Set_state i Stopped) n = Some n'" "serves_right hw f base n'"
    using serves_right_step[OF assms(1), of "Set_state i Stopped"] Stopping assms(2) by auto
  with that[of "if Suc i < 10 then Stopping (Suc i) else Over" n'] node_step_frame[OF n'(1)] Stopping assms
  show ?thesis by (auto simp del: node_step.simps split: if_splits)
qed (use assms in simp_all)

text \<open>Which events have a step, and that it keeps the invariant.\<close>

fun enabled :: "program_event \<Rightarrow> program \<Rightarrow> bool" where
  "enabled (Main junk) s \<longleftrightarrow> todo s \<noteq> [] \<or> collector s = Unborn \<or> pushes s < 10 * inSize"
| "enabled (Collect seen) s \<longleftrightarrow> collector s \<notin> {Unborn, Over}"
| "enabled (Serve i junk) s \<longleftrightarrow> i < length (blocks (node s))"

lemma program_step_enabled: "program_step hw e s = Some s' \<Longrightarrow> enabled e s"
  by (cases e; cases "collector s") (auto split: list.splits if_splits option.splits)

lemma setting_up_step:
  assumes up: "setting_up base s" "todo s \<noteq> []" and "enabled e s"
  shows "\<exists>s'. program_step hw e s = Some s' \<and> program_ok hw f base s'"
proof (cases e)
  case (Main junk)
  obtain c cs where t: "todo s = c # cs" using up(2) by (cases "todo s") auto
  then obtain ws where ws: "wire_call c (map wiring (blocks (node s))) = Some ws"
    "wire_calls cs ws = Some (map (wired base) [0..<11])"
    using up(1) by (auto simp: setting_up_def bind_eq_Some_conv)
  obtain n' where "call_step hw c (node s) = Some n'" "waiting n'" "map wiring (blocks n') = ws"
    using waiting_call[OF _ ws(1)] up(1) by (auto simp: setting_up_def)
  then show ?thesis using Main t ws up(1) by (auto simp: setting_up_def intro!: setting_up_ok)
next
  case (Serve i junk)
  then obtain n' where n': "node_step hw (Work i junk) (node s) = Some n'" "waiting n'"
    "map wiring (blocks n') = map wiring (blocks (node s))" "new_accesses i (node s) n' = []"
    using waiting_work[of "node s" i hw junk] up(1) assms(3) by (auto simp: setting_up_def simp del: node_step.simps)
  then have "program_step hw (Serve i junk) s = Some (s\<lparr> node := n' \<rparr>)" by (simp del: node_step.simps)
  moreover have "setting_up base (s\<lparr> node := n' \<rparr>)" using n' up(1) by (simp add: setting_up_def)
  ultimately show ?thesis using Serve setting_up_ok by blast
qed (use assms in \<open>simp add: setting_up_def\<close>)

lemma windows_of_mapped:
  assumes "mapped base" and "i < 11" and "w \<in> set (windows_of base i)"
  shows "inside w (unat base, unat H2F_RANGE)"
  using assms
  by (auto simp: windows_of_def addresses inside_def inputSize_def outputSize_def H2F_RANGE_def
      HPSFPGA_OFST_def HPSFPGA_END_def)

lemma inside_trans: "inside a w \<Longrightarrow> inside w v \<Longrightarrow> inside a v"
  by (auto simp: inside_def)

lemma served_accessible:
  assumes "serves_right hw f base n'" and "mapped base" and "i < 11"
  shows "list_all (accessible (Some (unat base, pages H2F_RANGE))) (new_accesses i n n')"
  unfolding list_all_iff
proof
  fix a assume "a \<in> set (new_accesses i n n')"
  then have "a \<in> set (bus (blocks n' ! i))" unfolding new_accesses_def by (rule in_set_dropD)
  moreover have "bus_inside base i (blocks n' ! i)"
    using assms by (simp add: serves_right_def buses_inside_def)
  ultimately obtain w where w: "w \<in> set (windows_of base i)" "inside (touched a) w"
    unfolding bus_inside_def by blast
  have "unat H2F_RANGE \<le> pages H2F_RANGE"
    by (simp add: pages_def H2F_RANGE_def HPSFPGA_OFST_def HPSFPGA_END_def)
  then have "inside (unat base, unat H2F_RANGE) (unat base, pages H2F_RANGE)" by (simp add: inside_def)
  with inside_trans[OF w(2) windows_of_mapped[OF assms(2,3) w(1)]] inside_trans
  show "accessible (Some (unat base, pages H2F_RANGE)) a" unfolding accessible_def option.case by blast
qed

lemma runs_step:
  assumes r: "runs hw f base s" and en: "enabled e s"
  shows "\<exists>s'. program_step hw e s = Some s' \<and> runs hw f base s'"
proof (cases e)
  case (Main junk)
  let ?e = "Push_chunk (fresh_chunk junk (pushes s))"
  obtain n' where n': "node_step hw ?e (node s) = Some n'" "serves_right hw f base n'"
    using serves_right_step[of hw f base "node s" ?e] fresh_chunk_fits r by (auto simp: runs_def)
  show ?thesis
    using Main en r n' node_step_frame[OF n'(1)]
    by (cases "collector s = Unborn") (auto simp: runs_def fresh_chunk_def simp del: node_step.simps)
next
  case (Collect seen)
  have c: "serves_right hw f base (node s)" "collector_ok (collector s)" "collector s \<notin> {Unborn, Over}"
    "length (popped (node s)) = taken (collector s)"
    using r en Collect by (auto simp: runs_def)
  obtain c' n' where "sendingT hw seen (collector s) (node s) = Some (c', n')" "serves_right hw f base n'"
    "collector_ok c'" "length (popped n') = taken c'" "pushed n' = pushed (node s)"
    using runs_collect[OF c] by metis
  then show ?thesis using r Collect by (auto simp: runs_def)
next
  case (Serve i junk)
  have "serves_right hw f base (node s)" using r by (simp add: runs_def)
  moreover from this have "event_ok inputSize outputSize 11 (Work i junk)"
    using en Serve by (simp add: serves_length)
  ultimately obtain n' where n': "node_step hw (Work i junk) (node s) = Some n'" "serves_right hw f base n'"
    using serves_right_step by blast
  have "mapped base" "i < 11" using r en Serve by (auto simp: runs_def serves_length)
  from served_accessible[OF n'(2) this, of "node s"]
  have "list_all (accessible (window s)) (new_accesses i (node s) n')" using r by (simp add: runs_def)
  then show ?thesis using Serve r n' node_step_frame[OF n'(1)]
    by (auto simp: runs_def simp del: node_step.simps)
qed

lemma program_ok_step:
  "program_ok hw f base s \<Longrightarrow> enabled e s \<Longrightarrow> \<exists>s'. program_step hw e s = Some s' \<and> program_ok hw f base s'"
  using setting_up_step[of base s e hw f] runs_step[of hw f base s e] by (auto simp: program_ok_def)

lemma reachable_ok:
  "program_reachable hw os s \<Longrightarrow> bridge_mapped os \<Longrightarrow> program_ok hw f (bridge_base os) s"
proof (induction rule: program_reachable.induct)
  case start
  have "mapped (bridge_base os)" using start by (simp add: bridge_mapped_def)
  then show ?case using wire_init[of "bridge_base os" 11] bridge_mapped_window[OF start]
    by (intro setting_up_ok)
      (simp add: setting_up_def main_program_def initEveryting_def waiting_def new_node_def)
next
  case (step s e s')
  obtain t where "program_step hw e s = Some t" "program_ok hw f (bridge_base os) t"
    using program_ok_step[OF step.IH[OF step.prems] program_step_enabled[OF step.hyps(2)]] by blast
  then show ?case unfolding step.hyps(2) option.inject by hypsubst
qed

section \<open>Properties\<close>

text \<open>
  C8: the program of \<^verbatim>\<open>test/main.cpp\<close> is right, where the kernel maps the bridge for it, in every
  interleaving of its threads with those of the eleven blocks: no step leaves a buffer, uses an
  unset port or touches an address outside the mapped bridge (a thread has a step exactly as its
  code says); every result collected is that of a chunk pushed; and when the collecting thread
  has ended, after its ten rounds, it has taken exactly one result for each of the ten thousand
  chunks, with the chunk's identifier.  This holds for every answer of the unlocked
  \<open>receiveQ->empty()\<close> while a block pushes; that this call and the plain \<open>Block::state\<close> are data
  races is not excluded, nor that the mapping fails, where the program goes on and faults
  (\<open>failed_mapping_faults\<close>).
\<close>

theorem board_program_right:
  assumes "program_reachable hw os s" and "bridge_mapped os" and "board_computes hw f (bridge_base os)"
  shows "(program_step hw e s \<noteq> None \<longleftrightarrow> enabled e s) \<and>
    mset (popped (node s)) \<subseteq># results f inputSize (pushed (node s)) \<and>
    (collector s = Over \<longrightarrow>
      mset (popped (node s)) = results f inputSize (pushed (node s)) \<and>
      map chunk_id (pushed (node s)) = map (\<lambda>k. of_nat (k mod inSize)) [0..<10 * inSize])"
proof -
  let ?base = "bridge_base os"
  note ok = reachable_ok[OF assms(1,2), of f]
  have en: "program_step hw e s \<noteq> None \<longleftrightarrow> enabled e s"
    using program_ok_step[OF ok, of e] program_step_enabled[of hw e s] by auto
  show ?thesis
  proof (cases "todo s \<noteq> [] \<and> setting_up ?base s")
    case True
    then show ?thesis using en by (simp add: setting_up_def waiting_def)
  next
    case False
    then have r: "runs hw f ?base s" using ok unfolding program_ok_def by blast
    then have acc: "results f inputSize (pushed (node s)) =
        results f inputSize (queue_of (inputs (node s))) + owed_by_blocks f inputSize (blocks (node s)) +
        mset (queue_of (outputs (node s))) + mset (popped (node s))"
      using assms(3) by (simp add: runs_def serves_right_def accounted_def)
    then have sub: "mset (popped (node s)) \<subseteq># results f inputSize (pushed (node s))" by simp
    have len: "length (pushed (node s)) = pushes s"
      using r unfolding runs_def by (metis length_map length_upt diff_zero)
    have all: "mset (popped (node s)) = results f inputSize (pushed (node s)) \<and> pushes s = 10 * inSize"
      if "collector s = Over"
    proof -
      have "length (popped (node s)) = 10 * inSize" "pushes s \<le> 10 * inSize" using r that by (auto simp: runs_def)
      moreover have "length (popped (node s)) \<le> pushes s"
        using size_mset_mono[OF sub] len by (simp add: results_def)
      ultimately show ?thesis
        using mset_subset_size[of "mset (popped (node s))" "results f inputSize (pushed (node s))"] sub len
        by (auto simp: results_def subset_mset.le_less)
    qed
    with en sub r show ?thesis by (auto simp: runs_def)
  qed
qed

lemma windows_of_apart:
  assumes "mapped base" and "i < 11" and "j < 11" and "i \<noteq> j"
    and "w \<in> set (windows_of base i)" and "v \<in> set (windows_of base j)"
  shows "apart w v"
proof -
  have "i + 1 \<le> j \<or> j + 1 \<le> i" using assms(4) by linarith
  with assms show ?thesis
    by (auto simp: windows_of_def addresses apart_def inputSize_def outputSize_def)
qed

lemma reachable_bus:
  assumes "program_reachable hw os s" and "bridge_mapped os" and "i < length (blocks (node s))"
    and "a \<in> set (bus (blocks (node s) ! i))"
  obtains w where "w \<in> set (windows_of (bridge_base os) i)" and "inside (touched a) w" and "i < 11"
proof -
  let ?base = "bridge_base os"
  have "program_ok hw undefined ?base s" by (rule reachable_ok[OF assms(1,2)])
  moreover have False if "setting_up ?base s" using that assms(3,4) by (simp add: setting_up_def waiting_def)
  ultimately have sv: "serves_right hw undefined ?base (node s)" by (auto simp: program_ok_def runs_def)
  then have i: "i < 11" using assms(3) by (simp add: serves_length)
  then have "bus_inside ?base i (blocks (node s) ! i)"
    using sv assms(2) by (simp add: serves_right_def buses_inside_def bridge_mapped_def)
  then show ?thesis using assms(4) i that unfolding bus_inside_def by blast
qed

text \<open>
  C11: wherever the kernel maps the bridge, no two blocks meet on it: every access of a block's
  thread is of the registers, the input or the output port of that block, these lie within the
  length that was mapped, and an access of another block touches none of the same bytes.
\<close>

theorem board_accesses_apart:
  assumes "program_reachable hw os s" and "bridge_mapped os"
  shows "\<forall>i < length (blocks (node s)). \<forall>a \<in> set (bus (blocks (node s) ! i)).
    inside (touched a) (unat (bridge_base os), unat H2F_RANGE) \<and>
    (\<forall>j < length (blocks (node s)). \<forall>c \<in> set (bus (blocks (node s) ! j)).
       i \<noteq> j \<longrightarrow> apart (touched a) (touched c))"
proof (intro allI ballI impI conjI)
  have m: "mapped (bridge_base os)" using assms(2) by (simp add: bridge_mapped_def)
  fix i a assume i: "i < length (blocks (node s))" "a \<in> set (bus (blocks (node s) ! i))"
  obtain w where w: "w \<in> set (windows_of (bridge_base os) i)" "inside (touched a) w" "i < 11"
    using reachable_bus[OF assms i] by blast
  show "inside (touched a) (unat (bridge_base os), unat H2F_RANGE)"
    using inside_trans[OF w(2) windows_of_mapped[OF m w(3,1)]] .
  fix j c assume j: "j < length (blocks (node s))" "c \<in> set (bus (blocks (node s) ! j))" and ne: "i \<noteq> j"
  obtain v where v: "v \<in> set (windows_of (bridge_base os) j)" "inside (touched c) v" "j < 11"
    using reachable_bus[OF assms j] by blast
  show "apart (touched a) (touched c)"
    using apart_inside[OF windows_of_apart[OF m w(3) v(3) ne w(1) v(1)] w(2) v(2)] .
qed

section \<open>A run\<close>

text \<open>
  With hardware that answers, the program can end: here the first block does all the work before
  the collector begins.
\<close>

fun program_run :: "(nat \<Rightarrow> accel) \<Rightarrow> program_event list \<Rightarrow> program \<Rightarrow> program option" where
  "program_run hw [] s = Some s"
| "program_run hw (e # es) s = Option.bind (program_step hw e s) (program_run hw es)"

lemma program_run_append:
  "program_run hw (es @ ds) s = Option.bind (program_run hw es s) (program_run hw ds)"
  by (induction es arbitrary: s) (auto split: Option.bind_split)

lemma program_run_reachable:
  "program_reachable hw os s \<Longrightarrow> program_run hw es s = Some s' \<Longrightarrow> program_reachable hw os s'"
  by (induction es arbitrary: s) (auto simp: bind_eq_Some_conv intro: program_reachable.step)

definition wired_block :: "u32 \<Rightarrow> nat \<Rightarrow> block" where
  "wired_block base i = (setOutputs (output_of base i) outputSize
     (setInputs (input_of base i) inputSize (new_block (cra_of base i))))\<lparr> state := Stopped \<rparr>"

lemma init_block_run:
  assumes "length bs = i"
  shows "program_run hw [Main junk, Main junk, Main junk, Main junk]
    (main_program os\<lparr> node := new_node bs, todo := init_block (bridge_base os) i @ cs \<rparr>) =
    Some (main_program os\<lparr> node := new_node (bs @ [wired_block (bridge_base os) i]), todo := cs \<rparr>)"
  using assms
  by (simp add: init_block_def on_block_def new_node_def main_program_def wired_block_def list_update_append nth_append)

lemma init_run:
  "program_run hw (replicate (4 * k) (Main junk))
     (main_program os\<lparr> node := new_node [], todo := concat (map (init_block (bridge_base os)) [0..<k]) @ cs \<rparr>) =
     Some (main_program os\<lparr> node := new_node (map (wired_block (bridge_base os)) [0..<k]), todo := cs \<rparr>)"
proof (induction k arbitrary: cs)
  case (Suc k)
  have r: "replicate (4 * Suc k) x = replicate (4 * k) x @ [x, x, x, x]" for x :: program_event
    using replicate_add[of "4 * k" 4 x] by (simp add: add.commute numeral_eq_Suc)
  show ?case
    unfolding r program_run_append
    using Suc[of "init_block (bridge_base os) k @ cs"] init_block_run[of "map (wired_block (bridge_base os)) [0..<k]" k hw junk os cs]
    by simp
qed simp

lemma push_run:
  assumes "todo s = []" and "collector s \<noteq> Unborn" and "pushes s + k \<le> 10 * inSize"
  shows "\<exists>s' cs. program_run hw (replicate k (Main junk)) s = Some s' \<and> collector s' = collector s \<and>
    window s' = window s \<and> blocks (node s') = blocks (node s) \<and> outputs (node s') = outputs (node s) \<and>
    queue_of (inputs (node s')) = queue_of (inputs (node s)) @ cs \<and> length cs = k \<and>
    list_all (chunk_fits inputSize outputSize) cs"
  using assms
proof (induction k arbitrary: s)
  case (Suc k)
  let ?c = "fresh_chunk junk (pushes s)"
  let ?s = "s\<lparr> node := (node s)\<lparr> inputs := safeq_push ?c (inputs (node s)), pushed := pushed (node s) @ [?c] \<rparr>,
    pushes := Suc (pushes s) \<rparr>"
  have st: "program_step hw (Main junk) s = Some ?s" using Suc.prems by simp
  obtain s' cs where "program_run hw (replicate k (Main junk)) ?s = Some s'" "collector s' = collector s"
    "window s' = window s" "blocks (node s') = blocks (node s)" "outputs (node s') = outputs (node s)"
    "queue_of (inputs (node s')) = queue_of (inputs (node s)) @ ?c # cs" "length cs = k"
    "list_all (chunk_fits inputSize outputSize) cs"
    using Suc.IH[of ?s] Suc.prems by auto
  with st show ?case by (intro exI[of _ s'] exI[of _ "?c # cs"]) (simp add: fresh_chunk_fits)
qed simp

lemma serve_run:
  assumes "work_run (hw i) junk k (blocks (node s) ! i, inputs (node s), outputs (node s)) = Some (b, inq, outq)"
    and "i < length (blocks (node s))" and "runs hw f base s"
  shows "\<exists>s'. program_run hw (replicate k (Serve i junk)) s = Some s' \<and> collector s' = collector s \<and>
    outputs (node s') = outq \<and> length (blocks (node s')) = length (blocks (node s))"
  using assms
proof (induction k arbitrary: s)
  case (Suc k)
  obtain b1 x y where w: "work_step (hw i) junk (blocks (node s) ! i, inputs (node s), outputs (node s)) = Some (b1, x, y)"
    "work_run (hw i) junk k (b1, x, y) = Some (b, inq, outq)"
    using Suc.prems(1) by (auto split: option.splits)
  let ?s = "s\<lparr> node := (node s)\<lparr> blocks := (blocks (node s))[i := b1], inputs := x, outputs := y \<rparr> \<rparr>"
  have "node_step hw (Work i junk) (node s) = Some (node ?s)" using w(1) Suc.prems(2) by simp
  then have "program_step hw (Serve i junk) s = None \<or> program_step hw (Serve i junk) s = Some ?s"
    by (simp del: node_step.simps)
  then have st: "program_step hw (Serve i junk) s = Some ?s" and "runs hw f base ?s"
    using runs_step[OF Suc.prems(3), of "Serve i junk"] Suc.prems(2) by auto
  then show ?case using Suc.IH[of ?s] w(2) Suc.prems(2) by auto
qed auto

lemma run_step:
  assumes "program_step hw e s = Some s1" and "\<exists>es s'. program_run hw es s1 = Some s' \<and> P s'"
  shows "\<exists>es s'. program_run hw es s = Some s' \<and> P s'"
  using assms by (metis bind.bind_lunit program_run.simps(2))

lemma stop_run:
  "collector s = Stopping i \<Longrightarrow> i < 10 \<Longrightarrow> length (blocks (node s)) = 11 \<Longrightarrow>
   \<exists>es s'. program_run hw es s = Some s' \<and> collector s' = Over"
proof (induction "10 - i" arbitrary: s i)
  case (Suc m)
  let ?n = "(node s)\<lparr> blocks := (blocks (node s))[i := (blocks (node s) ! i)\<lparr> state := Stopped \<rparr>] \<rparr>"
  let ?s = "s\<lparr> node := ?n, collector := (if Suc i < 10 then Stopping (Suc i) else Over) \<rparr>"
  have st: "program_step hw (Collect False) s = Some ?s" using Suc.prems by (simp add: on_block_def)
  show ?case
  proof (cases "Suc i < 10")
    case True
    have "\<exists>es s'. program_run hw es ?s = Some s' \<and> collector s' = Over"
      by (rule Suc.hyps(1)[of "Suc i"]) (use True Suc in simp_all)
    with run_step[OF st] show ?thesis .
  next
    case False
    then have "program_run hw [] ?s = Some ?s \<and> collector ?s = Over" by simp
    then show ?thesis by (intro run_step[OF st]) blast
  qed
qed simp

text \<open>The collector, with all the results it waits for in the queue.\<close>

lemma collect_run:
  assumes "collector s = Checking i k" and "collector_ok (collector s)" and "length (blocks (node s)) = 11"
    and "length (queue_of (outputs (node s))) + taken (collector s) = 10 * inSize"
  shows "\<exists>es s'. program_run hw es s = Some s' \<and> collector s' = Over"
  using assms
proof (induction "length (queue_of (outputs (node s)))" arbitrary: s i k)
  case 0
  have "i * inSize + k < 10 * inSize" using 0(2,3) by (simp add: inSize_def)
  then show ?case using 0 by simp
next
  case (Suc m)
  obtain c cs where q: "queue_of (outputs (node s)) = c # cs" using Suc(2) by (cases "queue_of (outputs (node s))") auto
  then have q': "outputs (node s) = SafeQ (c # cs)" by (cases "outputs (node s)") simp
  let ?n = "(node s)\<lparr> outputs := SafeQ cs, popped := popped (node s) @ [c] \<rparr>"
  let ?s = "s\<lparr> node := ?n, collector := next_result i (Suc k) \<rparr>"
  have st: "program_step hw (Collect False) s = Some (s\<lparr> collector := Popping i k \<rparr>)" using Suc(3) q' by (simp add: unlocked_empty_def)
  have st': "program_step hw (Collect False) (s\<lparr> collector := Popping i k \<rparr>) = Some ?s" using q' by simp
  note nx = next_result_ok[of i "Suc k"]
  have ik: "i < 10" "Suc k \<le> inSize" using Suc(3,4) by simp_all
  have m: "m = length cs" "m + taken (next_result i (Suc k)) = 10 * inSize"
    using Suc(2,3,6) q nx[OF ik] by simp_all
  have ready: "\<exists>es s'. program_run hw es ?s = Some s' \<and> collector s' = Over"
    if nr: "next_result i (Suc k) = Readying j" for j
  proof -
    have j: "j < 10" using nx[OF ik] nr by simp
    let ?n' = "?n\<lparr> blocks := (blocks ?n)[j := (blocks ?n ! j)\<lparr> state := Ready \<rparr>] \<rparr>"
    let ?s' = "?s\<lparr> node := ?n', collector := Checking j 0 \<rparr>"
    have "program_step hw (Collect False) ?s = Some ?s'" using nr j Suc(5) by (simp add: on_block_def)
    moreover have "\<exists>es s'. program_run hw es ?s' = Some s' \<and> collector s' = Over"
      by (rule Suc(1)) (use m nr j Suc(5) in \<open>simp_all add: inSize_def\<close>)
    ultimately show ?thesis by (rule run_step)
  qed
  have stop: "\<exists>es s'. program_run hw es ?s = Some s' \<and> collector s' = Over"
    if "next_result i (Suc k) = Stopping 0"
    using stop_run[of ?s 0] that Suc(5) by simp
  have "\<exists>es s'. program_run hw es ?s = Some s' \<and> collector s' = Over"
  proof (cases "next_result i (Suc k)")
    case (Checking j l)
    show ?thesis by (rule Suc(1)) (use Checking m nx[OF ik] Suc(5) in simp_all)
  next
    case (Readying j)
    then show ?thesis by (rule ready)
  next
    case (Stopping j)
    then have "j = 0" by (simp add: next_result_def split: if_splits)
    with Stopping show ?thesis using stop by simp
  qed (simp_all add: next_result_def split: if_splits)
  from run_step[OF st run_step[OF st' this]] show ?case .
qed

text \<open>Hardware that answers at once, every byte a two.\<close>

definition all_twos :: "nat \<Rightarrow> accel" where "all_twos i t a = 2"

lemma all_twos_right:
  "computes (all_twos i) (\<lambda>_. replicate (unat osz) 2) cra (p, isz) (q, osz)" "responds (all_twos i) cra p"
  by (simp_all add: computes_def responds_def isDone_def all_twos_def fetch_bytes_def map_replicate_const)

lemma all_twos_board: "board_computes all_twos (\<lambda>_. replicate (unat outputSize) 2) base"
  by (simp add: board_computes_def all_twos_right)

text \<open>The program after its set-up, with the first block made ready.\<close>

definition set_up :: "kernel \<Rightarrow> program" where
  "set_up os = (main_program os)\<lparr> node := new_node ((map (wired_block (bridge_base os)) [0..<11])
     [0 := (wired_block (bridge_base os) 0)\<lparr> state := Ready \<rparr>]), todo := [], collector := Checking 0 0 \<rparr>"

lemma set_up_reachable: "program_reachable hw os (set_up os)"
proof -
  have "program_run hw (replicate 44 (Main (\<lambda>_. 0)) @ [Main (\<lambda>_. 0), Collect False]) (main_program os) =
      Some (set_up os)"
    using init_run[of hw 11 "\<lambda>_. 0" os "[]"]
    by (simp add: program_run_append main_program_def initEveryting_def on_block_def new_node_def set_up_def)
  then show ?thesis using program_run_reachable program_reachable.start by blast
qed

text \<open>
  Where the device cannot be opened or the bridge not be mapped, the program goes on all the same,
  to a state in which a block's thread can only fault, at its first access.
\<close>

lemma failed_mapping_faults:
  assumes "bridge_window os = None"
  shows "\<exists>s. program_reachable hw os s \<and> enabled (Serve 0 junk) s \<and> program_step hw (Serve 0 junk) s = None"
proof -
  let ?w = "wired_block (bridge_base os)"
  let ?c = "fresh_chunk junk 0"
  let ?b = "(?w 0)\<lparr> state := Busy, position := Sending ?c (new_output junk ?c outputSize) 0 \<rparr>"
  let ?n = "(new_node ((map ?w [0..<11])[0 := ?b]))\<lparr> pushed := [?c] \<rparr>"
  let ?s = "(set_up os)\<lparr> node := ?n, pushes := 1 \<rparr>"
  have l: "load_range (chunk_data ?c) (0 * inputSize) inputSize = Some (item inputSize ?c (unat (0 :: u32)))"
    by (rule load_item[OF fresh_chunk_fits]) (simp add: fresh_chunk_def DSize_def)
  have "program_run hw [Main junk, Serve 0 junk, Serve 0 junk, Serve 0 junk] (set_up os) = Some ?s"
    by (simp add: set_up_def main_program_def new_node_def new_accesses_def work_step.simps wired_block_def
        setInputs_def setOutputs_def new_block_def inSize_def)
  then have "program_reachable hw os ?s" using program_run_reachable[OF set_up_reachable] by blast
  moreover have "program_step hw (Serve 0 junk) ?s = None"
    using assms l
    by (simp add: set_up_def main_program_def new_node_def new_accesses_def work_step.simps send_item_def
        wired_block_def setInputs_def setOutputs_def new_block_def accessible_def)
      (simp add: fresh_chunk_def DSize_def)
  ultimately show ?thesis by (intro exI[of _ ?s]) (simp add: new_node_def)
qed

lemma board_can_finish:
  assumes "bridge_mapped os"
  shows "\<exists>s. program_reachable all_twos os s \<and> collector s = Over"
proof -
  let ?base = "bridge_base os"
  let ?r = "(map (wired_block ?base) [0..<11])[0 := (wired_block ?base 0)\<lparr> state := Ready \<rparr>]"
  note s1 = set_up_reachable[of all_twos os]
  obtain s2 cs where "program_run all_twos (replicate (10 * inSize) (Main (\<lambda>_. 0))) (set_up os) = Some s2"
    and s2: "collector s2 = Checking 0 0" "blocks (node s2) = ?r" "outputs (node s2) = SafeQ []"
      "queue_of (inputs (node s2)) = cs" "length cs = 10 * inSize" "list_all (chunk_fits inputSize outputSize) cs"
    using push_run[of "set_up os" "10 * inSize" all_twos "\<lambda>_. 0"] by (auto simp: set_up_def main_program_def new_node_def)
  then have r2: "program_reachable all_twos os s2" using program_run_reachable[OF s1] by blast
  have run2: "runs all_twos (\<lambda>_. replicate (unat outputSize) 2) ?base s2"
    using reachable_ok[OF r2 assms] s2(1) by (auto simp: program_ok_def setting_up_def)
  have inq: "inputs (node s2) = SafeQ cs" using s2(4) by (cases "inputs (node s2)") simp
  let ?b = "(wired_block ?base 0)\<lparr> state := Ready, position := Marking \<rparr>"
  obtain k b' where k: "work_run (all_twos 0) (\<lambda>_. 0) k (?b, SafeQ cs, SafeQ []) =
      Some (b', SafeQ [], SafeQ (map (chunk_result (\<lambda>_. replicate (unat outputSize) 2) inputSize) cs))"
    using block_serves_all[of ?b "input_of ?base 0" inputSize "output_of ?base 0" outputSize "all_twos 0"
        "\<lambda>_. replicate (unat outputSize) 2" cs "\<lambda>_. 0"] s2(6) all_twos_right
    by (auto simp: wired_block_def setInputs_def setOutputs_def new_block_def list_all_iff)
  have "work_run (all_twos 0) (\<lambda>_. 0) (Suc k) (blocks (node s2) ! 0, inputs (node s2), outputs (node s2)) =
      Some (b', SafeQ [], SafeQ (map (chunk_result (\<lambda>_. replicate (unat outputSize) 2) inputSize) cs))"
    using k s2 inq by (simp add: work_step.simps wired_block_def setInputs_def setOutputs_def new_block_def)
  from serve_run[of all_twos 0 "\<lambda>_. 0" "Suc k" s2, OF this _ run2] s2 obtain s3 where
    "program_run all_twos (replicate (Suc k) (Serve 0 (\<lambda>_. 0))) s2 = Some s3" and
    s3: "collector s3 = Checking 0 0" "length (queue_of (outputs (node s3))) = 10 * inSize"
      "length (blocks (node s3)) = 11"
    by auto
  then have r3: "program_reachable all_twos os s3" using program_run_reachable[OF r2] by blast
  obtain es s4 where "program_run all_twos es s3 = Some s4" "collector s4 = Over"
    using collect_run[OF s3(1), of all_twos] s3 by (auto simp: inSize_def)
  with program_run_reachable[OF r3] show ?thesis by blast
qed

text \<open>A kernel that opens the device as descriptor 3 and maps what it is asked for.\<close>

definition demo_kernel :: kernel where
  "demo_kernel calls c = (case c of Open \<Rightarrow> 3 | Mmap len off \<Rightarrow> if off = HPSFPGA_OFST then 0x40000000 else 0xb6000000
     | Close d \<Rightarrow> 0)"

lemma demo_kernel_maps: "bridge_mapped demo_kernel" "bridge_base demo_kernel = 0x40000000"
proof -
  have ne: "\<not> (3 :: u32) <s 0" by (simp add: word_sless_alt)
  show b: "bridge_base demo_kernel = 0x40000000"
    using ne by (simp add: bridge_base_def initHps2Fpga_def no_bridges_def demo_kernel_def Let_def)
  have "bridge_window demo_kernel \<noteq> None"
    using ne by (simp add: bridge_window_None demo_kernel_def MAP_FAILED_def)
  then show "bridge_mapped demo_kernel" by (simp add: bridge_mapped_def mapped_def b pages_H2F)
qed

theorem board_program_right_witness:
  "\<exists>s. program_reachable all_twos demo_kernel s \<and> collector s = Over \<and>
    mset (popped (node s)) = results (\<lambda>_. replicate (unat outputSize) 2) inputSize (pushed (node s)) \<and>
    length (pushed (node s)) = 10000"
proof -
  obtain s where s: "program_reachable all_twos demo_kernel s" "collector s = Over"
    using board_can_finish[OF demo_kernel_maps(1)] by blast
  note r = board_program_right[OF s(1) demo_kernel_maps(1) all_twos_board, of "Collect False"]
  then have "map chunk_id (pushed (node s)) = map (\<lambda>k. of_nat (k mod inSize)) [0..<10 * inSize]" using s(2) by simp
  then have "length (pushed (node s)) = 10 * inSize" by (metis length_map length_upt diff_zero)
  with r s show ?thesis by (auto simp: inSize_def)
qed

theorem board_accesses_apart_witness:
  "\<exists>s. program_reachable all_twos demo_kernel s \<and> collector s = Over \<and>
    (\<forall>i < length (blocks (node s)). \<forall>a \<in> set (bus (blocks (node s) ! i)).
       inside (touched a) (0x40000000, 0x3bffffff))"
proof -
  obtain s where s: "program_reachable all_twos demo_kernel s" "collector s = Over"
    using board_can_finish[OF demo_kernel_maps(1)] by blast
  from board_accesses_apart[OF s(1) demo_kernel_maps(1)] s show ?thesis
    by (auto simp: demo_kernel_maps(2) H2F_RANGE_def HPSFPGA_OFST_def HPSFPGA_END_def)
qed

end
