(* ===== verification/Safe_Queue.thy ===== *)
theory Safe_Queue
  imports Pool
begin

text \<open>
  \<^verbatim>\<open>utils/include/safeQ.hpp\<close> at the grain of its accesses: any number of threads call the
  operations at once, the locked ones take the mutex and give it back, and every access to the
  \<open>std::queue\<close> inside is a step of its own.  The atomic operations of \<^theory_text>\<open>Pool\<close>, which \<^theory_text>\<open>Block\<close> is
  built on, are the specification.
\<close>

section \<open>Calls\<close>

datatype 'a call = Size | Is_empty | Pop | Push_item 'a | Unsafe_pop | Unsafe_push 'a

datatype 'a reply = Size_is nat | Empty_is bool | Got "'a option" | Pushed_item

text \<open>\<open>std::lock_guard\<close> is in \<open>size\<close>, \<open>pop\<close> and \<open>push\<close>, not in \<open>empty\<close> and the unsafe ones.\<close>

fun locks :: "'a call \<Rightarrow> bool" where
  "locks Size = True"
| "locks Pop = True"
| "locks (Push_item x) = True"
| "locks _ = False"

text \<open>
  Where a thread stands: outside, before the mutex, or before the access named; \<open>Leaving\<close> is
  the end of the scope, where the guard unlocks.  \<open>Crashed\<close>: \<open>front\<close> or \<open>pop\<close> of an empty
  \<open>std::queue\<close>.
\<close>

datatype 'a place =
    Outside
  | Acquiring "'a call"
  | At_size
  | At_empty "'a call"
  | At_front "'a call"
  | At_pop "'a call" 'a
  | At_push "'a call" 'a
  | Leaving "'a call" "'a reply"
  | Crashed

fun enter :: "'a call \<Rightarrow> 'a place" where
  "enter Size = At_size"
| "enter Is_empty = At_empty Is_empty"
| "enter Pop = At_empty Pop"
| "enter Unsafe_pop = At_empty Unsafe_pop"
| "enter (Push_item x) = At_push (Push_item x) x"
| "enter (Unsafe_push x) = At_push (Unsafe_push x) x"

section \<open>Threads\<close>

text \<open>
  \<open>effects\<close> records each call at the access that decides it, with the reply it will give.
\<close>

record ('a, 't) shared =
  queue :: "'a list"
  holder :: "'t option"
  at :: "'t \<Rightarrow> 'a place"
  effects :: "('t \<times> 'a call \<times> 'a reply) list"

definition go :: "'t \<Rightarrow> 'a place \<Rightarrow> ('a, 't) shared \<Rightarrow> ('a, 't) shared" where
  "go t pl s = s\<lparr> at := (at s)(t := pl) \<rparr>"

definition decide :: "'t \<Rightarrow> 'a call \<Rightarrow> 'a reply \<Rightarrow> ('a, 't) shared \<Rightarrow> ('a, 't) shared" where
  "decide t c r s = go t (Leaving c r) (s\<lparr> effects := effects s @ [(t, c, r)] \<rparr>)"

datatype ('a, 't) move = Invoke 't "'a call" | Step 't

fun safeq_step :: "('a, 't) move \<Rightarrow> ('a, 't) shared \<Rightarrow> ('a, 't) shared option" where
  "safeq_step (Invoke t c) s =
     (case at s t of
        Outside \<Rightarrow> Some (go t (if locks c then Acquiring c else enter c) s)
      | _ \<Rightarrow> None)"
| "safeq_step (Step t) s =
     (case at s t of
        Outside \<Rightarrow> None
      | Acquiring c \<Rightarrow> if holder s = None then Some (go t (enter c) (s\<lparr> holder := Some t \<rparr>)) else None
      | At_size \<Rightarrow> Some (decide t Size (Size_is (length (queue s))) s)
      | At_empty c \<Rightarrow>
          if c = Is_empty then Some (decide t c (Empty_is (queue s = [])) s)
          else if queue s = [] then Some (decide t c (Got None) s)
          else Some (go t (At_front c) s)
      | At_front c \<Rightarrow>
          (case queue s of [] \<Rightarrow> Some (go t Crashed s) | x # xs \<Rightarrow> Some (go t (At_pop c x) s))
      | At_pop c tmp \<Rightarrow>
          (case queue s of
             [] \<Rightarrow> Some (go t Crashed s)
           | x # xs \<Rightarrow> Some (decide t c (Got (Some tmp)) (s\<lparr> queue := xs \<rparr>)))
      | At_push c x \<Rightarrow> Some (decide t c Pushed_item (s\<lparr> queue := queue s @ [x] \<rparr>))
      | Leaving c r \<Rightarrow> Some (go t Outside (if locks c then s\<lparr> holder := None \<rparr> else s))
      | Crashed \<Rightarrow> None)"

definition new_safeq :: "'a list \<Rightarrow> ('a, 't) shared" where
  "new_safeq xs = \<lparr> queue = xs, holder = None, at = (\<lambda>_. Outside), effects = [] \<rparr>"

text \<open>
  The move constructor takes the content over and leaves in \<open>other\<close> what a moved-from
  \<open>std::queue\<close> holds (\<open>rest\<close>, which the standard does not say).  It locks the mutex of the
  object under construction, which no other thread can know.
\<close>

definition safeq_move :: "'a list \<Rightarrow> 'a safeq \<Rightarrow> 'a safeq \<times> 'a safeq" where
  "safeq_move rest other = (SafeQ (queue_of other), SafeQ rest)"

fun safeq_run :: "('a, 't) move list \<Rightarrow> ('a, 't) shared \<Rightarrow> ('a, 't) shared option" where
  "safeq_run [] s = Some s"
| "safeq_run (m # ms) s = Option.bind (safeq_step m s) (safeq_run ms)"

text \<open>The histories in which nobody calls the unsafe operations.\<close>

fun safe_move :: "('a, 't) move \<Rightarrow> bool" where
  "safe_move (Invoke t Unsafe_pop) = False"
| "safe_move (Invoke t (Unsafe_push x)) = False"
| "safe_move _ = True"

inductive safe_reachable :: "'a list \<Rightarrow> ('a, 't) shared \<Rightarrow> bool" for xs where
  start: "safe_reachable xs (new_safeq xs)"
| step: "safe_reachable xs s \<Longrightarrow> safe_move m \<Longrightarrow> safeq_step m s = Some s' \<Longrightarrow> safe_reachable xs s'"

section \<open>The atomic specification\<close>

text \<open>One call as a single step on the queue of \<^theory_text>\<open>Pool\<close>, and a sequence of them.\<close>

fun atomic :: "'a call \<Rightarrow> 'a safeq \<Rightarrow> 'a reply \<times> 'a safeq" where
  "atomic Size q = (Size_is (safeq_size q), q)"
| "atomic Is_empty q = (Empty_is (safeq_empty q), q)"
| "atomic Pop q = (case safeq_pop q of (r, q') \<Rightarrow> (Got r, q'))"
| "atomic Unsafe_pop q = (case safeq_pop q of (r, q') \<Rightarrow> (Got r, q'))"
| "atomic (Push_item x) q = (Pushed_item, safeq_push x q)"
| "atomic (Unsafe_push x) q = (Pushed_item, safeq_push x q)"

fun explains :: "('t \<times> 'a call \<times> 'a reply) list \<Rightarrow> 'a safeq \<Rightarrow> 'a safeq \<Rightarrow> bool" where
  "explains [] q q' \<longleftrightarrow> q = q'"
| "explains ((t, c, r) # es) q q' \<longleftrightarrow> fst (atomic c q) = r \<and> explains es (snd (atomic c q)) q'"

lemma explains_snoc [simp]:
  "explains (es @ [(t, c, r)]) q q' \<longleftrightarrow>
     (\<exists>q1. explains es q q1 \<and> atomic c q1 = (r, q'))"
  by (induction es arbitrary: q) (auto simp: prod_eq_iff)

section \<open>The lock\<close>

text \<open>Which threads are between lock and unlock, and what they know of the queue.\<close>

fun inside :: "'a place \<Rightarrow> bool" where
  "inside At_size = True"
| "inside (At_empty c) = locks c"
| "inside (At_front c) = locks c"
| "inside (At_pop c x) = locks c"
| "inside (At_push c x) = locks c"
| "inside (Leaving c r) = locks c"
| "inside _ = False"

fun knows :: "'a list \<Rightarrow> 'a place \<Rightarrow> bool" where
  "knows xs (Acquiring c) \<longleftrightarrow> locks c"
| "knows xs (At_empty c) \<longleftrightarrow> c = Pop \<or> c = Is_empty"
| "knows xs (At_front c) \<longleftrightarrow> c = Pop \<and> xs \<noteq> []"
| "knows xs (At_pop c x) \<longleftrightarrow> c = Pop \<and> xs \<noteq> [] \<and> hd xs = x"
| "knows xs (At_push c x) \<longleftrightarrow> c = Push_item x"
| "knows xs Crashed \<longleftrightarrow> False"
| "knows xs _ \<longleftrightarrow> True"

definition lock_ok :: "'a list \<Rightarrow> ('a, 't) shared \<Rightarrow> bool" where
  "lock_ok xs s \<longleftrightarrow>
     (\<forall>t. inside (at s t) \<longleftrightarrow> holder s = Some t) \<and> (\<forall>t. knows (queue s) (at s t)) \<and>
     explains (effects s) (SafeQ xs) (SafeQ (queue s))"

lemma lock_okI:
  assumes "\<And>t. inside (at s t) \<longleftrightarrow> holder s = Some t" and "\<And>t. knows (queue s) (at s t)"
    and "explains (effects s) (SafeQ xs) (SafeQ (queue s))"
  shows "lock_ok xs s"
  using assms by (simp add: lock_ok_def)

lemma lock_okD:
  assumes "lock_ok xs s"
  shows "inside (at s t) \<longleftrightarrow> holder s = Some t" and "knows (queue s) (at s t)"
    and "explains (effects s) (SafeQ xs) (SafeQ (queue s))"
  using assms by (simp_all add: lock_ok_def)

lemma knows_outside: "\<not> inside pl \<Longrightarrow> knows xs pl \<Longrightarrow> knows ys pl"
  by (cases pl) auto

text \<open>
  One thread moves to another place, with the mutex and the queue changed or not: what is
  left to show of the invariant.
\<close>

lemma move_ok:
  assumes ok: "lock_ok xs s"
    and h: "holder s' = (if inside pl then Some t else if inside (at s t) then None else holder s)"
    and free: "inside pl \<Longrightarrow> inside (at s t) \<or> holder s = None"
    and a: "at s' = (at s)(t := pl)" and k: "knows (queue s') pl"
    and e: "explains (effects s') (SafeQ xs) (SafeQ (queue s'))"
    and q: "queue s' = queue s \<or> inside (at s t)"
  shows "lock_ok xs s'"
proof (rule lock_okI[OF _ _ e])
  note in' = lock_okD(1)[OF ok] and kn = lock_okD(2)[OF ok]
  fix t'
  show "inside (at s' t') \<longleftrightarrow> holder s' = Some t'"
    using in'[of t'] in'[of t] free by (cases "t' = t") (auto simp: h a)
  show "knows (queue s') (at s' t')"
  proof (cases "t' = t")
    case False
    with q kn[of t'] in'[of t'] in'[of t] show ?thesis by (auto simp: a intro: knows_outside)
  qed (simp add: a k)
qed

lemma inside_enter: "inside (enter c) = locks c"
  by (cases c) simp_all

lemma knows_enter: "safe_move (Invoke t c) \<Longrightarrow> knows xs (enter c)"
  by (cases c) simp_all

lemma locks_safe: "locks c \<Longrightarrow> safe_move (Invoke t c)"
  by (cases c) simp_all

lemma not_locks: "\<not> locks c \<longleftrightarrow> c = Is_empty \<or> c = Unsafe_pop \<or> (\<exists>x. c = Unsafe_push x)"
  by (cases c) simp_all

lemma lock_step:
  assumes ok: "lock_ok xs s" and m: "safe_move m" and st: "safeq_step m s = Some s'"
  shows "lock_ok xs s'"
proof (cases m)
  case (Invoke t c)
  with st have o: "at s t = Outside" "s' = go t (if locks c then Acquiring c else enter c) s"
    by (auto split: place.splits)
  show ?thesis
    by (rule move_ok[OF ok, where t = t and pl = "if locks c then Acquiring c else enter c"])
       (use o m Invoke lock_okD(3)[OF ok] in \<open>auto simp: go_def inside_enter intro: knows_enter split: if_splits\<close>)
next
  case (Step t)
  note in' = lock_okD(1)[OF ok, of t] and kn = lock_okD(2)[OF ok, of t] and ex = lock_okD(3)[OF ok]
  show ?thesis
    by (rule move_ok[OF ok, where t = t and pl = "at s' t"]; cases "at s t")
       (use Step st in' kn ex in \<open>auto simp: go_def decide_def inside_enter not_locks neq_Nil_conv
          split: if_splits list.splits intro!: knows_enter[OF locks_safe] exI[of _ "SafeQ (queue s)"]\<close>)
qed

lemma safe_ok: "safe_reachable xs s \<Longrightarrow> lock_ok xs s"
proof (induction rule: safe_reachable.induct)
  case start
  show ?case by (simp add: new_safeq_def lock_ok_def)
qed (rule lock_step)

section \<open>Conflicts, replies and progress\<close>

text \<open>Two threads at accesses of which one writes: a data race.\<close>

fun writing :: "'a place \<Rightarrow> bool" where
  "writing (At_pop c x) = True"
| "writing (At_push c x) = True"
| "writing _ = False"

fun touching :: "'a place \<Rightarrow> bool" where
  "touching At_size = True"
| "touching (At_empty c) = True"
| "touching (At_front c) = True"
| "touching pl = writing pl"

definition conflict :: "('a, 't) shared \<Rightarrow> 't \<Rightarrow> 't \<Rightarrow> bool" where
  "conflict s t t' \<longleftrightarrow> t \<noteq> t' \<and> writing (at s t) \<and> touching (at s t')"

lemma conflict_empty:
  assumes "lock_ok xs s" and "conflict s t t'"
  shows "at s t' = At_empty Is_empty"
proof -
  have "inside (at s t)"
    using assms(2) lock_okD(2)[OF assms(1), of t] by (cases "at s t") (auto simp: conflict_def)
  moreover have "inside (at s t') \<or> at s t' = At_empty Is_empty"
    using assms(2) lock_okD(2)[OF assms(1), of t'] by (cases "at s t'") (auto simp: conflict_def)
  ultimately show ?thesis using lock_okD(1)[OF assms(1)] assms(2) by (metis conflict_def option.inject)
qed

text \<open>A call that returns gives the reply it was decided with.\<close>

definition decided :: "('a, 't) shared \<Rightarrow> bool" where
  "decided s \<longleftrightarrow> (\<forall>t c r. at s t = Leaving c r \<longrightarrow>
     (\<exists>es. filter (\<lambda>e. fst e = t) (effects s) = es @ [(t, c, r)]))"

lemma decided_go: "decided s \<Longrightarrow> (\<And>c r. pl \<noteq> Leaving c r) \<Longrightarrow> decided (go t pl s)"
  by (auto simp: decided_def go_def)

lemma decided_decide: "decided s \<Longrightarrow> decided (decide t c r s)"
  by (auto simp: decided_def decide_def go_def)

lemma decided_cong [simp]:
  "decided (s\<lparr> holder := h \<rparr>) = decided s" "decided (s\<lparr> queue := xs \<rparr>) = decided s"
  by (simp_all add: decided_def)

lemma enter_not_leaving: "enter c \<noteq> Leaving d r"
  by (cases c) simp_all

lemma decided_step: "decided s \<Longrightarrow> safeq_step m s = Some s' \<Longrightarrow> decided s'"
  by (cases m) (auto intro!: decided_go decided_decide simp: enter_not_leaving
      split: place.splits if_splits list.splits)

lemma safe_decided: "safe_reachable xs s \<Longrightarrow> decided s"
proof (induction rule: safe_reachable.induct)
  case start
  show ?case by (simp add: new_safeq_def decided_def)
qed (rule decided_step)

text \<open>Whenever a thread is in a call, some thread can go on.\<close>

lemma lock_progress:
  assumes "lock_ok xs s" and "at s t \<noteq> Outside"
  shows "\<exists>t'. safeq_step (Step t') s \<noteq> None"
proof (cases "\<exists>c u. at s t = Acquiring c \<and> holder s = Some u")
  case True
  then obtain u where u: "holder s = Some u" by blast
  then have "inside (at s u)" using lock_okD(1)[OF assms(1)] by blast
  then have "safeq_step (Step u) s \<noteq> None" by (cases "at s u") (auto split: list.split)
  then show ?thesis by blast
next
  case False
  then have "safeq_step (Step t) s \<noteq> None"
    using assms(2) lock_okD(2)[OF assms(1), of t] by (cases "at s t") (auto split: list.split)
  then show ?thesis by blast
qed

section \<open>Properties\<close>

text \<open>
  C12: however many threads call \<open>size\<close>, \<open>empty\<close>, \<open>pop\<close> and \<open>push\<close>, and however their accesses
  interleave, the calls can be put in one order, each at an instant between its invocation and
  its return, in which the atomic operations give every caller its reply and leave the queue
  as it is; nothing is popped from an empty \<open>std::queue\<close>, no two threads touch it in conflict
  except through \<open>empty\<close>, and there is no deadlock.
\<close>

theorem safeq_linearizable:
  assumes "safe_reachable xs s"
  shows "explains (effects s) (SafeQ xs) (SafeQ (queue s)) \<and>
    (\<forall>t c r. at s t = Leaving c r \<longrightarrow>
       (\<exists>es. filter (\<lambda>e. fst e = t) (effects s) = es @ [(t, c, r)])) \<and>
    (\<forall>t. at s t \<noteq> Crashed) \<and>
    (\<forall>t t'. conflict s t t' \<longrightarrow> at s t' = At_empty Is_empty) \<and>
    (\<forall>t. at s t \<noteq> Outside \<longrightarrow> (\<exists>t'. safeq_step (Step t') s \<noteq> None))"
proof -
  note ok = safe_ok[OF assms]
  have "at s t \<noteq> Crashed" for t using lock_okD(2)[OF ok, of t] by auto
  with lock_okD(3)[OF ok] safe_decided[OF assms] conflict_empty[OF ok] lock_progress[OF ok]
  show ?thesis unfolding decided_def by blast
qed

section \<open>Sample runs\<close>

lemma run_safe_reachable:
  "safe_reachable xs s \<Longrightarrow> list_all safe_move ms \<Longrightarrow> safeq_run ms s = Some s' \<Longrightarrow> safe_reachable xs s'"
  by (induction ms arbitrary: s) (auto simp: bind_eq_Some_conv intro: safe_reachable.step)

lemmas safeq_run_simps = new_safeq_def go_def decide_def

text \<open>A pop is under way when another thread asks to push: it waits, and both are explained.\<close>

theorem safeq_linearizable_witness:
  "\<exists>s. safeq_run [Invoke True Pop, Step True, Invoke False (Push_item 3), Step True, Step True, Step True,
       Step True, Step False, Step False, Step False] (new_safeq [1 :: nat, 2]) = Some s \<and>
     effects s = [(True, Pop, Got (Some 1)), (False, Push_item 3, Pushed_item)] \<and> queue s = [2, 3] \<and>
     explains (effects s) (SafeQ [1, 2]) (SafeQ (queue s))"
proof -
  let ?ms = "[Invoke True Pop, Step True, Invoke False (Push_item 3), Step True, Step True, Step True,
       Step True, Step False, Step False, Step False]"
  obtain s where s: "safeq_run ?ms (new_safeq [1 :: nat, 2]) = Some s"
      "effects s = [(True, Pop, Got (Some 1)), (False, Push_item 3, Pushed_item)]" "queue s = [2, 3]"
    by (simp add: safeq_run_simps)
  have "safe_reachable [1, 2] s" by (rule run_safe_reachable[OF safe_reachable.start _ s(1)]) simp
  with safeq_linearizable s show ?thesis by blast
qed

text \<open>\<open>empty\<close> takes no lock: it can look at the queue while another thread changes it.\<close>

lemma empty_races:
  "\<exists>s. safeq_run [Invoke True (Push_item x), Step True, Invoke False Is_empty] (new_safeq []) = Some s \<and>
     safe_reachable [] s \<and> conflict s True False"
proof -
  obtain s where s: "safeq_run [Invoke True (Push_item x), Step True, Invoke False Is_empty] (new_safeq []) = Some s"
      "conflict s True False"
    by (simp add: safeq_run_simps conflict_def)
  moreover have "safe_reachable [] s" by (rule run_safe_reachable[OF safe_reachable.start _ s(1)]) simp
  ultimately show ?thesis by blast
qed

text \<open>Two unsafe pops at once can return one item twice and lose another.\<close>

lemma unsafe_pop_duplicates:
  "\<exists>s. safeq_run [Invoke True Unsafe_pop, Invoke False Unsafe_pop, Step True, Step False, Step True, Step False,
       Step True, Step False] (new_safeq [x, y]) = Some s \<and>
     effects s = [(True, Unsafe_pop, Got (Some x)), (False, Unsafe_pop, Got (Some x))] \<and> queue s = []"
  by (simp add: safeq_run_simps)

end
