(* ===== verification/Benchmark.thy ===== *)
theory Benchmark
  imports Message_Print
begin

text \<open>
  The two clients that come with the server: a node, \<^verbatim>\<open>server/test_node.cpp\<close>, which answers every
  input with an output of the configured size, and a user, \<^verbatim>\<open>server/test_user.cpp\<close>, which sends
  inputs with a time stamp and checks what comes back.  Timers, clocks and statistics are left
  out; what is received and sent is an argument and a result.
\<close>

section \<open>The node\<close>

text \<open>
  \<open>config_received\<close>: the response it sends (\<open>ec\<close> is what the send answers) and whether the node
  goes on.
\<close>

definition benchmark_config :: "message \<Rightarrow> bool" where
  "benchmark_config cfg \<longleftrightarrow>
     \<not> (cfg_input_size cfg < cfg_output_size cfg \<or> cfg_input_size cfg < 16 \<or>
        cfg_num_blocks cfg \<noteq> 0 \<or> get_rbf_size cfg \<noteq> 4)"

definition config_received :: "message \<Rightarrow> error_code option \<Rightarrow> ConfigRespStatus \<times> bool" where
  "config_received cfg ec =
     (if \<not> benchmark_config cfg then (ERROR, False)
      else (SUCCESS, ec = None))"

text \<open>
  \<open>co_main\<close> up to the loop, from the answer to the first \<open>receive_message\<close>: \<open>Some cfg\<close> when the
  loop is entered.
\<close>

definition node_main ::
  "(error_code, message) sum \<Rightarrow> error_code option \<Rightarrow> message option" where
  "node_main first ec =
     (case first of
        Inl e \<Rightarrow> None
      | Inr cfg \<Rightarrow>
          if \<not> is_valid_config cfg then None
          else if snd (config_received cfg ec) then Some cfg else None)"

text \<open>
  A pass of \<open>processing_loop\<close>: the output has as many blocks as the input and its identifier,
  and gets the first eight bytes of data.  \<open>Faulted\<close>: a division by zero, or a read or a
  \<open>memcpy\<close> outside of a message.  \<open>Stop\<close>: the loop returns.
\<close>

datatype node_result = Reply message | Stop | Faulted

definition node_process :: "mem \<Rightarrow> message \<Rightarrow> message \<Rightarrow> node_result" where
  "node_process fresh cfg inp =
     (let input_size = cfg_input_size cfg; output_size = cfg_output_size cfg
      in case (is_valid_data_of inp input_size, get_data_block_count inp input_size) of
           (Some True, Some input_count) \<Rightarrow>
             (case read32 inp 8 of
                None \<Rightarrow> Faulted
              | Some ident \<Rightarrow>
                  let outp = new_data fresh output_size input_count ident
                  in case peek inp 12 8 of
                       None \<Rightarrow> Faulted
                     | Some bs \<Rightarrow>
                         if region_size outp < 12 + 8 then Faulted
                         else Reply (outp\<lparr> as_bytes := store_bytes (as_bytes outp) 12 bs \<rparr>))
         | (None, _) \<Rightarrow> Faulted
         | _ \<Rightarrow> Stop)"

section \<open>The user\<close>

text \<open>\<open>send_benchmarking_config\<close> and \<open>wait_response\<close>.\<close>

definition benchmarking_config :: "mem \<Rightarrow> u32 \<Rightarrow> u32 \<Rightarrow> u32 \<Rightarrow> message" where
  "benchmarking_config fresh input_size output_size processing_delay =
     new_config fresh [] input_size output_size (Some (store32 (\<lambda>_. 0) 0 processing_delay)) 4"

definition wait_response :: "(error_code, message) sum \<Rightarrow> error_code option" where
  "wait_response answer =
     (case answer of
        Inl ec \<Rightarrow> Some ec
      | Inr response \<Rightarrow>
          let ec = (if \<not> is_valid_config_resp response then Some Fault else None)
          in if resp_status response \<noteq> resp_code SUCCESS then Some Fault else ec)"

text \<open>
  The input of one round of \<open>sending_loop\<close> (\<open>stamp\<close>: the eight bytes of the time), and what
  \<open>receiving_loop\<close> finds in a result: the time stamp, or nothing if it gives up.
\<close>

definition sending_input :: "mem \<Rightarrow> u32 \<Rightarrow> byte list \<Rightarrow> message" where
  "sending_input fresh curr_id stamp =
     (let inp = new_data fresh (64 * 64 * 4 * 2) 1 curr_id
      in inp\<lparr> as_bytes := store_bytes (as_bytes inp) 12 stamp \<rparr>)"

definition receive_result :: "message \<Rightarrow> byte list option" where
  "receive_result result =
     (if \<not> is_valid_data result then None
      else if is_valid_data_of result (64 * 64 * 4) \<noteq> Some True then None
      else if get_data_block_count result (64 * 64 * 4) \<noteq> Some 1 then None
      else Some (bytes_at (as_bytes result) 12 8))"

section \<open>The node's answers\<close>

text \<open>What a message of data says: identifier, first eight bytes, number of blocks.\<close>

definition data_key :: "u32 \<Rightarrow> message \<Rightarrow> (u32 \<times> byte list \<times> u32) option" where
  "data_key block_size msg =
     (if 12 \<le> unat (payload_size msg)
      then Some (data_id msg, bytes_at (as_bytes msg) 12 8, get_data_size msg div block_size)
      else None)"

lemma bytes_at_region:
  assumes "bytes_at m a n = bytes_at m' a n" and "a \<le> p" and "p + k \<le> a + n"
  shows "bytes_at m p k = bytes_at m' p k"
proof (rule bytes_at_cong)
  fix i assume "i < k"
  with assms(2,3) have "bytes_at m a n ! (p + i - a) = m (p + i)" "bytes_at m' a n ! (p + i - a) = m' (p + i)"
    by simp_all
  with assms(1) show "m (p + i) = m' (p + i)" by simp
qed

lemma data_key_copy: "same_content m m' \<Longrightarrow> data_key b m = data_key b m'"
  using word_at_region[of "as_bytes m" 8 "unat (payload_size m)" "as_bytes m'" 8]
    bytes_at_region[of "as_bytes m" 8 "unat (payload_size m)" "as_bytes m'" 12 8]
  by (auto simp: data_key_def same_content_def data_id_def get_data_size_def)

text \<open>A received message: it was allocated for its payload.\<close>

definition well_allocated :: "message \<Rightarrow> bool" where
  "well_allocated msg \<longleftrightarrow> alloc_size msg = 16 + ucast (payload_size msg)"

lemma well_allocated_region:
  assumes "well_allocated msg"
  shows "region_size msg = 8 + unat (payload_size msg)"
proof -
  have "unat (payload_size msg) < 2 ^ 32" using unsigned_less[of "payload_size msg"] by simp
  with assms have "unat (alloc_size msg) = 16 + unat (payload_size msg)"
    by (simp add: well_allocated_def unat_word_ariths)
  then show ?thesis by (simp add: region_size_def)
qed

lemma fill_fields [simp]:
  "mtype (m\<lparr> as_bytes := store_bytes (as_bytes m) 12 bs \<rparr>) = mtype m"
  "payload_size (m\<lparr> as_bytes := store_bytes (as_bytes m) 12 bs \<rparr>) = payload_size m"
  "data_id (m\<lparr> as_bytes := store_bytes (as_bytes m) 12 bs \<rparr>) = data_id m"
  "get_data_size (m\<lparr> as_bytes := store_bytes (as_bytes m) 12 bs \<rparr>) = get_data_size m"
  by (simp_all add: accessor_defs get_data_size_def)

lemma fill_message [simp]:
  "is_valid_message (m\<lparr> as_bytes := store_bytes (as_bytes m) 12 bs \<rparr>) = is_valid_message m"
  "well_allocated (m\<lparr> as_bytes := store_bytes (as_bytes m) 12 bs \<rparr>) = well_allocated m"
  by (simp_all add: is_valid_message_def well_allocated_def has_valid_payload_size_def get_message_size_def)

lemma fill_valid [simp]:
  "is_valid_data (m\<lparr> as_bytes := store_bytes (as_bytes m) 12 bs \<rparr>) = is_valid_data m"
  "is_valid_data_of (m\<lparr> as_bytes := store_bytes (as_bytes m) 12 bs \<rparr>) n = is_valid_data_of m n"
  by (simp_all add: is_valid_data_def is_valid_data_of_def)

lemma new_data_allocated [simp]: "well_allocated (new_data fresh ds dc i)"
  by (simp add: well_allocated_def)

text \<open>The sizes of an output: it is never larger than its input.\<close>

lemma output_sizes:
  fixes isz osz d :: u32
  assumes "isz \<noteq> 0" and "osz \<le> isz" and "d mod isz = 0" and "unat d < 2 ^ 32 - 12"
  shows "4 + unat osz * unat (d div isz) < 2 ^ 32 - 8" and "unat osz * unat (d div isz) \<le> unat d"
    and "unat (4 + osz * (d div isz)) = 4 + unat osz * unat (d div isz)"
proof -
  have "unat d mod unat isz = 0" using assms(3) by (metis unat_0 unat_mod)
  then have "unat isz * unat (d div isz) = unat d"
    using mult_div_mod_eq[of "unat isz" "unat d"] by (simp add: unat_div)
  moreover have "unat osz * unat (d div isz) \<le> unat isz * unat (d div isz)"
    using assms(2) by (simp add: word_le_nat_alt)
  ultimately show le: "unat osz * unat (d div isz) \<le> unat d" by linarith
  with assms(4) show lt: "4 + unat osz * unat (d div isz) < 2 ^ 32 - 8" by linarith
  then have "unat (osz * (d div isz)) = unat osz * unat (d div isz)" by (simp add: unat_word_ariths)
  with lt show "unat (4 + osz * (d div isz)) = 4 + unat osz * unat (d div isz)"
    by (simp add: unat_word_ariths)
qed

lemma node_process_cases:
  assumes cfg: "benchmark_config cfg" and alloc: "well_allocated inp"
  defines "isz \<equiv> cfg_input_size cfg" and "osz \<equiv> cfg_output_size cfg"
  shows "node_process fresh cfg inp =
    (if is_valid_data_of inp isz \<noteq> Some True then Stop
     else if unat (payload_size inp) < 12 \<or> unat osz * unat (get_data_size inp div isz) < 8 then Faulted
     else Reply ((new_data fresh osz (get_data_size inp div isz) (data_id inp))
       \<lparr> as_bytes := store_bytes (as_bytes (new_data fresh osz (get_data_size inp div isz) (data_id inp))) 12
           (bytes_at (as_bytes inp) 12 8) \<rparr>))"
proof -
  have c: "osz \<le> isz" "isz \<noteq> 0"
    using cfg by (auto simp: benchmark_config_def isz_def osz_def)
  note r = well_allocated_region[OF alloc]
  show ?thesis
  proof (cases "is_valid_data_of inp isz = Some True")
    case False
    with c(2) show ?thesis
      by (auto simp: node_process_def Let_def isz_def [symmetric] is_valid_data_of_def get_data_block_count_def split: if_splits)
  next
    case True
    then have v: "is_valid_message inp" "get_data_size inp mod isz = 0"
      by (auto simp: is_valid_data_of_def split: if_splits)
    show ?thesis
    proof (cases "unat (payload_size inp) < 12")
      case small: True
      then have "peek inp 12 8 = None" using r peek_None[of inp 12 8] by simp
      with True small c(2) show ?thesis
        by (simp add: node_process_def Let_def isz_def [symmetric] get_data_block_count_def split: option.split)
    next
      case False
      have p: "unat (payload_size inp) < 2 ^ 32 - 8"
        using v(1) alloc_valid_iff alloc unfolding is_valid_message_def well_allocated_def by blast
      have "4 \<le> payload_size inp" using False by (simp add: word_le_nat_alt)
      then have "unat (get_data_size inp) = unat (payload_size inp) - 4"
        by (simp add: get_data_size_def unat_sub)
      then have "unat (get_data_size inp) < 2 ^ 32 - 12" using p False by linarith
      note o = output_sizes[OF c(2,1) v(2) this]
      let ?out = "new_data fresh osz (get_data_size inp div isz) (data_id inp)"
      have ro: "region_size ?out = 12 + unat osz * unat (get_data_size inp div isz)"
        using well_allocated_region[of ?out] o(3) by simp
      have "peek inp 12 8 = Some (bytes_at (as_bytes inp) 12 8)" "read32 inp 8 = Some (data_id inp)"
        using False r by (simp_all add: peek_def read32_def data_id_def)
      with True False c(2) show ?thesis
        by (simp add: node_process_def Let_def isz_def [symmetric] osz_def [symmetric] get_data_block_count_def ro)
    qed
  qed
qed

text \<open>What the node sends is a data message for its input: same key, accepted by the server.\<close>

lemma node_reply:
  assumes cfg: "benchmark_config cfg" and alloc: "well_allocated inp"
    and reply: "node_process fresh cfg inp = Reply outp"
  shows "is_valid_data_of outp (cfg_output_size cfg) = Some True" and "well_allocated outp"
    and "is_valid_data outp"
    and "data_key (cfg_output_size cfg) outp = data_key (cfg_input_size cfg) inp"
    and "data_key (cfg_input_size cfg) inp \<noteq> None"
proof -
  define isz osz where "isz = cfg_input_size cfg" and "osz = cfg_output_size cfg"
  let ?n = "get_data_size inp div isz"
  from node_process_cases[OF cfg alloc, of fresh] reply
  have h: "is_valid_data_of inp isz = Some True" "12 \<le> unat (payload_size inp)" "8 \<le> unat osz * unat ?n"
    and o: "outp = (new_data fresh osz ?n (data_id inp))\<lparr> as_bytes :=
        store_bytes (as_bytes (new_data fresh osz ?n (data_id inp))) 12 (bytes_at (as_bytes inp) 12 8) \<rparr>"
    by (auto simp: isz_def osz_def split: if_splits)
  have c: "osz \<le> isz" "isz \<noteq> 0"
    using cfg by (auto simp: benchmark_config_def isz_def osz_def)
  have v: "is_valid_message inp" "get_data_size inp mod isz = 0"
    using h(1) by (auto simp: is_valid_data_of_def split: if_splits)
  have p: "unat (payload_size inp) < 2 ^ 32 - 8"
    using v(1) alloc_valid_iff alloc unfolding is_valid_message_def well_allocated_def by blast
  have "4 \<le> payload_size inp" using h(2) by (simp add: word_le_nat_alt)
  then have "unat (get_data_size inp) = unat (payload_size inp) - 4" by (simp add: get_data_size_def unat_sub)
  then have d: "unat (get_data_size inp) < 2 ^ 32 - 12" using p h(2) by linarith
  note sz = output_sizes[OF c(2,1) v(2) d]
  have "osz \<noteq> 0" using h(3) by auto
  note db = data_blocks[OF sz(1) this, of fresh "data_id inp"]
  show "is_valid_data_of outp (cfg_output_size cfg) = Some True" using db by (simp add: o osz_def [symmetric])
  show "well_allocated outp" by (simp add: o)
  show "is_valid_data outp"
    using db by (auto simp: o is_valid_data_of_def is_valid_data_def split: if_splits)
  have "get_data_size outp div osz = ?n"
    using db by (simp add: o get_data_block_count_def split: if_splits)
  moreover have "bytes_at (as_bytes outp) 12 8 = bytes_at (as_bytes inp) 12 8"
    using bytes_at_store_bytes[of _ 12 "bytes_at (as_bytes inp) 12 8"] by (simp add: o)
  moreover have "12 \<le> unat (payload_size outp)" using sz(3) h(3) by (simp add: o)
  ultimately show "data_key (cfg_output_size cfg) outp = data_key (cfg_input_size cfg) inp"
    using h(2) by (simp add: data_key_def isz_def [symmetric] osz_def [symmetric]) (simp add: o)
  show "data_key (cfg_input_size cfg) inp \<noteq> None" using h(2) by (simp add: data_key_def)
qed

text \<open>
  C32: for a configuration the node has accepted and an input as \<open>receive_message\<close> delivers it:
  an input of another size stops the loop; otherwise the node answers exactly if
  the input has at least eight bytes of data and the output at least eight, and then
  with a valid data message that the server's check takes, with the input's identifier, first
  eight bytes and number of blocks.  (In the remaining cases \<open>memcpy\<close> leaves a message.)
\<close>

theorem node_answers:
  assumes "benchmark_config cfg" and "well_allocated inp"
  shows "(node_process fresh cfg inp = Stop \<longleftrightarrow> is_valid_data_of inp (cfg_input_size cfg) \<noteq> Some True) \<and>
    ((\<exists>outp. node_process fresh cfg inp = Reply outp) \<longleftrightarrow>
       is_valid_data_of inp (cfg_input_size cfg) = Some True \<and> 12 \<le> unat (payload_size inp) \<and>
       8 \<le> unat (cfg_output_size cfg) * unat (get_data_size inp div cfg_input_size cfg)) \<and>
    (\<forall>outp. node_process fresh cfg inp = Reply outp \<longrightarrow>
       is_valid_data outp \<and> is_valid_data_of outp (cfg_output_size cfg) = Some True \<and>
       data_key (cfg_output_size cfg) outp =
         Some (data_id inp, bytes_at (as_bytes inp) 12 8, get_data_size inp div cfg_input_size cfg))"
proof -
  have key: "data_key (cfg_output_size cfg) outp =
         Some (data_id inp, bytes_at (as_bytes inp) 12 8, get_data_size inp div cfg_input_size cfg)"
    if "node_process fresh cfg inp = Reply outp" for outp
    using node_reply(4,5)[OF assms that] by (simp add: data_key_def split: if_splits)
  show ?thesis
  proof (intro conjI allI impI)
    show "node_process fresh cfg inp = Stop \<longleftrightarrow> is_valid_data_of inp (cfg_input_size cfg) \<noteq> Some True"
      unfolding node_process_cases[OF assms, of fresh] by simp
    show "(\<exists>outp. node_process fresh cfg inp = Reply outp) \<longleftrightarrow>
       is_valid_data_of inp (cfg_input_size cfg) = Some True \<and> 12 \<le> unat (payload_size inp) \<and>
       8 \<le> unat (cfg_output_size cfg) * unat (get_data_size inp div cfg_input_size cfg)"
      unfolding node_process_cases[OF assms, of fresh] by (simp add: not_less)
  qed (use node_reply(1,3)[OF assms] key in blast)+
qed

section \<open>A round of the benchmark\<close>

lemma valid_copy:
  assumes "same_content m m'" and "well_allocated m" and "well_allocated m'"
  shows "is_valid_message m' = is_valid_message m"
  using assms by (simp add: same_content_def well_allocated_def is_valid_message_def
      has_valid_payload_size_def get_message_size_def)

lemma data_copy:
  assumes "same_content m m'" and "well_allocated m" and "well_allocated m'"
  shows "is_valid_data m' = is_valid_data m" and "is_valid_data_of m' n = is_valid_data_of m n"
    and "get_data_block_count m' n = get_data_block_count m n"
  using assms valid_copy[OF assms]
  by (simp_all add: same_content_def is_valid_data_def is_valid_data_of_def get_data_block_count_def get_data_size_def)

lemma config_copy:
  assumes c: "same_content m m'" and "well_allocated m" and "well_allocated m'" and "is_valid_config m"
  shows "is_valid_config m'" and "cfg_input_size m' = cfg_input_size m"
    and "cfg_output_size m' = cfg_output_size m" and "cfg_num_blocks m' = cfg_num_blocks m"
    and "get_rbf_size m' = get_rbf_size m"
proof -
  have p: "12 \<le> unat (payload_size m)" using valid_config_bounds(1)[OF assms(4)] by simp
  have b: "bytes_at (as_bytes m) 8 (unat (payload_size m)) = bytes_at (as_bytes m') 8 (unat (payload_size m))"
    using c by (auto simp: same_content_def)
  show f: "cfg_input_size m' = cfg_input_size m" "cfg_output_size m' = cfg_output_size m"
    "cfg_num_blocks m' = cfg_num_blocks m"
    using word_at_region[OF b, of 8] word_at_region[OF b, of 12] word_at_region[OF b, of 16] p
    by (simp_all add: cfg_input_size_def cfg_output_size_def cfg_num_blocks_def)
  show "is_valid_config m'"
    using assms(4) c f(3) valid_copy[OF assms(1-3)] by (simp add: is_valid_config_def same_content_def)
  show "get_rbf_size m' = get_rbf_size m"
    using c f(3) by (simp add: get_rbf_size_def get_rbf_offset_def same_content_def)
qed

lemma benchmarking_config_fields:
  defines "cfg \<equiv> \<lambda>fresh delay. benchmarking_config fresh (64 * 64 * 4 * 2) (64 * 64 * 4) delay"
  shows "is_valid_config (cfg fresh delay)" and "well_allocated (cfg fresh delay)"
    and "cfg_input_size (cfg fresh delay) = 64 * 64 * 4 * 2" and "cfg_output_size (cfg fresh delay) = 64 * 64 * 4"
    and "cfg_num_blocks (cfg fresh delay) = 0" and "get_rbf_size (cfg fresh delay) = 4"
    and "benchmark_config (cfg fresh delay)"
proof -
  let ?rbf = "store32 (\<lambda>_. 0) 0 delay"
  note f = new_config_fields[where bs = "[]" and rs = 4 and fresh = fresh and isz = "64 * 64 * 4 * 2"
    and osz = "64 * 64 * 4" and rbf = ?rbf, simplified]
  show "is_valid_config (cfg fresh delay)" "cfg_input_size (cfg fresh delay) = 64 * 64 * 4 * 2"
    "cfg_output_size (cfg fresh delay) = 64 * 64 * 4" "get_rbf_size (cfg fresh delay) = 4"
    using config_roundtrip[of "[]" 4 fresh "64 * 64 * 4 * 2" "64 * 64 * 4" ?rbf]
    by (simp_all add: cfg_def benchmarking_config_def Let_def)
  moreover show "cfg_num_blocks (cfg fresh delay) = 0" "well_allocated (cfg fresh delay)"
    using f by (simp_all add: cfg_def benchmarking_config_def well_allocated_def unat_eq_zero)
  ultimately show "benchmark_config (cfg fresh delay)" by (simp add: benchmark_config_def)
qed

lemma sending_input_fields:
  "is_valid_data_of (sending_input fresh i stamp) (64 * 64 * 4 * 2) = Some True"
  "well_allocated (sending_input fresh i stamp)"
  "unat (payload_size (sending_input fresh i stamp)) = 32772"
  "get_data_size (sending_input fresh i stamp) = 32768"
  "data_id (sending_input fresh i stamp) = i"
  "length stamp = 8 \<Longrightarrow> bytes_at (as_bytes (sending_input fresh i stamp)) 12 8 = stamp"
  using data_blocks[of "64 * 64 * 4 * 2" 1 fresh i] bytes_at_store_bytes[of _ 12 stamp]
  by (auto simp: sending_input_def Let_def get_data_size_def)

lemma clients_agree:
  assumes "same_content (benchmarking_config fresh_cfg (64 * 64 * 4 * 2) (64 * 64 * 4) delay) cfg"
    and "well_allocated cfg"
    and "same_content (sending_input fresh_inp i stamp) inp" and "well_allocated inp" and "length stamp = 8"
  shows "node_main (Inr cfg) None = Some cfg \<and>
    (\<exists>outp. node_process fresh cfg inp = Reply outp \<and>
      (\<forall>result. same_content outp result \<and> well_allocated result \<longrightarrow>
         receive_result result = Some stamp \<and> data_id result = i))"
proof -
  note b = benchmarking_config_fields[where fresh = fresh_cfg and delay = delay]
  note c = config_copy[OF assms(1) b(2) assms(2) b(1)]
  have bc: "benchmark_config cfg" using b(3-7) c by (simp add: benchmark_config_def)
  note s = sending_input_fields[where fresh = fresh_inp and i = i and stamp = stamp]
  have key: "data_key (64 * 64 * 4 * 2) inp = Some (i, stamp, 1)"
    unfolding data_key_copy[OF assms(3), symmetric] using s assms(5) by (simp add: data_key_def)
  have "is_valid_data_of inp (cfg_input_size cfg) = Some True"
    using data_copy(2)[OF assms(3) s(2) assms(4)] s(1) b(3) c(2) by simp
  moreover have "unat (payload_size inp) = 32772" "get_data_size inp = 32768"
    using assms(3) s(3,4) by (auto simp: same_content_def get_data_size_def)
  ultimately obtain outp where o: "node_process fresh cfg inp = Reply outp"
    using node_process_cases[OF bc assms(4), of fresh] b(3,4) c(2,3) by auto
  note r = node_reply[OF bc assms(4) o]
  have key': "data_key (64 * 64 * 4) outp = Some (i, stamp, 1)" using r(4) key b(3,4) c(2,3) by simp
  have "receive_result result = Some stamp \<and> data_id result = i"
    if "same_content outp result" "well_allocated result" for result
  proof -
    have k: "data_key (64 * 64 * 4) result = Some (i, stamp, 1)"
      using data_key_copy[OF that(1)] key' by simp
    note d = data_copy[OF that(1) r(2) that(2)]
    have "is_valid_data result" "is_valid_data_of result (64 * 64 * 4) = Some True"
      using d(1,2) r(1,3) b(4) c(3) by simp_all
    moreover have "get_data_block_count result (64 * 64 * 4) = Some 1"
      using k by (simp add: data_key_def get_data_block_count_def split: if_splits)
    ultimately show ?thesis using k by (simp add: receive_result_def data_key_def split: if_splits)
  qed
  with o bc c(1) show ?thesis by (auto simp: node_main_def config_received_def)
qed

text \<open>
  C14: the two clients agree.  Whatever the identifier, the time stamp, the delay and the
  unset bytes, and however often the messages are received and sent on in between: the node accepts the
  user's configuration, answers every input of the user, and the user finds in the answer the
  time stamp and the identifier it had sent.
\<close>

theorem benchmark_round:
  assumes "same_content (benchmarking_config fresh_cfg (64 * 64 * 4 * 2) (64 * 64 * 4) delay) cfg"
    and "well_allocated cfg"
    and "same_content (sending_input fresh_inp i stamp) inp" and "well_allocated inp" and "length stamp = 8"
  shows "node_main (Inr cfg) None = Some cfg \<and>
    (\<exists>outp. node_process fresh cfg inp = Reply outp \<and>
      (\<forall>result. same_content outp result \<and> well_allocated result \<longrightarrow>
         receive_result result = Some stamp \<and> data_id result = i))"
  by (rule clients_agree[OF assms])

theorem benchmark_round_witness:
  "\<exists>outp. node_process (\<lambda>_. 1) (benchmarking_config (\<lambda>_. 2) (64 * 64 * 4 * 2) (64 * 64 * 4) 919)
     (sending_input (\<lambda>_. 3) 17 [1, 2, 3, 4, 5, 6, 7, 8]) = Reply outp \<and>
     receive_result outp = Some [1, 2, 3, 4, 5, 6, 7, 8]"
proof -
  let ?cfg = "benchmarking_config (\<lambda>_. 2) (64 * 64 * 4 * 2) (64 * 64 * 4) 919"
  let ?inp = "sending_input (\<lambda>_. 3) 17 [1, 2, 3, 4, 5, 6, 7, 8]"
  have copy: "same_content m m" for m by (simp add: same_content_def)
  obtain outp where o: "node_process (\<lambda>_. 1) ?cfg ?inp = Reply outp"
    "\<forall>result. same_content outp result \<and> well_allocated result \<longrightarrow>
       receive_result result = Some [1, 2, 3, 4, 5, 6, 7, 8] \<and> data_id result = 17"
    using benchmark_round[OF copy benchmarking_config_fields(2) copy sending_input_fields(2),
        where stamp = "[1, 2, 3, 4, 5, 6, 7, 8]" and delay = 919 and fresh = "\<lambda>_. 1" and fresh_cfg = "\<lambda>_. 2"
          and fresh_inp = "\<lambda>_. 3" and i = 17] by auto
  have "well_allocated outp"
    using node_reply(2)[OF benchmarking_config_fields(7) sending_input_fields(2) o(1)] .
  with o copy show ?thesis by blast
qed

theorem node_answers_witness:
  "node_process (\<lambda>_. 1) (benchmarking_config (\<lambda>_. 2) (64 * 64 * 4 * 2) (64 * 64 * 4) 919) demo_resp = Stop \<and>
   (\<exists>outp. node_process (\<lambda>_. 1) (benchmarking_config (\<lambda>_. 2) (64 * 64 * 4 * 2) (64 * 64 * 4) 919)
       (sending_input (\<lambda>_. 3) 17 [1, 2, 3, 4, 5, 6, 7, 8]) = Reply outp \<and>
     is_valid_data_of outp (64 * 64 * 4) = Some True \<and>
     data_key (64 * 64 * 4) outp = Some (17, [1, 2, 3, 4, 5, 6, 7, 8], 1))"
proof -
  let ?cfg = "benchmarking_config (\<lambda>_. 2) (64 * 64 * 4 * 2) (64 * 64 * 4) 919"
  let ?inp = "sending_input (\<lambda>_. 3) 17 [1, 2, 3, 4, 5, 6, 7, 8]"
  note b = benchmarking_config_fields[where fresh = "\<lambda>_. 2" and delay = 919]
  note s = sending_input_fields[where fresh = "\<lambda>_. 3" and i = 17 and stamp = "[1, 2, 3, 4, 5, 6, 7, 8]"]
  have "well_allocated demo_resp" by (simp add: demo_resp_def well_allocated_def)
  from node_answers[OF b(7) this, of "\<lambda>_. 1"] have stop: "node_process (\<lambda>_. 1) ?cfg demo_resp = Stop"
    by (auto simp: is_valid_data_of_def demo_resp_def)
  note n = node_answers[OF b(7) s(2), of "\<lambda>_. 1", unfolded b(3,4)]
  have sz: "get_data_size ?inp = 64 * 64 * 4 * 2" using s(4) by simp
  moreover have "12 \<le> unat (payload_size ?inp)" using s(3) by simp
  ultimately obtain outp where "node_process (\<lambda>_. 1) ?cfg ?inp = Reply outp"
    using n s(1) by auto
  with n stop s(5,6) sz show ?thesis by auto
qed

end
