(* ===== verification/Benchmark_Loops.thy ===== *)
theory Benchmark_Loops
  imports Benchmark
begin

text \<open>
  The two loops of \<^verbatim>\<open>server/test_user.cpp\<close>, \<open>sending_loop\<close> and \<open>receiving_loop\<close>, which run side by
  side on one connection until the time is over and every result has come: when does the
  round end?  The clock answers at each test whether the time is over; the times
  themselves and what is printed are left out.
\<close>

section \<open>The loops\<close>

text \<open>
  The sender waits for its timer, then for the write; between the last byte written and the
  resumption of the coroutine the peer can already answer.
\<close>

datatype sender = Pausing | Writing | Resuming | Stopped_sending | Send_failed

datatype receiver = Receiving | All_received | Gave_up

text \<open>
  \<open>due\<close> counts the inputs written whose result has not been received; \<open>overtaken\<close> records that
  none was due when the sender stopped: the last result was received before the sender was resumed.
\<close>

record loops =
  sender :: sender
  receiver :: receiver
  messages_sent :: nat
  messages_received :: nat
  sending_done :: bool
  curr_id :: u32
  due :: nat
  overtaken :: bool

datatype loop_event =
    Timer
  | Written
  | Write_failed
  | Resumed bool
  | Received "(error_code, message) sum"

text \<open>
  The end of a round of \<open>receiving_loop\<close>: its test, which stands at the head of the loop, and
  the reset of the two shared variables after it.
\<close>

definition next_round :: "loops \<Rightarrow> loops" where
  "next_round s =
     (if sending_done s \<and> messages_sent s \<le> messages_received s
      then s\<lparr> receiver := All_received, messages_sent := 0, sending_done := False \<rparr> else s)"

definition loops_step :: "loop_event \<Rightarrow> loops \<Rightarrow> loops option" where
  "loops_step e s =
     (case e of
        Timer \<Rightarrow> if sender s = Pausing then Some (s\<lparr> sender := Writing \<rparr>) else None
      | Written \<Rightarrow>
          if sender s = Writing then Some (s\<lparr> sender := Resuming, due := Suc (due s) \<rparr>) else None
      | Write_failed \<Rightarrow> if sender s = Writing then Some (s\<lparr> sender := Send_failed \<rparr>) else None
      | Resumed over \<Rightarrow>
          if sender s \<noteq> Resuming then None
          else let s = s\<lparr> messages_sent := Suc (messages_sent s), curr_id := curr_id s + 1 \<rparr> in
            Some (if over
                  then s\<lparr> sender := Stopped_sending, sending_done := True, overtaken := (due s = 0) \<rparr>
                  else s\<lparr> sender := Pausing \<rparr>)
      | Received answer \<Rightarrow>
          if receiver s \<noteq> Receiving then None
          else case answer of
              Inl ec \<Rightarrow> Some (s\<lparr> receiver := Gave_up \<rparr>)
            | Inr result \<Rightarrow>
                if due s = 0 then None
                else if receive_result result = None then Some (s\<lparr> receiver := Gave_up \<rparr>)
                else Some (next_round (s\<lparr> messages_received := Suc (messages_received s), due := due s - 1 \<rparr>)))"

definition both_loops :: loops where
  "both_loops = \<lparr> sender = Pausing, receiver = Receiving, messages_sent = 0, messages_received = 0,
     sending_done = False, curr_id = 0, due = 0, overtaken = False \<rparr>"

inductive loops_reachable :: "loops \<Rightarrow> bool" where
  start: "loops_reachable (next_round both_loops)"
| step: "loops_reachable s \<Longrightarrow> loops_step e s = Some s' \<Longrightarrow> loops_reachable s'"

section \<open>When a round ends\<close>

definition round_ok :: "loops \<Rightarrow> bool" where
  "round_ok s \<longleftrightarrow>
     (receiver s = Receiving \<longrightarrow>
        messages_received s + due s = messages_sent s + (if sender s = Resuming then 1 else 0) \<and>
        (sending_done s \<longleftrightarrow> sender s = Stopped_sending) \<and>
        (sender s = Stopped_sending \<longrightarrow> (overtaken s \<longleftrightarrow> due s = 0))) \<and>
     (receiver s = All_received \<longrightarrow> sender s = Stopped_sending \<and> due s = 0 \<and> \<not> overtaken s)"

lemma round_ok_step: "round_ok s \<Longrightarrow> loops_step e s = Some s' \<Longrightarrow> round_ok s'"
  by (cases e; cases "sender s"; cases "receiver s")
    (auto simp: round_ok_def loops_step_def next_round_def Let_def split: if_splits sum.splits)

lemma reachable_round: "loops_reachable s \<Longrightarrow> round_ok s"
proof (induction rule: loops_reachable.induct)
  case start
  show ?case by (simp add: round_ok_def next_round_def both_loops_def)
qed (rule round_ok_step)

text \<open>
  Unless an error ends it: when the sender has stopped and every input has been answered, the
  receiver has ended too, except when the last result overtook the sender's resumption; then it waits
  for a result that nobody owes.
\<close>

lemma round_ends_unless_overtaken:
  assumes "loops_reachable s" and "sender s = Stopped_sending" and "due s = 0" and "receiver s \<noteq> Gave_up"
  shows "receiver s = All_received \<longleftrightarrow> \<not> overtaken s"
  using reachable_round[OF assms(1)] assms(2-4) by (cases "receiver s") (auto simp: round_ok_def)

lemma overtaken_waits:
  assumes "loops_reachable s" and "overtaken s" and "sender s = Stopped_sending" and "receiver s = Receiving"
    and "loops_step e s = Some s'"
  shows "\<exists>ec. e = Received (Inl ec)"
  using reachable_round[OF assms(1)] assms(2-5)
  by (cases e) (auto simp: round_ok_def loops_step_def split: if_splits sum.splits)

text \<open>Both happen, with the answer to the very first input.\<close>

lemma round_can_hang:
  assumes "receive_result result \<noteq> None"
  shows "\<exists>s. loops_reachable s \<and> sender s = Stopped_sending \<and> receiver s = Receiving \<and> overtaken s"
    and "\<exists>s. loops_reachable s \<and> sender s = Stopped_sending \<and> receiver s = All_received"
proof -
  define run where "run es = fold (\<lambda>e os. Option.bind os (loops_step e)) es (Some (next_round both_loops))" for es
  have reach: "run es = Some s \<Longrightarrow> loops_reachable s" for es s
    by (induction es arbitrary: s rule: rev_induct)
      (auto simp: run_def bind_eq_Some_conv intro: loops_reachable.intros)
  note ev = run_def loops_step_def next_round_def both_loops_def assms
  obtain s where s: "run [Timer, Written, Received (Inr result), Resumed True] = Some s" and
    "sender s = Stopped_sending \<and> receiver s = Receiving \<and> overtaken s"
    using assms by (auto simp: ev)
  with reach[OF s] show "\<exists>s. loops_reachable s \<and> sender s = Stopped_sending \<and> receiver s = Receiving \<and> overtaken s"
    by blast
  obtain s where s: "run [Timer, Written, Resumed True, Received (Inr result)] = Some s" and
    "sender s = Stopped_sending \<and> receiver s = All_received"
    using assms by (auto simp: ev)
  with reach[OF s] show "\<exists>s. loops_reachable s \<and> sender s = Stopped_sending \<and> receiver s = All_received"
    by blast
qed

end
