(* ===== verification/User.thy ===== *)
theory User
  imports Connection Pool
begin

text \<open>
  A user session, \<^verbatim>\<open>server/User_Queue.hpp\<close> and its variant \<^verbatim>\<open>server/User_Stack.hpp\<close>.  The
  session is a set of coroutines on one thread (the main loop, one receiver loop per node,
  one sender per input under way) that interleave only at their suspension points; each
  handler below is the code between two of them.  What an awaited operation answers
  (a received message or an error code, the result of a send) is the event's argument.

  The two variants differ in where a node is pushed back (\<open>push\<close>: \<open>queue_push\<close> or
  \<open>stack_push\<close>) and in what the main loop does with a message that is neither input nor
  configuration (\<open>strict\<close>: the queue variant ends the session, the stack variant reads on).
\<close>

section \<open>State\<close>

text \<open>Who waits in \<open>_dispatch_input\<close>: the main loop, or a sender that lost its node.\<close>

datatype owner = Main_loop | Sender

type_synonym job = "owner \<times> message"

datatype main_state =
    Reading
  | Dispatching
  | Draining_data
  | Draining_loops
  | Finished bool
  | Crashed

datatype loop_state = Receiving | Relaying message

record 'n user =
  config :: message
  nodes :: "('n, job) ready"
  data_counter :: u32
  node_receiver_counter :: u32
  main :: main_state
  sending :: "('n \<times> message) list"
  loops :: "('n \<times> loop_state) list"
  accepted :: "message list"
  delivered :: "('n \<times> message) list"
  relayed :: "message list"

text \<open>
  \<open>sending\<close> are the inputs being written and their nodes, \<open>loops\<close> the receiver loops that run.
  The last three fields record what happened: inputs accepted from the user, inputs
  completely written to a node, results completely written to the user.
\<close>

section \<open>Start and configuration\<close>

text \<open>
  \<open>_configure_node\<close>, from the answers of its two awaited operations: the send of the
  configuration, and the receive of the response.
\<close>

definition configure_node ::
  "error_code option \<Rightarrow> (error_code, message) sum \<Rightarrow> error_code option" where
  "configure_node send_ec response =
     (if send_ec \<noteq> None then send_ec
      else case response of
        Inl ec \<Rightarrow> Some ec
      | Inr msg \<Rightarrow>
          (let ec = (if \<not> is_valid_config_resp msg then Some Fault else None)
           in if resp_status msg \<noteq> resp_code SUCCESS then Some Fault else ec))"

text \<open>
  \<open>_configure_nodes\<close>: the pool is emptied into one \<open>_configure_node\<close> coroutine per node; as they
  complete, in whatever order (\<open>completions\<close>), the configured nodes are pushed back.  The
  counter is incremented once per node and decremented once per completion; its first value
  \<open>counter0\<close> is not set by the source.  \<open>None\<close>: the wait for zero never ends.
\<close>

definition configure_nodes ::
  "('n \<Rightarrow> ('n, job) ready \<Rightarrow> ('n, job) ready) \<Rightarrow> u32 \<Rightarrow> ('n \<times> error_code option) list \<Rightarrow>
   ('n, job) ready \<Rightarrow> ('n, job) ready option" where
  "configure_nodes push counter0 completions pool =
     (case drain_pool pool of (popped, pool1) \<Rightarrow>
        let counter1 = (counter_incr ^^ length popped) counter0;
            pool2 = fold (\<lambda>(n, ec) p. if ec = None then push n p else p) completions pool1;
            counter2 = (counter_decr ^^ length completions) counter1
        in if zero_reached counter2 then Some pool2 else None)"

text \<open>The first part of \<open>_main_loop\<close>: one receiver loop per node, every node back in the pool.\<close>

definition start_loops ::
  "('n \<Rightarrow> ('n, job) ready \<Rightarrow> ('n, job) ready) \<Rightarrow> 'n user \<Rightarrow> 'n user" where
  "start_loops push u =
     (case drain_pool (nodes u) of (nodes_tmp, pool) \<Rightarrow>
        u\<lparr> nodes := fold push nodes_tmp pool,
           loops := map (\<lambda>n. (n, Receiving)) nodes_tmp,
           node_receiver_counter := (counter_incr ^^ length nodes_tmp) (node_receiver_counter u) \<rparr>)"

text \<open>
  \<open>start\<close> up to the main loop, after the first message was printed (which comes first in the code
  and can read outside of the message: \<open>session_start\<close> in \<^theory_text>\<open>Server\<close>): the message must be a valid configuration, every node is
  configured, the response reaches the user.  \<open>Inl False\<close>: the session ended before the main
  loop; \<open>Inl True\<close>: it waits for ever in the configuration phase.
  \<open>completions\<close> are the nodes that ever answer, some may not.  \<open>counter0\<close>, \<open>data0\<close> and
  \<open>receiver0\<close> are the unset first values of the three counters.
\<close>

definition start ::
  "('n \<Rightarrow> ('n, job) ready \<Rightarrow> ('n, job) ready) \<Rightarrow> u32 \<Rightarrow> u32 \<Rightarrow> u32 \<Rightarrow> 'n list \<Rightarrow>
   (error_code, message) sum \<Rightarrow> ('n \<times> error_code option) list \<Rightarrow> error_code option \<Rightarrow>
   (bool, 'n user) sum" where
  "start push counter0 data0 receiver0 connections first completions response_ec =
     (case first of
        Inl ec \<Rightarrow> Inl False
      | Inr first_config \<Rightarrow>
          if \<not> is_valid_config first_config then Inl False
          else (case configure_nodes push counter0 completions (fold push connections empty_pool) of
             None \<Rightarrow> Inl True
           | Some pool \<Rightarrow>
               if response_ec \<noteq> None then Inl False
               else Inr (start_loops push
                      \<lparr> config = first_config, nodes = pool, data_counter = data0,
                        node_receiver_counter = receiver0, main = Reading, sending = [], loops = [],
                        accepted = [], delivered = [], relayed = [] \<rparr>)))"

section \<open>Handlers of the main phase\<close>

text \<open>
  \<open>_dispatch_input\<close>: a node is popped, now or once one is pushed, and a sender is spawned
  for it.  The main loop waits for its own dispatch.
\<close>

definition spawn_sender :: "owner \<Rightarrow> 'n \<Rightarrow> message \<Rightarrow> 'n user \<Rightarrow> 'n user" where
  "spawn_sender who n msg u =
     u\<lparr> sending := sending u @ [(n, msg)], main := (if who = Main_loop then Reading else main u) \<rparr>"

definition dispatch_input :: "owner \<Rightarrow> message \<Rightarrow> 'n user \<Rightarrow> 'n user" where
  "dispatch_input who msg u =
     (case async_pop (who, msg) (nodes u) of
        (Some n, pool) \<Rightarrow> spawn_sender who n msg (u\<lparr> nodes := pool \<rparr>)
      | (None, pool) \<Rightarrow>
          u\<lparr> nodes := pool, main := (if who = Main_loop then Dispatching else main u) \<rparr>)"

text \<open>The main loop, from the answer of \<open>_con.receive_message\<close>.\<close>

definition on_user_message ::
  "bool \<Rightarrow> (error_code, message) sum \<Rightarrow> 'n user \<Rightarrow> 'n user" where
  "on_user_message strict answer u =
     (case answer of
        Inl ec \<Rightarrow> u\<lparr> main := Finished False \<rparr>
      | Inr msg \<Rightarrow>
          (case is_valid_data_of msg (cfg_input_size (config u)) of
             None \<Rightarrow> u\<lparr> main := Crashed \<rparr>
           | Some True \<Rightarrow>
               dispatch_input Main_loop msg
                 (u\<lparr> data_counter := counter_incr (data_counter u), accepted := accepted u @ [msg] \<rparr>)
           | Some False \<Rightarrow>
               if is_valid_config msg then u\<lparr> config := msg, main := Draining_data \<rparr>
               else if strict then u\<lparr> main := Finished False \<rparr> else u))"

text \<open>A woken dispatch runs: it pops a node, and the pool may be empty again by then.\<close>

definition on_resume :: "'n user \<Rightarrow> 'n user option" where
  "on_resume u =
     (case resume_pop (nodes u) of
        (Idle, pool) \<Rightarrow> None
      | (Undefined, pool) \<Rightarrow> Some (u\<lparr> nodes := pool, main := Crashed \<rparr>)
      | (Popped (who, msg) n, pool) \<Rightarrow> Some (spawn_sender who n msg (u\<lparr> nodes := pool \<rparr>)))"

text \<open>\<open>_send_input_to_node\<close>, from the answer of the send; an input is retried on another node.\<close>

definition on_sent ::
  "('n \<Rightarrow> ('n, job) ready \<Rightarrow> ('n, job) ready) \<Rightarrow> 'n \<Rightarrow> error_code option \<Rightarrow> 'n user \<Rightarrow> 'n user option"
where
  "on_sent push n ec u =
     (case map_of (sending u) n of
        None \<Rightarrow> None
      | Some msg \<Rightarrow>
          (let u' = u\<lparr> sending := remove1 (n, msg) (sending u) \<rparr>
           in if ec \<noteq> None then Some (dispatch_input Sender msg u')
              else Some (u'\<lparr> nodes := push n (nodes u'), delivered := delivered u' @ [(n, msg)] \<rparr>)))"

definition end_loop :: "'n \<Rightarrow> loop_state \<Rightarrow> 'n user \<Rightarrow> 'n user" where
  "end_loop n st u =
     u\<lparr> loops := remove1 (n, st) (loops u),
        node_receiver_counter := counter_decr (node_receiver_counter u) \<rparr>"

text \<open>\<open>_receiver_loop\<close>, from the answer of the node's \<open>receive_message\<close> ...\<close>

definition on_node_message :: "'n \<Rightarrow> (error_code, message) sum \<Rightarrow> 'n user \<Rightarrow> 'n user option" where
  "on_node_message n answer u =
     (if (n, Receiving) \<notin> set (loops u) then None
      else case answer of
        Inl ec \<Rightarrow> Some (end_loop n Receiving u)
      | Inr msg \<Rightarrow>
          (case is_valid_data_of msg (cfg_output_size (config u)) of
             None \<Rightarrow> Some (u\<lparr> main := Crashed \<rparr>)
           | Some False \<Rightarrow> Some (end_loop n Receiving u)
           | Some True \<Rightarrow> Some (u\<lparr> loops := (n, Relaying msg) # remove1 (n, Receiving) (loops u) \<rparr>)))"

text \<open>
  ... and from the answer of the send to the user.  The send is one step; that the bytes of two
  results can mix, as two loops can be in it at once (\<open>relays_overlap\<close>), is not modelled.
\<close>

definition on_relayed :: "'n \<Rightarrow> message \<Rightarrow> error_code option \<Rightarrow> 'n user \<Rightarrow> 'n user option" where
  "on_relayed n msg ec u =
     (if (n, Relaying msg) \<notin> set (loops u) then None
      else if ec \<noteq> None then Some (end_loop n (Relaying msg) u)
      else Some (u\<lparr> loops := (n, Receiving) # remove1 (n, Relaying msg) (loops u),
                    data_counter := counter_decr (data_counter u),
                    relayed := relayed u @ [msg] \<rparr>))"

text \<open>
  The new configuration: once the data counter is zero the stop event is notified, which ends
  the loops that are waiting in it, that is those that are receiving; then the receiver
  counter has to reach zero.
\<close>

definition on_data_drained :: "'n user \<Rightarrow> 'n user option" where
  "on_data_drained u =
     (if main u = Draining_data \<and> zero_reached (data_counter u)
      then let (stopped, rest) = partition (\<lambda>l. snd l = Receiving) (loops u)
           in Some (u\<lparr> main := Draining_loops, loops := rest,
                       node_receiver_counter :=
                         (counter_decr ^^ length stopped) (node_receiver_counter u) \<rparr>)
      else None)"

definition on_loops_drained :: "'n user \<Rightarrow> 'n user option" where
  "on_loops_drained u =
     (if main u = Draining_loops \<and> zero_reached (node_receiver_counter u)
      then Some (u\<lparr> main := Finished True \<rparr>) else None)"

section \<open>Steps\<close>

datatype 'n event =
    User_message "(error_code, message) sum"
  | Resume_dispatch
  | Sent 'n "error_code option"
  | Node_message 'n "(error_code, message) sum"
  | Relayed 'n message "error_code option"
  | Data_drained
  | Loops_drained

text \<open>The session is gone once the main loop has returned; \<open>None\<close>: the event cannot happen.\<close>

definition alive :: "'n user \<Rightarrow> bool" where
  "alive u \<longleftrightarrow> (case main u of Finished b \<Rightarrow> False | Crashed \<Rightarrow> False | _ \<Rightarrow> True)"

definition user_step ::
  "('n \<Rightarrow> ('n, job) ready \<Rightarrow> ('n, job) ready) \<Rightarrow> bool \<Rightarrow> 'n event \<Rightarrow> 'n user \<Rightarrow> 'n user option" where
  "user_step push strict e u =
     (if \<not> alive u then None
      else case e of
        User_message answer \<Rightarrow>
          if main u = Reading then Some (on_user_message strict answer u) else None
      | Resume_dispatch \<Rightarrow> on_resume u
      | Sent n ec \<Rightarrow> on_sent push n ec u
      | Node_message n answer \<Rightarrow> on_node_message n answer u
      | Relayed n msg ec \<Rightarrow> on_relayed n msg ec u
      | Data_drained \<Rightarrow> on_data_drained u
      | Loops_drained \<Rightarrow> on_loops_drained u)"

fun user_run ::
  "('n \<Rightarrow> ('n, job) ready \<Rightarrow> ('n, job) ready) \<Rightarrow> bool \<Rightarrow> 'n event list \<Rightarrow> 'n user \<Rightarrow> 'n user option"
where
  "user_run push strict [] u = Some u"
| "user_run push strict (e # es) u =
     (case user_step push strict e u of None \<Rightarrow> None | Some u' \<Rightarrow> user_run push strict es u')"

text \<open>The sessions that some history of events leads to.\<close>

inductive reachable ::
  "('n \<Rightarrow> ('n, job) ready \<Rightarrow> ('n, job) ready) \<Rightarrow> bool \<Rightarrow> 'n user \<Rightarrow> 'n user \<Rightarrow> bool"
  for push strict u0 where
  initial: "reachable push strict u0 u0"
| step: "reachable push strict u0 u \<Longrightarrow> user_step push strict e u = Some u' \<Longrightarrow>
     reachable push strict u0 u'"

lemma run_reachable:
  "reachable push strict u0 u \<Longrightarrow> user_run push strict es u = Some u' \<Longrightarrow> reachable push strict u0 u'"
  by (induction es arbitrary: u) (auto split: option.splits intro: reachable.step)

section \<open>Conservation\<close>

text \<open>
  Where nodes and inputs are: a node is in the pool or being written to; an input waits for a
  node, is being written, or was delivered.
\<close>

definition node_bag :: "'n user \<Rightarrow> 'n multiset" where
  "node_bag u = mset (items (nodes u)) + mset (map fst (sending u))"

definition pool_jobs :: "('n, job) ready \<Rightarrow> job multiset" where
  "pool_jobs p = mset (waiters p) + mset (woken p)"

definition input_bag :: "'n user \<Rightarrow> message multiset" where
  "input_bag u = image_mset snd (pool_jobs (nodes u)) + mset (map snd (sending u)) +
     mset (map snd (delivered u))"

definition main_jobs :: "'n user \<Rightarrow> nat" where
  "main_jobs u = count (image_mset fst (pool_jobs (nodes u))) Main_loop"

text \<open>
  The invariant of a session that began with the nodes \<open>N\<close> and the counters \<open>data0\<close> and
  \<open>receiver0\<close>.  The counters are related to what they count as long as they do not wrap.
\<close>

definition nodes_ok :: "'n multiset \<Rightarrow> 'n user \<Rightarrow> bool" where
  "nodes_ok N u \<longleftrightarrow> node_bag u \<subseteq># N"

definition inputs_ok :: "'n user \<Rightarrow> bool" where
  "inputs_ok u \<longleftrightarrow> main u = Crashed \<or>
     input_bag u = mset (accepted u) \<and> (main_jobs u) = (if main u = Dispatching then 1 else 0)"

definition data_ok :: "u32 \<Rightarrow> 'n user \<Rightarrow> bool" where
  "data_ok data0 u \<longleftrightarrow>
     2 ^ 32 \<le> unat data0 + length (accepted u) \<or>
     (unat data0 + length (accepted u) \<le> unat (data_counter u) + length (relayed u) \<and>
      unat (data_counter u) \<le> unat data0 + length (accepted u) \<and>
      (main u \<in> {Draining_loops, Finished True} \<longrightarrow>
         unat data0 + length (accepted u) \<le> length (relayed u)))"

definition loops_ok :: "u32 \<Rightarrow> nat \<Rightarrow> 'n user \<Rightarrow> bool" where
  "loops_ok receiver0 n u \<longleftrightarrow>
     length (loops u) \<le> n \<and> unat (node_receiver_counter u) = unat receiver0 + length (loops u)"

lemma async_pop_cases:
  obtains (got) x xs where "items p = x # xs" "async_pop w p = (Some x, p\<lparr> items := xs \<rparr>)"
  | (waits) "items p = []" "async_pop w p = (None, p\<lparr> waiters := waiters p @ [w] \<rparr>)"
  by (cases "items p") (auto simp: async_pop_def pool_pop_def pool_empty_def)

lemma resume_pop_cases:
  obtains (idle) "woken p = []" "resume_pop p = (Idle, p)"
  | (ub) w ws where "woken p = w # ws" "items p = []" "resume_pop p = (Undefined, p\<lparr> woken := ws \<rparr>)"
  | (pop) w ws x xs where "woken p = w # ws" "items p = x # xs"
      "resume_pop p = (Popped w x, p\<lparr> woken := ws, items := xs \<rparr>)"
  by (cases "woken p"; cases "items p") (auto simp: resume_pop_def pool_pop_def)

text \<open>Everything a dispatch or a resumption can do to the session, in one rule each.\<close>

lemma dispatch_cases:
  obtains (got) n xs where "items (nodes u) = n # xs"
      "dispatch_input who msg u = u\<lparr> nodes := (nodes u)\<lparr> items := xs \<rparr>,
         sending := sending u @ [(n, msg)], main := (if who = Main_loop then Reading else main u) \<rparr>"
  | (waits) "items (nodes u) = []"
      "dispatch_input who msg u = u\<lparr> nodes := (nodes u)\<lparr> waiters := waiters (nodes u) @ [(who, msg)] \<rparr>,
         main := (if who = Main_loop then Dispatching else main u) \<rparr>"
  by (rule async_pop_cases[of "nodes u" "(who, msg)"]) (simp_all add: dispatch_input_def spawn_sender_def)

lemma on_resume_cases:
  assumes "on_resume u = Some u'"
  obtains (ub) "main u' = Crashed" "node_bag u' = node_bag u" "accepted u' = accepted u"
      "data_counter u' = data_counter u" "relayed u' = relayed u" "loops u' = loops u"
      "node_receiver_counter u' = node_receiver_counter u"
  | (pop) who msg ws n xs where "woken (nodes u) = (who, msg) # ws" "items (nodes u) = n # xs"
      "u' = u\<lparr> nodes := (nodes u)\<lparr> woken := ws, items := xs \<rparr>,
         sending := sending u @ [(n, msg)], main := (if who = Main_loop then Reading else main u) \<rparr>"
proof (cases rule: resume_pop_cases[of "nodes u"])
  case idle
  with assms show ?thesis by (simp add: on_resume_def)
next
  case (ub w ws)
  with assms have "u' = u\<lparr> nodes := (nodes u)\<lparr> woken := ws \<rparr>, main := Crashed \<rparr>"
    by (simp add: on_resume_def)
  then show ?thesis by (intro that(1)) (simp_all add: node_bag_def)
next
  case (pop w ws x xs)
  obtain who msg where "w = (who, msg)" by (cases w)
  with assms pop show ?thesis
    by (intro that(2)[of who msg ws x xs]) (auto simp: on_resume_def spawn_sender_def)
qed

lemma dispatch_fields [simp]:
  "data_counter (dispatch_input who msg u) = data_counter u"
  "accepted (dispatch_input who msg u) = accepted u"
  "relayed (dispatch_input who msg u) = relayed u"
  "loops (dispatch_input who msg u) = loops u"
  "node_receiver_counter (dispatch_input who msg u) = node_receiver_counter u"
  by (rule dispatch_cases[of u who msg]; simp)+

lemma dispatch_main:
  "main (dispatch_input Sender msg u) = main u"
  "main (dispatch_input Main_loop msg u) \<in> {Reading, Dispatching}"
  by (rule dispatch_cases[of u Sender msg]; simp) (rule dispatch_cases[of u Main_loop msg]; simp)

lemma user_message_cases:
  obtains (ended) m where "on_user_message strict r u = u\<lparr> main := m \<rparr>"
      "m \<in> {Finished False, Crashed, main u}"
  | (reconfigured) msg where "on_user_message strict r u = u\<lparr> config := msg, main := Draining_data \<rparr>"
      "is_valid_config msg"
  | (input) msg where "on_user_message strict r u = dispatch_input Main_loop msg
      (u\<lparr> data_counter := counter_incr (data_counter u), accepted := accepted u @ [msg] \<rparr>)"
      "is_valid_data_of msg (cfg_input_size (config u)) = Some True"
proof (cases r)
  case (Inl ec)
  then show ?thesis by (intro ended[of "Finished False"]) (simp_all add: on_user_message_def)
next
  case (Inr msg)
  consider "is_valid_data_of msg (cfg_input_size (config u)) = None"
    | "is_valid_data_of msg (cfg_input_size (config u)) = Some True"
    | "is_valid_data_of msg (cfg_input_size (config u)) = Some False"
    by (cases "is_valid_data_of msg (cfg_input_size (config u))") auto
  then show ?thesis
  proof cases
    case 1
    with Inr show ?thesis by (intro ended[of Crashed]) (simp_all add: on_user_message_def)
  next
    case 2
    with Inr show ?thesis by (intro input[of msg]) (simp_all add: on_user_message_def)
  next
    case 3
    with Inr show ?thesis
      by (cases "is_valid_config msg"; cases strict)
         (auto simp: on_user_message_def intro: reconfigured ended[of "main u"] ended[of "Finished False"])
  qed
qed

lemma sending_split:
  assumes "map_of xs n = Some msg"
  shows "mset xs = add_mset (n, msg) (mset (remove1 (n, msg) xs))"
  using map_of_SomeD[OF assms] by simp

section \<open>Counters\<close>

lemma unat_incr: "unat v + 1 < 2 ^ 32 \<Longrightarrow> unat (counter_incr v) = unat v + 1"
  by (simp add: counter_incr_def unat_word_ariths)

lemma unat_decr [simp]: "unat (counter_decr v) = unat v - 1"
  by (simp add: counter_decr_def unat_sub word_le_nat_alt unat_gt_0 Suc_leI)

lemma unat_decr_many [simp]: "unat ((counter_decr ^^ k) v) = unat v - k"
  by (induction k) simp_all

lemma unat_incr_many: "unat v + k < 2 ^ 32 \<Longrightarrow> unat ((counter_incr ^^ k) v) = unat v + k"
  by (induction k) (simp_all add: unat_incr)

lemma step_data:
  assumes "user_step push strict e u = Some u'" and "data_ok data0 u"
  shows "data_ok data0 u'"
proof (cases e)
  case (User_message answer)
  with assms have m: "main u = Reading" "u' = on_user_message strict answer u"
    by (auto simp: user_step_def split: if_splits)
  show ?thesis
  proof (cases rule: user_message_cases[of strict answer u])
    case (input msg)
    let ?d = "unat data0 + length (accepted u)"
    have "main u' \<in> {Reading, Dispatching}" unfolding m(2) input(1) by (rule dispatch_main(2))
    then have f: "main u' \<notin> {Draining_loops, Finished True}" "relayed u' = relayed u"
        "length (accepted u') = length (accepted u) + 1" "data_counter u' = counter_incr (data_counter u)"
      using input(1) m(2) by auto
    have "2 ^ 32 \<le> ?d + 1 \<or> ?d \<le> unat (data_counter u) + length (relayed u) \<and> unat (data_counter u) \<le> ?d"
      using assms(2) unfolding data_ok_def by linarith
    with f show ?thesis
      using unat_incr[of "data_counter u"] unfolding data_ok_def f by auto
  qed (use m assms(2) in \<open>auto simp: data_ok_def\<close>)
next
  case Resume_dispatch
  then have "on_resume u = Some u'" using assms by (simp add: user_step_def split: if_splits)
  then show ?thesis using assms(2) by (cases rule: on_resume_cases) (auto simp: data_ok_def)
next
  case (Sent n ec)
  then show ?thesis
    using assms
    by (auto simp: user_step_def on_sent_def Let_def data_ok_def dispatch_main(1) split: if_splits option.splits)
qed (use assms in \<open>auto simp: user_step_def alive_def on_node_message_def on_relayed_def on_data_drained_def
      on_loops_drained_def end_loop_def data_ok_def zero_reached_def
      split: if_splits sum.splits option.splits bool.splits\<close>)

lemma loops_decr:
  assumes "x \<in> set (loops u)" and "loops_ok r0 n u"
  shows "loops_ok r0 n (u\<lparr> loops := remove1 x (loops u),
     node_receiver_counter := counter_decr (node_receiver_counter u) \<rparr>)"
proof -
  have "0 < length (loops u)" using length_pos_if_in_set[OF assms(1)] .
  then obtain k where "length (loops u) = Suc k" by (metis Suc_pred)
  with assms show ?thesis by (simp add: loops_ok_def length_remove1)
qed

lemma step_loops:
  assumes "user_step push strict e u = Some u'" and "loops_ok r0 n u"
  shows "loops_ok r0 n u'"
proof (cases e)
  case (User_message answer)
  with assms have m: "u' = on_user_message strict answer u"
    by (auto simp: user_step_def split: if_splits)
  show ?thesis
    using assms(2) unfolding m
    by (cases rule: user_message_cases[of strict answer u]) (simp_all add: loops_ok_def)
next
  case Resume_dispatch
  then have "on_resume u = Some u'" using assms by (simp add: user_step_def split: if_splits)
  then show ?thesis using assms(2) by (cases rule: on_resume_cases) (auto simp: loops_ok_def)
next
  case (Sent n ec)
  then show ?thesis
    using assms by (auto simp: user_step_def on_sent_def Let_def loops_ok_def split: if_splits option.splits)
next
  case (Node_message m answer)
  have swap: "loops_ok r0 n (u\<lparr> loops := y # remove1 x (loops u) \<rparr>)" if "x \<in> set (loops u)" for x y
    using that assms(2) length_pos_if_in_set[OF that] by (auto simp: loops_ok_def length_remove1)
  show ?thesis
    using Node_message assms swap loops_decr[OF _ assms(2)]
    by (auto simp: user_step_def on_node_message_def end_loop_def loops_ok_def
        split: if_splits sum.splits option.splits bool.splits)
next
  case (Relayed m msg ec)
  have swap: "loops_ok r0 n (u\<lparr> loops := y # remove1 x (loops u), data_counter := d, relayed := r \<rparr>)"
    if "x \<in> set (loops u)" for x y d r
    using that assms(2) length_pos_if_in_set[OF that] by (auto simp: loops_ok_def length_remove1)
  show ?thesis
    using Relayed assms swap loops_decr[OF _ assms(2)]
    by (auto simp: user_step_def on_relayed_def end_loop_def split: if_splits)
next
  case Data_drained
  have "length (filter P (loops u)) + length (filter (Not \<circ> P) (loops u)) = length (loops u)" for P
    using sum_length_filter_compl[of P "loops u"] by (simp add: comp_def)
  from this[of "\<lambda>l. snd l = Receiving"] show ?thesis
    using Data_drained assms
    by (auto simp: user_step_def on_data_drained_def loops_ok_def split: if_splits)
next
  case Loops_drained
  then show ?thesis
    using assms by (auto simp: user_step_def on_loops_drained_def loops_ok_def split: if_splits)
qed

text \<open>
  An event that is neither a failed send of an input nor a new configuration with results of
  size zero.
\<close>

definition harmless :: "'n event \<Rightarrow> bool" where
  "harmless e \<longleftrightarrow>
     (case e of
        Sent n ec \<Rightarrow> ec = None
      | User_message (Inr msg) \<Rightarrow> is_valid_config msg \<longrightarrow> cfg_output_size msg \<noteq> 0
      | _ \<Rightarrow> True)"

text \<open>A dispatch waits only while every node in the pool has a woken dispatch to take it.\<close>

definition no_idle_node :: "'n user \<Rightarrow> bool" where
  "no_idle_node u \<longleftrightarrow> main u = Crashed \<or>
     waiters (nodes u) = [] \<or> length (items (nodes u)) \<le> length (woken (nodes u))"

text \<open>
  Without a failed send only the main loop ever waits for a node, and if it was woken there is
  one to take.  With the sizes of the configuration not zero, this is all that keeps a session
  from crashing.
\<close>

definition one_dispatch :: "'n user \<Rightarrow> bool" where
  "one_dispatch u \<longleftrightarrow>
     (main u \<noteq> Dispatching \<and> waiters (nodes u) = [] \<and> woken (nodes u) = []) \<or>
     (main u = Dispatching \<and>
       (\<exists>m. (items (nodes u) = [] \<and> waiters (nodes u) = [(Main_loop, m)] \<and> woken (nodes u) = []) \<or>
            (items (nodes u) \<noteq> [] \<and> waiters (nodes u) = [] \<and> woken (nodes u) = [(Main_loop, m)])))"

definition unfailed :: "'n multiset \<Rightarrow> 'n user \<Rightarrow> bool" where
  "unfailed N u \<longleftrightarrow> one_dispatch u \<and> main u \<noteq> Crashed \<and> node_bag u = N \<and> cfg_output_size (config u) \<noteq> 0 \<and>
     (main u \<in> {Reading, Dispatching} \<longrightarrow> cfg_input_size (config u) \<noteq> 0)"

section \<open>Nodes\<close>

locale user_pool = waking_push push
  for push :: "'n \<Rightarrow> ('n, job) ready \<Rightarrow> ('n, job) ready"
begin

lemma dispatch_nodes: "node_bag (dispatch_input who msg u) = node_bag u"
  by (rule dispatch_cases[of u who msg]) (auto simp: node_bag_def)

lemma user_message_nodes: "node_bag (on_user_message strict r u) = node_bag u"
  by (cases rule: user_message_cases[of strict r u]) (simp_all add: dispatch_nodes, simp_all add: node_bag_def)

lemma sent_nodes:
  assumes "on_sent push n ec u = Some u'"
  shows "node_bag u' \<subseteq># node_bag u"
proof -
  from assms obtain msg where m: "map_of (sending u) n = Some msg"
    by (auto simp: on_sent_def split: option.splits)
  let ?u = "u\<lparr> sending := remove1 (n, msg) (sending u) \<rparr>"
  have s: "mset (map fst (sending u)) = add_mset n (mset (map fst (remove1 (n, msg) (sending u))))"
    using arg_cong[OF sending_split[OF m], of "image_mset fst"] by simp
  then have "node_bag ?u \<subseteq># node_bag u" by (simp add: node_bag_def)
  moreover have "node_bag u = node_bag (?u\<lparr> nodes := push n (nodes u), delivered := d \<rparr>)" for d
    using s by (simp add: node_bag_def push_items)
  ultimately show ?thesis
    using assms m by (auto simp: on_sent_def Let_def dispatch_nodes split: if_splits)
qed

lemma step_nodes:
  assumes "user_step push strict e u = Some u'"
  shows "node_bag u' \<subseteq># node_bag u"
proof (cases e)
  case (User_message answer)
  then show ?thesis
    using assms by (auto simp: user_step_def user_message_nodes split: if_splits)
next
  case Resume_dispatch
  then have "on_resume u = Some u'" using assms by (simp add: user_step_def split: if_splits)
  then show ?thesis by (cases rule: on_resume_cases) (auto simp: node_bag_def)
next
  case (Sent n ec)
  then show ?thesis using assms sent_nodes by (simp add: user_step_def split: if_splits)
qed (use assms in \<open>auto simp: user_step_def on_node_message_def on_relayed_def on_data_drained_def
      on_loops_drained_def end_loop_def node_bag_def split: if_splits sum.splits option.splits bool.splits\<close>)

lemma reachable_nodes: "reachable push strict u0 u \<Longrightarrow> node_bag u \<subseteq># node_bag u0"
  by (induction rule: reachable.induct) (auto dest: step_nodes intro: subset_mset.order_trans)

section \<open>Inputs\<close>

lemma push_jobs: "pool_jobs (push n p) = pool_jobs p"
  using push_waiting[of n p] by (simp add: pool_jobs_def)

lemma dispatch_inputs:
  assumes "image_mset snd (pool_jobs (nodes u)) + mset (map snd (sending u)) + mset (map snd (delivered u)) +
      {#msg#} = mset (accepted u)"
    and "(main_jobs u) = (if who \<noteq> Main_loop \<and> main u = Dispatching then 1 else 0)"
  shows "inputs_ok (dispatch_input who msg u)"
  by (rule dispatch_cases[of u who msg])
     (use assms in \<open>auto simp: inputs_ok_def input_bag_def main_jobs_def pool_jobs_def\<close>)

lemma step_inputs:
  assumes "user_step push strict e u = Some u'" and "inputs_ok u"
  shows "inputs_ok u'"
proof (cases e)
  case (User_message answer)
  with assms have m: "main u = Reading" "u' = on_user_message strict answer u"
    by (auto simp: user_step_def split: if_splits)
  then have i: "input_bag u = mset (accepted u)" "main_jobs u = 0"
    using assms(2) by (auto simp: inputs_ok_def)
  show ?thesis
  proof (cases rule: user_message_cases[of strict answer u])
    case (ended st)
    with m i show ?thesis by (auto simp: inputs_ok_def input_bag_def main_jobs_def)
  next
    case (reconfigured msg)
    with m i show ?thesis by (simp add: inputs_ok_def input_bag_def main_jobs_def)
  next
    case (input msg)
    show ?thesis
      unfolding m(2) input(1)
      by (rule dispatch_inputs) (use i in \<open>simp_all add: input_bag_def main_jobs_def\<close>)
  qed
next
  case Resume_dispatch
  then have "on_resume u = Some u'" "main u \<noteq> Crashed"
    using assms by (auto simp: user_step_def alive_def split: if_splits)
  then show ?thesis
  proof (cases rule: on_resume_cases)
    case ub
    then show ?thesis by (simp add: inputs_ok_def)
  next
    case (pop who msg ws n xs)
    with assms(2) \<open>main u \<noteq> Crashed\<close> show ?thesis
      by (auto simp: inputs_ok_def input_bag_def main_jobs_def pool_jobs_def split: if_splits)
  qed
next
  case (Sent n ec)
  with assms have s: "on_sent push n ec u = Some u'" "main u \<noteq> Crashed"
    by (auto simp: user_step_def alive_def split: if_splits)
  then obtain msg where m: "map_of (sending u) n = Some msg"
    by (auto simp: on_sent_def split: option.splits)
  let ?u = "u\<lparr> sending := remove1 (n, msg) (sending u) \<rparr>"
  have "mset (map snd (sending u)) = add_mset msg (mset (map snd (remove1 (n, msg) (sending u))))"
    using arg_cong[OF sending_split[OF m], of "image_mset snd"] by simp
  then have "image_mset snd (pool_jobs (nodes ?u)) + mset (map snd (sending ?u)) +
      mset (map snd (delivered ?u)) + {#msg#} = mset (accepted ?u)"
    and "(main_jobs ?u) = (if main ?u = Dispatching then 1 else 0)"
    using assms(2) s(2) by (auto simp: inputs_ok_def input_bag_def main_jobs_def)
  then show ?thesis
    using s m dispatch_inputs[of ?u msg Sender]
    by (auto simp: on_sent_def Let_def inputs_ok_def input_bag_def main_jobs_def push_jobs split: if_splits)
qed (use assms in \<open>auto simp: user_step_def alive_def on_node_message_def on_relayed_def on_data_drained_def
      on_loops_drained_def end_loop_def inputs_ok_def input_bag_def main_jobs_def
      split: if_splits sum.splits option.splits bool.splits\<close>)

lemma reachable_inputs: "reachable push strict u0 u \<Longrightarrow> inputs_ok u0 \<Longrightarrow> inputs_ok u"
  by (induction rule: reachable.induct) (auto dest: step_inputs)

section \<open>Waiting for a node\<close>

lemma dispatch_waits: "no_idle_node u \<Longrightarrow> main u \<noteq> Crashed \<Longrightarrow> no_idle_node (dispatch_input who msg u)"
  by (rule dispatch_cases[of u who msg]) (auto simp: no_idle_node_def)

lemma push_idle:
  "waiters p = [] \<or> length (items p) \<le> length (woken p) \<Longrightarrow>
   waiters (push n p) = [] \<or> length (items (push n p)) \<le> length (woken (push n p))"
  using push_wakes[of p] push_quiet[of p n] push_length[of n p] by (cases "waiters p") auto

lemma step_waits:
  assumes "user_step push strict e u = Some u'" and "no_idle_node u"
  shows "no_idle_node u'"
proof (cases e)
  case (User_message answer)
  with assms have m: "main u \<noteq> Crashed" "u' = on_user_message strict answer u"
    by (auto simp: user_step_def split: if_splits)
  let ?u = "\<lambda>msg. u\<lparr> data_counter := counter_incr (data_counter u), accepted := accepted u @ [msg] \<rparr>"
  have "no_idle_node (?u msg)" for msg using assms(2) by (simp add: no_idle_node_def)
  with m assms(2) dispatch_waits[of "?u msg" for msg] show ?thesis
    by (cases rule: user_message_cases[of strict answer u]) (auto simp: no_idle_node_def)
next
  case Resume_dispatch
  then have "on_resume u = Some u'" "main u \<noteq> Crashed"
    using assms by (auto simp: user_step_def alive_def split: if_splits)
  then show ?thesis using assms(2) by (cases rule: on_resume_cases) (auto simp: no_idle_node_def)
next
  case (Sent n ec)
  with assms have o: "on_sent push n ec u = Some u'" "main u \<noteq> Crashed"
    by (auto simp: user_step_def alive_def split: if_splits)
  then obtain msg where s: "map_of (sending u) n = Some msg" "on_sent push n ec u = Some u'" "main u \<noteq> Crashed"
    by (auto simp: on_sent_def split: option.splits)
  have "no_idle_node (u\<lparr> sending := x \<rparr>)" "main (u\<lparr> sending := x \<rparr>) \<noteq> Crashed" for x
    using assms(2) s(3) by (simp_all add: no_idle_node_def)
  then have "no_idle_node (dispatch_input Sender msg (u\<lparr> sending := x \<rparr>))" for x
    by (rule dispatch_waits)
  moreover have "no_idle_node (u\<lparr> sending := x, nodes := push n (nodes u), delivered := d \<rparr>)" for x d
    using push_idle[of "nodes u" n] assms(2) s(3) by (simp add: no_idle_node_def)
  ultimately show ?thesis using s by (auto simp: on_sent_def Let_def split: if_splits)
qed (use assms in \<open>auto simp: user_step_def alive_def on_node_message_def on_relayed_def on_data_drained_def
      on_loops_drained_def end_loop_def no_idle_node_def split: if_splits sum.splits option.splits bool.splits\<close>)

lemma reachable_waits: "reachable push strict u0 u \<Longrightarrow> no_idle_node u0 \<Longrightarrow> no_idle_node u"
  by (induction rule: reachable.induct) (auto dest: step_waits)

lemma data_of_size: "sz \<noteq> 0 \<Longrightarrow> is_valid_data_of msg sz \<noteq> None"
  by (simp add: is_valid_data_of_def del: not_None_eq)

lemma push_one_dispatch:
  assumes "one_dispatch u"
  shows "one_dispatch (u\<lparr> nodes := push n (nodes u), sending := x, delivered := y \<rparr>)"
  using assms push_wakes[of "nodes u" _ _ n] push_quiet[of "nodes u" n] push_length[of n "nodes u"]
  by (auto simp: one_dispatch_def simp flip: length_greater_0_conv)

lemma unfailed_frame [simp]:
  "unfailed N (u\<lparr> loops := l \<rparr>) = unfailed N u" "unfailed N (u\<lparr> data_counter := d \<rparr>) = unfailed N u"
  "unfailed N (u\<lparr> node_receiver_counter := r \<rparr>) = unfailed N u" "unfailed N (u\<lparr> relayed := x \<rparr>) = unfailed N u"
  "unfailed N (u\<lparr> delivered := y \<rparr>) = unfailed N u" "unfailed N (u\<lparr> accepted := z \<rparr>) = unfailed N u"
  by (simp_all add: unfailed_def one_dispatch_def node_bag_def)

lemma unfailed_main:
  "unfailed N u \<Longrightarrow> main u \<noteq> Dispatching \<Longrightarrow> m \<in> {Draining_loops, Finished b} \<Longrightarrow> unfailed N (u\<lparr> main := m \<rparr>)"
  by (auto simp: unfailed_def one_dispatch_def node_bag_def)

lemma unfailed_message:
  assumes u: "unfailed N u" and m: "main u = Reading" and h: "harmless (User_message answer)"
  shows "unfailed N (on_user_message strict answer u)"
proof (cases answer)
  case (Inl ec)
  then show ?thesis
    using u m by (auto simp: on_user_message_def unfailed_def one_dispatch_def node_bag_def)
next
  case (Inr msg)
  let ?u = "u\<lparr> data_counter := counter_incr (data_counter u), accepted := accepted u @ [msg] \<rparr>"
  have "is_valid_data_of msg (cfg_input_size (config u)) \<noteq> None"
    using u m by (intro data_of_size) (simp add: unfailed_def)
  moreover have "unfailed N (dispatch_input Main_loop msg ?u)"
    by (rule dispatch_cases[of ?u Main_loop msg])
      (use u m in \<open>auto simp: unfailed_def one_dispatch_def node_bag_def\<close>)
  moreover have "unfailed N (u\<lparr> config := msg, main := Draining_data \<rparr>)" if "is_valid_config msg"
    using u m that h Inr by (simp add: unfailed_def one_dispatch_def node_bag_def harmless_def)
  moreover have "unfailed N (u\<lparr> main := Finished False \<rparr>)"
    using u m by (auto simp: unfailed_def one_dispatch_def node_bag_def)
  ultimately show ?thesis using u Inr by (auto simp: on_user_message_def split: option.split bool.split)
qed

lemma unfailed_sent:
  assumes u: "unfailed N u" and "on_sent push n None u = Some u'"
  shows "unfailed N u'"
proof -
  obtain msg where m: "map_of (sending u) n = Some msg"
      "u' = u\<lparr> nodes := push n (nodes u), sending := remove1 (n, msg) (sending u),
         delivered := delivered u @ [(n, msg)] \<rparr>"
    using assms(2) by (auto simp: on_sent_def Let_def split: option.splits)
  have "mset (map fst (sending u)) = add_mset n (mset (map fst (remove1 (n, msg) (sending u))))"
    using arg_cong[OF sending_split[OF m(1)], of "image_mset fst"] by simp
  then have "node_bag u' = node_bag u" by (simp add: m(2) node_bag_def push_items)
  moreover have "one_dispatch u'" unfolding m(2) by (rule push_one_dispatch) (use u in \<open>simp add: unfailed_def\<close>)
  ultimately show ?thesis using u by (simp add: unfailed_def m(2))
qed

lemma unfailed_resume:
  assumes u: "unfailed N u" and r: "on_resume u = Some u'"
  shows "unfailed N u'"
  using r
proof (cases rule: on_resume_cases)
  case ub
  then show ?thesis
    using u r by (auto simp: on_resume_def resume_pop_def pool_pop_def unfailed_def one_dispatch_def spawn_sender_def
        split: list.splits)
next
  case (pop who msg ws n xs)
  then show ?thesis using u by (auto simp: unfailed_def one_dispatch_def node_bag_def)
qed

lemma unfailed_step:
  assumes "user_step push strict e u = Some u'" and u: "unfailed N u" and "harmless e"
  shows "unfailed N u'"
proof (cases e)
  case (User_message answer)
  then show ?thesis using assms unfailed_message by (auto simp: user_step_def split: if_splits)
next
  case Resume_dispatch
  then show ?thesis using assms unfailed_resume by (auto simp: user_step_def split: if_splits)
next
  case (Sent n ec)
  then show ?thesis using assms unfailed_sent by (auto simp: user_step_def harmless_def split: if_splits)
next
  case (Node_message n answer)
  have d: "is_valid_data_of msg (cfg_output_size (config u)) = None \<longleftrightarrow> False" for msg
    using u data_of_size[of "cfg_output_size (config u)" msg] by (simp add: unfailed_def)
  have "on_node_message n answer u = Some u'" using Node_message assms(1) by (simp add: user_step_def split: if_splits)
  then show ?thesis
    using u by (cases answer) (auto simp: on_node_message_def end_loop_def d split: if_splits option.splits bool.splits)
next
  case (Relayed n msg ec)
  then show ?thesis
    using assms(1) u by (auto simp: user_step_def on_relayed_def end_loop_def split: if_splits)
next
  case Data_drained
  then show ?thesis
    using assms(1) u by (auto simp: user_step_def on_data_drained_def unfailed_main split: if_splits)
next
  case Loops_drained
  then show ?thesis
    using assms(1) u by (auto simp: user_step_def on_loops_drained_def unfailed_main split: if_splits)
qed

lemma unfailed_run:
  "user_run push strict es u = Some u' \<Longrightarrow> unfailed N u \<Longrightarrow> list_all harmless es \<Longrightarrow> unfailed N u'"
  by (induction es arbitrary: u) (auto split: option.splits dest: unfailed_step)

lemma fold_items: "mset (items (fold push xs p)) = mset xs + mset (items p)"
  by (induction xs arbitrary: p) (simp_all add: push_items)

lemma fold_quiet:
  "waiters p = [] \<Longrightarrow> waiters (fold push xs p) = [] \<and> woken (fold push xs p) = woken p"
  by (induction xs arbitrary: p) (simp_all add: push_quiet)

end

interpretation queue_user: user_pool queue_push by unfold_locales

interpretation stack_user: user_pool stack_push by unfold_locales

section \<open>The start of a session\<close>

definition configured :: "('n \<times> error_code option) list \<Rightarrow> 'n list" where
  "configured completions = map fst (filter (\<lambda>c. snd c = None) completions)"

lemma fold_configured:
  "fold (\<lambda>(n, ec) p. if ec = None then push n p else p) completions p = fold push (configured completions) p"
  by (induction completions arbitrary: p) (auto simp: configured_def)

lemma items_fold:
  "items (fold queue_push xs p) = items p @ xs"
  "items (fold stack_push xs p) = rev xs @ items p"
  by (rule queue_fifo.contents_push_all stack_lifo.contents_push_all)+

text \<open>Both variants offer the configured nodes in the order their configurations completed.\<close>

lemma queue_refill:
  "items (fold queue_push (configured comps) (p\<lparr> items := [] \<rparr>)) = configured comps"
  "items (fold queue_push (items p) (p\<lparr> items := [] \<rparr>)) = items p"
  by (simp_all add: items_fold)

lemma stack_refill:
  "items (fold stack_push (items (fold stack_push (configured comps) (p\<lparr> items := [] \<rparr>))) (q\<lparr> items := [] \<rparr>)) =
     configured comps"
  by (simp add: items_fold)

lemma start_shape:
  assumes s: "start push c0 d0 r0 conns first comps rec = Inr u0"
    and p: "push = queue_push \<or> push = stack_push"
  shows "is_valid_config (config u0) \<and> first = Inr (config u0) \<and>
    items (nodes u0) = configured comps \<and> waiters (nodes u0) = [] \<and> woken (nodes u0) = [] \<and>
    mset (loops u0) = mset (map (\<lambda>n. (n, Receiving)) (configured comps)) \<and>
    data_counter u0 = d0 \<and> node_receiver_counter u0 = (counter_incr ^^ length (configured comps)) r0 \<and>
    main u0 = Reading \<and> sending u0 = [] \<and> accepted u0 = [] \<and> delivered u0 = [] \<and> relayed u0 = []"
proof -
  let ?p1 = "fold push conns empty_pool"
  let ?p2 = "fold push (configured comps) (?p1\<lparr> items := [] \<rparr>)"
  obtain msg where m: "first = Inr msg" "is_valid_config msg"
    using s by (auto simp: start_def split: sum.splits if_splits)
  have conf: "configure_nodes push c0 comps ?p1 = Some ?p2"
    using s m by (auto simp: start_def configure_nodes_def drain_pool_run fold_configured Let_def
        split: if_splits option.splits)
  have u0: "u0 = start_loops push \<lparr> config = msg, nodes = ?p2, data_counter = d0,
      node_receiver_counter = r0, main = Reading, sending = [], loops = [],
      accepted = [], delivered = [], relayed = [] \<rparr>"
    using s m conf by (auto simp: start_def split: if_splits)
  have e: "waiters (empty_pool :: ('a, job) ready) = []" "woken (empty_pool :: ('a, job) ready) = []"
    by (simp_all add: empty_pool_def)
  have w: "waiters (fold push xs q) = [] \<and> woken (fold push xs q) = []"
    if "waiters q = []" "woken q = []" for xs and q :: "('a, job) ready"
    using that p queue_user.fold_quiet[of q xs] stack_user.fold_quiet[of q xs] by auto
  have "items ?p2 = configured comps \<or> items ?p2 = rev (configured comps)"
    using p by (auto simp: items_fold)
  moreover have "items (fold push (items ?p2) (?p2\<lparr> items := [] \<rparr>)) = configured comps"
    using p by (auto simp: items_fold)
  ultimately show ?thesis
    using m w[of ?p1] w[OF e] w[of "?p1\<lparr> items := [] \<rparr>"] w[of "?p2\<lparr> items := [] \<rparr>"]
    by (auto simp: u0 start_loops_def drain_pool_run)
qed

lemma started_inputs:
  assumes "start push c0 d0 r0 conns first comps rec = Inr u0" and "push = queue_push \<or> push = stack_push"
  shows "inputs_ok u0"
  using start_shape[OF assms] by (auto simp: inputs_ok_def input_bag_def main_jobs_def pool_jobs_def)

lemma started_data:
  assumes "start push c0 d0 r0 conns first comps rec = Inr u0" and "push = queue_push \<or> push = stack_push"
  shows "data_ok d0 u0"
  using start_shape[OF assms] by (auto simp: data_ok_def)

lemma started_loops:
  assumes "start push c0 d0 r0 conns first comps rec = Inr u0" and "push = queue_push \<or> push = stack_push"
    and "unat r0 + length (configured comps) < 2 ^ 32"
  shows "loops_ok r0 (length (configured comps)) u0"
proof -
  have "length (loops u0) = length (configured comps)"
    using start_shape[OF assms(1,2)] by (metis length_map size_mset)
  then show ?thesis using start_shape[OF assms(1,2)] unat_incr_many[OF assms(3)] by (simp add: loops_ok_def)
qed

lemma reachable_data: "reachable push strict u0 u \<Longrightarrow> data_ok d0 u0 \<Longrightarrow> data_ok d0 u"
  by (induction rule: reachable.induct) (auto dest: step_data)

lemma reachable_loops: "reachable push strict u0 u \<Longrightarrow> loops_ok r0 n u0 \<Longrightarrow> loops_ok r0 n u"
  by (induction rule: reachable.induct) (auto dest: step_loops)

section \<open>Properties\<close>

text \<open>
  C6: in every session, whatever the user, the nodes and the network do, every input accepted
  from the user is in exactly one place: waiting for a node, being written to one, or
  delivered to one.  No input is lost or duplicated, also when sends fail and are retried.
\<close>

theorem inputs_conserved:
  assumes "start push c0 d0 r0 conns first comps rec = Inr u0"
    and "push = queue_push \<or> push = stack_push"
    and "reachable push strict u0 u" and "main u \<noteq> Crashed"
  shows "mset (accepted u) = input_bag u"
proof -
  have "inputs_ok u"
    using assms(2,3) queue_user.reachable_inputs stack_user.reachable_inputs
      started_inputs[OF assms(1,2)] by blast
  with assms(4) show ?thesis by (simp add: inputs_ok_def)
qed

text \<open>
  C29: no node is ever offered twice or written to by two senders at once: the nodes in
  the pool and the nodes of the inputs being written are pairwise different, and all of them
  are nodes that were configured.
\<close>

theorem one_input_per_node:
  assumes "start push c0 d0 r0 conns first comps rec = Inr u0"
    and "push = queue_push \<or> push = stack_push"
    and "reachable push strict u0 u"
    and "distinct (map fst comps)"
  shows "distinct (items (nodes u) @ map fst (sending u)) \<and>
    set (items (nodes u) @ map fst (sending u)) \<subseteq> set (configured comps)"
proof -
  have "node_bag u \<subseteq># node_bag u0"
    using assms(2,3) queue_user.reachable_nodes stack_user.reachable_nodes by blast
  moreover have "node_bag u0 = mset (configured comps)"
    using start_shape[OF assms(1,2)] by (simp add: node_bag_def)
  ultimately have sub: "mset (items (nodes u) @ map fst (sending u)) \<subseteq># mset (configured comps)"
    by (simp add: node_bag_def)
  have d: "distinct (configured comps)"
    using assms(4) by (simp add: configured_def distinct_map_filter)
  show ?thesis using mset_sub_distinct[OF sub d] set_mset_mono[OF sub] by simp
qed

text \<open>
  Once a new configuration has seen the data counter at zero, at least as many results
  were relayed to the user as inputs were accepted (as long as the counter did not wrap).
\<close>

theorem drained_means_relayed:
  assumes "start push c0 d0 r0 conns first comps rec = Inr u0"
    and "push = queue_push \<or> push = stack_push"
    and "reachable push strict u0 u"
    and "unat d0 + length (accepted u) < 2 ^ 32"
    and "main u \<in> {Draining_loops, Finished True}"
  shows "unat d0 + length (accepted u) \<le> length (relayed u)"
  using reachable_data[OF assms(3) started_data[OF assms(1,2)]] assms(4,5) by (auto simp: data_ok_def)

text \<open>
  the receiver counter always counts the receiver loops that run, so that waiting for it
  to reach zero is waiting for the last of them to end (if its first value was zero).
\<close>

theorem receiver_counter_counts_loops:
  assumes "start push c0 d0 r0 conns first comps rec = Inr u0"
    and "push = queue_push \<or> push = stack_push"
    and "reachable push strict u0 u"
    and "unat r0 + length (configured comps) < 2 ^ 32"
  shows "unat (node_receiver_counter u) = unat r0 + length (loops u) \<and>
    length (loops u) \<le> length (configured comps)"
  using reachable_loops[OF assms(3) started_loops[OF assms(1,2,4)]] by (simp add: loops_ok_def)

text \<open>
  \<open>start\<close> is what follows the printing of the first message, see \<open>session_start_outcome\<close>.  Of
  the nodes, \<open>comps\<close> are those that ever answer.
\<close>

lemma start_outcome:
  assumes "push = queue_push \<or> push = stack_push"
    and "length comps \<le> length conns" and "unat c0 + length conns < 2 ^ 32"
  shows "let result = start push c0 d0 r0 conns first comps response_ec;
        valid = (case first of Inl ec \<Rightarrow> False | Inr cfg \<Rightarrow> is_valid_config cfg);
        ready = (c0 = 0 \<and> length comps = length conns)
    in (result = Inl False \<longleftrightarrow> \<not> valid \<or> ready \<and> response_ec \<noteq> None) \<and>
       (result = Inl True \<longleftrightarrow> valid \<and> \<not> ready) \<and>
       ((\<exists>u0. result = Inr u0) \<longleftrightarrow> valid \<and> ready \<and> response_ec = None)"
proof -
  have len: "length (items (fold push conns empty_pool)) = length conns"
    using assms(1) by (auto simp: items_fold empty_pool_def)
  let ?c = "(counter_decr ^^ length comps) ((counter_incr ^^ length conns) c0)"
  have u: "unat ?c = unat c0 + length conns - length comps" using unat_incr_many[OF assms(3)] by simp
  have "?c = 0 \<longleftrightarrow> unat ?c = 0" by (simp only: unat_eq_zero)
  also have "\<dots> \<longleftrightarrow> unat c0 = 0 \<and> length comps = length conns" unfolding u using assms(2) by linarith
  finally have z: "zero_reached ?c \<longleftrightarrow> c0 = 0 \<and> length comps = length conns"
    unfolding zero_reached_def by (simp only: unat_eq_zero)
  have conf: "configure_nodes push c0 comps (fold push conns empty_pool) = None \<longleftrightarrow>
      \<not> (c0 = 0 \<and> length comps = length conns)"
    by (simp add: configure_nodes_def drain_pool_run Let_def len z del: de_Morgan_conj)
  show ?thesis
    using conf by (cases first; cases "configure_nodes push c0 comps (fold push conns empty_pool)")
      (auto simp: start_def Let_def)
qed

text \<open>
  C38: what a crash takes.  As long as no send of an input fails and no configuration has sizes
  of zero, a session does not crash, whatever else the user, the nodes and the order of events
  do: at most one dispatch waits for a node, if it has been woken there is a node for it to pop,
  and no node is lost.  (A failed send is enough for a crash, see \<open>session_crash\<close>.)
\<close>

theorem crash_needs_failure:
  assumes "start push c0 d0 r0 conns first comps rec = Inr u0"
    and "push = queue_push \<or> push = stack_push"
    and "user_run push strict es u0 = Some u" and "list_all harmless es"
    and "cfg_input_size (config u0) \<noteq> 0" and "cfg_output_size (config u0) \<noteq> 0"
  shows "main u \<noteq> Crashed \<and>
    length (waiters (nodes u)) + length (woken (nodes u)) \<le> 1 \<and>
    (woken (nodes u) \<noteq> [] \<longrightarrow> items (nodes u) \<noteq> []) \<and>
    mset (items (nodes u)) + mset (map fst (sending u)) = mset (configured comps)"
proof -
  have "unfailed (mset (configured comps)) u0"
    using start_shape[OF assms(1,2)] assms(5,6) by (auto simp: unfailed_def one_dispatch_def node_bag_def)
  then have "unfailed (mset (configured comps)) u"
    using assms(2-4) queue_user.unfailed_run stack_user.unfailed_run by blast
  then show ?thesis by (auto simp: unfailed_def one_dispatch_def node_bag_def)
qed

text \<open>Which events can happen in a session that goes on.\<close>

lemma no_step_iff:
  assumes "alive u"
  shows "(\<forall>e. user_step push strict e u = None) \<longleftrightarrow>
    main u \<noteq> Reading \<and> woken (nodes u) = [] \<and> sending u = [] \<and> loops u = [] \<and>
    on_data_drained u = None \<and> on_loops_drained u = None"
    (is "?stuck \<longleftrightarrow> ?quiet")
proof
  assume stuck: ?stuck
  have n: "case e of
      User_message answer \<Rightarrow> main u \<noteq> Reading
    | Resume_dispatch \<Rightarrow> on_resume u = None
    | Sent n ec \<Rightarrow> on_sent push n ec u = None
    | Node_message n answer \<Rightarrow> on_node_message n answer u = None
    | Relayed n msg ec \<Rightarrow> on_relayed n msg ec u = None
    | Data_drained \<Rightarrow> on_data_drained u = None
    | Loops_drained \<Rightarrow> on_loops_drained u = None" for e
    using spec[OF stuck, of e] assms by (cases e) (auto simp: user_step_def split: if_splits)
  have "on_resume u = None" using n[of Resume_dispatch] by simp
  then have w: "woken (nodes u) = []"
    by (cases "woken (nodes u)")
      (auto simp: on_resume_def resume_pop_def pool_pop_def split: list.splits prod.splits)
  have "map_of (sending u) k = None" for k
    using n[of "Sent k None"] by (auto simp: on_sent_def Let_def split: option.splits)
  from this[of "fst (hd (sending u))"] have s: "sending u = []" by (cases "sending u") auto
  have "(k, st) \<notin> set (loops u)" for k st
    using n[of "Node_message k (Inl Eof)"] n[of "Relayed k (case st of Relaying m \<Rightarrow> m) None"]
    by (cases st) (auto simp: on_node_message_def on_relayed_def split: if_splits)
  from this[of "fst (hd (loops u))" "snd (hd (loops u))"] have "loops u = []" by (cases "loops u") auto
  then show ?quiet using w s n[of "User_message undefined"] n[of Data_drained] n[of Loops_drained] by simp
next
  assume ?quiet
  then show ?stuck
    by (auto simp: user_step_def on_resume_def resume_pop_def on_sent_def on_node_message_def on_relayed_def
        split: event.split)
qed

text \<open>A configuration that waits for results which no loop is left to bring.\<close>

lemma draining_for_ever:
  assumes "reachable push strict u v" and "push = queue_push \<or> push = stack_push" and "inputs_ok u"
    and "main u = Draining_data" and "loops u = []" and "data_counter u \<noteq> 0"
  shows "main v = Crashed \<or> main v = Draining_data \<and> loops v = [] \<and> data_counter v \<noteq> 0"
  using assms
proof (induction rule: reachable.induct)
  case (step v e v')
  then have v: "main v = Draining_data" "loops v = []" "data_counter v \<noteq> 0"
    by (auto simp: user_step_def alive_def split: if_splits)
  have "inputs_ok v"
    using step queue_user.reachable_inputs stack_user.reachable_inputs by blast
  then have j: "main_jobs v = 0" using v(1) by (simp add: inputs_ok_def)
  show ?case
  proof (cases e)
    case Resume_dispatch
    then have "on_resume v = Some v'" using step.hyps(2) by (simp add: user_step_def split: if_splits)
    then show ?thesis
    proof (cases rule: on_resume_cases)
      case (pop who msg ws n xs)
      then have "who \<noteq> Main_loop" using j by (auto simp: main_jobs_def pool_jobs_def)
      with pop v show ?thesis by simp
    qed simp
  qed (use v step.hyps(2) in \<open>auto simp: user_step_def on_sent_def on_node_message_def on_relayed_def
      on_data_drained_def on_loops_drained_def zero_reached_def Let_def dispatch_main(1)
      split: if_splits option.splits\<close>)
qed simp


section \<open>Sample sessions\<close>

definition demo_config :: "u32 \<Rightarrow> message" where
  "demo_config output_size = new_config (\<lambda>_. 0) [] 4 output_size (Some (\<lambda>_. 0)) 0"

definition demo_input :: message where
  "demo_input = new_data (\<lambda>_. 0) 4 1 7"

lemma demo_messages [simp]:
  "is_valid_config (demo_config n)" "cfg_input_size (demo_config n) = 4"
  "cfg_output_size (demo_config n) = n"
  "is_valid_data_of demo_input 4 = Some True" "is_valid_data_of demo_input 8 = Some False"
  "is_valid_data_of (demo_config n) 4 = Some False" "\<not> is_valid_config demo_input"
proof -
  have c: "is_valid_config (demo_config n) \<and> cfg_input_size (demo_config n) = 4 \<and>
      cfg_output_size (demo_config n) = n"
    using config_roundtrip[of "[]" 0 "\<lambda>_. 0" 4 n "\<lambda>_. 0"] by (simp add: demo_config_def Let_def)
  then show "is_valid_config (demo_config n)" "cfg_input_size (demo_config n) = 4"
    "cfg_output_size (demo_config n) = n" by blast+
  have d: "is_valid_data_of demo_input 4 = Some True \<and> unat (get_data_size demo_input) = 4"
    using data_blocks[of 4 1 "\<lambda>_. 0" 7] by (simp add: demo_input_def)
  then have sz: "get_data_size demo_input = 4" by (simp add: word_unat_eq_iff)
  show "is_valid_data_of demo_input 4 = Some True" using d by blast
  then show "is_valid_data_of demo_input 8 = Some False" "\<not> is_valid_config demo_input"
    by (auto simp: is_valid_data_of_def is_valid_config_def sz split: if_splits)
  show "is_valid_data_of (demo_config n) 4 = Some False"
    using c by (simp add: is_valid_data_of_def is_valid_config_def)
qed

definition demo_user :: "nat list \<Rightarrow> nat user" where
  "demo_user ns = \<lparr> config = demo_config 4, nodes = \<lparr> items = ns, waiters = [], woken = [] \<rparr>,
     data_counter = 0, node_receiver_counter = of_nat (length ns), main = Reading, sending = [],
     loops = map (\<lambda>n. (n, Receiving)) ns, accepted = [], delivered = [], relayed = [] \<rparr>"

lemmas demo_run_simps = demo_user_def user_step_def alive_def on_user_message_def dispatch_input_def
  async_pop_def pool_pop_def pool_empty_def spawn_sender_def on_sent_def on_resume_def resume_pop_def
  on_node_message_def on_relayed_def end_loop_def queue_push_def stack_push_def cancel_one_def
  on_data_drained_def on_loops_drained_def zero_reached_def counter_incr_def counter_decr_def Let_def

lemma demo_start:
  "start queue_push 0 0 0 [1, 2] (Inr (demo_config 4)) [(1, None), (2, None)] None = Inr (demo_user [1, 2])"
  "start queue_push 0 0 0 [1] (Inr (demo_config 4)) [(1, None)] None = Inr (demo_user [1])"
  by (simp_all add: start_def configure_nodes_def drain_pool_run start_loops_def empty_pool_def
      queue_push_def cancel_one_def zero_reached_def counter_incr_def counter_decr_def demo_user_def
      numeral_2_eq_2)

text \<open>
  The wake-up race is reachable in a session: with two nodes and three inputs, a node that
  comes back while another fails lets the failed send take the node the main loop was woken
  for, and the main loop pops from an empty pool.
\<close>

lemma session_crash:
  "\<exists>u0 u. start queue_push 0 0 0 [1 :: nat, 2] (Inr (demo_config 4)) [(1, None), (2, None)] None = Inr u0 \<and>
     user_run queue_push True
       [User_message (Inr demo_input), User_message (Inr demo_input), User_message (Inr demo_input),
        Sent 1 None, Sent 2 (Some Eof), Resume_dispatch] u0 = Some u \<and>
     main u = Crashed"
  unfolding demo_start by (simp add: demo_run_simps)

text \<open>
  A new configuration that changes the output size while a result is outstanding: the result is
  checked against the new size, and the receiver loop ends without counting it.
\<close>

lemma demo_stuck:
  "\<exists>u. user_run queue_push True
       [User_message (Inr demo_input), Sent 1 None, User_message (Inr (demo_config 8)),
        Node_message 1 (Inr demo_input)] (demo_user [1]) = Some u \<and>
     main u = Draining_data \<and> alive u \<and> loops u = [] \<and> data_counter u = 1 \<and> woken (nodes u) = [] \<and> sending u = []"
  by (simp add: demo_run_simps)

text \<open>
  Two receiver loops can be writing results to the user's connection at the same time.
\<close>

lemma relays_overlap:
  "\<exists>u0 u. start queue_push 0 0 0 [1 :: nat, 2] (Inr (demo_config 4)) [(1, None), (2, None)] None = Inr u0 \<and>
     user_run queue_push True
       [User_message (Inr demo_input), User_message (Inr demo_input), Sent 1 None, Sent 2 None,
        Node_message 1 (Inr demo_input), Node_message 2 (Inr demo_input)] u0 = Some u \<and>
     length (filter (\<lambda>l. snd l \<noteq> Receiving) (loops u)) = 2"
  unfolding demo_start by (simp add: demo_run_simps)

lemma demo_reach:
  "\<exists>u. reachable queue_push True (demo_user [1, 2]) u \<and> accepted u = [demo_input] \<and>
     relayed u = [demo_input] \<and> main u = Finished True"
proof -
  let ?es = "[User_message (Inr demo_input), Sent 1 None, Node_message 1 (Inr demo_input),
    Relayed 1 demo_input None, User_message (Inr (demo_config 8)), Data_drained, Loops_drained]"
  have "\<exists>u. user_run queue_push True ?es (demo_user [1, 2]) = Some u \<and> accepted u = [demo_input] \<and>
     relayed u = [demo_input] \<and> main u = Finished True"
    by (simp add: demo_run_simps)
  then show ?thesis using run_reachable[OF reachable.initial] by blast
qed

theorem inputs_conserved_witness:
  "\<exists>u. accepted u = [demo_input] \<and> main u = Finished True \<and>
     mset (accepted u) = input_bag (u :: nat user)"
proof -
  obtain u where u: "reachable queue_push True (demo_user [1, 2]) u" "accepted u = [demo_input]"
      "main u = Finished True" using demo_reach by blast
  from inputs_conserved[OF demo_start(1) _ u(1)] u(2,3) show ?thesis by auto
qed

theorem one_input_per_node_witness:
  "\<exists>u. accepted u = [demo_input] \<and> distinct (items (nodes u) @ map fst (sending (u :: nat user)))"
proof -
  obtain u where u: "reachable queue_push True (demo_user [1, 2]) u" "accepted u = [demo_input]"
    using demo_reach by blast
  from one_input_per_node[OF demo_start(1) _ u(1)] u(2) show ?thesis by auto
qed

theorem drained_means_relayed_witness:
  "\<exists>u :: nat user. accepted u = [demo_input] \<and> length (accepted u) \<le> length (relayed u)"
proof -
  obtain u where u: "reachable queue_push True (demo_user [1, 2]) u" "accepted u = [demo_input]"
      "main u = Finished True" using demo_reach by blast
  from drained_means_relayed[OF demo_start(1) _ u(1)] u(2,3) show ?thesis by auto
qed

theorem receiver_counter_counts_loops_witness:
  "unat (node_receiver_counter (demo_user [1, 2])) = length (loops (demo_user [1, 2]))"
  using receiver_counter_counts_loops[OF demo_start(1) _ reachable.initial] by (simp add: configured_def)

text \<open>Two inputs for one node: the main loop waits for it, is woken and pops it.\<close>

theorem crash_needs_failure_witness:
  "\<exists>u. user_run queue_push True
       [User_message (Inr demo_input), User_message (Inr demo_input), Sent 1 None, Resume_dispatch, Sent 1 None]
       (demo_user [1]) = Some u \<and>
     length (delivered u) = 2 \<and> main u \<noteq> Crashed \<and> mset (items (nodes u)) + mset (map fst (sending u)) = {#1#}"
proof -
  let ?es = "[User_message (Inr demo_input), User_message (Inr demo_input), Sent 1 None, Resume_dispatch, Sent 1 None]"
  obtain u where u: "user_run queue_push True ?es (demo_user [1]) = Some u" "length (delivered u) = 2"
    by (simp add: demo_run_simps)
  have "list_all harmless ?es" by (simp add: harmless_def)
  moreover have "cfg_input_size (config (demo_user [1])) \<noteq> 0" "cfg_output_size (config (demo_user [1])) \<noteq> 0"
    by (simp_all add: demo_user_def)
  ultimately have "main u \<noteq> Crashed" "mset (items (nodes u)) + mset (map fst (sending u)) = mset (configured [(1, None)])"
    using crash_needs_failure[OF demo_start(2) _ u(1)] by blast+
  with u show ?thesis
    by (intro exI[of _ u]) (simp add: configured_def del: user_run.simps One_nat_def)
qed


end
