(* ===== verification/Server.thy ===== *)
theory Server
  imports User Message_Print
begin

text \<open>
  The accept loops, \<^verbatim>\<open>server/Server.hpp\<close> (started by \<^verbatim>\<open>server/main.cpp\<close>): one coroutine registers the
  nodes that connect, the other waits for a user and runs the user's session with the nodes
  registered so far.  What the acceptors answer is the event's argument.
\<close>

section \<open>Start of a session\<close>

text \<open>
  \<open>User::start\<close> with the printing in front of it: the first message is printed before it is
  checked.  \<open>None\<close>: the access outside the message that \<open>print\<close> makes.
\<close>

definition session_start ::
  "('n \<Rightarrow> ('n, job) ready \<Rightarrow> ('n, job) ready) \<Rightarrow> u32 \<Rightarrow> u32 \<Rightarrow> u32 \<Rightarrow> 'n list \<Rightarrow>
   (error_code, message) sum \<Rightarrow> ('n \<times> error_code option) list \<Rightarrow> error_code option \<Rightarrow>
   (bool, 'n user) sum option" where
  "session_start push counter0 data0 receiver0 connections first completions response_ec =
     Option.bind (case first of Inl ec \<Rightarrow> Some [] | Inr first_config \<Rightarrow> print tab first_config)
       (\<lambda>_. Some (start push counter0 data0 receiver0 connections first completions response_ec))"

section \<open>State\<close>

text \<open>
  What \<open>async_accept\<close> led to: an error; a connection; or a connection whose peer is already
  gone, for which \<open>sock.remote_endpoint()\<close> throws.
\<close>

datatype 'a acceptance = Accept_error error_code | Accepted 'a | Peer_gone

datatype 'n user_loop =
    Listening
  | Starting "'n list"
  | Configuring_for_ever "'n list"
  | In_session "'n list" "'n user"
  | Returned
  | Thrown
  | Undefined_access

record 'n server =
  registered :: "'n list"
  node_loop :: bool
  user_loop :: "'n user_loop"

definition init_server :: "'n server" where
  "init_server = \<lparr> registered = [], node_loop = True, user_loop = Listening \<rparr>"

section \<open>The two coroutines\<close>

definition start_node_server :: "'n acceptance \<Rightarrow> 'n server \<Rightarrow> 'n server" where
  "start_node_server r s =
     (case r of
        Accept_error ec \<Rightarrow> s
      | Accepted node \<Rightarrow> s\<lparr> registered := registered s @ [node] \<rparr>
      | Peer_gone \<Rightarrow> s\<lparr> node_loop := False \<rparr>)"

definition start_user_server :: "unit acceptance \<Rightarrow> 'n server \<Rightarrow> 'n server" where
  "start_user_server r s =
     (case r of
        Accept_error ec \<Rightarrow> s
      | Accepted _ \<Rightarrow> s\<lparr> user_loop := Starting (registered s), registered := [] \<rparr>
      | Peer_gone \<Rightarrow> s\<lparr> user_loop := Thrown \<rparr>)"

definition session_started :: "'n list \<Rightarrow> (bool, 'n user) sum option \<Rightarrow> 'n user_loop" where
  "session_started ns result =
     (case result of
        None \<Rightarrow> Undefined_access
      | Some (Inl False) \<Rightarrow> Returned
      | Some (Inl True) \<Rightarrow> Configuring_for_ever ns
      | Some (Inr u) \<Rightarrow> In_session ns u)"

section \<open>Steps\<close>

text \<open>
  \<open>run\<close> is \<open>_start_node_server() || _start_user_server()\<close>: it completes as soon as one of them
  returns, and a coroutine that throws leaves the other one running.  The node loop never
  returns.  Each \<open>_configure_node\<close> coroutine of a session completes once, in any order.
\<close>

datatype 'n server_event =
    Node_accept "'n acceptance"
  | User_accept "unit acceptance"
  | Session_start "(error_code, message) sum" "('n \<times> error_code option) list" "error_code option" u32 u32 u32
  | Session "'n event"
  | Session_over

definition running :: "'n server \<Rightarrow> bool" where
  "running s \<longleftrightarrow>
     (case user_loop s of
        Returned \<Rightarrow> False
      | Undefined_access \<Rightarrow> False
      | Thrown \<Rightarrow> node_loop s
      | In_session ns u \<Rightarrow> main u \<noteq> Crashed
      | _ \<Rightarrow> True)"

definition server_step ::
  "('n \<Rightarrow> ('n, job) ready \<Rightarrow> ('n, job) ready) \<Rightarrow> bool \<Rightarrow> 'n server_event \<Rightarrow> 'n server \<Rightarrow> 'n server option"
where
  "server_step push strict e s =
     (if \<not> running s then None
      else case e of
        Node_accept r \<Rightarrow> if node_loop s then Some (start_node_server r s) else None
      | User_accept r \<Rightarrow>
          (case user_loop s of Listening \<Rightarrow> Some (start_user_server r s) | _ \<Rightarrow> None)
      | Session_start first completions response_ec counter0 data0 receiver0 \<Rightarrow>
          (case user_loop s of
             Starting ns \<Rightarrow>
               if mset (map fst completions) = mset ns
               then Some (s\<lparr> user_loop := session_started ns
                      (session_start push counter0 data0 receiver0 ns first completions response_ec) \<rparr>)
               else None
           | _ \<Rightarrow> None)
      | Session ev \<Rightarrow>
          (case user_loop s of
             In_session ns u \<Rightarrow>
               map_option (\<lambda>u'. s\<lparr> user_loop := In_session ns u' \<rparr>) (user_step push strict ev u)
           | _ \<Rightarrow> None)
      | Session_over \<Rightarrow>
          (case user_loop s of
             In_session ns u \<Rightarrow>
               (case main u of Finished b \<Rightarrow> Some (s\<lparr> user_loop := Returned \<rparr>) | _ \<Rightarrow> None)
           | _ \<Rightarrow> None))"

fun server_run ::
  "('n \<Rightarrow> ('n, job) ready \<Rightarrow> ('n, job) ready) \<Rightarrow> bool \<Rightarrow> 'n server_event list \<Rightarrow> 'n server \<Rightarrow> 'n server option"
where
  "server_run push strict [] s = Some s"
| "server_run push strict (e # es) s =
     Option.bind (server_step push strict e s) (server_run push strict es)"

lemma server_run_append:
  "server_run push strict (es @ fs) s = Option.bind (server_run push strict es s) (server_run push strict fs)"
  by (induction es arbitrary: s) (auto split: bind_splits)

section \<open>What a run did\<close>

fun accepted_nodes :: "'n server_event list \<Rightarrow> 'n list" where
  "accepted_nodes [] = []"
| "accepted_nodes (Node_accept (Accepted n) # es) = n # accepted_nodes es"
| "accepted_nodes (e # es) = accepted_nodes es"

definition user_accepted :: "'n server_event \<Rightarrow> bool" where
  "user_accepted e \<longleftrightarrow> (case e of User_accept (Accepted _) \<Rightarrow> True | _ \<Rightarrow> False)"

lemma accepted_nodes_append [simp]: "accepted_nodes (es @ fs) = accepted_nodes es @ accepted_nodes fs"
  by (induction es rule: accepted_nodes.induct) simp_all

text \<open>
  The history of the events \<open>es\<close> with a session on the nodes \<open>ns\<close>: they are the nodes that were
  accepted before the only user, and those that came later are registered and not used.
\<close>

definition one_user :: "'n server_event list \<Rightarrow> 'n list \<Rightarrow> 'n list \<Rightarrow> bool" where
  "one_user es ns later \<longleftrightarrow>
     (\<exists>before after. es = before @ User_accept (Accepted ()) # after \<and>
        \<not> list_ex user_accepted before \<and> \<not> list_ex user_accepted after \<and>
        ns = accepted_nodes before \<and> later = accepted_nodes after)"

definition session_of ::
  "('n \<Rightarrow> ('n, job) ready \<Rightarrow> ('n, job) ready) \<Rightarrow> bool \<Rightarrow> 'n list \<Rightarrow> 'n user \<Rightarrow> bool" where
  "session_of push strict ns u \<longleftrightarrow>
     (\<exists>c0 d0 r0 first comps rec u0. start push c0 d0 r0 ns first comps rec = Inr u0 \<and>
        mset (map fst comps) = mset ns \<and> reachable push strict u0 u)"

definition history ::
  "('n \<Rightarrow> ('n, job) ready \<Rightarrow> ('n, job) ready) \<Rightarrow> bool \<Rightarrow> 'n server_event list \<Rightarrow> 'n server \<Rightarrow> bool" where
  "history push strict es s \<longleftrightarrow>
     (case user_loop s of
        Listening \<Rightarrow> registered s = accepted_nodes es \<and> \<not> list_ex user_accepted es
      | Thrown \<Rightarrow> registered s = accepted_nodes es \<and> \<not> list_ex user_accepted es
      | Starting ns \<Rightarrow> one_user es ns (registered s)
      | Configuring_for_ever ns \<Rightarrow> one_user es ns (registered s)
      | In_session ns u \<Rightarrow> one_user es ns (registered s) \<and> session_of push strict ns u
      | Returned \<Rightarrow> \<exists>ns. one_user es ns (registered s)
      | Undefined_access \<Rightarrow> \<exists>ns. one_user es ns (registered s))"

lemma one_user_more:
  assumes "one_user es ns later" and "\<not> user_accepted e"
  shows "one_user (es @ [e]) ns (later @ accepted_nodes [e])"
proof -
  obtain before after where "es = before @ User_accept (Accepted ()) # after"
      "\<not> list_ex user_accepted before" "\<not> list_ex user_accepted after"
      "ns = accepted_nodes before" "later = accepted_nodes after"
    using assms(1) unfolding one_user_def by blast
  with assms(2) show ?thesis
    unfolding one_user_def by (intro exI[of _ before] exI[of _ "after @ [e]"]) simp
qed

lemma one_user_now:
  "\<not> list_ex user_accepted es \<Longrightarrow> one_user (es @ [User_accept (Accepted ())]) (accepted_nodes es) []"
  unfolding one_user_def by (intro exI[of _ es] exI[of _ "[]"]) simp

lemma one_user_quiet:
  "one_user es ns later \<Longrightarrow> \<not> user_accepted e \<Longrightarrow> accepted_nodes [e] = [] \<Longrightarrow> one_user (es @ [e]) ns later"
  using one_user_more[of es ns later e] by simp

lemma some_user_quiet:
  "\<exists>ns. one_user es ns later \<Longrightarrow> \<not> user_accepted e \<Longrightarrow> accepted_nodes [e] = [] \<Longrightarrow>
   \<exists>ns. one_user (es @ [e]) ns later"
  using one_user_quiet by blast

lemma user_accepted_simps [simp]:
  "user_accepted (User_accept (Accepted x))" "\<not> user_accepted (User_accept (Accept_error ec))"
  "\<not> user_accepted (User_accept Peer_gone)" "\<not> user_accepted (Node_accept r)"
  "\<not> user_accepted (Session_start a b c d f g)" "\<not> user_accepted (Session ev)"
  "\<not> user_accepted Session_over"
  by (simp_all add: user_accepted_def)

lemma history_node:
  assumes "history push strict es s" and "node_loop s"
  shows "history push strict (es @ [Node_accept r]) (start_node_server r s)"
proof (cases r)
  case (Accepted n)
  have "one_user (es @ [Node_accept r]) ns (registered s @ [n])" if "one_user es ns (registered s)" for ns
    using one_user_more[OF that, of "Node_accept r"] Accepted by simp
  with assms Accepted show ?thesis
    by (cases "user_loop s") (auto simp: history_def start_node_server_def)
next
  case (Accept_error ec)
  with assms show ?thesis
    by (cases "user_loop s") (auto simp: history_def start_node_server_def intro: one_user_quiet some_user_quiet)
next
  case Peer_gone
  with assms show ?thesis
    by (cases "user_loop s") (auto simp: history_def start_node_server_def intro: one_user_quiet some_user_quiet)
qed

lemma history_user:
  assumes "history push strict es s" and "user_loop s = Listening"
  shows "history push strict (es @ [User_accept r]) (start_user_server r s)"
  using assms by (cases r) (auto simp: history_def start_user_server_def intro: one_user_now)

lemma history_started:
  assumes "history push strict es s" and "user_loop s = Starting ns"
    and "mset (map fst comps) = mset ns"
  shows "history push strict (es @ [Session_start first comps ec c0 d0 r0])
    (s\<lparr> user_loop := session_started ns (session_start push c0 d0 r0 ns first comps ec) \<rparr>)"
proof -
  let ?e = "Session_start first comps ec c0 d0 r0"
  have one: "one_user (es @ [?e]) ns (registered s)"
    using assms by (auto simp: history_def intro: one_user_quiet)
  have "session_of push strict ns u" if "session_start push c0 d0 r0 ns first comps ec = Some (Inr u)" for u
    using that assms(3) unfolding session_of_def session_start_def
    by (auto simp: bind_eq_Some_conv intro!: exI reachable.initial)
  with one show ?thesis
    by (auto simp: history_def session_started_def split: option.split sum.split bool.split)
qed

lemma history_session:
  assumes "history push strict es s" and "user_loop s = In_session ns u"
    and "user_step push strict ev u = Some u'"
  shows "history push strict (es @ [Session ev]) (s\<lparr> user_loop := In_session ns u' \<rparr>)"
proof -
  have "session_of push strict ns u'"
    using assms unfolding history_def session_of_def by (fastforce intro: reachable.step)
  with assms show ?thesis by (auto simp: history_def intro: one_user_quiet)
qed

lemma history_step:
  assumes "history push strict es s" and "server_step push strict e s = Some s'"
  shows "history push strict (es @ [e]) s'"
proof (cases e)
  case (Node_accept r)
  with assms show ?thesis by (auto simp: server_step_def history_node split: if_splits)
next
  case (User_accept r)
  with assms show ?thesis
    by (auto simp: server_step_def history_user split: if_splits user_loop.splits)
next
  case (Session_start first comps ec c0 d0 r0)
  with assms show ?thesis
    by (auto simp: server_step_def history_started split: if_splits user_loop.splits)
next
  case (Session ev)
  with assms show ?thesis
    by (auto simp: server_step_def history_session split: if_splits user_loop.splits)
next
  case Session_over
  with assms show ?thesis
    by (auto simp: server_step_def history_def intro!: some_user_quiet split: if_splits user_loop.splits main_state.splits)
qed

lemma history_run:
  "server_run push strict es init_server = Some s \<Longrightarrow> history push strict es s"
proof (induction es arbitrary: s rule: rev_induct)
  case Nil
  then show ?case by (auto simp: history_def init_server_def)
next
  case (snoc e es)
  then obtain s0 where "server_run push strict es init_server = Some s0" "server_step push strict e s0 = Some s"
    by (auto simp: server_run_append bind_eq_Some_conv)
  with snoc.IH history_step show ?case by blast
qed

lemma session_facts:
  assumes p: "push = queue_push \<or> push = stack_push" and "session_of push strict ns u"
  shows "node_bag u \<subseteq># mset ns" and "inputs_ok u"
proof -
  obtain c0 d0 r0 first comps rec u0 where st: "start push c0 d0 r0 ns first comps rec = Inr u0"
      "mset (map fst comps) = mset ns" "reachable push strict u0 u"
    using assms(2) unfolding session_of_def by blast
  have "mset (configured comps) \<subseteq># mset (map fst comps)"
    unfolding configured_def mset_map by (intro image_mset_subseteq_mono) simp
  moreover have "node_bag u0 = mset (configured comps)"
    using start_shape[OF st(1) p] by (simp add: node_bag_def)
  moreover have "node_bag u \<subseteq># node_bag u0"
    using p st(3) queue_user.reachable_nodes stack_user.reachable_nodes by blast
  ultimately show "node_bag u \<subseteq># mset ns" using st(2) by (metis subset_mset.trans)
  show "inputs_ok u"
    using p st(3) queue_user.reachable_inputs stack_user.reachable_inputs started_inputs[OF st(1) p] by blast
qed

text \<open>
  C30: whatever connects to the server, fails, or comes in between: the session that runs
  has exactly the nodes that were accepted before its user, in the order they came, it is the only one of
  the server's life, the nodes that come later are registered and never used, and every node
  and every accepted input of the session is accounted for.
\<close>

theorem server_session_nodes:
  assumes "push = queue_push \<or> push = stack_push"
    and "server_run push strict es init_server = Some s" and "user_loop s = In_session ns u"
  shows "(\<exists>before after. es = before @ User_accept (Accepted ()) # after \<and>
      ns = accepted_nodes before \<and> registered s = accepted_nodes after \<and>
      \<not> list_ex user_accepted before \<and> \<not> list_ex user_accepted after) \<and>
    mset (items (nodes u)) + mset (map fst (sending u)) \<subseteq># mset ns \<and>
    (main u = Crashed \<or> mset (accepted u) = input_bag u)"
proof -
  have h: "one_user es ns (registered s)" "session_of push strict ns u"
    using history_run[OF assms(2)] assms(3) by (simp_all add: history_def)
  show ?thesis
    using h(1) session_facts[OF assms(1) h(2)]
    unfolding one_user_def node_bag_def inputs_ok_def by auto
qed

section \<open>The life of the server\<close>

lemma one_user_count: "one_user es ns later \<Longrightarrow> length (filter user_accepted es) = 1"
  by (auto simp: one_user_def list_ex_iff filter_empty_conv)

text \<open>One user is served, no more.\<close>

lemma at_most_one_user:
  assumes "server_run push strict es init_server = Some s"
  shows "length (filter user_accepted es) \<le> 1"
  using history_run[OF assms] one_user_count
  by (cases "user_loop s") (fastforce simp: history_def list_ex_iff filter_empty_conv)+

lemma node_loop_step:
  "server_step push strict e s = Some s' \<Longrightarrow> \<not> node_loop s \<Longrightarrow> \<not> node_loop s' \<and> accepted_nodes [e] = []"
  by (cases e) (auto simp: server_step_def start_user_server_def
      split: if_splits user_loop.splits acceptance.splits main_state.splits)

text \<open>
  A node that is gone when its connection is looked at ends the node loop: no node that
  connects later is registered, while the server goes on.
\<close>

lemma peer_gone_ends_node_loop:
  assumes "server_run push strict es s = Some s'" and "\<not> node_loop s"
  shows "accepted_nodes es = [] \<and> \<not> node_loop s'"
  using assms
proof (induction es arbitrary: s)
  case (Cons e es)
  then obtain s1 where s1: "server_step push strict e s = Some s1" "server_run push strict es s1 = Some s'"
    by (auto simp: bind_eq_Some_conv)
  with node_loop_step[OF s1(1) Cons.prems(2)] Cons.IH[OF s1(2)] accepted_nodes_append[of "[e]" es]
  show ?case by simp
qed simp

lemma peer_gone_server_runs:
  "\<exists>s. server_run push strict [Node_accept Peer_gone] init_server = Some s \<and> running s \<and> \<not> node_loop s \<and>
     user_loop s = Listening"
  by (simp add: server_step_def init_server_def running_def start_node_server_def)

text \<open>One message of a user, sent before anything was agreed, makes the server read outside it.\<close>

lemma first_message_over_read:
  "\<exists>msg s. receive_message slow_read (\<lambda>_. 0) (wire short_config) = Some ((None, Some msg), []) \<and>
     server_run queue_push True
       [User_accept (Accepted ()), Session_start (Inr msg) [] None 0 0 0] init_server = Some s \<and>
     user_loop s = Undefined_access"
proof -
  obtain msg where m: "receive_message slow_read (\<lambda>_. 0) (wire short_config) = Some ((None, Some msg), [])"
      "mtype msg = CONFIG" "payload_size msg = 12" "cfg_num_blocks msg = 255"
    using short_config_received by blast
  then have "\<not> is_valid_config msg" by (simp add: is_valid_config_def)
  with m(2) print_defined_iff[OF received_print[OF slow_read_ok(1) m(1)], of tab] have "print tab msg = None"
    by auto
  then have "\<exists>s. server_run queue_push True
       [User_accept (Accepted ()), Session_start (Inr msg) [] None 0 0 0] init_server = Some s \<and>
     user_loop s = Undefined_access"
    by (simp add: server_step_def init_server_def running_def start_user_server_def session_start_def session_started_def)
  with m(1) show ?thesis by blast
qed

text \<open>
  C37: how a session starts, whatever the first message is and however many of the nodes ever
  answer (\<open>comps\<close>, in the order they do).  It makes an undefined access exactly when printing the
  first message, which comes before any check, reads outside of it; otherwise it ends at once
  when the message is no valid configuration; otherwise it waits for ever exactly when some node
  never answers or the configuration counter, which the code does not set, did not start at
  zero; otherwise it ends when the response cannot be sent, and reaches the main loop when it
  can.  It then offers exactly the nodes whose configuration succeeded, in the order they
  answered, for the queue and the stack alike, and runs one receiver loop for each.  (The
  counter is assumed not to wrap while it counts the nodes.)
\<close>

theorem session_start_outcome:
  assumes "push = queue_push \<or> push = stack_push"
    and "mset (map fst comps) \<subseteq># mset conns" and "unat c0 + length conns < 2 ^ 32"
  shows "let result = session_start push c0 d0 r0 conns first comps response_ec;
        printed = (case first of Inl ec \<Rightarrow> True | Inr cfg \<Rightarrow> print tab cfg \<noteq> None);
        valid = (case first of Inl ec \<Rightarrow> False | Inr cfg \<Rightarrow> is_valid_config cfg);
        ready = (c0 = 0 \<and> length comps = length conns)
    in (result = None \<longleftrightarrow> \<not> printed) \<and>
       (result = Some (Inl False) \<longleftrightarrow> printed \<and> (\<not> valid \<or> ready \<and> response_ec \<noteq> None)) \<and>
       (result = Some (Inl True) \<longleftrightarrow> printed \<and> valid \<and> \<not> ready) \<and>
       ((\<exists>u0. result = Some (Inr u0)) \<longleftrightarrow> printed \<and> valid \<and> ready \<and> response_ec = None) \<and>
       (\<forall>u0. result = Some (Inr u0) \<longrightarrow> main u0 = Reading \<and> first = Inr (config u0) \<and>
          items (nodes u0) = configured comps \<and>
          mset (loops u0) = mset (map (\<lambda>n. (n, Receiving)) (configured comps)))"
proof -
  have "length comps \<le> length conns" using size_mset_mono[OF assms(2)] by simp
  note o = start_outcome[OF assms(1) this assms(3), where ?d0.0 = d0 and ?r0.0 = r0 and first = first
      and response_ec = response_ec, unfolded Let_def]
  have sh: "main u0 = Reading \<and> first = Inr (config u0) \<and> items (nodes u0) = configured comps \<and>
      mset (loops u0) = mset (map (\<lambda>n. (n, Receiving)) (configured comps))"
    if "start push c0 d0 r0 conns first comps response_ec = Inr u0" for u0
    using start_shape[OF that assms(1)] by blast
  let ?printed = "case first of Inl ec \<Rightarrow> True | Inr cfg \<Rightarrow> print tab cfg \<noteq> None"
  have "session_start push c0 d0 r0 conns first comps response_ec =
      (if ?printed then Some (start push c0 d0 r0 conns first comps response_ec) else None)"
    by (auto simp: session_start_def split: sum.split)
  then show ?thesis unfolding Let_def using o sh by auto
qed

section \<open>A sample run\<close>

lemma demo_config_alloc:
  "is_valid_message (demo_config 4)" "alloc_size (demo_config 4) = 16 + ucast (payload_size (demo_config 4))"
  "mtype (demo_config 4) = CONFIG"
  using demo_messages(1)[of 4] new_config_fields(6)[of "[]" 0 "\<lambda>_. 0" 4 4 "\<lambda>_. 0"]
  by (simp_all add: is_valid_config_def demo_config_def)

lemma demo_session_start:
  "session_start queue_push 0 0 0 [1, 2] (Inr (demo_config 4)) [(1, None), (2, None)] None = Some (Inr (demo_user [1, 2]))"
proof -
  obtain out where "print tab (demo_config 4) = Some out"
    using print_defined_iff[OF demo_config_alloc(1,2), of tab] demo_config_alloc(3) demo_messages(1) by auto
  then show ?thesis by (simp add: session_start_def demo_start del: One_nat_def)
qed

text \<open>
  With two nodes that answer the session starts; when one of them never does, it waits for ever.
\<close>

theorem session_start_outcome_witness:
  "(\<exists>u0. session_start queue_push 0 0 0 [1 :: nat, 2] (Inr (demo_config 4)) [(2, None), (1, None)] None = Some (Inr u0) \<and>
     items (nodes u0) = [2, 1]) \<and>
   session_start queue_push 0 0 0 [1 :: nat, 2] (Inr (demo_config 4)) [(2, None)] None = Some (Inl True)"
proof -
  have p: "print tab (demo_config 4) \<noteq> None"
    using print_defined_iff[OF demo_config_alloc(1,2), of tab] demo_config_alloc(3) demo_messages(1) by auto
  show ?thesis
    using session_start_outcome[of queue_push "[(2, None), (1, None)]" "[1 :: nat, 2]" 0 0 0 "Inr (demo_config 4)" None]
      session_start_outcome[of queue_push "[(2, None)]" "[1 :: nat, 2]" 0 0 0 "Inr (demo_config 4)" None] p
    by (auto simp: Let_def configured_def)
qed

text \<open>
  Two nodes, a failed accept, the user, a node that comes too late: the session starts with
  the two and takes an input.
\<close>

theorem server_session_nodes_witness:
  "\<exists>s u. server_run queue_push True
      [Node_accept (Accepted 1), Node_accept (Accept_error Operation_aborted), Node_accept (Accepted 2),
       User_accept (Accepted ()), Node_accept (Accepted 3),
       Session_start (Inr (demo_config 4)) [(1, None), (2, None)] None 0 0 0,
       Session (User_message (Inr demo_input))] init_server = Some s \<and>
     user_loop s = In_session [1 :: nat, 2] u \<and> mset (items (nodes u)) + mset (map fst (sending u)) \<subseteq># {#1, 2#} \<and>
     mset (accepted u) = input_bag u \<and> registered s = [3]"
proof -
  let ?es = "[Node_accept (Accepted 1), Node_accept (Accept_error Operation_aborted), Node_accept (Accepted 2),
       User_accept (Accepted ()), Node_accept (Accepted 3),
       Session_start (Inr (demo_config 4)) [(1, None), (2, None)] None 0 0 0,
       Session (User_message (Inr demo_input))]"
  have "\<exists>s u. server_run queue_push True ?es init_server = Some s \<and>
      user_loop s = In_session [1 :: nat, 2] u \<and> registered s = [3] \<and> main u \<noteq> Crashed"
    by (simp add: server_step_def init_server_def running_def start_node_server_def start_user_server_def
        demo_session_start session_started_def demo_run_simps del: One_nat_def)
  then obtain s u where r: "server_run queue_push True ?es init_server = Some s"
      "user_loop s = In_session [1 :: nat, 2] u" "registered s = [3]" "main u \<noteq> Crashed" by blast
  from server_session_nodes[OF _ r(1,2)] r show ?thesis by auto
qed

end
