(* ===== verification/Network.thy ===== *)
theory Network
  imports Server Benchmark
begin

text \<open>
  The whole system: a user session of the server, the nodes it is connected to, and the
  connections between them.  A connection carries messages in order (\<open>receive_many_same\<close> in
  \<^theory_text>\<open>Connection\<close>); what arrives is a copy, with the same type, size and payload but bytes of its own
  in the places nobody sets.  A node is any function from inputs to outputs; the node that
  comes with the server is an instance.
\<close>

section \<open>State\<close>

text \<open>
  \<open>to_node\<close> and \<open>from_node\<close> are the messages under way, with the node whose connection they are
  on; a connection delivers its oldest message first.  \<open>down\<close> are the nodes whose loop has
  returned or that faulted.
\<close>

record 'n net =
  session :: "'n user"
  to_node :: "('n \<times> message) list"
  from_node :: "('n \<times> message) list"
  down :: "'n set"

definition start_net :: "'n user \<Rightarrow> 'n net" where
  "start_net u = \<lparr> session = u, to_node = [], from_node = [], down = {} \<rparr>"

definition copy :: "message \<Rightarrow> message \<Rightarrow> bool" where
  "copy m m' \<longleftrightarrow> same_content m m' \<and> well_allocated m'"

datatype 'n net_event =
    Local "'n event"
  | Input_sent 'n message
  | Result_received 'n message
  | Node_serves 'n

text \<open>
  \<open>Input_sent\<close>: the session's send to a node completes, and the copy given is what the node
  will receive.  \<open>Result_received\<close>: the session receives a copy of the node's oldest result.
  \<open>Local\<close>: any other event of the session; a send that fails delivers nothing, and a receive
  from a node can always fail.
\<close>

fun local_event :: "'n event \<Rightarrow> bool" where
  "local_event (Sent n None) = False"
| "local_event (Node_message n (Inr msg)) = False"
| "local_event e = True"

definition net_step ::
  "('n \<Rightarrow> ('n, job) ready \<Rightarrow> ('n, job) ready) \<Rightarrow> bool \<Rightarrow> ('n \<Rightarrow> message \<Rightarrow> message option) \<Rightarrow>
   'n net_event \<Rightarrow> 'n net \<Rightarrow> 'n net option" where
  "net_step push strict serve e s =
     (case e of
        Local ev \<Rightarrow>
          if local_event ev
          then map_option (\<lambda>u. s\<lparr> session := u \<rparr>) (user_step push strict ev (session s))
          else None
      | Input_sent n msg' \<Rightarrow>
          (case map_of (sending (session s)) n of
             None \<Rightarrow> None
           | Some msg \<Rightarrow>
               if copy msg msg'
               then map_option (\<lambda>u. s\<lparr> session := u, to_node := to_node s @ [(n, msg')] \<rparr>)
                      (user_step push strict (Sent n None) (session s))
               else None)
      | Node_serves n \<Rightarrow>
          (case map_of (to_node s) n of
             None \<Rightarrow> None
           | Some msg \<Rightarrow>
               if n \<in> down s then None
               else case serve n msg of
                   None \<Rightarrow> Some (s\<lparr> down := insert n (down s) \<rparr>)
                 | Some outp \<Rightarrow> Some (s\<lparr> to_node := remove1 (n, msg) (to_node s),
                     from_node := from_node s @ [(n, outp)] \<rparr>))
      | Result_received n msg' \<Rightarrow>
          (case map_of (from_node s) n of
             None \<Rightarrow> None
           | Some msg \<Rightarrow>
               if copy msg msg'
               then map_option (\<lambda>u. s\<lparr> session := u, from_node := remove1 (n, msg) (from_node s) \<rparr>)
                      (user_step push strict (Node_message n (Inr msg')) (session s))
               else None))"

inductive net_reachable ::
  "('n \<Rightarrow> ('n, job) ready \<Rightarrow> ('n, job) ready) \<Rightarrow> bool \<Rightarrow> ('n \<Rightarrow> message \<Rightarrow> message option) \<Rightarrow>
   'n net \<Rightarrow> 'n net \<Rightarrow> bool" for push strict serve s0 where
  initial: "net_reachable push strict serve s0 s0"
| step: "net_reachable push strict serve s0 s \<Longrightarrow> net_step push strict serve e s = Some s' \<Longrightarrow>
     net_reachable push strict serve s0 s'"

fun net_run ::
  "('n \<Rightarrow> ('n, job) ready \<Rightarrow> ('n, job) ready) \<Rightarrow> bool \<Rightarrow> ('n \<Rightarrow> message \<Rightarrow> message option) \<Rightarrow>
   'n net_event list \<Rightarrow> 'n net \<Rightarrow> 'n net option" where
  "net_run push strict serve [] s = Some s"
| "net_run push strict serve (e # es) s =
     Option.bind (net_step push strict serve e s) (net_run push strict serve es)"

lemma net_run_reachable:
  "net_reachable push strict serve s0 s \<Longrightarrow> net_run push strict serve es s = Some s' \<Longrightarrow>
   net_reachable push strict serve s0 s'"
  by (induction es arbitrary: s) (auto simp: bind_eq_Some_conv intro: net_reachable.step)

text \<open>Every step of the network is a step of the session or none.\<close>

lemma net_step_session:
  assumes "net_step push strict serve e s = Some s'"
  obtains (user) ev where "user_step push strict ev (session s) = Some (session s')"
    | (node) "session s' = session s"
  using assms by (cases e) (auto simp: net_step_def split: option.splits if_splits)

lemma net_reachable_session:
  "net_reachable push strict serve (start_net u0) s \<Longrightarrow> reachable push strict u0 (session s)"
proof (induction rule: net_reachable.induct)
  case initial
  show ?case by (simp add: start_net_def reachable.initial)
next
  case (step s e s')
  from step.hyps(2) step.IH show ?case
    by (cases rule: net_step_session) (auto intro: reachable.step)
qed

section \<open>Accounting\<close>

text \<open>
  What the session relays or has relayed, and what is under way, by a key of the messages:
  \<open>kin\<close> of inputs, \<open>kout\<close> of results.
\<close>

definition relaying :: "'n user \<Rightarrow> message list" where
  "relaying u = concat (map (\<lambda>(n, st). case st of Receiving \<Rightarrow> [] | Relaying msg \<Rightarrow> [msg]) (loops u))"

definition results :: "(message \<Rightarrow> 'k) \<Rightarrow> 'n user \<Rightarrow> 'k multiset" where
  "results kout u = image_mset kout (mset (relayed u) + mset (relaying u))"

definition keys_out :: "(message \<Rightarrow> 'k) \<Rightarrow> (message \<Rightarrow> 'k) \<Rightarrow> 'n net \<Rightarrow> 'k multiset" where
  "keys_out kin kout s = results kout (session s) +
     image_mset (kout \<circ> snd) (mset (from_node s)) + image_mset (kin \<circ> snd) (mset (to_node s))"

definition keys_in :: "(message \<Rightarrow> 'k) \<Rightarrow> 'n user \<Rightarrow> 'k multiset" where
  "keys_in kin u = image_mset (kin \<circ> snd) (mset (delivered u))"

lemma dispatch_delivered [simp]: "delivered (dispatch_input who msg u) = delivered u"
  by (rule dispatch_cases[of u who msg]) simp_all

lemma results_cong:
  "relayed u' = relayed u \<Longrightarrow> loops u' = loops u \<Longrightarrow> results kout u' = results kout u"
  by (simp add: results_def relaying_def)

lemma results_same:
  "relayed u' = relayed u \<Longrightarrow> loops u' = loops u \<Longrightarrow> results kout u' \<subseteq># results kout u"
  using results_cong[of u' u kout] by simp

text \<open>What one receiver loop contributes.\<close>

fun carried :: "'n \<times> loop_state \<Rightarrow> message multiset" where
  "carried (n, Receiving) = {#}"
| "carried (n, Relaying msg) = {#msg#}"

lemma relaying_mset: "mset (relaying u) = (\<Sum>l\<leftarrow>loops u. carried l)"
  unfolding relaying_def
proof (induction "loops u" arbitrary: u)
  case (Cons l ls)
  from Cons(1)[of "u\<lparr> loops := ls \<rparr>"] Cons(2)[symmetric] show ?case
    by (cases l) (auto split: loop_state.split)
qed simp

lemma carried_remove1:
  "l \<in> set ls \<Longrightarrow> (\<Sum>k\<leftarrow>ls. carried k) = carried l + (\<Sum>k\<leftarrow>remove1 l ls. carried k)"
proof (induction ls)
  case (Cons k ls)
  then show ?case by (cases "k = l") (auto simp: union_assoc union_lcomm)
qed simp

lemma carried_filter: "(\<Sum>l\<leftarrow>filter P ls. carried l) \<subseteq># (\<Sum>l\<leftarrow>ls. carried l)"
  by (induction ls) (auto intro: subset_mset.add_mono subset_mset.order_trans)

lemma end_loop_results: "results kout (end_loop n st u) \<subseteq># results kout u"
proof (cases "(n, st) \<in> set (loops u)")
  case True
  then show ?thesis
    using carried_remove1[OF True] by (simp add: results_def relaying_mset end_loop_def image_mset_subseteq_mono)
next
  case False
  then show ?thesis by (simp add: results_def relaying_mset end_loop_def remove1_idem)
qed

lemma end_loop_delivered [simp]: "delivered (end_loop n st u) = delivered u"
  by (simp add: end_loop_def)

text \<open>What the events of a session do to the accounts.\<close>

lemma local_accounts:
  assumes "user_step push strict ev u = Some u'" and "local_event ev"
  shows "delivered u' = delivered u" and "results kout u' \<subseteq># results kout u"
proof -
  have "delivered u' = delivered u \<and> results kout u' \<subseteq># results kout u"
  proof (cases ev)
    case (User_message r)
    then have u': "u' = on_user_message strict r u" using assms by (auto simp: user_step_def split: if_splits)
    show ?thesis unfolding u'
      by (rule user_message_cases[of strict r u]) (auto intro!: results_same)
  next
    case Resume_dispatch
    then have "on_resume u = Some u'" using assms by (auto simp: user_step_def split: if_splits)
    then show ?thesis
      by (auto simp: on_resume_def spawn_sender_def intro!: results_same split: resumption.splits prod.splits)
  next
    case (Sent n ec)
    then obtain e where e: "ec = Some e" using assms(2) by (cases ec) auto
    with Sent assms have "on_sent push n (Some e) u = Some u'" by (auto simp: user_step_def split: if_splits)
    then show ?thesis
      by (auto simp: on_sent_def Let_def intro!: results_same split: option.splits)
  next
    case (Node_message n r)
    then obtain e where e: "r = Inl e" using assms(2) by (cases r) auto
    with Node_message assms have "on_node_message n (Inl e) u = Some u'"
      by (auto simp: user_step_def split: if_splits)
    then show ?thesis by (auto simp: on_node_message_def intro: end_loop_results split: if_splits)
  next
    case (Relayed n msg ec)
    then have r: "on_relayed n msg ec u = Some u'" using assms by (auto simp: user_step_def split: if_splits)
    then have l: "(n, Relaying msg) \<in> set (loops u)" by (auto simp: on_relayed_def split: if_splits)
    show ?thesis
    proof (cases ec)
      case None
      with r l show ?thesis
        using carried_remove1[OF l] by (auto simp: on_relayed_def results_def relaying_mset)
    next
      case (Some e)
      with r l show ?thesis by (auto simp: on_relayed_def intro: end_loop_results)
    qed
  next
    case Data_drained
    then have "on_data_drained u = Some u'" using assms by (auto simp: user_step_def split: if_splits)
    then show ?thesis
      by (auto simp: on_data_drained_def Let_def results_def relaying_mset o_def carried_filter
          intro!: image_mset_subseteq_mono split: if_splits)
  next
    case Loops_drained
    then have "on_loops_drained u = Some u'" using assms by (auto simp: user_step_def split: if_splits)
    then show ?thesis
      by (auto simp: on_loops_drained_def intro!: results_same split: if_splits)
  qed
  then show "delivered u' = delivered u" "results kout u' \<subseteq># results kout u" by blast+
qed

lemma sent_accounts:
  assumes "user_step push strict (Sent n None) u = Some u'" and "map_of (sending u) n = Some msg"
  shows "delivered u' = delivered u @ [(n, msg)]" and "results kout u' = results kout u"
proof -
  have "on_sent push n None u = Some u'" using assms(1) by (auto simp: user_step_def split: if_splits)
  with assms(2) have u': "u' = u\<lparr> sending := remove1 (n, msg) (sending u), nodes := push n (nodes u),
      delivered := delivered u @ [(n, msg)] \<rparr>" by (simp add: on_sent_def Let_def)
  show "delivered u' = delivered u @ [(n, msg)]" by (simp add: u')
  show "results kout u' = results kout u" by (rule results_cong) (simp_all add: u')
qed

lemma received_accounts:
  assumes "user_step push strict (Node_message n (Inr msg)) u = Some u'"
  shows "delivered u' = delivered u" and "results kout u' \<subseteq># add_mset (kout msg) (results kout u)"
proof -
  have r: "on_node_message n (Inr msg) u = Some u'" using assms by (auto simp: user_step_def split: if_splits)
  then have l: "(n, Receiving) \<in> set (loops u)" by (auto simp: on_node_message_def split: if_splits)
  consider "u' = end_loop n Receiving u" | "u' = u\<lparr> main := Crashed \<rparr>"
    | "u' = u\<lparr> loops := (n, Relaying msg) # remove1 (n, Receiving) (loops u) \<rparr>"
    using r by (auto simp: on_node_message_def split: if_splits option.splits bool.splits)
  then have "delivered u' = delivered u \<and> results kout u' \<subseteq># add_mset (kout msg) (results kout u)"
  proof cases
    case 1
    then show ?thesis using end_loop_results[of kout n Receiving u]
      by (auto intro: subset_mset.order_trans)
  next
    case 2
    then show ?thesis using results_cong[of u' u kout] by simp
  next
    case 3
    then show ?thesis using carried_remove1[OF l] by (simp add: results_def relaying_mset)
  qed
  then show "delivered u' = delivered u" "results kout u' \<subseteq># add_mset (kout msg) (results kout u)" by blast+
qed

section \<open>Nodes\<close>

text \<open>
  What the accounting asks of the nodes: a result has the key of its input, and copies of a
  message have one key.
\<close>

locale node_service =
  fixes serve :: "'n \<Rightarrow> message \<Rightarrow> message option"
    and kin :: "message \<Rightarrow> 'k"
    and kout :: "message \<Rightarrow> 'k"
  assumes serve_key: "well_allocated m \<Longrightarrow> serve n m = Some r \<Longrightarrow> kout r = kin m"
    and kin_copy: "same_content m m' \<Longrightarrow> kin m' = kin m"
    and kout_copy: "same_content m m' \<Longrightarrow> kout m' = kout m"
begin

definition balanced :: "'n net \<Rightarrow> bool" where
  "balanced s \<longleftrightarrow> keys_out kin kout s \<subseteq># keys_in kin (session s) \<and>
     (\<forall>x \<in> set (to_node s). well_allocated (snd x))"

lemma local_balanced:
  assumes b: "balanced s" and "user_step push strict ev (session s) = Some u" and "local_event ev"
  shows "balanced (s\<lparr> session := u \<rparr>)"
proof -
  note a = local_accounts[OF assms(2,3)]
  have "keys_out kin kout (s\<lparr> session := u \<rparr>) \<subseteq># keys_out kin kout s"
    unfolding keys_out_def by (simp add: a(2) subset_mset.add_mono)
  with b a(1) show ?thesis by (auto simp: balanced_def keys_in_def intro: subset_mset.order_trans)
qed

lemma sent_balanced:
  assumes b: "balanced s" and "user_step push strict (Sent n None) (session s) = Some u"
    and "map_of (sending (session s)) n = Some msg" and "copy msg msg'"
  shows "balanced (s\<lparr> session := u, to_node := to_node s @ [(n, msg')] \<rparr>)"
  using b sent_accounts(1)[OF assms(2,3)] sent_accounts(2)[OF assms(2,3), where kout = kout]
    kin_copy[of msg msg'] assms(4)
  by (auto simp: balanced_def keys_out_def keys_in_def copy_def union_assoc)

lemma served_balanced:
  assumes b: "balanced s" and m: "map_of (to_node s) n = Some msg" and r: "serve n msg = Some outp"
  shows "balanced (s\<lparr> to_node := remove1 (n, msg) (to_node s), from_node := from_node s @ [(n, outp)] \<rparr>)"
proof -
  have "well_allocated msg" using b map_of_SomeD[OF m] by (auto simp: balanced_def)
  with r have k: "kout outp = kin msg" by (simp add: serve_key)
  have g: "image_mset (kin \<circ> snd) (mset (to_node s)) =
      add_mset (kin msg) (image_mset (kin \<circ> snd) (mset (remove1 (n, msg) (to_node s))))"
    unfolding sending_split[OF m] by simp
  have "keys_out kin kout (s\<lparr> to_node := remove1 (n, msg) (to_node s), from_node := from_node s @ [(n, outp)] \<rparr>) =
      keys_out kin kout s"
    unfolding keys_out_def g by (simp add: k del: mset_remove1)
  with b show ?thesis by (auto simp: balanced_def dest: notin_set_remove1)
qed

lemma received_balanced:
  assumes b: "balanced s" and m: "map_of (from_node s) n = Some msg" and c: "copy msg msg'"
    and u: "user_step push strict (Node_message n (Inr msg')) (session s) = Some u"
  shows "balanced (s\<lparr> session := u, from_node := remove1 (n, msg) (from_node s) \<rparr>)"
proof -
  have k: "kout msg' = kout msg" using c kout_copy by (simp add: copy_def)
  note a = received_accounts[OF u]
  have f: "image_mset (kout \<circ> snd) (mset (from_node s)) =
      add_mset (kout msg) (image_mset (kout \<circ> snd) (mset (remove1 (n, msg) (from_node s))))"
    unfolding sending_split[OF m] by simp
  have "keys_out kin kout (s\<lparr> session := u, from_node := remove1 (n, msg) (from_node s) \<rparr>) \<subseteq>#
      keys_out kin kout s"
    using subset_mset.add_right_mono[OF a(2)[of kout], of "image_mset (kout \<circ> snd) (mset (remove1 (n, msg) (from_node s)))"]
    unfolding keys_out_def f k by (simp del: mset_remove1)
  with b a(1) show ?thesis by (auto simp: balanced_def keys_in_def intro: subset_mset.order_trans)
qed

lemma down_balanced [simp]: "balanced (s\<lparr> down := d \<rparr>) = balanced s"
  by (simp add: balanced_def keys_out_def)

lemma step_balanced:
  assumes "balanced s" and "net_step push strict serve e s = Some s'"
  shows "balanced s'"
  using assms
  by (cases e) (auto simp: net_step_def local_balanced sent_balanced served_balanced received_balanced split: option.splits if_splits)

lemma reachable_balanced:
  "net_reachable push strict serve s0 s \<Longrightarrow> balanced s0 \<Longrightarrow> balanced s"
  by (induction rule: net_reachable.induct) (auto intro: step_balanced)

text \<open>A session in its first state has relayed nothing and delivered nothing.\<close>

lemma start_balanced:
  assumes "start push c0 d0 r0 conns first comps rec = Inr u0" and "push = queue_push \<or> push = stack_push"
  shows "balanced (start_net u0)"
proof -
  have "mset (loops u0) = mset (map (\<lambda>n. (n, Receiving)) (configured comps))"
    using start_shape[OF assms] by blast
  then have "set (loops u0) = set (map (\<lambda>n. (n, Receiving)) (configured comps))" by (rule mset_eq_setD)
  moreover have "relayed u0 = []" using start_shape[OF assms] by blast
  ultimately have "results kout u0 = {#}"
    by (auto simp: results_def relaying_def)
  then show ?thesis by (simp add: balanced_def start_net_def keys_out_def)
qed

lemma results_bounded:
  assumes "start push c0 d0 r0 conns first comps rec = Inr u0" and p: "push = queue_push \<or> push = stack_push"
    and r: "net_reachable push strict serve (start_net u0) s" and c: "main (session s) \<noteq> Crashed"
  shows "image_mset kout (mset (relayed (session s))) \<subseteq># image_mset kin (mset (accepted (session s)))"
proof -
  let ?u = "session s"
  have "inputs_ok ?u"
    using p net_reachable_session[OF r] queue_user.reachable_inputs stack_user.reachable_inputs
      started_inputs[OF assms(1) p] by blast
  with c have "mset (map snd (delivered ?u)) \<subseteq># mset (accepted ?u)"
    unfolding inputs_ok_def input_bag_def by (metis mset_map mset_subset_eq_add_right)
  then have "keys_in kin ?u \<subseteq># image_mset kin (mset (accepted ?u))"
    using image_mset_subseteq_mono[of _ _ kin] by (fastforce simp: keys_in_def multiset.map_comp)
  moreover have "keys_out kin kout s \<subseteq># keys_in kin ?u"
    using reachable_balanced[OF r start_balanced[OF assms(1) p]] by (simp add: balanced_def)
  moreover have "image_mset kout (mset (relayed ?u)) \<subseteq># keys_out kin kout s"
    by (simp add: keys_out_def results_def)
  ultimately show ?thesis by (meson subset_mset.order_trans)
qed

lemma results_complete:
  assumes st: "start push c0 0 r0 conns first comps rec = Inr u0" and p: "push = queue_push \<or> push = stack_push"
    and r: "net_reachable push strict serve (start_net u0) s"
    and m: "main (session s) \<in> {Draining_loops, Finished True}"
    and l: "length (accepted (session s)) < 2 ^ 32"
  shows "image_mset kout (mset (relayed (session s))) = image_mset kin (mset (accepted (session s)))"
proof -
  let ?u = "session s"
  have "data_ok 0 ?u" using reachable_data[OF net_reachable_session[OF r] started_data[OF st p]] .
  with m l have "length (accepted ?u) \<le> length (relayed ?u)" by (auto simp: data_ok_def)
  moreover have "image_mset kout (mset (relayed ?u)) \<subseteq># image_mset kin (mset (accepted ?u))"
    using results_bounded[OF st p r] m by auto
  ultimately show ?thesis by (metis mset_subset_size not_le size_image_mset size_mset subset_mset.le_imp_less_or_eq)
qed

end

section \<open>Connections deliver copies\<close>

text \<open>
  Why \<open>copy\<close> is what a connection does: a message written by \<open>send_message\<close> is what the
  next \<open>receive_message\<close> returns, up to the bytes nobody sets, and the stream goes on behind it.
\<close>

lemma connection_copies:
  assumes "reads_stream pending rd" and "no_read_error pending rd" and "is_valid_message m"
    and "unat (payload_size m) < 2 ^ 32 - 8" and "pending s = wire m @ rest"
  shows "\<exists>m' s'. receive_message rd fresh s = Some ((None, Some m'), s') \<and> copy m m' \<and>
    pending s' = rest"
proof -
  obtain m' s' where r: "receive_message rd fresh s = Some ((None, Some m'), s')"
      "same_content m' m" "pending s' = rest"
    using receive_one[OF assms] by blast
  moreover have "well_allocated m'"
    using received_print(2)[OF assms(1) r(1)] by (simp add: well_allocated_def)
  moreover have "same_content m m'" using r(2) by (auto simp: same_content_def)
  ultimately show ?thesis unfolding copy_def by blast
qed

section \<open>The node of the benchmark\<close>

text \<open>A node that was given the configuration \<open>cfg\<close>; one that refuses it serves nothing.\<close>

definition benchmark_serve ::
  "('n \<Rightarrow> message \<Rightarrow> mem) \<Rightarrow> message \<Rightarrow> 'n \<Rightarrow> message \<Rightarrow> message option" where
  "benchmark_serve fresh cfg n inp =
     (case node_main (Inr cfg) None of
        None \<Rightarrow> None
      | Some cfg \<Rightarrow>
          (case node_process (fresh n inp) cfg inp of Reply outp \<Rightarrow> Some outp | _ \<Rightarrow> None))"

lemma benchmark_serve_Some:
  "benchmark_serve fresh cfg n inp = Some outp \<Longrightarrow>
     benchmark_config cfg \<and> node_process (fresh n inp) cfg inp = Reply outp"
  by (auto simp: benchmark_serve_def node_main_def config_received_def split: option.splits node_result.splits if_splits)

interpretation benchmark: node_service "benchmark_serve fresh cfg"
  "data_key (cfg_input_size cfg)" "data_key (cfg_output_size cfg)" for fresh :: "'n \<Rightarrow> message \<Rightarrow> mem" and cfg
proof unfold_locales
  show "data_key (cfg_output_size cfg) r = data_key (cfg_input_size cfg) m"
    if "well_allocated m" "benchmark_serve fresh cfg n m = Some r" for m r and n :: 'n
    using benchmark_serve_Some[OF that(2)] node_reply(4)[OF _ that(1)] by blast
qed (simp_all add: data_key_copy)

text \<open>
  C4: the whole system, with any number of the nodes that come with the server, any
  interleaving, failing sends and receives, nodes that stop or are slow: every result relayed
  to the user is the result of an input of its own, with the same identifier, first bytes and
  number of blocks, none twice and none invented; and when the session has drained (its data counter having started at zero), exactly one
  result was relayed for every input.
\<close>

theorem results_answer_inputs:
  assumes "start push c0 0 r0 conns first comps rec = Inr u0"
    and "push = queue_push \<or> push = stack_push"
    and "net_reachable push strict (benchmark_serve fresh cfg) (start_net u0) s"
    and "main (session s) \<noteq> Crashed"
  shows "image_mset (data_key (cfg_output_size cfg)) (mset (relayed (session s))) \<subseteq>#
      image_mset (data_key (cfg_input_size cfg)) (mset (accepted (session s))) \<and>
    (main (session s) \<in> {Draining_loops, Finished True} \<and> length (accepted (session s)) < 2 ^ 32 \<longrightarrow>
      image_mset (data_key (cfg_output_size cfg)) (mset (relayed (session s))) =
      image_mset (data_key (cfg_input_size cfg)) (mset (accepted (session s))))"
  using benchmark.results_bounded[OF assms] benchmark.results_complete[OF assms(1-3)] by blast

section \<open>A sample run\<close>

abbreviation "bench_config \<equiv> benchmarking_config (\<lambda>_. 0) (64 * 64 * 4 * 2) (64 * 64 * 4) 919"
abbreviation "bench_input \<equiv> sending_input (\<lambda>_. 0) 5 [1, 2, 3, 4, 5, 6, 7, 8]"

definition bench_user :: "nat user" where
  "bench_user = (demo_user [1])\<lparr> config := bench_config \<rparr>"

lemma bench_start:
  "start queue_push 0 0 0 [1] (Inr bench_config) [(1, None)] None = Inr bench_user"
  using benchmarking_config_fields(1)[of "\<lambda>_. 0" 919]
  by (simp add: start_def configure_nodes_def drain_pool_run start_loops_def empty_pool_def
      queue_push_def cancel_one_def zero_reached_def counter_incr_def counter_decr_def demo_user_def bench_user_def)

lemma copy_self: "well_allocated m \<Longrightarrow> copy m m"
  by (simp add: copy_def same_content_def)

lemma bench_facts:
  "is_valid_config bench_config" "cfg_input_size bench_config = 64 * 64 * 4 * 2"
  "cfg_output_size bench_config = 64 * 64 * 4" "benchmark_config bench_config"
  "is_valid_data_of bench_config n = (Some False)" "is_valid_data_of bench_input (64 * 64 * 4 * 2) = Some True"
  "well_allocated bench_input"
  using benchmarking_config_fields[of "\<lambda>_. 0" 919] sending_input_fields[where fresh = "\<lambda>_. 0" and i = 5 and stamp = "[1, 2, 3, 4, 5, 6, 7, 8]"]
  by (simp_all add: is_valid_data_of_def is_valid_config_def)

lemma bench_run:
  "\<exists>outp s. net_run queue_push True (benchmark_serve (\<lambda>_ _ _. 0) bench_config)
      [Local (User_message (Inr bench_input)), Input_sent 1 bench_input, Node_serves 1, Result_received 1 outp,
       Local (Relayed 1 outp None), Local (User_message (Inr bench_config)), Local Data_drained, Local Loops_drained]
      (start_net bench_user) = Some s \<and>
    main (session s) = Finished True \<and> accepted (session s) = [bench_input] \<and> relayed (session s) = [outp]"
proof -
  obtain outp where o: "node_process (\<lambda>_. 0) bench_config bench_input = Reply outp"
    using clients_agree[of "\<lambda>_. 0" 919 bench_config "\<lambda>_. 0" 5 "[1, 2, 3, 4, 5, 6, 7, 8]" bench_input "\<lambda>_. 0"]
      benchmarking_config_fields(2)[of "\<lambda>_. 0" 919] bench_facts(7)
    by (auto simp: same_content_def)
  note r = node_reply[OF bench_facts(4,7) o]
  have "benchmark_serve (\<lambda>_ _ _. 0) bench_config (1 :: nat) bench_input = Some outp"
    using o bench_facts(1,4) by (simp add: benchmark_serve_def node_main_def config_received_def)
  moreover have "is_valid_data_of outp (64 * 64 * 4) = Some True" using r(1) bench_facts(3) by simp
  ultimately show ?thesis
    using bench_facts copy_self[OF r(2)] copy_self[OF bench_facts(7)]
    by (intro exI[of _ outp]) (simp add: net_step_def start_net_def bench_user_def demo_run_simps del: One_nat_def)
qed

theorem results_answer_inputs_witness:
  "\<exists>s :: nat net. accepted (session s) = [bench_input] \<and> main (session s) = Finished True \<and>
     image_mset (data_key (64 * 64 * 4)) (mset (relayed (session s))) =
     {#data_key (64 * 64 * 4 * 2) bench_input#}"
proof -
  obtain outp s where s: "net_run queue_push True (benchmark_serve (\<lambda>_ _ _. 0) bench_config)
      [Local (User_message (Inr bench_input)), Input_sent 1 bench_input, Node_serves 1, Result_received 1 outp,
       Local (Relayed 1 outp None), Local (User_message (Inr bench_config)), Local Data_drained, Local Loops_drained]
      (start_net bench_user) = Some s"
    "main (session s) = Finished True" "accepted (session s) = [bench_input]"
    using bench_run by blast
  from results_answer_inputs[OF bench_start _ net_run_reachable[OF net_reachable.initial s(1)]] s(2,3) bench_facts(2,3)
  show ?thesis by (intro exI[of _ s]) simp
qed

end
