(* ===== verification/Delivery.thy ===== *)
theory Delivery
  imports Network
begin

text \<open>
  When nothing fails: as long as no send or receive reports an error and the user sends inputs
  only, the system works off what it has accepted.  Every internal step brings some input
  nearer to the user, and as long as one is not there, some internal step is possible.
\<close>

section \<open>Runs without failures\<close>

fun internal :: "'n net_event \<Rightarrow> bool" where
  "internal (Local Resume_dispatch) = True"
| "internal (Local (Relayed n msg None)) = True"
| "internal (Input_sent n msg) = True"
| "internal (Result_received n msg) = True"
| "internal (Node_serves n) = True"
| "internal _ = False"

text \<open>Besides, the user may send an input (of the kind \<open>good\<close>).\<close>

fun calm :: "(message \<Rightarrow> bool) \<Rightarrow> 'n net_event \<Rightarrow> bool" where
  "calm good (Local (User_message (Inr msg))) = good msg"
| "calm good e = internal e"

inductive calm_reachable ::
  "('n \<Rightarrow> ('n, job) ready \<Rightarrow> ('n, job) ready) \<Rightarrow> bool \<Rightarrow> ('n \<Rightarrow> message \<Rightarrow> message option) \<Rightarrow>
   (message \<Rightarrow> bool) \<Rightarrow> 'n net \<Rightarrow> 'n net \<Rightarrow> bool" for push strict serve good s0 where
  initial: "calm_reachable push strict serve good s0 s0"
| step: "calm_reachable push strict serve good s0 s \<Longrightarrow> calm good e \<Longrightarrow>
     net_step push strict serve e s = Some s' \<Longrightarrow> calm_reachable push strict serve good s0 s'"

lemma internal_local:
  "internal (Local ev) \<longleftrightarrow> ev = Resume_dispatch \<or> (\<exists>n msg. ev = Relayed n msg None)"
proof (cases ev)
  case (Relayed n msg ec)
  then show ?thesis by (cases ec) auto
qed auto

lemma calm_local:
  "calm good (Local ev) \<longleftrightarrow> (\<exists>msg. ev = User_message (Inr msg) \<and> good msg) \<or> internal (Local ev)"
proof (cases ev)
  case (User_message r)
  then show ?thesis by (cases r) auto
qed auto

lemma calm_net: "calm_reachable push strict serve good s0 s \<Longrightarrow> net_reachable push strict serve s0 s"
  by (induction rule: calm_reachable.induct) (auto intro: net_reachable.intros)

text \<open>How far the inputs are from the user, and how many they are.\<close>

definition distance :: "'n net \<Rightarrow> nat" where
  "distance s = (let u = session s in
     6 * length (waiters (nodes u)) + 5 * length (woken (nodes u)) + 4 * length (sending u) +
     3 * length (to_node s) + 2 * length (from_node s) + length (relaying u))"

definition outstanding :: "'n net \<Rightarrow> nat" where
  "outstanding s = (let u = session s in
     length (waiters (nodes u)) + length (woken (nodes u)) + length (sending u) +
     length (to_node s) + length (from_node s) + length (relaying u))"

lemma swap_first:
  "(n, a) \<in> set ls \<Longrightarrow> mset (map fst ((n, b) # remove1 (n, a) ls)) = mset (map fst ls)"
  by (induction ls) (auto simp: add_mset_commute)

section \<open>Prompt nodes\<close>

text \<open>A node that answers every good input with a result the session takes.\<close>

locale prompt_service = node_service serve kin kout
  for serve :: "'n \<Rightarrow> message \<Rightarrow> message option" and kin kout :: "message \<Rightarrow> 'k" +
  fixes good :: "message \<Rightarrow> bool" and isz osz :: u32
  assumes good_allocated: "good m \<Longrightarrow> well_allocated m"
    and good_accepted: "good m \<Longrightarrow> is_valid_data_of m isz = Some True"
    and good_copy: "good m \<Longrightarrow> copy m m' \<Longrightarrow> good m'"
    and good_served: "good m \<Longrightarrow> \<exists>r. serve n m = Some r \<and> well_allocated r \<and>
      is_valid_data_of r osz = Some True"
begin

definition result_ok :: "message \<Rightarrow> bool" where
  "result_ok m \<longleftrightarrow> well_allocated m \<and> is_valid_data_of m osz = Some True"

lemma result_ok_copy: "result_ok m \<Longrightarrow> copy m m' \<Longrightarrow> result_ok m'"
  using data_copy(2)[of m m'] by (auto simp: result_ok_def copy_def)

text \<open>
  The invariant of a run without failures on the nodes \<open>N\<close>: the main loop is the only one
  that ever waits for a node, and if it was woken there is one; no node and no receiver loop
  is lost; everything under way is good.
\<close>

definition pool_calm :: "'n user \<Rightarrow> bool" where
  "pool_calm u \<longleftrightarrow>
     (main u = Reading \<and> waiters (nodes u) = [] \<and> woken (nodes u) = []) \<or>
     (\<exists>m. good m \<and> main u = Dispatching \<and> items (nodes u) = [] \<and>
        waiters (nodes u) = [(Main_loop, m)] \<and> woken (nodes u) = []) \<or>
     (\<exists>m. good m \<and> main u = Dispatching \<and> items (nodes u) \<noteq> [] \<and>
        waiters (nodes u) = [] \<and> woken (nodes u) = [(Main_loop, m)])"

definition steady :: "'n list \<Rightarrow> 'n net \<Rightarrow> bool" where
  "steady N s \<longleftrightarrow>
     (let u = session s in
      pool_calm u \<and> cfg_input_size (config u) = isz \<and> cfg_output_size (config u) = osz \<and> down s = {} \<and>
      node_bag u = mset N \<and> mset (map fst (loops u)) = mset N \<and>
      length (accepted u) = outstanding s + length (relayed u) \<and>
      (\<forall>x \<in> set (sending u). good (snd x)) \<and>
      (\<forall>x \<in> set (to_node s). fst x \<in> set N \<and> good (snd x)) \<and>
      (\<forall>x \<in> set (from_node s). fst x \<in> set N \<and> result_ok (snd x)))"

lemma steady_alive: "steady N s \<Longrightarrow> alive (session s)"
  by (auto simp: steady_def pool_calm_def Let_def alive_def)

lemma length_relaying: "length (relaying u) = size (\<Sum>l\<leftarrow>loops u. carried l)"
  unfolding relaying_mset[symmetric] by simp

lemma steady_input:
  assumes st: "steady N s" and g: "good m" and r: "main (session s) = Reading"
  shows "steady N (s\<lparr> session := on_user_message strict (Inr m) (session s) \<rparr>)"
proof -
  let ?u = "session s"
  have q: "waiters (nodes ?u) = []" "woken (nodes ?u) = []"
    using st r by (auto simp: steady_def pool_calm_def Let_def)
  have "is_valid_data_of m (cfg_input_size (config ?u)) = Some True"
    using st g good_accepted by (simp add: steady_def Let_def)
  then have "on_user_message strict (Inr m) ?u = dispatch_input Main_loop m
      (?u\<lparr> data_counter := counter_incr (data_counter ?u), accepted := accepted ?u @ [m] \<rparr>)"
    by (simp add: on_user_message_def)
  moreover have "steady N (s\<lparr> session := dispatch_input Main_loop m
      (?u\<lparr> data_counter := counter_incr (data_counter ?u), accepted := accepted ?u @ [m] \<rparr>) \<rparr>)"
    using st g q
    by (rule_tac dispatch_cases[of "?u\<lparr> data_counter := counter_incr (data_counter ?u), accepted := accepted ?u @ [m] \<rparr>" Main_loop m])
       (auto simp: steady_def pool_calm_def Let_def node_bag_def outstanding_def relaying_def)
  ultimately show ?thesis by simp
qed

lemma steady_resume:
  assumes st: "steady N s" and r: "on_resume (session s) = Some u"
  shows "steady N (s\<lparr> session := u \<rparr>)"
  using r
proof (cases rule: on_resume_cases)
  case ub
  from st r show ?thesis
    by (auto simp: steady_def pool_calm_def Let_def on_resume_def resume_pop_def pool_pop_def spawn_sender_def
        node_bag_def outstanding_def relaying_def split: list.splits)
next
  case (pop who msg ws n xs)
  from st pop show ?thesis
    by (auto simp: steady_def pool_calm_def Let_def node_bag_def outstanding_def relaying_def)
qed

lemma steady_served:
  assumes st: "steady N s" and m: "map_of (to_node s) n = Some msg" and r: "serve n msg = Some outp"
  shows "steady N (s\<lparr> to_node := remove1 (n, msg) (to_node s), from_node := from_node s @ [(n, outp)] \<rparr>)"
proof -
  have x: "(n, msg) \<in> set (to_node s)" using map_of_SomeD[OF m] .
  then have g: "good msg" "n \<in> set N" using st by (auto simp: steady_def Let_def)
  have "length (to_node s) = Suc (length (remove1 (n, msg) (to_node s)))"
    using x by (metis One_nat_def Suc_pred length_pos_if_in_set length_remove1)
  moreover have "result_ok outp" using good_served[OF g(1), of n] r by (simp add: result_ok_def)
  ultimately show ?thesis
    using st g by (auto simp: steady_def pool_calm_def Let_def outstanding_def dest: notin_set_remove1)
qed

lemma steady_received:
  assumes st: "steady N s" and m: "map_of (from_node s) n = Some msg" and c: "copy msg msg'"
    and u: "on_node_message n (Inr msg') (session s) = Some u"
  shows "steady N (s\<lparr> session := u, from_node := remove1 (n, msg) (from_node s) \<rparr>)"
proof -
  let ?u = "session s"
  have x: "(n, msg) \<in> set (from_node s)" using map_of_SomeD[OF m] .
  then have "result_ok msg'" using st c result_ok_copy by (auto simp: steady_def Let_def)
  then have "is_valid_data_of msg' (cfg_output_size (config ?u)) = Some True"
    using st by (simp add: steady_def Let_def result_ok_def)
  with u have l: "(n, Receiving) \<in> set (loops ?u)"
    and u': "u = ?u\<lparr> loops := (n, Relaying msg') # remove1 (n, Receiving) (loops ?u) \<rparr>"
    by (auto simp: on_node_message_def split: if_splits)
  have "length (from_node s) = Suc (length (remove1 (n, msg) (from_node s)))"
    using x by (metis One_nat_def Suc_pred length_pos_if_in_set length_remove1)
  moreover have "length (relaying u) = Suc (length (relaying ?u))"
    using carried_remove1[OF l] by (simp add: length_relaying u')
  moreover have "mset (map fst (loops u)) = mset (map fst (loops ?u))"
  proof -
    have "loops u = (n, Relaying msg') # remove1 (n, Receiving) (loops ?u)" by (simp add: u')
    then show ?thesis by (simp only: swap_first[OF l])
  qed
  ultimately show ?thesis
    using st by (auto simp: u' steady_def pool_calm_def Let_def outstanding_def node_bag_def dest: notin_set_remove1)
qed

lemma steady_relayed:
  assumes st: "steady N s" and u: "on_relayed n msg None (session s) = Some u"
  shows "steady N (s\<lparr> session := u \<rparr>)"
proof -
  let ?u = "session s"
  from u have l: "(n, Relaying msg) \<in> set (loops ?u)"
    and u': "u = ?u\<lparr> loops := (n, Receiving) # remove1 (n, Relaying msg) (loops ?u),
      data_counter := counter_decr (data_counter ?u), relayed := relayed ?u @ [msg] \<rparr>"
    by (auto simp: on_relayed_def split: if_splits)
  have "Suc (length (relaying u)) = length (relaying ?u)"
    using carried_remove1[OF l] by (simp add: length_relaying u')
  moreover have "mset (map fst (loops u)) = mset (map fst (loops ?u))"
  proof -
    have "loops u = (n, Receiving) # remove1 (n, Relaying msg) (loops ?u)" by (simp add: u')
    then show ?thesis by (simp only: swap_first[OF l])
  qed
  ultimately show ?thesis
    using st by (auto simp: u' steady_def pool_calm_def Let_def outstanding_def node_bag_def)
qed

end

text \<open>With a container of nodes in which a push wakes the coroutine that waits.\<close>

locale prompt_system = prompt_service serve kin kout good isz osz + waking_push push
  for serve :: "'n \<Rightarrow> message \<Rightarrow> message option" and kin kout :: "message \<Rightarrow> 'k" and good and isz osz
    and push :: "'n \<Rightarrow> ('n, job) ready \<Rightarrow> ('n, job) ready"
begin

lemma push_calm:
  assumes "pool_calm u"
  shows "pool_calm (u\<lparr> nodes := push n (nodes u), sending := x, delivered := y \<rparr>)"
    and "length (waiters (push n (nodes u))) + length (woken (push n (nodes u))) =
      length (waiters (nodes u)) + length (woken (nodes u))"
  using assms push_wakes[of "nodes u" _ _ n] push_quiet[of "nodes u" n] push_length[of n "nodes u"]
  by (auto simp: pool_calm_def simp flip: length_greater_0_conv)

lemma steady_sent:
  assumes st: "steady N s" and m: "map_of (sending (session s)) n = Some msg" and c: "copy msg msg'"
    and u: "on_sent push n None (session s) = Some u"
  shows "steady N (s\<lparr> session := u, to_node := to_node s @ [(n, msg')] \<rparr>)"
proof -
  let ?u = "session s"
  have x: "(n, msg) \<in> set (sending ?u)" using map_of_SomeD[OF m] .
  from u m have u': "u = ?u\<lparr> nodes := push n (nodes ?u), sending := remove1 (n, msg) (sending ?u),
      delivered := delivered ?u @ [(n, msg)] \<rparr>" by (auto simp: on_sent_def Let_def)
  have pc: "pool_calm ?u" and bag: "node_bag ?u = mset N" using st by (simp_all add: steady_def Let_def)
  have "good msg'" using st x c good_copy by (auto simp: steady_def Let_def)
  moreover have "n \<in> set N"
    using bag x by (metis fst_conv image_eqI node_bag_def set_map set_mset_mset set_mset_union UnI2)
  moreover have "node_bag u = node_bag ?u"
    using sending_split[OF m] by (simp add: node_bag_def u' push_items del: mset_remove1)
  moreover have "length (sending ?u) = Suc (length (remove1 (n, msg) (sending ?u)))"
    using x by (metis One_nat_def Suc_pred length_pos_if_in_set length_remove1)
  moreover have "pool_calm u" unfolding u' by (rule push_calm[OF pc])
  ultimately show ?thesis
    using st push_calm(2)[OF pc, of n]
    by (auto simp: u' steady_def Let_def outstanding_def relaying_def dest: notin_set_remove1)
qed

lemma steady_step:
  assumes st: "steady N s" and c: "calm good e" and n: "net_step push strict serve e s = Some s'"
  shows "steady N s'"
proof (cases e)
  case (Local ev)
  with n obtain u where u: "user_step push strict ev (session s) = Some u" "s' = s\<lparr> session := u \<rparr>"
    by (auto simp: net_step_def split: if_splits)
  from c Local consider (input) m where "ev = User_message (Inr m)" "good m"
    | (resume) "ev = Resume_dispatch" | (relayed) k m where "ev = Relayed k m None"
    unfolding Local calm_local internal_local by blast
  then show ?thesis
  proof cases
    case input
    with u have "main (session s) = Reading" "u = on_user_message strict (Inr m) (session s)"
      by (auto simp: user_step_def split: if_splits)
    with steady_input[OF st input(2)] u(2) show ?thesis by simp
  next
    case resume
    with u steady_resume[OF st] show ?thesis by (auto simp: user_step_def split: if_splits)
  next
    case relayed
    with u steady_relayed[OF st] show ?thesis by (auto simp: user_step_def split: if_splits)
  qed
next
  case (Input_sent k m)
  with n steady_sent[OF st] show ?thesis
    by (auto simp: net_step_def user_step_def split: option.splits if_splits)
next
  case (Result_received k m)
  with n steady_received[OF st] show ?thesis
    by (auto simp: net_step_def user_step_def split: option.splits if_splits)
next
  case (Node_serves k)
  with n obtain m where m: "map_of (to_node s) k = Some m" by (auto simp: net_step_def split: option.splits)
  then have "good m" using st map_of_SomeD[OF m] by (auto simp: steady_def Let_def)
  then obtain r where r: "serve k m = Some r" using good_served by blast
  with m n Node_serves steady_served[OF st m r] show ?thesis by (auto simp: net_step_def split: if_splits)
qed

lemma steady_reachable:
  "calm_reachable push strict serve good s0 s \<Longrightarrow> steady N s0 \<Longrightarrow> steady N s"
  by (induction rule: calm_reachable.induct) (auto intro: steady_step)

lemma remove1_shorter: "x \<in> set xs \<Longrightarrow> Suc (length (remove1 x xs)) = length xs"
  by (induction xs) auto

lemma distance_step:
  assumes st: "steady N s" and i: "internal e" and n: "net_step push strict serve e s = Some s'"
  shows "distance s' < distance s"
proof (cases e)
  case (Local ev)
  with n obtain u where u: "user_step push strict ev (session s) = Some u" "s' = s\<lparr> session := u \<rparr>"
    by (auto simp: net_step_def split: if_splits)
  from i Local consider (resume) "ev = Resume_dispatch" | (relayed) k m where "ev = Relayed k m None"
    unfolding Local internal_local by blast
  then show ?thesis
  proof cases
    case resume
    with u have "on_resume (session s) = Some u" by (auto simp: user_step_def split: if_splits)
    with st u(2) show ?thesis
      by (auto simp: steady_def pool_calm_def Let_def on_resume_def resume_pop_def pool_pop_def spawn_sender_def
          distance_def relaying_def split: list.splits)
  next
    case (relayed k m)
    with u have r: "on_relayed k m None (session s) = Some u" by (auto simp: user_step_def split: if_splits)
    then have l: "(k, Relaying m) \<in> set (loops (session s))" by (auto simp: on_relayed_def split: if_splits)
    with r carried_remove1[OF l] u(2) show ?thesis
      by (auto simp: on_relayed_def distance_def Let_def length_relaying)
  qed
next
  case (Input_sent k m)
  with n obtain msg u where m: "map_of (sending (session s)) k = Some msg"
    and u: "on_sent push k None (session s) = Some u" and s': "s' = s\<lparr> session := u, to_node := to_node s @ [(k, m)] \<rparr>"
    by (auto simp: net_step_def user_step_def split: option.splits if_splits)
  have pc: "pool_calm (session s)" using st by (simp add: steady_def Let_def)
  from u m have u': "u = session s\<lparr> nodes := push k (nodes (session s)), sending := remove1 (k, msg) (sending (session s)),
      delivered := delivered (session s) @ [(k, msg)] \<rparr>" by (auto simp: on_sent_def Let_def)
  have "length (waiters (push k (nodes (session s)))) \<le> length (waiters (nodes (session s)))"
    using push_wakes[of "nodes (session s)" _ _ k] push_quiet[of "nodes (session s)" k]
    by (cases "waiters (nodes (session s))") auto
  with push_calm(2)[OF pc, of k] remove1_shorter[OF map_of_SomeD[OF m]] show ?thesis
    by (simp add: s' u' distance_def Let_def relaying_def)
next
  case (Result_received k m)
  with n obtain msg u where m: "map_of (from_node s) k = Some msg" and c: "copy msg m"
    and u: "on_node_message k (Inr m) (session s) = Some u"
    and s': "s' = s\<lparr> session := u, from_node := remove1 (k, msg) (from_node s) \<rparr>"
    by (auto simp: net_step_def user_step_def split: option.splits if_splits)
  have x: "(k, msg) \<in> set (from_node s)" using map_of_SomeD[OF m] .
  then have "result_ok m" using st c result_ok_copy by (auto simp: steady_def Let_def)
  then have "is_valid_data_of m (cfg_output_size (config (session s))) = Some True"
    using st by (simp add: steady_def Let_def result_ok_def)
  with u have l: "(k, Receiving) \<in> set (loops (session s))"
    and u': "u = session s\<lparr> loops := (k, Relaying m) # remove1 (k, Receiving) (loops (session s)) \<rparr>"
    by (auto simp: on_node_message_def split: if_splits)
  from remove1_shorter[OF x] carried_remove1[OF l] show ?thesis
    by (simp add: s' u' distance_def Let_def length_relaying)
next
  case (Node_serves k)
  with n obtain m where m: "map_of (to_node s) k = Some m" by (auto simp: net_step_def split: option.splits)
  then have "good m" using st map_of_SomeD[OF m] by (auto simp: steady_def Let_def)
  then obtain r where r: "serve k m = Some r" using good_served by blast
  with m n Node_serves have "s' = s\<lparr> to_node := remove1 (k, m) (to_node s), from_node := from_node s @ [(k, r)] \<rparr>"
    by (auto simp: net_step_def split: if_splits)
  with remove1_shorter[OF map_of_SomeD[OF m]] show ?thesis by (simp add: distance_def Let_def)
qed

lemma first_key: "(k, v) # xs = ys \<Longrightarrow> map_of ys k = Some v"
  by auto

lemma progress:
  assumes st: "steady N s" and ne: "N \<noteq> []" and o: "outstanding s \<noteq> 0"
  shows "\<exists>e. internal e \<and> net_step push strict serve e s \<noteq> None"
proof -
  let ?u = "session s"
  note al = steady_alive[OF st]
  have good: "\<And>x. x \<in> set (sending ?u) \<Longrightarrow> good (snd x)" and d: "down s = {}"
    and res: "\<And>x. x \<in> set (from_node s) \<Longrightarrow> fst x \<in> set N \<and> result_ok (snd x)"
    and pc: "pool_calm ?u" and bag: "node_bag ?u = mset N" and lp: "mset (map fst (loops ?u)) = mset N"
    and osz: "cfg_output_size (config ?u) = osz"
    using st by (auto simp: steady_def Let_def)
  consider (sending) n m xs where "sending ?u = (n, m) # xs" | (to_node) n m xs where "to_node s = (n, m) # xs"
    | (relaying) "relaying ?u \<noteq> []" | (from_node) n m xs where "relaying ?u = []" "from_node s = (n, m) # xs"
    | (pool) "sending ?u = []" "to_node s = []" "relaying ?u = []" "from_node s = []"
    by (cases "sending ?u"; cases "to_node s"; cases "from_node s"; cases "relaying ?u") auto
  then show ?thesis
  proof cases
    case sending
    have "copy m m" using good[of "(n, m)"] sending good_allocated copy_self by simp
    with sending al have "net_step push strict serve (Input_sent n m) s \<noteq> None"
      by (simp add: net_step_def user_step_def on_sent_def Let_def)
    then show ?thesis by (intro exI[of _ "Input_sent n m"]) simp
  next
    case to_node
    with d have "net_step push strict serve (Node_serves n) s \<noteq> None"
      by (auto simp: net_step_def split: option.split)
    then show ?thesis by (intro exI[of _ "Node_serves n"]) simp
  next
    case relaying
    then obtain n m where "(n, Relaying m) \<in> set (loops ?u)"
      unfolding relaying_def by (auto split: loop_state.splits)
    with al have "net_step push strict serve (Local (Relayed n m None)) s \<noteq> None"
      by (simp add: net_step_def user_step_def on_relayed_def)
    then show ?thesis by (intro exI[of _ "Local (Relayed n m None)"]) simp
  next
    case from_node
    then have r: "n \<in> set N" "result_ok m" using res[of "(n, m)"] by simp_all
    then have "n \<in> set (map fst (loops ?u))" using lp by (metis set_mset_mset)
    then obtain st where l: "(n, st) \<in> set (loops ?u)" by auto
    moreover have "st = Receiving"
    proof (cases st)
      case (Relaying m')
      with l from_node(1) show ?thesis unfolding relaying_def by force
    qed simp
    ultimately have "net_step push strict serve (Result_received n m) s \<noteq> None"
      using from_node(2) r(2) al copy_self[of m]
      by (auto simp: net_step_def user_step_def on_node_message_def osz result_ok_def)
    then show ?thesis by (intro exI[of _ "Result_received n m"]) simp
  next
    case pool
    with o have "waiters (nodes ?u) \<noteq> [] \<or> woken (nodes ?u) \<noteq> []" by (simp add: outstanding_def Let_def)
    with pc pool(1) bag ne have "woken (nodes ?u) \<noteq> [] \<and> items (nodes ?u) \<noteq> []"
      by (auto simp: pool_calm_def node_bag_def)
    then have "net_step push strict serve (Local Resume_dispatch) s \<noteq> None"
      using al by (auto simp: net_step_def user_step_def on_resume_def resume_pop_def pool_pop_def neq_Nil_conv
          split: prod.split)
    then show ?thesis by (intro exI[of _ "Local Resume_dispatch"]) simp
  qed
qed

lemma run_bounded:
  assumes "steady N s" and "list_all internal es" and "net_run push strict serve es s = Some s'"
  shows "length es + distance s' \<le> distance s \<and> steady N s'"
  using assms
proof (induction es arbitrary: s)
  case (Cons e es)
  then obtain s1 where s1: "net_step push strict serve e s = Some s1" "net_run push strict serve es s1 = Some s'"
    by (auto simp: bind_eq_Some_conv)
  have "calm good e" using Cons.prems(2) by (cases "(good, e)" rule: calm.cases) auto
  then have "steady N s1" using steady_step[OF Cons.prems(1) _ s1(1)] by blast
  with Cons.IH[OF _ _ s1(2)] Cons.prems(2) distance_step[OF Cons.prems(1) _ s1(1)] show ?case by auto
qed simp

end

section \<open>The node of the benchmark\<close>

definition good_input :: "message \<Rightarrow> message \<Rightarrow> bool" where
  "good_input cfg m \<longleftrightarrow> is_valid_config cfg \<and> benchmark_config cfg \<and> well_allocated m \<and>
     is_valid_data_of m (cfg_input_size cfg) = Some True \<and> 12 \<le> unat (payload_size m) \<and>
     8 \<le> unat (cfg_output_size cfg) * unat (get_data_size m div cfg_input_size cfg)"

lemma good_input_served:
  assumes "good_input cfg m"
  shows "\<exists>r. benchmark_serve fresh cfg n m = Some r \<and> well_allocated r \<and>
    is_valid_data_of r (cfg_output_size cfg) = Some True"
proof -
  have c: "is_valid_config cfg" "benchmark_config cfg" and a: "well_allocated m"
    using assms by (simp_all add: good_input_def)
  obtain r where r: "node_process (fresh n m) cfg m = Reply r"
    using node_process_cases[OF c(2) a, of "fresh n m"] assms by (auto simp: good_input_def)
  then have "benchmark_serve fresh cfg n m = Some r"
    using c by (simp add: benchmark_serve_def node_main_def config_received_def)
  with node_reply(1,2)[OF c(2) a r] show ?thesis by blast
qed

lemma good_input_copy: "good_input cfg m \<Longrightarrow> copy m m' \<Longrightarrow> good_input cfg m'"
  using data_copy(2)[of m m'] by (auto simp: good_input_def copy_def same_content_def get_data_size_def)

lemma good_inputD:
  "good_input cfg m \<Longrightarrow> well_allocated m"
  "good_input cfg m \<Longrightarrow> is_valid_data_of m (cfg_input_size cfg) = Some True"
  by (simp_all add: good_input_def)

interpretation prompt_benchmark: prompt_service "benchmark_serve fresh cfg" "data_key (cfg_input_size cfg)"
  "data_key (cfg_output_size cfg)" "good_input cfg" "cfg_input_size cfg" "cfg_output_size cfg"
  for fresh :: "'n \<Rightarrow> message \<Rightarrow> mem" and cfg
  by unfold_locales (fact good_inputD good_input_copy good_input_served)+

interpretation prompt_queue: prompt_system "benchmark_serve fresh cfg" "data_key (cfg_input_size cfg)"
  "data_key (cfg_output_size cfg)" "good_input cfg" "cfg_input_size cfg" "cfg_output_size cfg" queue_push
  for fresh :: "'n \<Rightarrow> message \<Rightarrow> mem" and cfg
  by unfold_locales

interpretation prompt_stack: prompt_system "benchmark_serve fresh cfg" "data_key (cfg_input_size cfg)"
  "data_key (cfg_output_size cfg)" "good_input cfg" "cfg_input_size cfg" "cfg_output_size cfg" stack_push
  for fresh :: "'n \<Rightarrow> message \<Rightarrow> mem" and cfg
  by unfold_locales

lemma start_steady:
  assumes st: "start push c0 d0 r0 conns first comps rec = Inr u0" and p: "push = queue_push \<or> push = stack_push"
    and "well_allocated (config u0)" and "copy (config u0) cfg"
  shows "prompt_benchmark.steady cfg (configured comps) (start_net u0)"
proof -
  note sh = start_shape[OF st p]
  have "cfg_input_size cfg = cfg_input_size (config u0)" "cfg_output_size cfg = cfg_output_size (config u0)"
    using config_copy(2,3)[of "config u0" cfg] sh assms(3,4) by (simp_all add: copy_def)
  moreover have "set (loops u0) = set (map (\<lambda>n. (n, Receiving)) (configured comps))"
    using sh mset_eq_setD by blast
  then have "relaying u0 = []" by (auto simp: relaying_def)
  moreover have "mset (map fst (loops u0)) = mset (configured comps)"
    using sh by (simp add: multiset.map_comp comp_def)
  ultimately show ?thesis
    using sh unfolding prompt_benchmark.steady_def prompt_benchmark.pool_calm_def
    by (simp add: Let_def start_net_def node_bag_def outstanding_def)
qed

lemma calm_steady:
  assumes st: "start push c0 d0 r0 conns first comps rec = Inr u0" and p: "push = queue_push \<or> push = stack_push"
    and "well_allocated (config u0)" and "copy (config u0) cfg"
    and r: "calm_reachable push strict (benchmark_serve fresh cfg) (good_input cfg) (start_net u0) s"
  shows "prompt_benchmark.steady cfg (configured comps) s"
  using p r start_steady[OF assms(1-4)] prompt_queue.steady_reachable prompt_stack.steady_reachable by blast

text \<open>
  C5: when nothing fails and the user only sends inputs the node can answer, with at least
  one configured node: the session never crashes; whatever the order of the internal steps
  (sends, nodes serving, receives, relays, woken dispatches), there are at most \<open>distance s\<close> of
  them before the user sends again; and when none is possible any more, exactly one
  result, the right one, has been relayed for every input accepted, and the session reads on.
\<close>

theorem results_delivered:
  assumes "start push c0 d0 r0 conns first comps rec = Inr u0"
    and "push = queue_push \<or> push = stack_push" and "configured comps \<noteq> []"
    and "well_allocated (config u0)" and "copy (config u0) cfg"
    and "calm_reachable push strict (benchmark_serve fresh cfg) (good_input cfg) (start_net u0) s"
    and "list_all internal es" and "net_run push strict (benchmark_serve fresh cfg) es s = Some s'"
  shows "main (session s') \<in> {Reading, Dispatching} \<and> length es \<le> distance s \<and>
    ((\<forall>e. internal e \<longrightarrow> net_step push strict (benchmark_serve fresh cfg) e s' = None) \<longrightarrow>
      main (session s') = Reading \<and>
      image_mset (data_key (cfg_output_size cfg)) (mset (relayed (session s'))) =
      image_mset (data_key (cfg_input_size cfg)) (mset (accepted (session s'))))"
proof -
  note st = calm_steady[OF assms(1,2,4,5,6)]
  have b: "length es + distance s' \<le> distance s \<and> prompt_benchmark.steady cfg (configured comps) s'"
    using assms(2,8) prompt_queue.run_bounded[OF st assms(7)] prompt_stack.run_bounded[OF st assms(7)] by blast
  then have st': "prompt_benchmark.steady cfg (configured comps) s'" ..
  have m: "main (session s') \<in> {Reading, Dispatching}"
    using st' by (auto simp: prompt_benchmark.steady_def prompt_benchmark.pool_calm_def Let_def)
  have net: "net_reachable push strict (benchmark_serve fresh cfg) (start_net u0) s'"
    using net_run_reachable[OF calm_net[OF assms(6)] assms(8)] .
  have finished: "main (session s') = Reading \<and>
      image_mset (data_key (cfg_output_size cfg)) (mset (relayed (session s'))) =
      image_mset (data_key (cfg_input_size cfg)) (mset (accepted (session s')))"
    if stop: "\<forall>e. internal e \<longrightarrow> net_step push strict (benchmark_serve fresh cfg) e s' = None"
  proof -
    have o: "outstanding s' = 0"
    proof (rule ccontr)
      assume "outstanding s' \<noteq> 0"
      note pr = prompt_queue.progress[OF st' assms(3) this, where fresh = fresh and strict = strict]
        prompt_stack.progress[OF st' assms(3) this, where fresh = fresh and strict = strict]
      from assms(2) pr stop show False by (elim disjE) auto
    qed
    then have "length (accepted (session s')) = length (relayed (session s'))" "main (session s') = Reading"
      using st' by (auto simp: prompt_benchmark.steady_def prompt_benchmark.pool_calm_def Let_def outstanding_def)
    moreover have "image_mset (data_key (cfg_output_size cfg)) (mset (relayed (session s'))) \<subseteq>#
      image_mset (data_key (cfg_input_size cfg)) (mset (accepted (session s')))"
      using benchmark.results_bounded[OF assms(1,2) net] m by auto
    ultimately show ?thesis
      by (metis mset_subset_size nat_neq_iff size_image_mset size_mset subset_mset.le_imp_less_or_eq)
  qed
  show ?thesis using m b finished by simp
qed

section \<open>A sample run\<close>

lemma bench_good: "good_input bench_config bench_input"
  using bench_facts sending_input_fields(3,4)[where fresh = "\<lambda>_. 0" and i = 5 and stamp = "[1, 2, 3, 4, 5, 6, 7, 8]"]
  by (simp add: good_input_def)

lemma bench_calm_run:
  "\<exists>outp s s'. net_step queue_push True (benchmark_serve (\<lambda>_ _ _. 0) bench_config)
      (Local (User_message (Inr bench_input))) (start_net bench_user) = Some s \<and>
    net_run queue_push True (benchmark_serve (\<lambda>_ _ _. 0) bench_config)
      [Input_sent 1 bench_input, Node_serves 1, Result_received 1 outp, Local (Relayed 1 outp None)] s = Some s' \<and>
    distance s = 4 \<and> relayed (session s') = [outp]"
proof -
  obtain outp where o: "benchmark_serve (\<lambda>_ _ _. 0) bench_config (1 :: nat) bench_input = Some outp"
    "well_allocated outp" "is_valid_data_of outp (64 * 64 * 4) = Some True"
    using good_input_served[OF bench_good] bench_facts(3) by metis
  then show ?thesis
    using bench_facts copy_self[OF o(2)] copy_self[OF bench_facts(7)]
    by (intro exI[of _ outp]) (simp add: net_step_def start_net_def bench_user_def demo_run_simps
        distance_def relaying_def del: One_nat_def)
qed

theorem results_delivered_witness:
  "\<exists>outp (s :: nat net) s'. distance s = 4 \<and> net_run queue_push True (benchmark_serve (\<lambda>_ _ _. 0) bench_config)
      [Input_sent 1 bench_input, Node_serves 1, Result_received 1 outp, Local (Relayed 1 outp None)] s = Some s' \<and>
    relayed (session s') = [outp] \<and> main (session s') \<in> {Reading, Dispatching}"
proof -
  obtain outp s s' where s: "net_step queue_push True (benchmark_serve (\<lambda>_ _ _. 0) bench_config)
      (Local (User_message (Inr bench_input))) (start_net bench_user) = Some s"
    "net_run queue_push True (benchmark_serve (\<lambda>_ _ _. 0) bench_config)
      [Input_sent 1 bench_input, Node_serves 1, Result_received 1 outp, Local (Relayed 1 outp None)] s = Some s'"
    "distance s = 4" "relayed (session s') = [outp]"
    using bench_calm_run by blast
  have c: "config bench_user = bench_config" by (simp add: bench_user_def)
  have w: "well_allocated bench_config" by (rule benchmarking_config_fields(2))
  have "calm_reachable queue_push True (benchmark_serve (\<lambda>_ _ _. 0) bench_config) (good_input bench_config)
      (start_net bench_user) s"
    using calm_reachable.step[OF calm_reachable.initial _ s(1)] bench_good by simp
  with results_delivered[OF bench_start _ _ _ _ this _ s(2)] c w copy_self[OF w] s show ?thesis
    by (auto simp: configured_def)
qed

end
