(* ===== verification/Spec2Isabelle.thy ===== *)
theory Spec2Isabelle
  imports Fpga_Registers Fpga_Dma Dma_I2c_Read Socal Utils Board Safe_Queue Benchmark_Loops Delivery
begin

text \<open>
  A verification library of the distributed computing framework: a server that relays the
  data of a user to a pool of nodes, and the node that configures its FPGA and moves data to
  it; with the clients and the board program that exercise them.

  \<^bold>\<open>The program and its model.\<close>

  \<^item> \<^theory_text>\<open>Prelude\<close>: machine integers, little-endian packing, memory regions, the status codes of
    \<^verbatim>\<open>node/FPGAconfig/hwlib.h\<close>, shared lemmas and the collections the proofs use.

  \<^item> \<^theory_text>\<open>Mmio\<close> (\<^verbatim>\<open>node/FPGAconfig/socal.h\<close>): register access as a state monad.  The hardware is a
    parameter: a device answers a read from the trace of all accesses so far, so nothing is
    assumed of it that a theorem does not name.  Every access is recorded in the trace, and
    the theorems speak of traces.  \<^theory_text>\<open>Socal\<close> has the accessors of the other widths, with the
    integer promotions of C.

  \<^item> \<^theory_text>\<open>Fpga_Manager\<close> (\<^verbatim>\<open>alt_fpga_manager.c\<close>, the constants of \<^verbatim>\<open>alt_fpgamgr.h\<close> and \<^verbatim>\<open>hps.h\<close>,
    \<^verbatim>\<open>writeConfig.hpp\<close>): taking and returning control, the control word of each mode, resets and
    their bounded waits, the PIO transfer loops over a buffer or a stream, the configuration
    sequence, interrupts and general-purpose ports.  \<^theory_text>\<open>Fpga_Dma\<close> has the same sequence as it is built
    with \<open>ALT_FPGA_ENABLE_DMA_SUPPORT\<close>, over the state of the DMA driver; without a request for DMA
    it is proved to be the default one.

  \<^item> \<^theory_text>\<open>Hps_Map\<close> (\<^verbatim>\<open>hps.h\<close>): the address map, each component instance and register group with its offset
    and size.  \<^theory_text>\<open>Fpgamgr_Regs\<close> (\<^verbatim>\<open>alt_fpgamgr.h\<close>, \<^verbatim>\<open>alt_fpgamgrdata.h\<close>): the registers of the FPGA manager, every field
    with all its macros.  \<^theory_text>\<open>Fpga_Registers\<close> puts the driver on that map.

  \<^item> \<^theory_text>\<open>Dma\<close> (\<^verbatim>\<open>alt_dma.c\<close>, lines 78 to 1122): the PL330 driver: initialisation for both devices,
    channels, events and interrupts.  The assembler it calls (\<^verbatim>\<open>alt_dma_program\<close>, not in the
    repository) and the address translation are fields of \<open>dma_env\<close>; \<open>ccr_opts\<close> holds the
    constants of that missing header.
    It also has the start of the error correction (lines 5730 to 5842).
    \<^theory_text>\<open>Dma_Program\<close> (lines 1123 to 2619): the transfers between memory and memory, zero, and a
    register, each as the list of assembler calls it makes.
    \<^theory_text>\<open>Dma_Periph\<close> (lines 2621 to 5728): the transfers to and from UART, QSPI flash and I2C and their
    dispatch; \<open>periph_env\<close> holds the addresses and fields of the missing register headers.

  \<^item> \<^theory_text>\<open>Pl330\<close>, \<^theory_text>\<open>Dma_Words\<close>, \<^theory_text>\<open>Dma_Transfer\<close>: the specification those programs are proved
    against.  \<^theory_text>\<open>Pl330\<close> gives the assembler calls the meaning of the instructions they are named
    after, among them the requests of a peripheral: a wait is granted a credit of bytes (\<open>room\<close>),
    and a load or store beyond it does not step; a read from a fixed source is of memory (\<open>cells\<close>) or
    else of a device.  \<^theory_text>\<open>Dma_Words\<close> unrolls the loops and decodes the channel control words;
    \<^theory_text>\<open>Dma_Transfer\<close> shows what every segment program does to memory and to the register.

  \<^item> \<^theory_text>\<open>Dma_Driver\<close>: both together: what a call of the driver assembles, starts, and thereby does;
    \<^theory_text>\<open>Dma_Uart\<close>, \<^theory_text>\<open>Dma_Flash\<close> and \<^theory_text>\<open>Dma_I2c\<close> the same for the UART, the QSPI flash and an I2C slave,
    \<^theory_text>\<open>Dma_I2c_Master\<close> and \<^theory_text>\<open>Dma_I2c_Read\<close> for an I2C master: the commands it orders, and how a read
    paces them by the FIFO.

  \<^item> \<^theory_text>\<open>Block\<close> (\<^verbatim>\<open>utils/src/Block.cpp\<close>, \<^verbatim>\<open>utils/include/Block.hpp\<close>): the thread that feeds an FPGA
    block, as one step per access to what it shares, and a node with any number of such threads.
    \<^theory_text>\<open>Safe_Queue\<close> (\<^verbatim>\<open>utils/include/safeQ.hpp\<close>) is the queue between them at the grain of its lock and of the
    accesses to the \<open>std::queue\<close> inside.  \<^theory_text>\<open>Board\<close> (\<^verbatim>\<open>test/main.cpp\<close>, \<^verbatim>\<open>node/main.cpp\<close>,
    \<^verbatim>\<open>node/globals.hpp\<close>) maps the bridges, sets eleven blocks up and runs the two threads that feed
    them and collect their results.  \<^theory_text>\<open>Utils\<close> (\<^verbatim>\<open>utils/src/utils.cpp\<close>) has the helpers for commands and
    files.

  \<^item> \<^theory_text>\<open>Message\<close> (\<^verbatim>\<open>server/Message.hpp\<close>): the wire format, its constructors and validity checks.
    \<^theory_text>\<open>Connection\<close> (\<^verbatim>\<open>server/Connection.hpp\<close>): sending and receiving over a byte stream that splits
    and fails as it likes.
    \<^theory_text>\<open>Pool\<close> (\<^verbatim>\<open>server/Queue.hpp\<close>, \<^verbatim>\<open>Stack.hpp\<close>, \<^verbatim>\<open>Counter.hpp\<close>, \<^verbatim>\<open>Event.hpp\<close>,
    \<^verbatim>\<open>utils/include/safeQ.hpp\<close>): the containers, behind two locales that fix their order.
    \<^theory_text>\<open>User\<close> (\<^verbatim>\<open>server/User_Queue.hpp\<close>, \<^verbatim>\<open>User_Stack.hpp\<close>): a user session as a transition system
    over the suspension points of its coroutines; one step is what runs between two of them.
    \<^theory_text>\<open>Message_Print\<close> (the printing of \<^verbatim>\<open>server/Message.hpp\<close>): the strings, and where they are read from.
    \<^theory_text>\<open>Server\<close> (\<^verbatim>\<open>server/Server.hpp\<close>): the two accept loops around the session.

  \<^item> \<^theory_text>\<open>Benchmark\<close> (\<^verbatim>\<open>server/test_node.cpp\<close>, \<^verbatim>\<open>server/test_user.cpp\<close>): what the two clients send,
    accept and answer; \<^theory_text>\<open>Benchmark_Loops\<close>: the two loops of the user, and when they end.  \<^theory_text>\<open>Network\<close> composes the session with its nodes: messages under way on the
    connections, sends and receives that fail, nodes that fault; a node is what a locale asks
    of it (\<open>node_service\<close>), and the benchmark node is its instance.  \<^theory_text>\<open>Delivery\<close> is the case
    in which nothing fails: a measure on the steps under way, and progress.

  \<^bold>\<open>What the lemmas show.\<close>

  \<^item> Configuration: success means that the complete words of the image were sent, in order, only while
    the data slave was open and the FPGA out of reset, and that the FPGA was seen in user mode; where
    the length is no multiple of four, the last bytes sent are the first of the image and not its
    last, so the image arrives exactly if these are the same; a refused call
    writes nothing; control is returned on every path.  The waits are decided by their samples.

  \<^item> Registers: the macros of every field agree with each other and with the structs, fields are
    updated without disturbing one another, the constants of the driver are those of the headers,
    and no sequence of calls leaves the registers and windows of the FPGA manager.

  \<^item> DMA, with the default address translation and at least one byte: for every alignment and register
    width, a transfer that reports success has started a program whose run copies (zeroes, sends,
    receives) exactly the requested bytes and leaves the rest of memory alone, and one that fails has
    written no register; a transfer to or from a peripheral also stays within what each of its
    requests grants.  The limits are in the statements: buffers to copy between are disjoint (those
    that share two bytes or more are refused, one byte is missed); the bytes of register items count
    modulo \<open>2 ^ 32\<close>; UART and I2C transfers are below \<open>2 ^ 31\<close> bytes; the QSPI controller uses single
    requests of 4 or 8 bytes, and with 8 the last word of an unaligned buffer is not moved.  Kill and
    allocation have their exact verdicts.

  \<^item> Blocks: every chunk pushed is in one place at a time and comes out with the hardware's answers
    to its items, in every interleaving; the work loop equals a map over the queue.

  \<^item> Messages: building, parsing and sending round trip; the receiver finds the same messages
    however the stream is split, and over-long or malformed ones are refused; printing a received
    message reads nothing outside it, but for two kinds of message that are named.

  \<^item> Queues of threads: the calls on a \<open>SafeQ\<close> are linearizable to the atomic queue, without
    deadlock, and \<open>empty\<close> is the only call that races.  The board program, where the kernel maps the
    bridge for it, collects exactly one right result for each chunk, for every answer of the racing
    \<open>empty\<close>, and no access of a block leaves the mapping or meets another's; where the mapping fails,
    the program faults.

  \<^item> The system: every result the user gets answers one of its inputs, whatever fails; when nothing
    fails, every input is answered after a bounded number of steps.  The clients understand each other.

  \<^item> Sessions: how a session starts, for every first message; no input is lost or duplicated, no node
    serves two senders, a reconfiguration waits for the results; with no failed send and no size of
    zero no session crashes; and the two states in which a session waits for ever.
    The server gives its only session the nodes that came before the user.

  \<^bold>\<open>Bounds and fuel.\<close>  Every loop of the driver that polls the hardware is bounded by the code, and
  the bound is the model's (20000 polls, a timeout in rounds); the byte and word loops recur on
  the size left.  The segment loops of \<^theory_text>\<open>Dma_Program\<close> run over segments the address translation
  chooses and take fuel, answering \<open>None\<close> when it runs out; with the translation the file itself
  supplies a buffer is one segment, and the theorems of \<^theory_text>\<open>Dma_Driver\<close> hold for every fuel from
  one round on, with a result.  The I2C read loop of \<^theory_text>\<open>Dma_Periph\<close> takes a round of the same fuel per
  half FIFO, and a fuel above the size is enough.  Streams of \<^theory_text>\<open>Connection\<close> are finite event lists.

  \<^bold>\<open>Findings.\<close>  The theorems \<open>writeaxi_delivers_iff\<close>, \<open>overlap_of_one_byte_missed\<close>,
  \<open>qspi_last_word_dropped\<close>, \<open>failed_mapping_faults\<close>, \<open>print_received_inside\<close>, \<open>session_crash\<close>,
  \<open>demo_stuck\<close> and \<open>relays_overlap\<close> state defects of the code as they are; the definitions are
  the code's, not repaired.

  \<^bold>\<open>Not modelled.\<close>  The assembler and the address translation tables are not in the repository.
  The offsets of registers of other components are in headers the repository does not have, so
  \<^theory_text>\<open>Hps_Map\<close> ends at the register groups.
  A result is relayed to the user in one step: the bytes of two results that are written at the
  same time do not mix in the model, in the code they can.  \<^verbatim>\<open>Block::state\<close> is an atomic word, and the
  race of the unlocked \<open>empty\<close> is an arbitrary answer; in C++ both are data races.
  \<^verbatim>\<open>writeRange128\<close> of the block is never called.  Of the console output the model has the printing
  of messages and of matrices.  Of the clients and the board program,
  timers, clocks, sleeps and statistics are left out.  The benchmark scripts measure and plot.
\<close>

end
